(* ===== verification/Prelude.thy ===== *)
theory Prelude
  imports Main "HOL-Library.Word"
begin

text \<open>
  Shared vocabulary of the development.

  \<^item> JavaScript's \<open>Uint8Array\<close> is a list of 8-bit words, a \<open>throw\<close> is the \<open>Inl\<close> of a sum
    whose right side is the value returned; \<open>rbind\<close> sequences two computations that may throw.
  \<^item> Big- and little-endian readings of byte strings, and the loop
    \<open>while (v > 0) { bytes.unshift(v & 0xff); v = Math.floor(v / 256); }\<close>
    that several encoders repeat.
  \<^item> The few functions of \<open>String.prototype\<close> the components use, on HOL strings
    (code units below 256).
  \<^item> Collections of facts: \<open>byte_simps\<close> (words and their naturals) and \<open>result_simps\<close>
    (sequencing).
\<close>

unbundle bit_operations_syntax

named_theorems byte_simps "facts relating bytes and the naturals they denote"
named_theorems result_simps "facts about sequencing of computations that may throw"

type_synonym byte = "8 word"
type_synonym bytes = "byte list"

subsection \<open>Computations that may throw\<close>

definition rbind :: "'e + 'a \<Rightarrow> ('a \<Rightarrow> 'e + 'b) \<Rightarrow> 'e + 'b" where
  "rbind m f = (case m of Inl e \<Rightarrow> Inl e | Inr x \<Rightarrow> f x)"

fun rmap :: "('a \<Rightarrow> 'e + 'b) \<Rightarrow> 'a list \<Rightarrow> 'e + 'b list" where
  "rmap f [] = Inr []"
| "rmap f (x # xs) = rbind (f x) (\<lambda>y. rbind (rmap f xs) (\<lambda>ys. Inr (y # ys)))"

definition is_ok :: "'e + 'a \<Rightarrow> bool" where
  "is_ok m = (case m of Inl _ \<Rightarrow> False | Inr _ \<Rightarrow> True)"

lemma rbind_simps [simp, result_simps]:
  "rbind (Inl e) f = Inl e"
  "rbind (Inr x) f = f x"
  by (simp_all add: rbind_def)

lemma rbind_cong [fundef_cong]:
  "m = m' \<Longrightarrow> (\<And>x. m' = Inr x \<Longrightarrow> f x = g x) \<Longrightarrow> rbind m f = rbind m' g"
  by (cases m') auto

lemma rbind_eq_Inr [result_simps]: "rbind m f = Inr y \<longleftrightarrow> (\<exists>x. m = Inr x \<and> f x = Inr y)"
  by (cases m) auto

lemma rbind_eq_Inl [result_simps]:
  "rbind m f = Inl e \<longleftrightarrow> m = Inl e \<or> (\<exists>x. m = Inr x \<and> f x = Inl e)"
  by (cases m) auto

lemma is_ok_simps [simp]: "is_ok (Inr x)" "\<not> is_ok (Inl e)"
  by (simp_all add: is_ok_def)

lemma is_ok_iff: "is_ok m \<longleftrightarrow> (\<exists>x. m = Inr x)"
  by (cases m) auto

lemma rmap_eq_Inr_length: "rmap f xs = Inr ys \<Longrightarrow> length ys = length xs"
  by (induction xs arbitrary: ys) (auto simp: rbind_eq_Inr)

lemma rmap_Inr: "(\<And>x. x \<in> set xs \<Longrightarrow> f x = Inr (g x)) \<Longrightarrow> rmap f xs = Inr (map g xs)"
  by (induction xs) auto

subsection \<open>Bytes and the numbers they denote\<close>

text \<open>What storing a number in an element of a \<open>Uint8Array\<close> keeps: its low eight bits.\<close>

definition byte_of :: "nat \<Rightarrow> byte" where
  "byte_of n = word_of_nat n"

definition be_nat :: "bytes \<Rightarrow> nat" where
  "be_nat bs = foldl (\<lambda>v b. v * 256 + unat b) 0 bs"

definition le_nat :: "bytes \<Rightarrow> nat" where
  "le_nat bs = be_nat (rev bs)"

function be_loop :: "nat \<Rightarrow> bytes \<Rightarrow> bytes" where
  "be_loop v acc = (if v = 0 then acc else be_loop (v div 256) (byte_of v # acc))"
  by pat_completeness auto
termination
  by (relation "measure fst") auto

declare be_loop.simps [simp del]

lemma be_nat_foldl: "foldl (\<lambda>v b. v * 256 + unat b) a bs = a * 256 ^ length bs + be_nat bs"
proof (induction bs arbitrary: a)
  case Nil
  then show ?case by (simp add: be_nat_def)
next
  case (Cons b bs)
  have "foldl (\<lambda>v b. v * 256 + unat b) a (b # bs) =
      (a * 256 + unat b) * 256 ^ length bs + be_nat bs"
    using Cons.IH [of "a * 256 + unat b"] by simp
  moreover have "be_nat (b # bs) = unat b * 256 ^ length bs + be_nat bs"
    using Cons.IH [of "unat b"] by (simp add: be_nat_def)
  ultimately show ?case by (simp add: add_mult_distrib)
qed

lemma be_nat_Nil [simp]: "be_nat [] = 0"
  by (simp add: be_nat_def)

lemma be_nat_Cons: "be_nat (b # bs) = unat b * 256 ^ length bs + be_nat bs"
  using be_nat_foldl [of "unat b" bs] by (simp add: be_nat_def)

lemma be_nat_append: "be_nat (xs @ ys) = be_nat xs * 256 ^ length ys + be_nat ys"
  using be_nat_foldl [of "be_nat xs" ys] by (simp add: be_nat_def)

lemma be_nat_snoc [simp]: "be_nat (xs @ [b]) = be_nat xs * 256 + unat b"
  by (simp add: be_nat_append be_nat_Cons)

lemma byte_less_256 [byte_simps]: "unat (b :: byte) < 256"
  using unsigned_less [of b] by simp

lemma unat_byte_of [simp, byte_simps]: "unat (byte_of n) = n mod 256"
  by (simp add: byte_of_def unat_of_nat)

lemma byte_of_unat [simp]: "byte_of (unat b) = b"
  by (simp add: byte_of_def)

lemma be_nat_less: "be_nat bs < 256 ^ length bs"
proof (induction bs rule: rev_induct)
  case Nil
  then show ?case by simp
next
  case (snoc b bs)
  have "unat b < 256" by (rule byte_less_256)
  with snoc.IH have "be_nat bs * 256 + unat b < 256 ^ length bs * 256" by linarith
  then show ?case by simp
qed

lemma be_nat_inject:
  "length xs = length ys \<Longrightarrow> be_nat xs = be_nat ys \<Longrightarrow> xs = ys"
proof (induction xs arbitrary: ys rule: rev_induct)
  case Nil
  then show ?case by simp
next
  case (snoc x xs)
  then obtain y ys' where ys: "ys = ys' @ [y]" and len: "length xs = length ys'"
    by (cases ys rule: rev_cases) auto
  from snoc.prems(2) have eq: "be_nat xs * 256 + unat x = be_nat ys' * 256 + unat y"
    by (simp add: ys)
  have "unat x = unat y"
    using arg_cong [OF eq, of "\<lambda>n. n mod 256"] byte_less_256 [of x] byte_less_256 [of y] by simp
  moreover with eq have "be_nat xs = be_nat ys'" by simp
  ultimately show ?case using snoc.IH [OF len] by (simp add: ys word_unat_eq_iff)
qed

lemma be_loop_acc: "be_loop v acc = be_loop v [] @ acc"
proof (induction v arbitrary: acc rule: less_induct)
  case (less v)
  show ?case
  proof (cases "v = 0")
    case True
    then show ?thesis by (simp add: be_loop.simps)
  next
    case False
    then have "v div 256 < v" by simp
    then have "be_loop (v div 256) (byte_of v # acc) = be_loop (v div 256) [] @ byte_of v # acc"
      and "be_loop (v div 256) [byte_of v] = be_loop (v div 256) [] @ [byte_of v]"
      by (rule less.IH)+
    with False show ?thesis by (simp add: be_loop.simps [of v])
  qed
qed

lemma be_loop_0 [simp]: "be_loop 0 acc = acc"
  by (simp add: be_loop.simps)

lemma be_loop_pos: "0 < v \<Longrightarrow> be_loop v [] = be_loop (v div 256) [] @ [byte_of v]"
  by (subst be_loop.simps) (simp add: be_loop_acc [of _ "[_]"])

lemma be_nat_be_loop [simp]: "be_nat (be_loop v []) = v"
proof (induction v rule: less_induct)
  case (less v)
  show ?case
  proof (cases "v = 0")
    case False
    then have "be_nat (be_loop (v div 256) []) = v div 256" by (intro less.IH) simp
    with False show ?thesis by (simp add: be_loop_pos)
  qed simp
qed

lemma length_be_loop_le_iff: "length (be_loop v []) \<le> n \<longleftrightarrow> v < 256 ^ n"
proof (induction v arbitrary: n rule: less_induct)
  case (less v)
  show ?case
  proof (cases "v = 0")
    case False
    show ?thesis
    proof (cases n)
      case 0
      with False show ?thesis by (simp add: be_loop_pos)
    next
      case (Suc m)
      have "length (be_loop (v div 256) []) \<le> m \<longleftrightarrow> v div 256 < 256 ^ m"
        using False by (intro less.IH) simp
      with False Suc show ?thesis by (simp add: be_loop_pos div_less_iff_less_mult mult.commute)
    qed
  qed simp
qed

lemma be_loop_nonempty: "0 < v \<Longrightarrow> be_loop v [] \<noteq> []"
  by (simp add: be_loop_pos)

lemma hd_be_loop: "0 < v \<Longrightarrow> hd (be_loop v []) \<noteq> 0"
proof (induction v rule: less_induct)
  case (less v)
  show ?case
  proof (cases "v div 256 = 0")
    case True
    with less.prems have "unat (byte_of v) = v" by simp
    with less.prems have "byte_of v \<noteq> 0" by (metis unsigned_0 less_numeral_extra(3))
    with True less.prems show ?thesis by (simp add: be_loop_pos)
  next
    case False
    with less.prems have "hd (be_loop (v div 256) []) \<noteq> 0" by (intro less.IH) simp_all
    with False less.prems show ?thesis by (simp add: be_loop_pos [of v] be_loop_nonempty)
  qed
qed

text \<open>\<open>n\<close> bytes, most significant first: the loop that fills an array from its last index down.\<close>

fun be_fixed :: "nat \<Rightarrow> nat \<Rightarrow> bytes" where
  "be_fixed 0 m = []"
| "be_fixed (Suc n) m = be_fixed n (m div 256) @ [byte_of m]"

lemma length_be_fixed [simp]: "length (be_fixed n m) = n"
  by (induction n arbitrary: m) simp_all

lemma be_nat_be_fixed [simp]: "be_nat (be_fixed n m) = m mod 256 ^ n"
proof (induction n arbitrary: m)
  case (Suc n)
  have "m mod (256 * 256 ^ n) = 256 * (m div 256 mod 256 ^ n) + m mod 256"
    by (simp add: mod_mult2_eq)
  with Suc show ?case by simp
qed simp

lemma be_fixed_be_nat [simp]: "be_fixed (length bs) (be_nat bs) = bs"
  by (rule be_nat_inject) (simp_all add: be_nat_less)

subsection \<open>Decimal numerals\<close>

fun show_nat :: "nat \<Rightarrow> string" where
  "show_nat n = (if n < 10 then [char_of (48 + n)] else show_nat (n div 10) @ [char_of (48 + n mod 10)])"

declare show_nat.simps [simp del]

subsection \<open>Masks and shifts\<close>

lemma or_eq_add_nat: "x < 2 ^ k \<Longrightarrow> push_bit k a OR x = a * 2 ^ k + (x :: nat)"
proof -
  assume "x < 2 ^ k"
  then have "take_bit k x = x" by (simp add: take_bit_eq_mod)
  then have "push_bit k a OR x = push_bit k a + x"
    by (intro disjunctive_add [symmetric]) (metis bit_push_bit_iff bit_take_bit_iff not_less)
  then show ?thesis by (simp add: push_bit_eq_mult)
qed

lemma and_field_nat: "(x :: nat) AND push_bit k (mask n) = x div 2 ^ k mod 2 ^ n * 2 ^ k"
proof -
  have "x AND push_bit k (mask n) = push_bit k (drop_bit k x AND mask n)"
    by (rule bit_eqI) (auto simp: bit_and_iff bit_push_bit_iff bit_drop_bit_eq)
  then show ?thesis
    by (simp add: push_bit_eq_mult drop_bit_eq_div take_bit_eq_mod flip: take_bit_eq_mask)
qed

lemma nat_and_mask [byte_simps]:
  fixes n :: nat
  shows "n AND 0x3f = n mod 64"
    and "n AND 0x3ff = n mod 1024"
    and "n AND 7 = n mod 8"
    and "n AND 0xff = n mod 256"
proof -
  note mask_eq_exp_minus_1 [simp]
  show "n AND 0x3f = n mod 64"
    using and_field_nat [of n 0 6] by simp
  show "n AND 0x3ff = n mod 1024"
    using and_field_nat [of n 0 10] by simp
  show "n AND 7 = n mod 8"
    using and_field_nat [of n 0 3] by simp
  show "n AND 0xff = n mod 256"
    using and_field_nat [of n 0 8] by simp
qed

lemma unat_byte_and_mask [byte_simps]:
  fixes b :: byte
  shows "unat (b AND 0x01) = unat b mod 2"
    and "unat (b AND 0x07) = unat b mod 8"
    and "unat (b AND 0x0f) = unat b mod 16"
    and "unat (b AND 0x1f) = unat b mod 32"
    and "unat (b AND 0x3f) = unat b mod 64"
    and "unat (b AND 0x7f) = unat b mod 128"
    and "unat (b AND 0x20) = unat b div 32 mod 2 * 32"
    and "unat (b AND 0x80) = unat b div 128 mod 2 * 128"
    and "unat (b AND 0xc0) = unat b div 64 mod 4 * 64"
    and "unat (b AND 0xe0) = unat b div 32 mod 8 * 32"
proof -
  note unsigned_and_eq [simp] mask_eq_exp_minus_1 [simp] push_bit_eq_mult [simp]
  show "unat (b AND 0x01) = unat b mod 2"
    using and_field_nat [of "unat b" 0 1] by simp
  show "unat (b AND 0x07) = unat b mod 8"
    using and_field_nat [of "unat b" 0 3] by simp
  show "unat (b AND 0x0f) = unat b mod 16"
    using and_field_nat [of "unat b" 0 4] by simp
  show "unat (b AND 0x1f) = unat b mod 32"
    using and_field_nat [of "unat b" 0 5] by simp
  show "unat (b AND 0x3f) = unat b mod 64"
    using and_field_nat [of "unat b" 0 6] by simp
  show "unat (b AND 0x7f) = unat b mod 128"
    using and_field_nat [of "unat b" 0 7] by simp
  show "unat (b AND 0x20) = unat b div 32 mod 2 * 32"
    using and_field_nat [of "unat b" 5 1] by simp
  show "unat (b AND 0x80) = unat b div 128 mod 2 * 128"
    using and_field_nat [of "unat b" 7 1] by simp
  show "unat (b AND 0xc0) = unat b div 64 mod 4 * 64"
    using and_field_nat [of "unat b" 6 2] by simp
  show "unat (b AND 0xe0) = unat b div 32 mod 8 * 32"
    using and_field_nat [of "unat b" 5 3] by simp
qed

lemma byte_eq_iff: "(a :: byte) = b \<longleftrightarrow> unat a = unat b"
  by (rule word_unat_eq_iff)

lemma byte_less_iff: "(a :: byte) < b \<longleftrightarrow> unat a < unat b"
  by (rule word_less_nat_alt)

lemma byte_le_iff: "(a :: byte) \<le> b \<longleftrightarrow> unat a \<le> unat b"
  by (rule word_le_nat_alt)

end
