(* ===== verification/Krb5_Primitives.thy ===== *)
theory Krb5_Primitives
  imports Prelude
begin

text \<open>
  \<open>common/krb5/krb5_primitives.js\<close>: the byte helpers under the Kerberos codec.
  \<open>utf8\<close> / \<open>fromUtf8\<close> (a strict UTF-8 coder over JavaScript's UTF-16 strings), \<open>utf16le\<close>,
  \<open>toHex\<close> / \<open>fromHex\<close>, \<open>xor\<close>, \<open>equalConstantTime\<close>, the RFC 3961 n-fold and the RC4 cipher.
  \<open>concat(list)\<close>, which copies byte arrays one after the other, is HOL's \<open>concat\<close>, and \<open>toBytes\<close> is
  the identity on the one representation of this model.  A JavaScript string is the list of its
  UTF-16 code units.  The MD4 and MD5 digests of the same file are in \<open>Krb5_Digest\<close>.
\<close>

type_synonym u16 = "16 word"
type_synonym jstring = "u16 list"

text \<open>\<open>String.fromCharCode\<close> of one number.\<close>

definition u16_of :: "nat \<Rightarrow> u16" where
  "u16_of n = word_of_nat n"

subsection \<open>UTF-8\<close>

fun utf8_units :: "nat list \<Rightarrow> nat list" where
  "utf8_units [] = []"
| "utf8_units (c # rest) =
     (if c < 0x80 then c # utf8_units rest
      else if c < 0x800 then
        [0xc0 OR drop_bit 6 c, 0x80 OR (c AND 0x3f)] @ utf8_units rest
      else if 0xd800 \<le> c \<and> c \<le> 0xdbff \<and> rest \<noteq> [] then
        (let cp = 0x10000 + push_bit 10 (c - 0xd800) + hd rest - 0xdc00
         in [0xf0 OR drop_bit 18 cp, 0x80 OR (drop_bit 12 cp AND 0x3f),
             0x80 OR (drop_bit 6 cp AND 0x3f), 0x80 OR (cp AND 0x3f)] @ utf8_units (tl rest))
      else [0xe0 OR drop_bit 12 c, 0x80 OR (drop_bit 6 c AND 0x3f), 0x80 OR (c AND 0x3f)]
             @ utf8_units rest)"

definition utf8 :: "jstring \<Rightarrow> bytes" where
  "utf8 text = map byte_of (utf8_units (map unat text))"

fun utf8_tail :: "nat \<Rightarrow> bytes \<Rightarrow> nat option" where
  "utf8_tail cp [] = Some cp"
| "utf8_tail cp (cc # ccs) =
     (if cc AND 0xc0 \<noteq> 0x80 then None
      else utf8_tail (push_bit 6 cp OR unat (cc AND 0x3f)) ccs)"

text \<open>The number of continuation bytes, the payload of the lead byte and the least code point
  its form may carry; \<open>None\<close> is the \<open>return null\<close> of the last \<open>else\<close>.\<close>

definition utf8_lead :: "byte \<Rightarrow> (nat \<times> nat \<times> nat) option" where
  "utf8_lead c =
     (if 0xc2 \<le> c \<and> c \<le> 0xdf then Some (1, unat (c AND 0x1f), 0x80)
      else if 0xe0 \<le> c \<and> c \<le> 0xef then Some (2, unat (c AND 0x0f), 0x800)
      else if 0xf0 \<le> c \<and> c \<le> 0xf4 then Some (3, unat (c AND 0x07), 0x10000)
      else None)"

definition code_units :: "nat \<Rightarrow> jstring" where
  "code_units cp =
     (if 0x10000 \<le> cp
      then [u16_of (0xd800 + drop_bit 10 (cp - 0x10000)),
            u16_of (0xdc00 + ((cp - 0x10000) AND 0x3ff))]
      else [u16_of cp])"

function fromUtf8 :: "bytes \<Rightarrow> jstring option" where
  "fromUtf8 [] = Some []"
| "fromUtf8 (c # rest) =
     (if c < 0x80 then map_option (\<lambda>s. u16_of (unat c) # s) (fromUtf8 rest)
      else case utf8_lead c of
        None \<Rightarrow> None
      | Some (need, cp0, least) \<Rightarrow>
          if length rest < need then None
          else case utf8_tail cp0 (take need rest) of
            None \<Rightarrow> None
          | Some cp \<Rightarrow>
              if cp < least \<or> 0x10ffff < cp \<or> (0xd800 \<le> cp \<and> cp \<le> 0xdfff) then None
              else map_option (\<lambda>s. code_units cp @ s) (fromUtf8 (drop need rest)))"
  by pat_completeness auto
termination
  by (relation "measure length") auto

fun utf16le :: "jstring \<Rightarrow> bytes" where
  "utf16le [] = []"
| "utf16le (c # cs) =
     byte_of (unat (c AND 0xff)) # byte_of (unat (drop_bit 8 c AND 0xff)) # utf16le cs"

subsection \<open>Bytes\<close>

definition xor_bytes :: "bytes \<Rightarrow> bytes \<Rightarrow> bytes" where
  "xor_bytes a b = map2 (XOR) a b"

definition hex_digit :: "nat \<Rightarrow> char" where
  "hex_digit n = (if n < 10 then char_of (48 + n) else char_of (87 + n))"

definition toHex :: "bytes \<Rightarrow> string" where
  "toHex bs = concat (map (\<lambda>b. [hex_digit (unat b div 16), hex_digit (unat b mod 16)]) bs)"

text \<open>\<open>parseInt(s, 16)\<close> on a two-character string without white space, as ECMAScript defines it:
  an optional sign, an optional \<open>0x\<close>, then the longest prefix of hexadecimal digits;
  \<open>NaN\<close> (here \<open>None\<close>) if that prefix is empty.\<close>

definition hex_value :: "char \<Rightarrow> nat option" where
  "hex_value ch =
     (let c = of_char ch :: nat
      in if 48 \<le> c \<and> c \<le> 57 then Some (c - 48)
         else if 65 \<le> c \<and> c \<le> 70 then Some (c - 55)
         else if 97 \<le> c \<and> c \<le> 102 then Some (c - 87)
         else None)"

fun hex_prefix :: "nat option \<Rightarrow> string \<Rightarrow> nat option" where
  "hex_prefix acc [] = acc"
| "hex_prefix acc (ch # s) =
     (case hex_value ch of
        None \<Rightarrow> acc
      | Some d \<Rightarrow> hex_prefix (Some ((case acc of None \<Rightarrow> 0 | Some v \<Rightarrow> v) * 16 + d)) s)"

definition parseInt16 :: "string \<Rightarrow> int option" where
  "parseInt16 s =
     (let (sgn, s1) = (case s of
            ch # r \<Rightarrow> if ch = CHR ''-'' then (-1, r) else if ch = CHR ''+'' then (1, r) else (1, s)
          | [] \<Rightarrow> (1, s));
          s2 = (if take 2 s1 = ''0x'' \<or> take 2 s1 = ''0X'' then drop 2 s1 else s1)
      in map_option (\<lambda>n. sgn * int n) (hex_prefix None s2))"

datatype hex_error = HexOddLength | NotHex nat

definition is_space_or_colon :: "char \<Rightarrow> bool" where
  "is_space_or_colon ch =
     (let c = of_char ch :: nat in (9 \<le> c \<and> c \<le> 13) \<or> c = 32 \<or> c = 160 \<or> ch = CHR '':'')"

fun fromHex_pairs :: "nat \<Rightarrow> string \<Rightarrow> hex_error + bytes" where
  "fromHex_pairs i (a # b # s) =
     (case parseInt16 [a, b] of
        None \<Rightarrow> Inl (NotHex i)
      | Some v \<Rightarrow> rbind (fromHex_pairs (i + 2) s) (\<lambda>bs. Inr (word_of_int v # bs)))"
| "fromHex_pairs i s = Inr []"

definition fromHex :: "string \<Rightarrow> hex_error + bytes" where
  "fromHex text =
     (let s = filter (\<lambda>ch. \<not> is_space_or_colon ch) text
      in if length s mod 2 \<noteq> 0 then Inl HexOddLength else fromHex_pairs 0 s)"

fun or_diff :: "byte \<Rightarrow> bytes \<Rightarrow> bytes \<Rightarrow> byte" where
  "or_diff diff (a # as) (b # bs) = or_diff (diff OR (a XOR b)) as bs"
| "or_diff diff as bs = diff"

definition equalConstantTime :: "bytes \<Rightarrow> bytes \<Rightarrow> bool" where
  "equalConstantTime x y = (if length x \<noteq> length y then False else or_diff 0 x y = 0)"

fun gcd_loop :: "nat \<Rightarrow> nat \<Rightarrow> nat" where
  "gcd_loop a b = (if b = 0 then a else gcd_loop b (a mod b))"

declare gcd_loop.simps [simp del]

text \<open>One round of the n-fold: the input byte that lands at step \<open>i\<close> is added to the output byte
  \<open>i % outLen\<close>, and what overflows is carried to the next round.\<close>

definition nfold_msbit :: "nat \<Rightarrow> nat \<Rightarrow> nat" where
  "nfold_msbit inLen i =
     ((8 * inLen - 1) + (8 * inLen + 13) * (i div inLen) + 8 * (inLen - i mod inLen)) mod (8 * inLen)"

definition nfold_step :: "bytes \<Rightarrow> nat \<Rightarrow> bytes \<times> nat \<Rightarrow> bytes \<times> nat" where
  "nfold_step inBytes i st =
     (let (out, carry) = st; inLen = length inBytes; outLen = length out;
          msbit = nfold_msbit inLen i;
          hi = unat (inBytes ! (((inLen - 1) - drop_bit 3 msbit) mod inLen));
          lo = unat (inBytes ! ((inLen - drop_bit 3 msbit) mod inLen));
          b = carry + (drop_bit ((msbit AND 7) + 1) (push_bit 8 hi OR lo) AND 0xff)
                + unat (out ! (i mod outLen))
      in (out[i mod outLen := byte_of b], drop_bit 8 b))"

definition nfold_carry_step :: "nat \<Rightarrow> bytes \<times> nat \<Rightarrow> bytes \<times> nat" where
  "nfold_carry_step j st =
     (let (out, carry) = st; b = carry + unat (out ! j) in (out[j := byte_of b], drop_bit 8 b))"

datatype nfold_error = NfoldOutputSize | NfoldEmptyInput

definition nfold :: "bytes \<Rightarrow> nat \<Rightarrow> nfold_error + bytes" where
  "nfold inBytes outBits =
     (let inLen = length inBytes; outLen = drop_bit 3 outBits
      in if outLen = 0 then Inl NfoldOutputSize
         else if inLen = 0 then Inl NfoldEmptyInput
         else
           let l = outLen * inLen div gcd_loop outLen inLen;
               (out, carry) = fold (nfold_step inBytes) (rev [0..<l]) (replicate outLen 0, 0)
           in if carry \<noteq> 0 then Inr (fst (fold nfold_carry_step (rev [0..<outLen]) (out, carry)))
              else Inr out)"

subsection \<open>RC4\<close>

definition swap_at :: "'a list \<Rightarrow> nat \<Rightarrow> nat \<Rightarrow> 'a list" where
  "swap_at s i j = s[i := s ! j, j := s ! i]"

text \<open>The key schedule.  With an empty key \<open>k[i % k.length]\<close> is \<open>undefined\<close>, the sum is \<open>NaN\<close> and
  \<open>NaN & 0xff\<close> is 0.\<close>

definition rc4_ksa_step :: "bytes \<Rightarrow> nat \<Rightarrow> bytes \<times> nat \<Rightarrow> bytes \<times> nat" where
  "rc4_ksa_step k i st =
     (let (s, j) = st;
          j' = (if k = [] then 0 else (j + unat (s ! i) + unat (k ! (i mod length k))) AND 0xff)
      in (swap_at s i j', j'))"

definition rc4_schedule :: "bytes \<Rightarrow> bytes" where
  "rc4_schedule k = fst (fold (rc4_ksa_step k) [0..<256] (map byte_of [0..<256], 0))"

fun rc4_stream :: "bytes \<Rightarrow> nat \<Rightarrow> nat \<Rightarrow> bytes \<Rightarrow> bytes" where
  "rc4_stream s i j [] = []"
| "rc4_stream s i j (x # xs) =
     (let i' = (i + 1) AND 0xff;
          j' = (j + unat (s ! i')) AND 0xff;
          s' = swap_at s i' j';
          t = (unat (s' ! i') + unat (s' ! j')) AND 0xff
      in (x XOR s' ! t) # rc4_stream s' i' j' xs)"

definition rc4 :: "bytes \<Rightarrow> bytes \<Rightarrow> bytes" where
  "rc4 key data = rc4_stream (rc4_schedule key) 0 0 data"

subsection \<open>Facts about UTF-8\<close>

declare utf8_units.simps(2) [simp del] fromUtf8.simps(2) [simp del] utf8_tail.simps(2) [simp del]

lemma base64_digits:
  fixes n :: nat
  shows "(n div 4096 * 64 + n div 64 mod 64) * 64 + n mod 64 = n"
    and "((n div 262144 * 64 + n div 4096 mod 64) * 64 + n div 64 mod 64) * 64 + n mod 64 = n"
proof -
  have d: "n div 4096 = n div 64 div 64" "n div 262144 = n div 64 div 64 div 64"
    by (simp_all flip: div_mult2_eq)
  show "(n div 4096 * 64 + n div 64 mod 64) * 64 + n mod 64 = n"
    unfolding d div_mult_mod_eq ..
  show "((n div 262144 * 64 + n div 4096 mod 64) * 64 + n div 64 mod 64) * 64 + n mod 64 = n"
    unfolding d div_mult_mod_eq ..
qed

lemma or_lead_byte:
  fixes x :: nat
  shows "x < 32 \<Longrightarrow> 0xc0 OR x = 192 + x"
    and "x < 64 \<Longrightarrow> 0x80 OR x = 128 + x"
    and "x < 16 \<Longrightarrow> 0xe0 OR x = 224 + x"
    and "x < 8 \<Longrightarrow> 0xf0 OR x = 240 + x"
    and "x < 64 \<Longrightarrow> push_bit 6 n OR x = n * 64 + x"
  using or_eq_add_nat [of x 5 6] or_eq_add_nat [of x 6 2] or_eq_add_nat [of x 4 14]
    or_eq_add_nat [of x 3 30] or_eq_add_nat [of x 6 n]
  by simp_all

lemma add_field_div_mod:
  "x < m \<Longrightarrow> (k * m + x) div m = k" "x < m \<Longrightarrow> (k * m + x) mod m = (x :: nat)"
  by simp_all

lemma utf8_tail_cont [simp]:
  "x < 64 \<Longrightarrow> utf8_tail cp (byte_of (128 + x) # ccs) = utf8_tail (cp * 64 + x) ccs"
  using add_field_div_mod [of x 64 2]
  by (simp add: utf8_tail.simps(2) byte_eq_iff unat_byte_and_mask or_lead_byte)

lemma utf8_lead_forms:
  "2 \<le> x \<Longrightarrow> x < 32 \<Longrightarrow> utf8_lead (byte_of (192 + x)) = Some (1, x, 0x80)"
  "x < 16 \<Longrightarrow> utf8_lead (byte_of (224 + x)) = Some (2, x, 0x800)"
  "x < 5 \<Longrightarrow> utf8_lead (byte_of (240 + x)) = Some (3, x, 0x10000)"
  using add_field_div_mod [of x 32 6] add_field_div_mod [of x 16 14] add_field_div_mod [of x 8 30]
  by (simp_all add: utf8_lead_def byte_le_iff unat_byte_and_mask)

lemma fromUtf8_ascii:
  "c < 0x80 \<Longrightarrow> fromUtf8 (byte_of c # bs) = map_option (\<lambda>s. u16_of c # s) (fromUtf8 bs)"
  by (simp add: fromUtf8.simps(2) byte_less_iff)

lemma fromUtf8_lead:
  assumes "utf8_lead b = Some (need, cp0, least)"
  shows "fromUtf8 (b # rest) = (if length rest < need then None
          else case utf8_tail cp0 (take need rest) of
            None \<Rightarrow> None
          | Some cp \<Rightarrow>
              if cp < least \<or> 0x10ffff < cp \<or> (0xd800 \<le> cp \<and> cp \<le> 0xdfff) then None
              else map_option (\<lambda>s. code_units cp @ s) (fromUtf8 (drop need rest)))"
proof -
  have "\<not> b < 0x80"
    using assms by (auto simp: utf8_lead_def byte_le_iff byte_less_iff split: if_splits)
  with assms show ?thesis by (simp add: fromUtf8.simps(2))
qed

lemmas fromUtf8_forms =
  utf8_lead_forms(1) [THEN fromUtf8_lead]
  utf8_lead_forms(2) [THEN fromUtf8_lead]
  utf8_lead_forms(3) [THEN fromUtf8_lead]

definition utf8_cp :: "nat \<Rightarrow> nat list" where
  "utf8_cp c =
    (if c < 0x80 then [c]
     else if c < 0x800 then [192 + c div 64, 128 + c mod 64]
     else if c < 0x10000 then [224 + c div 4096, 128 + c div 64 mod 64, 128 + c mod 64]
     else [240 + c div 262144, 128 + c div 4096 mod 64, 128 + c div 64 mod 64, 128 + c mod 64])"

lemma fromUtf8_cp:
  assumes "cp \<le> 0x10ffff" and "\<not> (0xd800 \<le> cp \<and> cp \<le> 0xdfff)"
  shows "fromUtf8 (map byte_of (utf8_cp cp) @ bs) = map_option (\<lambda>s. code_units cp @ s) (fromUtf8 bs)"
proof -
  consider "cp < 0x80" | "0x80 \<le> cp" "cp < 0x800" | "0x800 \<le> cp" "cp < 0x10000" | "0x10000 \<le> cp"
    by linarith
  then show ?thesis
  proof cases
    case 1
    then show ?thesis by (simp add: utf8_cp_def fromUtf8_ascii code_units_def)
  next
    case 2
    then have "2 \<le> cp div 64" "cp div 64 < 32" "cp div 64 * 64 + cp mod 64 = cp" by auto
    moreover from 2 have "\<not> cp < 128" by simp
    ultimately show ?thesis using 2
      by (simp add: utf8_cp_def fromUtf8_forms)
  next
    case 3
    then have "cp div 4096 < 16" by simp
    with 3 assms base64_digits(1) [of cp] show ?thesis
      by (auto simp: utf8_cp_def fromUtf8_forms)
  next
    case 4
    with assms(1) have "cp div 262144 < 5" by simp
    with 4 assms base64_digits(2) [of cp] show ?thesis
      by (simp add: utf8_cp_def fromUtf8_forms)
  qed
qed

lemma unat_u16_of [simp]: "unat (u16_of n) = n mod 65536"
  by (simp add: u16_of_def unat_of_nat)

lemma u16_of_unat [simp]: "u16_of (unat c) = c"
  by (simp add: u16_of_def)

lemma u16_less: "unat (c :: u16) < 65536"
  using unsigned_less [of c] by simp

definition high_surrogate :: "u16 \<Rightarrow> bool" where
  "high_surrogate c \<longleftrightarrow> 0xd800 \<le> unat c \<and> unat c \<le> 0xdbff"

definition low_surrogate :: "u16 \<Rightarrow> bool" where
  "low_surrogate c \<longleftrightarrow> 0xdc00 \<le> unat c \<and> unat c \<le> 0xdfff"

fun wf_utf16 :: "jstring \<Rightarrow> bool" where
  "wf_utf16 [] = True"
| "wf_utf16 (c # rest) =
     (if high_surrogate c
      then (case rest of [] \<Rightarrow> False | lo # rest' \<Rightarrow> low_surrogate lo \<and> wf_utf16 rest')
      else \<not> low_surrogate c \<and> wf_utf16 rest)"

lemma utf8_units_scalar:
  assumes "c < 0x10000" and "\<not> (0xd800 \<le> c \<and> c \<le> 0xdbff)"
  shows "utf8_units (c # rest) = utf8_cp c @ utf8_units rest"
proof -
  have "c div 64 < 32" if "c < 2048" using that by simp
  moreover have "c div 4096 < 16" using assms(1) by simp
  ultimately show ?thesis
    using assms by (auto simp: utf8_units.simps(2) utf8_cp_def or_lead_byte drop_bit_eq_div nat_and_mask)
qed

lemma utf8_units_pair:
  assumes "h < 1024" and "l < 1024"
  shows "utf8_units ((0xd800 + h) # (0xdc00 + l) # rest) =
    utf8_cp (0x10000 + h * 1024 + l) @ utf8_units rest"
proof -
  define cp where "cp = 0x10000 + h * 1024 + l"
  have "0x10000 + push_bit 10 (0xd800 + h - 0xd800) + (0xdc00 + l) - 0xdc00 = cp"
    by (simp add: cp_def push_bit_eq_mult)
  moreover have "cp div 262144 < 8" "\<not> cp < 65536" using assms by (simp_all add: cp_def)
  ultimately show ?thesis
    unfolding cp_def [symmetric] using assms
    by (simp add: utf8_units.simps(2) utf8_cp_def or_lead_byte drop_bit_eq_div nat_and_mask)
qed

lemma utf8_code_units:
  assumes "cp \<le> 0x10ffff" and "\<not> (0xd800 \<le> cp \<and> cp \<le> 0xdfff)"
  shows "utf8 (code_units cp @ s) = map byte_of (utf8_cp cp) @ utf8 s"
proof (cases "0x10000 \<le> cp")
  case True
  define h l where "h = (cp - 0x10000) div 1024" and "l = (cp - 0x10000) mod 1024"
  have hl: "h < 1024" "l < 1024" "0x10000 + h * 1024 + l = cp"
    using True assms(1) by (simp_all add: h_def l_def)
  have "code_units cp = [u16_of (0xd800 + h), u16_of (0xdc00 + l)]"
    using True by (simp add: code_units_def h_def l_def drop_bit_eq_div nat_and_mask)
  with hl utf8_units_pair [of h l] show ?thesis by (simp add: utf8_def)
next
  case False
  then have "code_units cp = [u16_of cp]" by (simp add: code_units_def)
  with False assms utf8_units_scalar [of cp] show ?thesis by (auto simp: utf8_def)
qed

lemma wf_code_units:
  assumes "cp \<le> 0x10ffff" and "\<not> (0xd800 \<le> cp \<and> cp \<le> 0xdfff)"
  shows "wf_utf16 (code_units cp @ s) = wf_utf16 s"
proof (cases "0x10000 \<le> cp")
  case True
  define h l where "h = (cp - 0x10000) div 1024" and "l = (cp - 0x10000) mod 1024"
  have hl: "h < 1024" "l < 1024" using True assms(1) by (simp_all add: h_def l_def)
  have "code_units cp = [u16_of (0xd800 + h), u16_of (0xdc00 + l)]"
    using True by (simp add: code_units_def h_def l_def drop_bit_eq_div nat_and_mask)
  with hl show ?thesis by (simp add: high_surrogate_def low_surrogate_def)
next
  case False
  with assms show ?thesis by (auto simp: code_units_def high_surrogate_def low_surrogate_def)
qed

lemma fromUtf8_utf8: "wf_utf16 s \<Longrightarrow> fromUtf8 (utf8 s) = Some s"
proof (induction s rule: wf_utf16.induct)
  case 1
  then show ?case by (simp add: utf8_def)
next
  case (2 c rest)
  show ?case
  proof (cases "high_surrogate c")
    case True
    with "2.prems" obtain lo rest' where rest: "rest = lo # rest'" and lo: "low_surrogate lo"
      and wf: "wf_utf16 rest'" by (auto split: list.splits)
    define h l where "h = unat c - 0xd800" and "l = unat lo - 0xdc00"
    have hl: "h < 1024" "l < 1024" "unat c = 0xd800 + h" "unat lo = 0xdc00 + l"
      using True lo by (auto simp: h_def l_def high_surrogate_def low_surrogate_def)
    define cp where "cp = 0x10000 + h * 1024 + l"
    have "(h * 1024 + l) div 1024 = h" "(h * 1024 + l) mod 1024 = l" using hl by simp_all
    then have cu: "code_units cp = [c, lo]"
      unfolding code_units_def cp_def using hl(3,4) [symmetric]
      by (simp add: drop_bit_eq_div nat_and_mask)
    have cp: "cp \<le> 0x10ffff" "\<not> (0xd800 \<le> cp \<and> cp \<le> 0xdfff)" using hl by (simp_all add: cp_def)
    have "fromUtf8 (utf8 rest') = Some rest'" using "2.IH"(1) True rest wf by simp
    with utf8_code_units [OF cp, of rest'] fromUtf8_cp [OF cp] cu rest show ?thesis by simp
  next
    case False
    with "2.prems" have wf: "wf_utf16 rest" and low: "\<not> low_surrogate c" by auto
    have cp: "unat c \<le> 0x10ffff" "\<not> (0xd800 \<le> unat c \<and> unat c \<le> 0xdfff)"
      using u16_less [of c] False low by (auto simp: high_surrogate_def low_surrogate_def)
    have cu: "code_units (unat c) = [c]" using u16_less [of c] by (simp add: code_units_def)
    have "fromUtf8 (utf8 rest) = Some rest" using "2.IH"(2) False wf by simp
    with utf8_code_units [OF cp, of rest] fromUtf8_cp [OF cp] cu show ?thesis by simp
  qed
qed

lemma utf8_tail_Cons_SomeD:
  assumes "utf8_tail cp (cc # ccs) = Some r"
  shows "cc = byte_of (128 + unat cc mod 64) \<and> utf8_tail (cp * 64 + unat cc mod 64) ccs = Some r"
proof -
  from assms have c0: "unat cc div 64 mod 4 = 2" and
    t: "utf8_tail (cp * 64 + unat cc mod 64) ccs = Some r"
    by (auto simp: utf8_tail.simps(2) byte_eq_iff unat_byte_and_mask or_lead_byte split: if_splits)
  from c0 byte_less_256 [of cc] have "unat cc div 64 = 2" by simp
  with div_mult_mod_eq [of "unat cc" 64] have "unat cc = 128 + unat cc mod 64" by simp
  with t show ?thesis by (metis byte_of_unat)
qed


lemma utf8_lead_SomeD:
  assumes "utf8_lead c = Some (need, cp0, least)"
  shows "need = 1 \<and> least = 0x80 \<and> c = byte_of (192 + cp0) \<and> 2 \<le> cp0 \<and> cp0 < 32
    \<or> need = 2 \<and> least = 0x800 \<and> c = byte_of (224 + cp0) \<and> cp0 < 16
    \<or> need = 3 \<and> least = 0x10000 \<and> c = byte_of (240 + cp0) \<and> cp0 < 5"
proof -
  have c: "byte_of (k + unat c mod m) = c" if "unat c div m * m = k" for k m
    using div_mult_mod_eq [of "unat c" m] that by simp
  from assms consider
      "194 \<le> unat c" "unat c \<le> 223" "need = 1" "cp0 = unat c mod 32" "least = 0x80"
    | "224 \<le> unat c" "unat c \<le> 239" "need = 2" "cp0 = unat c mod 16" "least = 0x800"
    | "240 \<le> unat c" "unat c \<le> 244" "need = 3" "cp0 = unat c mod 8" "least = 0x10000"
    by (auto simp: utf8_lead_def byte_le_iff unat_byte_and_mask split: if_splits)
  then show ?thesis
  proof cases
    case 1
    then have "unat c div 32 = 6" by (simp add: div_nat_eqI)
    with 1 c [of 32 192] div_mult_mod_eq [of "unat c" 32] show ?thesis by simp
  next
    case 2
    then have "unat c div 16 = 14" by (simp add: div_nat_eqI)
    with 2 c [of 16 224] show ?thesis by simp
  next
    case 3
    then have "unat c div 8 = 30" by (simp add: div_nat_eqI)
    with 3 c [of 8 240] div_mult_mod_eq [of "unat c" 8] show ?thesis by simp
  qed
qed

lemma utf8_cp_of_digits:
  fixes a b c d :: nat
  assumes "b < 64" and "c < 64" and "d < 64"
  shows "2 \<le> a \<Longrightarrow> a < 32 \<Longrightarrow> utf8_cp (a * 64 + b) = [192 + a, 128 + b]"
    and "a < 16 \<Longrightarrow> 0x800 \<le> (a * 64 + b) * 64 + c \<Longrightarrow>
      utf8_cp ((a * 64 + b) * 64 + c) = [224 + a, 128 + b, 128 + c]"
    and "0x10000 \<le> ((a * 64 + b) * 64 + c) * 64 + d \<Longrightarrow>
      utf8_cp (((a * 64 + b) * 64 + c) * 64 + d) = [240 + a, 128 + b, 128 + c, 128 + d]"
proof -
  have d: "n div 4096 = n div 64 div 64" "n div 262144 = n div 64 div 64 div 64" for n :: nat
    by (simp_all flip: div_mult2_eq)
  have e: "(n * 64 + x) div 64 = n" "(n * 64 + x) mod 64 = x" if "x < 64" for n x :: nat
    using that by simp_all
  show "2 \<le> a \<Longrightarrow> a < 32 \<Longrightarrow> utf8_cp (a * 64 + b) = [192 + a, 128 + b]"
    using assms by (simp add: utf8_cp_def)
  show "utf8_cp ((a * 64 + b) * 64 + c) = [224 + a, 128 + b, 128 + c]"
    if "a < 16" "0x800 \<le> (a * 64 + b) * 64 + c"
  proof -
    from that assms have "(a * 64 + b) * 64 + c < 0x10000" by simp
    with that show ?thesis
      unfolding utf8_cp_def d e [OF assms(2)] e [OF assms(1)] by simp
  qed
  show "utf8_cp (((a * 64 + b) * 64 + c) * 64 + d) = [240 + a, 128 + b, 128 + c, 128 + d]"
    if "0x10000 \<le> ((a * 64 + b) * 64 + c) * 64 + d"
    using that unfolding utf8_cp_def d e [OF assms(3)] e [OF assms(2)] e [OF assms(1)] by simp
qed

lemma utf8_form_inv:
  assumes lead: "utf8_lead c = Some (need, cp0, least)" and len: "length ccs = need"
    and tail: "utf8_tail cp0 ccs = Some cp" and min: "least \<le> cp"
  shows "c # ccs = map byte_of (utf8_cp cp)"
proof -
  from utf8_lead_SomeD [OF lead] show ?thesis
  proof (elim disjE conjE)
    assume *: "need = 1" "c = byte_of (192 + cp0)" "2 \<le> cp0" "cp0 < 32"
    with len obtain c1 where ccs: "ccs = [c1]" by (auto simp: length_Suc_conv)
    with tail utf8_tail_Cons_SomeD [of cp0 c1 "[]" cp] * show ?thesis
      using utf8_cp_of_digits(1) [of "unat c1 mod 64" 0 0 cp0] by simp
  next
    assume *: "need = 2" "least = 0x800" "c = byte_of (224 + cp0)" "cp0 < 16"
    with len obtain c1 c2 where ccs: "ccs = [c1, c2]" by (auto simp: length_Suc_conv numeral_2_eq_2)
    with tail utf8_tail_Cons_SomeD [of cp0 c1 "[c2]" cp]
      utf8_tail_Cons_SomeD [of "cp0 * 64 + unat c1 mod 64" c2 "[]" cp] * min show ?thesis
      using utf8_cp_of_digits(2) [of "unat c1 mod 64" "unat c2 mod 64" 0 cp0] by simp
  next
    assume *: "need = 3" "least = 0x10000" "c = byte_of (240 + cp0)" "cp0 < 5"
    with len obtain c1 c2 c3 where ccs: "ccs = [c1, c2, c3]"
      by (auto simp: length_Suc_conv numeral_3_eq_3)
    with tail utf8_tail_Cons_SomeD [of cp0 c1 "[c2, c3]" cp]
      utf8_tail_Cons_SomeD [of "cp0 * 64 + unat c1 mod 64" c2 "[c3]" cp]
      utf8_tail_Cons_SomeD [of "(cp0 * 64 + unat c1 mod 64) * 64 + unat c2 mod 64" c3 "[]" cp] * min
    show ?thesis
      using utf8_cp_of_digits(3) [of "unat c1 mod 64" "unat c2 mod 64" "unat c3 mod 64" cp0] by simp
  qed
qed

lemma fromUtf8_SomeD: "fromUtf8 bs = Some s \<Longrightarrow> utf8 s = bs \<and> wf_utf16 s"
proof (induction bs arbitrary: s rule: fromUtf8.induct)
  case 1
  then show ?case by (simp add: utf8_def)
next
  case (2 c rest)
  show ?case
  proof (cases "c < 0x80")
    case True
    with "2.prems" obtain s' where s: "s = u16_of (unat c) # s'" and s': "fromUtf8 rest = Some s'"
      by (auto simp: fromUtf8.simps(2))
    have IH: "utf8 s' = rest \<and> wf_utf16 s'" using "2.IH"(1) [OF True s'] .
    have "unat c < 128" using True by (simp add: byte_less_iff)
    then have "code_units (unat c) = [u16_of (unat c)]" and "utf8_cp (unat c) = [unat c]"
      by (simp_all add: code_units_def utf8_cp_def)
    with IH s utf8_code_units [of "unat c" s'] wf_code_units [of "unat c" s'] \<open>unat c < 128\<close>
    show ?thesis by simp
  next
    case False
    from "2.prems" False obtain need cp0 least where
      lead: "utf8_lead c = Some (need, cp0, least)"
      by (auto simp: fromUtf8.simps(2) split: option.splits)
    from "2.prems" fromUtf8_lead [OF lead, of rest] obtain cp s' where
      len: "need \<le> length rest" and tail: "utf8_tail cp0 (take need rest) = Some cp"
      and cp: "least \<le> cp" "cp \<le> 0x10ffff" "\<not> (0xd800 \<le> cp \<and> cp \<le> 0xdfff)"
      and s': "fromUtf8 (drop need rest) = Some s'" and s: "s = code_units cp @ s'"
      by (auto split: if_splits option.splits)
    have IH: "utf8 s' = drop need rest \<and> wf_utf16 s'"
      using "2.IH"(2) [OF False lead refl refl _ tail _ s'] len cp by auto
    have "c # take need rest = map byte_of (utf8_cp cp)"
      using utf8_form_inv [OF lead _ tail cp(1)] len by simp
    then have "map byte_of (utf8_cp cp) @ drop need rest = c # rest"
      by (metis append_Cons append_take_drop_id)
    with IH s utf8_code_units [OF cp(2,3)] wf_code_units [OF cp(2,3)] show ?thesis by simp
  qed
qed

subsection \<open>Facts about bytes, n-fold and RC4\<close>

lemma length_utf8_units: "length cs \<le> length (utf8_units cs)"
  by (induction cs rule: utf8_units.induct) (auto simp: utf8_units.simps Let_def)

lemma length_fromUtf8: "fromUtf8 bs = Some s \<Longrightarrow> length s \<le> length bs"
  using fromUtf8_SomeD [of bs s] length_utf8_units [of "map unat s"] by (auto simp: utf8_def)

lemma byte_xor_eq_0_iff: "(a :: byte) XOR b = 0 \<longleftrightarrow> a = b"
  by (metis bit.xor_self bit.xor_left_self xor.right_neutral)

lemma byte_xor_cancel: "(a XOR k) XOR k = (a :: byte)"
  by (simp add: xor.assoc)

lemma or_diff_eq_0_iff:
  "length as = length bs \<Longrightarrow> or_diff d as bs = 0 \<longleftrightarrow> d = 0 \<and> as = bs"
  by (induction d as bs rule: or_diff.induct) (auto simp: or_eq_0_iff byte_xor_eq_0_iff)

lemma equalConstantTime_iff [simp]: "equalConstantTime x y \<longleftrightarrow> x = y"
  by (auto simp: equalConstantTime_def or_diff_eq_0_iff)

lemma hex_digit_facts:
  assumes "n < 16"
  shows "hex_value (hex_digit n) = Some n" and "\<not> is_space_or_colon (hex_digit n)"
    and "hex_digit n \<notin> {CHR ''-'', CHR ''+'', CHR ''x'', CHR ''X''}"
proof -
  have o: "(of_char (hex_digit n) :: nat) = (if n < 10 then 48 + n else 87 + n)"
    using assms by (simp add: hex_digit_def)
  show "hex_value (hex_digit n) = Some n" "\<not> is_space_or_colon (hex_digit n)"
    using assms o by (auto simp: hex_value_def is_space_or_colon_def Let_def split: if_splits)
  show "hex_digit n \<notin> {CHR ''-'', CHR ''+'', CHR ''x'', CHR ''X''}"
    using assms o by (auto split: if_splits)
qed

lemma parseInt16_hex_digits:
  assumes "h < 16" and "l < 16"
  shows "parseInt16 [hex_digit h, hex_digit l] = Some (int (h * 16 + l))"
  using hex_digit_facts [OF assms(1)] hex_digit_facts [OF assms(2)]
  by (simp add: parseInt16_def)

lemma filter_toHex: "filter (\<lambda>ch. \<not> is_space_or_colon ch) (toHex bs) = toHex bs"
proof (induction bs)
  case (Cons b bs)
  have "unat b div 16 < 16" "unat b mod 16 < 16" using byte_less_256 [of b] by simp_all
  with Cons hex_digit_facts(2) show ?case by (simp add: toHex_def)
qed (simp add: toHex_def)

lemma length_toHex [simp]: "length (toHex bs) = 2 * length bs"
  by (induction bs) (simp_all add: toHex_def)

lemma fromHex_pairs_toHex: "fromHex_pairs i (toHex bs) = Inr bs"
proof (induction bs arbitrary: i)
  case (Cons b bs)
  have "unat b div 16 < 16" "unat b mod 16 < 16" using byte_less_256 [of b] by simp_all
  from parseInt16_hex_digits [OF this] Cons [of "Suc (Suc i)"] show ?case
    by (simp add: toHex_def)
qed (simp add: toHex_def)

lemma fromHex_toHex: "fromHex (toHex bs) = Inr bs"
  by (simp add: fromHex_def filter_toHex fromHex_pairs_toHex)

lemma gcd_loop_eq: "gcd_loop a b = gcd a b"
proof (induction a b rule: gcd_loop.induct)
  case (1 a b)
  show ?case
  proof (cases "b = 0")
    case True
    then show ?thesis by (simp add: gcd_loop.simps)
  next
    case False
    with "1" show ?thesis by (simp add: gcd_loop.simps [of a b] gcd_red_nat [of a b])
  qed
qed

lemma length_fold_fst:
  assumes "\<And>i st. length (fst (f i st)) = length (fst st)"
  shows "length (fst (fold f is st)) = length (fst st)"
  by (induction "is" arbitrary: st) (simp_all add: assms)

lemma length_nfold_steps [simp]:
  "length (fst (nfold_step bs i st)) = length (fst st)"
  "length (fst (nfold_carry_step i st)) = length (fst st)"
  by (simp_all add: nfold_step_def nfold_carry_step_def Let_def split: prod.splits)

lemma nfold_total:
  assumes "8 \<le> outBits" and "inBytes \<noteq> []"
  shows "\<exists>out. nfold inBytes outBits = Inr out \<and> length out = outBits div 8"
proof -
  define n where "n = outBits div 8"
  have n: "drop_bit 3 outBits = n" "n \<noteq> 0" using assms(1) by (simp_all add: drop_bit_eq_div n_def)
  define st where "st = fold (nfold_step inBytes)
    (rev [0..<n * length inBytes div gcd_loop n (length inBytes)]) (replicate n 0, 0)"
  have "length (fst st) = n" unfolding st_def by (subst length_fold_fst) simp_all
  moreover from this have "length (fst (fold nfold_carry_step is st)) = n" for "is"
    by (subst length_fold_fst) simp_all
  ultimately show ?thesis
    using n assms(2) by (auto simp: nfold_def Let_def st_def [symmetric] n_def [symmetric] split: prod.splits)
qed

lemma rc4_stream_twice: "rc4_stream s i j (rc4_stream s i j xs) = xs"
  by (induction xs arbitrary: s i j) (simp_all add: Let_def byte_xor_cancel)

lemma rc4_rc4: "rc4 k (rc4 k d) = d"
  by (simp add: rc4_def rc4_stream_twice)

lemma length_rc4_stream [simp]: "length (rc4_stream s i j xs) = length xs"
  by (induction xs arbitrary: s i j) (simp_all add: Let_def)

lemma swap_at_facts:
  assumes "i < length s" and "j < length s"
  shows "set (swap_at s i j) = set s" and "distinct (swap_at s i j) = distinct s"
    and "length (swap_at s i j) = length s"
  using assms set_swap [of i s j] distinct_swap [of i s j] by (simp_all add: swap_at_def)

text \<open>The state of the cipher is a permutation of all byte values.\<close>

definition rc4_state_ok :: "bytes \<Rightarrow> bool" where
  "rc4_state_ok s \<longleftrightarrow> length s = 256 \<and> distinct s"

lemma rc4_ksa_step_ok:
  "rc4_state_ok (fst st) \<Longrightarrow> i < 256 \<Longrightarrow> rc4_state_ok (fst (rc4_ksa_step k i st))"
  by (auto simp: rc4_state_ok_def rc4_ksa_step_def Let_def nat_and_mask swap_at_facts
      split: prod.splits)

lemma rc4_ksa_ok:
  "rc4_state_ok (fst st) \<Longrightarrow> \<forall>i\<in>set is. i < 256 \<Longrightarrow> rc4_state_ok (fst (fold (rc4_ksa_step k) is st))"
  by (induction "is" arbitrary: st) (simp_all add: rc4_ksa_step_ok)

lemma inj_on_byte_of: "inj_on byte_of {..<256}"
  by (rule inj_onI) (metis lessThan_iff mod_less unat_byte_of)

lemma rc4_schedule_ok: "rc4_state_ok (rc4_schedule k)"
  unfolding rc4_schedule_def
proof (rule rc4_ksa_ok)
  have "distinct (map byte_of [0..<256])"
    using inj_on_byte_of by (simp add: distinct_map atLeast0LessThan)
  then show "rc4_state_ok (fst (map byte_of [0..<256], 0))" by (simp add: rc4_state_ok_def)
qed simp

lemma rc4_state_bijection:
  assumes "rc4_state_ok s"
  shows "set s = UNIV"
proof (rule card_subset_eq)
  have "CARD(byte) = 256" by (simp add: card_word)
  with assms show "card (set s) = CARD(byte)" by (simp add: rc4_state_ok_def distinct_card)
qed simp_all

subsection \<open>Properties\<close>

text \<open>C2: the UTF-8 reader accepts exactly the writer's output on well-formed strings and inverts it:
  truncated, overlong, surrogate and out-of-range sequences are all refused.\<close>

theorem utf8_strict_inverse: "fromUtf8 bs = Some s \<longleftrightarrow> wf_utf16 s \<and> bs = utf8 s"
  using fromUtf8_SomeD [of bs s] fromUtf8_utf8 [of s] by auto

text \<open>Hexadecimal text written by \<open>toHex\<close> reads back as the same bytes.\<close>

theorem hex_roundtrip: "fromHex (toHex bs) = Inr bs \<and> length (toHex bs) = 2 * length bs"
  by (simp add: fromHex_toHex)

text \<open>RC4 is its own inverse under every key, keeps the length, and its key schedule yields a
  permutation of all 256 byte values.\<close>

theorem rc4_self_inverse:
  "rc4 key (rc4 key data) = data \<and> length (rc4 key data) = length data \<and>
     distinct (rc4_schedule key) \<and> set (rc4_schedule key) = UNIV"
  using rc4_schedule_ok [of key] rc4_state_bijection [OF rc4_schedule_ok, of key]
  by (simp add: rc4_rc4 rc4_state_ok_def) (simp add: rc4_def)

text \<open>\<open>fromHex\<close> looks only at whether \<open>parseInt\<close> found any digit, so a pair whose second character is no
  hexadecimal digit is taken for the first digit alone, and a signed pair is accepted.\<close>

lemma fromHex_accepts_non_hex: "fromHex ''1g'' = Inr [0x01] \<and> fromHex ''-1'' = Inr [0xff]"
  by code_simp

end
