(* ===== verification/Js_Strings.thy ===== *)
theory Js_Strings
  imports Krb5_Primitives
begin

text \<open>
  The string functions of JavaScript that the components above the byte level use: \<open>split\<close>,
  \<open>indexOf\<close>/\<open>slice\<close> around a separator, \<open>trim\<close>, the character classes of the regular expressions,
  and the conversions \<open>toString(16)\<close>, \<open>parseInt(s, 16)\<close> and \<open>Number(s)\<close>.  Strings are HOL strings:
  code units below 256, which is enough for every string the components accept, since each of
  them refuses anything but ASCII in the places that decide.
\<close>

subsection \<open>Characters\<close>

abbreviation ccode :: "char \<Rightarrow> nat" where "ccode ch \<equiv> of_char ch"

definition is_digit :: "char \<Rightarrow> bool" where
  "is_digit ch \<longleftrightarrow> 48 \<le> ccode ch \<and> ccode ch \<le> 57"

definition is_lower :: "char \<Rightarrow> bool" where
  "is_lower ch \<longleftrightarrow> 97 \<le> ccode ch \<and> ccode ch \<le> 122"

definition is_upper :: "char \<Rightarrow> bool" where
  "is_upper ch \<longleftrightarrow> 65 \<le> ccode ch \<and> ccode ch \<le> 90"

definition is_hex :: "char \<Rightarrow> bool" where
  "is_hex ch \<longleftrightarrow> hex_value ch \<noteq> None"

definition to_lower :: "char \<Rightarrow> char" where
  "to_lower ch = (if is_upper ch then char_of (ccode ch + 32) else ch)"

text \<open>White space and line terminators among the first 256 code units.\<close>

definition is_space :: "char \<Rightarrow> bool" where
  "is_space ch \<longleftrightarrow> (9 \<le> ccode ch \<and> ccode ch \<le> 13) \<or> ccode ch = 32 \<or> ccode ch = 160"

definition trim :: "string \<Rightarrow> string" where
  "trim s = rev (dropWhile is_space (rev (dropWhile is_space s)))"

subsection \<open>Splitting\<close>

text \<open>\<open>s.split(c)\<close> for one character: always at least one part.\<close>

fun split_on :: "char \<Rightarrow> string \<Rightarrow> string list" where
  "split_on c [] = [[]]"
| "split_on c (x # xs) =
     (if x = c then [] # split_on c xs
      else (x # hd (split_on c xs)) # tl (split_on c xs))"

text \<open>\<open>s.split('::')\<close>: the leftmost occurrences, not overlapping.\<close>

fun split_dcolon :: "string \<Rightarrow> string list" where
  "split_dcolon [] = [[]]"
| "split_dcolon [x] = [[x]]"
| "split_dcolon (x # y # xs) =
     (if x = CHR '':'' \<and> y = CHR '':'' then [] # split_dcolon xs
      else (x # hd (split_dcolon (y # xs))) # tl (split_dcolon (y # xs)))"

text \<open>\<open>s.slice(0, s.indexOf(c))\<close> and \<open>s.slice(s.indexOf(c) + 1)\<close> when \<open>c\<close> occurs; the last two are
  the same around \<open>lastIndexOf\<close>, the first of them keeping the separator.\<close>

definition before :: "char \<Rightarrow> string \<Rightarrow> string" where
  "before c s = takeWhile (\<lambda>x. x \<noteq> c) s"

definition after :: "char \<Rightarrow> string \<Rightarrow> string" where
  "after c s = tl (dropWhile (\<lambda>x. x \<noteq> c) s)"

definition upto_last :: "char \<Rightarrow> string \<Rightarrow> string" where
  "upto_last c s = rev (dropWhile (\<lambda>x. x \<noteq> c) (rev s))"

definition after_last :: "char \<Rightarrow> string \<Rightarrow> string" where
  "after_last c s = rev (takeWhile (\<lambda>x. x \<noteq> c) (rev s))"

lemma split_on_nonempty [simp]: "split_on c s \<noteq> []"
  by (cases s) auto

lemma split_dcolon_nonempty [simp]: "split_dcolon s \<noteq> []"
  by (induction s rule: split_dcolon.induct) auto

lemma split_on_no_sep: "c \<notin> set s \<Longrightarrow> split_on c s = [s]"
  by (induction s) auto

lemma split_on_append:
  "c \<notin> set s \<Longrightarrow> split_on c (s @ c # t) = s # split_on c t"
  by (induction s) auto

lemma split_on_parts: "p \<in> set (split_on c s) \<Longrightarrow> c \<notin> set p"
proof (induction s arbitrary: p)
  case (Cons x xs)
  have "hd (split_on c xs) \<in> set (split_on c xs)" by simp
  with Cons show ?case by (auto split: if_splits dest: list.set_sel(2) [rotated])
qed simp

lemma split_on_concat: "split_on c s = ps \<Longrightarrow> s = concat (map (\<lambda>p. p @ [c]) (butlast ps)) @ last ps"
proof (induction s arbitrary: ps)
  case (Cons x xs)
  obtain q qs where q: "split_on c xs = q # qs" by (cases "split_on c xs") auto
  from Cons.IH [OF q] Cons.prems q show ?case by (auto split: if_splits)
qed auto

lemma split_dcolon_no_colon: "CHR '':'' \<notin> set s \<Longrightarrow> split_dcolon s = [s]"
  by (induction s rule: split_dcolon.induct) auto

lemma last_part_decomp: "upto_last c s @ after_last c s = s"
proof -
  have "rev (rev s) = rev (takeWhile (\<lambda>x. x \<noteq> c) (rev s) @ dropWhile (\<lambda>x. x \<noteq> c) (rev s))" by simp
  then show ?thesis by (simp only: rev_append rev_rev_ident upto_last_def after_last_def)
qed

lemma after_last_sep [simp]: "c \<notin> set t \<Longrightarrow> after_last c (s @ c # t) = t"
proof -
  assume "c \<notin> set t"
  then have "takeWhile (\<lambda>x. x \<noteq> c) (rev t @ c # rev s) = rev t"
    by (subst takeWhile_append2) auto
  then show ?thesis by (simp add: after_last_def)
qed

lemma upto_last_sep [simp]: "c \<notin> set t \<Longrightarrow> upto_last c (s @ c # t) = s @ [c]"
proof -
  assume "c \<notin> set t"
  then have "dropWhile (\<lambda>x. x \<noteq> c) (rev t @ c # rev s) = c # rev s"
    by (subst dropWhile_append2) auto
  then show ?thesis by (simp add: upto_last_def)
qed

subsection \<open>Numbers\<close>

definition dec_value :: "string \<Rightarrow> nat" where
  "dec_value s = foldl (\<lambda>v ch. v * 10 + (ccode ch - 48)) 0 s"

definition hex_number :: "string \<Rightarrow> nat" where
  "hex_number s = foldl (\<lambda>v ch. v * 16 + the (hex_value ch)) 0 s"

fun show_hex :: "nat \<Rightarrow> string" where
  "show_hex n = (if n < 16 then [hex_digit n] else show_hex (n div 16) @ [hex_digit (n mod 16)])"

declare show_hex.simps [simp del]

text \<open>\<open>Number(s)\<close>, where it is a whole number; \<open>None\<close> stands for \<open>NaN\<close>, the infinities and fractions.
  White space around the literal is skipped and the empty string is 0; a decimal literal has an
  optional sign, digits, fraction and exponent, and is given its exact value (the source's doubles
  round literals of more than fifteen digits); the prefixes \<open>0x\<close>, \<open>0o\<close>, \<open>0b\<close> take no sign.\<close>

definition all_digits :: "string \<Rightarrow> bool" where
  "all_digits s \<longleftrightarrow> s \<noteq> [] \<and> list_all is_digit s"

definition signed_parts :: "string \<Rightarrow> int \<times> string" where
  "signed_parts s =
     (case s of
        [] \<Rightarrow> (1, [])
      | ch # r \<Rightarrow> if ch = CHR ''-'' then (-1, r) else if ch = CHR ''+'' then (1, r) else (1, s))"

definition exact_decimal :: "int \<Rightarrow> string \<Rightarrow> string \<Rightarrow> int \<Rightarrow> int option" where
  "exact_decimal sg whole frac ex =
     (let m = dec_value (whole @ frac); e = ex - int (length frac)
      in if 0 \<le> e then Some (sg * int m * 10 ^ nat e)
         else if m mod 10 ^ nat (- e) = 0 then Some (sg * int (m div 10 ^ nat (- e)))
         else None)"

definition decimal_literal :: "string \<Rightarrow> int option" where
  "decimal_literal s =
     (let (sg, u) = signed_parts s;
          mant = takeWhile (\<lambda>ch. ch \<noteq> CHR ''e'' \<and> ch \<noteq> CHR ''E'') u;
          ex = drop (length mant) u;
          (esgn, edigits) = (if ex = [] then (1, ''0'') else signed_parts (tl ex));
          whole = before (CHR ''.'') mant;
          frac = (if CHR ''.'' \<in> set mant then after (CHR ''.'') mant else [])
      in if whole @ frac \<noteq> [] \<and> list_all is_digit (whole @ frac) \<and> all_digits edigits
         then exact_decimal sg whole frac (esgn * int (dec_value edigits))
         else None)"

definition radix_literal :: "nat \<Rightarrow> string \<Rightarrow> int option" where
  "radix_literal r ds =
     (if ds \<noteq> [] \<and> list_all (\<lambda>ch. case hex_value ch of None \<Rightarrow> False | Some d \<Rightarrow> d < r) ds
      then Some (int (foldl (\<lambda>v ch. v * r + the (hex_value ch)) 0 ds))
      else None)"

definition whole_Number :: "string \<Rightarrow> int option" where
  "whole_Number text =
     (let s = trim text
      in if s = [] then Some 0
         else case s of
           z # x # ds \<Rightarrow>
             if z = CHR ''0'' \<and> to_lower x = CHR ''x'' then radix_literal 16 ds
             else if z = CHR ''0'' \<and> to_lower x = CHR ''o'' then radix_literal 8 ds
             else if z = CHR ''0'' \<and> to_lower x = CHR ''b'' then radix_literal 2 ds
             else decimal_literal s
         | _ \<Rightarrow> decimal_literal s)"

text \<open>\<open>parseInt(s, 10)\<close>: white space, a sign and as many digits as there are; \<open>None\<close> is \<open>NaN\<close>.\<close>

definition parseInt10 :: "string \<Rightarrow> int option" where
  "parseInt10 text =
     (let (sg, u) = signed_parts (dropWhile is_space text); ds = takeWhile is_digit u
      in if ds = [] then None else Some (sg * int (dec_value ds)))"

lemma whole_Number_examples:
  "whole_Number ''24'' = Some 24" "whole_Number '''' = Some 0" "whole_Number '' 8 '' = Some 8"
  "whole_Number ''1e1'' = Some 10" "whole_Number ''0x10'' = Some 16" "whole_Number ''8.5'' = None"
  "whole_Number ''-1'' = Some (-1)" "whole_Number ''8.0'' = Some 8" "whole_Number ''x'' = None"
  by code_simp+

end
