(* ===== verification/Ssrf_Address.thy ===== *)
theory Ssrf_Address
  imports Js_Strings
begin

text \<open>
  Addresses and ranges of the outbound-call guard (\<open>api/ssrf_guard.js\<close>, lines 142 to 401).

  The parsers \<open>parseIPv4\<close> and \<open>parseIPv6\<close>, the reduction of IPv4-mapped addresses in \<open>toAddress\<close>, the two
  notations for ranges and the membership test.  \<open>isIP\<close> is node's \<open>net.isIP\<close>, by its documented grammar.
  The facts: a well-formed address is a number of 32 or 128 bits and both kinds of range are
  intervals of it; every literal node accepts has an address; a mapped literal has the address of
  the IPv4 literal inside it.
\<close>

subsection \<open>Parsers\<close>

definition octet_ok :: "string \<Rightarrow> bool" where
  "octet_ok p \<longleftrightarrow> p \<noteq> [] \<and> length p \<le> 3 \<and> list_all is_digit p \<and> dec_value p \<le> 255"

definition parseIPv4 :: "string \<Rightarrow> bytes option" where
  "parseIPv4 text =
     (let parts = split_on (CHR ''.'') text
      in if length parts \<noteq> 4 then None
         else if list_all octet_ok parts then Some (map (\<lambda>p. byte_of (dec_value p)) parts)
         else None)"

definition group_ok :: "string \<Rightarrow> bool" where
  "group_ok g \<longleftrightarrow> g \<noteq> [] \<and> length g \<le> 4 \<and> list_all is_hex g"

definition group_bytes :: "string \<Rightarrow> bytes" where
  "group_bytes g = [byte_of (drop_bit 8 (hex_number g) AND 0xff), byte_of (hex_number g AND 0xff)]"

definition groups_of :: "string \<Rightarrow> string list" where
  "groups_of half = (if half = [] then [] else split_on (CHR '':'') half)"

text \<open>The part of \<open>parseIPv6\<close> after the trailing dotted quad has been rewritten.\<close>

definition parse_groups :: "string \<Rightarrow> bytes option" where
  "parse_groups s =
     (case split_dcolon s of
        [h] \<Rightarrow>
          (let gs = groups_of h
           in if list_all group_ok gs \<and> length gs = 8 then Some (concat (map group_bytes gs)) else None)
      | [h, r] \<Rightarrow>
          (let gs = groups_of h; rs = groups_of r; n = 2 * length gs + 2 * length rs
           in if list_all group_ok gs \<and> list_all group_ok rs \<and> n \<le> 16
              then Some (concat (map group_bytes gs) @ replicate (16 - n) 0 @ concat (map group_bytes rs))
              else None)
      | _ \<Rightarrow> None)"

definition quad_as_groups :: "bytes \<Rightarrow> string" where
  "quad_as_groups v4 =
     show_hex (unat (v4 ! 0) * 256 + unat (v4 ! 1)) @ '':'' @ show_hex (unat (v4 ! 2) * 256 + unat (v4 ! 3))"

definition parseIPv6 :: "string \<Rightarrow> bytes option" where
  "parseIPv6 text =
     (let s = before (CHR ''%'') text
      in if CHR '':'' \<notin> set s then None
         else
           (let tail_part = after_last (CHR '':'') s
            in if CHR ''.'' \<in> set tail_part then
                 (case parseIPv4 tail_part of
                    None \<Rightarrow> None
                  | Some v4 \<Rightarrow> parse_groups (upto_last (CHR '':'') s @ quad_as_groups v4))
               else parse_groups s))"

subsection \<open>\<open>net.isIP\<close>\<close>

text \<open>Node's grammar.  IPv4: four decimal octets without leading zeros.  IPv6: eight groups, or
  fewer around one \<open>::\<close> which stands for at least one, the last two groups possibly a dotted quad, and
  an optional zone.\<close>

definition strict_octet :: "string \<Rightarrow> bool" where
  "strict_octet p \<longleftrightarrow> octet_ok p \<and> (length p = 1 \<or> hd p \<noteq> CHR ''0'')"

definition isIPv4 :: "string \<Rightarrow> bool" where
  "isIPv4 s \<longleftrightarrow> (let parts = split_on (CHR ''.'') s in length parts = 4 \<and> list_all strict_octet parts)"

definition groups_fit :: "string \<Rightarrow> bool" where
  "groups_fit s \<longleftrightarrow>
     (case split_dcolon s of
        [h] \<Rightarrow> list_all group_ok (groups_of h) \<and> length (groups_of h) = 8
      | [h, r] \<Rightarrow> list_all group_ok (groups_of h @ groups_of r) \<and> length (groups_of h @ groups_of r) \<le> 7
      | _ \<Rightarrow> False)"

definition zone_ok :: "string \<Rightarrow> bool" where
  "zone_ok z \<longleftrightarrow> z \<noteq> [] \<and>
     list_all (\<lambda>ch. is_digit ch \<or> is_lower ch \<or> is_upper ch \<or> ch = CHR ''-'' \<or> ch = CHR ''.'' \<or> ch = CHR '':'') z"

definition isIPv6 :: "string \<Rightarrow> bool" where
  "isIPv6 text \<longleftrightarrow>
     (let s = before (CHR ''%'') text; tail_part = after_last (CHR '':'') s
      in (CHR ''%'' \<in> set text \<longrightarrow> zone_ok (after (CHR ''%'') text)) \<and> CHR '':'' \<in> set s \<and>
         (if CHR ''.'' \<in> set tail_part
          then isIPv4 tail_part \<and> groups_fit (upto_last (CHR '':'') s @ quad_as_groups (the (parseIPv4 tail_part)))
          else groups_fit s))"

definition isIP :: "string \<Rightarrow> nat" where
  "isIP s = (if isIPv4 s then 4 else if isIPv6 s then 6 else 0)"

subsection \<open>Addresses\<close>

record address =
  a_bytes :: bytes
  a_family :: nat

definition is_mapped :: "bytes \<Rightarrow> bool" where
  "is_mapped b \<longleftrightarrow> list_all (\<lambda>x. x = 0) (take 10 b) \<and> b ! 10 = 0xff \<and> b ! 11 = 0xff"

definition toAddress :: "string \<Rightarrow> address option" where
  "toAddress text =
     (if isIP text = 4 then map_option (\<lambda>b. \<lparr>a_bytes = b, a_family = 4\<rparr>) (parseIPv4 text)
      else if isIP text = 6 then
        (case parseIPv6 text of
           None \<Rightarrow> None
         | Some b \<Rightarrow>
             Some (if is_mapped b then \<lparr>a_bytes = drop 12 b, a_family = 4\<rparr>
                   else \<lparr>a_bytes = b, a_family = 6\<rparr>))
      else case parseIPv4 text of
        Some b \<Rightarrow> Some \<lparr>a_bytes = b, a_family = 4\<rparr>
      | None \<Rightarrow> map_option (\<lambda>b. \<lparr>a_bytes = b, a_family = 6\<rparr>) (parseIPv6 text))"

text \<open>The comparison of two addresses of one family: \<open>-1\<close>, \<open>0\<close> or \<open>1\<close>.\<close>

fun compareBytes :: "bytes \<Rightarrow> bytes \<Rightarrow> int" where
  "compareBytes (x # xs) (y # ys) = (if x \<noteq> y then if x < y then -1 else 1 else compareBytes xs ys)"
| "compareBytes xs ys = 0"

subsection \<open>Ranges\<close>

datatype range =
    Cidr (r_family: nat) (r_bytes: bytes) (r_prefix: nat) (r_text: string)
  | Span (r_family: nat) (r_lo: bytes) (r_hi: bytes) (r_text: string)

datatype range_error =
    EmptyRange
  | NotARange
  | MixedFamilies
  | StartsAfterEnd
  | SingleAddress string
  | PrefixOutside nat

definition parseSpan :: "string \<Rightarrow> range_error + range" where
  "parseSpan text =
     (case (toAddress (trim (before (CHR ''-'') text)), toAddress (trim (after (CHR ''-'') text))) of
        (Some lo, Some hi) \<Rightarrow>
          if a_family lo \<noteq> a_family hi then Inl MixedFamilies
          else if 0 < compareBytes (a_bytes lo) (a_bytes hi) then Inl StartsAfterEnd
          else Inr (Span (a_family lo) (a_bytes lo) (a_bytes hi) text)
      | _ \<Rightarrow> Inl NotARange)"

definition address_bits :: "nat \<Rightarrow> nat" where
  "address_bits family = (if family = 4 then 32 else 128)"

definition parseCidr :: "string \<Rightarrow> range_error + range" where
  "parseCidr text =
     (case toAddress (before (CHR ''/'') text) of
        None \<Rightarrow> Inl NotARange
      | Some a \<Rightarrow>
          (case whole_Number (after (CHR ''/'') text) of
             Some p \<Rightarrow>
               if p < 0 \<or> int (address_bits (a_family a)) < p
               then Inl (PrefixOutside (address_bits (a_family a)))
               else Inr (Cidr (a_family a) (a_bytes a) (nat p) text)
           | None \<Rightarrow> Inl (PrefixOutside (address_bits (a_family a)))))"

definition parseRange :: "string \<Rightarrow> range_error + range" where
  "parseRange entry =
     (let text = trim entry
      in if text = [] then Inl EmptyRange
         else if CHR ''-'' \<in> set text then parseSpan text
         else if CHR ''/'' \<notin> set text then Inl (SingleAddress text)
         else parseCidr text)"

text \<open>The loop over the octets a prefix covers, with \<open>remaining\<close> bits to compare.\<close>

fun prefix_match :: "nat \<Rightarrow> bytes \<Rightarrow> bytes \<Rightarrow> bool" where
  "prefix_match remaining (x # xs) (y # ys) =
     (if remaining = 0 then True
      else
        (let n = min 8 remaining;
             msk = (if n = 8 then 0xff else push_bit (8 - n) 0xff AND 0xff)
         in if x AND msk \<noteq> y AND msk then False else prefix_match (remaining - n) xs ys))"
| "prefix_match remaining xs ys = True"

definition withinRange :: "address \<Rightarrow> range \<Rightarrow> bool" where
  "withinRange a r =
     (if a_family a \<noteq> r_family r then False
      else case r of
        Span _ lo hi _ \<Rightarrow> 0 \<le> compareBytes (a_bytes a) lo \<and> compareBytes (a_bytes a) hi \<le> 0
      | Cidr _ b p _ \<Rightarrow> prefix_match p (a_bytes a) b)"

subsection \<open>Numeric reading\<close>

lemma compareBytes_numeric:
  assumes "length xs = length ys"
  shows "0 \<le> compareBytes xs ys \<longleftrightarrow> be_nat ys \<le> be_nat xs"
    and "compareBytes xs ys \<le> 0 \<longleftrightarrow> be_nat xs \<le> be_nat ys"
proof -
  have less: "be_nat (x # xs) < be_nat (y # ys)" if "length xs = length ys" "x < y" for x y :: byte and xs ys
  proof -
    from that(2) have "unat x + 1 \<le> unat y" by (simp add: byte_less_iff)
    then have "(unat x + 1) * 256 ^ length xs \<le> unat y * 256 ^ length xs" by (rule mult_right_mono) simp
    with be_nat_less [of xs] that(1) show ?thesis by (simp add: be_nat_Cons)
  qed
  from assms have "(0 \<le> compareBytes xs ys \<longleftrightarrow> be_nat ys \<le> be_nat xs) \<and> (compareBytes xs ys \<le> 0 \<longleftrightarrow> be_nat xs \<le> be_nat ys)"
  proof (induction xs ys rule: list_induct2)
    case (Cons x xs y ys)
    show ?case
    proof (cases x y rule: linorder_cases)
      case lt: less
      with Cons.hyps less [of xs ys x y] show ?thesis by auto
    next
      case equal
      with Cons show ?thesis by (simp add: be_nat_Cons)
    next
      case greater
      with Cons.hyps less [of ys xs y x] show ?thesis by auto
    qed
  qed simp
  then show "0 \<le> compareBytes xs ys \<longleftrightarrow> be_nat ys \<le> be_nat xs"
    and "compareBytes xs ys \<le> 0 \<longleftrightarrow> be_nat xs \<le> be_nat ys" by simp_all
qed

lemma prefix_match_0 [simp]: "prefix_match 0 xs ys"
  by (cases xs; cases ys) simp_all

lemma byte_and_ff [simp]: "(x :: byte) AND 0xff = x"
  using byte_less_256 [of x] by (simp add: byte_eq_iff unsigned_and_eq nat_and_mask)

lemma byte_top_mask:
  fixes x :: byte
  assumes "0 < n" and "n < 8"
  shows "unat (x AND push_bit (8 - n) 0xff) = unat x div 2 ^ (8 - n) * 2 ^ (8 - n)"
proof -
  from assms have n: "n \<in> {1, 2, 3, 4, 5, 6, 7}" by auto
  then have "push_bit (8 - n) 0xff = (push_bit (8 - n) (mask n) :: byte)"
    by (auto simp: push_bit_eq_mult mask_eq_exp_minus_1)
  moreover from n have "unat (push_bit (8 - n) (mask n) :: byte) = push_bit (8 - n) (mask n)"
    by (auto simp: push_bit_eq_mult mask_eq_exp_minus_1)
  ultimately have "unat (x AND push_bit (8 - n) 0xff) = unat x AND push_bit (8 - n) (mask n)"
    by (simp add: unsigned_and_eq)
  also have "\<dots> = unat x div 2 ^ (8 - n) mod 2 ^ n * 2 ^ (8 - n)" by (rule and_field_nat)
  also have "unat x div 2 ^ (8 - n) mod 2 ^ n = unat x div 2 ^ (8 - n)"
  proof (rule mod_less)
    from byte_less_256 [of x] assms(2) show "unat x div 2 ^ (8 - n) < 2 ^ n"
      by (simp add: div_less_iff_less_mult flip: power_add)
  qed
  finally show ?thesis .
qed

lemma prefix_match_numeric:
  assumes "length xs = length ys" and "p \<le> 8 * length xs"
  shows "prefix_match p xs ys \<longleftrightarrow>
    be_nat xs div 2 ^ (8 * length xs - p) = be_nat ys div 2 ^ (8 * length ys - p)"
  using assms
proof (induction xs ys arbitrary: p rule: list_induct2)
  case (Cons x xs y ys)
  let ?n = "length ys"
  have pow: "(256 :: nat) ^ n = 2 ^ (8 * n)" for n by (simp add: power_mult)
  have bx: "be_nat xs < 2 ^ (8 * ?n)" and "by": "be_nat ys < 2 ^ (8 * ?n)"
    using be_nat_less [of xs] be_nat_less [of ys] Cons.hyps by (simp_all add: pow)
  have head: "be_nat (x # xs) = unat x * 2 ^ (8 * ?n) + be_nat xs" "be_nat (y # ys) = unat y * 2 ^ (8 * ?n) + be_nat ys"
    using Cons.hyps by (simp_all add: be_nat_Cons pow)
  consider "p = 0" | "0 < p" "p < 8" | "8 \<le> p" by linarith
  then show ?case
  proof cases
    case 1
    have "be_nat (z # zs) div 2 ^ (8 * length (z # zs)) = 0" for z zs
      using be_nat_less [of "z # zs"] unfolding pow by (rule div_less)
    with 1 show ?thesis by (simp del: length_Cons)
  next
    case 2
    have sh: "8 * length (y # ys) - p = 8 * ?n + (8 - p)" using 2 by simp
    have "(unat z * 2 ^ (8 * ?n) + r) div 2 ^ (8 * ?n + (8 - p)) = unat z div 2 ^ (8 - p)" if "r < 2 ^ (8 * ?n)" for z :: byte and r :: nat
      using that by (simp add: power_add div_mult2_eq)
    then have "be_nat (x # xs) div 2 ^ (8 * length (x # xs) - p) = unat x div 2 ^ (8 - p)"
      "be_nat (y # ys) div 2 ^ (8 * length (y # ys) - p) = unat y div 2 ^ (8 - p)"
      using bx "by" sh Cons.hyps unfolding head by simp_all
    moreover have "prefix_match p (x # xs) (y # ys) \<longleftrightarrow> unat x div 2 ^ (8 - p) = unat y div 2 ^ (8 - p)"
      using 2 byte_top_mask [of p] by (simp add: byte_eq_iff Let_def)
    ultimately show ?thesis by simp
  next
    case 3
    define k where "k = 8 * ?n - (p - 8)"
    have sh: "8 * length (y # ys) - p = k" and ph: "8 * ?n = k + (p - 8)" using 3 Cons.prems Cons.hyps by (simp_all add: k_def)
    have d: "(u * 2 ^ (8 * ?n) + r) div 2 ^ k = u * 2 ^ (p - 8) + r div 2 ^ k" for u r :: nat
      by (simp add: ph power_add mult.assoc [symmetric] mult.commute [of "2 ^ k"])
    have small: "r div 2 ^ k < 2 ^ (p - 8)" if "r < 2 ^ (8 * ?n)" for r :: nat
    proof -
      have "r < 2 ^ (p - 8) * 2 ^ k" using that unfolding ph by (simp add: power_add mult.commute)
      then show ?thesis by (simp add: div_less_iff_less_mult)
    qed
    have uniq: "u * m + a = v * m + b \<longleftrightarrow> u = v \<and> a = b" if "a < m" "b < m" for u v a b m :: nat
      using that add_field_div_mod [of a m u] add_field_div_mod [of b m v] by metis
    have "prefix_match p (x # xs) (y # ys) \<longleftrightarrow> x = y \<and> prefix_match (p - 8) xs ys"
      using 3 by (simp add: Let_def)
    also have "\<dots> \<longleftrightarrow> unat x = unat y \<and> be_nat xs div 2 ^ k = be_nat ys div 2 ^ k"
      using Cons.IH [of "p - 8"] Cons.prems Cons.hyps 3 by (simp add: byte_eq_iff k_def)
    also have "\<dots> \<longleftrightarrow> unat x * 2 ^ (p - 8) + be_nat xs div 2 ^ k = unat y * 2 ^ (p - 8) + be_nat ys div 2 ^ k"
      using uniq [OF small [OF bx] small [OF "by"]] by simp
    finally show ?thesis unfolding head using sh Cons.hyps by (simp add: d)
  qed
qed simp

definition wf_address :: "address \<Rightarrow> bool" where
  "wf_address a \<longleftrightarrow> a_family a \<in> {4, 6} \<and> 8 * length (a_bytes a) = address_bits (a_family a)"

definition address_value :: "address \<Rightarrow> nat" where
  "address_value a = be_nat (a_bytes a)"

text \<open>The first and the last address of a range.\<close>

definition range_low :: "range \<Rightarrow> nat" where
  "range_low r = (case r of
     Span f lo hi t \<Rightarrow> be_nat lo
   | Cidr f b p t \<Rightarrow> be_nat b div 2 ^ (address_bits f - p) * 2 ^ (address_bits f - p))"

definition range_high :: "range \<Rightarrow> nat" where
  "range_high r = (case r of
     Span f lo hi t \<Rightarrow> be_nat hi
   | Cidr f b p t \<Rightarrow> (be_nat b div 2 ^ (address_bits f - p) + 1) * 2 ^ (address_bits f - p) - 1)"

definition wf_range :: "range \<Rightarrow> bool" where
  "wf_range r \<longleftrightarrow> r_family r \<in> {4, 6} \<and> r_text r \<noteq> [] \<and>
     (case r of
        Span f lo hi t \<Rightarrow> 8 * length lo = address_bits f \<and> 8 * length hi = address_bits f \<and> be_nat lo \<le> be_nat hi
      | Cidr f b p t \<Rightarrow> 8 * length b = address_bits f \<and> p \<le> address_bits f)"

lemma parseIPv4_length: "parseIPv4 s = Some b \<Longrightarrow> length b = 4"
  by (auto simp: parseIPv4_def Let_def split: if_splits)

lemma length_group_bytes [simp]: "length (concat (map group_bytes gs)) = 2 * length gs"
  by (induction gs) (simp_all add: group_bytes_def)

lemma parse_groups_length: "parse_groups s = Some b \<Longrightarrow> length b = 16"
  by (auto simp: parse_groups_def Let_def split: list.splits if_splits)

lemma parseIPv6_length: "parseIPv6 s = Some b \<Longrightarrow> length b = 16"
  by (auto simp: parseIPv6_def Let_def parse_groups_length split: option.splits if_splits)

lemma toAddress_wf: "toAddress s = Some a \<Longrightarrow> wf_address a"
  by (auto simp: toAddress_def wf_address_def address_bits_def dest!: parseIPv4_length parseIPv6_length
      split: option.splits if_splits)

lemma parseRange_wf: "parseRange s = Inr r \<Longrightarrow> wf_range r"
  using compareBytes_numeric(2)
  by (auto simp: parseRange_def parseSpan_def parseCidr_def Let_def wf_range_def wf_address_def not_less
      split: option.splits if_splits dest!: toAddress_wf)

lemma parseRange_text: "parseRange s = Inr r \<Longrightarrow> r_text r = trim s"
  by (auto simp: parseRange_def parseSpan_def parseCidr_def Let_def split: option.splits if_splits)

lemma div_eq_interval: "0 < m \<Longrightarrow> (a div m = b div m) \<longleftrightarrow> b div m * m \<le> a \<and> a \<le> (b div m + 1) * m - (1 :: nat)"
proof
  assume m: "0 < m" and eq: "a div m = b div m"
  have "a div m * m \<le> a" by (rule div_times_less_eq_dividend)
  moreover have "a < (a div m + 1) * m" using dividend_less_div_times [OF m, of a] by simp
  ultimately show "b div m * m \<le> a \<and> a \<le> (b div m + 1) * m - 1" unfolding eq by linarith
next
  assume m: "0 < m" and "b div m * m \<le> a \<and> a \<le> (b div m + 1) * m - 1"
  then have lo: "b div m * m \<le> a" and hi: "a < (b div m + 1) * m" by auto
  show "a div m = b div m" using lo hi by (intro div_nat_eqI) (simp_all add: mult.commute)
qed

lemma withinRange_interval:
  assumes "wf_address a" and "wf_range r"
  shows "withinRange a r \<longleftrightarrow>
    a_family a = r_family r \<and> range_low r \<le> address_value a \<and> address_value a \<le> range_high r"
proof (cases "a_family a = r_family r")
  case True
  show ?thesis
  proof (cases r)
    case (Cidr f b p t)
    with True assms have len: "length (a_bytes a) = length b" "p \<le> 8 * length b" "8 * length b = address_bits f"
      by (auto simp: wf_address_def wf_range_def)
    with True Cidr prefix_match_numeric [of "a_bytes a" b p]
      div_eq_interval [of "2 ^ (address_bits f - p)" "be_nat (a_bytes a)" "be_nat b"]
    show ?thesis by (simp add: withinRange_def range_low_def range_high_def address_value_def)
  next
    case (Span f lo hi t)
    with True assms have "length (a_bytes a) = length lo" "length (a_bytes a) = length hi"
      by (auto simp: wf_address_def wf_range_def)
    with True Span compareBytes_numeric [of "a_bytes a" lo] compareBytes_numeric [of "a_bytes a" hi]
    show ?thesis by (simp add: withinRange_def range_low_def range_high_def address_value_def)
  qed
qed (simp add: withinRange_def)

subsection \<open>Every literal has an address\<close>

lemma strict_octets: "list_all strict_octet ps \<Longrightarrow> list_all octet_ok ps"
  by (auto simp: list_all_iff strict_octet_def)

lemma isIPv4_parse: "isIPv4 s \<Longrightarrow> \<exists>b. parseIPv4 s = Some b"
  by (simp add: isIPv4_def parseIPv4_def Let_def strict_octets)

lemma groups_fit_parse: "groups_fit s \<Longrightarrow> \<exists>b. parse_groups s = Some b"
  by (auto simp: groups_fit_def parse_groups_def Let_def split: list.splits)

lemma isIPv6_parse: "isIPv6 s \<Longrightarrow> \<exists>b. parseIPv6 s = Some b"
  using groups_fit_parse isIPv4_parse by (fastforce simp: isIPv6_def parseIPv6_def Let_def split: if_splits)

lemma isIP_toAddress:
  assumes "isIP s \<noteq> 0"
  shows "\<exists>a. toAddress s = Some a"
  using assms isIPv4_parse [of s] isIPv6_parse [of s] by (auto simp: isIP_def toAddress_def split: if_splits)

subsection \<open>Mapped literals\<close>

lemma show_hex_less: "n < 16 \<Longrightarrow> show_hex n = [hex_digit n]"
  by (subst show_hex.simps) simp

lemma show_hex_more: "16 \<le> n \<Longrightarrow> show_hex n = show_hex (n div 16) @ [hex_digit (n mod 16)]"
  by (subst show_hex.simps) simp

lemma show_hex_props:
  "list_all is_hex (show_hex n) \<and> show_hex n \<noteq> [] \<and> hex_number (show_hex n) = n"
proof (induction n rule: less_induct)
  case (less n)
  show ?case
  proof (cases "n < 16")
    case True
    then show ?thesis by (simp add: show_hex_less hex_number_def is_hex_def hex_digit_facts)
  next
    case False
    with less.IH [of "n div 16"] show ?thesis
      by (simp add: show_hex_more hex_number_def is_hex_def hex_digit_facts)
  qed
qed

lemma length_show_hex: "n < 16 ^ Suc k \<Longrightarrow> length (show_hex n) \<le> Suc k"
proof (induction k arbitrary: n)
  case 0
  then show ?case by (simp add: show_hex_less)
next
  case (Suc k)
  show ?case
  proof (cases "n < 16")
    case False
    with Suc.IH [of "n div 16"] Suc.prems show ?thesis
      by (simp add: show_hex_more div_less_iff_less_mult)
  qed (simp add: show_hex_less)
qed

lemma show_hex_group: "n < 65536 \<Longrightarrow> group_ok (show_hex n)"
  using show_hex_props [of n] length_show_hex [of n 3] by (simp add: group_ok_def)

lemma group_bytes_show_hex:
  "group_bytes (show_hex (unat a * 256 + unat b)) = [a, b]"
  using show_hex_props [of "unat a * 256 + unat b"] byte_less_256 [of b] byte_less_256 [of a]
    add_field_div_mod [of "unat b" 256 "unat a"]
  by (simp add: group_bytes_def drop_bit_eq_div nat_and_mask byte_eq_iff)

lemma is_hex_not_colon: "list_all is_hex s \<Longrightarrow> CHR '':'' \<notin> set s"
  by (auto simp: list_all_iff is_hex_def hex_value_def Let_def)

lemma split_dcolon_skip:
  assumes "CHR '':'' \<notin> set u" and "v \<noteq> []" and "hd v \<noteq> CHR '':''"
  shows "split_dcolon (u @ CHR '':'' # v) = (u @ CHR '':'' # hd (split_dcolon v)) # tl (split_dcolon v)"
  using assms
proof (induction u)
  case Nil
  then show ?case by (cases v) auto
next
  case (Cons x u)
  then show ?case by (cases "u @ CHR '':'' # v") auto
qed

lemma split_dcolon_two:
  assumes "CHR '':'' \<notin> set u" and "CHR '':'' \<notin> set v" and "v \<noteq> []" and "CHR '':'' \<notin> set w" and "w \<noteq> []"
  shows "split_dcolon (u @ CHR '':'' # v @ CHR '':'' # w) = [u @ CHR '':'' # v @ CHR '':'' # w]"
proof -
  have "hd (v @ CHR '':'' # w) \<noteq> CHR '':''" "hd w \<noteq> CHR '':''"
    using assms by (auto simp: hd_append dest: hd_in_set)
  with assms show ?thesis by (simp add: split_dcolon_skip split_dcolon_no_colon)
qed

lemma split_on_covers: "x \<in> set s \<Longrightarrow> x = c \<or> (\<exists>p\<in>set (split_on c s). x \<in> set p)"
proof (induction s)
  case (Cons y ys)
  obtain q qs where "split_on c ys = q # qs" by (cases "split_on c ys") auto
  with Cons show ?case by auto
qed simp

lemma isIPv4_chars:
  assumes "isIPv4 s" and "x \<in> set s"
  shows "is_digit x \<or> x = CHR ''.''"
proof -
  from split_on_covers [OF assms(2), of "CHR ''.''"] assms(1) show ?thesis
    by (fastforce simp: isIPv4_def Let_def list_all_iff strict_octet_def octet_ok_def)
qed

lemma isIPv4_no:
  assumes "isIPv4 s"
  shows "CHR '':'' \<notin> set s" "CHR ''%'' \<notin> set s" "CHR ''.'' \<in> set s"
proof -
  show "CHR '':'' \<notin> set s" "CHR ''%'' \<notin> set s"
    using isIPv4_chars [OF assms, of "CHR '':''"] isIPv4_chars [OF assms, of "CHR ''%''"] by (auto simp: is_digit_def)
  show "CHR ''.'' \<in> set s"
    using assms split_on_no_sep [of "CHR ''.''" s] by (force simp: isIPv4_def Let_def)
qed

lemma mapped_bytes:
  assumes "v4 = [a, b, c, d]"
  shows "parse_groups (''::ffff:'' @ quad_as_groups v4) = Some (replicate 10 0 @ [0xff, 0xff] @ v4)"
    and "groups_fit (''::ffff:'' @ quad_as_groups v4)"
proof -
  define h where "h = show_hex (unat a * 256 + unat b)"
  define l where "l = show_hex (unat c * 256 + unat d)"
  have no: "CHR '':'' \<notin> set h" "CHR '':'' \<notin> set l" "h \<noteq> []" "l \<noteq> []"
    using show_hex_props is_hex_not_colon by (auto simp: h_def l_def)
  have "unat x * 256 + unat y < 65536" for x y :: byte
    using byte_less_256 [of x] byte_less_256 [of y] by linarith
  then have ok: "group_ok h" "group_ok l" by (simp_all add: h_def l_def show_hex_group)
  have str: "''::ffff:'' @ quad_as_groups v4 = CHR '':'' # CHR '':'' # ''ffff'' @ CHR '':'' # h @ CHR '':'' # l"
    by (simp add: quad_as_groups_def assms h_def l_def)
  have halves: "split_dcolon (''::ffff:'' @ quad_as_groups v4) = [[], ''ffff'' @ CHR '':'' # h @ CHR '':'' # l]"
    unfolding str using split_dcolon_two [of "''ffff''" h l] no by simp
  have "split_on (CHR '':'') (''ffff'' @ CHR '':'' # h @ CHR '':'' # l) = [''ffff'', h, l]"
    using no by (subst split_on_append) (simp_all add: split_on_append split_on_no_sep)
  then have groups: "groups_of (''ffff'' @ CHR '':'' # h @ CHR '':'' # l) = [''ffff'', h, l]" "groups_of [] = []"
    by (simp_all add: groups_of_def)
  have ffff: "hex_number ''ffff'' = 65535" by (simp add: hex_number_def hex_value_def)
  then have ff: "group_bytes ''ffff'' = [0xff, 0xff]"
    by (simp add: group_bytes_def drop_bit_eq_div nat_and_mask byte_eq_iff)
  have gff: "group_ok ''ffff''" by code_simp
  have gb: "group_bytes h = [a, b]" "group_bytes l = [c, d]"
    by (simp_all only: h_def l_def group_bytes_show_hex)
  show "parse_groups (''::ffff:'' @ quad_as_groups v4) = Some (replicate 10 0 @ [0xff, 0xff] @ v4)"
    unfolding parse_groups_def halves using ok
    by (simp only: list.case groups Let_def) (simp add: ff gff gb assms)
  show "groups_fit (''::ffff:'' @ quad_as_groups v4)"
    unfolding groups_fit_def halves using ok by (simp only: list.case groups) (simp add: gff)
qed

lemma toAddress_mapped:
  assumes "isIPv4 t"
  shows "toAddress (''::ffff:'' @ t) = toAddress t"
proof -
  let ?s = "''::ffff:'' @ t"
  obtain v4 where v4: "parseIPv4 t = Some v4" using isIPv4_parse [OF assms] by blast
  then have "length v4 = 4" by (rule parseIPv4_length)
  then obtain a b c d where abcd: "v4 = [a, b, c, d]" by (auto simp: numeral_eq_Suc length_Suc_conv)
  note no = isIPv4_no [OF assms]
  have pct: "CHR ''%'' \<notin> set ?s" using no by auto
  then have bf: "before (CHR ''%'') ?s = ?s" unfolding before_def by (subst takeWhile_eq_all_conv) auto
  have last: "after_last (CHR '':'') ?s = t" "upto_last (CHR '':'') ?s = ''::ffff:''"
    using after_last_sep [OF no(1), of "''::ffff''"] upto_last_sep [OF no(1), of "''::ffff''"] by simp_all
  have six: "isIPv6 ?s"
    using assms no pct mapped_bytes(2) [OF abcd]
    unfolding isIPv6_def Let_def bf last v4 option.sel by simp
  have parse: "parseIPv6 ?s = Some (replicate 10 0 @ [0xff, 0xff] @ v4)"
    using no mapped_bytes(1) [OF abcd] unfolding parseIPv6_def Let_def bf last v4 option.case by simp
  have "\<not> isIPv4 ?s" using isIPv4_no(1) [of ?s] by auto
  then have "toAddress ?s = Some \<lparr>a_bytes = v4, a_family = 4\<rparr>"
    unfolding toAddress_def isIP_def parse using six by (simp add: is_mapped_def numeral_eq_Suc)
  moreover have "toAddress t = Some \<lparr>a_bytes = v4, a_family = 4\<rparr>"
    using assms v4 by (simp add: toAddress_def isIP_def)
  ultimately show ?thesis by simp
qed

subsection \<open>Properties\<close>

text \<open>Both notations of a range denote an interval of addresses, the same for every address of the
  range's family: a CIDR block is the block its prefix spans, a first-last pair is inclusive at both ends,
  and an address of the other family is never inside.\<close>

theorem range_is_interval:
  assumes "toAddress s = Some a" and "parseRange e = Inr r"
  shows "withinRange a r \<longleftrightarrow>
    a_family a = r_family r \<and> range_low r \<le> address_value a \<and> address_value a \<le> range_high r"
  using toAddress_wf [OF assms(1)] parseRange_wf [OF assms(2)] by (rule withinRange_interval)

lemma range_is_interval_witness:
  "withinRange \<lparr>a_bytes = [10, 255, 0, 1], a_family = 4\<rparr> (Cidr 4 [10, 1, 0, 0] 8 ''10.1.0.0/8'') \<longleftrightarrow>
    a_family \<lparr>a_bytes = [10, 255, 0, 1], a_family = 4\<rparr> = r_family (Cidr 4 [10, 1, 0, 0] 8 ''10.1.0.0/8'') \<and>
    range_low (Cidr 4 [10, 1, 0, 0] 8 ''10.1.0.0/8'')
      \<le> address_value \<lparr>a_bytes = [10, 255, 0, 1], a_family = 4\<rparr> \<and>
    address_value \<lparr>a_bytes = [10, 255, 0, 1], a_family = 4\<rparr>
      \<le> range_high (Cidr 4 [10, 1, 0, 0] 8 ''10.1.0.0/8'')"
proof (rule range_is_interval)
  show "toAddress ''10.255.0.1'' = Some \<lparr>a_bytes = [10, 255, 0, 1], a_family = 4\<rparr>" by code_simp
  show "parseRange '' 10.1.0.0/8'' = Inr (Cidr 4 [10, 1, 0, 0] 8 ''10.1.0.0/8'')" by code_simp
qed

text \<open>Every text node takes for an IP literal is read as an address, of 32 or 128 bits: the guard
  never mistakes a literal, which is connected to without a lookup, for a name.\<close>

theorem literal_has_address:
  assumes "isIP s \<noteq> 0"
  shows "\<exists>a. toAddress s = Some a \<and> wf_address a"
  using isIP_toAddress [OF assms] toAddress_wf by blast

lemma literal_has_address_witness: "\<exists>a. toAddress ''fe80::1%eth0'' = Some a \<and> wf_address a"
  by (rule literal_has_address) code_simp

text \<open>An IPv4-mapped IPv6 literal has the address of the IPv4 literal inside it, so it falls
  in exactly the same ranges.\<close>

theorem mapped_literal_same_address:
  assumes "isIPv4 t"
  shows "toAddress (''::ffff:'' @ t) = toAddress t \<and>
    (\<exists>a. toAddress t = Some a \<and> a_family a = 4)"
  using toAddress_mapped [OF assms] isIPv4_parse [OF assms] assms
  by (auto simp: toAddress_def isIP_def)

lemma mapped_literal_same_address_witness:
  "toAddress (''::ffff:'' @ ''127.0.0.1'') = toAddress ''127.0.0.1'' \<and>
    (\<exists>a. toAddress ''127.0.0.1'' = Some a \<and> a_family a = 4)"
  by (rule mapped_literal_same_address) code_simp

end
