(* ===== verification/Ssrf_Guard.thy ===== *)
theory Ssrf_Guard
  imports Ssrf_Address
begin

text \<open>
  The outbound-call guard (\<open>api/ssrf_guard.js\<close>, \<open>createGuard\<close>).

  A configuration is reduced to the two lists of usable ranges and two switches; \<open>blockedRangeFor\<close> is the
  decision every relay asks for, and \<open>guardedLookup\<close>, \<open>assertUrlAllowed\<close> and \<open>guardConnection\<close> are the
  three places that ask it.  What a resolver answered and what the URL parser found are arguments.  Messages
  are not modelled; the fields of the errors are.

  The locale \<open>address_policy\<close> is the interface between the decision and its clients: the clients walk over
  the addresses a name resolved to, and rely only on the decision being empty exactly on the permitted
  addresses.
\<close>

subsection \<open>Configuration\<close>

text \<open>What a configuration key may hold, as far as the guard tells values apart; the entries of an array
  are given as \<open>String(entry)\<close> yields them.\<close>

datatype js_setting = Unset | Flag bool | Text string | Entries "string list"

record guard_config =
  allowedAddressRanges :: js_setting
  blockPrivateNetworkCalls :: js_setting
  blockedAddressRanges :: js_setting

definition DEFAULT_BLOCKED_RANGES :: "string list" where
  "DEFAULT_BLOCKED_RANGES =
     [''127.0.0.0/8'', ''0.0.0.0/8'', ''10.0.0.0/8'', ''172.16.0.0/12'', ''192.168.0.0/16'',
      ''169.254.0.0/16'', ''100.64.0.0/10'', ''192.0.0.0/24'', ''198.18.0.0/15'',
      ''::1/128'', ''fe80::/10'', ''fc00::/7'']"

definition ALLOWED_PROTOCOLS :: "string list" where
  "ALLOWED_PROTOCOLS = [''http:'', ''https:'']"

record guard =
  g_enabled :: bool
  g_allowListMode :: bool
  g_allowedRanges :: "range list"
  g_ranges :: "range list"

fun usable_ranges :: "string list \<Rightarrow> range list" where
  "usable_ranges [] = []"
| "usable_ranges (e # es) =
     (case parseRange e of Inl _ \<Rightarrow> usable_ranges es | Inr r \<Rightarrow> r # usable_ranges es)"

definition setting_entries :: "js_setting \<Rightarrow> string list" where
  "setting_entries v = (case v of Entries es \<Rightarrow> es | _ \<Rightarrow> [])"

definition createGuard :: "guard_config \<Rightarrow> guard" where
  "createGuard cfg =
     (let allow = setting_entries (allowedAddressRanges cfg);
          block = setting_entries (blockedAddressRanges cfg)
      in \<lparr>g_enabled = (allow \<noteq> [] \<or> blockPrivateNetworkCalls cfg \<noteq> Flag False),
          g_allowListMode = (allow \<noteq> []),
          g_allowedRanges = usable_ranges allow,
          g_ranges = usable_ranges (if block = [] then DEFAULT_BLOCKED_RANGES else block)\<rparr>)"

subsection \<open>The decision\<close>

fun join_comma :: "string list \<Rightarrow> string" where
  "join_comma [] = []"
| "join_comma [x] = x"
| "join_comma (x # y # ys) = x @ '', '' @ join_comma (y # ys)"

definition allowListRefusalText :: "guard \<Rightarrow> string" where
  "allowListRefusalText g =
     (if g_allowedRanges g \<noteq> []
      then ''everything outside allowedAddressRanges ['' @ join_comma (map r_text (g_allowedRanges g)) @ '']''
      else ''everything (allowedAddressRanges has no usable entry, so it fails closed)'')"

fun first_range :: "address \<Rightarrow> range list \<Rightarrow> range option" where
  "first_range a [] = None"
| "first_range a (r # rs) = (if withinRange a r then Some r else first_range a rs)"

definition blockedRangeFor :: "guard \<Rightarrow> string \<Rightarrow> string option" where
  "blockedRangeFor g ip =
     (case toAddress ip of
        None \<Rightarrow> None
      | Some a \<Rightarrow>
          if g_allowListMode g
          then (case first_range a (g_allowedRanges g) of
                  Some _ \<Rightarrow> None
                | None \<Rightarrow> Some (allowListRefusalText g))
          else map_option r_text (first_range a (g_ranges g)))"

subsection \<open>The hooks\<close>

datatype guard_error =
    BlockedAddress string string string
  | ResolverError string
  | NoAddress
  | ProtocolNotAllowed string

type_synonym dns_answer = "string + (string \<times> nat) list"

text \<open>The loop over the addresses of an answer: the first that is refused, with the text.  The source
  tests the text for truth, so an empty one would not refuse.\<close>

fun first_blocked :: "(string \<Rightarrow> string option) \<Rightarrow> (string \<times> nat) list \<Rightarrow> (string \<times> string) option" where
  "first_blocked verdict [] = None"
| "first_blocked verdict ((ip, family) # es) =
     (case verdict ip of
        Some t \<Rightarrow> if t \<noteq> [] then Some (ip, t) else first_blocked verdict es
      | None \<Rightarrow> first_blocked verdict es)"

datatype lookup_result = AllAddresses "(string \<times> nat) list" | OneAddress string nat

definition guardedLookup :: "guard \<Rightarrow> string \<Rightarrow> bool \<Rightarrow> dns_answer \<Rightarrow> guard_error + lookup_result" where
  "guardedLookup g hostname wants_all answer =
     (case answer of
        Inl code \<Rightarrow> Inl (ResolverError code)
      | Inr addrs \<Rightarrow>
          (case first_blocked (blockedRangeFor g) addrs of
             Some (ip, t) \<Rightarrow> Inl (BlockedAddress hostname ip t)
           | None \<Rightarrow>
               if wants_all then Inr (AllAddresses addrs)
               else (case addrs of
                       [] \<Rightarrow> Inl NoAddress
                     | (ip, family) # _ \<Rightarrow> Inr (OneAddress ip family))))"

text \<open>The protocol of the URL, \<open>None\<close> where \<open>new URL\<close> throws.\<close>

definition assertProtocolAllowed :: "string option \<Rightarrow> guard_error option" where
  "assertProtocolAllowed protocol =
     (case protocol of
        None \<Rightarrow> None
      | Some p \<Rightarrow> if p \<in> set ALLOWED_PROTOCOLS then None else Some (ProtocolNotAllowed p))"

definition strip_brackets :: "string \<Rightarrow> string" where
  "strip_brackets h =
     (if 1 < length h \<and> hd h = CHR ''['' \<and> last h = CHR '']'' then butlast (tl h) else h)"

definition assertUrlAllowed :: "guard \<Rightarrow> string option \<Rightarrow> dns_answer \<Rightarrow> guard_error option" where
  "assertUrlAllowed g url_host answer =
     (case url_host of
        None \<Rightarrow> None
      | Some h0 \<Rightarrow>
          (let h = strip_brackets h0
           in if h = [] then None
              else case blockedRangeFor g h of
                Some t \<Rightarrow> Some (BlockedAddress h h t)
              | None \<Rightarrow>
                  if isIP h \<noteq> 0 then None
                  else (case answer of
                          Inl code \<Rightarrow> Some (ResolverError code)
                        | Inr addrs \<Rightarrow>
                            map_option (\<lambda>(ip, t). BlockedAddress h ip t)
                              (first_blocked (blockedRangeFor g) addrs))))"

text \<open>\<open>None\<close> is the call of \<open>connect\<close>; the host is the empty string when the options name none.\<close>

definition guardConnection :: "guard \<Rightarrow> string \<Rightarrow> guard_error option" where
  "guardConnection g host =
     (if host \<noteq> [] \<and> isIP host \<noteq> 0
      then map_option (\<lambda>t. BlockedAddress host host t) (blockedRangeFor g host)
      else None)"

text \<open>The addresses an agent of \<open>createAgent\<close> may open a socket to for a host.  Both hooks are absent
  when the guard is disabled; node consults \<open>lookup\<close> for names only.\<close>

definition agent_dials :: "guard \<Rightarrow> string \<Rightarrow> dns_answer \<Rightarrow> guard_error + string list" where
  "agent_dials g host answer =
     (if isIP host \<noteq> 0 then
        (case if g_enabled g then guardConnection g host else None of
           Some e \<Rightarrow> Inl e
         | None \<Rightarrow> Inr [host])
      else if g_enabled g then
        rbind (guardedLookup g host True answer)
          (\<lambda>res. Inr (case res of AllAddresses addrs \<Rightarrow> map fst addrs | OneAddress ip _ \<Rightarrow> [ip]))
      else (case answer of Inl code \<Rightarrow> Inl (ResolverError code) | Inr addrs \<Rightarrow> Inr (map fst addrs)))"

definition targetOf :: "string \<Rightarrow> string \<Rightarrow> string" where
  "targetOf url baseURL =
     (let scheme = before (CHR '':'') url;
          scheme_char = (\<lambda>ch. is_lower ch \<or> is_upper ch \<or> is_digit ch \<or> ch = CHR ''+'' \<or> ch = CHR ''.'' \<or> ch = CHR ''-'')
      in if scheme \<noteq> [] \<and> (is_lower (hd scheme) \<or> is_upper (hd scheme)) \<and> list_all scheme_char scheme \<and>
            take 3 (drop (length scheme) url) = ''://''
         then url else baseURL @ url)"

text \<open>The request interceptors \<open>install\<close> registers, in that order; the second only when the
  address policy is on.\<close>

datatype interceptor = ProtocolCheck | UrlCheck

definition install :: "guard \<Rightarrow> interceptor list" where
  "install g = ProtocolCheck # (if g_enabled g then [UrlCheck] else [])"

subsection \<open>The interface of the decision\<close>

locale address_policy =
  fixes verdict :: "string \<Rightarrow> string option"
    and permits :: "string \<Rightarrow> bool"
  assumes verdict_None_iff: "verdict ip = None \<longleftrightarrow> permits ip"
    and verdict_text: "verdict ip \<noteq> Some []"
begin

lemma first_blocked_None_iff:
  "first_blocked verdict addrs = None \<longleftrightarrow> (\<forall>(ip, family)\<in>set addrs. permits ip)"
proof (induction addrs)
  case (Cons e es)
  then show ?case using verdict_None_iff [of "fst e"] verdict_text [of "fst e"]
    by (cases e; cases "verdict (fst e)") auto
qed simp

lemma first_blocked_SomeD:
  assumes "first_blocked verdict addrs = Some (ip, t)"
  shows "ip \<in> fst ` set addrs" and "\<not> permits ip" and "verdict ip = Some t"
proof -
  from assms have "ip \<in> fst ` set addrs \<and> verdict ip = Some t"
  proof (induction addrs)
    case (Cons e es)
    then show ?case by (cases e) (auto split: option.splits if_splits)
  qed simp
  with verdict_None_iff [of ip] show "ip \<in> fst ` set addrs" "\<not> permits ip" "verdict ip = Some t" by auto
qed

lemma first_blocked_append:
  "first_blocked verdict (as @ bs) =
     (case first_blocked verdict as of None \<Rightarrow> first_blocked verdict bs | Some x \<Rightarrow> Some x)"
  by (induction "verdict" as rule: first_blocked.induct) (auto split: option.splits)

end

subsection \<open>What a configuration permits\<close>

text \<open>The policy in terms of the configuration and of numbers: an address lies inside a list of entries
  when it lies in the interval of one that parses.\<close>

definition inside_any :: "string list \<Rightarrow> address \<Rightarrow> bool" where
  "inside_any es a \<longleftrightarrow>
     (\<exists>e\<in>set es. \<exists>r. parseRange e = Inr r \<and> a_family a = r_family r \<and>
        range_low r \<le> address_value a \<and> address_value a \<le> range_high r)"

definition permitted :: "guard_config \<Rightarrow> string \<Rightarrow> bool" where
  "permitted cfg ip =
     (case toAddress ip of
        None \<Rightarrow> True
      | Some a \<Rightarrow>
          if setting_entries (allowedAddressRanges cfg) \<noteq> []
          then inside_any (setting_entries (allowedAddressRanges cfg)) a
          else \<not> inside_any (if setting_entries (blockedAddressRanges cfg) = [] then DEFAULT_BLOCKED_RANGES
                              else setting_entries (blockedAddressRanges cfg)) a)"

lemma set_usable_ranges: "set (usable_ranges es) = {r. \<exists>e\<in>set es. parseRange e = Inr r}"
  by (induction es) (auto split: sum.split)

lemma first_range_None_iff: "first_range a rs = None \<longleftrightarrow> (\<forall>r\<in>set rs. \<not> withinRange a r)"
  by (induction rs) auto

lemma first_range_SomeD: "first_range a rs = Some r \<Longrightarrow> r \<in> set rs \<and> withinRange a r"
  by (induction rs) (auto split: if_splits)

lemma inside_any_usable:
  assumes "wf_address a"
  shows "inside_any es a \<longleftrightarrow> (\<exists>r\<in>set (usable_ranges es). withinRange a r)"
  using withinRange_interval [OF assms] parseRange_wf
  by (fastforce simp: inside_any_def set_usable_ranges)

lemma blockedRangeFor_None_iff: "blockedRangeFor (createGuard cfg) ip = None \<longleftrightarrow> permitted cfg ip"
proof (cases "toAddress ip")
  case (Some a)
  let ?al = "setting_entries (allowedAddressRanges cfg)"
  from Some have wf: "wf_address a" by (rule toAddress_wf)
  show ?thesis
  proof (cases "?al = []")
    case True
    then show ?thesis using Some inside_any_usable [OF wf]
      by (simp add: blockedRangeFor_def permitted_def createGuard_def Let_def first_range_None_iff)
  next
    case False
    then show ?thesis using Some inside_any_usable [OF wf, of ?al] first_range_None_iff [of a "usable_ranges ?al"]
      by (auto simp: blockedRangeFor_def permitted_def createGuard_def Let_def split: option.split)
  qed
qed (simp add: blockedRangeFor_def permitted_def)

lemma allowListRefusalText_nonempty: "allowListRefusalText g \<noteq> []"
  by (simp add: allowListRefusalText_def)

lemma blockedRangeFor_text: "blockedRangeFor (createGuard cfg) ip \<noteq> Some []"
proof
  assume "blockedRangeFor (createGuard cfg) ip = Some []"
  then obtain a r where "r \<in> set (g_ranges (createGuard cfg))" "r_text r = []"
    using allowListRefusalText_nonempty
    by (auto simp: blockedRangeFor_def split: option.splits if_splits dest!: first_range_SomeD)
  then show False using parseRange_wf
    by (fastforce simp: createGuard_def Let_def set_usable_ranges wf_range_def)
qed

interpretation guard_policy: address_policy "blockedRangeFor (createGuard cfg)" "permitted cfg" for cfg
  by unfold_locales (simp_all add: blockedRangeFor_None_iff blockedRangeFor_text)

lemma isIP_nonempty: "isIP host \<noteq> 0 \<Longrightarrow> host \<noteq> []"
proof
  assume "isIP host \<noteq> 0" and "host = []"
  moreover have "isIP [] = 0" by code_simp
  ultimately show False by simp
qed

lemma guardedLookup_all:
  "guardedLookup (createGuard cfg) host True answer = Inr res \<longleftrightarrow>
     (\<exists>addrs. answer = Inr addrs \<and> res = AllAddresses addrs \<and> (\<forall>(ip, family)\<in>set addrs. permitted cfg ip))"
proof (cases answer)
  case (Inr addrs)
  show ?thesis
  proof (cases "first_blocked (blockedRangeFor (createGuard cfg)) addrs")
    case None
    with Inr guard_policy.first_blocked_None_iff [of cfg addrs] show ?thesis
      by (auto simp: guardedLookup_def)
  next
    case (Some x)
    with guard_policy.first_blocked_None_iff [of cfg addrs]
    have "\<not> (\<forall>(ip, family)\<in>set addrs. permitted cfg ip)" by simp
    with Inr Some show ?thesis by (auto simp: guardedLookup_def split: prod.split)
  qed
qed (simp add: guardedLookup_def)

lemma guardConnection_None_iff:
  assumes "isIP host \<noteq> 0"
  shows "guardConnection (createGuard cfg) host = None \<longleftrightarrow> permitted cfg host"
  using assms isIP_nonempty [OF assms] guard_policy.verdict_None_iff [of cfg host]
  by (simp add: guardConnection_def)

lemma agent_dials_iff:
  assumes "g_enabled (createGuard cfg)"
  shows "agent_dials (createGuard cfg) host answer = Inr ips \<longleftrightarrow>
    (if isIP host \<noteq> 0 then ips = [host] else \<exists>addrs. answer = Inr addrs \<and> ips = map fst addrs) \<and>
    (\<forall>ip\<in>set ips. permitted cfg ip)"
proof (cases "isIP host = 0")
  case True
  with assms show ?thesis
    by (fastforce simp: agent_dials_def rbind_eq_Inr guardedLookup_all)
next
  case False
  with assms guardConnection_None_iff [OF False, of cfg] show ?thesis
    by (auto simp: agent_dials_def split: option.splits)
qed

lemma default_v4_entries:
  "parseRange ''127.0.0.0/8'' = Inr (Cidr 4 [127, 0, 0, 0] 8 ''127.0.0.0/8'')"
  "parseRange ''0.0.0.0/8'' = Inr (Cidr 4 [0, 0, 0, 0] 8 ''0.0.0.0/8'')"
  "parseRange ''10.0.0.0/8'' = Inr (Cidr 4 [10, 0, 0, 0] 8 ''10.0.0.0/8'')"
  "parseRange ''172.16.0.0/12'' = Inr (Cidr 4 [172, 16, 0, 0] 12 ''172.16.0.0/12'')"
  "parseRange ''192.168.0.0/16'' = Inr (Cidr 4 [192, 168, 0, 0] 16 ''192.168.0.0/16'')"
  "parseRange ''169.254.0.0/16'' = Inr (Cidr 4 [169, 254, 0, 0] 16 ''169.254.0.0/16'')"
  "parseRange ''100.64.0.0/10'' = Inr (Cidr 4 [100, 64, 0, 0] 10 ''100.64.0.0/10'')"
  "parseRange ''192.0.0.0/24'' = Inr (Cidr 4 [192, 0, 0, 0] 24 ''192.0.0.0/24'')"
  "parseRange ''198.18.0.0/15'' = Inr (Cidr 4 [198, 18, 0, 0] 15 ''198.18.0.0/15'')"
  by code_simp+

lemma v6_group_values: "hex_number ''fe80'' = 65152" "hex_number ''fc00'' = 64512"
  by (simp_all add: hex_number_def hex_value_def)

lemma v6_group_bytes: "group_bytes ''fe80'' = [0xfe, 0x80]" "group_bytes ''fc00'' = [0xfc, 0]"
  by (simp_all add: group_bytes_def v6_group_values drop_bit_eq_div nat_and_mask byte_eq_iff)

lemma v6_halves: "split_dcolon ''fe80::'' = [''fe80'', []]" "split_dcolon ''fc00::'' = [''fc00'', []]"
  "groups_of ''fe80'' = [''fe80'']" "groups_of ''fc00'' = [''fc00'']" "groups_of [] = []" "group_ok ''fe80''" "group_ok ''fc00''"
  by code_simp+

lemma v6_groups: "parse_groups ''fe80::'' = Some ([0xfe, 0x80] @ replicate 14 0)" "parse_groups ''fc00::'' = Some ([0xfc, 0] @ replicate 14 0)"
  by (simp_all only: parse_groups_def v6_halves Let_def list.case) (simp_all add: v6_group_bytes v6_halves)

lemma v6_syntax: "before (CHR ''%'') ''fe80::'' = ''fe80::''" "after_last (CHR '':'') ''fe80::'' = []" "before (CHR ''%'') ''fc00::'' = ''fc00::''" "after_last (CHR '':'') ''fc00::'' = []"
  "\<not> isIPv4 ''fe80::''" "\<not> isIPv4 ''fc00::''" "isIPv6 ''fe80::''" "isIPv6 ''fc00::''"
  by code_simp+

lemma v6_parses: "parseIPv6 ''fe80::'' = Some ([0xfe, 0x80] @ replicate 14 0)" "parseIPv6 ''fc00::'' = Some ([0xfc, 0] @ replicate 14 0)"
  unfolding parseIPv6_def v6_syntax Let_def by (simp_all add: v6_groups)

lemma not_mapped: "x \<noteq> 0 \<Longrightarrow> \<not> is_mapped (x # xs)"
  by (simp add: is_mapped_def take_Cons')

lemma v6_addresses: "toAddress ''fe80::'' = Some \<lparr>a_bytes = [0xfe, 0x80] @ replicate 14 0, a_family = 6\<rparr>"
 "toAddress ''fc00::'' = Some \<lparr>a_bytes = [0xfc, 0] @ replicate 14 0, a_family = 6\<rparr>"
  unfolding toAddress_def isIP_def by (simp_all add: v6_syntax v6_parses not_mapped)

lemma v6_entries_split: "parseRange ''fe80::/10'' = parseCidr ''fe80::/10''" "parseRange ''fc00::/7'' = parseCidr ''fc00::/7''"
  "before (CHR ''/'') ''fe80::/10'' = ''fe80::''" "before (CHR ''/'') ''fc00::/7'' = ''fc00::''"
  "whole_Number (after (CHR ''/'') ''fe80::/10'') = Some 10" "whole_Number (after (CHR ''/'') ''fc00::/7'') = Some 7"
  by (simp_all add: parseRange_def trim_def is_space_def before_def after_def) code_simp+

lemma default_v6_entries:
  "parseRange ''::1/128'' = Inr (Cidr 6 (replicate 15 0 @ [1]) 128 ''::1/128'')"
  "parseRange ''fe80::/10'' = Inr (Cidr 6 ([0xfe, 0x80] @ replicate 14 0) 10 ''fe80::/10'')"
  "parseRange ''fc00::/7'' = Inr (Cidr 6 ([0xfc, 0] @ replicate 14 0) 7 ''fc00::/7'')"
  subgoal by code_simp
  unfolding v6_entries_split parseCidr_def by (simp_all add: v6_addresses address_bits_def)

lemma octet_blocks:
  fixes a b c d :: nat
  assumes lt: "a < 256" "b < 256" "c < 256" "d < 256" and v: "v = a * 16777216 + b * 65536 + c * 256 + d"
  shows "2130706432 \<le> v \<and> v \<le> 2147483647 \<longleftrightarrow> a = 127"
    and "v \<le> 16777215 \<longleftrightarrow> a = 0"
    and "167772160 \<le> v \<and> v \<le> 184549375 \<longleftrightarrow> a = 10"
    and "2886729728 \<le> v \<and> v \<le> 2887778303 \<longleftrightarrow> a = 172 \<and> 16 \<le> b \<and> b \<le> 31"
    and "3232235520 \<le> v \<and> v \<le> 3232301055 \<longleftrightarrow> a = 192 \<and> b = 168"
    and "2851995648 \<le> v \<and> v \<le> 2852061183 \<longleftrightarrow> a = 169 \<and> b = 254"
    and "1681915904 \<le> v \<and> v \<le> 1686110207 \<longleftrightarrow> a = 100 \<and> 64 \<le> b \<and> b \<le> 127"
    and "3221225472 \<le> v \<and> v \<le> 3221225727 \<longleftrightarrow> a = 192 \<and> b = 0 \<and> c = 0"
    and "3323068416 \<le> v \<and> v \<le> 3323199487 \<longleftrightarrow> a = 198 \<and> 18 \<le> b \<and> b \<le> 19"
proof -
  have a: "2886729728 \<le> v \<Longrightarrow> v \<le> 2887778303 \<Longrightarrow> a = 172"
    "3232235520 \<le> v \<Longrightarrow> v \<le> 3232301055 \<Longrightarrow> a = 192"
    "2851995648 \<le> v \<Longrightarrow> v \<le> 2852061183 \<Longrightarrow> a = 169"
    "1681915904 \<le> v \<Longrightarrow> v \<le> 1686110207 \<Longrightarrow> a = 100"
    "3221225472 \<le> v \<Longrightarrow> v \<le> 3221225727 \<Longrightarrow> a = 192"
    "3323068416 \<le> v \<Longrightarrow> v \<le> 3323199487 \<Longrightarrow> a = 198"
    using lt unfolding v by linarith+
  note fwd = lt v
  show "2130706432 \<le> v \<and> v \<le> 2147483647 \<longleftrightarrow> a = 127" "v \<le> 16777215 \<longleftrightarrow> a = 0"
    "167772160 \<le> v \<and> v \<le> 184549375 \<longleftrightarrow> a = 10"
    using fwd by auto
  show "2886729728 \<le> v \<and> v \<le> 2887778303 \<longleftrightarrow> a = 172 \<and> 16 \<le> b \<and> b \<le> 31"
    using fwd a(1) by (cases "a = 172") (simp_all, (linarith | blast)+)
  show "3232235520 \<le> v \<and> v \<le> 3232301055 \<longleftrightarrow> a = 192 \<and> b = 168"
    using fwd a(2) by (cases "a = 192") (simp_all, (linarith | blast)+)
  show "2851995648 \<le> v \<and> v \<le> 2852061183 \<longleftrightarrow> a = 169 \<and> b = 254"
    using fwd a(3) by (cases "a = 169") (simp_all, (linarith | blast)+)
  show "1681915904 \<le> v \<and> v \<le> 1686110207 \<longleftrightarrow> a = 100 \<and> 64 \<le> b \<and> b \<le> 127"
    using fwd a(4) by (cases "a = 100") (simp_all, (linarith | blast)+)
  show "3221225472 \<le> v \<and> v \<le> 3221225727 \<longleftrightarrow> a = 192 \<and> b = 0 \<and> c = 0"
    using fwd a(5) by (cases "a = 192") (simp_all, (linarith | blast)+)
  show "3323068416 \<le> v \<and> v \<le> 3323199487 \<longleftrightarrow> a = 198 \<and> 18 \<le> b \<and> b \<le> 19"
    using fwd a(6) by (cases "a = 198") (simp_all, (linarith | blast)+)
qed

text \<open>The default block-list, on IPv4 addresses.\<close>

definition special_purpose_v4 :: "nat \<Rightarrow> nat \<Rightarrow> nat \<Rightarrow> bool" where
  "special_purpose_v4 a b c \<longleftrightarrow>
     a = 0 \<or> a = 10 \<or> a = 127 \<or>
     a = 172 \<and> 16 \<le> b \<and> b \<le> 31 \<or> a = 192 \<and> b = 168 \<or> a = 169 \<and> b = 254 \<or>
     a = 100 \<and> 64 \<le> b \<and> b \<le> 127 \<or> a = 192 \<and> b = 0 \<and> c = 0 \<or> a = 198 \<and> 18 \<le> b \<and> b \<le> 19"

lemma default_ranges_v4:
  "inside_any DEFAULT_BLOCKED_RANGES \<lparr>a_bytes = [a, b, c, d], a_family = 4\<rparr> \<longleftrightarrow>
     special_purpose_v4 (unat a) (unat b) (unat c)"
proof -
  define v where "v = unat a * 16777216 + unat b * 65536 + unat c * 256 + unat d"
  have "address_value \<lparr>a_bytes = [a, b, c, d], a_family = 4\<rparr> = v"
    by (simp add: address_value_def be_nat_def v_def)
  then show ?thesis
    using octet_blocks [OF byte_less_256 byte_less_256 byte_less_256 byte_less_256 v_def]
    by (simp add: inside_any_def DEFAULT_BLOCKED_RANGES_def default_v4_entries default_v6_entries range_low_def range_high_def
        address_bits_def be_nat_def special_purpose_v4_def) blast
qed

subsection \<open>Properties\<close>

text \<open>C4: with the guard on, an agent opens sockets only to permitted addresses and only to the host itself
  or what its name resolved to, and it refuses nothing else: a literal is checked as it is, a name by
  every address of its answer.\<close>

theorem agent_dials_only_permitted:
  assumes "g_enabled (createGuard cfg)"
  shows "agent_dials (createGuard cfg) host answer = Inr ips \<longleftrightarrow>
    (if isIP host \<noteq> 0 then ips = [host] else \<exists>addrs. answer = Inr addrs \<and> ips = map fst addrs) \<and>
    (\<forall>ip\<in>set ips. permitted cfg ip)"
  using assms by (rule agent_dials_iff)

lemma agent_dials_only_permitted_witness:
  "agent_dials (createGuard \<lparr>allowedAddressRanges = Unset, blockPrivateNetworkCalls = Text ''false'',
      blockedAddressRanges = Unset\<rparr>) ''idp.example'' (Inr [(''192.0.2.1'', 4)]) = Inr [''192.0.2.1''] \<longleftrightarrow>
    (if isIP ''idp.example'' \<noteq> 0 then [''192.0.2.1''] = [''idp.example'']
     else \<exists>addrs. (Inr [(''192.0.2.1'', 4)] :: dns_answer) = Inr addrs \<and> [''192.0.2.1''] = map fst addrs) \<and>
    (\<forall>ip\<in>set [''192.0.2.1'']. permitted \<lparr>allowedAddressRanges = Unset,
      blockPrivateNetworkCalls = Text ''false'', blockedAddressRanges = Unset\<rparr> ip)"
  by (rule agent_dials_only_permitted) (simp add: createGuard_def Let_def)

text \<open>With no ranges configured, an IPv4 address is refused exactly when it lies in one of the special
  purpose blocks: loopback, this network, the private blocks, link-local, carrier-grade NAT, protocol
  assignments and benchmarking.\<close>

theorem default_policy_exact:
  assumes "setting_entries (allowedAddressRanges cfg) = []" and "setting_entries (blockedAddressRanges cfg) = []"
    and "toAddress s = Some \<lparr>a_bytes = [a, b, c, d], a_family = 4\<rparr>"
  shows "blockedRangeFor (createGuard cfg) s \<noteq> None \<longleftrightarrow> special_purpose_v4 (unat a) (unat b) (unat c)"
  using assms by (simp add: blockedRangeFor_None_iff permitted_def default_ranges_v4)

lemma default_policy_exact_witness:
  "blockedRangeFor (createGuard \<lparr>allowedAddressRanges = Entries [], blockPrivateNetworkCalls = Unset,
      blockedAddressRanges = Unset\<rparr>) ''::ffff:169.254.169.254'' \<noteq> None \<longleftrightarrow>
    special_purpose_v4 (unat (169 :: byte)) (unat (254 :: byte)) (unat (169 :: byte))"
proof (rule default_policy_exact)
  have "isIPv4 ''169.254.169.254''" by code_simp
  moreover have "toAddress ''169.254.169.254'' = Some \<lparr>a_bytes = [169, 254, 169, 254], a_family = 4\<rparr>"
    by code_simp
  ultimately show "toAddress ''::ffff:169.254.169.254'' = Some \<lparr>a_bytes = [169, 254, 169, 254], a_family = 4\<rparr>"
    using toAddress_mapped [of "''169.254.169.254''"] by simp
qed (simp_all add: setting_entries_def)

text \<open>C5: an allow-list switches the guard on whatever the other keys say, is consulted instead of the
  block-list, and fails closed: a literal is refused unless it lies in the interval of an entry that parses,
  so that a list with no usable entry refuses every literal.\<close>

theorem allow_list_replaces_and_fails_closed:
  assumes "setting_entries (allowedAddressRanges cfg) = e # es" and "isIP s \<noteq> 0"
  shows "g_enabled (createGuard cfg) \<and>
    (\<exists>a. toAddress s = Some a \<and>
      (blockedRangeFor (createGuard cfg) s = None \<longleftrightarrow> inside_any (e # es) a) \<and>
      (usable_ranges (e # es) = [] \<longrightarrow> blockedRangeFor (createGuard cfg) s \<noteq> None))"
proof -
  obtain a where a: "toAddress s = Some a" using isIP_toAddress [OF assms(2)] by blast
  have on: "g_enabled (createGuard cfg)" using assms(1) by (simp add: createGuard_def Let_def)
  have iff: "blockedRangeFor (createGuard cfg) s = None \<longleftrightarrow> inside_any (e # es) a"
    using a assms(1) by (simp add: blockedRangeFor_None_iff permitted_def)
  have none: "\<not> inside_any (e # es) a" if "usable_ranges (e # es) = []"
    unfolding inside_any_usable [OF toAddress_wf [OF a]] that by simp
  show ?thesis
  proof (intro conjI exI impI)
    assume "usable_ranges (e # es) = []"
    then show "blockedRangeFor (createGuard cfg) s \<noteq> None" unfolding iff by (rule none)
  qed (rule on a iff)+
qed

lemma allow_list_replaces_and_fails_closed_witness:
  "g_enabled (createGuard \<lparr>allowedAddressRanges = Entries [''127.0.0.1''], blockPrivateNetworkCalls = Flag False,
      blockedAddressRanges = Unset\<rparr>) \<and>
    (\<exists>a. toAddress ''127.0.0.1'' = Some a \<and>
      (blockedRangeFor (createGuard \<lparr>allowedAddressRanges = Entries [''127.0.0.1''],
          blockPrivateNetworkCalls = Flag False, blockedAddressRanges = Unset\<rparr>) ''127.0.0.1'' = None
        \<longleftrightarrow> inside_any [''127.0.0.1''] a) \<and>
      (usable_ranges [''127.0.0.1''] = [] \<longrightarrow>
        blockedRangeFor (createGuard \<lparr>allowedAddressRanges = Entries [''127.0.0.1''],
          blockPrivateNetworkCalls = Flag False, blockedAddressRanges = Unset\<rparr>) ''127.0.0.1'' \<noteq> None))"
proof (rule allow_list_replaces_and_fails_closed)
  show "isIP ''127.0.0.1'' \<noteq> 0" by code_simp
qed (simp add: setting_entries_def)

text \<open>An allow-list entry whose prefix length was left out after the slash is read as a prefix of length
  zero, so the single entry \<open>127.0.0.1/\<close> permits every IPv4 address.\<close>

theorem missing_prefix_opens_allow_list:
  assumes "allowedAddressRanges cfg = Entries [''127.0.0.1/'']" and "toAddress s = Some a" and "a_family a = 4"
  shows "blockedRangeFor (createGuard cfg) s = None"
proof -
  have r: "parseRange ''127.0.0.1/'' = Inr (Cidr 4 [127, 0, 0, 1] 0 ''127.0.0.1/'')" by code_simp
  have "withinRange a (Cidr 4 [127, 0, 0, 1] 0 ''127.0.0.1/'')"
    using assms(3) by (simp add: withinRange_def)
  then show ?thesis using assms(1,2)
    by (simp add: blockedRangeFor_def createGuard_def setting_entries_def Let_def r)
qed

lemma missing_prefix_opens_allow_list_witness:
  "blockedRangeFor (createGuard \<lparr>allowedAddressRanges = Entries [''127.0.0.1/''],
      blockPrivateNetworkCalls = Unset, blockedAddressRanges = Unset\<rparr>) ''169.254.169.254'' = None"
proof (rule missing_prefix_opens_allow_list)
  show "toAddress ''169.254.169.254'' = Some \<lparr>a_bytes = [169, 254, 169, 254], a_family = 4\<rparr>" by code_simp
qed simp_all

end
