(* ===== verification/Reader_Interfaces.thy ===== *)
theory Reader_Interfaces
  imports Prelude
begin

text \<open>
  The contracts between the byte readers and the code that calls them.

  \<^item> \<open>element_reader\<close>: a routine that reads one element at an offset, and the loop that reads
    elements until the buffer ends.  What the routine promises is that an element covers exactly
    the bytes from its start to its end; what the loop then guarantees is that the elements tile
    the buffer.
  \<^item> \<open>element_codec\<close>: a reader together with the writer of its elements.  The law is that one
    written element reads back in any context; sequences of elements then read back as well.
  \<^item> \<open>cursor_reader\<close>: a reader over a moving offset, closed under sequencing and counted repetition; a
    client may cut off or replace what follows the bytes it read.
\<close>

text \<open>The elements cover the interval from \<open>lo\<close> to \<open>hi\<close>, one after the other.\<close>

fun tiles :: "('x \<Rightarrow> nat) \<Rightarrow> ('x \<Rightarrow> nat) \<Rightarrow> nat \<Rightarrow> nat \<Rightarrow> 'x list \<Rightarrow> bool" where
  "tiles start_of end_of lo hi [] \<longleftrightarrow> lo = hi"
| "tiles start_of end_of lo hi (x # xs) \<longleftrightarrow>
     start_of x = lo \<and> lo < end_of x \<and> end_of x \<le> hi \<and> tiles start_of end_of (end_of x) hi xs"

fun place_all :: "(nat \<Rightarrow> 'y \<Rightarrow> 'x) \<Rightarrow> ('y \<Rightarrow> bytes) \<Rightarrow> nat \<Rightarrow> 'y list \<Rightarrow> 'x list" where
  "place_all placed encode p [] = []"
| "place_all placed encode p (y # ys) = placed p y # place_all placed encode (p + length (encode y)) ys"

lemma tiles_last_end: "tiles s e lo hi xs \<Longrightarrow> xs \<noteq> [] \<Longrightarrow> e (last xs) = hi"
  by (induction xs arbitrary: lo) (auto split: if_splits)

lemma tiles_nonempty: "tiles s e lo hi xs \<Longrightarrow> lo < hi \<Longrightarrow> xs \<noteq> []"
  by (cases xs) auto

lemma length_place_all [simp]: "length (place_all pl en p ys) = length ys"
  by (induction ys arbitrary: p) simp_all

lemma map_place_all: "(\<And>p y. f (pl p y) = g y) \<Longrightarrow> map f (place_all pl en p ys) = map g ys"
  by (induction ys arbitrary: p) simp_all

locale element_reader =
  fixes read_at :: "bytes \<Rightarrow> nat \<Rightarrow> 'e + 'x"
    and read_all :: "bytes \<Rightarrow> nat \<Rightarrow> 'e + 'x list"
    and start_of :: "'x \<Rightarrow> nat"
    and end_of :: "'x \<Rightarrow> nat"
    and raw_of :: "'x \<Rightarrow> bytes"
  assumes read_all_unfold:
      "read_all b at =
         (if at < length b
          then rbind (read_at b at) (\<lambda>x. rbind (read_all b (end_of x)) (\<lambda>xs. Inr (x # xs)))
          else Inr [])"
    and read_at_span:
      "read_at b at = Inr x \<Longrightarrow>
         start_of x = at \<and> at < end_of x \<and> end_of x \<le> length b
           \<and> raw_of x = take (end_of x - at) (drop at b)"
begin

lemma read_all_ConsD:
  assumes "read_all b at = Inr (x # xs)"
  shows "read_at b at = Inr x" and "read_all b (end_of x) = Inr xs"
  using assms read_all_unfold [of b at] by (auto simp: rbind_eq_Inr split: if_splits)

lemma read_all_NilD: "read_all b at = Inr [] \<Longrightarrow> length b \<le> at"
  using read_all_unfold [of b at] by (auto simp: rbind_eq_Inr split: if_splits)

lemma read_all_tiles:
  assumes "read_all b at = Inr xs" and "at \<le> length b"
  shows "tiles start_of end_of at (length b) xs"
  using assms
proof (induction xs arbitrary: at)
  case Nil
  then show ?case using read_all_NilD by fastforce
next
  case (Cons x xs)
  note x = read_all_ConsD [OF Cons.prems(1)]
  from read_at_span [OF x(1)] Cons.IH [OF x(2)] show ?case by simp
qed

lemma read_all_raw:
  assumes "read_all b at = Inr xs" and "at \<le> length b"
  shows "concat (map raw_of xs) = drop at b"
  using assms
proof (induction xs arbitrary: at)
  case Nil
  then show ?case using read_all_NilD by fastforce
next
  case (Cons x xs)
  note x = read_all_ConsD [OF Cons.prems(1)]
  from read_at_span [OF x(1)] have "drop at b = take (end_of x - at) (drop at b) @ drop (end_of x) b"
    by (metis append_take_drop_id drop_drop le_add_diff_inverse2 less_imp_le)
  with read_at_span [OF x(1)] Cons.IH [OF x(2)] show ?case by simp
qed

end

locale element_codec = element_reader +
  fixes encode :: "'y \<Rightarrow> bytes"
    and valid :: "'y \<Rightarrow> bool"
    and placed :: "nat \<Rightarrow> 'y \<Rightarrow> 'x"
  assumes read_encoded:
      "valid y \<Longrightarrow> read_at (pre @ encode y @ suf) (length pre) = Inr (placed (length pre) y)"
    and end_placed: "valid y \<Longrightarrow> end_of (placed p y) = p + length (encode y)"
begin

lemma encode_nonempty: "valid y \<Longrightarrow> encode y \<noteq> []"
  using read_encoded [of y "[]" "[]"] read_at_span [of "encode y" 0 "placed 0 y"] by auto

lemma read_all_encoded:
  "\<forall>y\<in>set ys. valid y \<Longrightarrow>
     read_all (pre @ concat (map encode ys)) (length pre) = Inr (place_all placed encode (length pre) ys)"
proof (induction ys arbitrary: pre)
  case Nil
  then show ?case by (subst read_all_unfold) simp
next
  case (Cons y ys)
  then have y: "valid y" and ys: "\<forall>y\<in>set ys. valid y" by simp_all
  from Cons.IH [OF ys, of "pre @ encode y"] read_encoded [OF y, of pre "concat (map encode ys)"]
    encode_nonempty [OF y] end_placed [OF y]
  show ?case by (subst read_all_unfold) simp
qed

lemma encode_concat_inject:
  assumes "\<forall>y\<in>set ys. valid y" and "\<forall>z\<in>set zs. valid z"
    and "concat (map encode ys) = concat (map encode zs)"
  shows "place_all placed encode 0 ys = place_all placed encode 0 zs"
  using read_all_encoded [OF assms(1), of "[]"] read_all_encoded [OF assms(2), of "[]"] assms(3)
  by simp

end

subsection \<open>Cursors\<close>

text \<open>
  A cursor reads a value at an offset and returns it with the offset behind it, or throws: the readers
  that keep an \<open>at\<close> variable over one buffer.  \<open>cbind\<close> is the next statement of such a reader.
  \<open>reads\<close> is the codec law of one cursor: it recovers a value from its encoding in any context;
  \<open>reads_at p\<close> says so for the contexts that put the encoding at offset \<open>p\<close>.
\<close>

type_synonym ('e, 'v) cursor = "bytes \<Rightarrow> nat \<Rightarrow> 'e + 'v \<times> nat"

definition cret :: "'v \<Rightarrow> ('e, 'v) cursor" where
  "cret v b at = Inr (v, at)"

definition cfail :: "'e \<Rightarrow> ('e, 'v) cursor" where
  "cfail e b at = Inl e"

definition cbind :: "('e, 'v) cursor \<Rightarrow> ('v \<Rightarrow> ('e, 'w) cursor) \<Rightarrow> ('e, 'w) cursor" where
  "cbind r k b at = (case r b at of Inl e \<Rightarrow> Inl e | Inr (v, at') \<Rightarrow> k v b at')"

fun read_times :: "nat \<Rightarrow> ('e, 'v) cursor \<Rightarrow> ('e, 'v list) cursor" where
  "read_times 0 r = cret []"
| "read_times (Suc n) r = cbind r (\<lambda>v. cbind (read_times n r) (\<lambda>vs. cret (v # vs)))"

definition reads_at :: "nat \<Rightarrow> ('e, 'v) cursor \<Rightarrow> 'v \<Rightarrow> bytes \<Rightarrow> bool" where
  "reads_at p r v enc \<longleftrightarrow>
     (\<forall>pre suf. length pre = p \<longrightarrow> r (pre @ enc @ suf) p = Inr (v, p + length enc))"

definition reads :: "('e, 'v) cursor \<Rightarrow> 'v \<Rightarrow> bytes \<Rightarrow> bool" where
  "reads r v enc \<longleftrightarrow> (\<forall>p. reads_at p r v enc)"

text \<open>A cursor that stays inside the buffer and never moves back, and whose answer depends on nothing
  behind the offset it returns.\<close>

locale cursor_reader =
  fixes read :: "('e, 'v) cursor"
  assumes advances: "at \<le> length b \<Longrightarrow> read b at = Inr (v, at') \<Longrightarrow> at \<le> at' \<and> at' \<le> length b"
    and local: "at \<le> length b \<Longrightarrow> read b at = Inr (v, at') \<Longrightarrow> read (take at' b @ s) at = Inr (v, at')"
begin

lemma read_extended:
  assumes "at \<le> length b" and "read b at = Inr (v, at')"
  shows "read (b @ s) at = Inr (v, at')"
  using local [OF assms, of "drop at' b @ s"] by (simp flip: append_assoc)

lemma read_prefix:
  assumes "at \<le> length b" and "read b at = Inr (v, at')"
  shows "read (take at' b) at = Inr (v, at')"
  using local [OF assms, of "[]"] by simp

end

text \<open>A cursor that charges for what it returns: the price of a value, plus the constant overhead of a
  counted repetition, is covered by the bytes it moved over.\<close>

locale priced_reader = cursor_reader read
  for read :: "('e, 'v) cursor" +
  fixes price :: "'v \<Rightarrow> nat"
    and good :: "'v \<Rightarrow> bool"
  assumes priced: "at \<le> length b \<Longrightarrow> read b at = Inr (v, at') \<Longrightarrow> at + price v \<le> at' \<and> good v"
begin

lemma read_times_priced:
  assumes "at \<le> length b" and "read_times n read b at = Inr (vs, at')"
  shows "at + sum_list (map price vs) \<le> at' \<and> list_all good vs \<and> length vs = n \<and> at' \<le> length b"
  using assms
proof (induction n arbitrary: at vs)
  case (Suc n)
  from Suc.prems(2) obtain v m ws where v: "read b at = Inr (v, m)"
    and ws: "read_times n read b m = Inr (ws, at')" and vs: "vs = v # ws"
    by (auto simp: cbind_def cret_def split: sum.splits)
  note bounds = priced [OF Suc.prems(1) v] advances [OF Suc.prems(1) v]
  with Suc.IH [OF _ ws] have "m + sum_list (map price ws) \<le> at' \<and> list_all good ws \<and> length ws = n \<and> at' \<le> length b"
    by simp
  with bounds vs show ?case by simp
qed (simp add: cret_def)

end

lemma cbind_eq_Inr:
  "cbind r k b at = Inr (w, at'') \<longleftrightarrow> (\<exists>v at'. r b at = Inr (v, at') \<and> k v b at' = Inr (w, at''))"
  by (auto simp: cbind_def split: sum.splits)

lemma cret_eq_Inr [simp]: "cret v b at = Inr (w, at') \<longleftrightarrow> w = v \<and> at' = at"
  by (auto simp: cret_def)

lemma cfail_eq_Inr [simp]: "cfail e b at \<noteq> Inr (w, at')"
  by (simp add: cfail_def)

lemma cursor_reader_cret: "cursor_reader (cret v)"
  by unfold_locales simp_all

lemma cursor_reader_cfail: "cursor_reader (cfail e)"
  by unfold_locales simp_all

lemma cursor_reader_cbind:
  assumes "cursor_reader r" and "\<And>v. cursor_reader (k v)"
  shows "cursor_reader (cbind r k)"
proof
  fix at b w at''
  assume at: "at \<le> length b" and "cbind r k b at = Inr (w, at'')"
  then obtain v at' where v: "r b at = Inr (v, at')" and w: "k v b at' = Inr (w, at'')"
    by (auto simp: cbind_eq_Inr)
  note r = cursor_reader.advances [OF assms(1) at v]
  note k = cursor_reader.advances [OF assms(2) conjunct2 [OF r] w]
  show "at \<le> at'' \<and> at'' \<le> length b" using r k by simp
  fix s
  have "r (take at' b @ drop at' (take at'' b @ s)) at = Inr (v, at')"
    by (rule cursor_reader.local [OF assms(1) at v])
  moreover have "take at' b @ drop at' (take at'' b @ s) = take at'' b @ s"
  proof -
    have "take at' b = take at' (take at'' b @ s)" using r k by (simp add: min.absorb1)
    then show ?thesis by (simp only: append_take_drop_id)
  qed
  moreover have "k v (take at'' b @ s) at' = Inr (w, at'')"
    by (rule cursor_reader.local [OF assms(2) conjunct2 [OF r] w])
  ultimately show "cbind r k (take at'' b @ s) at = Inr (w, at'')"
    by (simp add: cbind_def)
qed

lemma cursor_reader_read_times: "cursor_reader r \<Longrightarrow> cursor_reader (read_times n r)"
  by (induction n) (auto intro!: cursor_reader_cret cursor_reader_cbind)

lemma cursor_reader_throw: "cursor_reader (\<lambda>b at. Inl (e b at))"
  by unfold_locales simp_all

lemma cursor_reader_if: "cursor_reader r \<Longrightarrow> cursor_reader s \<Longrightarrow> cursor_reader (if c then r else s)"
  by simp

lemma cursor_reader_option:
  "cursor_reader r \<Longrightarrow> (\<And>x. cursor_reader (s x)) \<Longrightarrow> cursor_reader (case m of None \<Rightarrow> r | Some x \<Rightarrow> s x)"
  by (cases m) simp_all

lemmas cursor_reader_intros =
  cursor_reader_cret cursor_reader_cfail cursor_reader_throw cursor_reader_cbind cursor_reader_read_times
  cursor_reader_if cursor_reader_option

lemma reads_at_cret [intro]: "reads_at p (cret v) v []"
  by (simp add: reads_at_def)

lemma reads_at_cbind [intro]:
  assumes "reads_at p r v e" and "reads_at (p + length e) (k v) w e'"
  shows "reads_at p (cbind r k) w (e @ e')"
  unfolding reads_at_def
proof (intro allI impI)
  fix pre suf :: bytes
  assume p: "length pre = p"
  with assms(1) have "r (pre @ e @ e' @ suf) p = Inr (v, p + length e)"
    unfolding reads_at_def by blast
  moreover have "k v ((pre @ e) @ e' @ suf) (p + length e) = Inr (w, p + length e + length e')"
    using assms(2) p unfolding reads_at_def by (metis length_append)
  ultimately show "cbind r k (pre @ (e @ e') @ suf) p = Inr (w, p + length (e @ e'))"
    by (simp add: cbind_def)
qed

lemma reads_at_last: "reads_at p r v e \<Longrightarrow> reads_at p (cbind r (\<lambda>v. cret (f v))) (f v) e"
  using reads_at_cbind [of p r v e "\<lambda>v. cret (f v)" "f v" "[]"] by auto

lemma reads_at_times:
  "(\<And>v p. v \<in> set vs \<Longrightarrow> reads_at p r v (enc v)) \<Longrightarrow>
     reads_at p (read_times (length vs) r) vs (concat (map enc vs))"
proof (induction vs arbitrary: p)
  case (Cons v vs)
  then have "reads_at (p + length (enc v)) (read_times (length vs) r) vs (concat (map enc vs))" by simp
  from reads_at_cbind [where k = "\<lambda>v. cbind (read_times (length vs) r) (\<lambda>vs. cret (v # vs))",
      OF Cons.prems [of v] reads_at_last [OF this, of "\<lambda>vs. v # vs"]]
  show ?case by simp
qed auto

lemma reads_atD:
  "reads_at (length pre) r v e \<Longrightarrow> r (pre @ e @ suf) (length pre) = Inr (v, length pre + length e)"
  by (simp add: reads_at_def)

lemma readsD: "reads r v e \<Longrightarrow> r (pre @ e @ suf) (length pre) = Inr (v, length pre + length e)"
  by (simp add: reads_def reads_atD)

lemma reads_reads_at: "reads r v e \<Longrightarrow> reads_at p r v e"
  by (simp add: reads_def)

end
