(* ===== verification/Krb5_Asn1.thy ===== *)
theory Krb5_Asn1
  imports Krb5_Primitives Reader_Interfaces
begin

text \<open>
  \<open>common/krb5/krb5_asn1.js\<close>: the DER writer and the bounded DER reader under every Kerberos
  message.  A thrown \<open>Error\<close> is a constructor of \<open>asn1_error\<close> carrying the numbers its text names.
  A tag-length-value element is the record \<open>tlv_t\<close> with the fields of the object \<open>readTlv\<close> returns;
  the structural tree of the decoder page is \<open>asn1_node\<close>.  Lengths and offsets are naturals,
  INTEGER values are integers (exact in a JavaScript number up to \<open>2 ^ 53\<close>; the reader stops at
  six bytes).  KerberosTime is in \<open>Krb5_Time\<close>; the last constructors of \<open>asn1_error\<close> are the errors of that theory and
  of the messages.
\<close>

datatype asn1_error =
    ContextTagRange int
  | ApplicationTagRange int
  | LengthTooLong nat
  | NotWholeNumber
  | FlagBitRange int
  | NestedTooDeep
  | TruncatedHeader nat
  | IndefiniteLength nat
  | LengthFieldTooLong nat nat
  | TruncatedLength nat
  | ClaimsTooMany nat nat nat
  | NotContextTag byte
  | ContextWraps nat nat
  | UnexpectedTag byte byte
  | EmptyInteger
  | IntegerTooLong nat
  | EmptyBitString
  | InputTooLong nat
  | NotKerberosMessage byte
  | WrongApplication nat nat
  | ApplicationWraps nat nat
  | NotADate
  | NotKerberosTime jstring
  | NoElement
  | ExpectedApplication "nat list" nat
  | ProtocolVersion int
  | NoSessionKey
  | NotCredMessage int
  | NoTickets
  | NotAMessage
  | NeitherReplyNorError nat
  | EmptyPrincipalName

definition MAX_INPUT_BYTES :: nat where "MAX_INPUT_BYTES = 2 * 1024 * 1024"

definition MAX_DEPTH :: nat where "MAX_DEPTH = 32"

definition TAG_INTEGER :: byte where "TAG_INTEGER = 0x02"
definition TAG_BIT_STRING :: byte where "TAG_BIT_STRING = 0x03"
definition TAG_OCTET_STRING :: byte where "TAG_OCTET_STRING = 0x04"
definition TAG_SEQUENCE :: byte where "TAG_SEQUENCE = 0x30"
definition TAG_GENERAL_STRING :: byte where "TAG_GENERAL_STRING = 0x1b"
definition TAG_IA5_STRING :: byte where "TAG_IA5_STRING = 0x16"
definition TAG_GENERALIZED_TIME :: byte where "TAG_GENERALIZED_TIME = 0x18"

lemmas TAG_defs = TAG_INTEGER_def TAG_BIT_STRING_def TAG_OCTET_STRING_def TAG_SEQUENCE_def
  TAG_GENERAL_STRING_def TAG_IA5_STRING_def TAG_GENERALIZED_TIME_def

definition contextTag :: "int \<Rightarrow> asn1_error + byte" where
  "contextTag n = (if n < 0 \<or> 30 < n then Inl (ContextTagRange n) else Inr (0xa0 OR byte_of (nat n)))"

definition applicationTag :: "int \<Rightarrow> asn1_error + byte" where
  "applicationTag n =
     (if n < 0 \<or> 30 < n then Inl (ApplicationTagRange n) else Inr (0x60 OR byte_of (nat n)))"

subsection \<open>Writing\<close>

definition encodeLength :: "nat \<Rightarrow> asn1_error + bytes" where
  "encodeLength n =
     (if n < 0x80 then Inr [byte_of n]
      else let bs = be_loop n []
           in if 4 < length bs then Inl (LengthTooLong n)
              else Inr ((0x80 OR byte_of (length bs)) # bs))"

definition tlv :: "byte \<Rightarrow> bytes \<Rightarrow> asn1_error + bytes" where
  "tlv tg v = rbind (encodeLength (length v)) (\<lambda>len. Inr ([tg] @ len @ v))"

text \<open>A JavaScript value offered as an INTEGER: a whole number, or anything that the first test of
  \<open>integerContent\<close> rejects (a fraction, \<open>NaN\<close>, an infinity, a value that is no number).\<close>

datatype js_number = Whole int | NotWhole

function neg_width :: "int \<Rightarrow> nat \<Rightarrow> nat" where
  "neg_width v n = (if v < - (2 ^ (8 * n - 1)) then neg_width v (Suc n) else n)"
  by pat_completeness auto
termination
proof (relation "measure (\<lambda>(v, n). nat (- v) - n)", simp)
  fix v :: int and n :: nat
  assume "v < - (2 ^ (8 * n - 1))"
  moreover have "int n \<le> 2 ^ (8 * n - 1)"
  proof (cases n)
    case (Suc m)
    have "n < 2 ^ n" by simp
    also have "(2 :: nat) ^ n \<le> 2 ^ (8 * n - 1)" using Suc by (intro power_increasing) simp_all
    finally have "n < 2 ^ (8 * n - 1)" .
    then have "int n < int (2 ^ (8 * n - 1))" by (simp only: of_nat_less_iff)
    then show ?thesis by simp
  qed simp
  ultimately have "int n < - v" by linarith
  then show "((v, Suc n), (v, n)) \<in> measure (\<lambda>(v, n). nat (- v) - n)" by auto
qed

declare neg_width.simps [simp del]

definition integerContent :: "js_number \<Rightarrow> asn1_error + bytes" where
  "integerContent value =
     (case value of
        NotWhole \<Rightarrow> Inl NotWholeNumber
      | Whole v \<Rightarrow>
          if v = 0 then Inr [0]
          else if 0 < v then
            (let bs = be_loop (nat v) []
             in Inr (if hd bs AND 0x80 \<noteq> 0 then 0 # bs else bs))
          else
            (let n = neg_width v 1 in Inr (be_fixed n (nat (v + 2 ^ (8 * n))))))"

definition encInteger :: "js_number \<Rightarrow> asn1_error + bytes" where
  "encInteger value = rbind (integerContent value) (tlv TAG_INTEGER)"

definition encOctetString :: "bytes \<Rightarrow> asn1_error + bytes" where
  "encOctetString bs = tlv TAG_OCTET_STRING bs"

definition encGeneralString :: "jstring \<Rightarrow> asn1_error + bytes" where
  "encGeneralString text = tlv TAG_GENERAL_STRING (utf8 text)"

definition set_flag :: "nat \<Rightarrow> bytes \<Rightarrow> bytes" where
  "set_flag k bs =
     bs[drop_bit 3 k := (bs ! drop_bit 3 k) OR byte_of (drop_bit (k AND 7) 0x80)]"

fun encFlags_loop :: "int list \<Rightarrow> bytes \<Rightarrow> asn1_error + bytes" where
  "encFlags_loop [] bs = Inr bs"
| "encFlags_loop (b # rest) bs =
     (if b < 0 \<or> 31 < b then Inl (FlagBitRange b) else encFlags_loop rest (set_flag (nat b) bs))"

definition encFlags :: "int list \<Rightarrow> asn1_error + bytes" where
  "encFlags bitNumbers =
     rbind (encFlags_loop bitNumbers (replicate 4 0)) (\<lambda>bs. tlv TAG_BIT_STRING (0 # bs))"

text \<open>Without the range test; a write outside the four bytes of a typed array is ignored.\<close>

definition flagsFromBits :: "int list \<Rightarrow> bytes" where
  "flagsFromBits bitNumbers =
     fold (\<lambda>b bs. if b < 0 \<or> 31 < b then bs else set_flag (nat b) bs) bitNumbers (replicate 4 0)"

definition bitsFromFlags :: "bytes \<Rightarrow> nat list" where
  "bitsFromFlags bs =
     filter (\<lambda>i. bs ! drop_bit 3 i AND byte_of (drop_bit (i AND 7) 0x80) \<noteq> 0) [0..<8 * length bs]"

definition encSequence :: "bytes list \<Rightarrow> asn1_error + bytes" where
  "encSequence items = tlv TAG_SEQUENCE (concat items)"

definition encApplication :: "int \<Rightarrow> bytes \<Rightarrow> asn1_error + bytes" where
  "encApplication n inner = rbind (applicationTag n) (\<lambda>tg. tlv tg inner)"

definition encContext :: "int \<Rightarrow> bytes \<Rightarrow> asn1_error + bytes" where
  "encContext n inner = rbind (contextTag n) (\<lambda>tg. tlv tg inner)"

text \<open>A field is absent (\<open>null\<close> or \<open>undefined\<close>), or has a tag and a value that may be absent.\<close>

fun encTaggedSequence_parts :: "(int \<times> bytes option) option list \<Rightarrow> asn1_error + bytes list" where
  "encTaggedSequence_parts [] = Inr []"
| "encTaggedSequence_parts (None # fs) = encTaggedSequence_parts fs"
| "encTaggedSequence_parts (Some (tg, None) # fs) = encTaggedSequence_parts fs"
| "encTaggedSequence_parts (Some (tg, Some v) # fs) =
     rbind (encContext tg v) (\<lambda>p. rbind (encTaggedSequence_parts fs) (\<lambda>ps. Inr (p # ps)))"

definition encTaggedSequence :: "(int \<times> bytes option) option list \<Rightarrow> asn1_error + bytes" where
  "encTaggedSequence fields = rbind (encTaggedSequence_parts fields) encSequence"

subsection \<open>Reading\<close>

record tlv_t =
  t_tag :: byte
  t_length :: nat
  t_headerLength :: nat
  t_start :: nat
  t_valueStart :: nat
  t_end :: nat
  t_value :: bytes
  t_raw :: bytes

text \<open>The second half of \<open>readTlv\<close>, once the header is known.\<close>

definition finishTlv :: "bytes \<Rightarrow> nat \<Rightarrow> byte \<Rightarrow> nat \<Rightarrow> nat \<Rightarrow> asn1_error + tlv_t" where
  "finishTlv b at tg headerLen len =
     (let valueStart = at + headerLen; valueEnd = valueStart + len
      in if length b < valueEnd then Inl (ClaimsTooMany at len (length b - valueStart))
         else Inr \<lparr>t_tag = tg, t_length = len, t_headerLength = headerLen, t_start = at,
                   t_valueStart = valueStart, t_end = valueEnd,
                   t_value = take len (drop valueStart b),
                   t_raw = take (headerLen + len) (drop at b)\<rparr>)"

definition readTlv :: "bytes \<Rightarrow> nat \<Rightarrow> nat \<Rightarrow> asn1_error + tlv_t" where
  "readTlv b at depth =
     (if MAX_DEPTH < depth then Inl NestedTooDeep
      else if length b < at + 2 then Inl (TruncatedHeader at)
      else
        (let tg = b ! at; lenByte = b ! (at + 1)
         in if lenByte < 0x80 then finishTlv b at tg 2 (unat lenByte)
            else if lenByte = 0x80 then Inl (IndefiniteLength at)
            else
              (let n = unat (lenByte AND 0x7f)
               in if 4 < n then Inl (LengthFieldTooLong n at)
                  else if length b < at + 2 + n then Inl (TruncatedLength at)
                  else finishTlv b at tg (2 + n) (be_nat (take n (drop (at + 2) b))))))"

lemma readTlv_bounds:
  assumes "readTlv b at depth = Inr t"
  shows "depth \<le> MAX_DEPTH" and "t_start t = at" and "at + 2 \<le> t_valueStart t"
    and "t_valueStart t \<le> at + 6" and "t_valueStart t = at + t_headerLength t"
    and "t_end t = t_valueStart t + t_length t" and "t_end t \<le> length b"
    and "t_value t = take (t_length t) (drop (t_valueStart t) b)"
    and "t_raw t = take (t_end t - at) (drop at b)" and "t_tag t = b ! at"
    and "length (t_value t) = t_length t" and "length (t_value t) + 2 \<le> length b"
  using assms by (auto simp: readTlv_def finishTlv_def Let_def not_less split: if_splits)

function readChildren_from :: "bytes \<Rightarrow> nat \<Rightarrow> nat \<Rightarrow> asn1_error + tlv_t list" where
  "readChildren_from b at depth =
     (if at < length b
      then rbind (readTlv b at (depth + 1)) (\<lambda>t.
             rbind (readChildren_from b (t_end t) depth) (\<lambda>ts. Inr (t # ts)))
      else Inr [])"
  by pat_completeness auto
termination
proof (relation "measure (\<lambda>(b, at, depth). length b - at)", simp)
  fix b at depth t
  assume "at < length b" "readTlv b at (depth + 1) = Inr t"
  with readTlv_bounds(3,6) [of b at "depth + 1" t]
  show "((b, t_end t, depth), b, at, depth) \<in> measure (\<lambda>(b, at, depth). length b - at)" by simp
qed

declare readChildren_from.simps [simp del]

definition readChildren :: "bytes \<Rightarrow> nat \<Rightarrow> asn1_error + tlv_t list" where
  "readChildren value depth = readChildren_from value 0 depth"

fun readTagged_loop :: "tlv_t list \<Rightarrow> nat \<Rightarrow> (nat \<rightharpoonup> tlv_t) \<Rightarrow> asn1_error + (nat \<rightharpoonup> tlv_t)" where
  "readTagged_loop [] depth m = Inr m"
| "readTagged_loop (child # rest) depth m =
     (if t_tag child AND 0xc0 \<noteq> 0x80 then Inl (NotContextTag (t_tag child))
      else
        (let n = unat (t_tag child AND 0x1f)
         in rbind (readChildren (t_value child) (depth + 1)) (\<lambda>inner.
              case inner of
                [x] \<Rightarrow> readTagged_loop rest depth (m(n \<mapsto> x))
              | _ \<Rightarrow> Inl (ContextWraps n (length inner)))))"

definition readTaggedSequence :: "bytes \<Rightarrow> nat \<Rightarrow> asn1_error + (nat \<rightharpoonup> tlv_t)" where
  "readTaggedSequence value depth =
     rbind (readChildren value depth) (\<lambda>cs. readTagged_loop cs depth Map.empty)"

definition expectTag :: "tlv_t \<Rightarrow> byte \<Rightarrow> asn1_error + tlv_t" where
  "expectTag t tg = (if t_tag t \<noteq> tg then Inl (UnexpectedTag tg (t_tag t)) else Inr t)"

definition decInteger :: "tlv_t \<Rightarrow> asn1_error + int" where
  "decInteger t =
     rbind (expectTag t TAG_INTEGER) (\<lambda>_.
       let b = t_value t
       in if length b = 0 then Inl EmptyInteger
          else if 6 < length b then Inl (IntegerTooLong (length b))
          else if b ! 0 AND 0x80 \<noteq> 0 then Inr (int (be_nat b) - 2 ^ (8 * length b))
          else Inr (int (be_nat b)))"

definition decOctetString :: "tlv_t \<Rightarrow> asn1_error + bytes" where
  "decOctetString t = rbind (expectTag t TAG_OCTET_STRING) (\<lambda>t. Inr (t_value t))"

definition decLatin1 :: "bytes \<Rightarrow> jstring" where
  "decLatin1 bs = map (\<lambda>b. u16_of (unat b)) bs"

definition utf8_or_latin1 :: "bytes \<Rightarrow> jstring" where
  "utf8_or_latin1 bs = (case fromUtf8 bs of Some s \<Rightarrow> s | None \<Rightarrow> decLatin1 bs)"

definition decGeneralString :: "tlv_t \<Rightarrow> asn1_error + jstring" where
  "decGeneralString t =
     (if t_tag t \<noteq> TAG_GENERAL_STRING \<and> t_tag t \<noteq> TAG_IA5_STRING
      then rbind (expectTag t TAG_GENERAL_STRING) (\<lambda>_. Inr (utf8_or_latin1 (t_value t)))
      else Inr (utf8_or_latin1 (t_value t)))"

definition decFlags :: "tlv_t \<Rightarrow> asn1_error + bytes" where
  "decFlags t =
     rbind (expectTag t TAG_BIT_STRING) (\<lambda>_.
       if length (t_value t) < 1 then Inl EmptyBitString else Inr (drop 1 (t_value t)))"

definition decSequenceOf :: "tlv_t \<Rightarrow> asn1_error + tlv_t list" where
  "decSequenceOf t = rbind (expectTag t TAG_SEQUENCE) (\<lambda>t. readChildren (t_value t) 0)"

record application_t =
  a_number :: nat
  a_sequence :: tlv_t
  a_outer :: tlv_t

definition readApplication :: "bytes \<Rightarrow> nat option \<Rightarrow> asn1_error + application_t" where
  "readApplication b expected =
     (if MAX_INPUT_BYTES < length b then Inl (InputTooLong (length b))
      else rbind (readTlv b 0 0) (\<lambda>outer.
        if t_tag outer AND 0xe0 \<noteq> 0x60 then Inl (NotKerberosMessage (t_tag outer))
        else
          (let number = unat (t_tag outer AND 0x1f)
           in if expected \<noteq> None \<and> expected \<noteq> Some number
              then Inl (WrongApplication (the expected) number)
              else rbind (readChildren (t_value outer) 1) (\<lambda>inner.
                case inner of
                  [x] \<Rightarrow> rbind (expectTag x TAG_SEQUENCE) (\<lambda>x.
                           Inr \<lparr>a_number = number, a_sequence = x, a_outer = outer\<rparr>)
                | _ \<Rightarrow> Inl (ApplicationWraps number (length inner))))))"

definition peekApplicationNumber :: "bytes \<Rightarrow> nat option" where
  "peekApplicationNumber b =
     (if length b < 2 then None
      else if b ! 0 AND 0xe0 \<noteq> 0x60 then None
      else Some (unat (b ! 0 AND 0x1f)))"

subsection \<open>The structural tree of unidentified bytes\<close>

definition TAG_NAMES :: "byte \<Rightarrow> string option" where
  "TAG_NAMES tg = map_of
     [(0x01, ''BOOLEAN''), (0x02, ''INTEGER''), (0x03, ''BIT STRING''), (0x04, ''OCTET STRING''),
      (0x05, ''NULL''), (0x06, ''OBJECT IDENTIFIER''), (0x0c, ''UTF8String''), (0x10, ''SEQUENCE''),
      (0x11, ''SET''), (0x13, ''PrintableString''), (0x16, ''IA5String''), (0x17, ''UTCTime''),
      (0x18, ''GeneralizedTime''), (0x1b, ''GeneralString''), (0x30, ''SEQUENCE''), (0x31, ''SET'')] tg"

definition describeTag :: "byte \<Rightarrow> string" where
  "describeTag tg =
     (let cls = tg AND 0xc0; constructed = (tg AND 0x20 \<noteq> 0); number = tg AND 0x1f
      in if cls = 0x00 then
           (case TAG_NAMES tg of
              Some name \<Rightarrow> name
            | None \<Rightarrow> (case TAG_NAMES number of
                Some name \<Rightarrow> name
              | None \<Rightarrow> ''universal '' @ show_nat (unat number)))
         else if cls = 0x40 then ''[APPLICATION '' @ show_nat (unat number) @ '']''
         else if cls = 0x80 then ''['' @ show_nat (unat number) @ '']''
         else ''[PRIVATE '' @ show_nat (unat number) @ '']'' @ (if constructed then [] else '' primitive''))"

text \<open>Whether an element is shown as a nested structure; the \<open>catch\<close> answers \<open>false\<close>.\<close>

definition looksConstructed :: "tlv_t \<Rightarrow> bool" where
  "looksConstructed t =
     (if t_tag t AND 0x20 = 0 then False
      else if t_length t = 0 then False
      else case readChildren (t_value t) 0 of
        Inl _ \<Rightarrow> False
      | Inr cs \<Rightarrow> cs \<noteq> [] \<and> t_end (last cs) = length (t_value t))"

text \<open>What the tree shows for a leaf: a number, a name, Latin-1 text, the numbers of the set bits,
  or hexadecimal digits, cut to 128 with the byte count appended when there are more.\<close>

datatype rendering =
    RenderInteger int
  | RenderText jstring
  | RenderBits "nat list"
  | RenderHex string
  | RenderCutHex string nat

definition renderPrimitive :: "tlv_t \<Rightarrow> rendering" where
  "renderPrimitive t =
     (let hex = toHex (t_value t);
          fallback = (if 128 < length hex then RenderCutHex (take 128 hex) (length (t_value t))
                      else RenderHex hex)
      in if t_tag t = TAG_INTEGER then
           (case decInteger t of Inl _ \<Rightarrow> fallback | Inr i \<Rightarrow> RenderInteger i)
         else if t_tag t = TAG_GENERAL_STRING \<or> t_tag t = TAG_IA5_STRING then
           RenderText (utf8_or_latin1 (t_value t))
         else if t_tag t = TAG_GENERALIZED_TIME then RenderText (decLatin1 (t_value t))
         else if t_tag t = TAG_BIT_STRING \<and> length (t_value t) = 5 then
           RenderBits (bitsFromFlags (drop 1 (t_value t)))
         else fallback)"

datatype asn1_node =
  Node (n_tag: byte) (n_tagName: string) (n_offset: nat) (n_length: nat) (n_bytes: bytes)
    (n_body: node_body)
and node_body = Children "asn1_node list" | DepthLimited nat | Text rendering

definition node_of :: "tlv_t \<Rightarrow> node_body \<Rightarrow> asn1_node" where
  "node_of t body =
     Node (t_tag t) (describeTag (t_tag t)) (t_start t) (t_length t) (t_value t) body"

function tree_from :: "bytes \<Rightarrow> nat \<Rightarrow> nat \<Rightarrow> asn1_error + asn1_node list" where
  "tree_from b at d =
     (if at < length b
      then rbind (readTlv b at d) (\<lambda>t.
             rbind (if looksConstructed t then
                      (if d < MAX_DEPTH then
                         (if MAX_INPUT_BYTES < length (t_value t)
                          then Inl (InputTooLong (length (t_value t)))
                          else rbind (tree_from (t_value t) 0 (d + 1)) (\<lambda>ns. Inr (Children ns)))
                       else Inr (DepthLimited (t_length t)))
                    else Inr (Text (renderPrimitive t))) (\<lambda>body.
               rbind (tree_from b (t_end t) d) (\<lambda>rest. Inr (node_of t body # rest))))
      else Inr [])"
  by pat_completeness auto
termination
proof (relation "measures [\<lambda>(b, at, d). length b, \<lambda>(b, at, d). length b - at]", simp)
  fix b at d t
  assume *: "at < length b" "readTlv b at d = Inr t"
  show "((t_value t, 0, d + 1), b, at, d)
      \<in> measures [\<lambda>(b, at, d). length b, \<lambda>(b, at, d). length b - at]"
    using readTlv_bounds(12) [OF *(2)] by simp
  show "((b, t_end t, d), b, at, d)
      \<in> measures [\<lambda>(b, at, d). length b, \<lambda>(b, at, d). length b - at]"
    using *(1) readTlv_bounds(3,6) [OF *(2)] by simp
qed

declare tree_from.simps [simp del]

definition tree :: "bytes \<Rightarrow> nat \<Rightarrow> asn1_error + asn1_node list" where
  "tree b depth =
     (if MAX_INPUT_BYTES < length b then Inl (InputTooLong (length b)) else tree_from b 0 depth)"

subsection \<open>Facts about lengths and elements\<close>

lemma unat_length_octet: "k < 128 \<Longrightarrow> unat (0x80 OR byte_of k) = 128 + k"
  using or_eq_add_nat [of k 7 1] by (simp add: unsigned_or_eq)

lemma encodeLength_short: "n < 128 \<Longrightarrow> encodeLength n = Inr [byte_of n]"
  by (simp add: encodeLength_def)

lemma encodeLength_long:
  assumes "128 \<le> n" and "n < 2 ^ 32"
  shows "encodeLength n = Inr ((0x80 OR byte_of (length (be_loop n []))) # be_loop n [])"
    and "0 < length (be_loop n [])" and "length (be_loop n []) \<le> 4"
proof -
  show "length (be_loop n []) \<le> 4" using assms(2) by (simp add: length_be_loop_le_iff)
  with assms(1) show "encodeLength n = Inr ((0x80 OR byte_of (length (be_loop n []))) # be_loop n [])"
    by (simp add: encodeLength_def Let_def)
  show "0 < length (be_loop n [])" using assms(1) by (simp add: be_loop_nonempty)
qed

lemma encodeLength_error: "encodeLength n = Inl e \<longleftrightarrow> 2 ^ 32 \<le> n \<and> e = LengthTooLong n"
proof -
  have "4 < length (be_loop n []) \<longleftrightarrow> 2 ^ 32 \<le> n"
    using length_be_loop_le_iff [of n 4] by auto
  then show ?thesis by (auto simp: encodeLength_def Let_def)
qed

lemma length_encodeLength: "encodeLength n = Inr len \<Longrightarrow> 1 \<le> length len \<and> length len \<le> 5"
  by (auto simp: encodeLength_def Let_def split: if_splits)

lemma readTlv_encoded:
  assumes len: "encodeLength (length v) = Inr len" and d: "d \<le> MAX_DEPTH"
  shows "readTlv (pre @ tg # len @ v @ suf) (length pre) d = Inr
     \<lparr>t_tag = tg, t_length = length v, t_headerLength = 1 + length len, t_start = length pre,
      t_valueStart = length pre + 1 + length len, t_end = length pre + 1 + length len + length v,
      t_value = v, t_raw = tg # len @ v\<rparr>"
proof (cases "length v < 128")
  case True
  with len have l: "len = [byte_of (length v)]" by (simp add: encodeLength_short)
  have "byte_of (length v) < 0x80" using True by (simp add: byte_less_iff)
  with True d l show ?thesis
    by (simp add: readTlv_def finishTlv_def nth_append)
next
  case False
  from len have "length v < 2 ^ 32"
    using encodeLength_error [of "length v" "LengthTooLong (length v)"] by (simp add: not_le [symmetric])
  note long = encodeLength_long [OF _ this]
  define ds where "ds = be_loop (length v) []"
  define first where "first = (0x80 OR byte_of (length ds) :: byte)"
  have ds: "0 < length ds" "length ds \<le> 4" "be_nat ds = length v"
    using long(2,3) False by (simp_all add: ds_def)
  have l: "len = first # ds" using long(1) len False by (simp add: ds_def first_def)
  have u: "unat first = 128 + length ds"
    using ds unat_length_octet [of "length ds"] by (simp add: first_def)
  have n: "unat (first AND 0x7f) = length ds" using u ds by (simp add: unat_byte_and_mask)
  have c: "\<not> first < 0x80" "first \<noteq> 0x80" using u ds by (simp_all add: byte_less_iff byte_eq_iff)
  have t: "take (length ds) (drop (length pre + 2) (pre @ tg # len @ v @ suf)) = ds"
    by (simp add: l)
  have e: "(pre @ tg # len @ v @ suf) ! length pre = tg"
    "(pre @ tg # len @ v @ suf) ! (length pre + 1) = first"
    by (simp_all add: l nth_append)
  show ?thesis
    unfolding readTlv_def e t n Let_def using d ds c
    by (simp add: finishTlv_def l n t)
qed

lemma tlv_readTlv:
  assumes "tlv tg v = Inr enc" and "d \<le> MAX_DEPTH"
  shows "readTlv (pre @ enc @ suf) (length pre) d = Inr
     \<lparr>t_tag = tg, t_length = length v, t_headerLength = length enc - length v, t_start = length pre,
      t_valueStart = length pre + (length enc - length v), t_end = length pre + length enc,
      t_value = v, t_raw = enc\<rparr>"
proof -
  from assms(1) obtain len where len: "encodeLength (length v) = Inr len" and enc: "enc = tg # len @ v"
    by (auto simp: tlv_def rbind_eq_Inr)
  from readTlv_encoded [OF len assms(2), of pre tg suf] show ?thesis by (simp add: enc)
qed

lemma readTlv_depth: "d \<le> MAX_DEPTH \<Longrightarrow> readTlv b at d = readTlv b at 0"
  by (simp add: readTlv_def)

lemma readTlv_too_deep: "MAX_DEPTH < d \<Longrightarrow> readTlv b at d = Inl NestedTooDeep"
  by (simp add: readTlv_def)

end
