(* ===== verification/Krb5_Asn1_Laws.thy ===== *)
theory Krb5_Asn1_Laws
  imports Krb5_Asn1
begin

text \<open>
  What the DER coder of \<open>Krb5_Asn1\<close> promises: the reader is an \<open>element_codec\<close> (every element it
  returns covers exactly its bytes, every element the writer produces reads back in any context),
  INTEGER contents are the shortest two's complement string of the number, flags and tagged
  sequences survive the round trip, and the tree of the decoder page fails only where reading the
  top level fails.
\<close>

subsection \<open>The reader as an element codec\<close>

text \<open>The element a tag and a value are written as, and where the reader finds it.\<close>

definition der_valid :: "byte \<times> bytes \<Rightarrow> bool" where
  "der_valid y \<longleftrightarrow> length (snd y) < 2 ^ 32"

definition der_encode :: "byte \<times> bytes \<Rightarrow> bytes" where
  "der_encode y = (case tlv (fst y) (snd y) of Inl _ \<Rightarrow> [] | Inr enc \<Rightarrow> enc)"

definition der_placed :: "nat \<Rightarrow> byte \<times> bytes \<Rightarrow> tlv_t" where
  "der_placed p y =
     \<lparr>t_tag = fst y, t_length = length (snd y),
      t_headerLength = length (der_encode y) - length (snd y), t_start = p,
      t_valueStart = p + (length (der_encode y) - length (snd y)),
      t_end = p + length (der_encode y), t_value = snd y, t_raw = der_encode y\<rparr>"

lemma tlv_ok: "length v < 2 ^ 32 \<Longrightarrow> tlv tg v = Inr (der_encode (tg, v))"
  using encodeLength_error [of "length v"]
  by (cases "encodeLength (length v)") (auto simp: der_encode_def tlv_def)

lemma tlv_error: "tlv tg v = Inl e \<longleftrightarrow> 2 ^ 32 \<le> length v \<and> e = LengthTooLong (length v)"
  by (auto simp: tlv_def rbind_eq_Inl encodeLength_error)

lemma tlv_eq_Inr: "tlv tg v = Inr enc \<longleftrightarrow> length v < 2 ^ 32 \<and> enc = der_encode (tg, v)"
  using tlv_ok [of v tg] tlv_error [of tg v "LengthTooLong (length v)"]
  by (cases "length v < 2 ^ 32") auto

lemma length_der_encode:
  "length v < 2 ^ 32 \<Longrightarrow> length v + 2 \<le> length (der_encode (tg, v)) \<and>
     length (der_encode (tg, v)) \<le> length v + 6"
proof -
  assume "length v < 2 ^ 32"
  then obtain len where "encodeLength (length v) = Inr len" and "der_encode (tg, v) = tg # len @ v"
    using tlv_ok [of v tg] by (auto simp: tlv_def rbind_eq_Inr)
  with length_encodeLength [of "length v" len] show ?thesis by simp
qed

interpretation children: element_codec
  "\<lambda>b at. readTlv b at (d + 1)" "\<lambda>b at. readChildren_from b at d" t_start t_end t_raw
  der_encode "\<lambda>y. der_valid y \<and> d + 1 \<le> MAX_DEPTH" der_placed
  for d :: nat
proof unfold_locales
  fix b :: bytes and at :: nat
  show "readChildren_from b at d = (if at < length b then rbind (readTlv b at (d + 1))
      (\<lambda>x. rbind (readChildren_from b (t_end x) d) (\<lambda>xs. Inr (x # xs))) else Inr [])"
    by (rule readChildren_from.simps)
next
  fix b :: bytes and at :: nat and x :: tlv_t
  assume "readTlv b at (d + 1) = Inr x"
  note bounds = readTlv_bounds [OF this]
  show "t_start x = at \<and> at < t_end x \<and> t_end x \<le> length b \<and> t_raw x = take (t_end x - at) (drop at b)"
    using bounds by simp
next
  fix y :: "byte \<times> bytes" and pre suf :: bytes
  assume y: "der_valid y \<and> d + 1 \<le> MAX_DEPTH"
  then have "tlv (fst y) (snd y) = Inr (der_encode y)"
    using tlv_ok [of "snd y" "fst y"] by (simp add: der_valid_def)
  from tlv_readTlv [OF this, of "d + 1" pre suf] y
  show "readTlv (pre @ der_encode y @ suf) (length pre) (d + 1) = Inr (der_placed (length pre) y)"
    by (simp add: der_placed_def)
next
  fix y :: "byte \<times> bytes" and p :: nat
  show "t_end (der_placed p y) = p + length (der_encode y)" by (simp add: der_placed_def)
qed

text \<open>Below the depth limit, depth plays no part in what is read.\<close>

lemma readChildren_from_depth:
  assumes "d + 1 \<le> MAX_DEPTH"
  shows "readChildren_from b at d = readChildren_from b at 0"
  using assms
proof (induction b at d rule: readChildren_from.induct)
  case (1 b at d)
  have rd: "readTlv b at (d + 1) = readTlv b at (0 + 1)"
    using readTlv_depth [of "d + 1" b at] readTlv_depth [of "0 + 1" b at] "1.prems"
    by (simp add: MAX_DEPTH_def)
  show ?case
  proof (cases "at < length b")
    case False
    then show ?thesis by (simp add: readChildren_from.simps [of b at])
  next
    case True
    show ?thesis
    proof (cases "readTlv b at (d + 1)")
      case (Inl e)
      with True rd show ?thesis by (simp add: readChildren_from.simps [of b at])
    next
      case (Inr t)
      from "1.IH" [OF True Inr "1.prems"] True rd Inr show ?thesis
        by (simp add: readChildren_from.simps [of b at])
    qed
  qed
qed

lemma looksConstructed_children:
  assumes "looksConstructed t"
  obtains cs where "readChildren_from (t_value t) 0 0 = Inr cs"
  using assms by (auto simp: looksConstructed_def readChildren_def split: if_splits sum.splits)

text \<open>Drawing the tree fails exactly when, and exactly as, reading the top-level elements fails:
  no nested element can make it throw.\<close>

lemma tree_from_Inl_iff:
  assumes "d \<le> MAX_DEPTH" and "length b \<le> MAX_INPUT_BYTES"
  shows "tree_from b at d = Inl e \<longleftrightarrow> readChildren_from b at 0 = Inl e"
  using assms
proof (induction b at d arbitrary: e rule: tree_from.induct)
  case (1 b at d)
  show ?case
  proof (cases "at < length b")
    case False
    then show ?thesis by (simp add: tree_from.simps [of b at] readChildren_from.simps [of b at])
  next
    case True
    have rd: "readTlv b at (Suc 0) = readTlv b at d"
      using readTlv_depth [of d b at] readTlv_depth [of "Suc 0" b at] "1.prems"
      by (simp add: MAX_DEPTH_def)
    show ?thesis
    proof (cases "readTlv b at d")
      case (Inl e')
      with True rd show ?thesis
        by (simp add: tree_from.simps [of b at] readChildren_from.simps [of b at])
    next
      case (Inr t)
      note bounds = readTlv_bounds [OF Inr]
      define body where "body = (if looksConstructed t then
          (if d < MAX_DEPTH then
             (if MAX_INPUT_BYTES < length (t_value t)
              then Inl (InputTooLong (length (t_value t)))
              else rbind (tree_from (t_value t) 0 (d + 1)) (\<lambda>ns. Inr (Children ns)))
           else Inr (DepthLimited (t_length t)))
        else Inr (Text (renderPrimitive t)))"
      have small: "length (t_value t) \<le> MAX_INPUT_BYTES" using bounds(12) "1.prems"(2) by simp
      have "\<exists>x. body = Inr x"
      proof (cases "looksConstructed t \<and> d < MAX_DEPTH")
        case True
        with looksConstructed_children obtain cs where
          "readChildren_from (t_value t) 0 0 = Inr cs" by blast
        with "1.IH"(1) [OF \<open>at < length b\<close> Inr] True small
        have "\<not> (\<exists>e. tree_from (t_value t) 0 (d + 1) = Inl e)" by auto
        then obtain ns where "tree_from (t_value t) 0 (d + 1) = Inr ns"
          by (cases "tree_from (t_value t) 0 (d + 1)") auto
        with True small show ?thesis by (simp add: body_def)
      qed (auto simp: body_def)
      then obtain x where x: "body = Inr x" ..
      from "1.IH"(2) [OF True Inr x [unfolded body_def] "1.prems", of e]
      show ?thesis
        using True rd Inr x [unfolded body_def]
        by (simp add: tree_from.simps [of b at] readChildren_from.simps [of b at] rbind_eq_Inl
            split del: if_split)
    qed
  qed
qed

subsection \<open>INTEGERs\<close>

text \<open>The number a two's complement octet string denotes.\<close>

definition twos_value :: "bytes \<Rightarrow> int" where
  "twos_value bs =
     (if 128 \<le> unat (hd bs) then int (be_nat bs) - 2 ^ (8 * length bs) else int (be_nat bs))"

lemma pow256: "(256 :: 'a :: comm_semiring_1) ^ n = 2 ^ (8 * n)"
  by (simp add: power_mult)

lemma twos_value_range:
  assumes "bs \<noteq> []"
  shows "- (2 ^ (8 * length bs - 1)) \<le> twos_value bs" and "twos_value bs < 2 ^ (8 * length bs - 1)"
proof -
  from assms obtain b cs where bs: "bs = b # cs" by (cases bs) auto
  have P: "(2 :: nat) ^ (8 * length bs - 1) = 128 * 256 ^ length cs"
    by (simp add: bs pow256 power_add)
  have P2: "(2 :: nat) ^ (8 * length bs) = 256 * 256 ^ length cs"
    by (simp add: bs pow256 power_add)
  have lt: "be_nat cs < 256 ^ length cs" by (rule be_nat_less)
  have n: "be_nat bs = unat b * 256 ^ length cs + be_nat cs" by (simp add: bs be_nat_Cons)
  have low: "be_nat bs < 128 * 256 ^ length cs" if "unat b < 128"
  proof -
    have "Suc (unat b) * 256 ^ length cs \<le> 128 * 256 ^ length cs"
      using that by (intro mult_le_mono1) simp
    then have "256 ^ length cs + unat b * 256 ^ length cs \<le> 128 * 256 ^ length cs"
      by (simp only: mult_Suc)
    with lt n show ?thesis by linarith
  qed
  have high: "128 * 256 ^ length cs \<le> be_nat bs" if "128 \<le> unat b"
  proof -
    have "128 * 256 ^ length cs \<le> unat b * 256 ^ length cs" using that by (intro mult_le_mono1)
    with n show ?thesis by linarith
  qed
  have top: "be_nat bs < 256 * 256 ^ length cs" using be_nat_less [of bs] by (simp add: bs)
  define H :: nat where "H = 128 * 256 ^ length cs"
  have ints: "(2 :: int) ^ (8 * length bs - 1) = int H" "(2 :: int) ^ (8 * length bs) = 2 * int H"
    using arg_cong [OF P, of int] arg_cong [OF P2, of int] by (simp_all add: H_def)
  have "128 \<le> unat b \<Longrightarrow> H \<le> be_nat bs" "unat b < 128 \<Longrightarrow> be_nat bs < H" "be_nat bs < 2 * H"
    using low high top by (simp_all add: H_def)
  moreover have "hd bs = b" by (simp add: bs)
  ultimately show "- (2 ^ (8 * length bs - 1)) \<le> twos_value bs"
    "twos_value bs < 2 ^ (8 * length bs - 1)"
    unfolding twos_value_def ints by (cases "128 \<le> unat b"; simp)+
qed

lemma neg_width_facts:
  "n \<le> neg_width v n"
  "- (2 ^ (8 * neg_width v n - 1)) \<le> v"
  "n \<le> m \<Longrightarrow> m < neg_width v n \<Longrightarrow> v < - (2 ^ (8 * m - 1))"
proof (induction v n rule: neg_width.induct)
  case (1 v n)
  {
    case 1
    show ?case using "1.IH"(1) by (cases "v < - (2 ^ (8 * n - 1))") (simp_all add: neg_width.simps [of v n])
  next
    case 2
    show ?case using "1.IH"(2) by (cases "v < - (2 ^ (8 * n - 1))") (simp_all add: neg_width.simps [of v n])
  next
    case 3
    then show ?case using "1.IH"(3)
      by (cases "v < - (2 ^ (8 * n - 1))"; cases "m = n") (simp_all add: neg_width.simps [of v n])
  }
qed

lemma integerContent_pos:
  assumes "0 < v" and "integerContent (Whole v) = Inr bs"
  shows "bs \<noteq> [] \<and> twos_value bs = v \<and>
    (\<forall>m. v < 2 ^ (8 * m - 1) \<longrightarrow> length bs \<le> m)"
proof -
  define n where "n = nat v"
  define ds where "ds = be_loop n []"
  have n: "0 < n" "int n = v" using assms(1) by (simp_all add: n_def)
  have ds: "ds \<noteq> []" "be_nat ds = n" "hd ds \<noteq> 0"
    using n(1) be_loop_nonempty hd_be_loop by (simp_all add: ds_def)
  then obtain b cs where dc: "ds = b # cs" by (cases ds) auto
  have bs: "bs = (if 128 \<le> unat b then 0 # ds else ds)"
    using assms byte_less_256 [of b]
    by (auto simp: integerContent_def Let_def n_def [symmetric] ds_def [symmetric] dc
        byte_eq_iff unat_byte_and_mask)
  have val: "twos_value bs = v"
    using ds n by (auto simp: bs twos_value_def dc be_nat_Cons)
  have short: "length bs \<le> m" if m: "v < 2 ^ (8 * m - 1)" for m
  proof -
    have nm: "n < 2 ^ (8 * m - 1)"
    proof -
      have "int n < int (2 ^ (8 * m - 1))" using m n(2) by simp
      then show ?thesis by (simp only: of_nat_less_iff)
    qed
    then have "0 < m" using n(1) by (cases m) simp_all
    then have "(2 :: nat) ^ (8 * m - 1) < 256 ^ m" by (simp add: pow256 power_strict_increasing)
    with nm have "n < 256 ^ m" by simp
    then have le: "length ds \<le> m" by (simp add: ds_def length_be_loop_le_iff)
    moreover have "length ds \<noteq> m" if "128 \<le> unat b"
    proof
      assume lm: "length ds = m"
      have "128 * 256 ^ length cs \<le> unat b * 256 ^ length cs" using that by (rule mult_le_mono1)
      also have "\<dots> \<le> n" using ds(2) by (simp add: dc be_nat_Cons flip: ds(2))
      finally have "128 * 256 ^ length cs \<le> n" .
      moreover have "(2 :: nat) ^ (8 * m - 1) = 128 * 256 ^ length cs"
        using lm by (auto simp: dc pow256 power_add)
      ultimately show False using nm by simp
    qed
    ultimately show ?thesis by (auto simp: bs)
  qed
  show ?thesis using val short by (auto simp: bs dc)
qed

lemma integerContent_neg:
  assumes "v < 0" and "integerContent (Whole v) = Inr bs"
  shows "bs \<noteq> [] \<and> twos_value bs = v \<and>
    (\<forall>m. 0 < m \<and> - (2 ^ (8 * m - 1)) \<le> v \<longrightarrow> length bs \<le> m)"
proof -
  define n where "n = neg_width v 1"
  have n1: "1 \<le> n" and lo: "- (2 ^ (8 * n - 1)) \<le> v"
    using neg_width_facts(1) [of 1 v] neg_width_facts(2) [of v 1] by (simp_all add: n_def)
  have bs: "bs = be_fixed n (nat (v + 2 ^ (8 * n)))"
    using assms by (simp add: integerContent_def Let_def n_def)
  have half: "(2 :: int) ^ (8 * n) = 2 * 2 ^ (8 * n - 1)"
  proof -
    have "8 * n = Suc (8 * n - 1)" using n1 by simp
    then show ?thesis by (metis power_Suc)
  qed
  define k where "k = nat (v + 2 ^ (8 * n))"
  have "(0 :: int) \<le> 2 ^ (8 * n - 1)" by simp
  with lo half have "0 \<le> v + 2 ^ (8 * n)" by linarith
  then have k: "int k = v + 2 ^ (8 * n)" by (simp add: k_def)
  have "int k < int (2 ^ (8 * n))" using k assms(1) by simp
  then have kn: "k < 256 ^ n" by (simp only: of_nat_less_iff pow256)
  have bk: "be_nat bs = k" using kn by (simp add: bs k_def [symmetric])
  have len: "length bs = n" by (simp add: bs)
  then obtain b cs where bc: "bs = b # cs" using n1 by (cases bs) auto
  have "int (2 ^ (8 * n - 1)) \<le> int k" using k lo half by simp
  then have "2 ^ (8 * n - 1) \<le> k" by (simp only: of_nat_le_iff)
  moreover have "(2 :: nat) ^ (8 * n - 1) = 128 * 256 ^ length cs"
    using len by (auto simp: bc pow256 power_add)
  ultimately have "128 * 256 ^ length cs \<le> unat b * 256 ^ length cs + be_nat cs"
    using bk by (simp add: bc be_nat_Cons)
  with be_nat_less [of cs] have "128 * 256 ^ length cs < 256 ^ length cs + unat b * 256 ^ length cs"
    by linarith
  then have "128 * 256 ^ length cs < Suc (unat b) * 256 ^ length cs" by (simp only: mult_Suc)
  then have "128 < Suc (unat b)" by (simp only: mult_less_cancel2)
  then have "128 \<le> unat b" by simp
  then have val: "twos_value bs = v" using bk k len by (simp add: twos_value_def bc)
  have "length bs \<le> m" if "0 < m" "- (2 ^ (8 * m - 1)) \<le> v" for m
    using neg_width_facts(3) [of 1 m v] that by (force simp: len n_def not_less [symmetric])
  with val show ?thesis by (simp add: bc)
qed

text \<open>The content octets denote the number and no shorter non-empty string does.\<close>

lemma integerContent_shortest:
  assumes "integerContent (Whole v) = Inr bs"
  shows "bs \<noteq> []" and "twos_value bs = v"
    and "cs \<noteq> [] \<Longrightarrow> twos_value cs = v \<Longrightarrow> length bs \<le> length cs"
proof -
  have "bs \<noteq> [] \<and> twos_value bs = v \<and> (cs \<noteq> [] \<longrightarrow> twos_value cs = v \<longrightarrow> length bs \<le> length cs)"
  proof (cases v "0 :: int" rule: linorder_cases)
    case less
    from integerContent_neg [OF this assms] twos_value_range [of cs] show ?thesis by auto
  next
    case equal
    with assms have "bs = [0]" by (simp add: integerContent_def)
    with equal show ?thesis by (cases cs) (simp_all add: twos_value_def be_nat_Cons)
  next
    case greater
    from integerContent_pos [OF this assms] twos_value_range [of cs] show ?thesis by auto
  qed
  then show "bs \<noteq> []" "twos_value bs = v"
    "cs \<noteq> [] \<Longrightarrow> twos_value cs = v \<Longrightarrow> length bs \<le> length cs" by blast+
qed

lemma integerContent_total: "\<exists>bs. integerContent (Whole v) = Inr bs"
  by (simp add: integerContent_def Let_def)

lemma integerContent_length:
  assumes "integerContent (Whole v) = Inr bs" and "0 < m"
    and "- (2 ^ (8 * m - 1)) \<le> v" and "v < 2 ^ (8 * m - 1)"
  shows "length bs \<le> m"
proof (cases v "0 :: int" rule: linorder_cases)
  case less
  with integerContent_neg [OF less assms(1)] assms show ?thesis by blast
next
  case equal
  with assms show ?thesis by (auto simp: integerContent_def)
next
  case greater
  with integerContent_pos [OF greater assms(1)] assms show ?thesis by blast
qed

lemma decInteger_value:
  assumes "t_tag t = TAG_INTEGER" and "t_value t \<noteq> []" and "length (t_value t) \<le> 6"
  shows "decInteger t = Inr (twos_value (t_value t))"
proof -
  have "t_value t ! 0 AND 0x80 \<noteq> 0 \<longleftrightarrow> 128 \<le> unat (hd (t_value t))"
    using assms(2) byte_less_256 [of "hd (t_value t)"]
    by (auto simp: hd_conv_nth byte_eq_iff unat_byte_and_mask)
  with assms show ?thesis by (simp add: decInteger_def expectTag_def twos_value_def Let_def)
qed

subsection \<open>KerberosFlags\<close>

definition flag_set :: "bytes \<Rightarrow> nat \<Rightarrow> bool" where
  "flag_set bs i \<longleftrightarrow> i div 8 < length bs \<and> bit (bs ! (i div 8)) (7 - i mod 8)"

lemma drop_bit_3: "drop_bit 3 (i :: nat) = i div 8"
  by (simp add: drop_bit_eq_div)

lemma flag_mask: "byte_of (drop_bit (k AND 7) 0x80) = 2 ^ (7 - k mod 8)"
proof -
  have "drop_bit m (0x80 :: nat) = 2 ^ (7 - m)" if "m < 8" for m
  proof -
    have "(0x80 :: nat) = 2 ^ (7 - m) * 2 ^ m" using that by (simp flip: power_add)
    then have "(0x80 :: nat) div 2 ^ m = 2 ^ (7 - m)"
      by (metis nonzero_mult_div_cancel_right power_not_zero zero_neq_numeral)
    then show ?thesis by (simp only: drop_bit_eq_div)
  qed
  from this [of "k mod 8"] show ?thesis by (simp add: nat_and_mask byte_of_def)
qed

lemma flag_test: "i div 8 < length bs \<Longrightarrow> bs ! drop_bit 3 i AND byte_of (drop_bit (i AND 7) 0x80) \<noteq> 0 \<longleftrightarrow> flag_set bs i"
  by (simp add: flag_mask flag_set_def drop_bit_3 and_exp_eq_0_iff_not_bit)

lemma bitsFromFlags_eq: "bitsFromFlags bs = filter (flag_set bs) [0..<8 * length bs]"
  unfolding bitsFromFlags_def by (rule filter_cong) (simp_all add: flag_test less_mult_imp_div_less mult.commute)

lemma length_set_flag [simp]: "length (set_flag k bs) = length bs"
  by (simp add: set_flag_def)

lemma flag_set_set_flag:
  assumes "k < 8 * length bs"
  shows "flag_set (set_flag k bs) i \<longleftrightarrow> flag_set bs i \<or> i = k"
proof -
  have k: "k div 8 < length bs" using assms by (simp add: less_mult_imp_div_less mult.commute)
  show ?thesis
  proof (cases "i div 8 = k div 8")
    case True
    have "7 - i mod 8 = 7 - k mod 8 \<longleftrightarrow> i = k"
    proof
      assume "7 - i mod 8 = 7 - k mod 8"
      moreover have "i mod 8 \<le> 7" "k mod 8 \<le> 7" by simp_all
      ultimately have "i mod 8 = k mod 8" by linarith
      with True show "i = k" by (metis div_mult_mod_eq)
    qed simp
    with k True show ?thesis
      by (auto simp: set_flag_def flag_set_def flag_mask drop_bit_3 bit_or_iff bit_exp_iff)
  next
    case False
    with k show ?thesis
      by (auto simp: set_flag_def flag_set_def flag_mask drop_bit_3)
  qed
qed

lemma encFlags_loop_ok:
  assumes "\<forall>b\<in>set bits. 0 \<le> b \<and> b \<le> 31" and "length bs = 4"
  shows "\<exists>out. encFlags_loop bits bs = Inr out \<and> length out = 4 \<and>
    (\<forall>i. flag_set out i \<longleftrightarrow> flag_set bs i \<or> int i \<in> set bits)"
  using assms
proof (induction bits arbitrary: bs)
  case (Cons b bits)
  have b: "0 \<le> b" "b \<le> 31" using Cons.prems(1) by simp_all
  then have k: "nat b < 8 * length bs" using Cons.prems(2) by simp
  from Cons.IH [of "set_flag (nat b) bs"] Cons.prems obtain out where
    out: "encFlags_loop bits (set_flag (nat b) bs) = Inr out" "length out = 4"
    "\<And>i. flag_set out i \<longleftrightarrow> flag_set (set_flag (nat b) bs) i \<or> int i \<in> set bits" by auto
  with b flag_set_set_flag [OF k] show ?case by auto
qed simp

lemma flagsFromBits_eq:
  assumes "\<forall>b\<in>set bits. 0 \<le> b \<and> b \<le> 31"
  shows "encFlags_loop bits (replicate 4 0) = Inr (flagsFromBits bits)"
proof -
  have "encFlags_loop bits bs = Inr (fold (\<lambda>b bs. if b < 0 \<or> 31 < b then bs else set_flag (nat b) bs) bits bs)"
    for bs using assms by (induction bits arbitrary: bs) auto
  then show ?thesis by (simp add: flagsFromBits_def)
qed

lemma flags_sorted:
  assumes "length out = 4" and "\<And>i. flag_set out i \<longleftrightarrow> int i \<in> set bits"
    and "\<forall>b\<in>set bits. 0 \<le> b \<and> b \<le> 31"
  shows "bitsFromFlags out = sorted_list_of_set (nat ` set bits)"
proof -
  have "set (bitsFromFlags out) = nat ` set bits"
  proof (intro set_eqI iffI)
    fix i assume "i \<in> set (bitsFromFlags out)"
    then have "int i \<in> set bits" using assms(2) by (simp add: bitsFromFlags_eq)
    then show "i \<in> nat ` set bits" by (metis image_eqI nat_int)
  next
    fix i assume "i \<in> nat ` set bits"
    then obtain b where "b \<in> set bits" "i = nat b" by auto
    with assms show "i \<in> set (bitsFromFlags out)" by (auto simp: bitsFromFlags_eq nat_less_iff)
  qed
  moreover have "sorted (bitsFromFlags out)" "distinct (bitsFromFlags out)"
    by (simp_all add: bitsFromFlags_eq sorted_wrt_filter)
  ultimately show ?thesis by (metis sorted_list_of_set.idem_if_sorted_distinct)
qed

lemma flag_set_zero: "\<not> flag_set (replicate 4 0) i"
  by (simp add: flag_set_def)

subsection \<open>Tagged sequences\<close>

lemma unat_context_tag: "0 \<le> n \<Longrightarrow> n \<le> 30 \<Longrightarrow> unat (0xa0 OR byte_of (nat n)) = 160 + nat n"
  using or_eq_add_nat [of "nat n" 5 5] by (simp add: unsigned_or_eq)

lemma unat_application_tag: "0 \<le> n \<Longrightarrow> n \<le> 30 \<Longrightarrow> unat (0x60 OR byte_of (nat n)) = 96 + nat n"
  using or_eq_add_nat [of "nat n" 5 3] by (simp add: unsigned_or_eq)

text \<open>The fields that are written, and the map the reader is to return: for each tag the element
  inside it, the last one written where a tag occurs twice.\<close>

fun present_fields :: "(int \<times> bytes option) option list \<Rightarrow> (int \<times> bytes) list" where
  "present_fields [] = []"
| "present_fields (Some (tg, Some v) # fs) = (tg, v) # present_fields fs"
| "present_fields (_ # fs) = present_fields fs"

definition field_map :: "(nat \<times> byte \<times> bytes) list \<Rightarrow> nat \<rightharpoonup> tlv_t" where
  "field_map es n = map_option (der_placed 0) (map_of (rev es) n)"

definition context_element :: "nat \<times> byte \<times> bytes \<Rightarrow> byte \<times> bytes" where
  "context_element f = (0xa0 OR byte_of (fst f), der_encode (snd f))"

lemma encContext_ok:
  "n \<le> 30 \<Longrightarrow> encContext (int n) v = tlv (0xa0 OR byte_of n) v"
  by (simp add: encContext_def contextTag_def)

lemma parts_encoded:
  assumes "present_fields fs = map (\<lambda>(n, e). (int n, der_encode e)) es"
    and "\<forall>(n, e)\<in>set es. n \<le> 30 \<and> der_valid e" and "encTaggedSequence_parts fs = Inr parts"
  shows "parts = map (der_encode \<circ> context_element) es \<and> (\<forall>f\<in>set es. der_valid (context_element f))"
  using assms
proof (induction fs arbitrary: es parts rule: encTaggedSequence_parts.induct)
  case (4 tg v fs)
  then obtain n e es' where es: "es = (n, e) # es'" and tg: "tg = int n" "v = der_encode e"
    and fs: "present_fields fs = map (\<lambda>(n, e). (int n, der_encode e)) es'"
    by (cases es) auto
  from "4.prems"(2) have n: "n \<le> 30" by (simp add: es)
  from "4.prems"(3) obtain p ps where p: "encContext tg v = Inr p"
    and ps: "encTaggedSequence_parts fs = Inr ps" and parts: "parts = p # ps"
    by (auto simp: rbind_eq_Inr)
  from p n have "der_valid (context_element (n, e)) \<and> p = der_encode (context_element (n, e))"
    by (simp add: tg encContext_ok tlv_eq_Inr context_element_def der_valid_def)
  with "4.IH" [OF p fs _ ps] "4.prems"(2) show ?case by (simp add: es parts)
qed auto

lemma readTagged_loop_placed:
  assumes "\<forall>(n, e)\<in>set es. n \<le> 30 \<and> der_valid e" and "d + 2 \<le> MAX_DEPTH"
  shows "readTagged_loop (place_all der_placed der_encode p (map context_element es)) d m =
    Inr (\<lambda>n. case map_of (rev es) n of None \<Rightarrow> m n | Some e \<Rightarrow> Some (der_placed 0 e))"
  using assms(1)
proof (induction es arbitrary: p m)
  case Nil
  then show ?case by simp
next
  case (Cons f es)
  obtain n e where f: "f = (n, e)" by (cases f)
  from Cons.prems have n: "n \<le> 30" and e: "der_valid e" by (simp_all add: f)
  have tag: "unat (0xa0 OR byte_of n) = 160 + n" using unat_context_tag [of "int n"] n by simp
  have "(160 + n) div 64 = 2" "(160 + n) mod 32 = n"
    using n add_field_div_mod [of n 32 5] by (simp_all add: div_nat_eqI)
  then have cls: "(0xa0 OR byte_of n) AND 0xc0 = (0x80 :: byte)"
    and num: "unat ((0xa0 OR byte_of n) AND 0x1f) = n"
    by (simp_all add: byte_eq_iff unat_byte_and_mask tag)
  have inner: "readChildren (der_encode e) (Suc d) = Inr [der_placed 0 e]"
    using children.read_all_encoded [of "[e]" "d + 1" "[]"] e assms(2) by (simp add: readChildren_def)
  have ce: "t_tag (der_placed p (context_element f)) = 0xa0 OR byte_of n"
    "t_value (der_placed p (context_element f)) = der_encode e"
    by (simp_all add: f context_element_def der_placed_def)
  have IH: "readTagged_loop (place_all der_placed der_encode q (map context_element es)) d
      (m(n \<mapsto> der_placed 0 e)) =
    Inr (\<lambda>k. case map_of (rev es) k of None \<Rightarrow> (m(n \<mapsto> der_placed 0 e)) k | Some e \<Rightarrow> Some (der_placed 0 e))" for q
    using Cons.IH Cons.prems by simp
  show ?case
    by (simp add: ce cls num inner IH) (auto simp: f map_add_def fun_eq_iff split: option.splits)
qed

lemma taggedSequence_encoded:
  assumes "present_fields fs = map (\<lambda>(n, e). (int n, der_encode e)) es"
    and "\<forall>(n, e)\<in>set es. n \<le> 30 \<and> der_valid e"
    and "encTaggedSequence fs = Inr enc" and "d + 2 \<le> MAX_DEPTH"
  shows "\<exists>body. tlv TAG_SEQUENCE body = Inr enc \<and> readTaggedSequence body d = Inr (field_map es)"
proof -
  from assms(3) obtain parts where parts: "encTaggedSequence_parts fs = Inr parts"
    and enc: "tlv TAG_SEQUENCE (concat parts) = Inr enc"
    by (auto simp: encTaggedSequence_def encSequence_def rbind_eq_Inr)
  note p = parts_encoded [OF assms(1,2) parts]
  have "readChildren (concat parts) d = Inr (place_all der_placed der_encode 0 (map context_element es))"
    using children.read_all_encoded [of "map context_element es" d "[]"] p assms(4)
    by (simp add: readChildren_def)
  then have "readTaggedSequence (concat parts) d = Inr (field_map es)"
    using readTagged_loop_placed [OF assms(2,4), of 0 Map.empty]
    by (simp add: readTaggedSequence_def field_map_def [abs_def] map_option_case fun_eq_iff)
  with enc show ?thesis by blast
qed

lemma taggedSequence_readback:
  assumes "present_fields fs = map (\<lambda>(n, e). (int n, der_encode e)) es"
    and "\<forall>(n, e)\<in>set es. n \<le> 30 \<and> der_valid e"
    and "encTaggedSequence fs = Inr enc" and "d + 2 \<le> MAX_DEPTH"
  shows "\<exists>t. readTlv (pre @ enc @ suf) (length pre) d = Inr t \<and> t_tag t = TAG_SEQUENCE \<and>
    t_raw t = enc \<and> readTaggedSequence (t_value t) d = Inr (field_map es)"
proof -
  from taggedSequence_encoded [OF assms] obtain body where
    "tlv TAG_SEQUENCE body = Inr enc" "readTaggedSequence body d = Inr (field_map es)" by blast
  with tlv_readTlv [of TAG_SEQUENCE body enc d pre suf] assms(4) show ?thesis by simp
qed

lemma readApplication_readback:
  assumes "encApplication (int n) seq = Inr enc" and "seq = der_encode (TAG_SEQUENCE, body)"
    and "der_valid (TAG_SEQUENCE, body)" and "length enc \<le> MAX_INPUT_BYTES"
    and "expected = None \<or> expected = Some n"
  shows "\<exists>a. readApplication enc expected = Inr a \<and> a_number a = n \<and> t_value (a_sequence a) = body \<and>
    t_raw (a_sequence a) = seq \<and> t_raw (a_outer a) = enc"
proof -
  from assms(1) have n: "n \<le> 30" and enc: "tlv (0x60 OR byte_of n) seq = Inr enc"
    by (auto simp: encApplication_def applicationTag_def rbind_eq_Inr split: if_splits)
  have tag: "unat (0x60 OR byte_of n) = 96 + n" using unat_application_tag [of "int n"] n by simp
  have "(96 + n) div 32 = 3" "(96 + n) mod 32 = n"
    using n add_field_div_mod [of n 32 3] by (simp_all add: div_nat_eqI)
  then have cls: "(0x60 OR byte_of n) AND 0xe0 = (0x60 :: byte)"
    and num: "unat ((0x60 OR byte_of n) AND 0x1f) = n"
    by (simp_all add: byte_eq_iff unat_byte_and_mask tag)
  have inner: "readChildren seq (Suc 0) = Inr [der_placed 0 (TAG_SEQUENCE, body)]"
    using children.read_all_encoded [of "[(TAG_SEQUENCE, body)]" 1 "[]"] assms(2,3)
    by (simp add: readChildren_def MAX_DEPTH_def)
  from tlv_readTlv [OF enc, of 0 "[]" "[]"] assms(2,4,5) show ?thesis
    by (auto simp: readApplication_def cls num inner [unfolded assms(2)] expectTag_def der_placed_def MAX_DEPTH_def Let_def)
qed

subsection \<open>Properties\<close>

text \<open>An element written by \<open>tlv\<close> is read back by \<open>readTlv\<close> wherever it stands in a buffer, with
  its tag, its value and its original bytes, and the reader ends exactly where it ends; the writer
  refuses exactly the values whose length does not fit four bytes.\<close>

theorem der_element_roundtrip:
  assumes "d \<le> MAX_DEPTH"
  shows "(\<exists>enc t. tlv tg v = Inr enc \<and> readTlv (pre @ enc @ suf) (length pre) d = Inr t \<and>
            t_tag t = tg \<and> t_value t = v \<and> t_raw t = enc \<and> t_end t = length pre + length enc)
         \<or> (2 ^ 32 \<le> length v \<and> tlv tg v = Inl (LengthTooLong (length v)))"
proof (cases "tlv tg v")
  case (Inl e)
  then show ?thesis using tlv_error [of tg v e] by simp
next
  case (Inr enc)
  from tlv_readTlv [OF Inr assms, of pre suf] Inr show ?thesis by auto
qed

lemma der_element_roundtrip_witness:
  "(\<exists>enc t. tlv 0x04 [1, 2] = Inr enc \<and> readTlv ([9] @ enc @ [7]) (length [9 :: byte]) 3 = Inr t \<and>
            t_tag t = 0x04 \<and> t_value t = [1, 2] \<and> t_raw t = enc \<and> t_end t = length [9 :: byte] + length enc)
         \<or> (2 ^ 32 \<le> length [1, 2 :: byte] \<and> tlv 0x04 [1, 2] = Inl (LengthTooLong (length [1, 2 :: byte])))"
  by (rule der_element_roundtrip) (simp add: MAX_DEPTH_def)

text \<open>C1: the elements \<open>readChildren\<close> returns tile the value: each starts where the one before ends,
  none is empty, the last ends at the end, and their original bytes put together are the value.\<close>

theorem der_children_tile:
  assumes "readChildren v depth = Inr ts"
  shows "tiles t_start t_end 0 (length v) ts \<and> concat (map t_raw ts) = v"
  using children.read_all_tiles [where b = v and at = 0 and xs = ts and d = depth] children.read_all_raw [where b = v and at = 0 and xs = ts and d = depth] assms
  by (simp add: readChildren_def)

lemma der_children_tile_witness:
  "tiles t_start t_end 0 (length [2, 1, 5, 5, 0 :: byte])
      [der_placed 0 (2, [5]), der_placed 3 (5, [])] \<and>
    concat (map t_raw [der_placed 0 (2, [5]), der_placed 3 (5, [])]) = [2, 1, 5, 5, 0 :: byte]"
proof -
  have "readChildren [2, 1, 5, 5, 0] 0 = Inr [der_placed 0 (2, [5]), der_placed 3 (5, [])]"
    by code_simp
  then show ?thesis by (rule der_children_tile)
qed

text \<open>Every integer of at most 48 bits, negative ones included, survives
  \<open>encInteger\<close>/\<open>readTlv\<close>/\<open>decInteger\<close>, and its content octets are the shortest that denote it.\<close>

theorem der_integer_roundtrip_shortest:
  assumes "- (2 ^ 47) \<le> v" and "v < 2 ^ 47" and "d \<le> MAX_DEPTH"
  shows "\<exists>enc t. encInteger (Whole v) = Inr enc \<and> readTlv (pre @ enc @ suf) (length pre) d = Inr t \<and>
    decInteger t = Inr v \<and> (\<forall>cs. cs \<noteq> [] \<and> twos_value cs = v \<longrightarrow> length (t_value t) \<le> length cs)"
proof -
  obtain bs where bs: "integerContent (Whole v) = Inr bs" using integerContent_total by blast
  have len: "length bs \<le> 6" using integerContent_length [OF bs, of 6] assms by simp
  then have enc: "tlv TAG_INTEGER bs = Inr (der_encode (TAG_INTEGER, bs))" by (simp add: tlv_ok)
  from tlv_readTlv [OF enc assms(3), of pre suf] obtain t where
    t: "readTlv (pre @ der_encode (TAG_INTEGER, bs) @ suf) (length pre) d = Inr t"
    "t_tag t = TAG_INTEGER" "t_value t = bs" by auto
  with decInteger_value [of t] integerContent_shortest [OF bs] len bs enc show ?thesis
    by (auto simp: encInteger_def)
qed

lemma der_integer_roundtrip_shortest_witness:
  "\<exists>enc t. encInteger (Whole (-138)) = Inr enc \<and> readTlv ([] @ enc @ [7]) (length ([] :: bytes)) 0 = Inr t \<and>
    decInteger t = Inr (-138) \<and>
    (\<forall>cs. cs \<noteq> [] \<and> twos_value cs = -138 \<longrightarrow> length (t_value t) \<le> length cs)"
  by (rule der_integer_roundtrip_shortest) (simp_all add: MAX_DEPTH_def)

text \<open>Flag numbers in range are written, and reading the BIT STRING back gives exactly the set of
  numbers in increasing order, bit 0 being the most significant bit of the first octet.\<close>

theorem krb_flags_roundtrip:
  assumes "\<forall>b\<in>set bits. 0 \<le> b \<and> b \<le> 31" and "d \<le> MAX_DEPTH"
  shows "\<exists>enc t fl. encFlags bits = Inr enc \<and> readTlv (pre @ enc @ suf) (length pre) d = Inr t \<and>
    decFlags t = Inr fl \<and> length fl = 4 \<and> bitsFromFlags fl = sorted_list_of_set (nat ` set bits)"
proof -
  from encFlags_loop_ok [OF assms(1), of "replicate 4 0"] obtain out where
    out: "encFlags_loop bits (replicate 4 0) = Inr out" "length out = 4"
    "\<And>i. flag_set out i \<longleftrightarrow> int i \<in> set bits" using flag_set_zero by auto
  have enc: "tlv TAG_BIT_STRING (0 # out) = Inr (der_encode (TAG_BIT_STRING, 0 # out))"
    using out(2) by (simp add: tlv_ok)
  from tlv_readTlv [OF enc assms(2), of pre suf] out enc flags_sorted [OF out(2,3) assms(1)]
  show ?thesis by (auto simp: encFlags_def decFlags_def expectTag_def)
qed

lemma krb_flags_roundtrip_witness:
  "\<exists>enc t fl. encFlags [31, 1, 3, 1] = Inr enc \<and> readTlv ([] @ enc @ []) (length ([] :: bytes)) 0 = Inr t \<and>
    decFlags t = Inr fl \<and> length fl = 4 \<and>
    bitsFromFlags fl = sorted_list_of_set (nat ` set [31, 1, 3, 1])"
  by (rule krb_flags_roundtrip) (simp_all add: MAX_DEPTH_def)

text \<open>A SEQUENCE of explicitly tagged fields, absent ones included, reads back as the map from tag
  number to the element inside that tag.\<close>

theorem tagged_sequence_roundtrip:
  assumes "present_fields fs = map (\<lambda>(n, e). (int n, der_encode e)) es"
    and "\<forall>(n, e)\<in>set es. n \<le> 30 \<and> der_valid e"
    and "encTaggedSequence fs = Inr enc" and "d + 2 \<le> MAX_DEPTH"
  shows "\<exists>t. readTlv (pre @ enc @ suf) (length pre) d = Inr t \<and> t_tag t = TAG_SEQUENCE \<and>
    t_raw t = enc \<and> readTaggedSequence (t_value t) d = Inr (field_map es)"
  using assms by (rule taggedSequence_readback)

lemma tagged_sequence_roundtrip_witness:
  "\<exists>t. readTlv ([] @ [0x30, 5, 0xa3, 3, 2, 1, 9] @ []) (length ([] :: bytes)) 0 = Inr t \<and>
    t_tag t = TAG_SEQUENCE \<and> t_raw t = [0x30, 5, 0xa3, 3, 2, 1, 9] \<and>
    readTaggedSequence (t_value t) 0 = Inr (field_map [(3, 2, [9])])"
proof (rule tagged_sequence_roundtrip)
  have "der_encode (2, [9]) = [2, 1, 9]" by code_simp
  then show "present_fields [None, Some (1, None), Some (3, Some [2, 1, 9])] =
      map (\<lambda>(n, e). (int n, der_encode e)) [(3, 2, [9])]" by simp
  show "encTaggedSequence [None, Some (1, None), Some (3, Some [2, 1, 9])] =
      Inr [0x30, 5, 0xa3, 3, 2, 1, 9]" by code_simp
qed (simp_all add: der_valid_def MAX_DEPTH_def)

text \<open>Drawing the structural tree of a buffer within the size limit throws exactly when, and with
  exactly the error with which, reading its top-level elements throws: the recursion into
  constructed elements never does.\<close>

theorem tree_fails_only_at_top:
  assumes "length b \<le> MAX_INPUT_BYTES" and "d \<le> MAX_DEPTH"
  shows "tree b d = Inl e \<longleftrightarrow> readChildren b 0 = Inl e"
  using tree_from_Inl_iff [OF assms(2,1), of 0 e] assms(1) by (simp add: tree_def readChildren_def)

lemma tree_fails_only_at_top_witness:
  "tree [0x30, 3, 0x30, 9, 1] 32 = Inl (TruncatedHeader 5) \<longleftrightarrow>
    readChildren [0x30, 3, 0x30, 9, 1] 0 = Inl (TruncatedHeader 5)"
  by (rule tree_fails_only_at_top) (simp_all add: MAX_INPUT_BYTES_def MAX_DEPTH_def)

end
