(* ===== verification/Krb5_Frame.thy ===== *)
theory Krb5_Frame
  imports Krb5_Asn1_Laws
begin

text \<open>
  The TCP framing of Kerberos and the pre-flight of the relay (\<open>api/krb5_frame.js\<close>).

  The routine \<open>readOuterTlv\<close> is written by hand in the source so that the guard does not depend on
  the codec.  The properties show that it decides what the codec of \<open>Krb5_Asn1\<close> would decide: the
  pre-flight accepts exactly the payloads that are one DER element of an allowed tag, and the framing
  reader delivers the same message however the stream was cut into chunks.  A JavaScript buffer that is
  \<open>null\<close> or \<open>undefined\<close> is treated by every routine as the empty one, which is how it is modelled.
\<close>

subsection \<open>Tables and limits\<close>

definition KDC_REQUEST_TAGS :: "byte \<Rightarrow> string option" where
  "KDC_REQUEST_TAGS b =
     (if b = 0x6a then Some ''AS-REQ'' else if b = 0x6c then Some ''TGS-REQ'' else None)"

definition SERVICE_REQUEST_TAGS :: "byte \<Rightarrow> string option" where
  "SERVICE_REQUEST_TAGS b =
     (if b = 0x6e then Some ''AP-REQ'' else if b = 0x60 then Some ''GSS-wrapped AP-REQ'' else None)"

definition KRB5_MECH_OID_DER :: bytes where
  "KRB5_MECH_OID_DER = [0x06, 0x09, 0x2a, 0x86, 0x48, 0x86, 0xf7, 0x12, 0x01, 0x02, 0x02]"

definition MAX_REQUEST_BYTES :: nat where "MAX_REQUEST_BYTES = 64 * 1024"

definition MIN_MESSAGE_BYTES :: nat where "MIN_MESSAGE_BYTES = 2"

definition REPLY_TAGS :: "byte \<Rightarrow> string option" where
  "REPLY_TAGS b =
     (if b = 0x6b then Some ''AS-REP'' else if b = 0x6d then Some ''TGS-REP''
      else if b = 0x6f then Some ''AP-REP'' else if b = 0x7e then Some ''KRB-ERROR'' else None)"

subsection \<open>Errors\<close>

text \<open>What \<open>assertKerberosRequest\<close> adds to its refusal: the payload belongs to the other endpoint,
  it looks like base64 text, or neither.\<close>

datatype kdc_hint = GoesToService string | LooksLikeText | NoHint

datatype frame_error =
    MessageTooShort nat
  | OuterIndefinite
  | OuterLengthField nat
  | OuterTruncated
  | MessageTooBig nat
  | LengthMismatch string nat nat nat
  | NoMessage
  | NotKdcRequest byte kdc_hint
  | NotServiceRequest byte "string option"
  | GssTooShort
  | NotKerberosMech bool bytes
  | WrongTokenId bytes
  | InnerNotApReq "byte option"
  | InnerMismatch nat nat
  | TopBitSet
  | ReplyTooShort nat
  | ReplyOverLimit nat nat

subsection \<open>The outermost element\<close>

record outer_tlv =
  o_tag :: byte
  o_length :: nat
  o_headerLength :: nat
  o_totalLength :: nat

definition outer_of :: "byte \<Rightarrow> nat \<Rightarrow> nat \<Rightarrow> outer_tlv" where
  "outer_of tg len hl = \<lparr>o_tag = tg, o_length = len, o_headerLength = hl, o_totalLength = hl + len\<rparr>"

definition readOuterTlv :: "bytes \<Rightarrow> frame_error + outer_tlv" where
  "readOuterTlv b =
     (if length b < MIN_MESSAGE_BYTES then Inl (MessageTooShort (length b))
      else if b ! 1 < 0x80 then Inr (outer_of (b ! 0) (unat (b ! 1)) 2)
      else if b ! 1 = 0x80 then Inl OuterIndefinite
      else
        (let count = unat (b ! 1 AND 0x7f)
         in if 4 < count then Inl (OuterLengthField count)
            else if length b < 2 + count then Inl OuterTruncated
            else Inr (outer_of (b ! 0) (be_nat (take count (drop 2 b))) (2 + count))))"

definition assertSizeAndLength :: "bytes \<Rightarrow> string \<Rightarrow> frame_error + outer_tlv" where
  "assertSizeAndLength b nm =
     (if MAX_REQUEST_BYTES < length b then Inl (MessageTooBig (length b))
      else rbind (readOuterTlv b) (\<lambda>outer.
        if o_totalLength outer \<noteq> length b
        then Inl (LengthMismatch nm (o_length outer) (o_totalLength outer) (length b))
        else Inr outer))"

subsection \<open>The two pre-flights\<close>

definition assertKerberosRequest :: "bytes \<Rightarrow> frame_error + string" where
  "assertKerberosRequest b =
     (if b = [] then Inl NoMessage
      else case KDC_REQUEST_TAGS (b ! 0) of
        None \<Rightarrow>
          Inl (NotKdcRequest (b ! 0)
            (case SERVICE_REQUEST_TAGS (b ! 0) of
               Some s \<Rightarrow> GoesToService s
             | None \<Rightarrow> if 0x30 \<le> b ! 0 \<and> b ! 0 \<le> 0x7a then LooksLikeText else NoHint))
      | Some nm \<Rightarrow> rbind (assertSizeAndLength b nm) (\<lambda>_. Inr nm))"

text \<open>The checks on what a GSS token wraps: \<open>v\<close> is the value of the outermost element.\<close>

definition checkGssWrapped :: "bytes \<Rightarrow> frame_error + unit" where
  "checkGssWrapped v =
     (let n = length KRB5_MECH_OID_DER; spnego = [0x06, 0x06, 0x2b, 0x06, 0x01, 0x05, 0x05, 0x02]
      in if length v < n + 2 then Inl GssTooShort
         else if take n v \<noteq> KRB5_MECH_OID_DER then
           Inl (NotKerberosMech (length spnego \<le> length v \<and> take (length spnego) v = spnego) (take 12 v))
         else
           (let rest = drop n v
            in if rest ! 0 \<noteq> 0x01 \<or> rest ! 1 \<noteq> 0x00 then Inl (WrongTokenId (take 2 rest))
               else
                 (let inner = drop 2 rest
                  in if inner = [] then Inl (InnerNotApReq None)
                     else if inner ! 0 \<noteq> 0x6e then Inl (InnerNotApReq (Some (inner ! 0)))
                     else rbind (readOuterTlv inner) (\<lambda>io.
                       if o_totalLength io \<noteq> length inner
                       then Inl (InnerMismatch (o_length io) (length inner))
                       else Inr ()))))"

definition assertServiceRequest :: "bytes \<Rightarrow> frame_error + string" where
  "assertServiceRequest b =
     (if b = [] then Inl NoMessage
      else case SERVICE_REQUEST_TAGS (b ! 0) of
        None \<Rightarrow> Inl (NotServiceRequest (b ! 0) (KDC_REQUEST_TAGS (b ! 0)))
      | Some nm \<Rightarrow>
          rbind (assertSizeAndLength b nm) (\<lambda>outer.
            if b ! 0 = 0x6e then Inr nm
            else rbind (checkGssWrapped (drop (o_headerLength outer) b)) (\<lambda>_. Inr nm)))"

subsection \<open>The length prefix\<close>

text \<open>\<open>writeUInt32BE\<close> throws on a length of \<open>2\<^sup>3\<^sup>2\<close> or more, which no buffer has; below that the
  prefix is the four octets of the length.\<close>

definition frameForTcp :: "bytes \<Rightarrow> bytes" where
  "frameForTcp b = be_fixed 4 (length b) @ b"

datatype tcp_read = Incomplete nat | Complete bytes nat

definition readTcpFrame :: "bytes \<Rightarrow> nat \<Rightarrow> frame_error + tcp_read" where
  "readTcpFrame buf maxBytes =
     (if length buf < 4 then Inr (Incomplete (4 - length buf))
      else
        (let declared = be_nat (take 4 buf)
         in if declared AND 0x80000000 \<noteq> 0 then Inl TopBitSet
            else if declared < MIN_MESSAGE_BYTES then Inl (ReplyTooShort declared)
            else if maxBytes < declared then Inl (ReplyOverLimit declared maxBytes)
            else if length buf < 4 + declared then Inr (Incomplete (4 + declared - length buf))
            else Inr (Complete (take declared (drop 4 buf)) (4 + declared))))"

text \<open>\<open>None\<close> is the source's \<open>null\<close>; an unrecognised first octet is reported with the octet.\<close>

datatype reply_name = Recognised string | Unrecognised byte

definition describeReply :: "bytes \<Rightarrow> reply_name option" where
  "describeReply b =
     (if b = [] then None
      else case REPLY_TAGS (b ! 0) of Some s \<Rightarrow> Some (Recognised s) | None \<Rightarrow> Some (Unrecognised (b ! 0)))"

subsection \<open>The hand-written reader and the codec\<close>

text \<open>The whole buffer is one element of the given tag and value, as the codec reads it.\<close>

definition whole_tlv :: "byte \<Rightarrow> bytes \<Rightarrow> bytes \<Rightarrow> bool" where
  "whole_tlv tg v b \<longleftrightarrow>
     (\<exists>t. readTlv b 0 0 = Inr t \<and> t_tag t = tg \<and> t_value t = v \<and> t_end t = length b)"

lemma outer_whole:
  assumes "readOuterTlv b = Inr o'" and "o_totalLength o' = length b"
  shows "whole_tlv (b ! 0) (drop (o_headerLength o') b) b"
  using assms
  by (auto simp: readOuterTlv_def whole_tlv_def readTlv_def finishTlv_def outer_of_def Let_def
      MIN_MESSAGE_BYTES_def not_less numeral_2_eq_2 split: if_splits)

lemma whole_outer:
  assumes "whole_tlv tg v b"
  shows "\<exists>o'. readOuterTlv b = Inr o' \<and> o_totalLength o' = length b \<and> b ! 0 = tg \<and>
     drop (o_headerLength o') b = v \<and> b \<noteq> []"
  using assms
  by (auto simp: readOuterTlv_def whole_tlv_def readTlv_def finishTlv_def outer_of_def Let_def
      MIN_MESSAGE_BYTES_def not_less numeral_2_eq_2 split: if_splits)

lemma assertSizeAndLength_iff:
  "assertSizeAndLength b nm = Inr o' \<longleftrightarrow>
     length b \<le> MAX_REQUEST_BYTES \<and> readOuterTlv b = Inr o' \<and> o_totalLength o' = length b"
  by (auto simp: assertSizeAndLength_def rbind_eq_Inr split: if_splits)

lemma outer_accepts_iff:
  "(\<exists>o'. readOuterTlv b = Inr o' \<and> o_totalLength o' = length b \<and> P (drop (o_headerLength o') b)) \<longleftrightarrow>
     (\<exists>v. whole_tlv (b ! 0) v b \<and> P v)"
proof
  assume "\<exists>o'. readOuterTlv b = Inr o' \<and> o_totalLength o' = length b \<and> P (drop (o_headerLength o') b)"
  then show "\<exists>v. whole_tlv (b ! 0) v b \<and> P v" using outer_whole by blast
next
  assume "\<exists>v. whole_tlv (b ! 0) v b \<and> P v"
  then show "\<exists>o'. readOuterTlv b = Inr o' \<and> o_totalLength o' = length b \<and> P (drop (o_headerLength o') b)"
    using whole_outer by blast
qed

lemma whole_tlv_tag: "whole_tlv tg v b \<Longrightarrow> b \<noteq> [] \<and> b ! 0 = tg"
  using whole_outer by blast

lemma kdc_accepts_tag:
  "assertKerberosRequest b = Inr nm \<longleftrightarrow>
     length b \<le> MAX_REQUEST_BYTES \<and> (\<exists>v. whole_tlv (b ! 0) v b) \<and> KDC_REQUEST_TAGS (b ! 0) = Some nm"
  (is "_ \<longleftrightarrow> ?R")
proof (cases "b = []")
  case True
  then show ?thesis using whole_tlv_tag by (auto simp: assertKerberosRequest_def)
next
  case False
  then have "assertKerberosRequest b = Inr nm \<longleftrightarrow>
      KDC_REQUEST_TAGS (b ! 0) = Some nm \<and> (\<exists>o'. assertSizeAndLength b nm = Inr o')"
    by (auto simp: assertKerberosRequest_def rbind_eq_Inr split: option.split)
  also have "\<dots> \<longleftrightarrow> ?R"
    using outer_accepts_iff [of b "\<lambda>_. True"] by (auto simp: assertSizeAndLength_iff)
  finally show ?thesis .
qed

lemma kdc_accepts_iff:
  "assertKerberosRequest b = Inr nm \<longleftrightarrow>
     length b \<le> MAX_REQUEST_BYTES \<and>
     ((\<exists>v. whole_tlv 0x6a v b) \<and> nm = ''AS-REQ'' \<or> (\<exists>v. whole_tlv 0x6c v b) \<and> nm = ''TGS-REQ'')"
proof -
  have "KDC_REQUEST_TAGS (b ! 0) = Some nm \<longleftrightarrow>
      b ! 0 = 0x6a \<and> nm = ''AS-REQ'' \<or> b ! 0 = 0x6c \<and> nm = ''TGS-REQ''"
    by (auto simp: KDC_REQUEST_TAGS_def)
  then show ?thesis using whole_tlv_tag [of "0x6a" _ b] whole_tlv_tag [of "0x6c" _ b]
    unfolding kdc_accepts_tag by metis
qed

lemma checkGssWrapped_iff:
  "checkGssWrapped v = Inr () \<longleftrightarrow>
     (\<exists>inner w. v = KRB5_MECH_OID_DER @ [1, 0] @ inner \<and> whole_tlv 0x6e w inner)"
proof
  assume a: "checkGssWrapped v = Inr ()"
  let ?r = "drop (length KRB5_MECH_OID_DER) v"
  from a have len: "length KRB5_MECH_OID_DER + 2 \<le> length v" and pre: "take (length KRB5_MECH_OID_DER) v = KRB5_MECH_OID_DER"
    and id: "?r ! 0 = 1" "?r ! 1 = 0" and inner: "drop 2 ?r ! 0 = 0x6e"
    and io: "\<exists>o'. readOuterTlv (drop 2 ?r) = Inr o' \<and> o_totalLength o' = length (drop 2 ?r) \<and> True"
    by (auto simp: checkGssWrapped_def Let_def rbind_eq_Inr split: if_splits)
  from len have "?r = [?r ! 0, ?r ! 1] @ drop 2 ?r"
    by (cases "?r"; cases "tl ?r") (auto dest!: arg_cong [of "drop _ v" _ length])
  moreover from pre have "v = KRB5_MECH_OID_DER @ ?r" by (metis append_take_drop_id)
  moreover from io inner obtain w where "whole_tlv 0x6e w (drop 2 ?r)"
    using outer_accepts_iff [of "drop 2 ?r" "\<lambda>_. True"] by metis
  ultimately show "\<exists>inner w. v = KRB5_MECH_OID_DER @ [1, 0] @ inner \<and> whole_tlv 0x6e w inner"
    using id by (metis)
next
  assume "\<exists>inner w. v = KRB5_MECH_OID_DER @ [1, 0] @ inner \<and> whole_tlv 0x6e w inner"
  then obtain inner w where v: "v = KRB5_MECH_OID_DER @ [1, 0] @ inner" and w: "whole_tlv 0x6e w inner" by blast
  from whole_outer [OF w] v show "checkGssWrapped v = Inr ()"
    by (auto simp: checkGssWrapped_def Let_def)
qed

lemma service_accepts_iff:
  "assertServiceRequest b = Inr nm \<longleftrightarrow>
     length b \<le> MAX_REQUEST_BYTES \<and>
     ((\<exists>v. whole_tlv 0x6e v b) \<and> nm = ''AP-REQ'' \<or>
      (\<exists>inner w. whole_tlv 0x60 (KRB5_MECH_OID_DER @ [1, 0] @ inner) b \<and> whole_tlv 0x6e w inner) \<and>
         nm = ''GSS-wrapped AP-REQ'')"
proof -
  note tags = whole_tlv_tag [of "0x6e" _ b] whole_tlv_tag [of "0x60" _ b]
  consider (bare) "b \<noteq> []" "b ! 0 = 0x6e" | (gss) "b \<noteq> []" "b ! 0 = 0x60"
    | (other) "b = [] \<or> b ! 0 \<noteq> 0x6e \<and> b ! 0 \<noteq> 0x60" by blast
  then show ?thesis
  proof cases
    case bare
    then have "assertServiceRequest b = Inr nm \<longleftrightarrow>
        nm = ''AP-REQ'' \<and> (\<exists>o'. assertSizeAndLength b nm = Inr o')"
      by (auto simp: assertServiceRequest_def SERVICE_REQUEST_TAGS_def rbind_eq_Inr)
    also have "\<dots> \<longleftrightarrow> nm = ''AP-REQ'' \<and> length b \<le> MAX_REQUEST_BYTES \<and> (\<exists>v. whole_tlv 0x6e v b)"
      using outer_accepts_iff [of b "\<lambda>_. True"] bare by (auto simp: assertSizeAndLength_iff)
    finally have acc: "assertServiceRequest b = Inr nm \<longleftrightarrow>
        nm = ''AP-REQ'' \<and> length b \<le> MAX_REQUEST_BYTES \<and> (\<exists>v. whole_tlv 0x6e v b)" .
    have "\<not> whole_tlv 0x60 v b" for v using bare tags(2) [of v] by auto
    then show ?thesis unfolding acc by auto
  next
    case gss
    then have "assertServiceRequest b = Inr nm \<longleftrightarrow> nm = ''GSS-wrapped AP-REQ'' \<and>
        (\<exists>o'. assertSizeAndLength b nm = Inr o' \<and> checkGssWrapped (drop (o_headerLength o') b) = Inr ())"
      by (auto simp: assertServiceRequest_def SERVICE_REQUEST_TAGS_def rbind_eq_Inr)
    also have "\<dots> \<longleftrightarrow> nm = ''GSS-wrapped AP-REQ'' \<and> length b \<le> MAX_REQUEST_BYTES \<and>
        (\<exists>v. whole_tlv 0x60 v b \<and> checkGssWrapped v = Inr ())"
      using outer_accepts_iff [of b "\<lambda>v. checkGssWrapped v = Inr ()"] gss
      by (auto simp: assertSizeAndLength_iff)
    finally have acc: "assertServiceRequest b = Inr nm \<longleftrightarrow> nm = ''GSS-wrapped AP-REQ'' \<and>
        length b \<le> MAX_REQUEST_BYTES \<and> (\<exists>v. whole_tlv 0x60 v b \<and> checkGssWrapped v = Inr ())" .
    have "\<not> whole_tlv 0x6e v b" for v using gss tags(1) [of v] by auto
    then show ?thesis unfolding acc checkGssWrapped_iff by auto
  next
    case other
    then have "assertServiceRequest b \<noteq> Inr nm"
      by (auto simp: assertServiceRequest_def SERVICE_REQUEST_TAGS_def)
    with other tags show ?thesis by blast
  qed
qed

lemma nat_and_2_31: "(n :: nat) < 2 ^ 32 \<Longrightarrow> n AND 0x80000000 = n div 2 ^ 31 * 2 ^ 31"
  using and_field_nat [of n 31 1] by (simp add: push_bit_eq_mult mask_eq_exp_minus_1 div_nat_eqI)

lemma length_prefix_less: "be_nat (take 4 b) < 2 ^ 32"
  using be_nat_less [of "take 4 b"] power_increasing [of "length (take 4 b)" 4 "256 :: nat"] by simp

lemma readTcpFrame_prefix:
  assumes "MIN_MESSAGE_BYTES \<le> length m" and "length m \<le> maxBytes" and "length m < 2 ^ 31"
  shows "readTcpFrame (take k (frameForTcp m @ extra)) maxBytes =
    Inr (if k < 4 + length m then Incomplete (if k < 4 then 4 - k else 4 + length m - k)
         else Complete m (4 + length m))"
proof (cases "k < 4")
  case True
  then show ?thesis by (simp add: readTcpFrame_def frameForTcp_def)
next
  case False
  define b where "b = take k (frameForTcp m @ extra)"
  have pre: "take 4 b = be_fixed 4 (length m)" using False
    by (simp add: b_def frameForTcp_def min_def)
  have low: "be_nat (be_fixed 4 (length m)) = length m" using assms(3) by simp
  have hi: "length m AND 0x80000000 = (0 :: nat)" using assms(3) nat_and_2_31 [of "length m"] by simp
  have body: "4 + length m \<le> k \<Longrightarrow> take (length m) (drop 4 b) = m"
    by (simp add: b_def frameForTcp_def drop_take)
  have len: "length b = min k (4 + length m + length extra)" by (simp add: b_def frameForTcp_def)
  have "readTcpFrame b maxBytes = Inr (if k < 4 + length m then Incomplete (4 + length m - k)
         else Complete m (4 + length m))"
  proof (cases "k < 4 + length m")
    case True
    with len have "length b = k" by simp
    with True False assms show ?thesis
      by (simp add: readTcpFrame_def pre low hi del: be_nat_be_fixed)
  next
    case nk: False
    with len have "4 + length m \<le> length b" by simp
    with nk assms body show ?thesis
      by (simp add: readTcpFrame_def pre low hi del: be_nat_be_fixed)
  qed
  with False show ?thesis by (simp add: b_def)
qed

subsection \<open>Properties\<close>

text \<open>C3: the pre-flight of the KDC relay accepts exactly the payloads of at most 64 KiB that are, by the
  codec's own reader, one DER element tagged AS-REQ or TGS-REQ and nothing more.\<close>

theorem kdc_preflight_exact:
  "assertKerberosRequest b = Inr nm \<longleftrightarrow>
     length b \<le> MAX_REQUEST_BYTES \<and>
     ((\<exists>v. whole_tlv 0x6a v b) \<and> nm = ''AS-REQ'' \<or> (\<exists>v. whole_tlv 0x6c v b) \<and> nm = ''TGS-REQ'')"
  by (rule kdc_accepts_iff)

text \<open>The pre-flight of the service relay accepts exactly a bare AP-REQ that accounts for every byte, or
  a GSS token whose value is the Kerberos mechanism, the token id 01 00 and one AP-REQ that accounts for
  every remaining byte.\<close>

theorem service_preflight_exact:
  "assertServiceRequest b = Inr nm \<longleftrightarrow>
     length b \<le> MAX_REQUEST_BYTES \<and>
     ((\<exists>v. whole_tlv 0x6e v b) \<and> nm = ''AP-REQ'' \<or>
      (\<exists>inner w. whole_tlv 0x60 (KRB5_MECH_OID_DER @ [1, 0] @ inner) b \<and> whole_tlv 0x6e w inner) \<and>
         nm = ''GSS-wrapped AP-REQ'')"
  by (rule service_accepts_iff)

text \<open>However much of a framed message has arrived, the framing reader either asks for more (never
  for more than is missing) or delivers exactly the message, whatever follows it in the stream.\<close>

theorem tcp_frame_stream:
  assumes "MIN_MESSAGE_BYTES \<le> length m" and "length m \<le> maxBytes" and "length m < 2 ^ 31"
  shows "readTcpFrame (take k (frameForTcp m @ extra)) maxBytes =
    Inr (if k < 4 + length m then Incomplete (if k < 4 then 4 - k else 4 + length m - k)
         else Complete m (4 + length m))"
  using assms by (rule readTcpFrame_prefix)

lemma tcp_frame_stream_witness:
  "readTcpFrame (take 5 (frameForTcp [0x6b, 0, 7] @ [1, 2])) 3 =
    Inr (if (5 :: nat) < 4 + length [0x6b :: byte, 0, 7]
         then Incomplete (if (5 :: nat) < 4 then 4 - 5 else 4 + length [0x6b :: byte, 0, 7] - 5)
         else Complete [0x6b, 0, 7] (4 + length [0x6b :: byte, 0, 7]))"
  by (rule tcp_frame_stream) (simp_all add: MIN_MESSAGE_BYTES_def)

end
