(* ===== verification/Krb5_Relay.thy ===== *)
theory Krb5_Relay
  imports Ssrf_Guard Krb5_Frame
begin

text \<open>
  The relay that sends a Kerberos message on behalf of a caller (\<open>api/krb5_relay.js\<close>).

  A call goes through the pre-flight of \<open>Krb5_Frame\<close>, the port lists, the resolution of the host under the
  address policy of \<open>Ssrf_Guard\<close> and one TCP or UDP exchange.  The three parts that wait for the outside are
  state machines: their events are the callbacks the source registers, their handlers are
  functions on a record of the variables the callbacks share, and which events can still happen is
  a step relation.  Every machine settles at most once and always has a deadline armed until it
  does: the locales \<open>one_shot\<close> and \<open>deadline_shot\<close> state that contract once for all three.
\<close>

subsection \<open>Contracts\<close>

locale one_shot =
  fixes step :: "'s \<Rightarrow> 'e \<Rightarrow> 's"
    and result_of :: "'s \<Rightarrow> 'r option"
  assumes keeps_result: "result_of s = Some r \<Longrightarrow> result_of (step s e) = Some r"
begin

definition run :: "'s \<Rightarrow> 'e list \<Rightarrow> 's" where
  "run s es = foldl step s es"

lemma run_simps [simp]: "run s [] = s" "run s (e # es) = run (step s e) es"
  by (simp_all add: run_def)

lemma run_append: "run s (es @ fs) = run (run s es) fs"
  by (simp add: run_def)

lemma run_keeps: "result_of s = Some r \<Longrightarrow> result_of (run s es) = Some r"
  by (induction es arbitrary: s) (simp_all add: keeps_result)

lemma settled_once: "result_of (run s es) = Some r \<Longrightarrow> result_of (run s (es @ fs)) = Some r"
  by (simp add: run_append run_keeps)

lemma outcome_final: "result_of (run s es) \<noteq> None \<longrightarrow> result_of (run s (es @ fs)) = result_of (run s es)"
  using settled_once [of s es _ fs] by auto

end

locale deadline_shot = one_shot step result_of
  for step :: "'s \<Rightarrow> 'e \<Rightarrow> 's" and result_of :: "'s \<Rightarrow> 'r option" +
  fixes armed :: "'s \<Rightarrow> bool"
    and deadline :: 'e
  assumes stays_armed: "armed s \<Longrightarrow> result_of (step s e) = None \<Longrightarrow> armed (step s e)"
    and deadline_settles: "armed s \<Longrightarrow> result_of (step s deadline) \<noteq> None"
begin

lemma run_armed: "armed s \<Longrightarrow> result_of (run s es) = None \<Longrightarrow> armed (run s es)"
proof (induction es arbitrary: s)
  case (Cons e es)
  then have "result_of (step s e) = None" using run_keeps [of "step s e" _ es] by (cases "result_of (step s e)") auto
  with Cons show ?case by (simp add: stays_armed)
qed simp

lemma always_settles: "armed s \<Longrightarrow> result_of (run s (es @ [deadline])) \<noteq> None"
proof (cases "result_of (run s es)")
  case None
  assume "armed s"
  from deadline_settles [OF run_armed [OF this None]] show ?thesis by (simp add: run_append)
next
  case (Some r)
  then show ?thesis using settled_once by simp
qed

end

text \<open>A framing: a writer of framed messages and a reader that is asked again whenever more of the stream
  has arrived.  The reader wants more on every proper prefix of a frame and delivers on the whole frame; then
  how the stream was cut does not matter.\<close>

locale stream_framing =
  fixes frame :: "bytes \<Rightarrow> bytes"
    and read :: "bytes \<Rightarrow> 'e + bytes option"
    and acceptable :: "bytes \<Rightarrow> bool"
  assumes frame_nonempty: "acceptable m \<Longrightarrow> frame m \<noteq> []"
    and read_prefix: "acceptable m \<Longrightarrow> frame m = p @ q \<Longrightarrow> q \<noteq> [] \<Longrightarrow> read p = Inr None"
    and read_whole: "acceptable m \<Longrightarrow> read (frame m) = Inr (Some m)"
begin

fun receive :: "bytes \<Rightarrow> bytes list \<Rightarrow> 'e + bytes option" where
  "receive buf [] = Inr None"
| "receive buf (c # cs) =
     (case read (buf @ c) of
        Inr None \<Rightarrow> receive (buf @ c) cs
      | outcome \<Rightarrow> outcome)"

lemma receive_any_cut:
  "acceptable m \<Longrightarrow> buf @ concat cs = frame m \<Longrightarrow> concat cs \<noteq> [] \<Longrightarrow> receive buf cs = Inr (Some m)"
proof (induction cs arbitrary: buf)
  case (Cons c cs)
  show ?case
  proof (cases "concat cs = []")
    case True
    with Cons.prems have "buf @ c = frame m" by simp
    with Cons.prems(1) read_whole show ?thesis by simp
  next
    case False
    with Cons.prems read_prefix [of m "buf @ c" "concat cs"] have "read (buf @ c) = Inr None" by simp
    with Cons False show ?thesis by simp
  qed
qed simp

end

subsection \<open>Ports\<close>

datatype port_entry = PortNumber js_number | PortText string

text \<open>A configured list of ports: absent, the word \<open>any\<close>, some other value that is no array, or an array.\<close>

datatype port_setting = PortsUnset | PortsAny | PortsOther | PortsArray "port_entry list"

definition DEFAULT_ALLOWED_PORTS :: "int list" where "DEFAULT_ALLOWED_PORTS = [88, 464, 749]"

definition DEFAULT_SERVICE_PORTS :: "int list" where "DEFAULT_SERVICE_PORTS = []"

definition port_of :: "port_entry \<Rightarrow> int option" where
  "port_of e =
     (case e of
        PortNumber (Whole n) \<Rightarrow> Some n
      | PortNumber NotWhole \<Rightarrow> None
      | PortText s \<Rightarrow> parseInt10 s)"

fun ports_loop :: "port_entry list \<Rightarrow> int list \<Rightarrow> int list" where
  "ports_loop [] ports = ports"
| "ports_loop (e # es) ports =
     (case port_of e of
        None \<Rightarrow> ports_loop es ports
      | Some p \<Rightarrow>
          if p < 1 \<or> 65535 < p then ports_loop es ports
          else ports_loop es (if p \<in> set ports then ports else ports @ [p]))"

definition resolveAllowedPorts :: "port_setting \<Rightarrow> int list" where
  "resolveAllowedPorts v =
     (case v of PortsArray es \<Rightarrow> ports_loop es [] | _ \<Rightarrow> DEFAULT_ALLOWED_PORTS)"

subsection \<open>The relay and its refusals\<close>

record relay =
  r_allowedPorts :: "int list"
  r_serviceAnyPort :: bool
  r_servicePorts :: "int list"
  r_maxReplyBytes :: nat
  r_addressPolicyEnabled :: bool
  r_guard :: guard

text \<open>\<open>maxContentLength\<close> is a positive number or the default applies; a fraction bounds lengths as its
  floor does.  The two timeouts decide when the deadline events happen, not what they do.\<close>

definition createRelay :: "port_setting \<Rightarrow> port_setting \<Rightarrow> nat option \<Rightarrow> guard option \<Rightarrow> relay" where
  "createRelay kdc_ports service_ports max_content g =
     \<lparr>r_allowedPorts = resolveAllowedPorts kdc_ports,
      r_serviceAnyPort = (service_ports = PortsAny),
      r_servicePorts =
        (if service_ports = PortsAny then []
         else if service_ports = PortsUnset then DEFAULT_SERVICE_PORTS
         else resolveAllowedPorts service_ports),
      r_maxReplyBytes = (case max_content of Some n \<Rightarrow> if 0 < n then n else 1048576 | None \<Rightarrow> 1048576),
      r_addressPolicyEnabled = (case g of Some gd \<Rightarrow> g_enabled gd | None \<Rightarrow> False),
      r_guard = (case g of Some gd \<Rightarrow> gd
        | None \<Rightarrow> \<lparr>g_enabled = False, g_allowListMode = False, g_allowedRanges = [], g_ranges = []\<rparr>)\<rparr>"

datatype purpose = KdcPurpose | ServicePurpose

datatype relay_error =
    NoHost
  | NoPort
  | NotKerberos frame_error
  | ServiceNotEnabled
  | PortNotAllowed int
  | RefusedAddress string string
  | DnsTimeout string
  | DnsFailure string string
  | NoAddressInAnswer
  | ConnectTimeout
  | CallTimeout
  | ReplyTooBig
  | BadFrame frame_error
  | SocketFailure string
  | ShortReply nat

definition assertPortAllowed :: "relay \<Rightarrow> int \<Rightarrow> purpose \<Rightarrow> relay_error + unit" where
  "assertPortAllowed r port purp =
     (if purp = ServicePurpose then
        (if r_serviceAnyPort r then Inr ()
         else if r_servicePorts r = [] then Inl ServiceNotEnabled
         else if port \<notin> set (r_servicePorts r) then Inl (PortNotAllowed port)
         else Inr ())
      else if port \<notin> set (r_allowedPorts r) then Inl (PortNotAllowed port)
      else Inr ())"

subsection \<open>Resolution\<close>

record target =
  tg_address :: string
  tg_family :: nat
  tg_wasLiteral :: bool

text \<open>The state of the promise: \<open>None\<close> while it is pending.\<close>

type_synonym resolution = "(relay_error + target) option"

datatype resolve_event = LookupAnswers dns_answer | ResolveDeadline

definition relay_verdict :: "relay \<Rightarrow> string \<Rightarrow> string option" where
  "relay_verdict r ip = (if r_addressPolicyEnabled r then blockedRangeFor (r_guard r) ip else None)"

definition resolve_start :: "relay \<Rightarrow> string \<Rightarrow> resolution" where
  "resolve_start r host =
     (if isIP host \<noteq> 0 then
        Some (case first_blocked (relay_verdict r) [(host, isIP host)] of
                Some (ip, t) \<Rightarrow> Inl (RefusedAddress ip t)
              | None \<Rightarrow> Inr \<lparr>tg_address = host, tg_family = isIP host, tg_wasLiteral = True\<rparr>)
      else None)"

text \<open>Node's \<open>dns.lookup\<close> reports an error rather than an empty answer; the source would throw in the
  callback on one, which \<open>NoAddressInAnswer\<close> stands for.\<close>

definition on_answer :: "relay \<Rightarrow> string \<Rightarrow> dns_answer \<Rightarrow> relay_error + target" where
  "on_answer r host answer =
     (case answer of
        Inl err \<Rightarrow> Inl (DnsFailure host err)
      | Inr addrs \<Rightarrow>
          (case first_blocked (relay_verdict r) addrs of
             Some (ip, t) \<Rightarrow> Inl (RefusedAddress ip t)
           | None \<Rightarrow>
               (case addrs of
                  [] \<Rightarrow> Inl NoAddressInAnswer
                | (ip, family) # _ \<Rightarrow> Inr \<lparr>tg_address = ip, tg_family = family, tg_wasLiteral = False\<rparr>)))"

definition resolve_step :: "relay \<Rightarrow> string \<Rightarrow> resolution \<Rightarrow> resolve_event \<Rightarrow> resolution" where
  "resolve_step r host s e =
     (case s of
        Some outcome \<Rightarrow> Some outcome
      | None \<Rightarrow>
          Some (case e of
                  ResolveDeadline \<Rightarrow> Inl (DnsTimeout host)
                | LookupAnswers answer \<Rightarrow> on_answer r host answer))"

definition resolveAllowedAddress :: "relay \<Rightarrow> string \<Rightarrow> resolve_event list \<Rightarrow> resolution" where
  "resolveAllowedAddress r host es = foldl (resolve_step r host) (resolve_start r host) es"

subsection \<open>The TCP exchange\<close>

record tcp_call =
  tc_settled :: "(relay_error + bytes) option"
  tc_buffer :: bytes
  tc_connectTimer :: bool
  tc_callTimer :: bool
  tc_written :: bytes

datatype tcp_event =
    Connected
  | Arrived bytes
  | SocketError string
  | PeerEnded
  | ConnectTimerFires
  | CallTimerFires

definition tcp_start :: tcp_call where
  "tcp_start = \<lparr>tc_settled = None, tc_buffer = [], tc_connectTimer = True, tc_callTimer = True, tc_written = []\<rparr>"

definition tcp_finish :: "relay_error + bytes \<Rightarrow> tcp_call \<Rightarrow> tcp_call" where
  "tcp_finish outcome s =
     (if tc_settled s \<noteq> None then s
      else s\<lparr>tc_settled := Some outcome, tc_connectTimer := False, tc_callTimer := False\<rparr>)"

text \<open>What the handler of \<open>data\<close> makes of the buffer: nothing yet, a refusal or the message.\<close>

definition read_reply :: "nat \<Rightarrow> bytes \<Rightarrow> relay_error + bytes option" where
  "read_reply lim buf =
     (if lim + 4 < length buf then Inl ReplyTooBig
      else case readTcpFrame buf lim of
        Inl e \<Rightarrow> Inl (BadFrame e)
      | Inr (Complete m n) \<Rightarrow> Inr (Some m)
      | Inr (Incomplete n) \<Rightarrow> Inr None)"

definition on_data :: "nat \<Rightarrow> bytes \<Rightarrow> tcp_call \<Rightarrow> tcp_call" where
  "on_data lim chunk s0 =
     (let s = s0\<lparr>tc_buffer := tc_buffer s0 @ chunk\<rparr>
      in case read_reply lim (tc_buffer s) of
           Inl e \<Rightarrow> tcp_finish (Inl e) s
         | Inr (Some m) \<Rightarrow> tcp_finish (Inr m) s
         | Inr None \<Rightarrow> s)"

definition tcp_handle :: "nat \<Rightarrow> bytes \<Rightarrow> tcp_call \<Rightarrow> tcp_event \<Rightarrow> tcp_call" where
  "tcp_handle lim payload s e =
     (case e of
        Connected \<Rightarrow> s\<lparr>tc_connectTimer := False, tc_written := tc_written s @ frameForTcp payload\<rparr>
      | Arrived chunk \<Rightarrow> on_data lim chunk s
      | SocketError err \<Rightarrow> tcp_finish (Inl (SocketFailure err)) s
      | PeerEnded \<Rightarrow> tcp_finish (Inl (ShortReply (length (tc_buffer s)))) s
      | ConnectTimerFires \<Rightarrow> tcp_finish (Inl ConnectTimeout) s
      | CallTimerFires \<Rightarrow> tcp_finish (Inl CallTimeout) s)"

definition sendOverTcp :: "nat \<Rightarrow> bytes \<Rightarrow> tcp_event list \<Rightarrow> tcp_call" where
  "sendOverTcp lim payload es = foldl (tcp_handle lim payload) tcp_start es"

text \<open>Which events can still happen: a cleared timer does not fire, the socket connects once and carries data
  only when connected, and is destroyed once the call has settled.\<close>

inductive tcp_step :: "nat \<Rightarrow> bytes \<Rightarrow> tcp_call \<Rightarrow> tcp_call \<Rightarrow> bool" for lim payload where
  connects: "tc_settled s = None \<Longrightarrow> tc_written s = [] \<Longrightarrow> tcp_step lim payload s (tcp_handle lim payload s Connected)"
| receives: "tc_settled s = None \<Longrightarrow> tc_written s \<noteq> [] \<Longrightarrow>
    tcp_step lim payload s (tcp_handle lim payload s (Arrived chunk))"
| fails: "tc_settled s = None \<Longrightarrow> tcp_step lim payload s (tcp_handle lim payload s (SocketError err))"
| ends: "tc_settled s = None \<Longrightarrow> tc_written s \<noteq> [] \<Longrightarrow> tcp_step lim payload s (tcp_handle lim payload s PeerEnded)"
| connect_timeout: "tc_connectTimer s \<Longrightarrow> tcp_step lim payload s (tcp_handle lim payload s ConnectTimerFires)"
| call_timeout: "tc_callTimer s \<Longrightarrow> tcp_step lim payload s (tcp_handle lim payload s CallTimerFires)"

inductive tcp_reachable :: "nat \<Rightarrow> bytes \<Rightarrow> tcp_call \<Rightarrow> bool" for lim payload where
  start: "tcp_reachable lim payload tcp_start"
| step: "tcp_reachable lim payload s \<Longrightarrow> tcp_step lim payload s s' \<Longrightarrow> tcp_reachable lim payload s'"

inductive_cases tcp_stepE: "tcp_step lim payload s s'"

subsection \<open>The UDP exchange\<close>

datatype udp_event = Datagram bytes | UdpError string | SendFails string | UdpTimerFires

type_synonym udp_call = "(relay_error + bytes) option"

definition udp_handle :: "nat \<Rightarrow> udp_call \<Rightarrow> udp_event \<Rightarrow> udp_call" where
  "udp_handle lim s e =
     (if s \<noteq> None then s
      else Some (case e of
             Datagram msg \<Rightarrow> if lim < length msg then Inl ReplyTooBig else Inr msg
           | UdpError err \<Rightarrow> Inl (SocketFailure err)
           | SendFails err \<Rightarrow> Inl (SocketFailure err)
           | UdpTimerFires \<Rightarrow> Inl CallTimeout))"

definition sendOverUdp :: "nat \<Rightarrow> udp_event list \<Rightarrow> udp_call" where
  "sendOverUdp lim es = foldl (udp_handle lim) None es"

subsection \<open>The whole call\<close>

record call_options =
  c_host :: string
  c_port :: port_entry
  c_transport_udp :: bool
  c_message :: bytes
  c_purpose :: purpose

definition preflight :: "purpose \<Rightarrow> bytes \<Rightarrow> relay_error + string" where
  "preflight purp payload =
     (case if purp = ServicePurpose then assertServiceRequest payload else assertKerberosRequest payload of
        Inl e \<Rightarrow> Inl (NotKerberos e)
      | Inr nm \<Rightarrow> Inr nm)"

text \<open>Everything before the name is resolved: the trimmed host, the port and the name of the message.\<close>

definition send_checks :: "relay \<Rightarrow> call_options \<Rightarrow> relay_error + string \<times> int \<times> string" where
  "send_checks r opts =
     (let host = trim (c_host opts)
      in if host = [] then Inl NoHost
         else case port_of (c_port opts) of
           None \<Rightarrow> Inl NoPort
         | Some port \<Rightarrow>
             rbind (preflight (c_purpose opts) (c_message opts)) (\<lambda>nm.
               rbind (assertPortAllowed r port (c_purpose opts)) (\<lambda>_. Inr (host, port, nm))))"

record connection =
  k_address :: string
  k_family :: nat
  k_port :: int
  k_payload :: bytes

text \<open>The connection the call opens, if it gets that far: the socket goes to the address that was checked.\<close>

definition send_connects :: "relay \<Rightarrow> call_options \<Rightarrow> resolve_event list \<Rightarrow> connection option" where
  "send_connects r opts es =
     (case send_checks r opts of
        Inl _ \<Rightarrow> None
      | Inr (host, port, nm) \<Rightarrow>
          (case resolveAllowedAddress r host es of
             Some (Inr tg) \<Rightarrow>
               Some \<lparr>k_address = tg_address tg, k_family = tg_family tg, k_port = port, k_payload = c_message opts\<rparr>
           | _ \<Rightarrow> None))"

record reply =
  y_request :: string
  y_reply :: bytes
  y_replyMessage :: "reply_name option"
  y_address :: string
  y_resolved :: bool

text \<open>What the caller is told after the events so far; \<open>None\<close> while the promise is pending.\<close>

definition relay_send :: "relay \<Rightarrow> call_options \<Rightarrow> resolve_event list \<Rightarrow> tcp_event list \<Rightarrow> udp_event list \<Rightarrow> (relay_error + reply) option" where
  "relay_send r opts es ts us =
     (case send_checks r opts of
        Inl e \<Rightarrow> Some (Inl e)
      | Inr (host, port, nm) \<Rightarrow>
          (case resolveAllowedAddress r host es of
             None \<Rightarrow> None
           | Some (Inl e) \<Rightarrow> Some (Inl e)
           | Some (Inr tg) \<Rightarrow>
               (case (if c_transport_udp opts then sendOverUdp (r_maxReplyBytes r) us
                      else tc_settled (sendOverTcp (r_maxReplyBytes r) (c_message opts) ts)) of
                  None \<Rightarrow> None
                | Some (Inl e) \<Rightarrow> Some (Inl e)
                | Some (Inr m) \<Rightarrow>
                    Some (Inr \<lparr>y_request = nm, y_reply = m, y_replyMessage = describeReply m,
                               y_address = tg_address tg, y_resolved = (\<not> tg_wasLiteral tg)\<rparr>))))"

subsection \<open>What the readers deliver\<close>

lemma outcome_cases:
  obtains (err) e where "r = Inl e" | (msg) m where "r = Inr (Some m)" | (more) "r = Inr None"
  by (metis option.exhaust sum.exhaust)

lemma frameForTcp_nonempty [simp]: "frameForTcp b \<noteq> []"
  using length_be_fixed [of 4 "length b"] by (auto simp: frameForTcp_def simp del: length_be_fixed)

lemma readTcpFrame_CompleteD:
  assumes "readTcpFrame buf lim = Inr (Complete m n)"
  shows "\<exists>rest. buf = frameForTcp m @ rest" and "n = 4 + length m" and "MIN_MESSAGE_BYTES \<le> length m"
    and "length m \<le> lim"
proof -
  let ?d = "be_nat (take 4 buf)"
  from assms have len: "4 + ?d \<le> length buf" and m: "m = take ?d (drop 4 buf)" and n: "n = 4 + ?d"
    and d: "MIN_MESSAGE_BYTES \<le> ?d" "?d \<le> lim"
    by (auto simp: readTcpFrame_def Let_def not_less split: if_splits)
  then have lm: "length m = ?d" by simp
  have "be_fixed 4 ?d = take 4 buf" using len be_fixed_be_nat [of "take 4 buf"] by simp
  then have "buf = frameForTcp m @ drop (4 + ?d) buf"
    unfolding frameForTcp_def lm by (simp add: m) (metis add.commute append_take_drop_id drop_drop)
  then show "\<exists>rest. buf = frameForTcp m @ rest" by blast
  show "n = 4 + length m" "MIN_MESSAGE_BYTES \<le> length m" "length m \<le> lim" using n lm d by simp_all
qed

lemma read_reply_SomeD:
  assumes "read_reply lim buf = Inr (Some m)"
  shows "\<exists>rest. buf = frameForTcp m @ rest" and "length m \<le> lim" and "2 \<le> length m"
  using assms readTcpFrame_CompleteD [of buf lim m]
  by (auto simp: read_reply_def MIN_MESSAGE_BYTES_def split: if_splits sum.splits tcp_read.splits)

lemma read_reply_NoneD: "read_reply lim buf = Inr None \<Longrightarrow> length buf \<le> lim + 4"
  by (auto simp: read_reply_def split: if_splits)

subsection \<open>Interpretations\<close>

definition relayable :: "nat \<Rightarrow> bytes \<Rightarrow> bool" where
  "relayable lim m \<longleftrightarrow> MIN_MESSAGE_BYTES \<le> length m \<and> length m \<le> lim \<and> length m < 2 ^ 31"

interpretation framing: stream_framing frameForTcp "read_reply lim" "relayable lim" for lim
proof
  fix m p q
  assume ok: "relayable lim m"
  show "frameForTcp m \<noteq> []" by simp
  show "read_reply lim (frameForTcp m) = Inr (Some m)"
    using ok readTcpFrame_prefix [of m lim "4 + length m" "[]"]
    by (simp add: relayable_def read_reply_def frameForTcp_def)
  assume p: "frameForTcp m = p @ q" and "q \<noteq> []"
  have "length p + length q = 4 + length m"
    using arg_cong [OF p, of length] by (simp add: frameForTcp_def)
  then have len: "length p < 4 + length m" using \<open>q \<noteq> []\<close> by (cases q) simp_all
  have "p = take (length p) (frameForTcp m @ [])" using p by simp
  with len ok readTcpFrame_prefix [of m lim "length p" "[]"]
  show "read_reply lim p = Inr None" by (simp add: relayable_def read_reply_def)
qed

interpretation tcp_exchange: deadline_shot "tcp_handle lim payload" tc_settled tc_callTimer CallTimerFires
  for lim payload
  by unfold_locales
    (auto simp: tcp_handle_def on_data_def tcp_finish_def Let_def
      split: tcp_event.splits sum.splits option.splits if_splits)

interpretation udp_exchange: deadline_shot "udp_handle lim" "\<lambda>s. s" "\<lambda>s. True" UdpTimerFires for lim
  by unfold_locales (auto simp: udp_handle_def)

interpretation resolution: deadline_shot "resolve_step r host" "\<lambda>s. s" "\<lambda>s. True" ResolveDeadline for r host
  by unfold_locales (auto simp: resolve_step_def split: option.split)

interpretation relay_policy: address_policy
  "relay_verdict (createRelay kdc_ports service_ports lim (Some (createGuard cfg)))"
  "\<lambda>ip. g_enabled (createGuard cfg) \<longrightarrow> permitted cfg ip" for kdc_ports service_ports lim cfg
  using guard_policy.verdict_None_iff guard_policy.verdict_text
  by unfold_locales (auto simp: relay_verdict_def createRelay_def)

subsection \<open>The stream\<close>

lemma tcp_receives:
  "tc_settled s = None \<Longrightarrow>
   tc_settled (tcp_exchange.run lim payload s (map Arrived cs)) =
     (case framing.receive lim (tc_buffer s) cs of
        Inl e \<Rightarrow> Some (Inl e) | Inr (Some m) \<Rightarrow> Some (Inr m) | Inr None \<Rightarrow> None)"
proof (induction cs arbitrary: s)
  case (Cons c cs)
  let ?s = "tcp_handle lim payload s (Arrived c)"
  show ?case
  proof (cases "read_reply lim (tc_buffer s @ c)" rule: outcome_cases)
    case (err e)
    with Cons.prems have "tc_settled ?s = Some (Inl e)"
      by (simp add: tcp_handle_def on_data_def tcp_finish_def)
    with err tcp_exchange.run_keeps show ?thesis by simp
  next
    case (msg m)
    with Cons.prems have "tc_settled ?s = Some (Inr m)"
      by (simp add: tcp_handle_def on_data_def tcp_finish_def)
    with msg tcp_exchange.run_keeps show ?thesis by simp
  next
    case more
    with Cons.prems have "tc_settled ?s = None" "tc_buffer ?s = tc_buffer s @ c"
      by (simp_all add: tcp_handle_def on_data_def)
    with Cons.IH [of ?s] more show ?thesis by simp
  qed
qed simp

lemma sendOverTcp_run: "sendOverTcp lim payload es = tcp_exchange.run lim payload tcp_start es"
  by (simp add: sendOverTcp_def tcp_exchange.run_def)

lemma tcp_any_cut:
  assumes "relayable lim m" and "concat cs = frameForTcp m"
  shows "tc_settled (sendOverTcp lim payload (Connected # map Arrived cs @ es)) = Some (Inr m)"
proof -
  let ?s = "tcp_handle lim payload tcp_start Connected"
  have s: "tc_settled ?s = None" "tc_buffer ?s = []" by (simp_all add: tcp_handle_def tcp_start_def)
  have "concat cs \<noteq> []" using assms framing.frame_nonempty by metis
  with assms framing.receive_any_cut [of lim m "[]" cs] tcp_receives [OF s(1), of lim payload cs] s(2)
  have "tc_settled (tcp_exchange.run lim payload ?s (map Arrived cs)) = Some (Inr m)" by simp
  then show ?thesis
    unfolding sendOverTcp_run tcp_exchange.run_simps by (rule tcp_exchange.settled_once)
qed

subsection \<open>The invariant of the exchange\<close>

definition tcp_inv :: "nat \<Rightarrow> bytes \<Rightarrow> tcp_call \<Rightarrow> bool" where
  "tcp_inv lim payload s \<longleftrightarrow>
     tc_written s \<in> {[], frameForTcp payload} \<and>
     (case tc_settled s of
        None \<Rightarrow> tc_callTimer s \<and> tc_connectTimer s = (tc_written s = []) \<and> length (tc_buffer s) \<le> lim + 4
      | Some outcome \<Rightarrow> \<not> tc_callTimer s \<and> \<not> tc_connectTimer s \<and>
          (\<forall>m. outcome = Inr m \<longrightarrow> tc_written s = frameForTcp payload \<and>
             length m \<le> lim \<and> 2 \<le> length m \<and> (\<exists>rest. tc_buffer s = frameForTcp m @ rest)))"

lemma tcp_inv_start: "tcp_inv lim payload tcp_start"
  by (simp add: tcp_inv_def tcp_start_def)

lemma tcp_inv_data:
  assumes "tcp_inv lim payload s" and "tc_settled s = None" and "tc_written s \<noteq> []"
  shows "tcp_inv lim payload (tcp_handle lim payload s (Arrived chunk))"
proof -
  have w: "tc_written s = frameForTcp payload" "\<not> tc_connectTimer s" using assms by (auto simp: tcp_inv_def)
  show ?thesis
  proof (cases "read_reply lim (tc_buffer s @ chunk)" rule: outcome_cases)
    case (err e)
    with assms w show ?thesis by (simp add: tcp_inv_def tcp_handle_def on_data_def tcp_finish_def)
  next
    case (msg m)
    with assms w read_reply_SomeD [OF msg] show ?thesis
      by (simp add: tcp_inv_def tcp_handle_def on_data_def tcp_finish_def)
  next
    case more
    with assms w read_reply_NoneD [OF more] show ?thesis
      by (simp add: tcp_inv_def tcp_handle_def on_data_def)
  qed
qed

lemma tcp_inv_finish_error:
  assumes "tcp_inv lim payload s" and "tc_settled s = None"
  shows "tcp_inv lim payload (tcp_finish (Inl e) s)"
  using assms by (auto simp: tcp_inv_def tcp_finish_def)

lemma tcp_inv_step:
  assumes "tcp_inv lim payload s" and "tcp_step lim payload s s'"
  shows "tcp_inv lim payload s'"
  using assms(2)
proof cases
  case connects
  with assms(1) show ?thesis by (auto simp: tcp_inv_def tcp_handle_def)
next
  case (receives chunk)
  with tcp_inv_data [OF assms(1)] show ?thesis by simp
next
  case connect_timeout
  with assms(1) have "tc_settled s = None" by (auto simp: tcp_inv_def split: option.splits)
  with connect_timeout tcp_inv_finish_error [OF assms(1)] show ?thesis by (simp add: tcp_handle_def)
next
  case call_timeout
  with assms(1) have "tc_settled s = None" by (auto simp: tcp_inv_def split: option.splits)
  with call_timeout tcp_inv_finish_error [OF assms(1)] show ?thesis by (simp add: tcp_handle_def)
qed (use tcp_inv_finish_error [OF assms(1)] in \<open>simp_all add: tcp_handle_def\<close>)

lemma tcp_reachable_inv: "tcp_reachable lim payload s \<Longrightarrow> tcp_inv lim payload s"
  by (induction rule: tcp_reachable.induct) (auto intro: tcp_inv_start tcp_inv_step)

subsection \<open>The whole call\<close>

lemma ports_loop_ok:
  "set ports \<subseteq> {1..65535} \<and> distinct ports \<Longrightarrow>
     set (ports_loop es ports) \<subseteq> {1..65535} \<and> distinct (ports_loop es ports)"
  by (induction es ports rule: ports_loop.induct) (auto split: option.splits)

lemma resolveAllowedPorts_ok:
  "set (resolveAllowedPorts v) \<subseteq> {1..65535} \<and> distinct (resolveAllowedPorts v)"
  using ports_loop_ok [of "[]"] by (auto simp: resolveAllowedPorts_def DEFAULT_ALLOWED_PORTS_def split: port_setting.split)

lemma resolution_result:
  assumes "resolveAllowedAddress r host es = Some (Inr tg)"
  shows "if isIP host \<noteq> 0 then tg_address tg = host \<and> relay_verdict r host \<in> {None, Some []}
     else \<exists>addrs. LookupAnswers (Inr addrs) \<in> set es \<and> addrs \<noteq> [] \<and>
       (tg_address tg, tg_family tg) = hd addrs \<and> first_blocked (relay_verdict r) addrs = None"
proof (cases "isIP host = 0")
  case False
  then have "resolve_start r host = Some (Inr tg)"
    using assms resolution.run_keeps [of "resolve_start r host" _ r host es]
    by (cases "resolve_start r host") (auto simp: resolveAllowedAddress_def resolution.run_def resolve_start_def)
  with False show ?thesis by (auto simp: resolve_start_def split: option.splits if_splits)
next
  case True
  then have start: "resolve_start r host = None" by (simp add: resolve_start_def)
  then obtain e es' where es: "es = e # es'"
    using assms by (cases es) (auto simp: resolveAllowedAddress_def)
  have "resolve_step r host None e = Some (Inr tg)"
    using assms resolution.run_keeps [of "resolve_step r host None e" _ r host es'] start
    by (cases "resolve_step r host None e")
      (auto simp: resolveAllowedAddress_def resolution.run_def es resolve_step_def)
  then obtain answer where "e = LookupAnswers answer" "on_answer r host answer = Inr tg"
    by (auto simp: resolve_step_def split: resolve_event.splits)
  with True es show ?thesis by (auto simp: on_answer_def split: sum.splits option.splits list.splits)
qed

lemma assertPortAllowed_ok:
  "assertPortAllowed r port purp = Inr () \<longleftrightarrow>
     (if purp = ServicePurpose then r_serviceAnyPort r \<or> port \<in> set (r_servicePorts r)
      else port \<in> set (r_allowedPorts r))"
  by (auto simp: assertPortAllowed_def split: if_splits)

lemma send_checks_ok:
  "send_checks r opts = Inr (host, port, nm) \<longleftrightarrow>
     host = trim (c_host opts) \<and> host \<noteq> [] \<and> port_of (c_port opts) = Some port \<and>
     preflight (c_purpose opts) (c_message opts) = Inr nm \<and>
     assertPortAllowed r port (c_purpose opts) = Inr ()"
  by (auto simp: send_checks_def Let_def rbind_eq_Inr split: option.split)

text \<open>What may leave the relay.\<close>

definition kerberos_payload :: "purpose \<Rightarrow> bytes \<Rightarrow> bool" where
  "kerberos_payload purp b \<longleftrightarrow> length b \<le> MAX_REQUEST_BYTES \<and>
     (if purp = ServicePurpose
      then (\<exists>v. whole_tlv 0x6e v b) \<or>
        (\<exists>inner w. whole_tlv 0x60 (KRB5_MECH_OID_DER @ [1, 0] @ inner) b \<and> whole_tlv 0x6e w inner)
      else \<exists>v. whole_tlv 0x6a v b \<or> whole_tlv 0x6c v b)"

lemma preflight_payload: "preflight purp b = Inr nm \<Longrightarrow> kerberos_payload purp b"
  by (cases purp) (auto simp: preflight_def kerberos_payload_def kdc_accepts_iff service_accepts_iff split: sum.splits)

definition port_allowed :: "port_setting \<Rightarrow> port_setting \<Rightarrow> purpose \<Rightarrow> int \<Rightarrow> bool" where
  "port_allowed kdc_ports service_ports purp port \<longleftrightarrow>
     (if purp = KdcPurpose then port \<in> set (resolveAllowedPorts kdc_ports)
      else service_ports = PortsAny \<or>
        service_ports \<noteq> PortsUnset \<and> port \<in> set (resolveAllowedPorts service_ports))"

lemma assertPortAllowed_createRelay:
  "assertPortAllowed (createRelay kdc_ports service_ports lim g) port purp = Inr () \<longleftrightarrow>
     port_allowed kdc_ports service_ports purp port"
  by (cases purp) (simp_all add: assertPortAllowed_ok createRelay_def port_allowed_def DEFAULT_SERVICE_PORTS_def)

lemma connects_checked:
  assumes "send_connects (createRelay kdc_ports service_ports lim (Some (createGuard cfg))) opts es = Some k"
  shows "kerberos_payload (c_purpose opts) (k_payload k)" and "k_payload k = c_message opts"
    and "port_allowed kdc_ports service_ports (c_purpose opts) (k_port k)"
    and "g_enabled (createGuard cfg) \<Longrightarrow> permitted cfg (k_address k)"
    and "if isIP (trim (c_host opts)) \<noteq> 0 then k_address k = trim (c_host opts)
      else \<exists>addrs. LookupAnswers (Inr addrs) \<in> set es \<and> k_address k \<in> fst ` set addrs"
proof -
  let ?r = "createRelay kdc_ports service_ports lim (Some (createGuard cfg))"
  from assms obtain host port nm tg where c: "send_checks ?r opts = Inr (host, port, nm)"
    and res: "resolveAllowedAddress ?r host es = Some (Inr tg)"
    and k: "k = \<lparr>k_address = tg_address tg, k_family = tg_family tg, k_port = port, k_payload = c_message opts\<rparr>"
    by (auto simp: send_connects_def split: sum.splits option.splits)
  from c have pre: "preflight (c_purpose opts) (c_message opts) = Inr nm"
    and port: "assertPortAllowed ?r port (c_purpose opts) = Inr ()" and host: "host = trim (c_host opts)"
    by (simp_all add: send_checks_ok)
  show "kerberos_payload (c_purpose opts) (k_payload k)" "k_payload k = c_message opts"
    using preflight_payload [OF pre] k by simp_all
  show "port_allowed kdc_ports service_ports (c_purpose opts) (k_port k)"
    using port k by (simp add: assertPortAllowed_createRelay)
  have verdict: "relay_verdict ?r ip \<in> {None, Some []} \<Longrightarrow> g_enabled (createGuard cfg) \<Longrightarrow> permitted cfg ip" for ip
    using relay_policy.verdict_None_iff [of kdc_ports service_ports lim cfg ip]
      relay_policy.verdict_text [of kdc_ports service_ports lim cfg ip] by auto
  note rr = resolution_result [OF res]
  show "g_enabled (createGuard cfg) \<Longrightarrow> permitted cfg (k_address k)"
  proof (cases "isIP host = 0")
    case False
    then show "g_enabled (createGuard cfg) \<Longrightarrow> permitted cfg (k_address k)" using rr k verdict by simp
  next
    case True
    with rr obtain addrs where "addrs \<noteq> []" "(tg_address tg, tg_family tg) = hd addrs"
      "first_blocked (relay_verdict ?r) addrs = None" by auto
    with relay_policy.first_blocked_None_iff [of kdc_ports service_ports lim cfg addrs]
    show "g_enabled (createGuard cfg) \<Longrightarrow> permitted cfg (k_address k)" using k
      by (cases addrs) auto
  qed
  show "if isIP (trim (c_host opts)) \<noteq> 0 then k_address k = trim (c_host opts)
      else \<exists>addrs. LookupAnswers (Inr addrs) \<in> set es \<and> k_address k \<in> fst ` set addrs"
    using rr k host by (cases "isIP host = 0") (auto, metis fst_conv image_eqI list.set_sel(1))
qed

subsection \<open>Properties\<close>

text \<open>C6: a call opens a connection only with a payload that is exactly one Kerberos request of the
  endpoint's kind, only to a port of the endpoint's list, and only to an address the policy permits: the host itself when it is
  an address literal, and otherwise one of the addresses that the lookup of the name answered, never the name.\<close>

theorem relay_connects_only_as_allowed:
  assumes "send_connects (createRelay kdc_ports service_ports lim (Some (createGuard cfg))) opts es = Some k"
  shows "kerberos_payload (c_purpose opts) (k_payload k) \<and> k_payload k = c_message opts \<and>
    port_allowed kdc_ports service_ports (c_purpose opts) (k_port k) \<and>
    (g_enabled (createGuard cfg) \<longrightarrow> permitted cfg (k_address k)) \<and>
    (if isIP (trim (c_host opts)) \<noteq> 0 then k_address k = trim (c_host opts)
     else \<exists>addrs. LookupAnswers (Inr addrs) \<in> set es \<and> k_address k \<in> fst ` set addrs)"
  using connects_checked [OF assms] by blast

lemma relay_connects_only_as_allowed_witness:
  "kerberos_payload KdcPurpose [0x6a, 1, 7] \<and> port_allowed PortsUnset PortsUnset KdcPurpose 88 \<and>
    permitted \<lparr>allowedAddressRanges = Unset, blockPrivateNetworkCalls = Unset, blockedAddressRanges = Unset\<rparr> ''192.0.2.7'' \<and>
    ''192.0.2.7'' = trim '' 192.0.2.7''"
proof -
  let ?cfg = "\<lparr>allowedAddressRanges = Unset, blockPrivateNetworkCalls = Unset, blockedAddressRanges = Unset\<rparr>"
  let ?opts = "\<lparr>c_host = '' 192.0.2.7'', c_port = PortText ''88'', c_transport_udp = False,
      c_message = [0x6a, 1, 7], c_purpose = KdcPurpose\<rparr>"
  let ?r = "createRelay PortsUnset PortsUnset None (Some (createGuard ?cfg))"
  have a: "toAddress ''192.0.2.7'' = Some \<lparr>a_bytes = [192, 0, 2, 7], a_family = 4\<rparr>" by code_simp
  have "permitted ?cfg ''192.0.2.7''"
    by (simp add: permitted_def a setting_entries_def default_ranges_v4 special_purpose_v4_def)
  then have v: "relay_verdict ?r ''192.0.2.7'' = None"
    using relay_policy.verdict_None_iff [of PortsUnset PortsUnset None ?cfg "''192.0.2.7''"] by simp
  have ip: "isIP ''192.0.2.7'' = 4" by code_simp
  have tr: "trim '' 192.0.2.7'' = ''192.0.2.7''" by code_simp
  have p: "preflight KdcPurpose [0x6a, 1, 7] = Inr ''AS-REQ''"
    by (simp add: preflight_def assertKerberosRequest_def KDC_REQUEST_TAGS_def assertSizeAndLength_def
        readOuterTlv_def MAX_REQUEST_BYTES_def MIN_MESSAGE_BYTES_def outer_of_def)
  have port: "port_of (PortText ''88'') = Some 88" by code_simp
  have allowed: "assertPortAllowed ?r 88 KdcPurpose = Inr ()"
    by (simp add: assertPortAllowed_createRelay port_allowed_def resolveAllowedPorts_def DEFAULT_ALLOWED_PORTS_def)
  have "send_checks ?r ?opts = Inr (''192.0.2.7'', 88, ''AS-REQ'')"
    unfolding send_checks_ok by (simp add: tr p port allowed)
  then have "send_connects ?r ?opts [] = Some \<lparr>k_address = ''192.0.2.7'', k_family = 4, k_port = 88, k_payload = [0x6a, 1, 7]\<rparr>"
    by (simp add: send_connects_def resolveAllowedAddress_def resolve_start_def ip v)
  from relay_connects_only_as_allowed [OF this] show ?thesis
    by (simp add: createGuard_def setting_entries_def Let_def ip tr)
qed

text \<open>C7: a reply the peer frames correctly is delivered whole however TCP cut it into chunks, and
  whatever happens to the socket afterwards.\<close>

theorem relay_delivers_any_cut:
  assumes "2 \<le> length m" and "length m \<le> lim" and "length m < 2 ^ 31" and "concat chunks = frameForTcp m"
  shows "tc_settled (sendOverTcp lim payload (Connected # map Arrived chunks @ later)) = Some (Inr m)"
  using assms by (intro tcp_any_cut) (simp_all add: relayable_def MIN_MESSAGE_BYTES_def)

lemma relay_delivers_any_cut_witness:
  "tc_settled (sendOverTcp 9 [0x6a, 0]
     (Connected # map Arrived [[0, 0], [], [0, 3, 0x6b], [1, 5]] @ [PeerEnded, CallTimerFires])) = Some (Inr [0x6b, 1, 5])"
proof (rule relay_delivers_any_cut)
  show "concat [[0, 0], [], [0, 3, 0x6b], [1, 5]] = frameForTcp [0x6b, 1, 5]" by code_simp
qed simp_all

text \<open>C8: in every reachable state of a TCP exchange, an unsettled call has its deadline armed, its connect timer
  armed exactly until it connects, and holds at most the reply limit and the prefix; a settled one has both timers
  cleared, and a delivered message is the frame at the head of what arrived, within the limit, after exactly one
  framed request was written.\<close>

theorem tcp_exchange_invariant:
  assumes "tcp_reachable lim payload s"
  shows "tc_written s \<in> {[], frameForTcp payload} \<and>
     (case tc_settled s of
        None \<Rightarrow> tc_callTimer s \<and> tc_connectTimer s = (tc_written s = []) \<and> length (tc_buffer s) \<le> lim + 4
      | Some outcome \<Rightarrow> \<not> tc_callTimer s \<and> \<not> tc_connectTimer s \<and>
          (\<forall>m. outcome = Inr m \<longrightarrow> tc_written s = frameForTcp payload \<and>
             length m \<le> lim \<and> 2 \<le> length m \<and> (\<exists>rest. tc_buffer s = frameForTcp m @ rest)))"
  using tcp_reachable_inv [OF assms] unfolding tcp_inv_def .

lemma tcp_exchange_invariant_witness:
  "tc_written (tcp_handle 9 [0x6a, 0] tcp_start Connected) \<in> {[], frameForTcp [0x6a, 0]} \<and>
     (case tc_settled (tcp_handle 9 [0x6a, 0] tcp_start Connected) of
        None \<Rightarrow> tc_callTimer (tcp_handle 9 [0x6a, 0] tcp_start Connected) \<and>
          tc_connectTimer (tcp_handle 9 [0x6a, 0] tcp_start Connected) =
            (tc_written (tcp_handle 9 [0x6a, 0] tcp_start Connected) = []) \<and>
          length (tc_buffer (tcp_handle 9 [0x6a, 0] tcp_start Connected)) \<le> 9 + 4
      | Some outcome \<Rightarrow> \<not> tc_callTimer (tcp_handle 9 [0x6a, 0] tcp_start Connected) \<and>
          \<not> tc_connectTimer (tcp_handle 9 [0x6a, 0] tcp_start Connected) \<and>
          (\<forall>m. outcome = Inr m \<longrightarrow> tc_written (tcp_handle 9 [0x6a, 0] tcp_start Connected) = frameForTcp [0x6a, 0] \<and>
             length m \<le> 9 \<and> 2 \<le> length m \<and>
             (\<exists>rest. tc_buffer (tcp_handle 9 [0x6a, 0] tcp_start Connected) = frameForTcp m @ rest)))"
  by (rule tcp_exchange_invariant)
    (rule tcp_reachable.step [OF tcp_reachable.start tcp_step.connects]; simp add: tcp_start_def)

text \<open>C9: every part of a call that waits answers: after any events at all, its deadline settles it if
  nothing did before, and once settled no later event changes the outcome.\<close>

theorem relay_always_settles_once:
  "tc_settled (sendOverTcp lim payload (es @ [CallTimerFires])) \<noteq> None \<and>
   sendOverUdp lim (us @ [UdpTimerFires]) \<noteq> None \<and>
   resolveAllowedAddress r host (rs @ [ResolveDeadline]) \<noteq> None \<and>
   (tc_settled (sendOverTcp lim payload es) \<noteq> None \<longrightarrow>
      tc_settled (sendOverTcp lim payload (es @ es')) = tc_settled (sendOverTcp lim payload es)) \<and>
   (sendOverUdp lim us \<noteq> None \<longrightarrow> sendOverUdp lim (us @ us') = sendOverUdp lim us) \<and>
   (resolveAllowedAddress r host rs \<noteq> None \<longrightarrow>
      resolveAllowedAddress r host (rs @ rs') = resolveAllowedAddress r host rs)"
proof -
  have runs: "sendOverUdp lim es = udp_exchange.run lim None es"
    "resolveAllowedAddress r host fs = resolution.run r host (resolve_start r host) fs" for es fs
    by (simp_all add: sendOverUdp_def udp_exchange.run_def resolveAllowedAddress_def resolution.run_def)
  have armed: "tc_callTimer tcp_start" by (simp add: tcp_start_def)
  show ?thesis
    using tcp_exchange.always_settles [OF armed, of lim payload es] tcp_exchange.outcome_final [of lim payload tcp_start es es']
      udp_exchange.always_settles [OF TrueI, of lim None us] udp_exchange.outcome_final [of lim None us us']
      resolution.always_settles [OF TrueI, of r host "resolve_start r host" rs]
      resolution.outcome_final [of r host "resolve_start r host" rs rs']
    unfolding sendOverTcp_run runs by blast
qed

lemma relay_always_settles_once_witness:
  "tc_settled (sendOverTcp 9 [0x6a, 0] ([Connected, Arrived [0, 0]] @ [CallTimerFires])) \<noteq> None \<and>
   sendOverUdp 9 ([UdpError ''reset''] @ [Datagram [1]]) = sendOverUdp 9 [UdpError ''reset''] \<and>
   resolveAllowedAddress (createRelay PortsUnset PortsUnset None None) ''kdc'' ([] @ [ResolveDeadline]) \<noteq> None"
proof -
  have "sendOverUdp 9 [UdpError ''reset''] \<noteq> None" by (simp add: sendOverUdp_def udp_handle_def)
  then show ?thesis
    using relay_always_settles_once [of 9 "[0x6a, 0]" "[Connected, Arrived [0, 0]]" "[UdpError ''reset'']"
        "createRelay PortsUnset PortsUnset None None" "''kdc''" "[]" "[]" "[Datagram [1]]" "[]"]
    by blast
qed

text \<open>Every resolved port list has distinct ports between 1 and 65535, and the service endpoint is closed
  unless its key is set; but a value that is neither the word any nor an array opens it on the KDC ports.\<close>

theorem relay_port_lists:
  "set (resolveAllowedPorts v) \<subseteq> {1..65535} \<and> distinct (resolveAllowedPorts v) \<and>
   (\<forall>port. \<not> port_allowed k PortsUnset ServicePurpose port) \<and>
   assertPortAllowed (createRelay k PortsUnset lim g) port ServicePurpose = Inl ServiceNotEnabled \<and>
   assertPortAllowed (createRelay k PortsOther lim g) 88 ServicePurpose = Inr ()"
  using resolveAllowedPorts_ok
  by (simp add: port_allowed_def assertPortAllowed_def createRelay_def DEFAULT_SERVICE_PORTS_def
      resolveAllowedPorts_def DEFAULT_ALLOWED_PORTS_def)

end
