(* ===== verification/Krb5_Time.thy ===== *)
theory Krb5_Time
  imports Krb5_Asn1_Laws
begin

text \<open>
  KerberosTime (\<open>common/krb5/krb5_asn1.js\<close>: \<open>formatKerberosTime\<close>, \<open>parseKerberosTime\<close>, \<open>encKerberosTime\<close>,
  \<open>decKerberosTime\<close>) over the calendar of JavaScript's \<open>Date\<close>, which ECMA-262 defines: a time value is a number of
  milliseconds since 1970, its year the greatest whose first day is not later, its month found in the table of the days
  before each month, and \<open>Date.UTC\<close> adds up whatever it is given, taking the years 0 to 99 for 1900 to 1999.
\<close>

subsection \<open>The calendar\<close>

definition leap_year :: "int \<Rightarrow> bool" where
  "leap_year y \<longleftrightarrow> y mod 4 = 0 \<and> (y mod 100 \<noteq> 0 \<or> y mod 400 = 0)"

text \<open>The number of the first day of a year.\<close>

definition day_from_year :: "int \<Rightarrow> int" where
  "day_from_year y = 365 * (y - 1970) + (y - 1969) div 4 - (y - 1901) div 100 + (y - 1601) div 400"

text \<open>The greatest year that has begun by a day: the estimate is off by one at most.\<close>

definition year_from_day :: "int \<Rightarrow> int" where
  "year_from_day d =
     (let e = 1970 + (400 * d) div 146097
      in if d < day_from_year e then e - 1 else if day_from_year (e + 1) \<le> d then e + 1 else e)"

definition month_starts :: "bool \<Rightarrow> int list" where
  "month_starts leap =
     (if leap then [0, 31, 60, 91, 121, 152, 182, 213, 244, 274, 305, 335, 366]
      else [0, 31, 59, 90, 120, 151, 181, 212, 243, 273, 304, 334, 365])"

definition day_in_year :: "int \<Rightarrow> int" where
  "day_in_year d = d - day_from_year (year_from_day d)"

text \<open>Months count from zero, days of the month from one.\<close>

definition month_from_day :: "int \<Rightarrow> nat" where
  "month_from_day d =
     length (filter (\<lambda>s. s \<le> day_in_year d) (tl (month_starts (leap_year (year_from_day d)))))"

definition date_from_day :: "int \<Rightarrow> int" where
  "date_from_day d = day_in_year d - month_starts (leap_year (year_from_day d)) ! month_from_day d + 1"

text \<open>\<open>MakeDay\<close>: a month beyond the twelfth belongs to a later year.\<close>

definition make_day :: "int \<Rightarrow> int \<Rightarrow> int \<Rightarrow> int" where
  "make_day y m dt =
     (let ym = y + m div 12
      in day_from_year ym + month_starts (leap_year ym) ! nat (m mod 12) + dt - 1)"

datatype js_date = TimeValue int | InvalidDate

definition date_UTC :: "int \<Rightarrow> int \<Rightarrow> int \<Rightarrow> int \<Rightarrow> int \<Rightarrow> int \<Rightarrow> int" where
  "date_UTC y m dt h mi s =
     (let yr = (if 0 \<le> y \<and> y \<le> 99 then 1900 + y else y)
      in make_day yr m dt * 86400000 + (h * 3600000 + mi * 60000 + s * 1000))"

subsection \<open>KerberosTime\<close>

definition js_ascii :: "string \<Rightarrow> jstring" where
  "js_ascii s = map (\<lambda>c. u16_of (of_char c)) s"

definition show_int :: "int \<Rightarrow> string" where
  "show_int n = (if n < 0 then ''-'' @ show_nat (nat (- n)) else show_nat (nat n))"

text \<open>The same digits computed on integers, which is what evaluation uses.\<close>

function show_pos :: "int \<Rightarrow> string" where
  "show_pos n = (if n < 10 then [char_of (48 + nat n)] else show_pos (n div 10) @ [char_of (48 + nat (n mod 10))])"
  by pat_completeness auto
termination
  by (relation "measure nat") auto

declare show_pos.simps [simp del]

lemma show_pos_nat: "0 \<le> n \<Longrightarrow> show_pos n = show_nat (nat n)"
proof (induction n rule: show_pos.induct)
  case (1 n)
  then show ?case
    by (cases "n < 10") (simp_all add: show_pos.simps [of n] show_nat.simps [of "nat n"] nat_less_iff nat_div_distrib nat_mod_distrib)
qed

lemma show_int_code [code]: "show_int n = (if n < 0 then ''-'' @ show_pos (- n) else show_pos n)"
  by (simp add: show_int_def show_pos_nat)

definition two :: "int \<Rightarrow> string" where
  "two n = (if n < 10 then ''0'' else '''') @ show_int n"

definition formatKerberosTime :: "js_date \<Rightarrow> asn1_error + jstring" where
  "formatKerberosTime date =
     (case date of
        InvalidDate \<Rightarrow> Inl NotADate
      | TimeValue t \<Rightarrow>
          (let d = t div 86400000; r = t mod 86400000
           in Inr (js_ascii (show_int (year_from_day d) @ two (int (month_from_day d) + 1) @ two (date_from_day d)
                @ two (r div 3600000) @ two (r div 60000 mod 60) @ two (r div 1000 mod 60) @ ''Z''))))"

definition js_digit :: "u16 \<Rightarrow> bool" where
  "js_digit u \<longleftrightarrow> 48 \<le> unat u \<and> unat u \<le> 57"

text \<open>The number that a group of digits denotes.\<close>

definition digits :: "jstring \<Rightarrow> int" where
  "digits us = foldl (\<lambda>v u. v * 10 + (int (unat u) - 48)) 0 us"

definition parseKerberosTime :: "jstring \<Rightarrow> asn1_error + js_date" where
  "parseKerberosTime s =
     (if length s = 15 \<and> list_all js_digit (take 14 s) \<and> unat (s ! 14) = 90
      then Inr (TimeValue (date_UTC (digits (take 4 s)) (digits (take 2 (drop 4 s)) - 1) (digits (take 2 (drop 6 s)))
                 (digits (take 2 (drop 8 s))) (digits (take 2 (drop 10 s))) (digits (take 2 (drop 12 s)))))
      else Inl (NotKerberosTime s))"

definition encKerberosTime :: "js_date \<Rightarrow> asn1_error + bytes" where
  "encKerberosTime date = rbind (formatKerberosTime date) (\<lambda>s. tlv TAG_GENERALIZED_TIME (utf8 s))"

definition decKerberosTime :: "tlv_t \<Rightarrow> asn1_error + js_date" where
  "decKerberosTime t = rbind (expectTag t TAG_GENERALIZED_TIME) (\<lambda>_. parseKerberosTime (decLatin1 (t_value t)))"

subsection \<open>The calendar is a numbering of the days\<close>

lemma div_step: "0 < k \<Longrightarrow> (x + 1) div k - x div k = (if (x + 1) mod k = 0 then 1 else 0)" for x k :: int
proof -
  assume k: "0 < k"
  have x: "x = k * (x div k) + x mod k" "0 \<le> x mod k" "x mod k < k" using k by simp_all
  show ?thesis
  proof (cases "x mod k = k - 1")
    case True
    then have "x + 1 = k * (x div k) + k" using x(1) by linarith
    then have "x + 1 = k * (x div k + 1)" by (simp add: distrib_left)
    then have "(x + 1) div k = x div k + 1" "(x + 1) mod k = 0" using k by (metis nonzero_mult_div_cancel_left order_less_irrefl, metis mod_mult_self1_is_0)
    then show ?thesis by simp
  next
    case False
    then have r: "0 \<le> x mod k + 1" "x mod k + 1 < k" using x by linarith+
    have e: "x + 1 = k * (x div k) + (x mod k + 1)" using x(1) by linarith
    have "(x + 1) div k = x div k" by (rule int_div_pos_eq [OF e r])
    moreover have "(x + 1) mod k = x mod k + 1" by (rule int_mod_pos_eq [OF e r])
    ultimately show ?thesis using x(2) by simp
  qed
qed

lemma year_length: "day_from_year (y + 1) - day_from_year y = (if leap_year y then 366 else 365)"
proof -
  have m: "(y - 1969 + 1) mod 4 = y mod 4" "(y - 1901 + 1) mod 100 = y mod 100" "(y - 1601 + 1) mod 400 = y mod 400"
    using mod_mult_self1 [of y "- 492" 4] mod_mult_self1 [of y "- 19" 100] mod_mult_self1 [of y "- 4" 400] by simp_all
  have s: "(y - 1969 + 1) div 4 - (y - 1969) div 4 = (if y mod 4 = 0 then 1 else 0)"
    "(y - 1901 + 1) div 100 - (y - 1901) div 100 = (if y mod 100 = 0 then 1 else 0)"
    "(y - 1601 + 1) div 400 - (y - 1601) div 400 = (if y mod 400 = 0 then 1 else 0)"
    by (subst div_step, simp, simp only: m)+
  have imp: "y mod 100 = 0 \<Longrightarrow> y mod 4 = 0" "y mod 400 = 0 \<Longrightarrow> y mod 100 = 0"
    using mod_mod_cancel [of 4 100 y] mod_mod_cancel [of 100 400 y] by simp_all
  have eq: "day_from_year (y + 1) - day_from_year y = 365 + ((y - 1969 + 1) div 4 - (y - 1969) div 4)
      - ((y - 1901 + 1) div 100 - (y - 1901) div 100) + ((y - 1601 + 1) div 400 - (y - 1601) div 400)"
  proof -
    have "y + 1 - 1970 = y - 1970 + 1" "y + 1 - 1969 = y - 1969 + 1" "y + 1 - 1901 = y - 1901 + 1" "y + 1 - 1601 = y - 1601 + 1"
      by simp_all
    moreover have "365 * (a + 1) + b' - c' + d' - (365 * a + b - c + d) = 365 + (b' - b) - (c' - c) + (d' - d)"
      for a b c d b' c' d' :: int by simp
    ultimately show ?thesis unfolding day_from_year_def by (simp only:)
  qed
  show ?thesis unfolding eq s leap_year_def using imp by (cases "y mod 400 = 0"; cases "y mod 100 = 0"; cases "y mod 4 = 0") simp_all
qed

lemma day_from_year_mono: "a \<le> b \<Longrightarrow> day_from_year a \<le> day_from_year b"
proof (induction b rule: int_ge_induct)
  case (step b)
  with year_length [of b] show ?case by (auto split: if_split_asm)
qed simp

lemma year_from_day_bounds: "day_from_year (year_from_day d) \<le> d \<and> d < day_from_year (year_from_day d + 1)"
proof -
  define k where "k = (400 * d) div 146097"
  have k: "146097 * k \<le> 400 * d" "400 * d < 146097 * k + 146097"
    using mult_div_mod_eq [of 146097 "400 * d"] pos_mod_bound [of 146097 "400 * d"] pos_mod_sign [of 146097 "400 * d"]
    unfolding k_def by linarith+
  have floor: "n * (x div n) \<le> x" "x - n < n * (x div n)" if "0 < n" for x n :: int
    using that mult_div_mod_eq [of n x] pos_mod_bound [OF that, of x] pos_mod_sign [OF that, of x] by linarith+
  have "day_from_year (1970 + k - 1) \<le> d"
    using k floor(1) [of 4 k] floor(2) [of 100 "k + 68"] floor(1) [of 400 "k + 368"] by (simp add: day_from_year_def)
  moreover have "d < day_from_year (1970 + k + 1 + 1)"
    using k floor(2) [of 4 "k + 3"] floor(1) [of 100 "k + 71"] floor(2) [of 400 "k + 371"] by (simp add: day_from_year_def)
  ultimately show ?thesis
    unfolding year_from_day_def Let_def k_def [symmetric] by (simp only: not_less split: if_split) auto
qed

lemma year_from_dayI: "day_from_year y \<le> d \<Longrightarrow> d < day_from_year (y + 1) \<Longrightarrow> year_from_day d = y"
proof (rule ccontr)
  assume y: "day_from_year y \<le> d" "d < day_from_year (y + 1)" and ne: "year_from_day d \<noteq> y"
  from ne have "y + 1 \<le> year_from_day d \<or> year_from_day d + 1 \<le> y" by linarith
  with y year_from_day_bounds [of d] day_from_year_mono show False by (meson leD le_less_trans)
qed

lemma month_tables:
  "l \<in> {True, False} \<Longrightarrow> length (month_starts l) = 13 \<and> month_starts l ! 0 = 0 \<and> month_starts l ! 12 = (if l then 366 else 365)
     \<and> sorted_wrt (<) (month_starts l)"
  by (auto simp: month_starts_def)

lemma filter_le_sorted:
  "sorted_wrt (<) (a # ss) \<Longrightarrow> a \<le> r \<Longrightarrow> r < last (a # ss) \<Longrightarrow>
     (let m = length (filter (\<lambda>s. s \<le> r) ss) in m < length ss \<and> (a # ss) ! m \<le> r \<and> r < (a # ss) ! Suc m)" for r :: int
proof (induction ss arbitrary: a)
  case Nil
  then show ?case by simp
next
  case (Cons b ss)
  show ?case
  proof (cases "b \<le> r")
    case True
    with Cons.IH [of b] Cons.prems show ?thesis by (cases ss) (auto simp: Let_def)
  next
    case False
    with Cons.prems(1) have "filter (\<lambda>s. s \<le> r) (b # ss) = []" by (auto simp: filter_empty_conv)
    with False Cons.prems(2) show ?thesis by (simp add: Let_def)
  qed
qed

lemma month_from_day_bounds:
  "month_from_day d < 12 \<and> month_starts (leap_year (year_from_day d)) ! month_from_day d \<le> day_in_year d
     \<and> day_in_year d < month_starts (leap_year (year_from_day d)) ! Suc (month_from_day d)"
proof -
  define l where "l = leap_year (year_from_day d)"
  have r: "0 \<le> day_in_year d" "day_in_year d < (if l then 366 else 365)"
    using year_from_day_bounds [of d] year_length [of "year_from_day d"] by (simp_all add: day_in_year_def l_def split: if_split_asm)
  obtain ss where ss: "month_starts l = 0 # ss" "length ss = 12" "last (0 # ss) = (if l then 366 else 365)" "sorted_wrt (<) (0 # ss)"
    by (cases l) (auto simp: month_starts_def)
  from filter_le_sorted [OF ss(4), of "day_in_year d"] r ss show ?thesis
    by (simp add: month_from_day_def l_def [symmetric] Let_def)
qed

lemma filter_le_unique:
  "sorted_wrt (<) (a # ss) \<Longrightarrow> m < length ss \<Longrightarrow> (a # ss) ! m \<le> r \<Longrightarrow> r < (a # ss) ! Suc m \<Longrightarrow>
     length (filter (\<lambda>s. s \<le> r) ss) = m" for r :: int
proof (induction ss arbitrary: a m)
  case (Cons b ss)
  show ?case
  proof (cases m)
    case 0
    with Cons.prems have "filter (\<lambda>s. s \<le> r) (b # ss) = []" by (auto simp: filter_empty_conv)
    with 0 show ?thesis by simp
  next
    case (Suc k)
    with Cons.prems have "b \<le> (b # ss) ! k" by (cases k) (auto simp: less_imp_le)
    with Suc Cons.prems Cons.IH [of b k] show ?thesis by simp
  qed
qed simp

text \<open>A date of the calendar: the month from zero, the day within the month.\<close>

definition calendar_date :: "int \<Rightarrow> int \<Rightarrow> int \<Rightarrow> bool" where
  "calendar_date y m dt \<longleftrightarrow> 0 \<le> m \<and> m < 12 \<and> 1 \<le> dt
     \<and> dt \<le> month_starts (leap_year y) ! Suc (nat m) - month_starts (leap_year y) ! nat m"

lemma make_day_of_day: "make_day (year_from_day d) (int (month_from_day d)) (date_from_day d) = d"
  using month_from_day_bounds [of d] by (simp add: make_day_def date_from_day_def day_in_year_def)

lemma calendar_date_of_day: "calendar_date (year_from_day d) (int (month_from_day d)) (date_from_day d)"
  using month_from_day_bounds [of d] by (simp add: calendar_date_def date_from_day_def)

lemma day_of_make_day:
  assumes "calendar_date y m dt"
  shows "year_from_day (make_day y m dt) = y" "int (month_from_day (make_day y m dt)) = m" "date_from_day (make_day y m dt) = dt"
proof -
  have "0 \<le> m" "m < 12" using assms by (simp_all add: calendar_date_def)
  then obtain k where k: "m = int k" "k < 12" by (cases m rule: int_cases) auto
  define l where "l = leap_year y"
  obtain ss where ss: "month_starts l = 0 # ss" "length ss = 12" "last (0 # ss) = (if l then 366 else 365)" "sorted_wrt (<) (0 # ss)"
    by (cases l) (auto simp: month_starts_def)
  define r where "r = (0 # ss) ! k + dt - 1"
  have d: "make_day y m dt = day_from_year y + r"
    using k by (simp add: make_day_def l_def [symmetric] ss r_def)
  have r: "(0 # ss) ! k \<le> r" "r < (0 # ss) ! Suc k"
    using assms k by (simp_all add: calendar_date_def l_def [symmetric] ss r_def)
  have bounds: "0 \<le> r \<and> r < (if l then 366 else 365)"
  proof -
    have all: "\<forall>i<13. 0 \<le> (0 # ss) ! i \<and> (0 # ss) ! i \<le> (if l then 366 else 365)"
      using ss(1) [symmetric] by (cases l) (simp_all add: month_starts_def less_Suc_eq numeral_eq_Suc)
    have "0 \<le> (0 # ss) ! k" "(0 # ss) ! Suc k \<le> (if l then 366 else 365)"
      using all [rule_format, of k] all [rule_format, of "Suc k"] k(2) by simp_all
    with r show ?thesis by linarith
  qed
  show y: "year_from_day (make_day y m dt) = y"
    using bounds year_length [of y] by (intro year_from_dayI) (simp_all add: d l_def split: if_split_asm)
  have div: "day_in_year (make_day y m dt) = r" by (simp add: day_in_year_def y) (simp add: d)
  have "length (filter (\<lambda>s. s \<le> r) ss) = k" using filter_le_unique [OF ss(4) _ r] k(2) ss(2) by simp
  then have mth: "month_from_day (make_day y m dt) = k"
    by (simp add: month_from_day_def y div l_def [symmetric] ss(1))
  then show "int (month_from_day (make_day y m dt)) = m" by (simp add: k)
  show "date_from_day (make_day y m dt) = dt"
    unfolding date_from_day_def mth y div l_def [symmetric] ss(1) by (simp add: r_def)
qed

subsection \<open>Decimal texts\<close>

definition digit_unit :: "nat \<Rightarrow> u16" where
  "digit_unit d = u16_of (48 + d)"

lemma unat_digit_unit [simp]: "d < 10 \<Longrightarrow> unat (digit_unit d) = 48 + d"
  by (simp only: digit_unit_def u16_of_def unat_of_nat) simp

lemma uint_digit_unit [simp]: "d < 10 \<Longrightarrow> uint (digit_unit d) = 48 + int d"
  by (simp only: uint_nat unat_digit_unit of_nat_add of_nat_numeral)

lemma js_digit_digit_unit [simp]: "d < 10 \<Longrightarrow> js_digit (digit_unit d)"
  by (simp add: js_digit_def)

lemma digit_of_unit: "js_digit u \<Longrightarrow> digit_unit (unat u - 48) = u"
  by (simp add: digit_unit_def js_digit_def u16_of_def)

lemma js_ascii_simps [simp]: "js_ascii [] = []" "js_ascii (c # s) = u16_of (of_char c) # js_ascii s"
  "js_ascii (s @ s') = js_ascii s @ js_ascii s'" "length (js_ascii s) = length s"
  by (simp_all add: js_ascii_def)

lemma show_nat_1: "n < 10 \<Longrightarrow> js_ascii (show_nat n) = [digit_unit n]"
  by (simp add: show_nat.simps [of n] digit_unit_def)

lemma show_nat_snoc: "10 \<le> n \<Longrightarrow> js_ascii (show_nat n) = js_ascii (show_nat (n div 10)) @ [digit_unit (n mod 10)]"
  by (simp add: show_nat.simps [of n] digit_unit_def)

lemma show_nat_2: "10 \<le> n \<Longrightarrow> n < 100 \<Longrightarrow> js_ascii (show_nat n) = [digit_unit (n div 10), digit_unit (n mod 10)]"
  by (simp add: show_nat_snoc show_nat_1)

lemma show_nat_4:
  "1000 \<le> n \<Longrightarrow> n < 10000 \<Longrightarrow>
     js_ascii (show_nat n) = [digit_unit (n div 1000), digit_unit (n div 100 mod 10), digit_unit (n div 10 mod 10), digit_unit (n mod 10)]"
  by (simp add: show_nat_snoc show_nat_1 div_mult2_eq [symmetric])

lemma length_show_nat_4: "length (show_nat n) = 4 \<longleftrightarrow> 1000 \<le> n \<and> n < 10000"
proof -
  have len: "length (show_nat n) = (if n < 10 then 1 else Suc (length (show_nat (n div 10))))" for n
    by (simp add: show_nat.simps [of n])
  have pos: "0 < length (show_nat n)" for n by (simp add: len)
  have l1: "length (show_nat n) = 1 \<longleftrightarrow> n < 10" for n using pos [of "n div 10"] by (simp add: len [of n])
  have l2: "length (show_nat n) = 2 \<longleftrightarrow> 10 \<le> n \<and> n < 100" for n using l1 [of "n div 10"] by (auto simp: len [of n])
  have l3: "length (show_nat n) = 3 \<longleftrightarrow> 100 \<le> n \<and> n < 1000" for n using l2 [of "n div 10"] by (auto simp: len [of n])
  show ?thesis using l3 [of "n div 10"] by (auto simp: len [of n])
qed

lemma js_ascii_two: "0 \<le> n \<Longrightarrow> n < 100 \<Longrightarrow> js_ascii (two n) = [digit_unit (nat n div 10), digit_unit (nat n mod 10)]"
  by (cases "n < 10") (simp_all add: two_def show_int_def show_nat_1 show_nat_2 digit_unit_def nat_less_iff)

lemma js_ascii_year: "1000 \<le> n \<Longrightarrow> n < 10000 \<Longrightarrow> js_ascii (show_int n) =
    [digit_unit (nat n div 1000), digit_unit (nat n div 100 mod 10), digit_unit (nat n div 10 mod 10), digit_unit (nat n mod 10)]"
  by (simp add: show_int_def show_nat_4 nat_less_iff)

lemma digits_2: "n < 100 \<Longrightarrow> digits [digit_unit (n div 10), digit_unit (n mod 10)] = int n"
proof -
  assume n: "n < 100"
  then have "n div 10 < 10" by (simp add: div_less_iff_less_mult)
  then show ?thesis using arg_cong [OF div_mult_mod_eq [of n 10], of int] by (simp only: of_nat_add of_nat_mult) (simp add: digits_def)
qed

lemma digits_4: "n < 10000 \<Longrightarrow>
    digits [digit_unit (n div 1000), digit_unit (n div 100 mod 10), digit_unit (n div 10 mod 10), digit_unit (n mod 10)] = int n"
proof -
  assume n: "n < 10000"
  have "((n div 1000 * 10 + n div 100 mod 10) * 10 + n div 10 mod 10) * 10 + n mod 10 = n"
  proof -
    have "n div 1000 = n div 100 div 10" "n div 100 = n div 10 div 10" by (simp_all add: div_mult2_eq [symmetric])
    then show ?thesis using div_mult_mod_eq [of "n div 100" 10] div_mult_mod_eq [of "n div 10" 10] div_mult_mod_eq [of n 10] by simp
  qed
  then have "int (((n div 1000 * 10 + n div 100 mod 10) * 10 + n div 10 mod 10) * 10 + n mod 10) = int n" by simp
  moreover have "n div 1000 < 10" using n by (simp add: div_less_iff_less_mult)
  ultimately show ?thesis by (simp add: digits_def)
qed

lemma two_digits: "js_digit a \<Longrightarrow> js_digit b \<Longrightarrow> js_ascii (two (digits [a, b])) = [a, b] \<and> 0 \<le> digits [a, b] \<and> digits [a, b] < 100"
proof -
  assume ab: "js_digit a" "js_digit b"
  define x y where "x = unat a - 48" and "y = unat b - 48"
  have xy: "x < 10" "y < 10" "a = digit_unit x" "b = digit_unit y"
    using ab by (auto simp: x_def y_def js_digit_def digit_of_unit)
  have v: "digits [a, b] = int (10 * x + y)" using xy by (simp add: digits_def)
  have "nat (digits [a, b]) = 10 * x + y" unfolding v by simp
  then have "nat (digits [a, b]) div 10 = x" "nat (digits [a, b]) mod 10 = y" using xy(1,2) by simp_all
  then show ?thesis using js_ascii_two [of "digits [a, b]"] xy v by simp
qed

lemma four_digits: "list_all js_digit [a, b, c, d] \<Longrightarrow> 1000 \<le> digits [a, b, c, d] \<Longrightarrow>
    js_ascii (show_int (digits [a, b, c, d])) = [a, b, c, d]"
  and four_digits_range: "list_all js_digit [a, b, c, d] \<Longrightarrow> 0 \<le> digits [a, b, c, d] \<and> digits [a, b, c, d] < 10000"
proof -
  assume abcd: "list_all js_digit [a, b, c, d]"
  define x y z w where "x = unat a - 48" and "y = unat b - 48" and "z = unat c - 48" and "w = unat d - 48"
  have xy: "x < 10" "y < 10" "z < 10" "w < 10" "a = digit_unit x" "b = digit_unit y" "c = digit_unit z" "d = digit_unit w"
    using abcd by (auto simp: x_def y_def z_def w_def js_digit_def digit_of_unit)
  have v: "digits [a, b, c, d] = int (1000 * x + 100 * y + 10 * z + w)" using xy by (simp add: digits_def)
  have n: "nat (digits [a, b, c, d]) = 1000 * x + 100 * y + 10 * z + w" unfolding v by simp
  show "0 \<le> digits [a, b, c, d] \<and> digits [a, b, c, d] < 10000" unfolding v using xy(1-4) by simp
  assume "1000 \<le> digits [a, b, c, d]"
  moreover have "digits [a, b, c, d] < 10000" unfolding v using xy(1-4) by simp
  moreover have e: "(1000 * x + 100 * y + 10 * z + w) div 1000 = x" "(1000 * x + 100 * y + 10 * z + w) div 100 mod 10 = y"
    "(1000 * x + 100 * y + 10 * z + w) div 10 mod 10 = z" "(1000 * x + 100 * y + 10 * z + w) mod 10 = w"
  proof -
    have "(1000 * x + 100 * y + 10 * z + w) div 10 = 100 * x + 10 * y + z" using xy(4) by simp
    moreover have "(100 * x + 10 * y + z) div 10 = 10 * x + y" using xy(3) by simp
    moreover have "(10 * x + y) div 10 = x" using xy(2) by simp
    ultimately show "(1000 * x + 100 * y + 10 * z + w) div 1000 = x" "(1000 * x + 100 * y + 10 * z + w) div 100 mod 10 = y"
      "(1000 * x + 100 * y + 10 * z + w) div 10 mod 10 = z"
      using mod_mult_self3 [of "10 * x + y" 10 z] div_mult2_eq [of "1000 * x + 100 * y + 10 * z + w" 10 10] div_mult2_eq [of "1000 * x + 100 * y + 10 * z + w" 10 100]
        div_mult2_eq [of "100 * x + 10 * y + z" 10 10] xy(2,3) by (simp_all add: algebra_simps)
    show "(1000 * x + 100 * y + 10 * z + w) mod 10 = w"
      using xy(4) mod_mult_self2 [of w 10 "100 * x + 10 * y + z"] by (simp add: algebra_simps)
  qed
  ultimately show "js_ascii (show_int (digits [a, b, c, d])) = [a, b, c, d]"
    using js_ascii_year [of "digits [a, b, c, d]"] unfolding n e xy(5-8) [symmetric] by simp
qed

subsection \<open>ASCII text on the wire\<close>

lemma utf8_ascii_units: "list_all (\<lambda>u. unat u < 128) us \<Longrightarrow> utf8 us = map (\<lambda>u. byte_of (unat u)) us"
proof -
  have "list_all (\<lambda>n. n < 128) ns \<Longrightarrow> utf8_units ns = ns" for ns
    by (induction ns) (simp_all add: utf8_units.simps)
  then show "list_all (\<lambda>u. unat u < 128) us \<Longrightarrow> utf8 us = map (\<lambda>u. byte_of (unat u)) us"
    by (simp add: utf8_def list_all_iff)
qed

lemma decLatin1_utf8: "list_all (\<lambda>u. unat u < 128) us \<Longrightarrow> decLatin1 (utf8 us) = us"
proof -
  have byte: "unat (byte_of (unat u)) = unat u" if "unat u < 128" for u using that by simp
  then show "list_all (\<lambda>u. unat u < 128) us \<Longrightarrow> decLatin1 (utf8 us) = us"
    by (simp add: utf8_ascii_units decLatin1_def list_all_iff byte map_idI del: unat_byte_of)
qed

subsection \<open>Round trips\<close>

text \<open>The seven groups of a time value, and the text that \<open>formatKerberosTime\<close> writes for them.\<close>

definition time_text :: "int \<Rightarrow> int \<Rightarrow> int \<Rightarrow> int \<Rightarrow> int \<Rightarrow> int \<Rightarrow> jstring" where
  "time_text y m dt h mi s = js_ascii (show_int y @ two m @ two dt @ two h @ two mi @ two s @ ''Z'')"

lemma format_time_text:
  "formatKerberosTime (TimeValue t) =
     Inr (let d = t div 86400000; r = t mod 86400000 in
       time_text (year_from_day d) (int (month_from_day d) + 1) (date_from_day d) (r div 3600000) (r div 60000 mod 60) (r div 1000 mod 60))"
  by (simp add: formatKerberosTime_def time_text_def Let_def)

lemma clock_range:
  "0 \<le> t mod 86400000 div 3600000 \<and> t mod 86400000 div 3600000 < 24" "0 \<le> t mod 86400000 div 60000 mod 60 \<and> t mod 86400000 div 60000 mod 60 < 60"
  "0 \<le> t mod 86400000 div 1000 mod 60 \<and> t mod 86400000 div 1000 mod 60 < 60" for t :: int
  by (simp_all add: div_less_iff_less_mult pos_imp_zdiv_nonneg_iff)

lemma month_starts_gap: "k < 12 \<Longrightarrow> month_starts l ! Suc k - month_starts l ! k \<le> 31"
proof -
  have "\<forall>k\<in>{0, 1, 2, 3, 4, 5, 6, 7, 8, 9, 10, 11}. month_starts l ! Suc k - month_starts l ! k \<le> 31"
    by (cases l) (simp_all add: month_starts_def)
  moreover assume "k < 12"
  then have "k \<in> {0, 1, 2, 3, 4, 5, 6, 7, 8, 9, 10, 11}" unfolding insert_iff empty_iff by presburger
  ultimately show ?thesis by blast
qed

lemma calendar_date_range: "calendar_date y m dt \<Longrightarrow> 0 \<le> m \<and> m < 12 \<and> 1 \<le> dt \<and> dt \<le> 31"
  using month_starts_gap [of "nat m" "leap_year y"] unfolding calendar_date_def by linarith

lemma parse_time_units:
  "list_all js_digit us \<Longrightarrow> us = [a, b, c, d, e, f, g, h, i, j, k, l, m, n] \<Longrightarrow>
     parseKerberosTime (us @ [u16_of 90]) = Inr (TimeValue (date_UTC (digits [a, b, c, d]) (digits [e, f] - 1) (digits [g, h])
       (digits [i, j]) (digits [k, l]) (digits [m, n])))"
  by (simp add: parseKerberosTime_def u16_of_def)

lemma parse_time_cases:
  assumes "parseKerberosTime s = Inr x"
  obtains a b c d e f g h i j k l m n
  where "s = [a, b, c, d, e, f, g, h, i, j, k, l, m, n, u16_of 90]" "list_all js_digit [a, b, c, d, e, f, g, h, i, j, k, l, m, n]"
    "x = TimeValue (date_UTC (digits [a, b, c, d]) (digits [e, f] - 1) (digits [g, h]) (digits [i, j]) (digits [k, l]) (digits [m, n]))"
proof -
  from assms have l: "length s = 15" and d: "list_all js_digit (take 14 s)" and z: "unat (s ! 14) = 90"
    by (simp_all add: parseKerberosTime_def split: if_split_asm)
  from l have "length s = Suc (Suc (Suc (Suc (Suc (Suc (Suc (Suc (Suc (Suc (Suc (Suc (Suc (Suc (Suc 0))))))))))))))" by simp
  then obtain a b c d e f g h i j k l m n o' where s: "s = [a, b, c, d, e, f, g, h, i, j, k, l, m, n, o']"
    by (auto simp only: length_Suc_conv length_0_conv)
  have "o' = u16_of 90" using z unfolding s using word_unat_eq_iff by fastforce
  with d assms that s show thesis by (simp add: parseKerberosTime_def split: if_split_asm)
qed

text \<open>The numbers of the six groups.\<close>

definition time_fields :: "jstring \<Rightarrow> int \<times> int \<times> int \<times> int \<times> int \<times> int" where
  "time_fields s = (digits (take 4 s), digits (take 2 (drop 4 s)), digits (take 2 (drop 6 s)), digits (take 2 (drop 8 s)),
     digits (take 2 (drop 10 s)), digits (take 2 (drop 12 s)))"

lemma time_text_units:
  assumes "1000 \<le> y" "y < 10000" "0 \<le> m" "m < 100" "0 \<le> dt" "dt < 100" "0 \<le> h" "h < 100" "0 \<le> mi" "mi < 100" "0 \<le> s" "s < 100"
  shows "\<exists>us. list_all js_digit us \<and> time_text y m dt h mi s = us @ [u16_of 90]
     \<and> parseKerberosTime (time_text y m dt h mi s) = Inr (TimeValue (date_UTC y (m - 1) dt h mi s))
     \<and> time_fields (time_text y m dt h mi s) = (y, m, dt, h, mi, s)"
proof -
  define us where "us = js_ascii (show_int y) @ js_ascii (two m) @ js_ascii (two dt) @ js_ascii (two h) @ js_ascii (two mi) @ js_ascii (two s)"
  have t: "time_text y m dt h mi s = us @ [u16_of 90]" by (simp add: time_text_def us_def)
  have lt: "nat y div 1000 < 10" "nat y < 10000" using assms(1,2) by (simp_all add: div_less_iff_less_mult nat_less_iff)
  have lt2: "nat n div 10 < 10 \<and> nat n < 100" if "0 \<le> n" "n < 100" for n using that by (simp add: div_less_iff_less_mult nat_less_iff)
  note parts = js_ascii_year [OF assms(1,2)] js_ascii_two [OF assms(3,4)] js_ascii_two [OF assms(5,6)] js_ascii_two [OF assms(7,8)]
    js_ascii_two [OF assms(9,10)] js_ascii_two [OF assms(11,12)]
  note two = lt2 [OF assms(3,4)] lt2 [OF assms(5,6)] lt2 [OF assms(7,8)] lt2 [OF assms(9,10)] lt2 [OF assms(11,12)]
  have dig: "js_digit (digit_unit (n mod 10))" for n by simp
  have all: "list_all js_digit us"
    unfolding us_def parts by (simp only: append_Cons append_Nil list.pred_inject js_digit_digit_unit lt two dig simp_thms)
  have v: "digits [digit_unit (nat n div 10), digit_unit (nat n mod 10)] = n" if "0 \<le> n" "n < 100" for n
    using digits_2 [of "nat n"] lt2 [OF that] that by simp
  have vy: "digits [digit_unit (nat y div 1000), digit_unit (nat y div 100 mod 10), digit_unit (nat y div 10 mod 10), digit_unit (nat y mod 10)] = y"
    using digits_4 [OF lt(2)] assms(1) by simp
  have us: "us = [digit_unit (nat y div 1000), digit_unit (nat y div 100 mod 10), digit_unit (nat y div 10 mod 10), digit_unit (nat y mod 10),
      digit_unit (nat m div 10), digit_unit (nat m mod 10), digit_unit (nat dt div 10), digit_unit (nat dt mod 10),
      digit_unit (nat h div 10), digit_unit (nat h mod 10), digit_unit (nat mi div 10), digit_unit (nat mi mod 10),
      digit_unit (nat s div 10), digit_unit (nat s mod 10)]"
    unfolding us_def parts append_Cons append_Nil ..
  have "parseKerberosTime (us @ [u16_of 90]) = Inr (TimeValue (date_UTC y (m - 1) dt h mi s))"
    unfolding parse_time_units [OF all us]
    unfolding vy v [OF assms(3,4)] v [OF assms(5,6)] v [OF assms(7,8)] v [OF assms(9,10)] v [OF assms(11,12)] ..
  moreover have "time_fields (us @ [u16_of 90]) = (y, m, dt, h, mi, s)"
    unfolding us time_fields_def
    by (simp add: vy v [OF assms(3,4)] v [OF assms(5,6)] v [OF assms(7,8)] v [OF assms(9,10)] v [OF assms(11,12)])
  ultimately show ?thesis using all by (intro exI [of _ us]) (simp only: t simp_thms)
qed

lemma clock_sum: "r div 3600000 * 3600000 + r div 60000 mod 60 * 60000 + r div 1000 mod 60 * 1000 = 1000 * (r div 1000)" for r :: int
proof -
  define q where "q = r div 1000"
  have "r div 60000 = q div 60" "r div 3600000 = q div 60 div 60"
    by (simp_all add: q_def zdiv_zmult2_eq [symmetric])
  moreover have "q div 60 div 60 * 3600 + q div 60 mod 60 * 60 + q mod 60 = q"
    using div_mult_mod_eq [of "q div 60" 60] div_mult_mod_eq [of q 60] by linarith
  ultimately show ?thesis unfolding q_def [symmetric] by (simp add: algebra_simps)
qed

lemma day_and_clock:
  fixes d r :: int
  assumes "0 \<le> r" "r < 86400000"
  shows "(d * 86400000 + r) div 86400000 = d" "(d * 86400000 + r) mod 86400000 = r"
  using int_div_pos_eq [of "d * 86400000 + r" 86400000 d r] int_mod_pos_eq [of "d * 86400000 + r" 86400000 d r] assms by simp_all

lemma whole_seconds: "t div 86400000 * 86400000 + 1000 * (t mod 86400000 div 1000) = 1000 * (t div 1000)" for t :: int
proof -
  define d r where "d = t div 86400000" and "r = t mod 86400000"
  have "t = r + d * 86400 * 1000" using div_mult_mod_eq [of t 86400000] by (simp add: d_def r_def)
  then have "t div 1000 = r div 1000 + d * 86400" by simp
  then show ?thesis unfolding d_def [symmetric] r_def [symmetric] by simp
qed

lemma date_UTC_of_time:
  fixes t :: int
  defines "d \<equiv> t div 86400000" and "r \<equiv> t mod 86400000"
  assumes "1000 \<le> year_from_day d"
  shows "date_UTC (year_from_day d) (int (month_from_day d)) (date_from_day d) (r div 3600000) (r div 60000 mod 60) (r div 1000 mod 60)
     = 1000 * (t div 1000)"
  using assms(3) clock_sum [of r] whole_seconds [of t]
  by (simp add: date_UTC_def make_day_of_day Let_def d_def r_def)

lemma time_text_of_time:
  fixes t :: int
  defines "d \<equiv> t div 86400000" and "r \<equiv> t mod 86400000"
  assumes "1000 \<le> year_from_day d" "year_from_day d < 10000"
  shows "\<exists>us. list_all js_digit us \<and> formatKerberosTime (TimeValue t) = Inr (us @ [u16_of 90])
     \<and> parseKerberosTime (us @ [u16_of 90]) = Inr (TimeValue (1000 * (t div 1000)))
     \<and> time_fields (us @ [u16_of 90]) = (year_from_day d, int (month_from_day d) + 1, date_from_day d, r div 3600000, r div 60000 mod 60, r div 1000 mod 60)"
proof -
  have c: "int (month_from_day d) < 12" "1 \<le> date_from_day d" "date_from_day d \<le> 31"
    using calendar_date_range [OF calendar_date_of_day [of d]] by simp_all
  note k = clock_range [of t, folded r_def]
  define T where "T = time_text (year_from_day d) (int (month_from_day d) + 1) (date_from_day d) (r div 3600000) (r div 60000 mod 60) (r div 1000 mod 60)"
  have "\<exists>us. list_all js_digit us \<and> T = us @ [u16_of 90]
     \<and> parseKerberosTime T = Inr (TimeValue (date_UTC (year_from_day d) (int (month_from_day d) + 1 - 1) (date_from_day d)
         (r div 3600000) (r div 60000 mod 60) (r div 1000 mod 60)))
     \<and> time_fields T = (year_from_day d, int (month_from_day d) + 1, date_from_day d, r div 3600000, r div 60000 mod 60, r div 1000 mod 60)"
    unfolding T_def using assms(3,4) c k by (intro time_text_units) simp_all
  then obtain us where us: "list_all js_digit us" "T = us @ [u16_of 90]"
    "parseKerberosTime T = Inr (TimeValue (date_UTC (year_from_day d) (int (month_from_day d)) (date_from_day d)
       (r div 3600000) (r div 60000 mod 60) (r div 1000 mod 60)))"
    "time_fields T = (year_from_day d, int (month_from_day d) + 1, date_from_day d, r div 3600000, r div 60000 mod 60, r div 1000 mod 60)"
    by (elim exE conjE) (simp only: add_diff_cancel_right')
  have "formatKerberosTime (TimeValue t) = Inr T"
    unfolding T_def format_time_text Let_def d_def r_def ..
  with us show ?thesis
    unfolding us(2) date_UTC_of_time [of t, folded d_def r_def, OF assms(3)] by (intro exI [of _ us]) (simp only: simp_thms)
qed

lemma time_units_ascii: "list_all js_digit us \<Longrightarrow> list_all (\<lambda>u. unat u < 128) (us @ [u16_of 90])"
  by (induction us) (simp_all add: js_digit_def)

text \<open>The times that the four digits of a year can express.\<close>

definition time_expressible :: "int \<Rightarrow> bool" where
  "time_expressible t \<longleftrightarrow> 1000 \<le> year_from_day (t div 86400000) \<and> year_from_day (t div 86400000) < 10000"

lemma encKerberosTime_encodes:
  assumes "time_expressible t"
  shows "\<exists>bs. length bs = 15 \<and> encKerberosTime (TimeValue t) = Inr (der_encode (TAG_GENERALIZED_TIME, bs))
     \<and> parseKerberosTime (decLatin1 bs) = Inr (TimeValue (1000 * (t div 1000)))"
proof -
  from time_text_of_time [of t] assms obtain us where us: "list_all js_digit us"
    "formatKerberosTime (TimeValue t) = Inr (us @ [u16_of 90])"
    "parseKerberosTime (us @ [u16_of 90]) = Inr (TimeValue (1000 * (t div 1000)))"
    by (auto simp only: time_expressible_def)
  note ascii = time_units_ascii [OF us(1)]
  have "length (us @ [u16_of 90]) = 15" using us(3) by (simp add: parseKerberosTime_def split: if_split_asm)
  then have l: "length (utf8 (us @ [u16_of 90])) = 15" by (simp only: utf8_ascii_units [OF ascii] length_map)
  then have "tlv TAG_GENERALIZED_TIME (utf8 (us @ [u16_of 90])) = Inr (der_encode (TAG_GENERALIZED_TIME, utf8 (us @ [u16_of 90])))"
    by (simp add: tlv_ok)
  with us l show ?thesis by (intro exI [of _ "utf8 (us @ [u16_of 90])"]) (simp add: encKerberosTime_def decLatin1_utf8 [OF ascii])
qed

text \<open>C39: A time of the years 1000 to 9999 that is written as a KerberosTime is read back wherever it stands, without its
  milliseconds.\<close>

theorem kerberos_time_roundtrip:
  assumes "time_expressible t" and "d \<le> MAX_DEPTH"
  shows "\<exists>enc e. encKerberosTime (TimeValue t) = Inr enc \<and> readTlv (pre @ enc @ suf) (length pre) d = Inr e
     \<and> t_raw e = enc \<and> decKerberosTime e = Inr (TimeValue (1000 * (t div 1000)))"
proof -
  from encKerberosTime_encodes [OF assms(1)] obtain bs where bs: "length bs = 15"
    "encKerberosTime (TimeValue t) = Inr (der_encode (TAG_GENERALIZED_TIME, bs))"
    "parseKerberosTime (decLatin1 bs) = Inr (TimeValue (1000 * (t div 1000)))" by blast
  have "tlv TAG_GENERALIZED_TIME bs = Inr (der_encode (TAG_GENERALIZED_TIME, bs))" using bs(1) by (simp add: tlv_ok)
  from tlv_readTlv [OF this assms(2), of pre suf] bs show ?thesis
    by (auto simp: decKerberosTime_def expectTag_def)
qed

lemma kerberos_time_roundtrip_witness:
  "\<exists>enc e. encKerberosTime (TimeValue 1709210096789) = Inr enc \<and> readTlv ([9] @ enc @ [7]) (length [9 :: byte]) 2 = Inr e
     \<and> t_raw e = enc \<and> decKerberosTime e = Inr (TimeValue (1000 * (1709210096789 div 1000)))"
  by (rule kerberos_time_roundtrip) (simp_all add: time_expressible_def year_from_day_def day_from_year_def MAX_DEPTH_def)

text \<open>A text of fifteen units that does not begin with a sign has four of them for the year.\<close>

lemma time_text_year:
  assumes "formatKerberosTime (TimeValue t) = Inr s" "length s = 15" "js_digit (s ! 0)"
  shows "1000 \<le> year_from_day (t div 86400000) \<and> year_from_day (t div 86400000) < 10000"
proof -
  define d r y where "d = t div 86400000" and "r = t mod 86400000" and "y = year_from_day d"
  have len: "length (two n) = 2" if "0 \<le> n" "n < 100" for n
    using arg_cong [OF js_ascii_two [OF that], of length] by simp
  have c: "0 \<le> date_from_day d" "date_from_day d < 100" "int (month_from_day d) + 1 < 100"
    using calendar_date_range [OF calendar_date_of_day [of d]] by simp_all
  have k: "0 \<le> r div 3600000" "r div 3600000 < 100" "0 \<le> r div 60000 mod 60" "r div 60000 mod 60 < 100" "0 \<le> r div 1000 mod 60" "r div 1000 mod 60 < 100"
    using clock_range [of t, folded r_def] by simp_all
  have T: "s = time_text y (int (month_from_day d) + 1) (date_from_day d) (r div 3600000) (r div 60000 mod 60) (r div 1000 mod 60)"
    using assms(1) unfolding format_time_text Let_def d_def r_def y_def by (simp only: sum.inject)
  have "length (show_int y) + 11 = 15"
    using assms(2) unfolding T time_text_def js_ascii_simps(4) length_append len [OF c(1,2)] len [OF _ c(3), simplified]
      len [OF k(1,2)] len [OF k(3,4)] len [OF k(5,6)] by simp
  moreover have "\<not> y < 0"
  proof
    assume "y < 0"
    then have "s ! 0 = u16_of 45" unfolding T time_text_def show_int_def by simp
    with assms(3) show False by (simp add: js_digit_def)
  qed
  ultimately have "length (show_nat (nat y)) = 4" "0 \<le> y" by (simp_all add: show_int_def)
  then have "1000 \<le> y \<and> y < 10000" unfolding length_show_nat_4 by linarith
  then show ?thesis by (simp only: d_def [symmetric] y_def [symmetric])
qed

text \<open>C40: Of the texts \<open>parseKerberosTime\<close> accepts, those that \<open>formatKerberosTime\<close> writes again are the ones whose
  groups are a date of the calendar, of a year from 1000 on, and a time of the clock; any other is read as some other moment.\<close>

theorem kerberos_time_faithful_iff:
  assumes "parseKerberosTime s = Inr x" and "time_fields s = (y, m, dt, h, mi, sec)"
  shows "formatKerberosTime x = Inr s
    \<longleftrightarrow> 1000 \<le> y \<and> calendar_date y (m - 1) dt \<and> h < 24 \<and> mi < 60 \<and> sec < 60"
proof -
  from parse_time_cases [OF assms(1)] obtain a b c d e f g h' i j k l m' n where
    s: "s = [a, b, c, d, e, f, g, h', i, j, k, l, m', n, u16_of 90]" and dig: "list_all js_digit [a, b, c, d, e, f, g, h', i, j, k, l, m', n]"
    and x0: "x = TimeValue (date_UTC (digits [a, b, c, d]) (digits [e, f] - 1) (digits [g, h']) (digits [i, j]) (digits [k, l]) (digits [m', n]))" .
  have fld: "y = digits [a, b, c, d]" "m = digits [e, f]" "dt = digits [g, h']" "h = digits [i, j]" "mi = digits [k, l]" "sec = digits [m', n]"
    using assms(2) by (simp_all add: time_fields_def s)
  define t where "t = date_UTC y (m - 1) dt h mi sec"
  have x: "x = TimeValue t" by (simp only: x0 t_def fld)
  show ?thesis
  proof (rule iffI)
    assume real: "1000 \<le> y \<and> calendar_date y (m - 1) dt \<and> h < 24 \<and> mi < 60 \<and> sec < 60"
    define dd where "dd = make_day y (m - 1) dt"
    define r where "r = h * 3600000 + mi * 60000 + sec * 1000"
    have pos: "0 \<le> h" "0 \<le> mi" "0 \<le> sec" using two_digits dig by (simp_all add: fld)
    with real have r: "0 \<le> r" "r < 86400000" by (simp_all add: r_def)
    have t: "t = dd * 86400000 + r" using real by (simp add: t_def date_UTC_def dd_def r_def)
    note dc = day_and_clock [OF r, of dd, folded t]
    note day = day_of_make_day [of y "m - 1" dt, folded dd_def] real
    have clock: "r div 3600000 = h" "r div 60000 mod 60 = mi" "r div 1000 mod 60 = sec"
    proof -
      have r1: "r = 3600000 * h + (mi * 60000 + sec * 1000)" "r = 60000 * (60 * h + mi) + sec * 1000" "r = 1000 * (60 * (60 * h + mi) + sec) + 0"
        by (simp_all add: r_def)
      show "r div 3600000 = h" using int_div_pos_eq [OF r1(1)] pos real by simp
      have "r div 60000 = 60 * h + mi" "r div 1000 = 60 * (60 * h + mi) + sec"
        using int_div_pos_eq [OF r1(2)] int_div_pos_eq [OF r1(3)] pos real by simp_all
      then show "r div 60000 mod 60 = mi" "r div 1000 mod 60 = sec"
        using int_mod_pos_eq [of "60 * h + mi" 60 h mi] int_mod_pos_eq [of "60 * (60 * h + mi) + sec" 60 "60 * h + mi" sec] pos real by simp_all
    qed
    have "formatKerberosTime x = Inr (time_text y m dt h mi sec)"
      using day by (simp add: x format_time_text Let_def dc clock)
    also have "time_text y m dt h mi sec = s"
      using dig real four_digits [of a b c d] two_digits by (simp add: time_text_def fld s)
    finally show "formatKerberosTime x = Inr s" .
  next
    assume "formatKerberosTime x = Inr s"
    then have f: "formatKerberosTime (TimeValue t) = Inr s" by (simp only: x)
    have yr: "1000 \<le> year_from_day (t div 86400000) \<and> year_from_day (t div 86400000) < 10000"
      by (rule time_text_year [OF f]) (use dig s in simp_all)
    from time_text_of_time [OF conjunct1 [OF yr] conjunct2 [OF yr]] obtain us where us: "formatKerberosTime (TimeValue t) = Inr (us @ [u16_of 90])"
      "time_fields (us @ [u16_of 90]) = (year_from_day (t div 86400000), int (month_from_day (t div 86400000)) + 1, date_from_day (t div 86400000),
         t mod 86400000 div 3600000, t mod 86400000 div 60000 mod 60, t mod 86400000 div 1000 mod 60)"
      by (elim exE conjE) blast
    have "us @ [u16_of 90] = s" by (rule sum.inject(2) [THEN iffD1, OF trans [OF us(1) [symmetric] f]])
    from us(2) [unfolded this assms(2)]
    have "y = year_from_day (t div 86400000)" "m = int (month_from_day (t div 86400000)) + 1" "dt = date_from_day (t div 86400000)"
      "h = t mod 86400000 div 3600000" "mi = t mod 86400000 div 60000 mod 60" "sec = t mod 86400000 div 1000 mod 60"
      by (simp_all only: prod.inject)
    then show "1000 \<le> y \<and> calendar_date y (m - 1) dt \<and> h < 24 \<and> mi < 60 \<and> sec < 60"
      using yr clock_range [of t] calendar_date_of_day [of "t div 86400000"] by (simp only: add_diff_cancel_right' simp_thms)
  qed
qed

lemma kerberos_time_faithful_iff_witness:
  "formatKerberosTime (TimeValue (date_UTC 2023 1 31 99 0 0)) = Inr (js_ascii ''20230231990000Z'')
    \<longleftrightarrow> 1000 \<le> (2023 :: int) \<and> calendar_date 2023 (2 - 1) 31 \<and> (99 :: int) < 24 \<and> (0 :: int) < 60 \<and> (0 :: int) < 60"
  by (rule kerberos_time_faithful_iff)
    (simp_all add: parseKerberosTime_def time_fields_def js_digit_def digits_def u16_of_def)

end
