(* ===== verification/Krb5_Records.thy ===== *)
theory Krb5_Records
  imports Krb5_Time
begin

text \<open>
  How the Kerberos messages (\<open>common/krb5/krb5_messages.js\<close>) use the DER codec, and the interface between the two.

  \<^item> \<open>tagged\<close> is the array of fields handed to \<open>encTaggedSequence\<close>, evaluated from left to right: a value that throws
    throws the call.  \<open>req\<close> is a field that is always written, \<open>opt\<close> one that is written if there is something.
  \<^item> \<open>field\<close> reads a field that must be there (what a reader does with \<open>undefined\<close> throws, \<open>NoElement\<close>), \<open>opt_field\<close>
    one that may be missing.
  \<^item> The locale \<open>der_codec\<close> is the contract of a writer and the reader of one structure: what is written is one element,
    and reading that element, wherever it stood, gives the value back in its normal form \<open>view\<close>.  Fields, optional fields
    and sequences of the structure then read back too, and \<open>tagged_read\<close> puts the fields of a record together.
\<close>

named_theorems codec_intros "what the fields of a record promise when they are written"

declare option.map_ident [simp]

subsection \<open>Writing and reading fields\<close>

definition req :: "'e + bytes \<Rightarrow> 'e + bytes option" where
  "req v = rbind v (\<lambda>b. Inr (Some b))"

definition opt :: "('a \<Rightarrow> 'e + bytes) \<Rightarrow> 'a option \<Rightarrow> 'e + bytes option" where
  "opt enc x = (case x of None \<Rightarrow> Inr None | Some y \<Rightarrow> req (enc y))"

text \<open>A list that counts as missing when it is empty, the test \<open>x && x.length\<close>.\<close>

definition nonempty :: "'a list option \<Rightarrow> 'a list option" where
  "nonempty x = (case x of Some [] \<Rightarrow> None | _ \<Rightarrow> x)"

definition tagged :: "(nat \<times> (asn1_error + bytes option)) list \<Rightarrow> asn1_error + bytes" where
  "tagged fs = rbind (rmap (\<lambda>(n, v). rbind v (\<lambda>b. Inr (Some (int n, b)))) fs) encTaggedSequence"

definition encSeqOf :: "('a \<Rightarrow> asn1_error + bytes) \<Rightarrow> 'a list \<Rightarrow> asn1_error + bytes" where
  "encSeqOf enc xs = rbind (rmap enc xs) encSequence"

definition field :: "tlv_t option \<Rightarrow> (tlv_t \<Rightarrow> asn1_error + 'a) \<Rightarrow> asn1_error + 'a" where
  "field t dec = (case t of None \<Rightarrow> Inl NoElement | Some t \<Rightarrow> dec t)"

definition opt_field :: "tlv_t option \<Rightarrow> (tlv_t \<Rightarrow> asn1_error + 'a) \<Rightarrow> asn1_error + 'a option" where
  "opt_field t dec = (case t of None \<Rightarrow> Inr None | Some t \<Rightarrow> rbind (dec t) (\<lambda>x. Inr (Some x)))"

definition decSeqOf :: "(tlv_t \<Rightarrow> asn1_error + 'a) \<Rightarrow> tlv_t \<Rightarrow> asn1_error + 'a list" where
  "decSeqOf dec t = rbind (decSequenceOf t) (rmap dec)"

text \<open>The map of the fields of a structure, and of the structure inside an [APPLICATION n].\<close>

definition fields_of :: "tlv_t \<Rightarrow> asn1_error + (nat \<rightharpoonup> tlv_t)" where
  "fields_of t = readTaggedSequence (t_value t) 0"

definition application_fields :: "bytes \<Rightarrow> nat \<Rightarrow> asn1_error + (nat \<rightharpoonup> tlv_t)" where
  "application_fields b n = rbind (readApplication b (Some n)) (\<lambda>a. fields_of (a_sequence a))"

lemma opt_simps [simp]: "opt enc None = Inr None" "opt enc (Some x) = req (enc x)"
  by (simp_all add: opt_def)

lemma opt_eq_Inr: "opt enc x = Inr y \<Longrightarrow> (x = None \<and> y = None) \<or> (\<exists>v b. x = Some v \<and> y = Some b \<and> enc v = Inr b)"
  by (cases x) (auto simp: req_def rbind_eq_Inr)

lemma nonempty_simps [simp]: "nonempty None = None" "nonempty (Some []) = None" "nonempty (Some (x # xs)) = Some (x # xs)"
  by (simp_all add: nonempty_def)

subsection \<open>What is written is read\<close>

text \<open>What a field that was written promises of the element the reader finds under its tag.\<close>

definition stands :: "asn1_error + bytes option \<Rightarrow> (tlv_t option \<Rightarrow> bool) \<Rightarrow> bool" where
  "stands v R \<longleftrightarrow>
     (\<forall>b. v = Inr b \<longrightarrow>
       (case b of None \<Rightarrow> R None
        | Some b \<Rightarrow> \<exists>y. b = der_encode y \<and> der_valid y \<and> (\<forall>p. R (Some (der_placed p y)))))"

definition all_stand :: "(nat \<times> (asn1_error + bytes option)) list \<Rightarrow> (nat \<times> (tlv_t option \<Rightarrow> bool)) list \<Rightarrow> bool" where
  "all_stand fs Rs \<longleftrightarrow> list_all2 (\<lambda>(n, v) (k, R). n = k \<and> n \<le> 30 \<and> stands v R) fs Rs"

lemma all_stand_Nil [codec_intros]: "all_stand [] []"
  by (simp add: all_stand_def)

lemma all_stand_Cons [codec_intros]: "stands v R \<Longrightarrow> all_stand fs Rs \<Longrightarrow> n \<le> 30 \<Longrightarrow> all_stand ((n, v) # fs) ((n, R) # Rs)"
  by (simp add: all_stand_def)

lemma all_stand_tags: "all_stand fs Rs \<Longrightarrow> map fst Rs = map fst fs"
  unfolding all_stand_def by (induction rule: list_all2_induct) auto

lemma tagged_fields:
  assumes "all_stand fs Rs" and "rmap (\<lambda>(n, v). rbind v (\<lambda>b. Inr (Some (int n, b)))) fs = Inr ps"
    and "distinct (map fst fs)"
  shows "\<exists>es. present_fields ps = map (\<lambda>(n, e). (int n, der_encode e)) es \<and> (\<forall>(n, e)\<in>set es. n \<le> 30 \<and> der_valid e)
    \<and> fst ` set es \<subseteq> set (map fst fs) \<and> distinct (map fst es)
    \<and> (\<forall>(k, R)\<in>set Rs. R (map_option (der_placed 0) (map_of es k)))"
  using assms
proof (induction fs arbitrary: Rs ps)
  case Nil
  then show ?case by (auto simp: all_stand_def intro!: exI [of _ "[]"])
next
  case (Cons f fs)
  obtain n v where f: "f = (n, v)" by (cases f)
  from Cons.prems(1) obtain R Rs' where Rs: "Rs = (n, R) # Rs'" and n: "n \<le> 30" and st: "stands v R" and rest: "all_stand fs Rs'"
    by (auto simp: all_stand_def f list_all2_Cons1)
  from Cons.prems(2) obtain b ps' where v: "v = Inr b" and ps: "ps = Some (int n, b) # ps'"
    and rps: "rmap (\<lambda>(n, v). rbind v (\<lambda>b. Inr (Some (int n, b)))) fs = Inr ps'"
    by (auto simp: f rbind_eq_Inr)
  from Cons.prems(3) have nf: "n \<notin> set (map fst fs)" and df: "distinct (map fst fs)" by (simp_all add: f)
  from Cons.IH [OF rest rps df] obtain es where es: "present_fields ps' = map (\<lambda>(n, e). (int n, der_encode e)) es"
    "\<forall>(n, e)\<in>set es. n \<le> 30 \<and> der_valid e" "fst ` set es \<subseteq> set (map fst fs)" "distinct (map fst es)"
    "\<forall>(k, R)\<in>set Rs'. R (map_option (der_placed 0) (map_of es k))" by blast
  from nf es(3) have fresh: "n \<notin> fst ` set es" by auto
  show ?case
  proof (cases b)
    case None
    with fresh have "map_of es n = None" by (simp add: map_of_eq_None_iff)
    with es st v None show ?thesis
      by (intro exI [of _ es]) (auto simp: ps f Rs stands_def)
  next
    case (Some c)
    with st v obtain y where y: "c = der_encode y" "der_valid y" "R (Some (der_placed 0 y))" by (auto simp: stands_def)
    have "k \<noteq> n" if "(k, R) \<in> set Rs'" for k R
      using that nf all_stand_tags [OF rest] by (metis fst_conv image_eqI set_map)
    then have "\<forall>(k, R)\<in>set Rs'. R (map_option (der_placed 0) (map_of ((n, y) # es) k))" using es(5) by auto
    moreover have "fst ` set ((n, y) # es) \<subseteq> set (map fst (f # fs))" using es(3) by (auto simp: f)
    ultimately show ?thesis using es(1,2,4) y n fresh Some
      by (intro exI [of _ "(n, y) # es"]) (simp add: ps Rs)
  qed
qed

lemma map_of_rev_distinct: "distinct (map fst es) \<Longrightarrow> map_of (rev es) = map_of es"
  by (metis distinct_rev map_of_inject_set rev_map set_rev)

text \<open>The fields of a record that was written, together.\<close>

lemma tagged_read:
  assumes "tagged fs = Inr e" and "all_stand fs Rs" and "distinct (map fst fs)"
  obtains body m where "e = der_encode (TAG_SEQUENCE, body)" "der_valid (TAG_SEQUENCE, body)"
    "readTaggedSequence body 0 = Inr m" "list_all (\<lambda>(k, R). R (m k)) Rs"
proof -
  from assms(1) obtain ps where ps: "rmap (\<lambda>(n, v). rbind v (\<lambda>b. Inr (Some (int n, b)))) fs = Inr ps"
    and e: "encTaggedSequence ps = Inr e" by (auto simp: tagged_def rbind_eq_Inr)
  from tagged_fields [OF assms(2) ps assms(3)] obtain es where
    es: "present_fields ps = map (\<lambda>(n, e). (int n, der_encode e)) es" "\<forall>(n, e)\<in>set es. n \<le> 30 \<and> der_valid e"
      "distinct (map fst es)" "\<forall>(k, R)\<in>set Rs. R (map_option (der_placed 0) (map_of es k))" by blast
  from taggedSequence_encoded [OF es(1,2) e, of 0] obtain body where
    b: "tlv TAG_SEQUENCE body = Inr e" "readTaggedSequence body 0 = Inr (field_map es)" by (auto simp: MAX_DEPTH_def)
  from es(3,4) have "list_all (\<lambda>(k, R). R (field_map es k)) Rs"
    by (simp add: list_all_iff field_map_def map_of_rev_distinct)
  with b that show thesis by (auto simp: tlv_eq_Inr der_valid_def)
qed

lemma tagged_codec:
  assumes "tagged fs = Inr e" and "all_stand fs Rs" and "distinct (map fst fs)"
    and "\<And>t m. fields_of t = Inr m \<Longrightarrow> t_raw t = e \<Longrightarrow> list_all (\<lambda>(k, R). R (m k)) Rs \<Longrightarrow> dec t = Inr x"
  shows "\<exists>y. e = der_encode y \<and> der_valid y \<and> (\<forall>p. dec (der_placed p y) = Inr x)"
proof -
  from tagged_read [OF assms(1-3)] obtain body m where b: "e = der_encode (TAG_SEQUENCE, body)" "der_valid (TAG_SEQUENCE, body)"
    "readTaggedSequence body 0 = Inr m" "list_all (\<lambda>(k, R). R (m k)) Rs" .
  have "dec (der_placed p (TAG_SEQUENCE, body)) = Inr x" for p
    using b by (intro assms(4) [of _ m]) (simp_all add: fields_of_def der_placed_def)
  with b show ?thesis by blast
qed

text \<open>The same inside an [APPLICATION n].\<close>

lemma application_codec:
  assumes "rbind (tagged fs) (encApplication (int n)) = Inr b" and "all_stand fs Rs" and "distinct (map fst fs)"
    and "length b \<le> MAX_INPUT_BYTES"
    and "\<And>a m. readApplication b None = Inr a \<Longrightarrow> a_number a = n \<Longrightarrow> fields_of (a_sequence a) = Inr m \<Longrightarrow>
      application_fields b n = Inr m \<Longrightarrow> list_all (\<lambda>(k, R). R (m k)) Rs \<Longrightarrow> dec b = Inr x"
  shows "dec b = Inr x"
proof -
  from assms(1) obtain e where e: "tagged fs = Inr e" and b: "encApplication (int n) e = Inr b" by (auto simp: rbind_eq_Inr)
  from tagged_read [OF e assms(2,3)] obtain body m where body: "e = der_encode (TAG_SEQUENCE, body)" "der_valid (TAG_SEQUENCE, body)"
    "readTaggedSequence body 0 = Inr m" "list_all (\<lambda>(k, R). R (m k)) Rs" .
  from readApplication_readback [OF b body(1,2) assms(4), of None] obtain a where
    a: "readApplication b None = Inr a" "a_number a = n" "t_value (a_sequence a) = body" by auto
  from readApplication_readback [OF b body(1,2) assms(4), of "Some n"] obtain a' where
    a': "readApplication b (Some n) = Inr a'" "t_value (a_sequence a') = body" by auto
  show ?thesis
    using a a' body by (intro assms(5) [of a m]) (simp_all add: fields_of_def application_fields_def)
qed

text \<open>A message is itself one element.\<close>

lemma application_element:
  "encApplication (int n) e = Inr b \<Longrightarrow> \<exists>y. b = der_encode y \<and> der_valid y \<and> fst y = 0x60 OR byte_of n"
  by (auto simp: encApplication_def applicationTag_def rbind_eq_Inr tlv_eq_Inr der_valid_def split: if_splits)

subsection \<open>Codecs\<close>

locale der_codec =
  fixes enc :: "'a \<Rightarrow> asn1_error + bytes" and dec :: "tlv_t \<Rightarrow> asn1_error + 'a"
    and ok :: "'a \<Rightarrow> bool" and view :: "'a \<Rightarrow> 'a"
  assumes written_reads: "ok x \<Longrightarrow> enc x = Inr e \<Longrightarrow>
    \<exists>y. e = der_encode y \<and> der_valid y \<and> (\<forall>p. dec (der_placed p y) = Inr (view x))"
begin

lemma req [codec_intros]: "ok x \<Longrightarrow> stands (req (enc x)) (\<lambda>t. field t dec = Inr (view x))"
  using written_reads [of x] by (auto simp: stands_def req_def rbind_eq_Inr field_def)

lemma req_opt: "ok x \<Longrightarrow> stands (req (enc x)) (\<lambda>t. opt_field t dec = Inr (Some (view x)))"
  using written_reads [of x] by (auto simp: stands_def req_def rbind_eq_Inr opt_field_def)

lemma opt [codec_intros]: "pred_option ok x \<Longrightarrow> stands (opt enc x) (\<lambda>t. opt_field t dec = Inr (map_option view x))"
  using req_opt by (cases x) (auto simp: stands_def opt_field_def)

lemma list_read:
  assumes "list_all ok xs" and "rmap enc xs = Inr es"
  shows "\<exists>ys. es = map der_encode ys \<and> list_all der_valid ys
    \<and> (\<forall>p. rmap dec (place_all der_placed der_encode p ys) = Inr (map view xs))"
  using assms
proof (induction xs arbitrary: es)
  case Nil
  then show ?case by simp
next
  case (Cons x xs)
  from Cons.prems obtain e es' where e: "enc x = Inr e" "es = e # es'" and r: "rmap enc xs = Inr es'"
    by (auto simp: rbind_eq_Inr)
  from written_reads [OF _ e(1)] Cons.prems(1) obtain y where
    y: "e = der_encode y" "der_valid y" "\<forall>p. dec (der_placed p y) = Inr (view x)" by auto
  from Cons.IH [OF _ r] Cons.prems(1) obtain ys where ys: "es' = map der_encode ys" "list_all der_valid ys"
    "\<forall>p. rmap dec (place_all der_placed der_encode p ys) = Inr (map view xs)" by auto
  from y ys show ?case by (intro exI [of _ "y # ys"]) (simp add: e(2))
qed

lemma sequence: "der_codec (encSeqOf enc) (decSeqOf dec) (list_all ok) (map view)"
proof
  fix xs e
  assume "list_all ok xs" and "encSeqOf enc xs = Inr e"
  then obtain es where "rmap enc xs = Inr es" and e: "tlv TAG_SEQUENCE (concat es) = Inr e"
    by (auto simp: encSeqOf_def encSequence_def rbind_eq_Inr)
  with list_read [OF \<open>list_all ok xs\<close>] obtain ys where ys: "es = map der_encode ys" "list_all der_valid ys"
    "\<forall>p. rmap dec (place_all der_placed der_encode p ys) = Inr (map view xs)" by blast
  have "readChildren (concat es) 0 = Inr (place_all der_placed der_encode 0 ys)"
    using children.read_all_encoded [of ys 0 "[]"] ys(1,2) by (simp add: readChildren_def list_all_iff MAX_DEPTH_def)
  with e ys(3) show "\<exists>y. e = der_encode y \<and> der_valid y \<and> (\<forall>p. decSeqOf dec (der_placed p y) = Inr (map view xs))"
    by (intro exI [of _ "(TAG_SEQUENCE, concat es)"])
      (simp add: tlv_eq_Inr der_valid_def decSeqOf_def decSequenceOf_def expectTag_def der_placed_def)
qed

end

subsection \<open>The values inside the fields\<close>

text \<open>The numbers \<open>decInteger\<close> reads.\<close>

definition int48 :: "int \<Rightarrow> bool" where
  "int48 n \<longleftrightarrow> - (2 ^ 47) \<le> n \<and> n < 2 ^ 47"

text \<open>Flags as \<open>bitsFromFlags\<close> returns them.\<close>

definition flags_ok :: "int list \<Rightarrow> bool" where
  "flags_ok bs \<longleftrightarrow> sorted_wrt (<) bs \<and> (\<forall>b\<in>set bs. 0 \<le> b \<and> b \<le> 31)"

definition decFlagBits :: "tlv_t \<Rightarrow> asn1_error + int list" where
  "decFlagBits t = rbind (decFlags t) (\<lambda>fl. Inr (map int (bitsFromFlags fl)))"

text \<open>A time that the reader can return: a whole number of seconds of the years 1000 to 9999.\<close>

definition time_ok :: "js_date \<Rightarrow> bool" where
  "time_ok x = (case x of TimeValue t \<Rightarrow> t mod 1000 = 0 \<and> time_expressible t | InvalidDate \<Rightarrow> False)"

lemma der_placed_sel [simp]: "t_tag (der_placed p y) = fst y" "t_value (der_placed p y) = snd y" "t_raw (der_placed p y) = der_encode y"
  by (simp_all add: der_placed_def)

interpretation der_int: der_codec "\<lambda>n. encInteger (Whole n)" decInteger int48 "\<lambda>n. n"
proof
  fix n e
  assume n: "int48 n" and "encInteger (Whole n) = Inr e"
  then obtain bs where bs: "integerContent (Whole n) = Inr bs" and e: "tlv TAG_INTEGER bs = Inr e"
    by (auto simp: encInteger_def rbind_eq_Inr)
  have "length bs \<le> 6" using integerContent_length [OF bs, of 6] n by (simp add: int48_def)
  with e integerContent_shortest [OF bs] show "\<exists>y. e = der_encode y \<and> der_valid y \<and> (\<forall>p. decInteger (der_placed p y) = Inr n)"
    by (intro exI [of _ "(TAG_INTEGER, bs)"]) (simp add: tlv_eq_Inr der_valid_def decInteger_value)
qed

interpretation der_octets: der_codec encOctetString decOctetString "\<lambda>b. True" "\<lambda>b. b"
  by unfold_locales
    (auto simp: encOctetString_def tlv_eq_Inr der_valid_def decOctetString_def expectTag_def intro!: exI [of _ "(TAG_OCTET_STRING, _)"])

interpretation der_string: der_codec encGeneralString decGeneralString wf_utf16 "\<lambda>s. s"
proof
  fix s e
  assume "wf_utf16 s" and "encGeneralString s = Inr e"
  then show "\<exists>y. e = der_encode y \<and> der_valid y \<and> (\<forall>p. decGeneralString (der_placed p y) = Inr s)"
    by (intro exI [of _ "(TAG_GENERAL_STRING, utf8 s)"])
      (simp add: encGeneralString_def tlv_eq_Inr der_valid_def decGeneralString_def utf8_or_latin1_def fromUtf8_utf8)
qed

lemma flags_canonical: "flags_ok bs \<Longrightarrow> map int (sorted_list_of_set (nat ` set bs)) = bs"
proof -
  assume ok: "flags_ok bs"
  then have "sorted_wrt (<) (map nat bs)"
    unfolding flags_ok_def sorted_wrt_map by (elim conjE) (rule sorted_wrt_mono_rel [of bs "(<)"], auto)
  then have "sorted (map nat bs)" "distinct (map nat bs)" by (auto simp: strict_sorted_iff)
  then have "sorted_list_of_set (nat ` set bs) = map nat bs"
    by (metis list.set_map sorted_list_of_set.idem_if_sorted_distinct)
  with ok show ?thesis by (simp add: flags_ok_def map_idI)
qed

interpretation der_flags: der_codec encFlags decFlagBits flags_ok "\<lambda>bs. bs"
proof
  fix bs e
  assume ok: "flags_ok bs" and e: "encFlags bs = Inr e"
  then have range: "\<forall>b\<in>set bs. 0 \<le> b \<and> b \<le> 31" by (simp add: flags_ok_def)
  from encFlags_loop_ok [OF this, of "replicate 4 0"] obtain out where
    out: "encFlags_loop bs (replicate 4 0) = Inr out" "length out = 4" "\<And>i. flag_set out i \<longleftrightarrow> int i \<in> set bs"
    using flag_set_zero by auto
  from e out(1) have "tlv TAG_BIT_STRING (0 # out) = Inr e" by (simp add: encFlags_def)
  with flags_sorted [OF out(2,3) range] flags_canonical [OF ok]
  show "\<exists>y. e = der_encode y \<and> der_valid y \<and> (\<forall>p. decFlagBits (der_placed p y) = Inr bs)"
    by (intro exI [of _ "(TAG_BIT_STRING, 0 # out)"])
      (simp add: tlv_eq_Inr der_valid_def decFlagBits_def decFlags_def expectTag_def)
qed

interpretation der_time: der_codec encKerberosTime decKerberosTime time_ok "\<lambda>x. x"
proof
  fix x e
  assume "time_ok x" and e: "encKerberosTime x = Inr e"
  then obtain t where x: "x = TimeValue t" and t: "t mod 1000 = 0" "time_expressible t" by (auto simp: time_ok_def split: js_date.splits)
  from t(1) have "1000 * (t div 1000) = t" using mult_div_mod_eq [of 1000 t] by simp
  with encKerberosTime_encodes [OF t(2)] e x
  show "\<exists>y. e = der_encode y \<and> der_valid y \<and> (\<forall>p. decKerberosTime (der_placed p y) = Inr x)"
    by (auto simp: der_valid_def decKerberosTime_def expectTag_def intro!: exI [of _ "(TAG_GENERALIZED_TIME, _)"])
qed

interpretation der_ints: der_codec "encSeqOf (\<lambda>n. encInteger (Whole n))" "decSeqOf decInteger" "list_all int48" "map (\<lambda>n. n)"
  by (rule der_int.sequence)

interpretation der_strings: der_codec "encSeqOf encGeneralString" "decSeqOf decGeneralString" "list_all wf_utf16" "map (\<lambda>s. s)"
  by (rule der_string.sequence)

end
