(* ===== verification/Krb5_Messages.thy ===== *)
theory Krb5_Messages
  imports Krb5_Records
begin

text \<open>
  The Kerberos v5 messages (\<open>common/krb5/krb5_messages.js\<close>): a record per structure, its writer \<open>encX\<close> and its reader
  \<open>readX\<close>, in the order of the source.  A reader of a nested structure takes the element, a reader of a whole message its
  bytes.  A field the source leaves \<open>undefined\<close> or \<open>null\<close> is \<open>None\<close>.  What the readers add for display only, the names
  of encryption and padata types and the prose of an error code, is left out.
\<close>

subsection \<open>Constants\<close>

definition PVNO :: int where "PVNO = 5"

definition MSG_TGS_REQ :: int where "MSG_TGS_REQ = 12"
definition MSG_TGS_REP :: int where "MSG_TGS_REP = 13"
definition MSG_AP_REQ :: int where "MSG_AP_REQ = 14"
definition MSG_AP_REP :: int where "MSG_AP_REP = 15"
definition MSG_CRED :: int where "MSG_CRED = 22"
definition MSG_ERROR :: int where "MSG_ERROR = 30"

definition APP_TICKET :: nat where "APP_TICKET = 1"
definition APP_AUTHENTICATOR :: nat where "APP_AUTHENTICATOR = 2"
definition APP_ENC_TICKET_PART :: nat where "APP_ENC_TICKET_PART = 3"
definition APP_AS_REQ :: nat where "APP_AS_REQ = 10"
definition APP_AS_REP :: nat where "APP_AS_REP = 11"
definition APP_TGS_REQ :: nat where "APP_TGS_REQ = 12"
definition APP_TGS_REP :: nat where "APP_TGS_REP = 13"
definition APP_AP_REQ :: nat where "APP_AP_REQ = 14"
definition APP_AP_REP :: nat where "APP_AP_REP = 15"
definition APP_KRB_CRED :: nat where "APP_KRB_CRED = 22"
definition APP_ENC_AS_REP_PART :: nat where "APP_ENC_AS_REP_PART = 25"
definition APP_ENC_TGS_REP_PART :: nat where "APP_ENC_TGS_REP_PART = 26"
definition APP_ENC_AP_REP_PART :: nat where "APP_ENC_AP_REP_PART = 27"
definition APP_ENC_KRB_CRED_PART :: nat where "APP_ENC_KRB_CRED_PART = 29"
definition APP_KRB_ERROR :: nat where "APP_KRB_ERROR = 30"

lemmas krb5_constants = PVNO_def MSG_TGS_REQ_def MSG_TGS_REP_def MSG_AP_REQ_def MSG_AP_REP_def MSG_CRED_def MSG_ERROR_def
  APP_TICKET_def APP_AUTHENTICATOR_def APP_ENC_TICKET_PART_def APP_AS_REQ_def APP_AS_REP_def APP_TGS_REQ_def APP_TGS_REP_def
  APP_AP_REQ_def APP_AP_REP_def APP_KRB_CRED_def APP_ENC_AS_REP_PART_def APP_ENC_TGS_REP_PART_def APP_ENC_AP_REP_PART_def
  APP_ENC_KRB_CRED_PART_def APP_KRB_ERROR_def

definition NT_PRINCIPAL :: int where "NT_PRINCIPAL = 1"
definition NT_SRV_INST :: int where "NT_SRV_INST = 2"
definition NT_SRV_HST :: int where "NT_SRV_HST = 3"

text \<open>The tags inside the array of fields are numbers, and an INTEGER in a message is a whole one.\<close>

abbreviation encInt :: "int \<Rightarrow> asn1_error + bytes" where
  "encInt n \<equiv> encInteger (Whole n)"

subsection \<open>Shared structures\<close>

text \<open>A name given as one text is the list of that text.\<close>

record principal =
  pn_type :: "int option"
  pn_name :: "jstring list"

definition encPrincipalName :: "principal \<Rightarrow> asn1_error + bytes" where
  "encPrincipalName p =
     tagged [(0, req (encInt (case pn_type p of None \<Rightarrow> NT_PRINCIPAL | Some t \<Rightarrow> t))),
             (1, req (encSeqOf encGeneralString (pn_name p)))]"

definition readPrincipalName :: "tlv_t \<Rightarrow> asn1_error + principal" where
  "readPrincipalName t =
     rbind (fields_of t) (\<lambda>f.
     rbind (field (f 0) decInteger) (\<lambda>ty.
     rbind (field (f 1) (decSeqOf decGeneralString)) (\<lambda>nm.
     Inr \<lparr>pn_type = Some ty, pn_name = nm\<rparr>)))"

record encrypted_data =
  ed_etype :: int
  ed_kvno :: "int option"
  ed_cipher :: bytes

definition encEncryptedData :: "encrypted_data \<Rightarrow> asn1_error + bytes" where
  "encEncryptedData d =
     tagged [(0, req (encInt (ed_etype d))), (1, opt encInt (ed_kvno d)), (2, req (encOctetString (ed_cipher d)))]"

definition readEncryptedData :: "tlv_t \<Rightarrow> asn1_error + encrypted_data" where
  "readEncryptedData t =
     rbind (fields_of t) (\<lambda>f.
     rbind (field (f 0) decInteger) (\<lambda>et.
     rbind (opt_field (f 1) decInteger) (\<lambda>kv.
     rbind (field (f 2) decOctetString) (\<lambda>c.
     Inr \<lparr>ed_etype = et, ed_kvno = kv, ed_cipher = c\<rparr>))))"

record encryption_key =
  ek_etype :: int
  ek_key :: bytes

definition encEncryptionKey :: "encryption_key \<Rightarrow> asn1_error + bytes" where
  "encEncryptionKey k = tagged [(0, req (encInt (ek_etype k))), (1, req (encOctetString (ek_key k)))]"

definition readEncryptionKey :: "tlv_t \<Rightarrow> asn1_error + encryption_key" where
  "readEncryptionKey t =
     rbind (fields_of t) (\<lambda>f.
     rbind (field (f 0) decInteger) (\<lambda>et.
     rbind (field (f 1) decOctetString) (\<lambda>k.
     Inr \<lparr>ek_etype = et, ek_key = k\<rparr>)))"

record krb_checksum =
  ck_type :: int
  ck_checksum :: bytes

definition encChecksum :: "krb_checksum \<Rightarrow> asn1_error + bytes" where
  "encChecksum c = tagged [(0, req (encInt (ck_type c))), (1, req (encOctetString (ck_checksum c)))]"

definition readChecksum :: "tlv_t \<Rightarrow> asn1_error + krb_checksum" where
  "readChecksum t =
     rbind (fields_of t) (\<lambda>f.
     rbind (field (f 0) decInteger) (\<lambda>ty.
     rbind (field (f 1) decOctetString) (\<lambda>c.
     Inr \<lparr>ck_type = ty, ck_checksum = c\<rparr>)))"

text \<open>The fields of PA-DATA are numbered from one; a missing value reads as the empty one.\<close>

record pa_data =
  pa_type :: int
  pa_value :: bytes

definition encPaData :: "pa_data \<Rightarrow> asn1_error + bytes" where
  "encPaData pa = tagged [(1, req (encInt (pa_type pa))), (2, req (encOctetString (pa_value pa)))]"

definition readPaData :: "tlv_t \<Rightarrow> asn1_error + pa_data" where
  "readPaData t =
     rbind (fields_of t) (\<lambda>f.
     rbind (field (f 1) decInteger) (\<lambda>ty.
     rbind (opt_field (f 2) decOctetString) (\<lambda>v.
     Inr \<lparr>pa_type = ty, pa_value = (case v of None \<Rightarrow> [] | Some v \<Rightarrow> v)\<rparr>)))"

record host_address =
  ha_type :: int
  ha_address :: bytes

definition encHostAddress :: "host_address \<Rightarrow> asn1_error + bytes" where
  "encHostAddress a = tagged [(0, req (encInt (ha_type a))), (1, req (encOctetString (ha_address a)))]"

definition readHostAddress :: "tlv_t \<Rightarrow> asn1_error + host_address" where
  "readHostAddress t =
     rbind (fields_of t) (\<lambda>f.
     rbind (field (f 0) decInteger) (\<lambda>ty.
     rbind (field (f 1) decOctetString) (\<lambda>a.
     Inr \<lparr>ha_type = ty, ha_address = a\<rparr>)))"

definition encHostAddresses :: "host_address list \<Rightarrow> asn1_error + bytes" where
  "encHostAddresses as =
     encSeqOf (\<lambda>a. tagged [(0, req (encInt (ha_type a))), (1, req (encOctetString (ha_address a)))]) as"

definition readHostAddresses :: "tlv_t \<Rightarrow> asn1_error + host_address list" where
  "readHostAddresses t =
     decSeqOf (\<lambda>a.
       rbind (fields_of a) (\<lambda>f.
       rbind (field (f 0) decInteger) (\<lambda>ty.
       rbind (field (f 1) decOctetString) (\<lambda>ad.
       Inr \<lparr>ha_type = ty, ha_address = ad\<rparr>)))) t"

record auth_data =
  ad_type :: int
  ad_data :: bytes

definition encAuthorizationData :: "auth_data list \<Rightarrow> asn1_error + bytes" where
  "encAuthorizationData es =
     encSeqOf (\<lambda>e. tagged [(0, req (encInt (ad_type e))), (1, req (encOctetString (ad_data e)))]) es"

definition readAuthorizationData :: "tlv_t \<Rightarrow> asn1_error + auth_data list" where
  "readAuthorizationData t =
     decSeqOf (\<lambda>a.
       rbind (fields_of a) (\<lambda>f.
       rbind (field (f 0) decInteger) (\<lambda>ty.
       rbind (field (f 1) decOctetString) (\<lambda>d.
       Inr \<lparr>ad_type = ty, ad_data = d\<rparr>)))) t"

subsection \<open>Tickets\<close>

text \<open>\<open>tk_raw\<close> holds the original bytes of a ticket that was read; they are what is written again.\<close>

record ticket =
  tk_tktVno :: int
  tk_realm :: jstring
  tk_sname :: principal
  tk_encPart :: encrypted_data
  tk_raw :: "bytes option"

definition encTicket :: "ticket \<Rightarrow> asn1_error + bytes" where
  "encTicket k =
     (case tk_raw k of
        Some r \<Rightarrow> Inr r
      | None \<Rightarrow>
          rbind (tagged [(0, req (encInt PVNO)), (1, req (encGeneralString (tk_realm k))),
                         (2, req (encPrincipalName (tk_sname k))), (3, req (encEncryptedData (tk_encPart k)))])
            (encApplication (int APP_TICKET)))"

definition readTicket :: "bytes \<Rightarrow> asn1_error + ticket" where
  "readTicket b =
     rbind (application_fields b APP_TICKET) (\<lambda>f.
     rbind (field (f 0) decInteger) (\<lambda>vno.
     rbind (field (f 1) decGeneralString) (\<lambda>rl.
     rbind (field (f 2) readPrincipalName) (\<lambda>sn.
     rbind (field (f 3) readEncryptedData) (\<lambda>ep.
     Inr \<lparr>tk_tktVno = vno, tk_realm = rl, tk_sname = sn, tk_encPart = ep, tk_raw = Some b\<rparr>)))))"

text \<open>A ticket that arrives as an element: its original bytes.\<close>

definition readTicketElement :: "tlv_t \<Rightarrow> asn1_error + ticket" where
  "readTicketElement t = readTicket (t_raw t)"

record transited_encoding =
  te_type :: int
  te_contents :: bytes

record enc_ticket_part =
  et_flags :: "int list"
  et_key :: encryption_key
  et_crealm :: jstring
  et_cname :: principal
  et_transited :: "transited_encoding option"
  et_authtime :: js_date
  et_starttime :: "js_date option"
  et_endtime :: js_date
  et_renewTill :: "js_date option"
  et_caddr :: "host_address list option"
  et_authorizationData :: "auth_data list option"

definition readTransited :: "tlv_t \<Rightarrow> asn1_error + transited_encoding" where
  "readTransited t =
     rbind (fields_of t) (\<lambda>tf.
     rbind (field (tf 0) decInteger) (\<lambda>ty.
     rbind (field (tf 1) decOctetString) (\<lambda>c.
     Inr \<lparr>te_type = ty, te_contents = c\<rparr>)))"

definition readEncTicketPart :: "bytes \<Rightarrow> asn1_error + enc_ticket_part" where
  "readEncTicketPart b =
     rbind (application_fields b APP_ENC_TICKET_PART) (\<lambda>f.
     rbind (field (f 0) decFlagBits) (\<lambda>fl.
     rbind (field (f 1) readEncryptionKey) (\<lambda>k.
     rbind (field (f 2) decGeneralString) (\<lambda>cr.
     rbind (field (f 3) readPrincipalName) (\<lambda>cn.
     rbind (field (f 4) readTransited) (\<lambda>tr.
     rbind (field (f 5) decKerberosTime) (\<lambda>au.
     rbind (opt_field (f 6) decKerberosTime) (\<lambda>st.
     rbind (field (f 7) decKerberosTime) (\<lambda>en.
     rbind (opt_field (f 8) decKerberosTime) (\<lambda>re.
     rbind (opt_field (f 9) readHostAddresses) (\<lambda>ca.
     rbind (opt_field (f 10) readAuthorizationData) (\<lambda>ad.
     Inr \<lparr>et_flags = fl, et_key = k, et_crealm = cr, et_cname = cn, et_transited = Some tr, et_authtime = au,
          et_starttime = st, et_endtime = en, et_renewTill = re, et_caddr = ca, et_authorizationData = ad\<rparr>))))))))))))"

definition encTransited :: "transited_encoding option \<Rightarrow> asn1_error + bytes" where
  "encTransited tr =
     tagged [(0, req (encInt (case tr of None \<Rightarrow> 0 | Some x \<Rightarrow> te_type x))),
             (1, req (encOctetString (case tr of None \<Rightarrow> [] | Some x \<Rightarrow> te_contents x)))]"

definition encEncTicketPart :: "enc_ticket_part \<Rightarrow> asn1_error + bytes" where
  "encEncTicketPart p =
     rbind (tagged [(0, req (encFlags (et_flags p))), (1, req (encEncryptionKey (et_key p))),
                    (2, req (encGeneralString (et_crealm p))), (3, req (encPrincipalName (et_cname p))),
                    (4, req (encTransited (et_transited p))), (5, req (encKerberosTime (et_authtime p))),
                    (6, opt encKerberosTime (et_starttime p)), (7, req (encKerberosTime (et_endtime p))),
                    (8, opt encKerberosTime (et_renewTill p)), (9, opt encHostAddresses (nonempty (et_caddr p))),
                    (10, opt encAuthorizationData (et_authorizationData p))])
       (encApplication (int APP_ENC_TICKET_PART))"

subsection \<open>Requests to the KDC\<close>

text \<open>\<open>rb_raw\<close> holds the bytes of a body that was read: the checksum of a TGS-REQ covers them.\<close>

record kdc_req_body =
  rb_kdcOptions :: "int list"
  rb_cname :: "principal option"
  rb_realm :: jstring
  rb_sname :: "principal option"
  rb_from :: "js_date option"
  rb_till :: js_date
  rb_rtime :: "js_date option"
  rb_nonce :: int
  rb_etypes :: "int list"
  rb_addresses :: "host_address list option"
  rb_encAuthorizationData :: "encrypted_data option"
  rb_additionalTickets :: "ticket list option"
  rb_raw :: "bytes option"

definition encKdcReqBody :: "kdc_req_body \<Rightarrow> asn1_error + bytes" where
  "encKdcReqBody b =
     tagged [(0, req (encFlags (rb_kdcOptions b))), (1, opt encPrincipalName (rb_cname b)),
             (2, req (encGeneralString (rb_realm b))), (3, opt encPrincipalName (rb_sname b)),
             (4, opt encKerberosTime (rb_from b)), (5, req (encKerberosTime (rb_till b))),
             (6, opt encKerberosTime (rb_rtime b)), (7, req (encInt (rb_nonce b))),
             (8, req (encSeqOf encInt (rb_etypes b))), (9, opt encHostAddresses (nonempty (rb_addresses b))),
             (10, opt encEncryptedData (rb_encAuthorizationData b)),
             (11, opt (encSeqOf encTicket) (nonempty (rb_additionalTickets b)))]"

definition readKdcReqBody :: "tlv_t \<Rightarrow> asn1_error + kdc_req_body" where
  "readKdcReqBody t =
     rbind (fields_of t) (\<lambda>f.
     rbind (field (f 0) decFlagBits) (\<lambda>op.
     rbind (opt_field (f 1) readPrincipalName) (\<lambda>cn.
     rbind (field (f 2) decGeneralString) (\<lambda>rl.
     rbind (opt_field (f 3) readPrincipalName) (\<lambda>sn.
     rbind (opt_field (f 4) decKerberosTime) (\<lambda>fr.
     rbind (field (f 5) decKerberosTime) (\<lambda>ti.
     rbind (opt_field (f 6) decKerberosTime) (\<lambda>rt.
     rbind (field (f 7) decInteger) (\<lambda>nc.
     rbind (field (f 8) (decSeqOf decInteger)) (\<lambda>et.
     rbind (opt_field (f 9) readHostAddresses) (\<lambda>ad.
     rbind (opt_field (f 10) readEncryptedData) (\<lambda>ea.
     rbind (opt_field (f 11) (decSeqOf readTicketElement)) (\<lambda>tk.
     Inr \<lparr>rb_kdcOptions = op, rb_cname = cn, rb_realm = rl, rb_sname = sn, rb_from = fr, rb_till = ti, rb_rtime = rt,
          rb_nonce = nc, rb_etypes = et, rb_addresses = ad, rb_encAuthorizationData = ea, rb_additionalTickets = tk,
          rb_raw = Some (t_raw t)\<rparr>)))))))))))))"

record kdc_req =
  rq_pvno :: int
  rq_msgType :: int
  rq_padata :: "pa_data list"
  rq_reqBody :: kdc_req_body

definition encReqBodyField :: "kdc_req_body \<Rightarrow> asn1_error + bytes" where
  "encReqBodyField b = (case rb_raw b of Some r \<Rightarrow> Inr r | None \<Rightarrow> encKdcReqBody b)"

definition encKdcReq :: "kdc_req \<Rightarrow> asn1_error + bytes" where
  "encKdcReq r =
     rbind (tagged [(1, req (encInt PVNO)), (2, req (encInt (rq_msgType r))),
                    (3, opt (encSeqOf encPaData) (nonempty (Some (rq_padata r)))), (4, req (encReqBodyField (rq_reqBody r)))])
       (encApplication (int (if rq_msgType r = MSG_TGS_REQ then APP_TGS_REQ else APP_AS_REQ)))"

definition readKdcReq :: "bytes \<Rightarrow> asn1_error + kdc_req" where
  "readKdcReq b =
     rbind (readApplication b None) (\<lambda>app.
     if a_number app \<noteq> APP_AS_REQ \<and> a_number app \<noteq> APP_TGS_REQ
     then Inl (ExpectedApplication [APP_AS_REQ, APP_TGS_REQ] (a_number app))
     else
       rbind (fields_of (a_sequence app)) (\<lambda>f.
       rbind (field (f 1) decInteger) (\<lambda>pv.
       rbind (field (f 2) decInteger) (\<lambda>mt.
       rbind (opt_field (f 3) (decSeqOf readPaData)) (\<lambda>pa.
       rbind (field (f 4) readKdcReqBody) (\<lambda>bd.
       if pv \<noteq> PVNO then Inl (ProtocolVersion pv)
       else Inr \<lparr>rq_pvno = pv, rq_msgType = mt, rq_padata = (case pa of None \<Rightarrow> [] | Some pa \<Rightarrow> pa), rq_reqBody = bd\<rparr>))))))"

end
