(* ===== verification/Krb5_Replies.thy ===== *)
theory Krb5_Replies
  imports Krb5_Messages
begin

text \<open>
  The rest of the Kerberos v5 messages (\<open>common/krb5/krb5_messages.js\<close>): what a KDC answers, the AP exchange, the error
  message, the pre-authentication payloads, delegated credentials, and telling which message a buffer holds.
\<close>

subsection \<open>Replies of the KDC\<close>

record kdc_rep =
  rp_pvno :: int
  rp_msgType :: int
  rp_padata :: "pa_data list"
  rp_crealm :: jstring
  rp_cname :: principal
  rp_ticket :: ticket
  rp_encPart :: encrypted_data

definition encKdcRep :: "kdc_rep \<Rightarrow> asn1_error + bytes" where
  "encKdcRep r =
     rbind (tagged [(0, req (encInt PVNO)), (1, req (encInt (rp_msgType r))),
                    (2, opt (encSeqOf encPaData) (nonempty (Some (rp_padata r)))), (3, req (encGeneralString (rp_crealm r))),
                    (4, req (encPrincipalName (rp_cname r))), (5, req (encTicket (rp_ticket r))),
                    (6, req (encEncryptedData (rp_encPart r)))])
       (encApplication (int (if rp_msgType r = MSG_TGS_REP then APP_TGS_REP else APP_AS_REP)))"

definition readKdcRep :: "bytes \<Rightarrow> asn1_error + kdc_rep" where
  "readKdcRep b =
     rbind (readApplication b None) (\<lambda>app.
     if a_number app \<noteq> APP_AS_REP \<and> a_number app \<noteq> APP_TGS_REP
     then Inl (ExpectedApplication [APP_AS_REP, APP_TGS_REP] (a_number app))
     else
       rbind (fields_of (a_sequence app)) (\<lambda>f.
       rbind (field (f 0) decInteger) (\<lambda>pv.
       rbind (field (f 1) decInteger) (\<lambda>mt.
       rbind (opt_field (f 2) (decSeqOf readPaData)) (\<lambda>pa.
       rbind (field (f 3) decGeneralString) (\<lambda>cr.
       rbind (field (f 4) readPrincipalName) (\<lambda>cn.
       rbind (field (f 5) readTicketElement) (\<lambda>tk.
       rbind (field (f 6) readEncryptedData) (\<lambda>ep.
       Inr \<lparr>rp_pvno = pv, rp_msgType = mt, rp_padata = (case pa of None \<Rightarrow> [] | Some pa \<Rightarrow> pa), rp_crealm = cr,
            rp_cname = cn, rp_ticket = tk, rp_encPart = ep\<rparr>)))))))))"

text \<open>The encrypted part of a reply may carry either tag.\<close>

datatype tagged_as = EncASRepPart | EncTGSRepPart

record last_req =
  lr_type :: int
  lr_value :: js_date

record enc_kdc_rep_part =
  ep_taggedAs :: tagged_as
  ep_key :: encryption_key
  ep_lastReq :: "last_req list"
  ep_nonce :: int
  ep_keyExpiration :: "js_date option"
  ep_flags :: "int list"
  ep_authtime :: js_date
  ep_starttime :: "js_date option"
  ep_endtime :: js_date
  ep_renewTill :: "js_date option"
  ep_srealm :: jstring
  ep_sname :: principal
  ep_caddr :: "host_address list option"
  ep_encryptedPaData :: "pa_data list option"

definition readLastReq :: "tlv_t \<Rightarrow> asn1_error + last_req" where
  "readLastReq t =
     rbind (fields_of t) (\<lambda>lf.
     rbind (field (lf 0) decInteger) (\<lambda>ty.
     rbind (field (lf 1) decKerberosTime) (\<lambda>v.
     Inr \<lparr>lr_type = ty, lr_value = v\<rparr>)))"

definition readEncKdcRepPart :: "bytes \<Rightarrow> asn1_error + enc_kdc_rep_part" where
  "readEncKdcRepPart b =
     rbind (readApplication b None) (\<lambda>app.
     if a_number app \<noteq> APP_ENC_AS_REP_PART \<and> a_number app \<noteq> APP_ENC_TGS_REP_PART
     then Inl (ExpectedApplication [APP_ENC_AS_REP_PART, APP_ENC_TGS_REP_PART] (a_number app))
     else
       rbind (fields_of (a_sequence app)) (\<lambda>f.
       rbind (field (f 0) readEncryptionKey) (\<lambda>k.
       rbind (field (f 1) (decSeqOf readLastReq)) (\<lambda>lr.
       rbind (field (f 2) decInteger) (\<lambda>nc.
       rbind (opt_field (f 3) decKerberosTime) (\<lambda>ke.
       rbind (field (f 4) decFlagBits) (\<lambda>fl.
       rbind (field (f 5) decKerberosTime) (\<lambda>au.
       rbind (opt_field (f 6) decKerberosTime) (\<lambda>st.
       rbind (field (f 7) decKerberosTime) (\<lambda>en.
       rbind (opt_field (f 8) decKerberosTime) (\<lambda>re.
       rbind (field (f 9) decGeneralString) (\<lambda>sr.
       rbind (field (f 10) readPrincipalName) (\<lambda>sn.
       rbind (opt_field (f 11) readHostAddresses) (\<lambda>ca.
       rbind (opt_field (f 12) (decSeqOf readPaData)) (\<lambda>pa.
       Inr \<lparr>ep_taggedAs = (if a_number app = APP_ENC_AS_REP_PART then EncASRepPart else EncTGSRepPart),
            ep_key = k, ep_lastReq = lr, ep_nonce = nc, ep_keyExpiration = ke, ep_flags = fl, ep_authtime = au,
            ep_starttime = st, ep_endtime = en, ep_renewTill = re, ep_srealm = sr, ep_sname = sn, ep_caddr = ca,
            ep_encryptedPaData = pa\<rparr>)))))))))))))))"

definition encLastReq :: "last_req \<Rightarrow> asn1_error + bytes" where
  "encLastReq lr = tagged [(0, req (encInt (lr_type lr))), (1, req (encKerberosTime (lr_value lr)))]"

text \<open>No application number, or zero, stands for [APPLICATION 25].\<close>

definition encEncKdcRepPart :: "enc_kdc_rep_part \<Rightarrow> int \<Rightarrow> asn1_error + bytes" where
  "encEncKdcRepPart p applicationNumber =
     rbind (tagged [(0, req (encEncryptionKey (ep_key p))), (1, req (encSeqOf encLastReq (ep_lastReq p))),
                    (2, req (encInt (ep_nonce p))), (3, opt encKerberosTime (ep_keyExpiration p)),
                    (4, req (encFlags (ep_flags p))), (5, req (encKerberosTime (ep_authtime p))),
                    (6, opt encKerberosTime (ep_starttime p)), (7, req (encKerberosTime (ep_endtime p))),
                    (8, opt encKerberosTime (ep_renewTill p)), (9, req (encGeneralString (ep_srealm p))),
                    (10, req (encPrincipalName (ep_sname p))), (11, opt encHostAddresses (nonempty (ep_caddr p))),
                    (12, opt (encSeqOf encPaData) (nonempty (ep_encryptedPaData p)))])
       (encApplication (if applicationNumber = 0 then int APP_ENC_AS_REP_PART else applicationNumber))"

subsection \<open>The AP exchange\<close>

record authenticator =
  au_vno :: int
  au_crealm :: jstring
  au_cname :: principal
  au_cksum :: "krb_checksum option"
  au_cusec :: int
  au_ctime :: js_date
  au_subkey :: "encryption_key option"
  au_seqNumber :: "int option"
  au_authorizationData :: "auth_data list option"

definition encAuthenticator :: "authenticator \<Rightarrow> asn1_error + bytes" where
  "encAuthenticator a =
     rbind (tagged [(0, req (encInt PVNO)), (1, req (encGeneralString (au_crealm a))), (2, req (encPrincipalName (au_cname a))),
                    (3, opt encChecksum (au_cksum a)), (4, req (encInt (au_cusec a))), (5, req (encKerberosTime (au_ctime a))),
                    (6, opt encEncryptionKey (au_subkey a)), (7, opt encInt (au_seqNumber a)),
                    (8, opt encAuthorizationData (au_authorizationData a))])
       (encApplication (int APP_AUTHENTICATOR))"

definition readAuthenticator :: "bytes \<Rightarrow> asn1_error + authenticator" where
  "readAuthenticator b =
     rbind (application_fields b APP_AUTHENTICATOR) (\<lambda>f.
     rbind (field (f 0) decInteger) (\<lambda>vno.
     rbind (field (f 1) decGeneralString) (\<lambda>cr.
     rbind (field (f 2) readPrincipalName) (\<lambda>cn.
     rbind (opt_field (f 3) readChecksum) (\<lambda>ck.
     rbind (field (f 4) decInteger) (\<lambda>us.
     rbind (field (f 5) decKerberosTime) (\<lambda>ct.
     rbind (opt_field (f 6) readEncryptionKey) (\<lambda>sk.
     rbind (opt_field (f 7) decInteger) (\<lambda>sq.
     rbind (opt_field (f 8) readAuthorizationData) (\<lambda>ad.
     Inr \<lparr>au_vno = vno, au_crealm = cr, au_cname = cn, au_cksum = ck, au_cusec = us, au_ctime = ct, au_subkey = sk,
          au_seqNumber = sq, au_authorizationData = ad\<rparr>))))))))))"

record ap_req =
  ar_pvno :: int
  ar_msgType :: int
  ar_apOptions :: "int list"
  ar_ticket :: ticket
  ar_authenticator :: encrypted_data

definition encApReq :: "ap_req \<Rightarrow> asn1_error + bytes" where
  "encApReq r =
     rbind (tagged [(0, req (encInt PVNO)), (1, req (encInt MSG_AP_REQ)), (2, req (encFlags (ar_apOptions r))),
                    (3, req (encTicket (ar_ticket r))), (4, req (encEncryptedData (ar_authenticator r)))])
       (encApplication (int APP_AP_REQ))"

definition readApReq :: "bytes \<Rightarrow> asn1_error + ap_req" where
  "readApReq b =
     rbind (application_fields b APP_AP_REQ) (\<lambda>f.
     rbind (field (f 0) decInteger) (\<lambda>pv.
     rbind (field (f 1) decInteger) (\<lambda>mt.
     rbind (field (f 2) decFlagBits) (\<lambda>op.
     rbind (field (f 3) readTicketElement) (\<lambda>tk.
     rbind (field (f 4) readEncryptedData) (\<lambda>au.
     Inr \<lparr>ar_pvno = pv, ar_msgType = mt, ar_apOptions = op, ar_ticket = tk, ar_authenticator = au\<rparr>))))))"

record ap_rep =
  ap_pvno :: int
  ap_msgType :: int
  ap_encPart :: encrypted_data

definition encApRep :: "ap_rep \<Rightarrow> asn1_error + bytes" where
  "encApRep r =
     rbind (tagged [(0, req (encInt PVNO)), (1, req (encInt MSG_AP_REP)), (2, req (encEncryptedData (ap_encPart r)))])
       (encApplication (int APP_AP_REP))"

definition readApRep :: "bytes \<Rightarrow> asn1_error + ap_rep" where
  "readApRep b =
     rbind (application_fields b APP_AP_REP) (\<lambda>f.
     rbind (field (f 0) decInteger) (\<lambda>pv.
     rbind (field (f 1) decInteger) (\<lambda>mt.
     rbind (field (f 2) readEncryptedData) (\<lambda>ep.
     Inr \<lparr>ap_pvno = pv, ap_msgType = mt, ap_encPart = ep\<rparr>))))"

record enc_ap_rep_part =
  ea_ctime :: js_date
  ea_cusec :: int
  ea_subkey :: "encryption_key option"
  ea_seqNumber :: "int option"

definition encEncApRepPart :: "enc_ap_rep_part \<Rightarrow> asn1_error + bytes" where
  "encEncApRepPart p =
     rbind (tagged [(0, req (encKerberosTime (ea_ctime p))), (1, req (encInt (ea_cusec p))),
                    (2, opt encEncryptionKey (ea_subkey p)), (3, opt encInt (ea_seqNumber p))])
       (encApplication (int APP_ENC_AP_REP_PART))"

definition readEncApRepPart :: "bytes \<Rightarrow> asn1_error + enc_ap_rep_part" where
  "readEncApRepPart b =
     rbind (application_fields b APP_ENC_AP_REP_PART) (\<lambda>f.
     rbind (field (f 0) decKerberosTime) (\<lambda>ct.
     rbind (field (f 1) decInteger) (\<lambda>us.
     rbind (opt_field (f 2) readEncryptionKey) (\<lambda>sk.
     rbind (opt_field (f 3) decInteger) (\<lambda>sq.
     Inr \<lparr>ea_ctime = ct, ea_cusec = us, ea_subkey = sk, ea_seqNumber = sq\<rparr>)))))"

subsection \<open>Errors\<close>

text \<open>\<open>ke_eDataPaData\<close> is what the error data holds when it is a sequence of PA-DATA.\<close>

record krb_error =
  ke_pvno :: int
  ke_msgType :: int
  ke_ctime :: "js_date option"
  ke_cusec :: "int option"
  ke_stime :: js_date
  ke_susec :: int
  ke_errorCode :: int
  ke_crealm :: "jstring option"
  ke_cname :: "principal option"
  ke_realm :: jstring
  ke_sname :: principal
  ke_eText :: "jstring option"
  ke_eData :: "bytes option"
  ke_eDataPaData :: "pa_data list option"

definition encKrbError :: "krb_error \<Rightarrow> asn1_error + bytes" where
  "encKrbError e =
     rbind (tagged [(0, req (encInt PVNO)), (1, req (encInt MSG_ERROR)), (2, opt encKerberosTime (ke_ctime e)),
                    (3, opt encInt (ke_cusec e)), (4, req (encKerberosTime (ke_stime e))), (5, req (encInt (ke_susec e))),
                    (6, req (encInt (ke_errorCode e))), (7, opt encGeneralString (nonempty (ke_crealm e))),
                    (8, opt encPrincipalName (ke_cname e)), (9, req (encGeneralString (ke_realm e))),
                    (10, req (encPrincipalName (ke_sname e))), (11, opt encGeneralString (nonempty (ke_eText e))),
                    (12, opt encOctetString (ke_eData e))])
       (encApplication (int APP_KRB_ERROR))"

text \<open>The error data is read tolerantly: on another error it is something else.\<close>

definition eDataPaData :: "bytes option \<Rightarrow> pa_data list option" where
  "eDataPaData d =
     (case nonempty d of
        None \<Rightarrow> None
      | Some d \<Rightarrow>
          (case rbind (readTlv d 0 0) (\<lambda>t. rbind (readChildren (t_value t) 0) (rmap readPaData)) of
             Inl _ \<Rightarrow> None | Inr pas \<Rightarrow> Some pas))"

definition readKrbError :: "bytes \<Rightarrow> asn1_error + krb_error" where
  "readKrbError b =
     rbind (application_fields b APP_KRB_ERROR) (\<lambda>f.
     rbind (field (f 6) decInteger) (\<lambda>code.
     rbind (field (f 0) decInteger) (\<lambda>pv.
     rbind (field (f 1) decInteger) (\<lambda>mt.
     rbind (opt_field (f 2) decKerberosTime) (\<lambda>ct.
     rbind (opt_field (f 3) decInteger) (\<lambda>cu.
     rbind (field (f 4) decKerberosTime) (\<lambda>st.
     rbind (field (f 5) decInteger) (\<lambda>su.
     rbind (opt_field (f 7) decGeneralString) (\<lambda>cr.
     rbind (opt_field (f 8) readPrincipalName) (\<lambda>cn.
     rbind (field (f 9) decGeneralString) (\<lambda>rl.
     rbind (field (f 10) readPrincipalName) (\<lambda>sn.
     rbind (opt_field (f 11) decGeneralString) (\<lambda>tx.
     rbind (opt_field (f 12) decOctetString) (\<lambda>dt.
     Inr \<lparr>ke_pvno = pv, ke_msgType = mt, ke_ctime = ct, ke_cusec = cu, ke_stime = st, ke_susec = su, ke_errorCode = code,
          ke_crealm = cr, ke_cname = cn, ke_realm = rl, ke_sname = sn, ke_eText = tx, ke_eData = dt,
          ke_eDataPaData = eDataPaData dt\<rparr>))))))))))))))"

subsection \<open>Pre-authentication\<close>

record pa_enc_ts_enc =
  pt_patimestamp :: js_date
  pt_pausec :: "int option"

definition encPaEncTsEnc :: "js_date \<Rightarrow> int option \<Rightarrow> asn1_error + bytes" where
  "encPaEncTsEnc when usec = tagged [(0, req (encKerberosTime when)), (1, opt encInt usec)]"

definition readPaEncTsEnc :: "bytes \<Rightarrow> asn1_error + pa_enc_ts_enc" where
  "readPaEncTsEnc b =
     rbind (readTlv b 0 0) (\<lambda>t.
     rbind (fields_of t) (\<lambda>f.
     rbind (field (f 0) decKerberosTime) (\<lambda>ts.
     rbind (opt_field (f 1) decInteger) (\<lambda>us.
     Inr \<lparr>pt_patimestamp = ts, pt_pausec = us\<rparr>))))"

record etype_info2_entry =
  ei_etype :: int
  ei_salt :: "jstring option"
  ei_s2kparams :: "bytes option"

definition readEtypeInfo2_entry :: "tlv_t \<Rightarrow> asn1_error + etype_info2_entry" where
  "readEtypeInfo2_entry entry =
     rbind (fields_of entry) (\<lambda>f.
     rbind (field (f 0) decInteger) (\<lambda>et.
     rbind (opt_field (f 1) decGeneralString) (\<lambda>sa.
     rbind (opt_field (f 2) decOctetString) (\<lambda>sp.
     Inr \<lparr>ei_etype = et, ei_salt = sa, ei_s2kparams = sp\<rparr>))))"

definition readEtypeInfo2 :: "bytes \<Rightarrow> asn1_error + etype_info2_entry list" where
  "readEtypeInfo2 b =
     rbind (readTlv b 0 0) (\<lambda>t. rbind (readChildren (t_value t) 0) (rmap readEtypeInfo2_entry))"

definition encEtypeInfo2_entry :: "etype_info2_entry \<Rightarrow> asn1_error + bytes" where
  "encEtypeInfo2_entry e =
     tagged [(0, req (encInt (ei_etype e))), (1, opt encGeneralString (ei_salt e)), (2, opt encOctetString (ei_s2kparams e))]"

definition encEtypeInfo2 :: "etype_info2_entry list \<Rightarrow> asn1_error + bytes" where
  "encEtypeInfo2 entries = encSeqOf encEtypeInfo2_entry entries"

text \<open>The older form: the salt is an OCTET STRING, there are no parameters, and nothing writes it.\<close>

definition readEtypeInfo :: "bytes \<Rightarrow> asn1_error + (int \<times> jstring option) list" where
  "readEtypeInfo b =
     rbind (readTlv b 0 0) (\<lambda>t. rbind (readChildren (t_value t) 0) (rmap (\<lambda>entry.
       rbind (fields_of entry) (\<lambda>f.
       rbind (field (f 0) decInteger) (\<lambda>et.
       rbind (opt_field (f 1) decOctetString) (\<lambda>sa.
       Inr (et, map_option decLatin1 sa)))))))"

definition encPaPacRequest :: "bool \<Rightarrow> asn1_error + bytes" where
  "encPaPacRequest inc =
     rbind (tlv 0x01 [if inc then 0xff else 0]) (\<lambda>b. rbind (encContext 0 b) (\<lambda>c. encSequence [c]))"

text \<open>\<open>None\<close> is the \<open>undefined\<close> of a request without the field.\<close>

definition readPaPacRequest :: "bytes \<Rightarrow> asn1_error + bool option" where
  "readPaPacRequest b =
     rbind (readTlv b 0 0) (\<lambda>t. rbind (fields_of t) (\<lambda>f.
     Inr (case f 0 of None \<Rightarrow> None | Some x \<Rightarrow> Some (0 < length (t_value x) \<and> t_value x ! 0 \<noteq> 0))))"

record pa_for_user =
  pu_userName :: principal
  pu_userRealm :: jstring
  pu_cksum :: krb_checksum
  pu_authPackage :: "jstring option"

definition encPaForUser :: "pa_for_user \<Rightarrow> asn1_error + bytes" where
  "encPaForUser u =
     tagged [(0, req (encPrincipalName (pu_userName u))), (1, req (encGeneralString (pu_userRealm u))),
             (2, req (encChecksum (pu_cksum u))),
             (3, req (encGeneralString (case nonempty (pu_authPackage u) of None \<Rightarrow> js_ascii ''Kerberos'' | Some s \<Rightarrow> s)))]"

definition readPaForUser :: "bytes \<Rightarrow> asn1_error + pa_for_user" where
  "readPaForUser b =
     rbind (readTlv b 0 0) (\<lambda>t.
     rbind (fields_of t) (\<lambda>f.
     rbind (field (f 0) readPrincipalName) (\<lambda>un.
     rbind (field (f 1) decGeneralString) (\<lambda>ur.
     rbind (field (f 2) readChecksum) (\<lambda>ck.
     rbind (field (f 3) decGeneralString) (\<lambda>ap.
     Inr \<lparr>pu_userName = un, pu_userRealm = ur, pu_cksum = ck, pu_authPackage = Some ap\<rparr>))))))"

subsection \<open>Delegated credentials\<close>

text \<open>The session key is the one member that must be there.\<close>

record krb_cred_info =
  ci_key :: encryption_key
  ci_prealm :: "jstring option"
  ci_pname :: "principal option"
  ci_flags :: "int list option"
  ci_authtime :: "js_date option"
  ci_starttime :: "js_date option"
  ci_endtime :: "js_date option"
  ci_renewTill :: "js_date option"
  ci_srealm :: "jstring option"
  ci_sname :: "principal option"
  ci_caddr :: "host_address list option"

definition encKrbCredInfo :: "krb_cred_info \<Rightarrow> asn1_error + bytes" where
  "encKrbCredInfo i =
     tagged [(0, req (encEncryptionKey (ci_key i))), (1, opt encGeneralString (nonempty (ci_prealm i))),
             (2, opt encPrincipalName (ci_pname i)), (3, opt encFlags (ci_flags i)),
             (4, opt encKerberosTime (ci_authtime i)), (5, opt encKerberosTime (ci_starttime i)),
             (6, opt encKerberosTime (ci_endtime i)), (7, opt encKerberosTime (ci_renewTill i)),
             (8, opt encGeneralString (nonempty (ci_srealm i))), (9, opt encPrincipalName (ci_sname i)),
             (10, opt encHostAddresses (nonempty (ci_caddr i)))]"

definition readKrbCredInfo :: "tlv_t \<Rightarrow> asn1_error + krb_cred_info" where
  "readKrbCredInfo t =
     rbind (fields_of t) (\<lambda>f.
     if f 0 = None then Inl NoSessionKey
     else
       rbind (field (f 0) readEncryptionKey) (\<lambda>k.
       rbind (opt_field (f 1) decGeneralString) (\<lambda>pr.
       rbind (opt_field (f 2) readPrincipalName) (\<lambda>pn.
       rbind (opt_field (f 3) decFlagBits) (\<lambda>fl.
       rbind (opt_field (f 4) decKerberosTime) (\<lambda>au.
       rbind (opt_field (f 5) decKerberosTime) (\<lambda>st.
       rbind (opt_field (f 6) decKerberosTime) (\<lambda>en.
       rbind (opt_field (f 7) decKerberosTime) (\<lambda>re.
       rbind (opt_field (f 8) decGeneralString) (\<lambda>sr.
       rbind (opt_field (f 9) readPrincipalName) (\<lambda>sn.
       rbind (opt_field (f 10) readHostAddresses) (\<lambda>ca.
       Inr \<lparr>ci_key = k, ci_prealm = pr, ci_pname = pn, ci_flags = fl, ci_authtime = au, ci_starttime = st,
            ci_endtime = en, ci_renewTill = re, ci_srealm = sr, ci_sname = sn, ci_caddr = ca\<rparr>))))))))))))"

record enc_krb_cred_part =
  cp_ticketInfo :: "krb_cred_info list"
  cp_nonce :: "int option"
  cp_timestamp :: "js_date option"
  cp_usec :: "int option"
  cp_sAddress :: "host_address option"
  cp_rAddress :: "host_address option"

definition encEncKrbCredPart :: "enc_krb_cred_part \<Rightarrow> asn1_error + bytes" where
  "encEncKrbCredPart p =
     rbind (tagged [(0, req (encSeqOf encKrbCredInfo (cp_ticketInfo p))), (1, opt encInt (cp_nonce p)),
                    (2, opt encKerberosTime (cp_timestamp p)), (3, opt encInt (cp_usec p)),
                    (4, opt encHostAddress (cp_sAddress p)), (5, opt encHostAddress (cp_rAddress p))])
       (encApplication (int APP_ENC_KRB_CRED_PART))"

definition readEncKrbCredPart :: "bytes \<Rightarrow> asn1_error + enc_krb_cred_part" where
  "readEncKrbCredPart b =
     rbind (application_fields b APP_ENC_KRB_CRED_PART) (\<lambda>f.
     rbind (field (f 0) (decSeqOf readKrbCredInfo)) (\<lambda>ti.
     rbind (opt_field (f 1) decInteger) (\<lambda>nc.
     rbind (opt_field (f 2) decKerberosTime) (\<lambda>ts.
     rbind (opt_field (f 3) decInteger) (\<lambda>us.
     rbind (opt_field (f 4) readHostAddress) (\<lambda>sa.
     rbind (opt_field (f 5) readHostAddress) (\<lambda>ra.
     Inr \<lparr>cp_ticketInfo = ti, cp_nonce = nc, cp_timestamp = ts, cp_usec = us, cp_sAddress = sa, cp_rAddress = ra\<rparr>)))))))"

record krb_cred =
  cr_pvno :: int
  cr_msgType :: int
  cr_tickets :: "ticket list"
  cr_encPart :: encrypted_data

definition encKrbCred :: "krb_cred \<Rightarrow> asn1_error + bytes" where
  "encKrbCred c =
     rbind (tagged [(0, req (encInt PVNO)), (1, req (encInt MSG_CRED)), (2, req (encSeqOf encTicket (cr_tickets c))),
                    (3, req (encEncryptedData (cr_encPart c)))])
       (encApplication (int APP_KRB_CRED))"

definition readKrbCred :: "bytes \<Rightarrow> asn1_error + krb_cred" where
  "readKrbCred b =
     rbind (application_fields b APP_KRB_CRED) (\<lambda>f.
     rbind (field (f 1) decInteger) (\<lambda>mt.
     if mt \<noteq> MSG_CRED then Inl (NotCredMessage mt)
     else
       rbind (field (f 2) (decSeqOf readTicketElement)) (\<lambda>tks.
       if tks = [] then Inl NoTickets
       else
         rbind (field (f 0) decInteger) (\<lambda>pv.
         rbind (field (f 3) readEncryptedData) (\<lambda>ep.
         Inr \<lparr>cr_pvno = pv, cr_msgType = mt, cr_tickets = tks, cr_encPart = ep\<rparr>)))))"

definition encPaPacOptions :: "int list \<Rightarrow> asn1_error + bytes" where
  "encPaPacOptions bits = tagged [(0, req (encFlags bits))]"

definition readPaPacOptions :: "bytes \<Rightarrow> asn1_error + int list" where
  "readPaPacOptions b =
     rbind (readTlv b 0 0) (\<lambda>t. rbind (fields_of t) (\<lambda>f. field (f 0) decFlagBits))"

subsection \<open>Which message a buffer holds\<close>

definition APPLICATION_NAMES :: "nat \<Rightarrow> string option" where
  "APPLICATION_NAMES = map_of
     [(1, ''Ticket''), (2, ''Authenticator''), (3, ''EncTicketPart''), (10, ''AS-REQ''), (11, ''AS-REP''), (12, ''TGS-REQ''),
      (13, ''TGS-REP''), (14, ''AP-REQ''), (15, ''AP-REP''), (22, ''KRB-CRED''), (25, ''EncASRepPart''), (26, ''EncTGSRepPart''),
      (27, ''EncAPRepPart''), (28, ''EncKrbPrivPart''), (29, ''EncKrbCredPart''), (30, ''KRB-ERROR'')]"

definition identify :: "bytes \<Rightarrow> (nat \<times> string) option" where
  "identify b =
     (case peekApplicationNumber b of
        None \<Rightarrow> None
      | Some n \<Rightarrow>
          Some (n, case APPLICATION_NAMES n of Some nm \<Rightarrow> nm | None \<Rightarrow> ''[APPLICATION '' @ show_nat n @ '']''))"

datatype kdc_response = KrbErrorResponse krb_error | KdcReply string kdc_rep

definition readKdcResponse :: "bytes \<Rightarrow> asn1_error + kdc_response" where
  "readKdcResponse b =
     (case identify b of
        None \<Rightarrow> Inl NotAMessage
      | Some (n, nm) \<Rightarrow>
          if n = APP_KRB_ERROR then rbind (readKrbError b) (\<lambda>e. Inr (KrbErrorResponse e))
          else if n = APP_AS_REP \<or> n = APP_TGS_REP then rbind (readKdcRep b) (\<lambda>r. Inr (KdcReply nm r))
          else Inl (NeitherReplyNorError n))"

end
