(* ===== verification/Krb5_Messages_Laws.thy ===== *)
theory Krb5_Messages_Laws
  imports Krb5_Replies
begin

text \<open>
  Every structure of the Kerberos messages is a \<open>der_codec\<close>: what a reader can return is read back from what the writer
  makes of it.  The predicates say which values those are: numbers of 48 bits, well-formed UTF-16, flags in order, whole
  seconds, and no list that the writer would drop for being empty.
\<close>

subsection \<open>Shared structures\<close>

definition principal_ok :: "principal \<Rightarrow> bool" where
  "principal_ok p \<longleftrightarrow> pred_option int48 (pn_type p) \<and> pn_type p \<noteq> None \<and> list_all wf_utf16 (pn_name p)"

interpretation principal: der_codec encPrincipalName readPrincipalName principal_ok "\<lambda>p. p"
proof
  fix p e
  assume ok: "principal_ok p" and e: "encPrincipalName p = Inr e"
  then obtain ty where ty: "pn_type p = Some ty" "int48 ty" "list_all wf_utf16 (pn_name p)" by (auto simp: principal_ok_def)
  show "\<exists>y. e = der_encode y \<and> der_valid y \<and> (\<forall>q. readPrincipalName (der_placed q y) = Inr p)"
    using ty
    by - (rule tagged_codec [OF e [unfolded encPrincipalName_def ty(1) option.case]],
      (rule codec_intros | rule principal.equality | simp add: readPrincipalName_def)+)
qed

definition encrypted_data_ok :: "encrypted_data \<Rightarrow> bool" where
  "encrypted_data_ok x \<longleftrightarrow> int48 (ed_etype x) \<and> pred_option int48 (ed_kvno x)"

interpretation encrypted_data: der_codec encEncryptedData readEncryptedData encrypted_data_ok "\<lambda>x. x"
proof
  fix x e
  assume ok: "encrypted_data_ok x" and e: "encEncryptedData x = Inr e"
  show "\<exists>y. e = der_encode y \<and> der_valid y \<and> (\<forall>p. readEncryptedData (der_placed p y) = Inr x)"
    using ok unfolding encrypted_data_ok_def
    by - (rule tagged_codec [OF e [unfolded encEncryptedData_def]],
      (rule codec_intros | rule encrypted_data.equality | simp add: readEncryptedData_def)+)
qed

definition encryption_key_ok :: "encryption_key \<Rightarrow> bool" where
  "encryption_key_ok x \<longleftrightarrow> int48 (ek_etype x)"

interpretation encryption_key: der_codec encEncryptionKey readEncryptionKey encryption_key_ok "\<lambda>x. x"
proof
  fix x e
  assume ok: "encryption_key_ok x" and e: "encEncryptionKey x = Inr e"
  show "\<exists>y. e = der_encode y \<and> der_valid y \<and> (\<forall>p. readEncryptionKey (der_placed p y) = Inr x)"
    using ok unfolding encryption_key_ok_def
    by - (rule tagged_codec [OF e [unfolded encEncryptionKey_def]],
      (rule codec_intros | rule encryption_key.equality | simp add: readEncryptionKey_def)+)
qed

definition checksum_ok :: "krb_checksum \<Rightarrow> bool" where
  "checksum_ok x \<longleftrightarrow> int48 (ck_type x)"

interpretation checksum: der_codec encChecksum readChecksum checksum_ok "\<lambda>x. x"
proof
  fix x e
  assume ok: "checksum_ok x" and e: "encChecksum x = Inr e"
  show "\<exists>y. e = der_encode y \<and> der_valid y \<and> (\<forall>p. readChecksum (der_placed p y) = Inr x)"
    using ok unfolding checksum_ok_def
    by - (rule tagged_codec [OF e [unfolded encChecksum_def]],
      (rule codec_intros | rule krb_checksum.equality | simp add: readChecksum_def)+)
qed

definition pa_data_ok :: "pa_data \<Rightarrow> bool" where
  "pa_data_ok x \<longleftrightarrow> int48 (pa_type x)"

interpretation pa_data: der_codec encPaData readPaData pa_data_ok "\<lambda>x. x"
proof
  fix x e
  assume ok: "pa_data_ok x" and e: "encPaData x = Inr e"
  show "\<exists>y. e = der_encode y \<and> der_valid y \<and> (\<forall>p. readPaData (der_placed p y) = Inr x)"
    using ok unfolding pa_data_ok_def
    by - (rule tagged_codec [OF e [unfolded encPaData_def]],
      (rule all_stand_Cons all_stand_Nil der_int.req der_octets.req_opt | rule pa_data.equality | simp add: readPaData_def)+)
qed

interpretation pa_datas: der_codec "encSeqOf encPaData" "decSeqOf readPaData" "list_all pa_data_ok" "map (\<lambda>x. x)"
  by (rule pa_data.sequence)

definition host_address_ok :: "host_address \<Rightarrow> bool" where
  "host_address_ok x \<longleftrightarrow> int48 (ha_type x)"

interpretation host_address: der_codec encHostAddress readHostAddress host_address_ok "\<lambda>x. x"
proof
  fix x e
  assume ok: "host_address_ok x" and e: "encHostAddress x = Inr e"
  show "\<exists>y. e = der_encode y \<and> der_valid y \<and> (\<forall>p. readHostAddress (der_placed p y) = Inr x)"
    using ok unfolding host_address_ok_def
    by - (rule tagged_codec [OF e [unfolded encHostAddress_def]],
      (rule codec_intros | rule host_address.equality | simp add: readHostAddress_def)+)
qed

lemma host_addresses_eq: "encHostAddresses = encSeqOf encHostAddress" "readHostAddresses = decSeqOf readHostAddress"
  by (simp_all add: encHostAddresses_def readHostAddresses_def encHostAddress_def [abs_def] readHostAddress_def [abs_def] fun_eq_iff)

interpretation host_addresses: der_codec encHostAddresses readHostAddresses "list_all host_address_ok" "map (\<lambda>x. x)"
  unfolding host_addresses_eq by (rule host_address.sequence)

text \<open>The entries of AuthorizationData.\<close>

abbreviation encAuthData :: "auth_data \<Rightarrow> asn1_error + bytes" where
  "encAuthData \<equiv> \<lambda>e. tagged [(0, req (encInt (ad_type e))), (1, req (encOctetString (ad_data e)))]"

abbreviation readAuthData :: "tlv_t \<Rightarrow> asn1_error + auth_data" where
  "readAuthData \<equiv> \<lambda>a. rbind (fields_of a) (\<lambda>f. rbind (field (f 0) decInteger) (\<lambda>ty.
     rbind (field (f 1) decOctetString) (\<lambda>d. Inr \<lparr>ad_type = ty, ad_data = d\<rparr>)))"

definition auth_data_ok :: "auth_data \<Rightarrow> bool" where
  "auth_data_ok x \<longleftrightarrow> int48 (ad_type x)"

interpretation auth_data: der_codec encAuthData readAuthData auth_data_ok "\<lambda>x. x"
proof
  fix x e
  assume ok: "auth_data_ok x" and e: "encAuthData x = Inr e"
  show "\<exists>y. e = der_encode y \<and> der_valid y \<and> (\<forall>p. readAuthData (der_placed p y) = Inr x)"
    using ok unfolding auth_data_ok_def
    by - (rule tagged_codec [OF e], (rule codec_intros | rule auth_data.equality | simp)+)
qed

interpretation auth_datas: der_codec encAuthorizationData readAuthorizationData "list_all auth_data_ok" "map (\<lambda>x. x)"
  unfolding encAuthorizationData_def [abs_def] readAuthorizationData_def [abs_def] by (rule auth_data.sequence)

subsection \<open>Tickets\<close>

text \<open>One element and nothing more.\<close>

definition one_element :: "bytes \<Rightarrow> bool" where
  "one_element r = (case readTlv r 0 0 of Inl _ \<Rightarrow> False | Inr t \<Rightarrow> r = der_encode (t_tag t, t_value t) \<and> der_valid (t_tag t, t_value t))"

definition small :: "asn1_error + bytes \<Rightarrow> bool" where
  "small v = (case v of Inl _ \<Rightarrow> False | Inr b \<Rightarrow> length b \<le> MAX_INPUT_BYTES)"

text \<open>A ticket that was read, or one that can be built; \<open>sealed\<close> is the ticket the other side reads.\<close>

definition ticket_ok :: "ticket \<Rightarrow> bool" where
  "ticket_ok k =
     (case tk_raw k of
        Some r \<Rightarrow> one_element r \<and> readTicket r = Inr k
      | None \<Rightarrow> wf_utf16 (tk_realm k) \<and> principal_ok (tk_sname k) \<and> encrypted_data_ok (tk_encPart k) \<and> small (encTicket k))"

definition sealed :: "ticket \<Rightarrow> ticket" where
  "sealed k =
     (case tk_raw k of
        Some r \<Rightarrow> k
      | None \<Rightarrow> k\<lparr>tk_tktVno := PVNO, tk_raw := (case encTicket k of Inl _ \<Rightarrow> None | Inr b \<Rightarrow> Some b)\<rparr>)"

lemma int48_small [simp]: "int48 PVNO" "int48 MSG_TGS_REQ" "int48 MSG_TGS_REP" "int48 MSG_AP_REQ" "int48 MSG_AP_REP" "int48 MSG_CRED"
  "int48 MSG_ERROR"
  by (simp_all add: int48_def krb5_constants)

lemma readTicket_built:
  assumes "tk_raw k = None" and ok: "wf_utf16 (tk_realm k)" "principal_ok (tk_sname k)" "encrypted_data_ok (tk_encPart k)"
    and e: "encTicket k = Inr b" and "length b \<le> MAX_INPUT_BYTES"
  shows "readTicket b = Inr (sealed k) \<and> (\<exists>y. b = der_encode y \<and> der_valid y)"
proof -
  from e have b: "rbind (tagged [(0, req (encInt PVNO)), (1, req (encGeneralString (tk_realm k))),
      (2, req (encPrincipalName (tk_sname k))), (3, req (encEncryptedData (tk_encPart k)))]) (encApplication (int APP_TICKET)) = Inr b"
    by (simp add: encTicket_def assms(1))
  have "readTicket b = Inr (sealed k)"
    using ok assms(6)
    by - (rule application_codec [OF b],
      (rule codec_intros | rule ticket.equality | simp add: readTicket_def sealed_def assms(1) e)+)
  moreover from b obtain x where "encApplication (int APP_TICKET) x = Inr b" by (auto simp: rbind_eq_Inr)
  ultimately show ?thesis using application_element [of APP_TICKET x b] by blast
qed

interpretation tickets: der_codec encTicket readTicketElement ticket_ok sealed
proof
  fix k b
  assume ok: "ticket_ok k" and b: "encTicket k = Inr b"
  have "readTicket b = Inr (sealed k) \<and> (\<exists>y. b = der_encode y \<and> der_valid y)"
  proof (cases "tk_raw k")
    case None
    with ok b readTicket_built [of k b] show ?thesis by (simp add: ticket_ok_def small_def)
  next
    case (Some r)
    with ok b show ?thesis by (auto simp: ticket_ok_def encTicket_def sealed_def one_element_def split: sum.splits)
  qed
  then show "\<exists>y. b = der_encode y \<and> der_valid y \<and> (\<forall>p. readTicketElement (der_placed p y) = Inr (sealed k))"
    by (auto simp: readTicketElement_def)
qed

interpretation ticket_list: der_codec "encSeqOf encTicket" "decSeqOf readTicketElement" "list_all ticket_ok" "map sealed"
  by (rule tickets.sequence)

subsection \<open>Requests\<close>

lemma pred_option_nonempty [simp]: "pred_option (list_all P) (nonempty x) = pred_option (list_all P) x"
  by (auto simp: nonempty_def split: option.splits list.splits)

lemma default_nonempty [simp]: "(case nonempty (Some xs) of None \<Rightarrow> [] | Some ys \<Rightarrow> ys) = xs"
  by (cases xs) simp_all

definition body_fields_ok :: "kdc_req_body \<Rightarrow> bool" where
  "body_fields_ok b \<longleftrightarrow> flags_ok (rb_kdcOptions b) \<and> pred_option principal_ok (rb_cname b) \<and> wf_utf16 (rb_realm b)
     \<and> pred_option principal_ok (rb_sname b) \<and> pred_option time_ok (rb_from b) \<and> time_ok (rb_till b)
     \<and> pred_option time_ok (rb_rtime b) \<and> int48 (rb_nonce b) \<and> list_all int48 (rb_etypes b)
     \<and> pred_option (list_all host_address_ok) (rb_addresses b) \<and> nonempty (rb_addresses b) = rb_addresses b
     \<and> pred_option encrypted_data_ok (rb_encAuthorizationData b)
     \<and> pred_option (list_all ticket_ok) (rb_additionalTickets b) \<and> nonempty (rb_additionalTickets b) = rb_additionalTickets b"

text \<open>A body that was read, or one that can be built, and the body the other side reads.\<close>

definition body_ok :: "kdc_req_body \<Rightarrow> bool" where
  "body_ok b =
     (case rb_raw b of
        Some r \<Rightarrow> one_element r \<and> rbind (readTlv r 0 0) readKdcReqBody = Inr b
      | None \<Rightarrow> body_fields_ok b)"

definition sealed_body :: "kdc_req_body \<Rightarrow> kdc_req_body" where
  "sealed_body b =
     (case rb_raw b of
        Some r \<Rightarrow> b
      | None \<Rightarrow> b\<lparr>rb_additionalTickets := map_option (map sealed) (rb_additionalTickets b),
               rb_raw := (case encKdcReqBody b of Inl _ \<Rightarrow> None | Inr r \<Rightarrow> Some r)\<rparr>)"

lemma body_built:
  assumes raw: "rb_raw b = None" and ok: "body_fields_ok b" and e: "encKdcReqBody b = Inr e"
  shows "\<exists>y. e = der_encode y \<and> der_valid y \<and> (\<forall>p. readKdcReqBody (der_placed p y) = Inr (sealed_body b))"
  using ok unfolding body_fields_ok_def
  by - (rule tagged_codec [OF e [unfolded encKdcReqBody_def]],
    (rule codec_intros | rule kdc_req_body.equality | simp add: readKdcReqBody_def sealed_body_def raw e)+)

lemma readKdcReqBody_cong: "t_value t = t_value u \<Longrightarrow> t_raw t = t_raw u \<Longrightarrow> readKdcReqBody t = readKdcReqBody u"
  by (simp add: readKdcReqBody_def fields_of_def)

lemma one_element_read:
  "one_element r \<longleftrightarrow> (\<exists>t. readTlv r 0 0 = Inr t \<and> t_raw t = r \<and> r = der_encode (t_tag t, t_value t) \<and> der_valid (t_tag t, t_value t))"
proof -
  have "t_raw t = r" if "readTlv r 0 0 = Inr t" "r = der_encode (t_tag t, t_value t)" "der_valid (t_tag t, t_value t)" for t
  proof -
    have "tlv (t_tag t) (t_value t) = Inr r" using that(2,3) by (simp add: tlv_eq_Inr der_valid_def)
    from tlv_readTlv [OF this, of 0 "[]" "[]"] obtain u where "readTlv r 0 0 = Inr u" "t_raw u = r" by auto
    with that(1) show ?thesis by simp
  qed
  then show ?thesis by (auto simp: one_element_def split: sum.splits)
qed

interpretation req_body: der_codec encReqBodyField readKdcReqBody body_ok sealed_body
proof
  fix b e
  assume ok: "body_ok b" and e: "encReqBodyField b = Inr e"
  show "\<exists>y. e = der_encode y \<and> der_valid y \<and> (\<forall>p. readKdcReqBody (der_placed p y) = Inr (sealed_body b))"
  proof (cases "rb_raw b")
    case None
    with ok e body_built [OF None] show ?thesis by (simp add: body_ok_def encReqBodyField_def)
  next
    case (Some r)
    with e have r: "e = r" by (simp add: encReqBodyField_def)
    from ok Some obtain t where t: "readTlv r 0 0 = Inr t" "t_raw t = r" "r = der_encode (t_tag t, t_value t)"
      "der_valid (t_tag t, t_value t)" "readKdcReqBody t = Inr b" by (auto simp: body_ok_def one_element_read)
    have "readKdcReqBody (der_placed p (t_tag t, t_value t)) = Inr (sealed_body b)" for p
      using readKdcReqBody_cong [of "der_placed p (t_tag t, t_value t)" t] t Some by (simp add: sealed_body_def)
    with t(3,4) r show ?thesis by blast
  qed
qed

definition kdc_req_ok :: "kdc_req \<Rightarrow> bool" where
  "kdc_req_ok x \<longleftrightarrow> rq_pvno x = PVNO \<and> int48 (rq_msgType x) \<and> list_all pa_data_ok (rq_padata x) \<and> body_ok (rq_reqBody x)"

lemma kdc_req_readback:
  assumes ok: "kdc_req_ok x" and e: "encKdcReq x = Inr b" and "length b \<le> MAX_INPUT_BYTES"
  shows "readKdcReq b = Inr (x\<lparr>rq_reqBody := sealed_body (rq_reqBody x)\<rparr>)"
  using ok assms(3) unfolding kdc_req_ok_def
  by - (rule application_codec [OF e [unfolded encKdcReq_def]],
    (rule codec_intros | rule kdc_req.equality | simp add: readKdcReq_def split: if_split_asm)+)

end
