(* ===== verification/Krb5_Replies_Laws.thy ===== *)
theory Krb5_Replies_Laws
  imports Krb5_Messages_Laws
begin

text \<open>
  The replies, the AP exchange, errors, payloads and credentials as codecs, and what the exchange as a whole keeps: the
  bytes of a ticket, the salt a pre-authentication error carries, and the pre-flight that a request passes.
\<close>

lemma pred_option_True [simp]: "pred_option (\<lambda>x. True) y"
  by (cases y) simp_all

lemma der_read_whole: "der_valid y \<Longrightarrow> readTlv (der_encode y) 0 0 = Inr (der_placed 0 y)"
  using tlv_readTlv [of "fst y" "snd y" "der_encode y" 0 "[]" "[]"] by (simp add: tlv_eq_Inr der_valid_def der_placed_def)

text \<open>A payload that stands alone.\<close>

lemma whole_codec:
  assumes "tagged fs = Inr b" and "all_stand fs Rs" and "distinct (map fst fs)"
    and "\<And>t m. readTlv b 0 0 = Inr t \<Longrightarrow> fields_of t = Inr m \<Longrightarrow> list_all (\<lambda>(k, R). R (m k)) Rs \<Longrightarrow> dec b = Inr x"
  shows "dec b = Inr x"
proof -
  from tagged_read [OF assms(1-3)] obtain body m where b: "b = der_encode (TAG_SEQUENCE, body)" "der_valid (TAG_SEQUENCE, body)"
    "readTaggedSequence body 0 = Inr m" "list_all (\<lambda>(k, R). R (m k)) Rs" .
  with der_read_whole [OF b(2)] show ?thesis by (intro assms(4) [of "der_placed 0 (TAG_SEQUENCE, body)" m]) (simp_all add: fields_of_def)
qed

subsection \<open>Replies of the KDC\<close>

definition kdc_rep_ok :: "kdc_rep \<Rightarrow> bool" where
  "kdc_rep_ok x \<longleftrightarrow> rp_pvno x = PVNO \<and> int48 (rp_msgType x) \<and> list_all pa_data_ok (rp_padata x) \<and> wf_utf16 (rp_crealm x)
     \<and> principal_ok (rp_cname x) \<and> ticket_ok (rp_ticket x) \<and> encrypted_data_ok (rp_encPart x)"

lemma kdc_rep_readback:
  assumes ok: "kdc_rep_ok x" and e: "encKdcRep x = Inr b" and "length b \<le> MAX_INPUT_BYTES"
  shows "readKdcRep b = Inr (x\<lparr>rp_ticket := sealed (rp_ticket x)\<rparr>)"
  using ok assms(3) unfolding kdc_rep_ok_def
  by - (rule application_codec [OF e [unfolded encKdcRep_def]],
    (rule codec_intros | rule kdc_rep.equality | simp add: readKdcRep_def split: if_split_asm)+)

definition last_req_ok :: "last_req \<Rightarrow> bool" where
  "last_req_ok x \<longleftrightarrow> int48 (lr_type x) \<and> time_ok (lr_value x)"

interpretation last_req: der_codec encLastReq readLastReq last_req_ok "\<lambda>x. x"
proof
  fix x e
  assume ok: "last_req_ok x" and e: "encLastReq x = Inr e"
  show "\<exists>y. e = der_encode y \<and> der_valid y \<and> (\<forall>p. readLastReq (der_placed p y) = Inr x)"
    using ok unfolding last_req_ok_def
    by - (rule tagged_codec [OF e [unfolded encLastReq_def]],
      (rule codec_intros | rule last_req.equality | simp add: readLastReq_def)+)
qed

interpretation last_reqs: der_codec "encSeqOf encLastReq" "decSeqOf readLastReq" "list_all last_req_ok" "map (\<lambda>x. x)"
  by (rule last_req.sequence)

definition enc_kdc_rep_part_ok :: "enc_kdc_rep_part \<Rightarrow> bool" where
  "enc_kdc_rep_part_ok x \<longleftrightarrow> encryption_key_ok (ep_key x) \<and> list_all last_req_ok (ep_lastReq x) \<and> int48 (ep_nonce x)
     \<and> pred_option time_ok (ep_keyExpiration x) \<and> flags_ok (ep_flags x) \<and> time_ok (ep_authtime x)
     \<and> pred_option time_ok (ep_starttime x) \<and> time_ok (ep_endtime x) \<and> pred_option time_ok (ep_renewTill x)
     \<and> wf_utf16 (ep_srealm x) \<and> principal_ok (ep_sname x)
     \<and> pred_option (list_all host_address_ok) (ep_caddr x) \<and> nonempty (ep_caddr x) = ep_caddr x
     \<and> pred_option (list_all pa_data_ok) (ep_encryptedPaData x) \<and> nonempty (ep_encryptedPaData x) = ep_encryptedPaData x"

definition tag_of :: "tagged_as \<Rightarrow> nat" where
  "tag_of k = (case k of EncASRepPart \<Rightarrow> APP_ENC_AS_REP_PART | EncTGSRepPart \<Rightarrow> APP_ENC_TGS_REP_PART)"

lemma enc_kdc_rep_part_readback:
  assumes ok: "enc_kdc_rep_part_ok x" and e: "encEncKdcRepPart x (int (tag_of (ep_taggedAs x))) = Inr b"
    and "length b \<le> MAX_INPUT_BYTES"
  shows "readEncKdcRepPart b = Inr x"
proof -
  have n: "(if int (tag_of (ep_taggedAs x)) = 0 then int APP_ENC_AS_REP_PART else int (tag_of (ep_taggedAs x))) = int (tag_of (ep_taggedAs x))"
    by (simp add: tag_of_def krb5_constants split: tagged_as.split)
  have t: "tag_of (ep_taggedAs x) = APP_ENC_AS_REP_PART \<and> ep_taggedAs x = EncASRepPart
      \<or> tag_of (ep_taggedAs x) = APP_ENC_TGS_REP_PART \<and> tag_of (ep_taggedAs x) \<noteq> APP_ENC_AS_REP_PART \<and> ep_taggedAs x = EncTGSRepPart"
    by (cases "ep_taggedAs x") (simp_all add: tag_of_def krb5_constants)
  show ?thesis
    using ok assms(3) unfolding enc_kdc_rep_part_ok_def
    by - (rule application_codec [OF e [unfolded encEncKdcRepPart_def n]],
      (rule codec_intros | rule enc_kdc_rep_part.equality | simp add: readEncKdcRepPart_def | rule disjE [OF t])+)
qed

subsection \<open>The AP exchange\<close>

definition authenticator_ok :: "authenticator \<Rightarrow> bool" where
  "authenticator_ok x \<longleftrightarrow> au_vno x = PVNO \<and> wf_utf16 (au_crealm x) \<and> principal_ok (au_cname x) \<and> pred_option checksum_ok (au_cksum x)
     \<and> int48 (au_cusec x) \<and> time_ok (au_ctime x) \<and> pred_option encryption_key_ok (au_subkey x)
     \<and> pred_option int48 (au_seqNumber x) \<and> pred_option (list_all auth_data_ok) (au_authorizationData x)"

lemma authenticator_readback:
  assumes ok: "authenticator_ok x" and e: "encAuthenticator x = Inr b" and "length b \<le> MAX_INPUT_BYTES"
  shows "readAuthenticator b = Inr (x)"
  using ok assms(3) unfolding authenticator_ok_def
  by - (rule application_codec [OF e [unfolded encAuthenticator_def]],
    (rule codec_intros | rule authenticator.equality | simp add: readAuthenticator_def split: if_split_asm)+)

definition ap_req_ok :: "ap_req \<Rightarrow> bool" where
  "ap_req_ok x \<longleftrightarrow> ar_pvno x = PVNO \<and> ar_msgType x = MSG_AP_REQ \<and> flags_ok (ar_apOptions x)
     \<and> ticket_ok (ar_ticket x) \<and> encrypted_data_ok (ar_authenticator x)"

lemma ap_req_readback:
  assumes ok: "ap_req_ok x" and e: "encApReq x = Inr b" and "length b \<le> MAX_INPUT_BYTES"
  shows "readApReq b = Inr (x\<lparr>ar_ticket := sealed (ar_ticket x)\<rparr>)"
  using ok assms(3) unfolding ap_req_ok_def
  by - (rule application_codec [OF e [unfolded encApReq_def]],
    (rule codec_intros | rule ap_req.equality | simp add: readApReq_def split: if_split_asm)+)

definition ap_rep_ok :: "ap_rep \<Rightarrow> bool" where
  "ap_rep_ok x \<longleftrightarrow> ap_pvno x = PVNO \<and> ap_msgType x = MSG_AP_REP \<and> encrypted_data_ok (ap_encPart x)"

lemma ap_rep_readback:
  assumes ok: "ap_rep_ok x" and e: "encApRep x = Inr b" and "length b \<le> MAX_INPUT_BYTES"
  shows "readApRep b = Inr (x)"
  using ok assms(3) unfolding ap_rep_ok_def
  by - (rule application_codec [OF e [unfolded encApRep_def]],
    (rule codec_intros | rule ap_rep.equality | simp add: readApRep_def split: if_split_asm)+)

definition enc_ap_rep_part_ok :: "enc_ap_rep_part \<Rightarrow> bool" where
  "enc_ap_rep_part_ok x \<longleftrightarrow> time_ok (ea_ctime x) \<and> int48 (ea_cusec x) \<and> pred_option encryption_key_ok (ea_subkey x) \<and> pred_option int48 (ea_seqNumber x)"

lemma enc_ap_rep_part_readback:
  assumes ok: "enc_ap_rep_part_ok x" and e: "encEncApRepPart x = Inr b" and "length b \<le> MAX_INPUT_BYTES"
  shows "readEncApRepPart b = Inr (x)"
  using ok assms(3) unfolding enc_ap_rep_part_ok_def
  by - (rule application_codec [OF e [unfolded encEncApRepPart_def]],
    (rule codec_intros | rule enc_ap_rep_part.equality | simp add: readEncApRepPart_def split: if_split_asm)+)

subsection \<open>Errors\<close>

definition krb_error_ok :: "krb_error \<Rightarrow> bool" where
  "krb_error_ok x \<longleftrightarrow> ke_pvno x = PVNO \<and> ke_msgType x = MSG_ERROR \<and> pred_option time_ok (ke_ctime x) \<and> pred_option int48 (ke_cusec x)
     \<and> time_ok (ke_stime x) \<and> int48 (ke_susec x) \<and> int48 (ke_errorCode x)
     \<and> pred_option wf_utf16 (ke_crealm x) \<and> nonempty (ke_crealm x) = ke_crealm x \<and> pred_option principal_ok (ke_cname x)
     \<and> wf_utf16 (ke_realm x) \<and> principal_ok (ke_sname x)
     \<and> pred_option wf_utf16 (ke_eText x) \<and> nonempty (ke_eText x) = ke_eText x \<and> ke_eDataPaData x = eDataPaData (ke_eData x)"

lemma krb_error_readback:
  assumes ok: "krb_error_ok x" and e: "encKrbError x = Inr b" and "length b \<le> MAX_INPUT_BYTES"
  shows "readKrbError b = Inr (x)"
  using ok assms(3) unfolding krb_error_ok_def
  by - (rule application_codec [OF e [unfolded encKrbError_def]],
    (rule codec_intros | rule krb_error.equality | simp add: readKrbError_def split: if_split_asm)+)

subsection \<open>Tickets from the inside\<close>

interpretation transited: der_codec "\<lambda>x. encTransited (Some x)" readTransited "\<lambda>x. int48 (te_type x)" "\<lambda>x. x"
proof
  fix x e
  assume ok: "int48 (te_type x)" and e: "encTransited (Some x) = Inr e"
  show "\<exists>y. e = der_encode y \<and> der_valid y \<and> (\<forall>p. readTransited (der_placed p y) = Inr x)"
    using ok
    by - (rule tagged_codec [OF e [unfolded encTransited_def option.case]],
      (rule codec_intros | rule transited_encoding.equality | simp add: readTransited_def)+)
qed

definition enc_ticket_part_ok :: "enc_ticket_part \<Rightarrow> bool" where
  "enc_ticket_part_ok x \<longleftrightarrow> flags_ok (et_flags x) \<and> encryption_key_ok (et_key x) \<and> wf_utf16 (et_crealm x) \<and> principal_ok (et_cname x)
     \<and> et_transited x \<noteq> None \<and> pred_option (\<lambda>t. int48 (te_type t)) (et_transited x) \<and> time_ok (et_authtime x)
     \<and> pred_option time_ok (et_starttime x) \<and> time_ok (et_endtime x) \<and> pred_option time_ok (et_renewTill x)
     \<and> pred_option (list_all host_address_ok) (et_caddr x) \<and> nonempty (et_caddr x) = et_caddr x
     \<and> pred_option (list_all auth_data_ok) (et_authorizationData x)"

lemma enc_ticket_part_readback:
  assumes ok: "enc_ticket_part_ok x" and e: "encEncTicketPart x = Inr b" and "length b \<le> MAX_INPUT_BYTES"
  shows "readEncTicketPart b = Inr x"
proof -
  from ok obtain tr where tr: "et_transited x = Some tr" "int48 (te_type tr)" by (auto simp: enc_ticket_part_ok_def)
  show ?thesis
    using ok assms(3) tr unfolding enc_ticket_part_ok_def
    by - (rule application_codec [OF e [unfolded encEncTicketPart_def tr(1)]],
      (rule codec_intros | rule enc_ticket_part.equality | simp add: readEncTicketPart_def)+)
qed

subsection \<open>Pre-authentication\<close>

lemma pa_enc_ts_enc_readback:
  assumes ok: "time_ok t" "pred_option int48 u" and e: "encPaEncTsEnc t u = Inr b"
  shows "readPaEncTsEnc b = Inr \<lparr>pt_patimestamp = t, pt_pausec = u\<rparr>"
  using ok
  by - (rule whole_codec [OF e [unfolded encPaEncTsEnc_def]], (rule codec_intros | simp add: readPaEncTsEnc_def)+)

definition etype_info2_entry_ok :: "etype_info2_entry \<Rightarrow> bool" where
  "etype_info2_entry_ok x \<longleftrightarrow> int48 (ei_etype x) \<and> pred_option wf_utf16 (ei_salt x)"

interpretation etype_info2_entry: der_codec encEtypeInfo2_entry readEtypeInfo2_entry etype_info2_entry_ok "\<lambda>x. x"
proof
  fix x e
  assume ok: "etype_info2_entry_ok x" and e: "encEtypeInfo2_entry x = Inr e"
  show "\<exists>y. e = der_encode y \<and> der_valid y \<and> (\<forall>p. readEtypeInfo2_entry (der_placed p y) = Inr x)"
    using ok unfolding etype_info2_entry_ok_def
    by - (rule tagged_codec [OF e [unfolded encEtypeInfo2_entry_def]],
      (rule codec_intros | rule etype_info2_entry.equality | simp add: readEtypeInfo2_entry_def)+)
qed

text \<open>A sequence that stands alone, read without a look at its tag.\<close>

lemma sequence_whole:
  assumes "der_codec (encSeqOf enc) (decSeqOf dec) ok view" and "ok xs" and "encSeqOf enc xs = Inr b"
  shows "rbind (readTlv b 0 0) (\<lambda>t. rbind (readChildren (t_value t) 0) (rmap dec)) = Inr (view xs)"
proof -
  from der_codec.written_reads [OF assms] obtain y where y: "b = der_encode y" "der_valid y" "decSeqOf dec (der_placed 0 y) = Inr (view xs)"
    by blast
  then have "rbind (readChildren (snd y) 0) (rmap dec) = Inr (view xs)"
    by (auto simp: decSeqOf_def decSequenceOf_def expectTag_def rbind_eq_Inr split: if_split_asm)
  with y(1) der_read_whole [OF y(2)] show ?thesis by simp
qed

lemma etype_info2_readback:
  assumes "list_all etype_info2_entry_ok es" and "encEtypeInfo2 es = Inr b"
  shows "readEtypeInfo2 b = Inr es"
  using sequence_whole [OF etype_info2_entry.sequence assms(1) assms(2) [unfolded encEtypeInfo2_def]] by (simp add: readEtypeInfo2_def)

lemma eDataPaData_readback:
  assumes "list_all pa_data_ok pas" and "encSeqOf encPaData pas = Inr d"
  shows "eDataPaData (Some d) = Some pas"
proof -
  note r = sequence_whole [OF pa_data.sequence assms]
  then have "d \<noteq> []" by (auto simp: readTlv_def MAX_DEPTH_def)
  then obtain c d' where "d = c # d'" by (cases d) auto
  with r show ?thesis by (simp add: eDataPaData_def)
qed

lemma pa_pac_request_readback:
  assumes "encPaPacRequest inc = Inr b"
  shows "readPaPacRequest b = Inr (Some inc)"
proof -
  define y :: "byte \<times> bytes" where "y = (1, [if inc then 0xff else 0])"
  have y: "der_valid y" "tlv 1 [if inc then 0xff else 0] = Inr (der_encode y)" by (simp_all add: y_def der_valid_def tlv_ok)
  from assms have "encTaggedSequence [Some (int 0, Some (der_encode y))] = Inr b"
    by (auto simp: encPaPacRequest_def y(2) encTaggedSequence_def rbind_eq_Inr)
  from taggedSequence_encoded [OF _ _ this, of "[(0, y)]" 0] y(1) obtain body where
    b: "tlv TAG_SEQUENCE body = Inr b" "readTaggedSequence body 0 = Inr (field_map [(0, y)])" by (auto simp: MAX_DEPTH_def)
  then have "readTlv b 0 0 = Inr (der_placed 0 (TAG_SEQUENCE, body))" using der_read_whole [of "(TAG_SEQUENCE, body)"]
    by (simp add: tlv_eq_Inr der_valid_def)
  with b(2) show ?thesis by (simp add: readPaPacRequest_def fields_of_def field_map_def y_def)
qed

definition pa_for_user_ok :: "pa_for_user \<Rightarrow> bool" where
  "pa_for_user_ok x \<longleftrightarrow> principal_ok (pu_userName x) \<and> wf_utf16 (pu_userRealm x) \<and> checksum_ok (pu_cksum x)
     \<and> pred_option wf_utf16 (pu_authPackage x) \<and> nonempty (pu_authPackage x) = pu_authPackage x \<and> pu_authPackage x \<noteq> None"

lemma pa_for_user_readback:
  assumes ok: "pa_for_user_ok x" and e: "encPaForUser x = Inr b"
  shows "readPaForUser b = Inr x"
proof -
  from ok obtain ap where ap: "pu_authPackage x = Some ap" "nonempty (Some ap) = Some ap" "wf_utf16 ap" by (auto simp: pa_for_user_ok_def)
  show ?thesis
    using ok ap unfolding pa_for_user_ok_def
    by - (rule whole_codec [OF e [unfolded encPaForUser_def ap(1,2) option.case]],
      (rule codec_intros | rule pa_for_user.equality | simp add: readPaForUser_def)+)
qed

lemma pa_pac_options_readback:
  assumes ok: "flags_ok bits" and e: "encPaPacOptions bits = Inr b"
  shows "readPaPacOptions b = Inr bits"
  using ok
  by - (rule whole_codec [OF e [unfolded encPaPacOptions_def]], (rule codec_intros | simp add: readPaPacOptions_def)+)

subsection \<open>Delegated credentials\<close>

definition krb_cred_info_ok :: "krb_cred_info \<Rightarrow> bool" where
  "krb_cred_info_ok x \<longleftrightarrow> encryption_key_ok (ci_key x) \<and> pred_option wf_utf16 (ci_prealm x) \<and> nonempty (ci_prealm x) = ci_prealm x
     \<and> pred_option principal_ok (ci_pname x) \<and> pred_option flags_ok (ci_flags x) \<and> pred_option time_ok (ci_authtime x)
     \<and> pred_option time_ok (ci_starttime x) \<and> pred_option time_ok (ci_endtime x) \<and> pred_option time_ok (ci_renewTill x)
     \<and> pred_option wf_utf16 (ci_srealm x) \<and> nonempty (ci_srealm x) = ci_srealm x \<and> pred_option principal_ok (ci_sname x)
     \<and> pred_option (list_all host_address_ok) (ci_caddr x) \<and> nonempty (ci_caddr x) = ci_caddr x"

lemma field_present: "field t dec = Inr x \<Longrightarrow> \<exists>y. t = Some y"
  by (cases t) (simp_all add: field_def)

interpretation krb_cred_info: der_codec encKrbCredInfo readKrbCredInfo krb_cred_info_ok "\<lambda>x. x"
proof
  fix x e
  assume ok: "krb_cred_info_ok x" and e: "encKrbCredInfo x = Inr e"
  show "\<exists>y. e = der_encode y \<and> der_valid y \<and> (\<forall>p. readKrbCredInfo (der_placed p y) = Inr x)"
    using ok unfolding krb_cred_info_ok_def
    by - (rule tagged_codec [OF e [unfolded encKrbCredInfo_def]],
      (rule codec_intros | rule krb_cred_info.equality | simp add: readKrbCredInfo_def | blast intro: field_present)+)
qed

interpretation krb_cred_infos: der_codec "encSeqOf encKrbCredInfo" "decSeqOf readKrbCredInfo" "list_all krb_cred_info_ok" "map (\<lambda>x. x)"
  by (rule krb_cred_info.sequence)

definition enc_krb_cred_part_ok :: "enc_krb_cred_part \<Rightarrow> bool" where
  "enc_krb_cred_part_ok x \<longleftrightarrow> list_all krb_cred_info_ok (cp_ticketInfo x) \<and> pred_option int48 (cp_nonce x) \<and> pred_option time_ok (cp_timestamp x)
     \<and> pred_option int48 (cp_usec x) \<and> pred_option host_address_ok (cp_sAddress x) \<and> pred_option host_address_ok (cp_rAddress x)"

lemma enc_krb_cred_part_readback:
  assumes ok: "enc_krb_cred_part_ok x" and e: "encEncKrbCredPart x = Inr b" and "length b \<le> MAX_INPUT_BYTES"
  shows "readEncKrbCredPart b = Inr (x)"
  using ok assms(3) unfolding enc_krb_cred_part_ok_def
  by - (rule application_codec [OF e [unfolded encEncKrbCredPart_def]],
    (rule codec_intros | rule enc_krb_cred_part.equality | simp add: readEncKrbCredPart_def split: if_split_asm)+)

definition krb_cred_ok :: "krb_cred \<Rightarrow> bool" where
  "krb_cred_ok x \<longleftrightarrow> cr_pvno x = PVNO \<and> cr_msgType x = MSG_CRED \<and> list_all ticket_ok (cr_tickets x) \<and> cr_tickets x \<noteq> []
     \<and> encrypted_data_ok (cr_encPart x)"

lemma krb_cred_readback:
  assumes ok: "krb_cred_ok x" and e: "encKrbCred x = Inr b" and "length b \<le> MAX_INPUT_BYTES"
  shows "readKrbCred b = Inr (x\<lparr>cr_tickets := map sealed (cr_tickets x)\<rparr>)"
  using ok assms(3) unfolding krb_cred_ok_def
  by - (rule application_codec [OF e [unfolded encKrbCred_def]],
    (rule codec_intros | rule krb_cred.equality | simp add: readKrbCred_def split: if_split_asm)+)

end
