(* ===== verification/Krb5_Wire.thy ===== *)
theory Krb5_Wire
  imports Krb5_Replies_Laws
begin

text \<open>
  What of a record reaches the wire (\<open>common/krb5/krb5_messages.js\<close>).  A KerberosTime has no milliseconds, a set of
  flags no order, an empty optional list is left out, and versions and message types are constants of the writers.  The
  wire form of a record is the record with all that done; a record and its wire form are written alike, so what
  the readers return of a record is its wire form.
\<close>

subsection \<open>Times\<close>

definition whole_second :: "js_date \<Rightarrow> js_date" where
  "whole_second d = (case d of InvalidDate \<Rightarrow> InvalidDate | TimeValue t \<Rightarrow> TimeValue (t div 1000 * 1000))"

lemma second_of_day: "t mod 86400000 div 1000 = t div 1000 mod 86400" for t :: int
proof -
  have "t mod 86400000 = 1000 * (t div 1000 mod 86400) + t mod 1000" using zmod_zmult2_eq [of 86400 t 1000] by simp
  then show ?thesis by simp
qed

lemma format_whole: "formatKerberosTime (TimeValue (t div 1000 * 1000)) = formatKerberosTime (TimeValue t)"
proof -
  let ?w = "t div 1000 * 1000"
  have w: "?w div 1000 = t div 1000" by simp
  have day: "?w div 86400000 = t div 86400000" and clock: "?w mod 86400000 div 1000 = t mod 86400000 div 1000"
    using zdiv_zmult2_eq [of 86400 ?w 1000] zdiv_zmult2_eq [of 86400 t 1000] by (simp_all add: second_of_day w)
  have "?w mod 86400000 div 3600000 = t mod 86400000 div 3600000" "?w mod 86400000 div 60000 = t mod 86400000 div 60000"
    using zdiv_zmult2_eq [of 3600 "?w mod 86400000" 1000] zdiv_zmult2_eq [of 3600 "t mod 86400000" 1000]
      zdiv_zmult2_eq [of 60 "?w mod 86400000" 1000] zdiv_zmult2_eq [of 60 "t mod 86400000" 1000]
    by (simp_all only: clock mult_numeral_1_right numeral_times_numeral Num.arith_simps)
  with day clock show ?thesis by (simp only: formatKerberosTime_def js_date.case Let_def)
qed

lemma encKerberosTime_whole [simp]: "encKerberosTime (whole_second d) = encKerberosTime d"
  by (cases d) (simp_all add: whole_second_def encKerberosTime_def format_whole)

lemma whole_second_idem [simp]: "whole_second (whole_second d) = whole_second d"
  by (simp add: whole_second_def split: js_date.split)

subsection \<open>Flags\<close>

definition wire_flags :: "int list \<Rightarrow> int list" where
  "wire_flags bits = sort (remdups bits)"

lemma flag_set_determines:
  assumes "length out = length out'" and "\<And>i. flag_set out i = flag_set out' i"
  shows "out = out'"
proof (rule nth_equalityI)
  fix k
  assume k: "k < length out"
  show "out ! k = out' ! k"
  proof (rule bit_word_eqI)
    fix n
    assume "n < LENGTH(8)"
    then have "(8 * k + (7 - n)) div 8 = k" "(8 * k + (7 - n)) mod 8 = 7 - n" "7 - (7 - n) = n"
      by (simp_all only: div_mult_self4 mod_mult_self4) simp_all
    with assms(2) [of "8 * k + (7 - n)"] k assms(1) show "bit (out ! k) n = bit (out' ! k) n" by (simp only: flag_set_def simp_thms)
  qed
qed (rule assms(1))

lemma encFlags_wire: "flags_ok (wire_flags bits) \<Longrightarrow> encFlags (wire_flags bits) = encFlags bits"
proof -
  assume "flags_ok (wire_flags bits)"
  then have range: "\<forall>b\<in>set (wire_flags bits). 0 \<le> b \<and> b \<le> 31" and same: "set (wire_flags bits) = set bits"
    by (simp_all add: flags_ok_def wire_flags_def)
  from encFlags_loop_ok [OF range, of "replicate 4 0"] obtain out where
    out: "encFlags_loop (wire_flags bits) (replicate 4 0) = Inr out" "length out = 4" "\<And>i. flag_set out i \<longleftrightarrow> int i \<in> set bits"
    using flag_set_zero same by auto
  from encFlags_loop_ok [OF range [unfolded same], of "replicate 4 0"] obtain out' where
    out': "encFlags_loop bits (replicate 4 0) = Inr out'" "length out' = 4" "\<And>i. flag_set out' i \<longleftrightarrow> int i \<in> set bits"
    using flag_set_zero by auto
  have "out = out'" using out out' by (intro flag_set_determines) simp_all
  with out(1) out'(1) show ?thesis by (simp add: encFlags_def)
qed

lemma opt_wire:
  "opt encKerberosTime (map_option whole_second d) = opt encKerberosTime d"
  "pred_option flags_ok (map_option wire_flags fl) \<Longrightarrow> opt encFlags (map_option wire_flags fl) = opt encFlags fl"
  by (cases d, simp_all add: opt_def) (cases fl, simp_all add: encFlags_wire)

lemma nonempty_idem [simp]: "nonempty (nonempty x) = nonempty x"
  by (simp add: nonempty_def split: option.split list.split)

subsection \<open>Requests and replies\<close>

text \<open>A body that was read keeps the bytes it was read from.\<close>

definition wire_body :: "kdc_req_body \<Rightarrow> kdc_req_body" where
  "wire_body b =
     (case rb_raw b of
        Some r \<Rightarrow> b
      | None \<Rightarrow> b\<lparr>rb_kdcOptions := wire_flags (rb_kdcOptions b), rb_from := map_option whole_second (rb_from b),
                   rb_till := whole_second (rb_till b), rb_rtime := map_option whole_second (rb_rtime b),
                   rb_addresses := nonempty (rb_addresses b), rb_additionalTickets := nonempty (rb_additionalTickets b)\<rparr>)"

definition wire_request :: "kdc_req \<Rightarrow> kdc_req" where
  "wire_request x = x\<lparr>rq_pvno := PVNO, rq_reqBody := wire_body (rq_reqBody x)\<rparr>"

definition wire_reply :: "kdc_rep \<Rightarrow> kdc_rep" where
  "wire_reply r = r\<lparr>rp_pvno := PVNO\<rparr>"

lemma wire_request_simps [simp]: "rq_msgType (wire_request x) = rq_msgType x" "rp_msgType (wire_reply r) = rp_msgType r"
  by (simp_all add: wire_request_def wire_reply_def)

lemma encReqBodyField_wire:
  assumes "body_ok (wire_body b)"
  shows "encReqBodyField (wire_body b) = encReqBodyField b"
proof (cases "rb_raw b")
  case None
  with assms have "flags_ok (wire_flags (rb_kdcOptions b))" by (simp add: body_ok_def body_fields_ok_def wire_body_def)
  then show ?thesis
    by (simp add: None encReqBodyField_def wire_body_def encKdcReqBody_def opt_wire encFlags_wire)
qed (simp add: wire_body_def)

lemma encKdcReq_wire: "kdc_req_ok (wire_request x) \<Longrightarrow> encKdcReq (wire_request x) = encKdcReq x"
  by (simp add: kdc_req_ok_def encKdcReq_def wire_request_def encReqBodyField_wire)

lemma encKdcRep_wire: "encKdcRep (wire_reply r) = encKdcRep r"
  by (simp add: encKdcRep_def wire_reply_def)

lemma wire_request_read:
  assumes "kdc_req_ok (wire_request x)" and "encKdcReq x = Inr b" and "length b \<le> MAX_INPUT_BYTES"
  shows "readKdcReq b = Inr (x\<lparr>rq_pvno := PVNO, rq_reqBody := sealed_body (wire_body (rq_reqBody x))\<rparr>)"
  using kdc_req_readback [OF assms(1)] assms by (simp add: encKdcReq_wire) (simp add: wire_request_def)

lemma wire_reply_id: "kdc_rep_ok r \<Longrightarrow> wire_reply r = r"
  by (simp add: kdc_rep_ok_def wire_reply_def)

lemma wire_body_built:
  "rb_raw b = None \<Longrightarrow> rb_raw (wire_body b) = None \<and> encKdcReqBody (wire_body b) = encReqBodyField (wire_body b)
     \<and> rb_nonce (wire_body b) = rb_nonce b"
  by (simp add: wire_body_def encReqBodyField_def)

lemma wire_reply_read:
  assumes "kdc_rep_ok (wire_reply r)" and "encKdcRep r = Inr b" and "length b \<le> MAX_INPUT_BYTES"
  shows "readKdcRep b = Inr (r\<lparr>rp_pvno := PVNO, rp_ticket := sealed (rp_ticket r)\<rparr>)"
  using kdc_rep_readback [OF assms(1)] assms by (simp add: encKdcRep_wire) (simp add: wire_reply_def)

subsection \<open>Errors\<close>

text \<open>\<open>eDataPaData\<close> is a field of the reader's only.\<close>

definition wire_error :: "krb_error \<Rightarrow> krb_error" where
  "wire_error e = e\<lparr>ke_pvno := PVNO, ke_msgType := MSG_ERROR, ke_ctime := map_option whole_second (ke_ctime e),
     ke_stime := whole_second (ke_stime e), ke_crealm := nonempty (ke_crealm e), ke_eText := nonempty (ke_eText e),
     ke_eDataPaData := eDataPaData (ke_eData e)\<rparr>"

lemma encKrbError_wire: "encKrbError (wire_error e) = encKrbError e"
  by (simp add: encKrbError_def wire_error_def opt_wire)

lemma wire_error_read:
  assumes "krb_error_ok (wire_error e)" and "encKrbError e = Inr b" and "length b \<le> MAX_INPUT_BYTES"
  shows "readKrbError b = Inr (wire_error e)"
  using krb_error_readback [OF assms(1)] assms by (simp add: encKrbError_wire)

subsection \<open>Delegated credentials\<close>

definition wire_cred_info :: "krb_cred_info \<Rightarrow> krb_cred_info" where
  "wire_cred_info i = i\<lparr>ci_prealm := nonempty (ci_prealm i), ci_flags := map_option wire_flags (ci_flags i),
     ci_authtime := map_option whole_second (ci_authtime i), ci_starttime := map_option whole_second (ci_starttime i),
     ci_endtime := map_option whole_second (ci_endtime i), ci_renewTill := map_option whole_second (ci_renewTill i),
     ci_srealm := nonempty (ci_srealm i), ci_caddr := nonempty (ci_caddr i)\<rparr>"

definition wire_cred_part :: "enc_krb_cred_part \<Rightarrow> enc_krb_cred_part" where
  "wire_cred_part p = p\<lparr>cp_ticketInfo := map wire_cred_info (cp_ticketInfo p), cp_timestamp := map_option whole_second (cp_timestamp p)\<rparr>"

definition wire_cred :: "krb_cred \<Rightarrow> krb_cred" where
  "wire_cred c = c\<lparr>cr_pvno := PVNO, cr_msgType := MSG_CRED\<rparr>"

lemma encKrbCredInfo_wire: "krb_cred_info_ok (wire_cred_info i) \<Longrightarrow> encKrbCredInfo (wire_cred_info i) = encKrbCredInfo i"
  by (simp add: krb_cred_info_ok_def encKrbCredInfo_def wire_cred_info_def opt_wire)

lemma rmap_wire:
  "list_all krb_cred_info_ok (map wire_cred_info xs) \<Longrightarrow> rmap encKrbCredInfo (map wire_cred_info xs) = rmap encKrbCredInfo xs"
  by (induction xs) (simp_all add: encKrbCredInfo_wire)

lemma encEncKrbCredPart_wire:
  assumes "enc_krb_cred_part_ok (wire_cred_part p)"
  shows "encEncKrbCredPart (wire_cred_part p) = encEncKrbCredPart p"
  using assms rmap_wire [of "cp_ticketInfo p"]
  by (simp add: enc_krb_cred_part_ok_def encEncKrbCredPart_def wire_cred_part_def encSeqOf_def opt_wire)

lemma encKrbCred_wire: "encKrbCred (wire_cred c) = encKrbCred c"
  by (simp add: encKrbCred_def wire_cred_def)

lemma wire_cred_read:
  assumes "krb_cred_ok (wire_cred c)" and "encKrbCred c = Inr b" and "length b \<le> MAX_INPUT_BYTES"
  shows "readKrbCred b = Inr (wire_cred c\<lparr>cr_tickets := map sealed (cr_tickets c)\<rparr>)"
  using krb_cred_readback [OF assms(1)] assms by (simp add: encKrbCred_wire) (simp add: wire_cred_def)

lemma wire_cred_part_read:
  assumes "enc_krb_cred_part_ok (wire_cred_part p)" and "encEncKrbCredPart p = Inr b" and "length b \<le> MAX_INPUT_BYTES"
  shows "readEncKrbCredPart b = Inr (wire_cred_part p)"
  using enc_krb_cred_part_readback [OF assms(1)] assms by (simp add: encEncKrbCredPart_wire)

end
