(* ===== verification/Krb5_Tickets.thy ===== *)
theory Krb5_Tickets
  imports Krb5_Wire "HOL-Library.Sublist"
begin

text \<open>
  What a Kerberos exchange keeps (\<open>common/krb5/krb5_messages.js\<close>): the original bytes of a ticket from the reply that
  brought it to the request that presents it, the salt a pre-authentication error carries, and the credentials that are
  delegated.  The elements a reader returns are segments of the bytes it was given.
\<close>

subsection \<open>Elements are segments\<close>

lemma singleton_case: "(case xs of [x] \<Rightarrow> f x | _ \<Rightarrow> Inl e) = Inr y \<Longrightarrow> \<exists>x. xs = [x] \<and> f x = Inr y"
  by (auto split: list.splits)

lemma readTlv_segment: "readTlv b at d = Inr t \<Longrightarrow> sublist (t_raw t) b \<and> sublist (t_value t) b"
  using readTlv_bounds(8,9) [of b at d t] by (metis sublist_order.order_trans sublist_drop sublist_take)

lemma readChildren_segment: "readChildren_from b at d = Inr ts \<Longrightarrow> t \<in> set ts \<Longrightarrow> sublist (t_raw t) b \<and> sublist (t_value t) b"
proof (induction b at d arbitrary: ts rule: readChildren_from.induct)
  case (1 b at d)
  show ?case
  proof (cases "at < length b")
    case True
    with "1.prems"(1) obtain x xs where x: "readTlv b at (d + 1) = Inr x" "readChildren_from b (t_end x) d = Inr xs" "ts = x # xs"
      by (auto simp: readChildren_from.simps [of b at] rbind_eq_Inr)
    with "1.IH" [OF True x(1,2)] "1.prems"(2) readTlv_segment [OF x(1)] show ?thesis by auto
  next
    case False
    with "1.prems" show ?thesis by (simp add: readChildren_from.simps [of b at])
  qed
qed

lemma readTagged_segment:
  "readTagged_loop cs d m = Inr m' \<Longrightarrow> \<forall>c\<in>set cs. sublist (t_value c) b \<Longrightarrow> \<forall>t\<in>ran m. sublist (t_raw t) b \<Longrightarrow>
     m' k = Some t \<Longrightarrow> sublist (t_raw t) b"
proof (induction cs arbitrary: m)
  case Nil
  then show ?case by (auto simp: ran_def)
next
  case (Cons c cs)
  define n where "n = unat (t_tag c AND 0x1f)"
  from Cons.prems(1) obtain x where x: "readChildren (t_value c) (d + 1) = Inr [x]"
    and r: "readTagged_loop cs d (m(n \<mapsto> x)) = Inr m'"
    by (auto simp: rbind_eq_Inr Let_def n_def split: if_split_asm dest!: singleton_case)
  have "sublist (t_raw x) (t_value c)" using readChildren_segment [of "t_value c" 0 "d + 1" "[x]" x] x by (simp add: readChildren_def)
  with Cons.prems(2) have xb: "sublist (t_raw x) b" by (meson list.set_intros(1) sublist_order.order_trans)
  have "\<forall>t\<in>ran (m(n \<mapsto> x)). sublist (t_raw t) b"
    using Cons.prems(3) xb by (auto simp: ran_def)
  from Cons.IH [OF r _ this Cons.prems(4)] Cons.prems(2) show ?case by simp
qed

lemma fields_segment: "fields_of t = Inr m \<Longrightarrow> m k = Some e \<Longrightarrow> sublist (t_raw e) (t_value t)"
  unfolding fields_of_def readTaggedSequence_def rbind_eq_Inr
  by (elim exE conjE, erule readTagged_segment) (auto simp: readChildren_def dest: readChildren_segment)

lemma application_segment: "readApplication b n = Inr a \<Longrightarrow> sublist (t_value (a_sequence a)) b"
proof -
  assume "readApplication b n = Inr a"
  then obtain outer x where "readTlv b 0 0 = Inr outer" "readChildren (t_value outer) 1 = Inr [x]" "a_sequence a = x"
    by (auto simp: readApplication_def rbind_eq_Inr Let_def expectTag_def split: if_split_asm dest!: singleton_case)
  then have "sublist (t_value outer) b" "sublist (t_value (a_sequence a)) (t_value outer)"
    using readTlv_segment readChildren_segment [of "t_value outer" 0 1 "[x]" x] by (auto simp: readChildren_def)
  then show ?thesis by (meson sublist_order.order_trans)
qed

lemma sublist_concat: "x \<in> set xs \<Longrightarrow> sublist x (concat xs)"
  by (metis concat.simps(2) concat_append split_list sublist_appendI)

lemma tlv_segment: "tlv tg v = Inr e \<Longrightarrow> sublist v e"
proof -
  assume "tlv tg v = Inr e"
  then obtain len where "e = (tg # len) @ v @ []" by (auto simp: tlv_def rbind_eq_Inr)
  then show ?thesis by (simp only: sublist_appendI)
qed

lemma parts_segment: "encTaggedSequence_parts ps = Inr parts \<Longrightarrow> Some (n, Some c) \<in> set ps \<Longrightarrow> \<exists>p\<in>set parts. sublist c p"
proof (induction ps arbitrary: parts rule: encTaggedSequence_parts.induct)
  case (4 tg v fs)
  from "4.prems"(1) obtain p ps where p: "encContext tg v = Inr p" and ps: "encTaggedSequence_parts fs = Inr ps"
    and parts: "parts = p # ps" by (auto simp: rbind_eq_Inr)
  from p have "sublist v p" by (auto simp: encContext_def rbind_eq_Inr dest: tlv_segment)
  with "4.IH" [OF p ps] "4.prems"(2) show ?case by (auto simp: parts)
qed auto

lemma tagged_segment:
  assumes "tagged fs = Inr e" and "(n, Inr (Some c)) \<in> set fs"
  shows "sublist c e"
proof -
  from assms(1) obtain ps where ps: "rmap (\<lambda>(n, v). rbind v (\<lambda>b. Inr (Some (int n, b)))) fs = Inr ps"
    and e: "encTaggedSequence ps = Inr e" by (auto simp: tagged_def rbind_eq_Inr)
  have "Some (int n, Some c) \<in> set ps"
    using ps assms(2) by (induction fs arbitrary: ps) (auto simp: rbind_eq_Inr)
  moreover from e obtain parts where parts: "encTaggedSequence_parts ps = Inr parts" "tlv TAG_SEQUENCE (concat parts) = Inr e"
    by (auto simp: encTaggedSequence_def encSequence_def rbind_eq_Inr)
  ultimately obtain p where "p \<in> set parts" "sublist c p" using parts_segment by blast
  with tlv_segment [OF parts(2)] sublist_concat show ?thesis by (meson sublist_order.order_trans)
qed

lemma application_writes:
  "rbind (tagged fs) (encApplication n) = Inr b \<Longrightarrow> (k, Inr (Some c)) \<in> set fs \<Longrightarrow> sublist c b"
proof -
  assume "rbind (tagged fs) (encApplication n) = Inr b" and c: "(k, Inr (Some c)) \<in> set fs"
  then obtain e tg where "tagged fs = Inr e" "tlv tg e = Inr b" by (auto simp: rbind_eq_Inr encApplication_def)
  with tagged_segment [OF _ c] tlv_segment show ?thesis by (meson sublist_order.order_trans)
qed

lemma readTicket_raw: "readTicket b = Inr k \<Longrightarrow> tk_raw k = Some b"
  by (auto simp: readTicket_def rbind_eq_Inr)

subsection \<open>Which message\<close>

lemma identify_application:
  assumes "encApplication (int n) e = Inr b"
  shows "peekApplicationNumber b = Some n"
proof -
  from assms have n: "n \<le> 30" and b: "tlv (0x60 OR byte_of n) e = Inr b"
    by (auto simp: encApplication_def applicationTag_def rbind_eq_Inr split: if_splits)
  then obtain len where len: "encodeLength (length e) = Inr len" "b = (0x60 OR byte_of n) # len @ e" by (auto simp: tlv_def rbind_eq_Inr)
  then have ne: "len \<noteq> []" by (auto simp: encodeLength_def Let_def split: if_splits)
  then have l: "2 \<le> length b" using len(2) by (cases len) auto
  have tag: "unat (0x60 OR byte_of n) = 96 + n" using unat_application_tag [of "int n"] n by simp
  have "(96 + n) div 32 = 3" "(96 + n) mod 32 = n" using n add_field_div_mod [of n 32 3] by (simp_all add: div_nat_eqI)
  with l ne show ?thesis by (simp add: peekApplicationNumber_def len(2) byte_eq_iff unat_byte_and_mask tag)
qed

lemma identify_message: "rbind t (encApplication (int n)) = Inr b \<Longrightarrow> peekApplicationNumber b = Some n"
  by (auto simp: rbind_eq_Inr dest: identify_application)

text \<open>Small messages that the properties are tried on.\<close>

definition name_R :: jstring where "name_R = js_ascii ''R''"
definition name_k :: jstring where "name_k = js_ascii ''k''"
definition name_Ra :: jstring where "name_Ra = js_ascii ''Ra''"

definition sample_ticket :: ticket where
  "sample_ticket = \<lparr>tk_tktVno = 5, tk_realm = name_R, tk_sname = \<lparr>pn_type = Some 2, pn_name = [name_k]\<rparr>,
     tk_encPart = \<lparr>ed_etype = 18, ed_kvno = None, ed_cipher = [1]\<rparr>, tk_raw = None\<rparr>"

definition sample_reply :: kdc_rep where
  "sample_reply = \<lparr>rp_pvno = 5, rp_msgType = 11, rp_padata = [], rp_crealm = name_R,
     rp_cname = \<lparr>pn_type = Some 1, pn_name = [name_k]\<rparr>, rp_ticket = sample_ticket,
     rp_encPart = \<lparr>ed_etype = 18, ed_kvno = Some 2, ed_cipher = [7]\<rparr>\<rparr>"

definition sample_ap_req :: ap_req where
  "sample_ap_req = \<lparr>ar_pvno = 5, ar_msgType = 14, ar_apOptions = [2], ar_ticket = sample_ticket,
     ar_authenticator = \<lparr>ed_etype = 18, ed_kvno = None, ed_cipher = [3]\<rparr>\<rparr>"

definition sample_infos :: "etype_info2_entry list" where
  "sample_infos = [\<lparr>ei_etype = 18, ei_salt = Some name_Ra, ei_s2kparams = Some [0, 0, 16, 0]\<rparr>]"

definition sample_padata :: "pa_data list" where
  "sample_padata = [\<lparr>pa_type = 19, pa_value = projr (encEtypeInfo2 sample_infos)\<rparr>]"

definition sample_error :: krb_error where
  "sample_error = \<lparr>ke_pvno = 5, ke_msgType = 30, ke_ctime = None, ke_cusec = None, ke_stime = TimeValue 1709210096789, ke_susec = 7,
     ke_errorCode = 25, ke_crealm = None, ke_cname = None, ke_realm = name_R,
     ke_sname = \<lparr>pn_type = Some 2, pn_name = [name_k]\<rparr>, ke_eText = None,
     ke_eData = Some (projr (encSeqOf encPaData sample_padata)), ke_eDataPaData = None\<rparr>"

definition sample_key :: encryption_key where
  "sample_key = \<lparr>ek_etype = 18, ek_key = [9, 9]\<rparr>"

definition sample_enc_part :: enc_kdc_rep_part where
  "sample_enc_part = \<lparr>ep_taggedAs = EncASRepPart, ep_key = sample_key, ep_lastReq = [\<lparr>lr_type = 0, lr_value = TimeValue 1709210096000\<rparr>],
     ep_nonce = 77, ep_keyExpiration = None, ep_flags = [1, 9], ep_authtime = TimeValue 1709210096000, ep_starttime = None,
     ep_endtime = TimeValue 1709246096000, ep_renewTill = None, ep_srealm = name_R,
     ep_sname = \<lparr>pn_type = Some 2, pn_name = [name_k]\<rparr>, ep_caddr = None, ep_encryptedPaData = None\<rparr>"

definition sample_cred :: krb_cred where
  "sample_cred = \<lparr>cr_pvno = 5, cr_msgType = 22, cr_tickets = [sample_ticket], cr_encPart = \<lparr>ed_etype = 18, ed_kvno = None, ed_cipher = [5]\<rparr>\<rparr>"

definition sample_cred_part :: enc_krb_cred_part where
  "sample_cred_part = \<lparr>cp_ticketInfo = [\<lparr>ci_key = sample_key, ci_prealm = Some name_R, ci_pname = None, ci_flags = Some [9, 1],
        ci_authtime = None, ci_starttime = None, ci_endtime = Some (TimeValue 1709246096000), ci_renewTill = None, ci_srealm = Some [],
        ci_sname = None, ci_caddr = None\<rparr>],
     cp_nonce = Some 5, cp_timestamp = Some (TimeValue 1709210096789), cp_usec = None, cp_sAddress = None, cp_rAddress = None\<rparr>"

definition fits :: "asn1_error + bytes \<Rightarrow> bool" where
  "fits v = (case v of Inl _ \<Rightarrow> False | Inr b \<Rightarrow> length b \<le> 500)"

lemma fits_encoded: "fits v \<Longrightarrow> v = Inr (projr v) \<and> length (projr v) \<le> MAX_INPUT_BYTES"
  by (cases v) (simp_all add: fits_def MAX_INPUT_BYTES_def)

lemma sample_fits:
  "fits (encKdcRep sample_reply)" "fits (encKrbError sample_error)" "fits (encEncKdcRepPart sample_enc_part 26)"
  "fits (encKrbCred sample_cred)" "fits (encEncKrbCredPart sample_cred_part)" "fits (encEtypeInfo2 sample_infos)"
  "fits (encSeqOf encPaData sample_padata)"
  by code_simp+

lemma ascii_wf: "list_all (\<lambda>u. unat u < 128) us \<Longrightarrow> wf_utf16 us"
  by (induction us) (auto simp: high_surrogate_def low_surrogate_def)

lemma sample_values:
  "wf_utf16 name_R" "wf_utf16 name_k" "wf_utf16 name_Ra" "time_ok (TimeValue 1709210096000)" "time_ok (TimeValue 1709246096000)"
  by (rule ascii_wf, simp add: name_R_def name_k_def name_Ra_def)+ code_simp+

lemma sample_flags: "flags_ok [1, 9]" "flags_ok [1]" "nonempty (Some name_R) = Some name_R"
  by (simp_all add: flags_ok_def name_R_def)

lemma sample_wire: "wire_flags [9, 1] = [1, 9]" "wire_flags [1] = [1]"
  by (simp_all add: wire_flags_def)

lemmas sample_checks = sample_values sample_flags principal_ok_def encrypted_data_ok_def encryption_key_ok_def pa_data_ok_def int48_def

lemma sample_ticket_ok: "ticket_ok sample_ticket"
proof -
  have "fits (encTicket sample_ticket)" by code_simp
  then have "small (encTicket sample_ticket)" by (auto simp: fits_def small_def MAX_INPUT_BYTES_def split: sum.splits)
  then show ?thesis by (simp add: ticket_ok_def sample_checks) (simp add: sample_ticket_def sample_checks)
qed

lemma sample_ok:
  "kdc_rep_ok sample_reply" "enc_kdc_rep_part_ok sample_enc_part" "krb_cred_ok (wire_cred sample_cred)"
  "enc_krb_cred_part_ok (wire_cred_part sample_cred_part)" "list_all etype_info2_entry_ok sample_infos" "list_all pa_data_ok sample_padata"
proof -
  show "kdc_rep_ok sample_reply" by (simp add: kdc_rep_ok_def sample_reply_def sample_ticket_ok sample_checks krb5_constants)
  show "enc_kdc_rep_part_ok sample_enc_part"
    by (simp add: enc_kdc_rep_part_ok_def sample_enc_part_def sample_key_def last_req_ok_def sample_checks)
  show "krb_cred_ok (wire_cred sample_cred)"
    by (simp add: krb_cred_ok_def wire_cred_def sample_cred_def sample_ticket_ok sample_checks krb5_constants)
  show "enc_krb_cred_part_ok (wire_cred_part sample_cred_part)"
    by (simp add: enc_krb_cred_part_ok_def krb_cred_info_ok_def wire_cred_part_def wire_cred_info_def sample_cred_part_def
        sample_key_def whole_second_def sample_wire sample_checks)
  show "list_all etype_info2_entry_ok sample_infos" by (simp add: etype_info2_entry_ok_def sample_infos_def sample_checks)
  show "list_all pa_data_ok sample_padata" by (simp add: sample_padata_def sample_checks)
qed

lemma sample_error_ok: "krb_error_ok (wire_error sample_error)"
  by (simp add: krb_error_ok_def wire_error_def sample_error_def whole_second_def sample_checks krb5_constants)

subsection \<open>Properties\<close>

text \<open>C35: The ticket of any reply that is read stands in the reply as it was sent, and every AP-REQ made with that ticket holds
  the same bytes; reading them again gives the same ticket.\<close>

theorem ticket_relayed_unchanged:
  assumes "readKdcRep b = Inr rep" and "encApReq (r\<lparr>ar_ticket := rp_ticket rep\<rparr>) = Inr b'"
  shows "\<exists>t. tk_raw (rp_ticket rep) = Some t \<and> readTicket t = Inr (rp_ticket rep) \<and> sublist t b \<and> sublist t b'"
proof -
  from assms(1) obtain a f where a: "readApplication b None = Inr a" and f: "fields_of (a_sequence a) = Inr f"
    and tk: "field (f 5) readTicketElement = Inr (rp_ticket rep)"
    by (auto simp: readKdcRep_def rbind_eq_Inr split: if_split_asm)
  from tk obtain e where e: "f 5 = Some e" "readTicket (t_raw e) = Inr (rp_ticket rep)"
    by (auto simp: field_def readTicketElement_def split: option.splits)
  note raw = readTicket_raw [OF e(2)]
  have "sublist (t_raw e) b"
    using fields_segment [OF f e(1)] application_segment [OF a] by (meson sublist_order.order_trans)
  moreover have "sublist (t_raw e) b'"
    using assms(2) unfolding encApReq_def by (rule application_writes [of _ _ _ 3]) (simp add: encTicket_def raw req_def)
  ultimately show ?thesis using raw e(2) by blast
qed

lemma ticket_relayed_unchanged_witness:
  "\<exists>rep b'. readKdcRep (projr (encKdcRep sample_reply)) = Inr rep \<and> encApReq (sample_ap_req\<lparr>ar_ticket := rp_ticket rep\<rparr>) = Inr b'
    \<and> (\<exists>t. tk_raw (rp_ticket rep) = Some t \<and> readTicket t = Inr (rp_ticket rep) \<and> sublist t (projr (encKdcRep sample_reply)) \<and> sublist t b')"
proof -
  define rep where "rep = sample_reply\<lparr>rp_ticket := sealed (rp_ticket sample_reply)\<rparr>"
  have r: "readKdcRep (projr (encKdcRep sample_reply)) = Inr rep"
    using kdc_rep_readback [OF sample_ok(1)] fits_encoded [OF sample_fits(1)] by (simp add: rep_def)
  have "fits (encApReq (sample_ap_req\<lparr>ar_ticket := sealed (rp_ticket sample_reply)\<rparr>))" by code_simp
  then have w: "encApReq (sample_ap_req\<lparr>ar_ticket := rp_ticket rep\<rparr>) = Inr (projr (encApReq (sample_ap_req\<lparr>ar_ticket := rp_ticket rep\<rparr>)))"
    by (simp add: rep_def fits_encoded)
  from ticket_relayed_unchanged [OF r w] r w show ?thesis by blast
qed

lemma kdc_reply_readback:
  assumes "kdc_rep_ok (wire_reply r)" and "encKdcRep r = Inr b" and "length b \<le> MAX_INPUT_BYTES"
  shows "readKdcResponse b =
    Inr (KdcReply (if rp_msgType r = MSG_TGS_REP then ''TGS-REP'' else ''AS-REP'') (r\<lparr>rp_pvno := PVNO, rp_ticket := sealed (rp_ticket r)\<rparr>))"
  using identify_message [OF assms(2) [unfolded encKdcRep_def]] wire_reply_read [OF assms]
  by (auto simp: readKdcResponse_def identify_def APPLICATION_NAMES_def krb5_constants)

text \<open>C36: The error that asks for pre-authentication delivers what it carries: the padata of its error data, and in the
  ETYPE-INFO2 among them the encryption types with their salts and parameters.  The error is any that can be read
  back: its times may have milliseconds, its optional texts may be empty, and the parsed error data, which only the reader
  fills in, may be anything.\<close>

theorem preauth_error_delivers_salt:
  assumes "krb_error_ok (wire_error e)" and "encKrbError e = Inr b" and "length b \<le> MAX_INPUT_BYTES"
    and "ke_eData e = Some d" and "encSeqOf encPaData pas = Inr d" and "list_all pa_data_ok pas"
    and "pa \<in> set pas" and "encEtypeInfo2 infos = Inr (pa_value pa)" and "list_all etype_info2_entry_ok infos"
  shows "\<exists>e'. readKdcResponse b = Inr (KrbErrorResponse e') \<and> ke_errorCode e' = ke_errorCode e
    \<and> ke_eDataPaData e' = Some pas \<and> readEtypeInfo2 (pa_value pa) = Inr infos"
proof -
  have "readKdcResponse b = Inr (KrbErrorResponse (wire_error e))"
    using identify_message [OF assms(2) [unfolded encKrbError_def]] wire_error_read [OF assms(1-3)]
    by (simp add: readKdcResponse_def identify_def)
  moreover have "ke_eDataPaData (wire_error e) = Some pas"
    using eDataPaData_readback [OF assms(6,5)] by (simp add: wire_error_def assms(4))
  moreover have "ke_errorCode (wire_error e) = ke_errorCode e" by (simp add: wire_error_def)
  ultimately show ?thesis using etype_info2_readback [OF assms(9,8)] by blast
qed

lemma preauth_error_delivers_salt_witness:
  "\<exists>e'. readKdcResponse (projr (encKrbError sample_error)) = Inr (KrbErrorResponse e') \<and> ke_errorCode e' = ke_errorCode sample_error
    \<and> ke_eDataPaData e' = Some sample_padata \<and> readEtypeInfo2 (pa_value (hd sample_padata)) = Inr sample_infos"
  by (rule preauth_error_delivers_salt [where d = "projr (encSeqOf encPaData sample_padata)"])
    (simp_all add: sample_error_ok sample_ok sample_fits fits_encoded, simp_all add: sample_error_def sample_padata_def fits_encoded sample_fits)

text \<open>C37: The encrypted part of a reply is read under either of its two tags, and the reader says which it was; the key, the
  times and the flags are the ones written.\<close>

theorem enc_part_either_tag:
  assumes "enc_kdc_rep_part_ok p" and "n = 25 \<or> n = 26" and "encEncKdcRepPart p n = Inr b" and "length b \<le> MAX_INPUT_BYTES"
  shows "readEncKdcRepPart b = Inr (p\<lparr>ep_taggedAs := (if n = 25 then EncASRepPart else EncTGSRepPart)\<rparr>)"
proof -
  let ?p = "p\<lparr>ep_taggedAs := (if n = 25 then EncASRepPart else EncTGSRepPart)\<rparr>"
  have "enc_kdc_rep_part_ok ?p" using assms(1) by (simp add: enc_kdc_rep_part_ok_def)
  moreover have "encEncKdcRepPart ?p (int (tag_of (ep_taggedAs ?p))) = Inr b"
    using assms(2,3) by (auto simp: encEncKdcRepPart_def tag_of_def krb5_constants)
  ultimately show ?thesis using enc_kdc_rep_part_readback assms(4) by blast
qed

lemma enc_part_either_tag_witness:
  "readEncKdcRepPart (projr (encEncKdcRepPart sample_enc_part 26)) = Inr (sample_enc_part\<lparr>ep_taggedAs := (if (26 :: int) = 25 then EncASRepPart else EncTGSRepPart)\<rparr>)"
  by (rule enc_part_either_tag) (simp_all add: sample_ok sample_fits fits_encoded)

text \<open>Delegated credentials arrive: the message gives back every ticket with its bytes, and the part that is encrypted
  gives back the session key, the names, flags and times of every one of them, as far as they reach the wire.\<close>

theorem delegated_credentials_roundtrip:
  assumes "krb_cred_ok (wire_cred c)" and "encKrbCred c = Inr b" and "length b \<le> MAX_INPUT_BYTES"
    and "enc_krb_cred_part_ok (wire_cred_part p)" and "encEncKrbCredPart p = Inr b'" and "length b' \<le> MAX_INPUT_BYTES"
  shows "readKrbCred b = Inr ((wire_cred c)\<lparr>cr_tickets := map sealed (cr_tickets c)\<rparr>)
    \<and> readEncKrbCredPart b' = Inr (wire_cred_part p)"
  using wire_cred_read [OF assms(1-3)] wire_cred_part_read [OF assms(4-6)] by simp

lemma delegated_credentials_roundtrip_witness:
  "readKrbCred (projr (encKrbCred sample_cred)) = Inr ((wire_cred sample_cred)\<lparr>cr_tickets := map sealed (cr_tickets sample_cred)\<rparr>)
    \<and> readEncKrbCredPart (projr (encEncKrbCredPart sample_cred_part)) = Inr (wire_cred_part sample_cred_part)"
  by (rule delegated_credentials_roundtrip) (simp_all add: sample_ok sample_fits fits_encoded)

end
