(* ===== verification/Krb5_Exchange.thy ===== *)
theory Krb5_Exchange
  imports Krb5_Relay Krb5_Tickets
begin

text \<open>
  A Kerberos exchange from end to end: the request the messages layer writes, the pre-flight and the TCP exchange of the
  relay that sends it, and the reply it brings back, read again by the messages layer.
\<close>

lemma request_is_one_element:
  assumes "encKdcReq x = Inr b"
  shows "\<exists>v. whole_tlv (if rq_msgType x = MSG_TGS_REQ then 0x6c else 0x6a) v b"
proof -
  let ?n = "if rq_msgType x = MSG_TGS_REQ then APP_TGS_REQ else APP_AS_REQ"
  from assms obtain e where "encApplication (int ?n) e = Inr b" by (auto simp: encKdcReq_def rbind_eq_Inr)
  then obtain y where y: "b = der_encode y" "der_valid y" "fst y = 0x60 OR byte_of ?n" using application_element by blast
  have "fst y = (if rq_msgType x = MSG_TGS_REQ then 0x6c else 0x6a)"
    by (simp add: y(3) byte_of_def krb5_constants)
  with der_read_whole [OF y(2)] y(1) show ?thesis
    by (auto simp: whole_tlv_def der_placed_def)
qed

lemma arrivals_write_nothing: "tc_written (foldl (tcp_handle lim payload) s (map Arrived chunks)) = tc_written s"
proof (induction chunks arbitrary: s)
  case (Cons c cs)
  have "tc_written (tcp_handle lim payload s (Arrived c)) = tc_written s"
    by (auto simp: tcp_handle_def on_data_def tcp_finish_def Let_def split: sum.split option.split)
  with Cons.IH show ?case by simp
qed simp

definition sample_body :: kdc_req_body where
  "sample_body = \<lparr>rb_kdcOptions = [9, 1], rb_cname = Some \<lparr>pn_type = Some 1, pn_name = [name_k]\<rparr>, rb_realm = name_R,
     rb_sname = Some \<lparr>pn_type = Some 2, pn_name = [name_k, name_R]\<rparr>, rb_from = None, rb_till = TimeValue 1709246096789,
     rb_rtime = None, rb_nonce = 77, rb_etypes = [18, 17], rb_addresses = Some [], rb_encAuthorizationData = None,
     rb_additionalTickets = None, rb_raw = None\<rparr>"

definition sample_request :: kdc_req where
  "sample_request = \<lparr>rq_pvno = 5, rq_msgType = 10, rq_padata = sample_padata, rq_reqBody = sample_body\<rparr>"

lemma sample_request_ok: "kdc_req_ok (wire_request sample_request)" "fits (encKdcReq sample_request)"
proof -
  show "kdc_req_ok (wire_request sample_request)"
    by (simp add: kdc_req_ok_def wire_request_def wire_body_def sample_request_def sample_ok body_ok_def body_fields_ok_def sample_body_def
        whole_second_def sample_wire sample_checks krb5_constants)
  show "fits (encKdcReq sample_request)" by code_simp
qed

text \<open>C34: A request that the messages layer writes, of at most 64 KiB, passes the relay's pre-flight under its own name and is
  read back by the peer in its wire form: the request with its times cut to the second, its options in the order of their
  bits, empty optional lists left out, and the body with the bytes it travelled as.  Once connected it is written in one
  frame, and a framed reply of the KDC, cut in any way, comes back as the reply that was sent.  Of the request the wire form
  must be readable: numbers of at most 48 bits, option bits below 32, well-formed text, and times of the years
  that KerberosTime can express; its own times may have milliseconds.\<close>

theorem kdc_exchange_end_to_end:
  assumes "kdc_req_ok (wire_request x)" and "encKdcReq x = Inr b" and "length b \<le> MAX_REQUEST_BYTES"
    and "kdc_rep_ok (wire_reply r)" and "encKdcRep r = Inr m" and "length m \<le> lim" and "lim \<le> MAX_INPUT_BYTES"
    and "concat chunks = frameForTcp m"
  shows "assertKerberosRequest b = Inr (if rq_msgType x = MSG_TGS_REQ then ''TGS-REQ'' else ''AS-REQ'')
    \<and> readKdcReq b = Inr (x\<lparr>rq_pvno := PVNO, rq_reqBody := sealed_body (wire_body (rq_reqBody x))\<rparr>)
    \<and> tc_written (sendOverTcp lim b (Connected # map Arrived chunks)) = frameForTcp b
    \<and> tc_settled (sendOverTcp lim b (Connected # map Arrived chunks)) = Some (Inr m)
    \<and> readKdcResponse m =
        Inr (KdcReply (if rp_msgType r = MSG_TGS_REP then ''TGS-REP'' else ''AS-REP'') (r\<lparr>rp_pvno := PVNO, rp_ticket := sealed (rp_ticket r)\<rparr>))"
proof -
  from assms(5) obtain y where "m = der_encode y" "der_valid y"
    unfolding encKdcRep_def rbind_eq_Inr using application_element by blast
  then have "2 \<le> length m" using length_der_encode [of "snd y" "fst y"] by (simp add: der_valid_def)
  moreover have "length m < 2 ^ 31" using assms(6,7) by (simp add: MAX_INPUT_BYTES_def)
  ultimately have "tc_settled (sendOverTcp lim b (Connected # map Arrived chunks @ [])) = Some (Inr m)"
    using assms(6,8) by (intro tcp_any_cut) (simp_all add: relayable_def MIN_MESSAGE_BYTES_def)
  moreover have "tc_written (sendOverTcp lim b (Connected # map Arrived chunks)) = frameForTcp b"
    by (simp add: sendOverTcp_def arrivals_write_nothing) (simp add: tcp_handle_def tcp_start_def)
  moreover have "length b \<le> MAX_INPUT_BYTES" using assms(3) by (simp add: MAX_REQUEST_BYTES_def MAX_INPUT_BYTES_def)
  moreover have "readKdcResponse m =
      Inr (KdcReply (if rp_msgType r = MSG_TGS_REP then ''TGS-REP'' else ''AS-REP'') (r\<lparr>rp_pvno := PVNO, rp_ticket := sealed (rp_ticket r)\<rparr>))"
    using kdc_reply_readback [OF assms(4,5)] assms(6,7) by simp
  ultimately show ?thesis
    using request_is_one_element [OF assms(2)] wire_request_read [OF assms(1,2)] assms(3) by (auto simp: kdc_accepts_iff)
qed

lemma kdc_exchange_end_to_end_witness:
  "assertKerberosRequest (projr (encKdcReq sample_request)) = Inr ''AS-REQ''
    \<and> readKdcReq (projr (encKdcReq sample_request)) = Inr (sample_request\<lparr>rq_pvno := PVNO, rq_reqBody := sealed_body (wire_body (rq_reqBody sample_request))\<rparr>)
    \<and> tc_written (sendOverTcp 4096 (projr (encKdcReq sample_request)) (Connected # map Arrived [frameForTcp (projr (encKdcRep sample_reply))]))
        = frameForTcp (projr (encKdcReq sample_request))
    \<and> tc_settled (sendOverTcp 4096 (projr (encKdcReq sample_request)) (Connected # map Arrived [frameForTcp (projr (encKdcRep sample_reply))]))
        = Some (Inr (projr (encKdcRep sample_reply)))
    \<and> readKdcResponse (projr (encKdcRep sample_reply)) = Inr (KdcReply ''AS-REP'' (sample_reply\<lparr>rp_pvno := PVNO, rp_ticket := sealed (rp_ticket sample_reply)\<rparr>))"
proof -
  have b: "encKdcReq sample_request = Inr (projr (encKdcReq sample_request))" "length (projr (encKdcReq sample_request)) \<le> MAX_REQUEST_BYTES"
    using sample_request_ok(2) by (cases "encKdcReq sample_request"; simp add: fits_def MAX_REQUEST_BYTES_def)+
  have m: "encKdcRep sample_reply = Inr (projr (encKdcRep sample_reply))" "length (projr (encKdcRep sample_reply)) \<le> 4096"
    using sample_fits(1) by (cases "encKdcRep sample_reply"; simp add: fits_def)+
  have c: "concat [frameForTcp (projr (encKdcRep sample_reply))] = frameForTcp (projr (encKdcRep sample_reply))" by simp
  have l: "(4096 :: nat) \<le> MAX_INPUT_BYTES" by (simp add: MAX_INPUT_BYTES_def)
  have n: "rq_msgType sample_request \<noteq> MSG_TGS_REQ" "rp_msgType sample_reply \<noteq> MSG_TGS_REP"
    by (simp_all add: sample_request_def sample_reply_def krb5_constants)
  have r: "kdc_rep_ok (wire_reply sample_reply)" using sample_ok(1) by (simp add: kdc_rep_ok_def wire_reply_def)
  from kdc_exchange_end_to_end [OF sample_request_ok(1) b r m l c] n show ?thesis by simp
qed

end
