(* ===== verification/Krb5_Crypto.thy ===== *)
theory Krb5_Crypto
  imports Krb5_Digest
begin

text \<open>
  The encryption types of Kerberos (\<open>common/krb5/krb5_crypto.js\<close>).

  The source rests on Web Crypto for AES-CBC (padded only), HMAC over the SHA family and PBKDF2; these are the
  fields of the parameter \<open>webcrypto\<close>, and \<open>webcrypto_documented\<close> is what their specification says of them: AES-CBC
  is the chaining of a block permutation over the input padded as in PKCS#7, rejected on decryption when the
  padding is malformed, HMAC has the output length of its hash, and its import refuses a key of no octets.  Everything built on top is modelled: raw CBC
  through the padding trick, ciphertext stealing, key derivation and the profiles of the five etypes, whose
  methods are the fields of a record.  The confounder, random in the source unless a test gives it, is an argument.

  The locale \<open>encryption_profile\<close> is the interface the GSS layer uses: what was encrypted decrypts to
  the same plaintext under the same key and usage.
\<close>

subsection \<open>Web Crypto\<close>

datatype sha = SHA1 | SHA256 | SHA384

record webcrypto =
  w_aes_encrypt :: "bytes \<Rightarrow> bytes \<Rightarrow> bytes \<Rightarrow> bytes option"
  w_aes_decrypt :: "bytes \<Rightarrow> bytes \<Rightarrow> bytes \<Rightarrow> bytes option"
  w_hmac :: "sha \<Rightarrow> bytes \<Rightarrow> bytes \<Rightarrow> bytes option"
  w_pbkdf2 :: "sha \<Rightarrow> bytes \<Rightarrow> bytes \<Rightarrow> nat \<Rightarrow> nat \<Rightarrow> bytes"

datatype crypto_error =
    WebCryptoRejects
  | NotWholeBlocks
  | CtsTooShort nat
  | LoopForever
  | ZeroIterations
  | CiphertextTooShort nat
  | IntegrityFailed nat nat
  | UnknownEtype nat
  | EtypeNotImplemented nat string
  | DerivationFailed nfold_error

definition lift_option :: "'a option \<Rightarrow> crypto_error + 'a" where
  "lift_option r = (case r of None \<Rightarrow> Inl WebCryptoRejects | Some x \<Rightarrow> Inr x)"

definition zeros :: "nat \<Rightarrow> bytes" where
  "zeros n = replicate n 0"

text \<open>HMAC over the SHA family: \<open>importKey\<close> and \<open>sign\<close>, either of which may reject.  The MD5 branch of the source is
  \<open>hmacMd5\<close> of \<open>Krb5_Digest\<close>, which takes a key of any length.\<close>

definition hmac :: "webcrypto \<Rightarrow> sha \<Rightarrow> bytes \<Rightarrow> bytes \<Rightarrow> crypto_error + bytes" where
  "hmac W h keyBytes message = lift_option (w_hmac W h keyBytes message)"

subsection \<open>Raw CBC\<close>

definition cbcEncryptRaw :: "webcrypto \<Rightarrow> bytes \<Rightarrow> bytes \<Rightarrow> bytes \<Rightarrow> crypto_error + bytes" where
  "cbcEncryptRaw W aesKey iv input =
     (if length input mod 16 \<noteq> 0 then Inl NotWholeBlocks
      else rbind (lift_option (w_aes_encrypt W aesKey iv input)) (\<lambda>full. Inr (take (length input) full)))"

definition cbcDecryptRaw :: "webcrypto \<Rightarrow> bytes \<Rightarrow> bytes \<Rightarrow> bytes \<Rightarrow> crypto_error + bytes" where
  "cbcDecryptRaw W aesKey iv input =
     (if input = [] then Inr []
      else if length input mod 16 \<noteq> 0 then Inl NotWholeBlocks
      else
        (let lst = drop (length input - 16) input; padBlock = replicate 16 16
         in rbind (cbcEncryptRaw W aesKey (zeros 16) (xor_bytes padBlock lst)) (\<lambda>synthetic.
            rbind (lift_option (w_aes_decrypt W aesKey iv (input @ synthetic))) (\<lambda>out.
            Inr (take (length input) out)))))"

definition ecbDecryptBlock :: "webcrypto \<Rightarrow> bytes \<Rightarrow> bytes \<Rightarrow> crypto_error + bytes" where
  "ecbDecryptBlock W aesKey block = cbcDecryptRaw W aesKey (zeros 16) block"

subsection \<open>Ciphertext stealing\<close>

text \<open>\<open>len % 16 || 16\<close>: how many octets the trailing block has.\<close>

definition tail_octets :: "nat \<Rightarrow> nat" where
  "tail_octets len = (if len mod 16 = 0 then 16 else len mod 16)"

definition ctsEncrypt :: "webcrypto \<Rightarrow> bytes \<Rightarrow> bytes \<Rightarrow> bytes \<Rightarrow> crypto_error + bytes" where
  "ctsEncrypt W keyBytes iv data =
     (if length data < 16 then Inl (CtsTooShort (length data))
      else if length data = 16 then cbcEncryptRaw W keyBytes iv data
      else
        (let m = tail_octets (length data)
         in rbind (cbcEncryptRaw W keyBytes iv (data @ zeros ((16 - m) mod 16))) (\<lambda>c.
              let n = length c div 16;
                  cLast = take 16 (drop ((n - 1) * 16) c);
                  cPrev = take 16 (drop ((n - 2) * 16) c)
              in Inr (take ((n - 2) * 16) c @ cLast @ take m cPrev))))"

definition ctsDecrypt :: "webcrypto \<Rightarrow> bytes \<Rightarrow> bytes \<Rightarrow> bytes \<Rightarrow> crypto_error + bytes" where
  "ctsDecrypt W keyBytes iv data =
     (if length data < 16 then Inl (CtsTooShort (length data))
      else if length data = 16 then cbcDecryptRaw W keyBytes iv data
      else
        (let m = tail_octets (length data);
             len = length data;
             head = take (len - 16 - m) data;
             cLast = take 16 (drop (len - 16 - m) data);
             truncated = drop (len - m) data
         in rbind (ecbDecryptBlock W keyBytes cLast) (\<lambda>z.
              let cPrev = truncated @ drop m z;
                  pLast = take m (xor_bytes z cPrev)
              in rbind (cbcDecryptRaw W keyBytes iv (head @ cPrev)) (\<lambda>rest. Inr (rest @ pLast)))))"

subsection \<open>Key derivation\<close>

text \<open>The loop of \<open>deriveRandom\<close>.  Every iteration but the last adds octets unless the cipher returns an empty
  block, on which the source would loop for ever; with one unit of fuel more than octets wanted the fuel
  runs out only then.\<close>

fun derive_loop :: "nat \<Rightarrow> webcrypto \<Rightarrow> bytes \<Rightarrow> nat \<Rightarrow> bytes \<Rightarrow> bytes \<Rightarrow> crypto_error + bytes" where
  "derive_loop 0 W aesKey outBytes out block = Inl LoopForever"
| "derive_loop (Suc fuel) W aesKey outBytes out block =
     (if length out < outBytes
      then rbind (cbcEncryptRaw W aesKey (zeros 16) block)
             (\<lambda>block'. derive_loop fuel W aesKey outBytes (out @ block') block')
      else Inr (take outBytes out))"

definition deriveRandom :: "webcrypto \<Rightarrow> bytes \<Rightarrow> bytes \<Rightarrow> nat \<Rightarrow> crypto_error + bytes" where
  "deriveRandom W baseKey const outBytes =
     rbind (if length const \<noteq> 16
            then (case nfold const 128 of Inl e \<Rightarrow> Inl (DerivationFailed e) | Inr c \<Rightarrow> Inr c)
            else Inr const)
       (\<lambda>c. derive_loop (Suc outBytes) W baseKey outBytes [] c)"

definition usageConstant :: "nat \<Rightarrow> byte \<Rightarrow> bytes" where
  "usageConstant usage purposeByte = be_fixed 4 usage @ [purposeByte]"

definition deriveKeyAes :: "webcrypto \<Rightarrow> bytes \<Rightarrow> nat \<Rightarrow> byte \<Rightarrow> nat \<Rightarrow> crypto_error + bytes" where
  "deriveKeyAes W baseKey usage purposeByte keyBytes =
     deriveRandom W baseKey (usageConstant usage purposeByte) keyBytes"

definition kdfHmacSha2 :: "webcrypto \<Rightarrow> sha \<Rightarrow> bytes \<Rightarrow> bytes \<Rightarrow> nat \<Rightarrow> crypto_error + bytes" where
  "kdfHmacSha2 W h key label outBits =
     rbind (hmac W h key ([0, 0, 0, 1] @ label @ [0] @ be_fixed 4 outBits)) (\<lambda>mac. Inr (take (outBits div 8) mac))"

definition ascii :: "string \<Rightarrow> bytes" where
  "ascii s = map (\<lambda>ch. byte_of (of_char ch)) s"

subsection \<open>Profiles\<close>

text \<open>The methods take the base key, the usage and, for \<open>encrypt\<close>, the confounder and the plaintext; \<open>stringToKey\<close>
  takes the password, the salt and the parameters.\<close>

record profile =
  p_id :: nat
  p_name :: string
  p_keyBytes :: nat
  p_confounderBytes :: nat
  p_checksumBytes :: nat
  p_checksumType :: int
  p_stringToKey :: "jstring \<Rightarrow> bytes \<Rightarrow> bytes option \<Rightarrow> crypto_error + bytes"
  p_encrypt :: "bytes \<Rightarrow> nat \<Rightarrow> bytes \<Rightarrow> bytes \<Rightarrow> crypto_error + bytes"
  p_decrypt :: "bytes \<Rightarrow> nat \<Rightarrow> bytes \<Rightarrow> crypto_error + bytes"
  p_checksum :: "bytes \<Rightarrow> nat \<Rightarrow> bytes \<Rightarrow> crypto_error + bytes"

text \<open>The iteration count: the default unless four octets of parameters are given.\<close>

definition iterations_of :: "nat \<Rightarrow> bytes option \<Rightarrow> crypto_error + nat" where
  "iterations_of dflt params =
     (case params of
        Some p \<Rightarrow> if length p = 4 then if be_nat p = 0 then Inl ZeroIterations else Inr (be_nat p) else Inr dflt
      | None \<Rightarrow> Inr dflt)"

definition aesSha1_stringToKey ::
  "webcrypto \<Rightarrow> nat \<Rightarrow> jstring \<Rightarrow> bytes \<Rightarrow> bytes option \<Rightarrow> crypto_error + bytes" where
  "aesSha1_stringToKey W keyBytes password salt params =
     rbind (iterations_of 4096 params) (\<lambda>iterations.
       deriveRandom W (w_pbkdf2 W SHA1 (utf8 password) salt iterations (keyBytes * 8)) (ascii ''kerberos'') keyBytes)"

definition aesSha1_encrypt :: "webcrypto \<Rightarrow> nat \<Rightarrow> bytes \<Rightarrow> nat \<Rightarrow> bytes \<Rightarrow> bytes \<Rightarrow> crypto_error + bytes" where
  "aesSha1_encrypt W keyBytes baseKey usage conf plaintext =
     rbind (deriveKeyAes W baseKey usage 0xaa keyBytes) (\<lambda>ke.
     rbind (deriveKeyAes W baseKey usage 0x55 keyBytes) (\<lambda>ki.
       let plain = conf @ plaintext
       in rbind (ctsEncrypt W ke (zeros 16) plain) (\<lambda>c.
            rbind (hmac W SHA1 ki plain) (\<lambda>h. Inr (c @ take 12 h)))))"

definition aesSha1_decrypt :: "webcrypto \<Rightarrow> nat \<Rightarrow> nat \<Rightarrow> bytes \<Rightarrow> nat \<Rightarrow> bytes \<Rightarrow> crypto_error + bytes" where
  "aesSha1_decrypt W etype keyBytes baseKey usage data =
     (if length data < 16 + 12 then Inl (CiphertextTooShort etype)
      else
        rbind (deriveKeyAes W baseKey usage 0xaa keyBytes) (\<lambda>ke.
        rbind (deriveKeyAes W baseKey usage 0x55 keyBytes) (\<lambda>ki.
          let c = take (length data - 12) data; h = drop (length data - 12) data
          in rbind (ctsDecrypt W ke (zeros 16) c) (\<lambda>plain.
               rbind (hmac W SHA1 ki plain) (\<lambda>expect.
               if \<not> equalConstantTime h (take 12 expect)
               then Inl (IntegrityFailed etype usage)
               else Inr (drop 16 plain))))))"

definition aesSha1_checksum :: "webcrypto \<Rightarrow> nat \<Rightarrow> bytes \<Rightarrow> nat \<Rightarrow> bytes \<Rightarrow> crypto_error + bytes" where
  "aesSha1_checksum W keyBytes baseKey usage message =
     rbind (deriveKeyAes W baseKey usage 0x99 keyBytes) (\<lambda>kc.
     rbind (hmac W SHA1 kc message) (\<lambda>h. Inr (take 12 h)))"

definition aesSha1Profile :: "webcrypto \<Rightarrow> nat \<Rightarrow> string \<Rightarrow> nat \<Rightarrow> profile" where
  "aesSha1Profile W i nm keyBytes =
     \<lparr>p_id = i, p_name = nm, p_keyBytes = keyBytes, p_confounderBytes = 16, p_checksumBytes = 12,
      p_checksumType = (if keyBytes = 16 then 15 else 16),
      p_stringToKey = aesSha1_stringToKey W keyBytes,
      p_encrypt = aesSha1_encrypt W keyBytes,
      p_decrypt = aesSha1_decrypt W i keyBytes,
      p_checksum = aesSha1_checksum W keyBytes\<rparr>"

definition aesSha2_stringToKey ::
  "webcrypto \<Rightarrow> string \<Rightarrow> nat \<Rightarrow> sha \<Rightarrow> jstring \<Rightarrow> bytes \<Rightarrow> bytes option \<Rightarrow> crypto_error + bytes" where
  "aesSha2_stringToKey W nm keyBytes h password salt params =
     rbind (iterations_of 32768 params) (\<lambda>iterations.
       kdfHmacSha2 W h
         (w_pbkdf2 W h (utf8 password) (ascii nm @ [0] @ salt) iterations (keyBytes * 8))
         (ascii ''kerberos'') (keyBytes * 8))"

text \<open>The three keys of RFC 8009: the encryption key has the length of the etype, the other two that of the MAC.\<close>

definition aesSha2_encryptionKey :: "webcrypto \<Rightarrow> nat \<Rightarrow> sha \<Rightarrow> bytes \<Rightarrow> nat \<Rightarrow> crypto_error + bytes" where
  "aesSha2_encryptionKey W keyBytes h baseKey usage =
     kdfHmacSha2 W h baseKey (usageConstant usage 0xaa) (keyBytes * 8)"

definition aesSha2_integrityKey :: "webcrypto \<Rightarrow> nat \<Rightarrow> sha \<Rightarrow> bytes \<Rightarrow> nat \<Rightarrow> crypto_error + bytes" where
  "aesSha2_integrityKey W macBytes h baseKey usage =
     kdfHmacSha2 W h baseKey (usageConstant usage 0x55) (macBytes * 8)"

definition aesSha2_checksumKey :: "webcrypto \<Rightarrow> nat \<Rightarrow> sha \<Rightarrow> bytes \<Rightarrow> nat \<Rightarrow> crypto_error + bytes" where
  "aesSha2_checksumKey W macBytes h baseKey usage =
     kdfHmacSha2 W h baseKey (usageConstant usage 0x99) (macBytes * 8)"

definition aesSha2_encrypt ::
  "webcrypto \<Rightarrow> nat \<Rightarrow> sha \<Rightarrow> nat \<Rightarrow> bytes \<Rightarrow> nat \<Rightarrow> bytes \<Rightarrow> bytes \<Rightarrow> crypto_error + bytes" where
  "aesSha2_encrypt W keyBytes h macBytes baseKey usage conf plaintext =
     rbind (aesSha2_encryptionKey W keyBytes h baseKey usage) (\<lambda>ke.
     rbind (aesSha2_integrityKey W macBytes h baseKey usage) (\<lambda>ki.
     rbind (ctsEncrypt W ke (zeros 16) (conf @ plaintext)) (\<lambda>c.
     rbind (hmac W h ki (zeros 16 @ c)) (\<lambda>mac. Inr (c @ take macBytes mac)))))"

definition aesSha2_decrypt ::
  "webcrypto \<Rightarrow> nat \<Rightarrow> nat \<Rightarrow> sha \<Rightarrow> nat \<Rightarrow> bytes \<Rightarrow> nat \<Rightarrow> bytes \<Rightarrow> crypto_error + bytes" where
  "aesSha2_decrypt W etype keyBytes h macBytes baseKey usage data =
     (if length data < 16 + macBytes then Inl (CiphertextTooShort etype)
      else
        rbind (aesSha2_encryptionKey W keyBytes h baseKey usage) (\<lambda>ke.
        rbind (aesSha2_integrityKey W macBytes h baseKey usage) (\<lambda>ki.
          let c = take (length data - macBytes) data; mac = drop (length data - macBytes) data
          in rbind (hmac W h ki (zeros 16 @ c)) (\<lambda>expect.
             if \<not> equalConstantTime mac (take macBytes expect) then Inl (IntegrityFailed etype usage)
             else rbind (ctsDecrypt W ke (zeros 16) c) (\<lambda>plain. Inr (drop 16 plain))))))"

definition aesSha2_checksum ::
  "webcrypto \<Rightarrow> sha \<Rightarrow> nat \<Rightarrow> bytes \<Rightarrow> nat \<Rightarrow> bytes \<Rightarrow> crypto_error + bytes" where
  "aesSha2_checksum W h macBytes baseKey usage message =
     rbind (aesSha2_checksumKey W macBytes h baseKey usage) (\<lambda>kc.
     rbind (hmac W h kc message) (\<lambda>mac. Inr (take macBytes mac)))"

definition aesSha2Profile :: "webcrypto \<Rightarrow> nat \<Rightarrow> string \<Rightarrow> nat \<Rightarrow> sha \<Rightarrow> nat \<Rightarrow> profile" where
  "aesSha2Profile W i nm keyBytes h macBytes =
     \<lparr>p_id = i, p_name = nm, p_keyBytes = keyBytes, p_confounderBytes = 16, p_checksumBytes = macBytes,
      p_checksumType = (if keyBytes = 16 then 19 else 20),
      p_stringToKey = aesSha2_stringToKey W nm keyBytes h,
      p_encrypt = aesSha2_encrypt W keyBytes h macBytes,
      p_decrypt = aesSha2_decrypt W i keyBytes h macBytes,
      p_checksum = aesSha2_checksum W h macBytes\<rparr>"

subsection \<open>RC4-HMAC\<close>

definition translateArcfourUsage :: "nat \<Rightarrow> nat" where
  "translateArcfourUsage usage =
     (if usage = 3 then 8 else if usage = 9 then 8 else if usage = 23 then 13 else usage)"

definition le32 :: "nat \<Rightarrow> bytes" where
  "le32 n = rev (be_fixed 4 n)"

definition arcfour_encrypt :: "bytes \<Rightarrow> nat \<Rightarrow> bytes \<Rightarrow> bytes \<Rightarrow> crypto_error + bytes" where
  "arcfour_encrypt baseKey usage conf plaintext =
     (let k1 = hmacMd5 baseKey (le32 (translateArcfourUsage usage));
          data = conf @ plaintext;
          cksum = hmacMd5 k1 data;
          k3 = hmacMd5 k1 cksum
      in Inr (cksum @ rc4 k3 data))"

definition arcfour_decrypt :: "bytes \<Rightarrow> nat \<Rightarrow> bytes \<Rightarrow> crypto_error + bytes" where
  "arcfour_decrypt baseKey usage data =
     (if length data < 16 + 8 then Inl (CiphertextTooShort 23)
      else
        (let k1 = hmacMd5 baseKey (le32 (translateArcfourUsage usage));
             cksum = take 16 data;
             k3 = hmacMd5 k1 cksum;
             plain = rc4 k3 (drop 16 data)
         in if \<not> equalConstantTime cksum (hmacMd5 k1 plain) then Inl (IntegrityFailed 23 usage)
            else Inr (drop 8 plain)))"

definition arcfour_checksum :: "bytes \<Rightarrow> nat \<Rightarrow> bytes \<Rightarrow> crypto_error + bytes" where
  "arcfour_checksum baseKey usage message =
     (let ksign = hmacMd5 baseKey (ascii ''signaturekey'' @ [0])
      in Inr (hmacMd5 ksign (md5 (le32 (translateArcfourUsage usage) @ message))))"

definition ARCFOUR :: profile where
  "ARCFOUR =
     \<lparr>p_id = 23, p_name = ''arcfour-hmac-md5'', p_keyBytes = 16, p_confounderBytes = 8, p_checksumBytes = 16,
      p_checksumType = -138,
      p_stringToKey = (\<lambda>password salt params. Inr (md4 (utf16le password))),
      p_encrypt = arcfour_encrypt, p_decrypt = arcfour_decrypt, p_checksum = arcfour_checksum\<rparr>"

subsection \<open>The table\<close>

definition ETYPES :: "webcrypto \<Rightarrow> nat \<Rightarrow> profile option" where
  "ETYPES W i =
     (if i = 17 then Some (aesSha1Profile W 17 ''aes128-cts-hmac-sha1-96'' 16)
      else if i = 18 then Some (aesSha1Profile W 18 ''aes256-cts-hmac-sha1-96'' 32)
      else if i = 19 then Some (aesSha2Profile W 19 ''aes128-cts-hmac-sha256-128'' 16 SHA256 16)
      else if i = 20 then Some (aesSha2Profile W 20 ''aes256-cts-hmac-sha384-192'' 32 SHA384 24)
      else if i = 23 then Some ARCFOUR
      else None)"

definition ETYPE_NAMES_UNSUPPORTED :: "nat \<Rightarrow> string option" where
  "ETYPE_NAMES_UNSUPPORTED i =
     (if i = 1 then Some ''des-cbc-crc'' else if i = 2 then Some ''des-cbc-md4''
      else if i = 3 then Some ''des-cbc-md5'' else if i = 5 then Some ''des3-cbc-md5''
      else if i = 7 then Some ''des3-cbc-sha1'' else if i = 16 then Some ''des3-cbc-sha1-kd''
      else if i = 24 then Some ''arcfour-hmac-exp'' else if i = 25 then Some ''camellia128-cts-cmac''
      else if i = 26 then Some ''camellia256-cts-cmac'' else None)"

definition etypeById :: "webcrypto \<Rightarrow> nat \<Rightarrow> crypto_error + profile" where
  "etypeById W i =
     (case ETYPES W i of
        Some p \<Rightarrow> Inr p
      | None \<Rightarrow>
          (case ETYPE_NAMES_UNSUPPORTED i of
             Some known \<Rightarrow> Inl (EtypeNotImplemented i known)
           | None \<Rightarrow> Inl (UnknownEtype i)))"

definition etypeName :: "webcrypto \<Rightarrow> nat \<Rightarrow> string" where
  "etypeName W i =
     (case ETYPES W i of
        Some p \<Rightarrow> p_name p
      | None \<Rightarrow>
          (case ETYPE_NAMES_UNSUPPORTED i of
             Some known \<Rightarrow> known
           | None \<Rightarrow> ''etype-'' @ show_nat i))"

fun etype_search :: "webcrypto \<Rightarrow> nat list \<Rightarrow> string \<Rightarrow> profile option" where
  "etype_search W [] nm = None"
| "etype_search W (i # is) nm =
     (case ETYPES W i of
        Some p \<Rightarrow> if p_name p = nm then Some p else etype_search W is nm
      | None \<Rightarrow> etype_search W is nm)"

definition etypeByName :: "webcrypto \<Rightarrow> string \<Rightarrow> profile option" where
  "etypeByName W nm = etype_search W [17, 18, 19, 20, 23] nm"

subsection \<open>What Web Crypto documents\<close>

function cbc_enc :: "(bytes \<Rightarrow> bytes) \<Rightarrow> bytes \<Rightarrow> bytes \<Rightarrow> bytes" where
  "cbc_enc E iv x =
     (if length x < 16 then []
      else let c = E (xor_bytes iv (take 16 x)) in c @ cbc_enc E c (drop 16 x))"
  by pat_completeness auto
termination
  by (relation "measure (\<lambda>(E, iv, x). length x)") auto

function cbc_dec :: "(bytes \<Rightarrow> bytes) \<Rightarrow> bytes \<Rightarrow> bytes \<Rightarrow> bytes" where
  "cbc_dec D iv y =
     (if length y < 16 then []
      else xor_bytes iv (D (take 16 y)) @ cbc_dec D (take 16 y) (drop 16 y))"
  by pat_completeness auto
termination
  by (relation "measure (\<lambda>(D, iv, y). length y)") auto

declare cbc_enc.simps [simp del] cbc_dec.simps [simp del]

definition pkcs7_pad :: "bytes \<Rightarrow> bytes" where
  "pkcs7_pad x = x @ replicate (16 - length x mod 16) (byte_of (16 - length x mod 16))"

definition pkcs7_unpad :: "bytes \<Rightarrow> bytes option" where
  "pkcs7_unpad x =
     (let n = unat (last x)
      in if x \<noteq> [] \<and> 1 \<le> n \<and> n \<le> 16 \<and> n \<le> length x \<and> drop (length x - n) x = replicate n (byte_of n)
         then Some (take (length x - n) x) else None)"

definition aes_key :: "bytes \<Rightarrow> bool" where
  "aes_key k \<longleftrightarrow> length k \<in> {16, 32}"

definition sha_bytes :: "sha \<Rightarrow> nat" where
  "sha_bytes h = (case h of SHA1 \<Rightarrow> 20 | SHA256 \<Rightarrow> 32 | SHA384 \<Rightarrow> 48)"

definition webcrypto_documented :: "webcrypto \<Rightarrow> (bytes \<Rightarrow> bytes \<Rightarrow> bytes) \<Rightarrow> (bytes \<Rightarrow> bytes \<Rightarrow> bytes) \<Rightarrow> bool" where
  "webcrypto_documented W E D \<longleftrightarrow>
     (\<forall>k b. aes_key k \<and> length b = 16 \<longrightarrow> length (E k b) = 16 \<and> D k (E k b) = b) \<and>
     (\<forall>k iv x. aes_key k \<and> length iv = 16 \<longrightarrow>
        w_aes_encrypt W k iv x = Some (cbc_enc (E k) iv (pkcs7_pad x))) \<and>
     (\<forall>k iv y. aes_key k \<and> length iv = 16 \<and> y \<noteq> [] \<and> length y mod 16 = 0 \<longrightarrow>
        w_aes_decrypt W k iv y = pkcs7_unpad (cbc_dec (D k) iv y)) \<and>
     (\<forall>h x. w_hmac W h [] x = None) \<and>
     (\<forall>h k x. k \<noteq> [] \<longrightarrow> (\<exists>y. w_hmac W h k x = Some y \<and> length y = sha_bytes h))"

subsection \<open>Chaining\<close>

lemma length_xor_bytes [simp]: "length (xor_bytes a b) = min (length a) (length b)"
  by (simp add: xor_bytes_def)

lemma xor_bytes_cancel: "length a = length b \<Longrightarrow> xor_bytes a (xor_bytes a b) = b"
  by (rule nth_equalityI) (simp_all add: xor_bytes_def xor.assoc [symmetric])

lemma xor_bytes_cancel': "length a = length b \<Longrightarrow> xor_bytes (xor_bytes a b) a = b"
  by (rule nth_equalityI) (simp_all add: xor_bytes_def xor.commute xor.left_commute)

lemma xor_bytes_comm: "length a = length b \<Longrightarrow> xor_bytes a b = xor_bytes b a"
  by (rule nth_equalityI) (simp_all add: xor_bytes_def xor.commute)

lemma xor_bytes_zeros: "length b = n \<Longrightarrow> xor_bytes (zeros n) b = b"
  by (rule nth_equalityI) (simp_all add: xor_bytes_def zeros_def)

lemma xor_bytes_zeros_right: "length b = n \<Longrightarrow> xor_bytes b (zeros n) = b"
  by (rule nth_equalityI) (simp_all add: xor_bytes_def zeros_def)

lemma xor_bytes_append:
  "length a = length c \<Longrightarrow> xor_bytes (a @ b) (c @ d) = xor_bytes a c @ xor_bytes b d"
  by (simp add: xor_bytes_def zip_append)

lemma length_zeros [simp]: "length (zeros n) = n"
  by (simp add: zeros_def)

text \<open>The block that chains into what follows.\<close>

definition last_block :: "bytes \<Rightarrow> bytes \<Rightarrow> bytes" where
  "last_block iv y = (if y = [] then iv else drop (length y - 16) y)"

text \<open>Induction over whole blocks.\<close>

lemma whole_blocks_le: "length x mod 16 = 0 \<Longrightarrow> x \<noteq> [] \<Longrightarrow> 16 \<le> length x"
  by (metis dvd_eq_mod_eq_0 dvd_imp_le length_greater_0_conv)

lemma blocks_induct [consumes 1, case_names Nil block]:
  assumes "length x mod 16 = 0" and "P []"
    and "\<And>b x. length b = 16 \<Longrightarrow> length x mod 16 = 0 \<Longrightarrow> P x \<Longrightarrow> P (b @ x)"
  shows "P (x :: bytes)"
  using assms(1)
proof (induction "length x" arbitrary: x rule: less_induct)
  case less
  show ?case
  proof (cases "x = []")
    case False
    with less.prems have len: "16 \<le> length x" by (rule whole_blocks_le)
    with less.prems have m: "length (drop 16 x) mod 16 = 0" using le_mod_geq [of 16 "length x"] by simp
    from m len less.hyps [of "drop 16 x"] have "P (drop 16 x)" by simp
    with assms(3) [of "take 16 x" "drop 16 x"] len m show ?thesis by simp
  qed (simp add: assms(2))
qed

lemma cbc_enc_Nil [simp]: "cbc_enc E iv [] = []" and cbc_dec_Nil [simp]: "cbc_dec D iv [] = []"
  by (simp_all add: cbc_enc.simps cbc_dec.simps)

lemma cbc_enc_block [simp]:
  "length b = 16 \<Longrightarrow> cbc_enc E iv (b @ x) = E (xor_bytes iv b) @ cbc_enc E (E (xor_bytes iv b)) x"
  by (subst cbc_enc.simps) (simp add: Let_def)

lemma cbc_dec_block [simp]:
  "length b = 16 \<Longrightarrow> cbc_dec D iv (b @ y) = xor_bytes iv (D b) @ cbc_dec D b y"
  by (subst cbc_dec.simps) simp

lemma cbc_enc_single: "length b = 16 \<Longrightarrow> cbc_enc E iv b = E (xor_bytes iv b)"
  using cbc_enc_block [of b E iv "[]"] by simp

lemma cbc_dec_single: "length b = 16 \<Longrightarrow> cbc_dec D iv b = xor_bytes iv (D b)"
  using cbc_dec_block [of b D iv "[]"] by simp

lemma last_block_block: "length b = 16 \<Longrightarrow> length y mod 16 = 0 \<Longrightarrow> last_block iv (b @ y) = last_block b y"
  using whole_blocks_le [of y] by (cases "y = []") (auto simp: last_block_def)

lemma cbc_enc_length:
  assumes "length x mod 16 = 0" and E: "\<And>b. length b = 16 \<Longrightarrow> length (E b) = 16" and "length iv = 16"
  shows "length (cbc_enc E iv x) = length x"
  using assms(1,3)
proof (induction x arbitrary: iv rule: blocks_induct)
  case (block b x)
  then show ?case using E [of "xor_bytes iv b"] by simp
qed simp

lemma cbc_enc_append:
  assumes "length x mod 16 = 0" and E: "\<And>b. length b = 16 \<Longrightarrow> length (E b) = 16" and "length iv = 16"
  shows "cbc_enc E iv (x @ z) = cbc_enc E iv x @ cbc_enc E (last_block iv (cbc_enc E iv x)) z"
  using assms(1,3)
proof (induction x arbitrary: iv rule: blocks_induct)
  case (block b x)
  let ?c = "E (xor_bytes iv b)"
  have c: "length ?c = 16" using E block by simp
  with block cbc_enc_length [OF block(2) E, where iv = ?c] show ?case
    by (simp add: last_block_block)
qed (simp add: last_block_def)

lemma cbc_dec_append:
  assumes "length y mod 16 = 0"
  shows "cbc_dec D iv (y @ z) = cbc_dec D iv y @ cbc_dec D (last_block iv y) z"
  using assms
proof (induction y arbitrary: iv rule: blocks_induct)
  case (block b y)
  then show ?case by (simp add: last_block_block)
qed (simp add: last_block_def)

lemma cbc_dec_enc:
  assumes "length x mod 16 = 0" and "length iv = 16"
    and E: "\<And>b. length b = 16 \<Longrightarrow> length (E b) = 16" and D: "\<And>b. length b = 16 \<Longrightarrow> D (E b) = b"
  shows "cbc_dec D iv (cbc_enc E iv x) = x"
  using assms(1,2)
proof (induction x arbitrary: iv rule: blocks_induct)
  case (block b x)
  have "length (xor_bytes iv b) = 16" using block by simp
  with block E D show ?case by (simp add: xor_bytes_cancel)
qed simp

lemma cbc_dec_length:
  assumes "length y mod 16 = 0" and "length iv = 16"
    and "\<And>b. length b = 16 \<Longrightarrow> length (D b) = 16"
  shows "length (cbc_dec D iv y) = length y"
  using assms(1,2)
proof (induction y arbitrary: iv rule: blocks_induct)
  case (block b y)
  then show ?case using assms(3) by simp
qed simp

subsection \<open>Raw CBC through the padded operation\<close>

lemma documentedD:
  assumes "webcrypto_documented W E D"
  shows "aes_key k \<Longrightarrow> length b = 16 \<Longrightarrow> length (E k b) = 16"
    and "aes_key k \<Longrightarrow> length b = 16 \<Longrightarrow> D k (E k b) = b"
    and "aes_key k \<Longrightarrow> length iv = 16 \<Longrightarrow> w_aes_encrypt W k iv x = Some (cbc_enc (E k) iv (pkcs7_pad x))"
    and "aes_key k \<Longrightarrow> length iv = 16 \<Longrightarrow> y \<noteq> [] \<Longrightarrow> length y mod 16 = 0 \<Longrightarrow>
      w_aes_decrypt W k iv y = pkcs7_unpad (cbc_dec (D k) iv y)"
  using assms by (simp_all add: webcrypto_documented_def)

lemma hmac_ok:
  assumes "webcrypto_documented W E D" and "key \<noteq> []"
  shows "\<exists>y. hmac W h key msg = Inr y \<and> length y = sha_bytes h"
proof -
  have "\<exists>y. w_hmac W h key msg = Some y \<and> length y = sha_bytes h"
    using assms by (simp add: webcrypto_documented_def)
  then show ?thesis by (auto simp: hmac_def lift_option_def)
qed

lemma hmac_empty_key:
  assumes "webcrypto_documented W E D"
  shows "hmac W h [] msg = Inl WebCryptoRejects"
  using assms by (simp add: webcrypto_documented_def hmac_def lift_option_def)

lemma length_pkcs7_pad: "length x mod 16 = 0 \<Longrightarrow> pkcs7_pad x = x @ replicate 16 16"
  by (simp add: pkcs7_pad_def byte_of_def)

lemma pkcs7_unpad_16: "pkcs7_unpad (x @ replicate 16 16) = Some x"
proof -
  have "last (x @ replicate 16 (16 :: byte)) = 16" by simp
  then show ?thesis by (simp add: pkcs7_unpad_def Let_def byte_of_def)
qed

lemma cbcEncryptRaw_ok:
  assumes "webcrypto_documented W E D" and "aes_key k" and "length iv = 16" and "length x mod 16 = 0"
  shows "cbcEncryptRaw W k iv x = Inr (cbc_enc (E k) iv x)"
proof -
  note doc = documentedD [OF assms(1)]
  have "length (cbc_enc (E k) iv x) = length x" using assms doc(1) by (intro cbc_enc_length) simp_all
  moreover have "cbc_enc (E k) iv (x @ replicate 16 16) =
      cbc_enc (E k) iv x @ cbc_enc (E k) (last_block iv (cbc_enc (E k) iv x)) (replicate 16 16)"
    using assms doc(1) by (intro cbc_enc_append) simp_all
  ultimately show ?thesis
    using assms doc(3) [of k iv x] by (simp add: cbcEncryptRaw_def lift_option_def length_pkcs7_pad)
qed

lemma cbcDecryptRaw_ok:
  assumes "webcrypto_documented W E D" and "aes_key k" and "length iv = 16" and "length y mod 16 = 0"
    and Dlen: "length (cbc_dec (D k) iv y) = length y"
  shows "cbcDecryptRaw W k iv y = Inr (cbc_dec (D k) iv y)"
proof (cases "y = []")
  case False
  note doc = documentedD [OF assms(1)]
  let ?last = "drop (length y - 16) y" and ?pad = "replicate 16 (16 :: byte)"
  from False assms(4) have len: "16 \<le> length y" by (intro whole_blocks_le) simp_all
  then have last: "length ?last = 16" by simp
  let ?syn = "E k (xor_bytes ?pad ?last)"
  have syn: "cbcEncryptRaw W k (zeros 16) (xor_bytes ?pad ?last) = Inr ?syn"
    using cbcEncryptRaw_ok [OF assms(1,2), of "zeros 16" "xor_bytes ?pad ?last"] last
    by (simp add: cbc_enc_single xor_bytes_zeros)
  have "length ?syn = 16" using doc(1) assms(2) last by simp
  moreover have "xor_bytes ?last (D k ?syn) = ?pad"
    using doc(2) [OF assms(2), of "xor_bytes ?pad ?last"] last
    by (simp add: xor_bytes_comm [of ?pad] xor_bytes_cancel)
  ultimately have "cbc_dec (D k) iv (y @ ?syn) = cbc_dec (D k) iv y @ ?pad"
    using cbc_dec_append [OF assms(4), of "D k" iv ?syn] False
    by (simp add: last_block_def cbc_dec_single)
  moreover have "w_aes_decrypt W k iv (y @ ?syn) = pkcs7_unpad (cbc_dec (D k) iv (y @ ?syn))"
    using doc(4) [OF assms(2,3), of "y @ ?syn"] \<open>length ?syn = 16\<close> False assms(4) by simp
  ultimately have "w_aes_decrypt W k iv (y @ ?syn) = Some (cbc_dec (D k) iv y)"
    using pkcs7_unpad_16 by simp
  with syn False assms(4) Dlen show ?thesis
    by (simp add: cbcDecryptRaw_def lift_option_def Let_def)
qed (simp add: cbcDecryptRaw_def)

lemma cbcRaw_roundtrip:
  assumes "webcrypto_documented W E D" and "aes_key k" and "length iv = 16" and "length x mod 16 = 0"
  shows "cbcDecryptRaw W k iv (cbc_enc (E k) iv x) = Inr x"
proof -
  note doc = documentedD [OF assms(1)]
  have len: "length (cbc_enc (E k) iv x) = length x" using assms doc(1) by (intro cbc_enc_length) simp_all
  have dec: "cbc_dec (D k) iv (cbc_enc (E k) iv x) = x" using assms doc(1,2) by (intro cbc_dec_enc) simp_all
  from cbcDecryptRaw_ok [OF assms(1-3), of "cbc_enc (E k) iv x"] len dec assms(4) show ?thesis by simp
qed

subsection \<open>Ciphertext stealing\<close>

lemma tail_octets_bounds: "1 \<le> tail_octets n" "tail_octets n \<le> 16"
  by (auto simp: tail_octets_def)

lemma tail_octets_split:
  assumes "16 < n"
  obtains q where "n = 16 * q + 16 + tail_octets n"
proof -
  define d r where "d = n div 16" and "r = n mod 16"
  have n: "n = 16 * d + r" "r < 16" by (simp_all add: d_def r_def)
  then have "tail_octets n = (if r = 0 then 16 else r)" by (simp add: tail_octets_def r_def)
  then have "n = 16 * (if r = 0 then d - 2 else d - 1) + 16 + tail_octets n"
    using n assms by (cases "r = 0") auto
  with that show ?thesis by blast
qed

text \<open>The shape of the ciphertext: all but the last two blocks, the last, and the first octets of the one
  before.\<close>

lemma cts_shape:
  assumes doc: "webcrypto_documented W E D" and k: "aes_key k" and iv: "length iv = 16"
    and long: "16 < length data"
  obtains body pm pl where "data = body @ pm @ pl" and "length body mod 16 = 0" and "length pm = 16"
    and "length pl = tail_octets (length data)"
    and "ctsEncrypt W k iv data =
      (let A = cbc_enc (E k) iv body;
           cPrev = E k (xor_bytes (last_block iv A) pm);
           cLast = E k (xor_bytes cPrev (pl @ zeros (16 - length pl)))
       in Inr (A @ cLast @ take (length pl) cPrev))"
proof -
  define m where "m = tail_octets (length data)"
  obtain q where q: "length data = 16 * q + 16 + m" using tail_octets_split [OF long] unfolding m_def .
  define body pm pl where "body = take (16 * q) data" and "pm = take 16 (drop (16 * q) data)"
    and "pl = drop (16 * q + 16) data"
  have m: "1 \<le> m" "m \<le> 16" using tail_octets_bounds by (simp_all add: m_def)
  have data: "data = body @ pm @ pl"
    by (simp add: body_def pm_def pl_def) (metis append_take_drop_id drop_drop add.commute)
  have len: "length body = 16 * q" "length pm = 16" "length pl = m"
    using q by (simp_all add: body_def pm_def pl_def)
  note E = documentedD(1) [OF doc k]
  define A where "A = cbc_enc (E k) iv body"
  define cPrev where "cPrev = E k (xor_bytes (last_block iv A) pm)"
  define cLast where "cLast = E k (xor_bytes cPrev (pl @ zeros (16 - m)))"
  have lA: "length A = 16 * q" using len iv E unfolding A_def by (subst cbc_enc_length) simp_all
  have llb: "length (last_block iv A) = 16" using lA iv by (cases q) (auto simp: last_block_def)
  have lP: "length cPrev = 16" unfolding cPrev_def using E llb len by simp
  have lL: "length cLast = 16" unfolding cLast_def using E lP len m by simp
  have pad: "(16 - m) mod 16 = 16 - m" using m by (cases "m = 0") simp_all
  have "cbc_enc (E k) iv (data @ zeros (16 - m)) = A @ cPrev @ cLast"
  proof -
    have "data @ zeros (16 - m) = body @ pm @ (pl @ zeros (16 - m))" by (simp add: data)
    moreover have "length (pl @ zeros (16 - m)) = 16" using len m by simp
    ultimately show ?thesis
      using cbc_enc_append [of body "E k" iv "pm @ (pl @ zeros (16 - m))"] len iv E
      by (simp add: A_def [symmetric] cPrev_def [symmetric] cLast_def cbc_enc_single)
  qed
  moreover have "length (data @ zeros (16 - m)) mod 16 = 0" using q m by simp
  ultimately have enc: "cbcEncryptRaw W k iv (data @ zeros (16 - m)) = Inr (A @ cPrev @ cLast)"
    using cbcEncryptRaw_ok [OF doc k iv] by simp
  have n: "(length A + (length cPrev + length cLast)) div 16 = q + 2" using lA lP lL by simp
  have "ctsEncrypt W k iv data = Inr (A @ cLast @ take m cPrev)"
    using long enc lA lP lL m by (simp add: ctsEncrypt_def m_def [symmetric] pad n Let_def min.absorb1)
  then show ?thesis
    using that [OF data] len by (simp add: A_def cPrev_def cLast_def m_def Let_def)
qed

lemma cts_roundtrip:
  assumes doc: "webcrypto_documented W E D" and k: "aes_key k" and iv: "length iv = 16"
    and len: "16 \<le> length data"
  shows "\<exists>c. ctsEncrypt W k iv data = Inr c \<and> length c = length data \<and> ctsDecrypt W k iv c = Inr data"
proof (cases "length data = 16")
  case True
  have "cbcEncryptRaw W k iv data = Inr (cbc_enc (E k) iv data)"
    using cbcEncryptRaw_ok [OF doc k iv] True by simp
  moreover have "length (cbc_enc (E k) iv data) = 16"
    using True iv documentedD(1) [OF doc k] by (simp add: cbc_enc_single)
  moreover have "cbcDecryptRaw W k iv (cbc_enc (E k) iv data) = Inr data"
    using cbcRaw_roundtrip [OF doc k iv] True by simp
  ultimately show ?thesis using True by (simp add: ctsEncrypt_def ctsDecrypt_def)
next
  case False
  with len have long: "16 < length data" by simp
  obtain body pm pl where data: "data = body @ pm @ pl" "length body mod 16 = 0" "length pm = 16"
    "length pl = tail_octets (length data)"
    and enc: "ctsEncrypt W k iv data =
      (let A = cbc_enc (E k) iv body;
           cPrev = E k (xor_bytes (last_block iv A) pm);
           cLast = E k (xor_bytes cPrev (pl @ zeros (16 - length pl)))
       in Inr (A @ cLast @ take (length pl) cPrev))"
    using cts_shape [OF doc k iv long] .
  define m where "m = length pl"
  have m: "1 \<le> m" "m \<le> 16" "m = tail_octets (length data)"
    using data(4) tail_octets_bounds [of "length data"] by (simp_all add: m_def)
  note E = documentedD(1) [OF doc k] and DE = documentedD(2) [OF doc k]
  define A where "A = cbc_enc (E k) iv body"
  define cPrev where "cPrev = E k (xor_bytes (last_block iv A) pm)"
  define cLast where "cLast = E k (xor_bytes cPrev (pl @ zeros (16 - m)))"
  have lA: "length A = length body" using data iv E unfolding A_def by (subst cbc_enc_length) simp_all
  have llb: "length (last_block iv A) = 16"
    using lA iv data(2) whole_blocks_le [of A] by (auto simp: last_block_def)
  have lP: "length cPrev = 16" unfolding cPrev_def using E llb data by simp
  have lL: "length cLast = 16" unfolding cLast_def using E lP m by (simp add: m_def)
  define c where "c = A @ cLast @ take m cPrev"
  have enc': "ctsEncrypt W k iv data = Inr c"
    using enc by (simp add: c_def A_def cPrev_def cLast_def m_def Let_def)
  have body_len: "length data = length body + 16 + m" unfolding data(1) using data(3) by (simp add: m_def)
  have lc: "length c = length data" using lA lP lL m(1,2) body_len by (simp add: c_def)
  have parts: "take (length c - 16 - m) c = A" "take 16 (drop (length c - 16 - m) c) = cLast"
    "drop (length c - m) c = take m cPrev"
    using lc body_len lA lL lP m(1,2) by (simp_all add: c_def)
  have z: "cbc_dec (D k) (zeros 16) cLast = xor_bytes cPrev (pl @ zeros (16 - m))"
    using DE lP lL m(1,2) by (simp add: cbc_dec_single cLast_def xor_bytes_zeros m_def)
  have ecb: "ecbDecryptBlock W k cLast = Inr (xor_bytes cPrev (pl @ zeros (16 - m)))"
    using cbcDecryptRaw_ok [OF doc k, of "zeros 16" cLast] lL z lP m(1,2)
    by (simp add: ecbDecryptBlock_def m_def)
  have "xor_bytes (take m cPrev @ drop m cPrev) (pl @ zeros (16 - m)) =
      xor_bytes (take m cPrev) pl @ xor_bytes (drop m cPrev) (zeros (16 - m))"
    using lP m(1,2) by (intro xor_bytes_append) (simp add: m_def)
  then have zx: "xor_bytes cPrev (pl @ zeros (16 - m)) = xor_bytes (take m cPrev) pl @ drop m cPrev"
    using lP by (simp add: xor_bytes_zeros_right)
  have "length (xor_bytes (take m cPrev) pl) = m" using lP m(1,2) by (simp add: m_def)
  then have prev: "take m cPrev @ drop m (xor_bytes cPrev (pl @ zeros (16 - m))) = cPrev"
    unfolding zx by simp
  have "xor_bytes (xor_bytes cPrev (pl @ zeros (16 - m))) cPrev = pl @ zeros (16 - m)"
    using lP m(1,2) by (intro xor_bytes_cancel') (simp add: m_def)
  then have last: "take m (xor_bytes (xor_bytes cPrev (pl @ zeros (16 - m))) cPrev) = pl"
    by (simp add: m_def)
  have "A @ cPrev = cbc_enc (E k) iv (body @ pm)"
    using cbc_enc_append [of body "E k" iv pm] data iv E by (simp add: A_def [symmetric] cPrev_def cbc_enc_single)
  then have "cbcDecryptRaw W k iv (A @ cPrev) = Inr (body @ pm)"
    using cbcRaw_roundtrip [OF doc k iv, of "body @ pm"] data by simp
  moreover have "\<not> length c < 16" "length c \<noteq> 16" "tail_octets (length c) = m" using long lc m(3) by simp_all
  ultimately have "ctsDecrypt W k iv c = Inr ((body @ pm) @ pl)"
    unfolding ctsDecrypt_def Let_def by (simp only: if_False parts ecb prev last rbind_simps)
  with enc' lc data(1) show ?thesis by simp
qed

subsection \<open>Keys\<close>

lemma derive_loop_ok:
  assumes doc: "webcrypto_documented W E D" and k: "aes_key k"
  shows "length block = 16 \<Longrightarrow> 0 < fuel \<Longrightarrow> outBytes < fuel + length out \<Longrightarrow>
    \<exists>r. derive_loop fuel W k outBytes out block = Inr r \<and> length r = outBytes"
proof (induction fuel arbitrary: out block)
  case 0
  then show ?case by simp
next
  case (Suc fuel)
  show ?case
  proof (cases "length out < outBytes")
    case True
    let ?b = "cbc_enc (E k) (zeros 16) block"
    have enc: "cbcEncryptRaw W k (zeros 16) block = Inr ?b"
      using cbcEncryptRaw_ok [OF doc k] Suc.prems by simp
    have "length ?b = 16" using Suc.prems documentedD(1) [OF doc k] by (simp add: cbc_enc_single)
    moreover have "0 < fuel" using True Suc.prems by simp
    ultimately show ?thesis using Suc.IH [of ?b "out @ ?b"] Suc.prems enc True by simp
  qed simp
qed

lemma deriveKeyAes_ok:
  assumes "webcrypto_documented W E D" and "aes_key k"
  shows "\<exists>r. deriveKeyAes W k usage p n = Inr r \<and> length r = n"
proof -
  obtain c where "nfold (usageConstant usage p) 128 = Inr c" "length c = 16"
    using nfold_total [of 128 "usageConstant usage p"] by (auto simp: usageConstant_def)
  with derive_loop_ok [OF assms, where block = c and outBytes = n and fuel = "Suc n" and out = "[]"] show ?thesis
    by (simp add: deriveKeyAes_def deriveRandom_def usageConstant_def)
qed

lemma kdfHmacSha2_ok:
  assumes "webcrypto_documented W E D" and "key \<noteq> []" and "n \<le> sha_bytes h"
  shows "\<exists>r. kdfHmacSha2 W h key label (n * 8) = Inr r \<and> length r = n"
  using hmac_ok [OF assms(1,2), of h "[0, 0, 0, 1] @ label @ [0] @ be_fixed 4 (n * 8)"] assms(3)
  by (auto simp: kdfHmacSha2_def)

lemma length_register_bytes [simp]: "length (register_bytes w) = 4"
  by (simp add: register_bytes_def)

lemma length_md5 [simp]: "length (md5 x) = 16"
  by (simp add: md5_def digestToBytes_def Let_def split: prod.split)

lemma length_md4 [simp]: "length (md4 x) = 16"
  by (simp add: md4_def digestToBytes_def Let_def split: prod.split)

lemma length_hmacMd5 [simp]: "length (hmacMd5 k x) = 16"
  by (simp add: hmacMd5_def Let_def)

lemma length_rc4 [simp]: "length (rc4 k d) = length d"
  by (simp add: rc4_def)

subsection \<open>The interface\<close>

locale encryption_profile =
  fixes encrypt :: "bytes \<Rightarrow> nat \<Rightarrow> bytes \<Rightarrow> bytes \<Rightarrow> 'e + bytes"
    and decrypt :: "bytes \<Rightarrow> nat \<Rightarrow> bytes \<Rightarrow> 'e + bytes"
    and key_ok :: "bytes \<Rightarrow> bool"
    and conf_ok :: "bytes \<Rightarrow> bool"
  assumes encrypt_returns: "key_ok k \<Longrightarrow> conf_ok c \<Longrightarrow> \<exists>x. encrypt k u c p = Inr x"
    and decrypt_encrypt: "key_ok k \<Longrightarrow> conf_ok c \<Longrightarrow> encrypt k u c p = Inr x \<Longrightarrow> decrypt k u x = Inr p"
begin

lemma roundtrip: "key_ok k \<Longrightarrow> conf_ok c \<Longrightarrow> \<exists>x. encrypt k u c p = Inr x \<and> decrypt k u x = Inr p"
  using encrypt_returns decrypt_encrypt by blast

lemma encrypt_inject:
  assumes "key_ok k" and "conf_ok c" and "conf_ok c'" and "encrypt k u c p = encrypt k u c' p'"
  shows "p = p'"
proof -
  obtain x where x: "encrypt k u c p = Inr x" using encrypt_returns [OF assms(1,2)] by blast
  have "decrypt k u x = Inr p" using decrypt_encrypt [OF assms(1,2) x] .
  moreover have "decrypt k u x = Inr p'" using decrypt_encrypt [OF assms(1,3)] assms(4) x by simp
  ultimately show ?thesis by simp
qed

end

lemma encryption_profileI:
  assumes "\<And>k c u p. key_ok k \<Longrightarrow> conf_ok c \<Longrightarrow> \<exists>x. encrypt k u c p = Inr x \<and> decrypt k u x = Inr p"
  shows "encryption_profile encrypt decrypt key_ok conf_ok"
proof
  fix k c u p
  assume "key_ok k" and "conf_ok c"
  note both = assms [OF this, of u p]
  then show "\<exists>x. encrypt k u c p = Inr x" by blast
  show "decrypt k u x = Inr p" if "encrypt k u c p = Inr x" for x using both that by auto
qed

lemma arcfour_roundtrip:
  assumes "length conf = 8"
  shows "\<exists>x. arcfour_encrypt k u conf p = Inr x \<and> length x = 24 + length p \<and> arcfour_decrypt k u x = Inr p"
  using assms by (simp add: arcfour_encrypt_def arcfour_decrypt_def Let_def rc4_rc4)

interpretation arcfour: encryption_profile arcfour_encrypt arcfour_decrypt "\<lambda>k. True" "\<lambda>c. length c = 8"
  by (rule encryption_profileI) (use arcfour_roundtrip in blast)

definition webcrypto_ok :: "webcrypto \<Rightarrow> bool" where
  "webcrypto_ok W \<longleftrightarrow> (\<exists>E D. webcrypto_documented W E D)"

lemma aesSha1_roundtrip:
  assumes "webcrypto_ok W" and "aes_key k" and n: "n \<in> {16, 32}" and conf: "length conf = 16"
  shows "\<exists>x. aesSha1_encrypt W n k u conf p = Inr x \<and> length x = 28 + length p \<and>
    aesSha1_decrypt W i n k u x = Inr p"
proof -
  obtain E D where doc: "webcrypto_documented W E D" using assms(1) by (auto simp: webcrypto_ok_def)
  obtain ke ki where ke: "deriveKeyAes W k u 0xaa n = Inr ke" "length ke = n"
    and ki: "deriveKeyAes W k u 0x55 n = Inr ki" "length ki = n"
    using deriveKeyAes_ok [OF doc assms(2)] by metis
  have "aes_key ke" using ke n by (auto simp: aes_key_def)
  then obtain c where c: "ctsEncrypt W ke (zeros 16) (conf @ p) = Inr c" "length c = 16 + length p"
    "ctsDecrypt W ke (zeros 16) c = Inr (conf @ p)"
    using cts_roundtrip [OF doc, of ke "zeros 16" "conf @ p"] conf by auto
  have ki_some: "ki \<noteq> []" using ki(2) n by auto
  obtain t where t: "hmac W SHA1 ki (conf @ p) = Inr t" "length t = 20"
    using hmac_ok [OF doc ki_some, of SHA1 "conf @ p"] by (auto simp: sha_bytes_def)
  have "aesSha1_encrypt W n k u conf p = Inr (c @ take 12 t)"
    by (simp add: aesSha1_encrypt_def ke ki c(1) t Let_def)
  moreover have "aesSha1_decrypt W i n k u (c @ take 12 t) = Inr p"
    using c t conf by (simp add: aesSha1_decrypt_def ke ki Let_def)
  ultimately show ?thesis using c t by simp
qed

lemma aesSha2_roundtrip:
  assumes "webcrypto_ok W" and k: "k \<noteq> []" and h: "(n, h, mac) \<in> {(16, SHA256, 16), (32, SHA384, 24)}"
    and conf: "length conf = 16"
  shows "\<exists>x. aesSha2_encrypt W n h mac k u conf p = Inr x \<and> length x = 16 + mac + length p \<and>
    aesSha2_decrypt W i n h mac k u x = Inr p"
proof -
  obtain E D where doc: "webcrypto_documented W E D" using assms(1) by (auto simp: webcrypto_ok_def)
  obtain ke where ke: "aesSha2_encryptionKey W n h k u = Inr ke" "length ke = n"
    using kdfHmacSha2_ok [OF doc k, of n h "usageConstant u 0xaa"] h by (auto simp: aesSha2_encryptionKey_def sha_bytes_def)
  obtain ki where ki: "aesSha2_integrityKey W mac h k u = Inr ki" "length ki = mac"
    using kdfHmacSha2_ok [OF doc k, of mac h "usageConstant u 0x55"] h by (auto simp: aesSha2_integrityKey_def sha_bytes_def)
  have "aes_key ke" using ke h by (auto simp: aes_key_def)
  then obtain c where c: "ctsEncrypt W ke (zeros 16) (conf @ p) = Inr c" "length c = 16 + length p"
    "ctsDecrypt W ke (zeros 16) c = Inr (conf @ p)"
    using cts_roundtrip [OF doc, of ke "zeros 16" "conf @ p"] conf by auto
  have "ki \<noteq> []" using ki(2) h by auto
  then obtain t where t: "hmac W h ki (zeros 16 @ c) = Inr t" "length (take mac t) = mac"
    using hmac_ok [OF doc, of ki h "zeros 16 @ c"] h by (auto simp: sha_bytes_def)
  have "aesSha2_encrypt W n h mac k u conf p = Inr (c @ take mac t)"
    by (simp add: aesSha2_encrypt_def ke ki c(1) t)
  moreover have "aesSha2_decrypt W i n h mac k u (c @ take mac t) = Inr p"
    using c t conf by (simp add: aesSha2_decrypt_def ke ki Let_def)
  ultimately show ?thesis using c t by simp
qed

text \<open>A key of no octets is refused where the key goes to HMAC.\<close>

lemma aesSha2_empty_key:
  assumes "webcrypto_ok W"
  shows "aesSha2_encrypt W n h mac [] u conf p = Inl WebCryptoRejects"
    and "aesSha2_checksum W h mac [] u p = Inl WebCryptoRejects"
  using assms by (auto simp: webcrypto_ok_def aesSha2_encrypt_def aesSha2_checksum_def aesSha2_encryptionKey_def
      aesSha2_checksumKey_def kdfHmacSha2_def hmac_empty_key)

interpretation aes_sha1: encryption_profile "aesSha1_encrypt W n" "aesSha1_decrypt W i n"
  "\<lambda>k. webcrypto_ok W \<and> aes_key k \<and> n \<in> {16, 32}" "\<lambda>c. length c = 16" for W n i
  by (rule encryption_profileI) (use aesSha1_roundtrip in blast)

interpretation aes_sha2: encryption_profile "aesSha2_encrypt W n h mac" "aesSha2_decrypt W i n h mac"
  "\<lambda>k. webcrypto_ok W \<and> k \<noteq> [] \<and> (n, h, mac) \<in> {(16, SHA256, 16), (32, SHA384, 24)}" "\<lambda>c. length c = 16" for W n h mac i
  by (rule encryption_profileI) (use aesSha2_roundtrip in blast)

text \<open>The keys a supported etype works with: 16 or 32 octets where AES takes the base key itself, any key but
  the empty one where it goes through HMAC first, and any key at all for RC4-HMAC.\<close>

definition usable_key :: "webcrypto \<Rightarrow> nat \<Rightarrow> bytes \<Rightarrow> bool" where
  "usable_key W i k \<longleftrightarrow>
     (if i = 23 then True else webcrypto_ok W \<and> k \<noteq> [] \<and> (i \<in> {17, 18} \<longrightarrow> aes_key k))"

lemma etype_cases:
  assumes "etypeById W i = Inr p"
  obtains (sha1) n where "i \<in> {17, 18}" "n \<in> {16, 32}" "p_encrypt p = aesSha1_encrypt W n" "p_decrypt p = aesSha1_decrypt W i n"
      "p_confounderBytes p = 16" "p_checksum p = aesSha1_checksum W n" "p_checksumBytes p = 12"
    | (sha2) n h mac where "i \<in> {19, 20}" "(n, h, mac) \<in> {(16, SHA256, 16), (32, SHA384, 24)}"
      "p_encrypt p = aesSha2_encrypt W n h mac" "p_decrypt p = aesSha2_decrypt W i n h mac" "p_confounderBytes p = 16"
      "p_checksum p = aesSha2_checksum W h mac" "p_checksumBytes p = mac"
    | (rc4) "i = 23" "p = ARCFOUR"
proof -
  consider "i = 17" | "i = 18" | "i = 19" | "i = 20" | "i = 23"
    using assms by (auto simp: etypeById_def ETYPES_def split: option.splits if_splits)
  then show ?thesis
  proof cases
    case 1 with assms sha1 [of 16] show ?thesis by (auto simp: etypeById_def ETYPES_def aesSha1Profile_def)
  next
    case 2 with assms sha1 [of 32] show ?thesis by (auto simp: etypeById_def ETYPES_def aesSha1Profile_def)
  next
    case 3 with assms sha2 [of 16 SHA256 16] show ?thesis by (auto simp: etypeById_def ETYPES_def aesSha2Profile_def)
  next
    case 4 with assms sha2 [of 32 SHA384 24] show ?thesis by (auto simp: etypeById_def ETYPES_def aesSha2Profile_def)
  next
    case 5 with assms rc4 show ?thesis by (auto simp: etypeById_def ETYPES_def)
  qed
qed

lemma etype_profile_roundtrip:
  assumes "etypeById W i = Inr p" and "usable_key W i k" and "length conf = p_confounderBytes p"
  shows "\<exists>x. p_encrypt p k u conf plain = Inr x \<and> p_decrypt p k u x = Inr plain"
  using assms(1)
proof (cases rule: etype_cases)
  case (sha1 n)
  with assms aes_sha1.roundtrip [of W k n conf u plain i] show ?thesis by (auto simp: usable_key_def)
next
  case (sha2 n h mac)
  with assms aes_sha2.roundtrip [of W k n h mac conf u plain i] show ?thesis by (auto simp: usable_key_def)
next
  case rc4
  with assms arcfour.roundtrip show ?thesis by (simp add: ARCFOUR_def)
qed

lemma arcfour_decrypt_exact:
  "arcfour_decrypt k u x = Inr p \<longleftrightarrow> (\<exists>conf. length conf = 8 \<and> arcfour_encrypt k u conf p = Inr x)"
proof
  assume dec: "arcfour_decrypt k u x = Inr p"
  define k1 where "k1 = hmacMd5 k (le32 (translateArcfourUsage u))"
  define k3 where "k3 = hmacMd5 k1 (take 16 x)"
  define plain where "plain = rc4 k3 (drop 16 x)"
  from dec have len: "24 \<le> length x" and mac: "take 16 x = hmacMd5 k1 plain" and p: "p = drop 8 plain"
    by (auto simp: arcfour_decrypt_def Let_def k1_def k3_def plain_def split: if_splits)
  have whole: "take 8 plain @ p = plain" by (simp add: p)
  have "x = hmacMd5 k1 plain @ rc4 k3 plain" unfolding mac [symmetric] by (simp add: plain_def rc4_rc4)
  then have "arcfour_encrypt k u (take 8 plain) p = Inr x"
    by (simp add: arcfour_encrypt_def Let_def k1_def [symmetric] whole mac [symmetric] k3_def [symmetric])
  moreover have "length (take 8 plain) = 8" using len by (simp add: plain_def)
  ultimately show "\<exists>conf. length conf = 8 \<and> arcfour_encrypt k u conf p = Inr x" by blast
next
  assume "\<exists>conf. length conf = 8 \<and> arcfour_encrypt k u conf p = Inr x"
  then show "arcfour_decrypt k u x = Inr p" using arcfour.decrypt_encrypt by blast
qed

subsection \<open>A block permutation for the witnesses\<close>

definition sample_block :: "bytes \<Rightarrow> bytes \<Rightarrow> bytes" where
  "sample_block k b = xor_bytes b (take 16 k)"

definition sample_webcrypto :: webcrypto where
  "sample_webcrypto =
     \<lparr>w_aes_encrypt = (\<lambda>k iv x. Some (cbc_enc (sample_block k) iv (pkcs7_pad x))),
      w_aes_decrypt = (\<lambda>k iv y. pkcs7_unpad (cbc_dec (sample_block k) iv y)),
      w_hmac = (\<lambda>h k x. if k = [] then None else Some (zeros (sha_bytes h))),
      w_pbkdf2 = (\<lambda>h pw salt n bits. zeros (bits div 8))\<rparr>"

lemma sample_webcrypto_documented: "webcrypto_documented sample_webcrypto sample_block sample_block"
proof -
  have "sample_block k (sample_block k b) = b" if "aes_key k" "length b = 16" for k b
    using that by (rule_tac nth_equalityI)
      (auto simp: sample_block_def xor_bytes_def aes_key_def xor.assoc)
  moreover have "length (sample_block k b) = 16" if "aes_key k" "length b = 16" for k b
    using that by (auto simp: sample_block_def aes_key_def)
  ultimately show ?thesis by (simp add: webcrypto_documented_def sample_webcrypto_def zeros_def)
qed

lemma sample_webcrypto_ok: "webcrypto_ok sample_webcrypto"
  using sample_webcrypto_documented by (auto simp: webcrypto_ok_def)

subsection \<open>Properties\<close>

text \<open>C10: for each of the five encryption types, what a profile encrypts it decrypts back, with any key it
  can use (16 or 32 octets for AES with SHA-1, any but the empty key for AES with SHA-2, any at all for RC4-HMAC), any
  usage, any confounder of its size and any plaintext, given what Web Crypto documents, which includes that an
  HMAC key of no octets is refused.\<close>

theorem etype_roundtrip:
  assumes "etypeById W i = Inr p" and "usable_key W i k" and "length conf = p_confounderBytes p"
  shows "\<exists>x. p_encrypt p k u conf plain = Inr x \<and> p_decrypt p k u x = Inr plain"
  using assms by (rule etype_profile_roundtrip)

lemma etype_roundtrip_witness:
  "\<exists>x. p_encrypt (aesSha2Profile sample_webcrypto 20 ''aes256-cts-hmac-sha384-192'' 32 SHA384 24)
         [1, 2] 7 (zeros 16) [5] = Inr x \<and>
       p_decrypt (aesSha2Profile sample_webcrypto 20 ''aes256-cts-hmac-sha384-192'' 32 SHA384 24)
         [1, 2] 7 x = Inr [5]"
proof (rule etype_roundtrip)
  show "etypeById sample_webcrypto 20 =
      Inr (aesSha2Profile sample_webcrypto 20 ''aes256-cts-hmac-sha384-192'' 32 SHA384 24)"
    by (simp add: etypeById_def ETYPES_def)
  show "usable_key sample_webcrypto 20 [1, 2]" by (simp add: usable_key_def sample_webcrypto_ok)
qed (simp add: aesSha2Profile_def)

text \<open>Ciphertext stealing keeps the length and inverts, for every input of at least one block: a
  single block, an exact multiple and a partial tail alike.\<close>

theorem cts_inverts:
  assumes "webcrypto_documented W E D" and "aes_key k" and "length iv = 16" and "16 \<le> length data"
  shows "\<exists>c. ctsEncrypt W k iv data = Inr c \<and> length c = length data \<and> ctsDecrypt W k iv c = Inr data"
  using assms by (rule cts_roundtrip)

lemma cts_inverts_witness:
  "\<exists>c. ctsEncrypt sample_webcrypto (replicate 16 7) (zeros 16) (replicate 35 9) = Inr c \<and>
       length c = length (replicate 35 (9 :: byte)) \<and>
       ctsDecrypt sample_webcrypto (replicate 16 7) (zeros 16) c = Inr (replicate 35 9)"
  by (rule cts_inverts [OF sample_webcrypto_documented]) (simp_all add: aes_key_def)

text \<open>Raw CBC, built from the padded operation by dropping the padding block and by synthesising one that
  is valid, is the plain chaining on whole blocks, and its decryption inverts it.\<close>

theorem raw_cbc_is_chaining:
  assumes "webcrypto_documented W E D" and "aes_key k" and "length iv = 16" and "length x mod 16 = 0"
  shows "cbcEncryptRaw W k iv x = Inr (cbc_enc (E k) iv x) \<and>
    cbcDecryptRaw W k iv (cbc_enc (E k) iv x) = Inr x"
  using cbcEncryptRaw_ok [OF assms] cbcRaw_roundtrip [OF assms] by blast

lemma raw_cbc_is_chaining_witness:
  "cbcEncryptRaw sample_webcrypto (replicate 32 7) (zeros 16) (replicate 32 9) =
     Inr (cbc_enc (sample_block (replicate 32 7)) (zeros 16) (replicate 32 9)) \<and>
   cbcDecryptRaw sample_webcrypto (replicate 32 7) (zeros 16)
     (cbc_enc (sample_block (replicate 32 7)) (zeros 16) (replicate 32 9)) = Inr (replicate 32 9)"
  by (rule raw_cbc_is_chaining [OF sample_webcrypto_documented]) (simp_all add: aes_key_def)

text \<open>C11: RC4-HMAC accepts a ciphertext exactly when it is the encryption, under that key and usage, of the
  plaintext it returns with some confounder of eight octets; no other octets pass the integrity check.\<close>

theorem arcfour_accepts_exactly_encryptions:
  "arcfour_decrypt k u x = Inr p \<longleftrightarrow> (\<exists>conf. length conf = 8 \<and> arcfour_encrypt k u conf p = Inr x)"
  by (rule arcfour_decrypt_exact)

end
