(* ===== verification/Krb5_Gss.thy ===== *)
theory Krb5_Gss
  imports Krb5_Crypto Krb5_Asn1_Laws
begin

text \<open>
  The GSS-API layer (\<open>common/krb5/krb5_gss.js\<close>): the 0x8003 checksum that carries channel bindings and flags,
  the InitialContextToken, and the per-message MIC and Wrap tokens of RFC 4121.

  Options objects are the arguments of the definitions, a missing option being \<open>None\<close> or the default.  The
  encryption type is looked up in \<open>Krb5_Crypto\<close>, and the lemmas about sealing are proved once in the context of
  \<open>encryption_profile\<close>.
\<close>

subsection \<open>Constants and integers\<close>

definition KRB5_MECH_OID_DER :: bytes where
  "KRB5_MECH_OID_DER = [0x06, 0x09, 0x2a, 0x86, 0x48, 0x86, 0xf7, 0x12, 0x01, 0x02, 0x02]"

datatype token_name = AP_REQ | AP_REP | KRB_ERROR | MIC | WRAP

fun TOK_ID :: "token_name \<Rightarrow> byte \<times> byte" where
  "TOK_ID AP_REQ = (0x01, 0x00)"
| "TOK_ID AP_REP = (0x02, 0x00)"
| "TOK_ID KRB_ERROR = (0x03, 0x00)"
| "TOK_ID MIC = (0x04, 0x04)"
| "TOK_ID WRAP = (0x05, 0x04)"

definition token_id_bytes :: "token_name \<Rightarrow> bytes" where
  "token_id_bytes t = [fst (TOK_ID t), snd (TOK_ID t)]"

definition GSS_DELEG :: nat where "GSS_DELEG = 1"

definition GSS_FLAG :: "(string \<times> nat) list" where
  "GSS_FLAG = [(''DELEG'', 1), (''MUTUAL'', 2), (''REPLAY'', 4), (''SEQUENCE'', 8), (''CONF'', 16), (''INTEG'', 32)]"

definition le16 :: "nat \<Rightarrow> bytes" where
  "le16 n = rev (be_fixed 2 n)"

definition gss_le32 :: "nat \<Rightarrow> bytes" where
  "gss_le32 n = rev (be_fixed 4 n)"

definition readLe32 :: "bytes \<Rightarrow> nat \<Rightarrow> nat" where
  "readLe32 b at = le_nat (take 4 (drop at b))"

definition be64 :: "nat \<Rightarrow> bytes" where
  "be64 n = be_fixed 4 (drop_bit 32 n) @ be_fixed 4 n"

definition readBe64 :: "bytes \<Rightarrow> nat \<Rightarrow> nat" where
  "readBe64 b at = be_nat (take 4 (drop at b)) * 0x100000000 + be_nat (take 4 (drop (at + 4) b))"

datatype gss_error =
    BindingsLength nat
  | DelegationWithoutFlag
  | ChecksumTooShort nat
  | ChecksumBindings nat
  | NotInitialContextToken "byte option"
  | GssAsn1 asn1_error
  | NoMechanismOid
  | OtherMechanism bool bytes
  | NoTokenId
  | BadRole
  | BadPurpose
  | GssCrypto crypto_error
  | MicTooShort nat
  | NotMicToken bytes
  | WrapTooShort nat
  | NotWrapToken bytes
  | NotSealed
  | PlaintextTooShort
  | HeaderMismatch

definition of_crypto :: "crypto_error + 'a \<Rightarrow> gss_error + 'a" where
  "of_crypto r = (case r of Inl e \<Rightarrow> Inl (GssCrypto e) | Inr x \<Rightarrow> Inr x)"

definition of_asn1 :: "asn1_error + 'a \<Rightarrow> gss_error + 'a" where
  "of_asn1 r = (case r of Inl e \<Rightarrow> Inl (GssAsn1 e) | Inr x \<Rightarrow> Inr x)"

subsection \<open>The 0x8003 checksum\<close>

record gss_options =
  go_flags :: "nat list"
  go_channelBindings :: "bytes option"
  go_delegation :: "bytes option"
  go_extensions :: "bytes option"

definition buildGssChecksum :: "gss_options \<Rightarrow> gss_error + bytes" where
  "buildGssChecksum opts =
     (let flags = foldl (OR) 0 (go_flags opts);
          bindings = (case go_channelBindings opts of Some b \<Rightarrow> b | None \<Rightarrow> replicate 16 0);
          exts = (case go_extensions opts of Some x \<Rightarrow> x | None \<Rightarrow> [])
      in if length bindings \<noteq> 16 then Inl (BindingsLength (length bindings))
         else case go_delegation opts of
           None \<Rightarrow> Inr (gss_le32 16 @ bindings @ gss_le32 flags @ exts)
         | Some cred \<Rightarrow>
             if flags AND GSS_DELEG = 0 then Inl DelegationWithoutFlag
             else Inr (gss_le32 16 @ bindings @ gss_le32 flags @ le16 1 @ le16 (length cred) @ cred @ exts))"

record gss_checksum =
  gc_channelBindings :: bytes
  gc_hasChannelBindings :: bool
  gc_flags :: nat
  gc_flagNames :: "string list"
  gc_delegation :: "(nat \<times> bytes) option"
  gc_extensions :: "bytes option"

text \<open>The delegation read at offset 24, when its flag is set and it fits, with the offset after it.\<close>

definition parse_delegation :: "bytes \<Rightarrow> nat \<Rightarrow> (nat \<times> bytes) option \<times> nat" where
  "parse_delegation b flags =
     (if flags AND GSS_DELEG \<noteq> 0 \<and> 28 \<le> length b then
        (let dlgOpt = le_nat (take 2 (drop 24 b)); dlgth = le_nat (take 2 (drop 26 b))
         in if 28 + dlgth \<le> length b
            then (Some (dlgOpt, take dlgth (drop 28 b)), 28 + dlgth)
            else (None, 28))
      else (None, 24))"

definition parseGssChecksum :: "bytes \<Rightarrow> gss_error + gss_checksum" where
  "parseGssChecksum b =
     (if length b < 24 then Inl (ChecksumTooShort (length b))
      else
        (let declared = readLe32 b 0; flags = readLe32 b 20; bnd = take 16 (drop 4 b);
             (deleg, at) = parse_delegation b flags
         in if declared \<noteq> 16 then Inl (ChecksumBindings declared)
            else Inr \<lparr>gc_channelBindings = bnd,
                      gc_hasChannelBindings = (\<not> list_all (\<lambda>v. v = 0) bnd),
                      gc_flags = flags,
                      gc_flagNames = map fst (filter (\<lambda>(nm, bit). flags AND bit \<noteq> 0) GSS_FLAG),
                      gc_delegation = deleg,
                      gc_extensions = (if at < length b then Some (drop at b) else None)\<rparr>))"

subsection \<open>The InitialContextToken\<close>

definition encodeInitialContextToken :: "token_name \<Rightarrow> bytes \<Rightarrow> gss_error + bytes" where
  "encodeInitialContextToken tok innerBytes =
     (let body = KRB5_MECH_OID_DER @ token_id_bytes tok @ innerBytes
      in rbind (of_asn1 (encodeLength (length body))) (\<lambda>len. Inr (0x60 # len @ body)))"

record context_token =
  ct_tokId :: "byte \<times> byte"
  ct_tokIdName :: "token_name option"
  ct_inner :: bytes

definition token_name_of :: "byte \<times> byte \<Rightarrow> token_name option" where
  "token_name_of i = List.find (\<lambda>t. TOK_ID t = i) [AP_REQ, AP_REP, KRB_ERROR, MIC, WRAP]"

definition decodeInitialContextToken :: "bytes \<Rightarrow> gss_error + context_token" where
  "decodeInitialContextToken b =
     (if b = [] then Inl (NotInitialContextToken None)
      else if b ! 0 \<noteq> 0x60 then Inl (NotInitialContextToken (Some (b ! 0)))
      else rbind (of_asn1 (readTlv b 0 0)) (\<lambda>outer.
        let v = t_value outer; n = length KRB5_MECH_OID_DER;
            spnego = [0x06, 0x06, 0x2b, 0x06, 0x01, 0x05, 0x05, 0x02]
        in if length v < n then Inl NoMechanismOid
           else if \<not> equalConstantTime (take n v) KRB5_MECH_OID_DER then
             Inl (OtherMechanism
               (length spnego \<le> length v \<and> equalConstantTime (take (length spnego) v) spnego) (take n v))
           else
             (let rest = drop n v
              in if length rest < 2 then Inl NoTokenId
                 else Inr \<lparr>ct_tokId = (rest ! 0, rest ! 1),
                           ct_tokIdName = token_name_of (rest ! 0, rest ! 1),
                           ct_inner = drop 2 rest\<rparr>)))"

subsection \<open>Usages and headers\<close>

datatype role = Initiator | Acceptor | OtherRole

datatype msg_purpose = Sign | Seal | OtherPurpose

fun usageFor :: "role \<Rightarrow> msg_purpose \<Rightarrow> gss_error + nat" where
  "usageFor OtherRole p = Inl BadRole"
| "usageFor r Sign = Inr (if r = Initiator then 25 else 23)"
| "usageFor r Seal = Inr (if r = Initiator then 24 else 22)"
| "usageFor r OtherPurpose = Inl BadPurpose"

definition messageFlags :: "role \<Rightarrow> bool \<Rightarrow> bool \<Rightarrow> byte" where
  "messageFlags r sealed acceptorSubkey =
     (if r = Acceptor then 0x01 else 0x00) OR (if sealed then 0x02 else 0x00) OR
     (if acceptorSubkey then 0x04 else 0x00)"

definition sender_role :: "byte \<Rightarrow> role" where
  "sender_role flags = (if flags AND 0x01 \<noteq> 0 then Acceptor else Initiator)"

subsection \<open>MIC tokens\<close>

definition mic_header :: "role \<Rightarrow> bool \<Rightarrow> nat \<Rightarrow> bytes" where
  "mic_header r acceptorSubkey seqno =
     token_id_bytes MIC @ [messageFlags r False acceptorSubkey] @ replicate 5 0xff @ be64 seqno"

definition getMic ::
  "webcrypto \<Rightarrow> nat \<Rightarrow> bytes \<Rightarrow> role \<Rightarrow> bool \<Rightarrow> nat \<Rightarrow> bytes \<Rightarrow> gss_error + bytes" where
  "getMic W etype key r acceptorSubkey seqno message =
     rbind (of_crypto (etypeById W etype)) (\<lambda>p.
     rbind (usageFor r Sign) (\<lambda>usage.
       let header = mic_header r acceptorSubkey seqno
       in rbind (of_crypto (p_checksum p key usage (message @ header))) (\<lambda>checksum.
            Inr (header @ checksum))))"

record mic_verdict =
  mv_ok :: bool
  mv_senderRole :: role
  mv_sequenceNumber :: nat
  mv_sealed :: bool
  mv_acceptorSubkey :: bool

definition verifyMic :: "webcrypto \<Rightarrow> nat \<Rightarrow> bytes \<Rightarrow> bytes \<Rightarrow> bytes \<Rightarrow> gss_error + mic_verdict" where
  "verifyMic W etype key message token =
     (if length token < 16 then Inl (MicTooShort (length token))
      else if take 2 token \<noteq> token_id_bytes MIC then Inl (NotMicToken (take 2 token))
      else rbind (of_crypto (etypeById W etype)) (\<lambda>p.
        let header = take 16 token; given = drop 16 token; senderRole = sender_role (header ! 2)
        in rbind (usageFor senderRole Sign) (\<lambda>usage.
           rbind (of_crypto (p_checksum p key usage (message @ header))) (\<lambda>expected.
             Inr \<lparr>mv_ok = equalConstantTime given expected, mv_senderRole = senderRole,
                  mv_sequenceNumber = readBe64 header 8,
                  mv_sealed = (header ! 2 AND 0x02 \<noteq> 0),
                  mv_acceptorSubkey = (header ! 2 AND 0x04 \<noteq> 0)\<rparr>))))"

subsection \<open>Wrap tokens\<close>

definition rotateRight :: "bytes \<Rightarrow> nat \<Rightarrow> bytes" where
  "rotateRight b count =
     (if b = [] \<or> count = 0 then b
      else (let n = count mod length b in if n = 0 then b else drop (length b - n) b @ take (length b - n) b))"

definition rotateLeft :: "bytes \<Rightarrow> nat \<Rightarrow> bytes" where
  "rotateLeft b count =
     (if b = [] \<or> count = 0 then b
      else (let n = count mod length b in if n = 0 then b else drop n b @ take n b))"

definition wrap_header :: "role \<Rightarrow> bool \<Rightarrow> nat \<Rightarrow> nat \<Rightarrow> nat \<Rightarrow> bytes" where
  "wrap_header r acceptorSubkey ec rrc seqno =
     token_id_bytes WRAP @ [messageFlags r True acceptorSubkey, 0xff] @ be_fixed 2 ec @ be_fixed 2 rrc @ be64 seqno"

type_synonym encryptor = "bytes \<Rightarrow> nat \<Rightarrow> bytes \<Rightarrow> bytes \<Rightarrow> crypto_error + bytes"
type_synonym decryptor = "bytes \<Rightarrow> nat \<Rightarrow> bytes \<Rightarrow> crypto_error + bytes"

definition seal_token ::
  "encryptor \<Rightarrow> bytes \<Rightarrow> role \<Rightarrow> bool \<Rightarrow> nat \<Rightarrow> nat \<Rightarrow> nat \<Rightarrow> bytes \<Rightarrow> bytes \<Rightarrow> gss_error + bytes" where
  "seal_token encrypt key r acceptorSubkey ec rrc seqno conf message =
     (let header = wrap_header r acceptorSubkey ec rrc seqno
      in rbind (usageFor r Seal) (\<lambda>usage.
         rbind (of_crypto (encrypt key usage conf (message @ replicate ec 0 @ header))) (\<lambda>ciphertext.
           Inr (header @ rotateRight ciphertext rrc))))"

definition wrap ::
  "webcrypto \<Rightarrow> nat \<Rightarrow> bytes \<Rightarrow> role \<Rightarrow> bool \<Rightarrow> nat \<Rightarrow> nat \<Rightarrow> nat \<Rightarrow> bytes \<Rightarrow> bytes \<Rightarrow> gss_error + bytes" where
  "wrap W etype key r acceptorSubkey ec rrc seqno conf message =
     rbind (of_crypto (etypeById W etype)) (\<lambda>p.
       seal_token (p_encrypt p) key r acceptorSubkey ec rrc seqno conf message)"

record unwrapped =
  u_message :: bytes
  u_senderRole :: role
  u_sequenceNumber :: nat
  u_extraCount :: nat
  u_rrc :: nat

text \<open>What \<open>unwrap\<close> does once the clear header is checked and the profile is known.\<close>

definition open_token :: "decryptor \<Rightarrow> bytes \<Rightarrow> bytes \<Rightarrow> gss_error + unwrapped" where
  "open_token decrypt key token =
     (let header = take 16 token; flags = header ! 2;
          ec = be_nat (take 2 (drop 4 header)); rrc = be_nat (take 2 (drop 6 header));
          senderRole = sender_role flags
      in rbind (usageFor senderRole Seal) (\<lambda>usage.
         rbind (of_crypto (decrypt key usage (rotateLeft (drop 16 token) rrc))) (\<lambda>plaintext.
           if length plaintext < 16 + ec then Inl PlaintextTooShort
           else
             (let trailing = drop (length plaintext - 16) plaintext
              in if trailing ! 0 \<noteq> header ! 0 \<or> trailing ! 1 \<noteq> header ! 1 \<or> trailing ! 2 \<noteq> header ! 2
                 then Inl HeaderMismatch
                 else Inr \<lparr>u_message = take (length plaintext - 16 - ec) plaintext, u_senderRole = senderRole,
                           u_sequenceNumber = readBe64 header 8, u_extraCount = ec, u_rrc = rrc\<rparr>))))"

definition unwrap :: "webcrypto \<Rightarrow> nat \<Rightarrow> bytes \<Rightarrow> bytes \<Rightarrow> gss_error + unwrapped" where
  "unwrap W etype key token =
     (if length token < 16 then Inl (WrapTooShort (length token))
      else if take 2 token \<noteq> token_id_bytes WRAP then Inl (NotWrapToken (take 2 token))
      else if token ! 2 AND 0x02 = 0 then Inl NotSealed
      else rbind (of_crypto (etypeById W etype)) (\<lambda>p. open_token (p_decrypt p) key token))"

fun_cases usageForE: "usageFor r p = Inr u"

subsection \<open>The checksum and the context token read back\<close>

lemma le_nat_rev_fixed [simp]: "le_nat (rev (be_fixed n m)) = m mod 256 ^ n"
  by (simp add: le_nat_def)

lemma gss_lengths [simp]: "length (gss_le32 n) = 4" "length (le16 n) = 2" "length (be64 n) = 8"
  "length (token_id_bytes t) = 2"
  by (simp_all add: gss_le32_def le16_def be64_def token_id_bytes_def)

lemma readBe64_be64: "n < 2 ^ 64 \<Longrightarrow> readBe64 (be64 n) 0 = n"
proof -
  assume "n < 2 ^ 64"
  then have "n div 2 ^ 32 < 2 ^ 32" by (simp add: div_less_iff_less_mult)
  moreover have "n = n div 2 ^ 32 * 2 ^ 32 + n mod 2 ^ 32" by (rule div_mult_mod_eq [symmetric])
  ultimately show ?thesis by (simp add: readBe64_def be64_def drop_bit_eq_div)
qed

definition effective_flags :: "gss_options \<Rightarrow> nat" where
  "effective_flags opts = foldl (OR) 0 (go_flags opts)"

definition effective_bindings :: "gss_options \<Rightarrow> bytes" where
  "effective_bindings opts = (case go_channelBindings opts of Some b \<Rightarrow> b | None \<Rightarrow> replicate 16 0)"

lemma gss_checksum_reads_back:
  assumes "buildGssChecksum opts = Inr b" and "effective_flags opts < 2 ^ 32"
    and "case go_delegation opts of
           Some cred \<Rightarrow> length cred < 2 ^ 16
         | None \<Rightarrow> effective_flags opts AND GSS_DELEG \<noteq> 0 \<longrightarrow>
             (case go_extensions opts of None \<Rightarrow> True | Some x \<Rightarrow> length x < 4)"
  shows "\<exists>r. parseGssChecksum b = Inr r \<and> gc_channelBindings r = effective_bindings opts \<and>
    gc_flags r = effective_flags opts \<and>
    gc_delegation r = map_option (\<lambda>cred. (1, cred)) (go_delegation opts) \<and>
    gc_extensions r = (case go_extensions opts of None \<Rightarrow> None | Some x \<Rightarrow> if x = [] then None else Some x)"
proof -
  let ?f = "effective_flags opts"
  obtain exts where exts: "exts = (case go_extensions opts of Some x \<Rightarrow> x | None \<Rightarrow> [])" by blast
  have bnd: "length (effective_bindings opts) = 16"
    using assms(1) by (auto simp: buildGssChecksum_def effective_bindings_def Let_def split: if_splits)
  show ?thesis
  proof (cases "go_delegation opts")
    case None
    have b: "b = gss_le32 16 @ effective_bindings opts @ gss_le32 ?f @ exts"
      using assms(1) None
      by (auto simp: buildGssChecksum_def effective_bindings_def effective_flags_def Let_def exts split: if_splits)
    have "parse_delegation b ?f = (None, 24)"
      using assms(3) None bnd
      by (auto simp: parse_delegation_def b exts split: option.splits)
    moreover have "readLe32 b 0 = 16" "readLe32 b 20 = ?f" "take 16 (drop 4 b) = effective_bindings opts"
      using bnd assms(2) by (simp_all add: b readLe32_def gss_le32_def)
    ultimately show ?thesis using bnd None
      by (auto simp: parseGssChecksum_def b exts Let_def split: option.splits)
  next
    case (Some cred)
    have b: "b = gss_le32 16 @ effective_bindings opts @ gss_le32 ?f @ le16 1 @ le16 (length cred) @ cred @ exts"
      and deleg: "?f AND GSS_DELEG \<noteq> 0"
      using assms(1) Some
      by (auto simp: buildGssChecksum_def effective_bindings_def effective_flags_def Let_def exts split: if_splits)
    have "le_nat (take 2 (drop 24 b)) = 1" "le_nat (take 2 (drop 26 b)) = length cred"
      using bnd assms(3) Some by (simp_all add: b le16_def)
    then have "parse_delegation b ?f = (Some (1, cred), 28 + length cred)"
      using deleg bnd by (simp add: parse_delegation_def b)
    moreover have "readLe32 b 0 = 16" "readLe32 b 20 = ?f" "take 16 (drop 4 b) = effective_bindings opts"
      using bnd assms(2) by (simp_all add: b readLe32_def gss_le32_def)
    ultimately show ?thesis using bnd Some
      by (auto simp: parseGssChecksum_def b exts Let_def split: option.splits)
  qed
qed

lemma token_name_of_id: "token_name_of (TOK_ID t) = Some t"
  by (cases t) (simp_all add: token_name_of_def)

lemma context_token_tlv: "encodeInitialContextToken tok inner = Inr b \<longleftrightarrow>
   tlv 0x60 (KRB5_MECH_OID_DER @ token_id_bytes tok @ inner) = Inr b"
  by (auto simp: encodeInitialContextToken_def tlv_def of_asn1_def Let_def rbind_eq_Inr split: sum.splits)

lemma context_token_reads_back:
  assumes "encodeInitialContextToken tok inner = Inr b"
  shows "decodeInitialContextToken b = Inr \<lparr>ct_tokId = TOK_ID tok, ct_tokIdName = Some tok, ct_inner = inner\<rparr>"
proof -
  from assms have t: "tlv 0x60 (KRB5_MECH_OID_DER @ token_id_bytes tok @ inner) = Inr b"
    by (simp add: context_token_tlv)
  obtain r where r: "readTlv b 0 0 = Inr r" "t_value r = KRB5_MECH_OID_DER @ token_id_bytes tok @ inner"
    using tlv_readTlv [OF t, of 0 "[]" "[]"] by auto
  have "b \<noteq> []" "b ! 0 = 0x60"
    using assms by (auto simp: encodeInitialContextToken_def Let_def rbind_eq_Inr)
  then show ?thesis using r token_name_of_id [of tok]
    by (simp add: decodeInitialContextToken_def of_asn1_def token_id_bytes_def)
qed

subsection \<open>Rotation and headers\<close>

lemma rotate_inverse: "rotateLeft (rotateRight b n) n = b"
proof (cases "b = [] \<or> n mod length b = 0")
  case False
  define k where "k = n mod length b"
  from False have k: "0 < k" "k < length b" by (simp_all add: k_def)
  then have "rotateRight b n = drop (length b - k) b @ take (length b - k) b"
    using False by (cases "n = 0") (auto simp: rotateRight_def Let_def k_def)
  moreover have "rotateLeft (drop (length b - k) b @ take (length b - k) b) n = b"
    using k False by (cases "n = 0") (auto simp: rotateLeft_def Let_def k_def [symmetric])
  ultimately show ?thesis by simp
qed (auto simp: rotateRight_def rotateLeft_def Let_def)

lemma length_wrap_header [simp]: "length (wrap_header r sub ec rrc n) = 16"
  and length_mic_header [simp]: "length (mic_header r sub n) = 16"
  by (simp_all add: wrap_header_def mic_header_def)

lemma messageFlags_bits:
  "r \<noteq> OtherRole \<Longrightarrow> sender_role (messageFlags r s a) = r"
  "messageFlags r s a AND 0x02 \<noteq> 0 \<longleftrightarrow> s"
  "messageFlags r s a AND 0x04 \<noteq> 0 \<longleftrightarrow> a"
  by (cases r; cases s; cases a; simp add: messageFlags_def sender_role_def)+

lemma wrap_header_fields:
  assumes "ec < 2 ^ 16" and "rrc < 2 ^ 16"
  shows "take 2 (wrap_header r sub ec rrc n) = token_id_bytes WRAP"
    and "wrap_header r sub ec rrc n ! 2 = messageFlags r True sub"
    and "be_nat (take 2 (drop 4 (wrap_header r sub ec rrc n))) = ec"
    and "be_nat (take 2 (drop 6 (wrap_header r sub ec rrc n))) = rrc"
    and "drop 8 (wrap_header r sub ec rrc n) = be64 n"
  using assms by (simp_all add: wrap_header_def token_id_bytes_def)

lemma readBe64_drop: "readBe64 (take 16 h) 8 = readBe64 (drop 8 (take 16 h)) 0"
  by (simp add: readBe64_def)

lemma usageFor_speaker: "r \<noteq> OtherRole \<Longrightarrow> p \<noteq> OtherPurpose \<Longrightarrow> \<exists>u. usageFor r p = Inr u"
  by (cases r; cases p) auto

locale sealing = encryption_profile encrypt decrypt key_ok conf_ok
  for encrypt :: encryptor and decrypt :: decryptor and key_ok and conf_ok
begin

text \<open>Opening a sealed token whose clear header was replaced by one that agrees on its first eight octets.\<close>

lemma open_sealed:
  assumes "key_ok key" and "conf_ok conf" and "r \<noteq> OtherRole" and "ec < 2 ^ 16" and "rrc < 2 ^ 16"
    and "length h = 16" and "take 8 h = take 8 (wrap_header r sub ec rrc n)"
  shows "\<exists>sealed. seal_token encrypt key r sub ec rrc n conf message = Inr (wrap_header r sub ec rrc n @ sealed) \<and>
    open_token decrypt key (h @ sealed) =
      Inr \<lparr>u_message = message, u_senderRole = r, u_sequenceNumber = readBe64 h 8, u_extraCount = ec, u_rrc = rrc\<rparr>"
proof -
  let ?w = "wrap_header r sub ec rrc n"
  have nth: "h ! i = ?w ! i" if "i < 8" for i
    using assms(7) that by (metis nth_take)
  have sub: "take k (drop i h) = take k (drop i ?w)" if "i + k \<le> 8" for i k
  proof -
    have "take k (drop i (take 8 h)) = take k (drop i (take 8 ?w))" by (simp only: assms(7))
    moreover have "k \<le> 8 - i" using that by simp
    ultimately show ?thesis by (simp add: drop_take min.absorb1)
  qed
  note f = wrap_header_fields [OF assms(4,5), of r sub n]
  obtain u where u: "usageFor r Seal = Inr u" using usageFor_speaker [OF assms(3)] by blast
  obtain x where x: "encrypt key u conf (message @ replicate ec 0 @ ?w) = Inr x"
    "decrypt key u x = Inr (message @ replicate ec 0 @ ?w)"
    using roundtrip [OF assms(1,2)] by blast
  have "seal_token encrypt key r sub ec rrc n conf message = Inr (?w @ rotateRight x rrc)"
    by (simp add: seal_token_def u x(1) of_crypto_def Let_def)
  moreover have "open_token decrypt key (h @ rotateRight x rrc) =
      Inr \<lparr>u_message = message, u_senderRole = r, u_sequenceNumber = readBe64 h 8, u_extraCount = ec, u_rrc = rrc\<rparr>"
  proof -
    have "be_nat (take 2 (drop 4 h)) = ec" "be_nat (take 2 (drop 6 h)) = rrc" "sender_role (h ! 2) = r"
      using sub [of 4 2] sub [of 6 2] nth [of 2] f messageFlags_bits(1) [OF assms(3)] by simp_all
    then show ?thesis
      using assms(6) nth [of 0] nth [of 1] nth [of 2]
      by (simp add: open_token_def u x(2) of_crypto_def rotate_inverse Let_def)
  qed
  ultimately show ?thesis by blast
qed

end

interpretation arcfour_sealing: sealing arcfour_encrypt arcfour_decrypt "\<lambda>k. True" "\<lambda>c. length c = 8"
  by unfold_locales

interpretation aes_sha1_sealing: sealing "aesSha1_encrypt W n" "aesSha1_decrypt W i n"
  "\<lambda>k. webcrypto_ok W \<and> aes_key k \<and> n \<in> {16, 32}" "\<lambda>c. length c = 16" for W n i
  by unfold_locales

interpretation aes_sha2_sealing: sealing "aesSha2_encrypt W n h mac" "aesSha2_decrypt W i n h mac"
  "\<lambda>k. webcrypto_ok W \<and> k \<noteq> [] \<and> (n, h, mac) \<in> {(16, SHA256, 16), (32, SHA384, 24)}" "\<lambda>c. length c = 16" for W n h mac i
  by unfold_locales

lemma etype_open_sealed:
  assumes "etypeById W i = Inr p" and "usable_key W i key" and "length conf = p_confounderBytes p"
    and "r \<noteq> OtherRole" and "ec < 2 ^ 16" and "rrc < 2 ^ 16"
    and "length h = 16" and "take 8 h = take 8 (wrap_header r sub ec rrc n)"
  shows "\<exists>sealed. seal_token (p_encrypt p) key r sub ec rrc n conf message = Inr (wrap_header r sub ec rrc n @ sealed) \<and>
    open_token (p_decrypt p) key (h @ sealed) =
      Inr \<lparr>u_message = message, u_senderRole = r, u_sequenceNumber = readBe64 h 8, u_extraCount = ec, u_rrc = rrc\<rparr>"
  using assms(1)
proof (cases rule: etype_cases)
  case (sha1 m)
  with assms aes_sha1_sealing.open_sealed [of W key m conf r ec rrc h sub n message i] show ?thesis
    by (auto simp: usable_key_def)
next
  case (sha2 m hash mac)
  with assms aes_sha2_sealing.open_sealed [of W key m hash mac conf r ec rrc h sub n message i] show ?thesis
    by (auto simp: usable_key_def)
next
  case rc4
  with assms arcfour_sealing.open_sealed [of conf r ec rrc h sub n key message] show ?thesis
    by (simp add: ARCFOUR_def)
qed

lemma unwrap_any_tail:
  assumes "etypeById W i = Inr p" and "usable_key W i key" and "length conf = p_confounderBytes p"
    and "r \<noteq> OtherRole" and "ec < 2 ^ 16" and "rrc < 2 ^ 16"
  shows "\<exists>sealed. wrap W i key r sub ec rrc n conf message = Inr (wrap_header r sub ec rrc n @ sealed) \<and>
    (\<forall>h. length h = 16 \<and> take 8 h = take 8 (wrap_header r sub ec rrc n) \<longrightarrow>
      unwrap W i key (h @ sealed) =
        Inr \<lparr>u_message = message, u_senderRole = r, u_sequenceNumber = readBe64 h 8, u_extraCount = ec, u_rrc = rrc\<rparr>)"
proof -
  let ?w = "wrap_header r sub ec rrc n"
  obtain sealed where s: "seal_token (p_encrypt p) key r sub ec rrc n conf message = Inr (?w @ sealed)"
    using etype_open_sealed [OF assms, of ?w sub n message] by auto
  have "unwrap W i key (h @ sealed) =
        Inr \<lparr>u_message = message, u_senderRole = r, u_sequenceNumber = readBe64 h 8, u_extraCount = ec, u_rrc = rrc\<rparr>"
    if h: "length h = 16" "take 8 h = take 8 ?w" for h
  proof -
    have nth: "h ! j = ?w ! j" if "j < 8" for j using h(2) that by (metis nth_take)
    have "take 2 (take 8 h) = take 2 (take 8 ?w)" by (simp only: h(2))
    then have "take 2 h = token_id_bytes WRAP" using wrap_header_fields(1) [OF assms(5,6), of r sub n] by simp
    moreover have "h ! 2 AND 0x02 \<noteq> 0"
      using nth [of 2] wrap_header_fields(2) [OF assms(5,6), of r sub n] messageFlags_bits(2) by simp
    moreover have "open_token (p_decrypt p) key (h @ sealed) =
        Inr \<lparr>u_message = message, u_senderRole = r, u_sequenceNumber = readBe64 h 8, u_extraCount = ec, u_rrc = rrc\<rparr>"
      using etype_open_sealed [OF assms h, of message] s by auto
    ultimately show ?thesis using h(1) assms(1)
      by (simp add: unwrap_def of_crypto_def nth_append)
  qed
  then show ?thesis using s assms(1) by (auto simp: wrap_def of_crypto_def)
qed

lemma readBe64_wrap_header: "n < 2 ^ 64 \<Longrightarrow> readBe64 (wrap_header r sub ec rrc n) 8 = n"
  using readBe64_be64 [of n] by (simp add: wrap_header_def readBe64_def token_id_bytes_def)

lemma readBe64_mic_header: "n < 2 ^ 64 \<Longrightarrow> readBe64 (mic_header r sub n) 8 = n"
proof -
  assume "n < 2 ^ 64"
  have "drop 8 (mic_header r sub n) = be64 n" "drop 12 (mic_header r sub n) = drop 4 (be64 n)"
    by (simp_all add: mic_header_def)
  then have "readBe64 (mic_header r sub n) 8 = readBe64 (be64 n) 0" by (simp add: readBe64_def)
  with readBe64_be64 [OF \<open>n < 2 ^ 64\<close>] show ?thesis by simp
qed

lemma mic_header_flags: "mic_header r sub n ! 2 = messageFlags r False sub"
  by (simp add: mic_header_def token_id_bytes_def)

lemma take_2_mic_header: "take 2 (mic_header r sub n) = token_id_bytes MIC"
  by (simp add: mic_header_def token_id_bytes_def)

lemma etype_checksum_returns:
  assumes "etypeById W i = Inr p" and "usable_key W i key"
  shows "\<exists>c. p_checksum p key u m = Inr c"
  using assms(1)
proof (cases rule: etype_cases)
  case (sha1 n)
  then obtain E D where doc: "webcrypto_documented W E D" "aes_key key"
    using assms(2) by (auto simp: usable_key_def webcrypto_ok_def split: if_splits)
  then obtain kc where kc: "deriveKeyAes W key u 0x99 n = Inr kc" "length kc = n"
    using deriveKeyAes_ok by blast
  with sha1 have "kc \<noteq> []" by auto
  with sha1 kc hmac_ok [OF doc(1), of kc SHA1 m] show ?thesis by (auto simp: aesSha1_checksum_def)
next
  case (sha2 n h mac)
  then obtain E D where doc: "webcrypto_documented W E D" "key \<noteq> []"
    using assms(2) by (auto simp: usable_key_def webcrypto_ok_def split: if_splits)
  then obtain kc where kc: "aesSha2_checksumKey W mac h key u = Inr kc" "length kc = mac"
    using kdfHmacSha2_ok [OF doc, of mac h "usageConstant u 0x99"] sha2 by (auto simp: aesSha2_checksumKey_def sha_bytes_def)
  with sha2 have "kc \<noteq> []" by auto
  with sha2 kc hmac_ok [OF doc(1), of kc h m] show ?thesis by (auto simp: aesSha2_checksum_def)
next
  case rc4
  then show ?thesis by (simp add: ARCFOUR_def arcfour_checksum_def Let_def)
qed

subsection \<open>Properties\<close>

text \<open>C12: a sealed message comes back from \<open>unwrap\<close> with its sender's role, its sequence number and its counts, for
  every supported encryption type, every key it can use, either speaker, and any extra count and rotation.\<close>

theorem wrap_unwrap:
  assumes "etypeById W i = Inr p" and "usable_key W i key" and "length conf = p_confounderBytes p"
    and "r \<noteq> OtherRole" and "ec < 2 ^ 16" and "rrc < 2 ^ 16" and "n < 2 ^ 64"
  shows "\<exists>token. wrap W i key r sub ec rrc n conf message = Inr token \<and>
    unwrap W i key token =
      Inr \<lparr>u_message = message, u_senderRole = r, u_sequenceNumber = n, u_extraCount = ec, u_rrc = rrc\<rparr>"
  using unwrap_any_tail [OF assms(1-6), of sub n message] readBe64_wrap_header [OF assms(7), of r sub ec rrc] by auto

lemma wrap_unwrap_witness:
  "\<exists>token. wrap sample_webcrypto 23 [1, 2, 3] Acceptor True 3 28 7 (replicate 8 0) [65] = Inr token \<and>
    unwrap sample_webcrypto 23 [1, 2, 3] token =
      Inr \<lparr>u_message = [65], u_senderRole = Acceptor, u_sequenceNumber = 7, u_extraCount = 3, u_rrc = 28\<rparr>"
proof (rule wrap_unwrap)
  show "etypeById sample_webcrypto 23 = Inr ARCFOUR" by (simp add: etypeById_def ETYPES_def)
qed (simp_all add: usable_key_def ARCFOUR_def)

text \<open>The sequence number of a Wrap token is not protected: a token whose clear sequence number was
  overwritten is accepted, and the overwritten number is the one reported.\<close>

theorem wrap_sequence_number_forgeable:
  assumes "etypeById W i = Inr p" and "usable_key W i key" and "length conf = p_confounderBytes p"
    and "r \<noteq> OtherRole" and "ec < 2 ^ 16" and "rrc < 2 ^ 16" and "n' < 2 ^ 64"
  shows "\<exists>token. wrap W i key r sub ec rrc n conf message = Inr token \<and>
    unwrap W i key (take 8 token @ be64 n' @ drop 16 token) =
      Inr \<lparr>u_message = message, u_senderRole = r, u_sequenceNumber = n', u_extraCount = ec, u_rrc = rrc\<rparr>"
proof -
  let ?w = "wrap_header r sub ec rrc n"
  obtain sealed where w: "wrap W i key r sub ec rrc n conf message = Inr (?w @ sealed)"
    and u: "\<And>h. length h = 16 \<Longrightarrow> take 8 h = take 8 ?w \<Longrightarrow> unwrap W i key (h @ sealed) =
        Inr \<lparr>u_message = message, u_senderRole = r, u_sequenceNumber = readBe64 h 8, u_extraCount = ec, u_rrc = rrc\<rparr>"
    using unwrap_any_tail [OF assms(1-6), of sub n message] by blast
  have "readBe64 (take 8 ?w @ be64 n') 8 = n'" using readBe64_be64 [OF assms(7)] by (simp add: readBe64_def)
  with u [of "take 8 ?w @ be64 n'"] w show ?thesis by simp
qed

lemma wrap_sequence_number_forgeable_witness:
  "\<exists>token. wrap sample_webcrypto 23 [1, 2, 3] Initiator False 0 0 7 (replicate 8 0) [65] = Inr token \<and>
    unwrap sample_webcrypto 23 [1, 2, 3] (take 8 token @ be64 9 @ drop 16 token) =
      Inr \<lparr>u_message = [65], u_senderRole = Initiator, u_sequenceNumber = 9, u_extraCount = 0, u_rrc = 0\<rparr>"
proof (rule wrap_sequence_number_forgeable)
  show "etypeById sample_webcrypto 23 = Inr ARCFOUR" by (simp add: etypeById_def ETYPES_def)
qed (simp_all add: usable_key_def ARCFOUR_def)

text \<open>The 0x8003 checksum reads back: the bindings (sixteen zeros when none were given), the flags, the
  delegated credential and the extensions, as long as the credential's length fits its two octets.\<close>

theorem gss_checksum_roundtrip:
  assumes "buildGssChecksum opts = Inr b" and "effective_flags opts < 2 ^ 32"
    and "case go_delegation opts of
           Some cred \<Rightarrow> length cred < 2 ^ 16
         | None \<Rightarrow> effective_flags opts AND GSS_DELEG \<noteq> 0 \<longrightarrow>
             (case go_extensions opts of None \<Rightarrow> True | Some x \<Rightarrow> length x < 4)"
  shows "\<exists>r. parseGssChecksum b = Inr r \<and> gc_channelBindings r = effective_bindings opts \<and>
    gc_flags r = effective_flags opts \<and>
    gc_delegation r = map_option (\<lambda>cred. (1, cred)) (go_delegation opts) \<and>
    gc_extensions r = (case go_extensions opts of None \<Rightarrow> None | Some x \<Rightarrow> if x = [] then None else Some x)"
  using assms by (rule gss_checksum_reads_back)

lemma gss_checksum_roundtrip_witness:
  "\<exists>r. parseGssChecksum ([16, 0, 0, 0] @ replicate 16 0 @ [3, 0, 0, 0, 1, 0, 2, 0, 8, 9, 5]) = Inr r \<and>
    gc_channelBindings r = effective_bindings
      \<lparr>go_flags = [1, 2], go_channelBindings = None, go_delegation = Some [8, 9], go_extensions = Some [5]\<rparr> \<and>
    gc_flags r = effective_flags
      \<lparr>go_flags = [1, 2], go_channelBindings = None, go_delegation = Some [8, 9], go_extensions = Some [5]\<rparr> \<and>
    gc_delegation r = map_option (\<lambda>cred. (1, cred)) (go_delegation
      \<lparr>go_flags = [1, 2], go_channelBindings = None, go_delegation = Some [8, 9], go_extensions = Some [5]\<rparr>) \<and>
    gc_extensions r = (case go_extensions
      \<lparr>go_flags = [1, 2], go_channelBindings = None, go_delegation = Some [8, 9], go_extensions = Some [5]\<rparr>
      of None \<Rightarrow> None | Some x \<Rightarrow> if x = [] then None else Some x)"
proof (rule gss_checksum_roundtrip)
  show "buildGssChecksum
      \<lparr>go_flags = [1, 2], go_channelBindings = None, go_delegation = Some [8, 9], go_extensions = Some [5]\<rparr> =
    Inr ([16, 0, 0, 0] @ replicate 16 0 @ [3, 0, 0, 0, 1, 0, 2, 0, 8, 9, 5])"
    by code_simp
qed (simp_all add: effective_flags_def)

text \<open>A MIC token verifies under the same key, message and encryption type, and tells the speaker, the sequence
  number and the subkey flag it was made with.\<close>

theorem mic_verifies:
  assumes "etypeById W i = Inr p" and "usable_key W i key" and "r \<noteq> OtherRole" and "n < 2 ^ 64"
  shows "\<exists>token. getMic W i key r sub n message = Inr token \<and>
    verifyMic W i key message token =
      Inr \<lparr>mv_ok = True, mv_senderRole = r, mv_sequenceNumber = n, mv_sealed = False, mv_acceptorSubkey = sub\<rparr>"
proof -
  obtain u where u: "usageFor r Sign = Inr u" using usageFor_speaker [OF assms(3), of Sign] by auto
  obtain c where c: "p_checksum p key u (message @ mic_header r sub n) = Inr c"
    using etype_checksum_returns [OF assms(1,2)] by blast
  have "getMic W i key r sub n message = Inr (mic_header r sub n @ c)"
    by (simp add: getMic_def assms(1) of_crypto_def u c Let_def)
  moreover have "verifyMic W i key message (mic_header r sub n @ c) =
      Inr \<lparr>mv_ok = True, mv_senderRole = r, mv_sequenceNumber = n, mv_sealed = False, mv_acceptorSubkey = sub\<rparr>"
    using messageFlags_bits(1) [OF assms(3), of False sub] readBe64_mic_header [OF assms(4), of r sub]
    by (simp add: verifyMic_def assms(1) of_crypto_def u c Let_def take_2_mic_header mic_header_flags
        messageFlags_bits(2) [of r False sub, simplified] messageFlags_bits(3) [of r False sub, simplified])
  ultimately show ?thesis by blast
qed

lemma mic_verifies_witness:
  "\<exists>token. getMic sample_webcrypto 23 [1, 2, 3] Initiator True 7 [65] = Inr token \<and>
    verifyMic sample_webcrypto 23 [1, 2, 3] [65] token =
      Inr \<lparr>mv_ok = True, mv_senderRole = Initiator, mv_sequenceNumber = 7, mv_sealed = False, mv_acceptorSubkey = True\<rparr>"
proof (rule mic_verifies)
  show "etypeById sample_webcrypto 23 = Inr ARCFOUR" by (simp add: etypeById_def ETYPES_def)
qed (simp_all add: usable_key_def)

end
