(* ===== verification/Krb5_Names.thy ===== *)
theory Krb5_Names
  imports Krb5_Time Js_Strings
begin

text \<open>
  How the Kerberos messages name things to a reader (\<open>common/krb5/krb5_messages.js\<close>): principal names as text, which
  \<open>parsePrincipal\<close> reads and \<open>principalToString\<close> writes, and the names of flag bits.
\<close>

subsection \<open>Characters of a JavaScript string\<close>

text \<open>The white space and line terminators that \<open>String.prototype.trim\<close> removes (ECMA-262).\<close>

definition js_space :: "u16 \<Rightarrow> bool" where
  "js_space u \<longleftrightarrow>
     (let c = unat u
      in (9 \<le> c \<and> c \<le> 13) \<or> c = 32 \<or> c = 160 \<or> c = 0x1680 \<or> (0x2000 \<le> c \<and> c \<le> 0x200a) \<or> c = 0x2028 \<or> c = 0x2029
         \<or> c = 0x202f \<or> c = 0x205f \<or> c = 0x3000 \<or> c = 0xfeff)"

definition js_trim :: "jstring \<Rightarrow> jstring" where
  "js_trim s = rev (dropWhile js_space (rev (dropWhile js_space s)))"

fun js_split :: "u16 \<Rightarrow> jstring \<Rightarrow> jstring list" where
  "js_split sep [] = [[]]"
| "js_split sep (c # s) =
     (if c = sep then [] # js_split sep s
      else case js_split sep s of w # ws \<Rightarrow> (c # w) # ws | [] \<Rightarrow> [[c]])"

fun js_join :: "u16 \<Rightarrow> jstring list \<Rightarrow> jstring" where
  "js_join sep [] = []"
| "js_join sep [w] = w"
| "js_join sep (w # x # ws) = w @ sep # js_join sep (x # ws)"

text \<open>The text before the last separator and the text after it, when the separator is there and not at the start.\<close>

definition split_last :: "u16 \<Rightarrow> jstring \<Rightarrow> (jstring \<times> jstring) option" where
  "split_last sep s =
     (let tl_rev = takeWhile (\<lambda>c. c \<noteq> sep) (rev s); before = length s - length tl_rev - 1
      in if sep \<in> set s \<and> 0 < before then Some (take before s, rev tl_rev) else None)"

abbreviation SLASH :: u16 where "SLASH \<equiv> 47"
abbreviation AT_SIGN :: u16 where "AT_SIGN \<equiv> 64"

subsection \<open>Principal names as text\<close>

text \<open>A component list, and the realm; an empty realm is written as none.\<close>

definition principalToString :: "jstring list \<Rightarrow> jstring option \<Rightarrow> jstring" where
  "principalToString nm realm =
     (case realm of
        None \<Rightarrow> js_join SLASH nm
      | Some r \<Rightarrow> if r = [] then js_join SLASH nm else js_join SLASH nm @ AT_SIGN # r)"

record parsed_principal =
  pp_type :: int
  pp_name :: "jstring list"
  pp_realm :: "jstring option"

text \<open>Two components are a service, and \<open>krbtgt\<close> an instance, unless the caller says otherwise.\<close>

definition guessed_type :: "jstring list \<Rightarrow> int" where
  "guessed_type parts = (if 1 < length parts then if parts ! 0 = js_ascii ''krbtgt'' then 2 else 3 else 1)"

definition parsePrincipal :: "jstring \<Rightarrow> int option \<Rightarrow> asn1_error + parsed_principal" where
  "parsePrincipal text0 defaultType =
     (let s = js_trim text0;
          (nm, realm) = (case split_last AT_SIGN s of Some (a, b) \<Rightarrow> (a, Some b) | None \<Rightarrow> (s, None));
          parts = filter (\<lambda>p. 0 < length p) (js_split SLASH nm)
      in if parts = [] then Inl EmptyPrincipalName
         else Inr \<lparr>pp_type = (case defaultType of Some t \<Rightarrow> t | None \<Rightarrow> guessed_type parts), pp_name = parts, pp_realm = realm\<rparr>)"

subsection \<open>Flag names\<close>

definition KDC_OPTION :: "(string \<times> int) list" where
  "KDC_OPTION =
     [(''FORWARDABLE'', 1), (''FORWARDED'', 2), (''PROXIABLE'', 3), (''PROXY'', 4), (''ALLOW_POSTDATE'', 5), (''POSTDATED'', 6),
      (''RENEWABLE'', 8), (''OPT_HARDWARE_AUTH'', 11), (''CNAME_IN_ADDL_TKT'', 14), (''CANONICALIZE'', 15),
      (''REQUEST_ANONYMOUS'', 16), (''DISABLE_TRANSITED_CHECK'', 26), (''RENEWABLE_OK'', 27), (''ENC_TKT_IN_SKEY'', 28),
      (''RENEW'', 30), (''VALIDATE'', 31)]"

definition TICKET_FLAG :: "(string \<times> int) list" where
  "TICKET_FLAG =
     [(''FORWARDABLE'', 1), (''FORWARDED'', 2), (''PROXIABLE'', 3), (''PROXY'', 4), (''MAY_POSTDATE'', 5), (''POSTDATED'', 6),
      (''INVALID'', 7), (''RENEWABLE'', 8), (''INITIAL'', 9), (''PRE_AUTHENT'', 10), (''HW_AUTHENT'', 11),
      (''TRANSITED_POLICY_CHECKED'', 12), (''OK_AS_DELEGATE'', 13), (''ENC_PA_REP'', 15), (''ANONYMOUS'', 16)]"

definition AP_OPTION :: "(string \<times> int) list" where
  "AP_OPTION = [(''USE_SESSION_KEY'', 1), (''MUTUAL_REQUIRED'', 2)]"

definition dashed :: "string \<Rightarrow> string" where
  "dashed nm = map (\<lambda>c. if c = CHR ''_'' then CHR ''-'' else to_lower c) nm"

definition flagNames :: "(string \<times> int) list \<Rightarrow> int list \<Rightarrow> string list" where
  "flagNames table bits =
     map (\<lambda>b. case map_of (map (\<lambda>(nm, n). (n, nm)) (rev table)) b of
        Some nm \<Rightarrow> dashed nm | None \<Rightarrow> ''bit-'' @ show_int b) bits"

definition kdcOptionNames :: "int list \<Rightarrow> string list" where "kdcOptionNames bits = flagNames KDC_OPTION bits"
definition ticketFlagNames :: "int list \<Rightarrow> string list" where "ticketFlagNames bits = flagNames TICKET_FLAG bits"
definition apOptionNames :: "int list \<Rightarrow> string list" where "apOptionNames bits = flagNames AP_OPTION bits"

subsection \<open>Splitting and joining\<close>

lemma js_split_not_Nil [simp]: "js_split sep s \<noteq> []"
  by (induction s) (auto split: list.split)

lemma js_split_word: "sep \<notin> set w \<Longrightarrow> js_split sep w = [w]"
  by (induction w) auto

lemma js_split_append: "sep \<notin> set w \<Longrightarrow> js_split sep (w @ sep # s) = w # js_split sep s"
  by (induction w) auto

lemma js_split_join: "ws \<noteq> [] \<Longrightarrow> \<forall>w \<in> set ws. sep \<notin> set w \<Longrightarrow> js_split sep (js_join sep ws) = ws"
  by (induction sep ws rule: js_join.induct) (simp_all add: js_split_word js_split_append)

lemma set_js_join: "set (js_join sep ws) \<subseteq> \<Union> (set ` set ws) \<union> {sep}"
  by (induction sep ws rule: js_join.induct) auto

lemma split_last_append: "sep \<notin> set r \<Longrightarrow> nm \<noteq> [] \<Longrightarrow> split_last sep (nm @ sep # r) = Some (nm, r)"
proof -
  assume r: "sep \<notin> set r" and "nm \<noteq> []"
  have "takeWhile (\<lambda>c. c \<noteq> sep) (rev (nm @ sep # r)) = rev r"
    using r by (auto simp: takeWhile_append takeWhile_eq_all_conv)
  with \<open>nm \<noteq> []\<close> show ?thesis by (simp add: split_last_def Let_def del: rev_append)
qed

lemma split_last_none: "sep \<notin> set s \<Longrightarrow> split_last sep s = None"
  by (simp add: split_last_def)

lemma js_trim_id: "s \<noteq> [] \<Longrightarrow> \<not> js_space (hd s) \<Longrightarrow> \<not> js_space (last s) \<Longrightarrow> js_trim s = s"
proof -
  assume a: "s \<noteq> []" "\<not> js_space (hd s)" "\<not> js_space (last s)"
  then have "dropWhile js_space s = s" by (cases s) auto
  moreover from a have "dropWhile js_space (rev s) = rev s" by (cases s rule: rev_cases) auto
  ultimately show ?thesis by (simp add: js_trim_def)
qed

text \<open>The components and realms whose text is unambiguous: no separator inside, nothing empty, no space at either end.\<close>

definition plain_name :: "jstring list \<Rightarrow> jstring option \<Rightarrow> bool" where
  "plain_name nm realm \<longleftrightarrow>
     nm \<noteq> [] \<and> list_all (\<lambda>w. w \<noteq> [] \<and> SLASH \<notin> set w \<and> AT_SIGN \<notin> set w) nm \<and> \<not> js_space (hd (hd nm))
     \<and> (case realm of None \<Rightarrow> \<not> js_space (last (last nm)) | Some r \<Rightarrow> r \<noteq> [] \<and> AT_SIGN \<notin> set r \<and> \<not> js_space (last r))"

lemma js_join_ends:
  "ws \<noteq> [] \<Longrightarrow> list_all (\<lambda>w. w \<noteq> []) ws \<Longrightarrow> js_join sep ws \<noteq> [] \<and> hd (js_join sep ws) = hd (hd ws) \<and> last (js_join sep ws) = last (last ws)"
  by (induction sep ws rule: js_join.induct) auto

text \<open>A principal name in display form is parsed back to its components and its realm, and its type is the given one or the
  guess: an instance for krbtgt, a service for other names of several components, a user otherwise.\<close>

theorem principal_text_roundtrip:
  assumes "plain_name nm realm"
  shows "parsePrincipal (principalToString nm realm) ty =
    Inr \<lparr>pp_type = (case ty of Some t \<Rightarrow> t | None \<Rightarrow> guessed_type nm), pp_name = nm, pp_realm = realm\<rparr>"
proof -
  let ?j = "js_join SLASH nm"
  note ok = assms [unfolded plain_name_def list_all_iff]
  have j: "?j \<noteq> []" "hd ?j = hd (hd nm)" "last ?j = last (last nm)"
    using js_join_ends [of nm SLASH] ok by (auto simp: list_all_iff)
  have at: "AT_SIGN \<notin> set ?j" using set_js_join [of SLASH nm] ok by auto
  have split: "js_split SLASH ?j = nm" using ok by (intro js_split_join) auto
  have parts: "filter (\<lambda>p. 0 < length p) nm = nm" using ok by (auto simp: filter_id_conv)
  show ?thesis
  proof (cases realm)
    case None
    with ok j have "js_trim ?j = ?j" by (intro js_trim_id) auto
    with None split parts ok at show ?thesis
      by (simp add: parsePrincipal_def principalToString_def split_last_none Let_def split: option.split)
  next
    case (Some r)
    with ok j have "js_trim (?j @ AT_SIGN # r) = ?j @ AT_SIGN # r" by (intro js_trim_id) auto
    moreover have "split_last AT_SIGN (?j @ AT_SIGN # r) = Some (?j, r)" using ok j Some by (intro split_last_append) auto
    ultimately show ?thesis using Some ok split parts
      by (simp add: parsePrincipal_def principalToString_def Let_def split: option.split)
  qed
qed

lemma principal_text_roundtrip_witness:
  "parsePrincipal (principalToString [js_ascii ''HTTP'', js_ascii ''web''] (Some (js_ascii ''R''))) None =
    Inr \<lparr>pp_type = 3, pp_name = [js_ascii ''HTTP'', js_ascii ''web''], pp_realm = Some (js_ascii ''R'')\<rparr>"
proof -
  have p: "plain_name [js_ascii ''HTTP'', js_ascii ''web''] (Some (js_ascii ''R''))"
    by (simp add: plain_name_def js_space_def u16_of_def)
  have g: "guessed_type [js_ascii ''HTTP'', js_ascii ''web''] = 3" by (simp add: guessed_type_def)
  from principal_text_roundtrip [OF p, of None] g show ?thesis by simp
qed

end
