(* ===== verification/Krb5_Client.thy ===== *)
theory Krb5_Client
  imports Krb5_Gss Krb5_Wire Krb5_Names
begin

text \<open>
  The client's half of the TGS and AP exchanges and of delegation (\<open>common/krb5/krb5_client.js\<close>), over the messages, the
  encryption types and the GSS layer.

  An options object is a record whose absent members are \<open>None\<close>, an empty text or list counting as absent where the source
  writes \<open>||\<close>.  What the code draws at random and the clock it reads come in as one record of draws.  A thrown \<open>Error\<close> is a
  constructor of \<open>client_error\<close>; the prose of the errors and of a referral is left out.
\<close>

subsection \<open>Key usage numbers\<close>

definition TGS_REQ_AUTH_CKSUM :: nat where "TGS_REQ_AUTH_CKSUM = 6"
definition TGS_REQ_AUTH :: nat where "TGS_REQ_AUTH = 7"
definition TGS_REP_ENCPART_SESSKEY :: nat where "TGS_REP_ENCPART_SESSKEY = 8"
definition TGS_REP_ENCPART_SUBKEY :: nat where "TGS_REP_ENCPART_SUBKEY = 9"
definition AP_REQ_AUTH :: nat where "AP_REQ_AUTH = 11"
definition AP_REP_ENCPART :: nat where "AP_REP_ENCPART = 12"
definition KRB_CRED_ENCPART :: nat where "KRB_CRED_ENCPART = 14"
definition PA_FOR_USER_CKSUM :: nat where "PA_FOR_USER_CKSUM = 17"

lemmas key_usages = TGS_REQ_AUTH_CKSUM_def TGS_REQ_AUTH_def TGS_REP_ENCPART_SESSKEY_def TGS_REP_ENCPART_SUBKEY_def AP_REQ_AUTH_def
  AP_REP_ENCPART_def KRB_CRED_ENCPART_def PA_FOR_USER_CKSUM_def

definition PA_TGS_REQ :: int where "PA_TGS_REQ = 1"
definition PA_FOR_USER :: int where "PA_FOR_USER = 129"
definition PA_PAC_OPTIONS :: int where "PA_PAC_OPTIONS = 167"

subsection \<open>Errors, draws and what a client holds\<close>

text \<open>\<open>BadPrincipal\<close> is the \<open>TypeError\<close> of a member read off an absent principal, \<open>NegativeEtype\<close> the unknown encryption type
  of a negative number, \<open>BadIsoDate\<close> the \<open>RangeError\<close> of \<open>toISOString\<close>.\<close>

datatype opened_with = WithSubkey | WithSessionKey

datatype client_error =
    ClientAsn1 asn1_error
  | ClientCrypto crypto_error
  | ClientGss gss_error
  | NegativeEtype int
  | BadPrincipal
  | BadIsoDate
  | NoTgt
  | ExpectedTgsRep string
  | WouldNotOpen "(opened_with \<times> client_error) list"
  | NonceMismatch int int
  | NoServiceTicket
  | NoUser
  | NoEvidence
  | NothingForwarded
  | OtherCredKey int int
  | CredCount nat nat

definition asn1_step :: "asn1_error + 'a \<Rightarrow> client_error + 'a" where
  "asn1_step r = (case r of Inl e \<Rightarrow> Inl (ClientAsn1 e) | Inr x \<Rightarrow> Inr x)"

definition crypto_step :: "crypto_error + 'a \<Rightarrow> client_error + 'a" where
  "crypto_step r = (case r of Inl e \<Rightarrow> Inl (ClientCrypto e) | Inr x \<Rightarrow> Inr x)"

definition gss_step :: "gss_error + 'a \<Rightarrow> client_error + 'a" where
  "gss_step r = (case r of Inl e \<Rightarrow> Inl (ClientGss e) | Inr x \<Rightarrow> Inr x)"

definition client_etype :: "webcrypto \<Rightarrow> int \<Rightarrow> client_error + profile" where
  "client_etype W i = (if i < 0 then Inl (NegativeEtype i) else crypto_step (etypeById W (nat i)))"

record draws =
  dr_nonce :: bytes
  dr_sequence :: bytes
  dr_subkey :: "nat \<Rightarrow> bytes"
  dr_confounder :: "nat \<Rightarrow> bytes"
  dr_now :: js_date
  dr_tenHours :: js_date

definition randomNonce :: "bytes \<Rightarrow> int" where
  "randomNonce b = int (be_nat (take 4 b))"

text \<open>The top bit is cleared.\<close>

definition randomSequenceNumber :: "bytes \<Rightarrow> int" where
  "randomSequenceNumber b = int (be_nat ((b ! 0 AND 0x7f) # take 3 (drop 1 b)))"

text \<open>A ticket with its session key, in the shape the replies and the delegated credentials are returned in.\<close>

record held_ticket =
  ht_ticket :: "ticket option"
  ht_sessionKey :: "bytes option"
  ht_etype :: int
  ht_client :: "principal option"
  ht_realm :: "jstring option"
  ht_service :: "principal option"
  ht_serviceRealm :: "jstring option"
  ht_flags :: "int list option"
  ht_authtime :: "js_date option"
  ht_starttime :: "js_date option"
  ht_endtime :: "js_date option"
  ht_renewTill :: "js_date option"

text \<open>A text that is absent is written as the word \<open>undefined\<close>.\<close>

definition as_text :: "jstring option \<Rightarrow> jstring" where
  "as_text r = (case r of None \<Rightarrow> js_ascii ''undefined'' | Some s \<Rightarrow> s)"

definition first_text :: "jstring option \<Rightarrow> jstring option \<Rightarrow> jstring option" where
  "first_text a b = (case nonempty a of Some s \<Rightarrow> Some s | None \<Rightarrow> b)"

definition or_default :: "'a option \<Rightarrow> 'a \<Rightarrow> 'a" where
  "or_default x d = (case x of None \<Rightarrow> d | Some y \<Rightarrow> y)"

text \<open>The microseconds of a date: its milliseconds times a thousand.\<close>

definition micros :: "js_date \<Rightarrow> client_error + int" where
  "micros d = (case d of InvalidDate \<Rightarrow> Inl (ClientAsn1 NotWholeNumber) | TimeValue t \<Rightarrow> Inr ((t mod 1000 * 1000) mod 1000000))"

definition seal :: "profile \<Rightarrow> draws \<Rightarrow> bytes \<Rightarrow> nat \<Rightarrow> bytes \<Rightarrow> client_error + bytes" where
  "seal P D k u plain = crypto_step (p_encrypt P k u (dr_confounder D (p_confounderBytes P)) plain)"

subsection \<open>The TGS exchange\<close>

record tgs_options =
  to_tgt :: "held_ticket option"
  to_realm :: "jstring option"
  to_nonce :: "int option"
  to_subkey :: "encryption_key option"
  to_kdcOptions :: "int list option"
  to_sname :: "principal option"
  to_till :: "js_date option"
  to_etypes :: "int list option"
  to_addresses :: "host_address list option"
  to_additionalTickets :: "ticket list option"
  to_encAuthorizationData :: "encrypted_data option"
  to_now :: "js_date option"
  to_sequenceNumber :: "int option"
  to_extraPadata :: "pa_data list"

record tgs_request =
  tr_request :: bytes
  tr_nonce :: int
  tr_subkey :: "encryption_key option"
  tr_body :: bytes
  tr_sname :: "principal option"

text \<open>The body, encoded once.\<close>

definition tgs_body :: "draws \<Rightarrow> tgs_options \<Rightarrow> held_ticket \<Rightarrow> kdc_req_body" where
  "tgs_body D opts tgt =
     \<lparr>rb_kdcOptions = or_default (to_kdcOptions opts) [1, 8], rb_cname = None,
      rb_realm = as_text (first_text (to_realm opts) (ht_realm tgt)), rb_sname = to_sname opts, rb_from = None,
      rb_till = or_default (to_till opts) (dr_tenHours D), rb_rtime = None,
      rb_nonce = or_default (to_nonce opts) (randomNonce (dr_nonce D)),
      rb_etypes = or_default (to_etypes opts) [ht_etype tgt], rb_addresses = to_addresses opts,
      rb_encAuthorizationData = to_encAuthorizationData opts, rb_additionalTickets = to_additionalTickets opts, rb_raw = None\<rparr>"

definition tgs_authenticator :: "profile \<Rightarrow> draws \<Rightarrow> tgs_options \<Rightarrow> held_ticket \<Rightarrow> bytes \<Rightarrow> client_error + authenticator" where
  "tgs_authenticator P D opts tgt checksum =
     (case ht_client tgt of
        None \<Rightarrow> Inl BadPrincipal
      | Some cl \<Rightarrow>
          (let now = or_default (to_now opts) (dr_now D)
           in rbind (micros now) (\<lambda>us.
             Inr \<lparr>au_vno = PVNO, au_crealm = as_text (ht_realm tgt), au_cname = cl,
                  au_cksum = Some \<lparr>ck_type = p_checksumType P, ck_checksum = checksum\<rparr>, au_cusec = us, au_ctime = now,
                  au_subkey = to_subkey opts,
                  au_seqNumber = Some (or_default (to_sequenceNumber opts) (randomSequenceNumber (dr_sequence D))),
                  au_authorizationData = None\<rparr>)))"

definition tgs_padata :: "held_ticket \<Rightarrow> ticket \<Rightarrow> bytes \<Rightarrow> client_error + bytes" where
  "tgs_padata tgt tk cipher =
     asn1_step (encApReq \<lparr>ar_pvno = PVNO, ar_msgType = MSG_AP_REQ, ar_apOptions = [], ar_ticket = tk,
       ar_authenticator = \<lparr>ed_etype = ht_etype tgt, ed_kvno = None, ed_cipher = cipher\<rparr>\<rparr>)"

definition buildTgsReq :: "webcrypto \<Rightarrow> draws \<Rightarrow> tgs_options \<Rightarrow> client_error + tgs_request" where
  "buildTgsReq W D opts =
     (case to_tgt opts of
        None \<Rightarrow> Inl NoTgt
      | Some tgt \<Rightarrow>
          (case (ht_ticket tgt, ht_sessionKey tgt) of
             (Some tk, Some sk) \<Rightarrow>
               rbind (client_etype W (ht_etype tgt)) (\<lambda>P.
               rbind (asn1_step (encKdcReqBody (tgs_body D opts tgt))) (\<lambda>body.
               rbind (crypto_step (p_checksum P sk TGS_REQ_AUTH_CKSUM body)) (\<lambda>ck.
               rbind (tgs_authenticator P D opts tgt ck) (\<lambda>a.
               rbind (asn1_step (encAuthenticator a)) (\<lambda>ab.
               rbind (seal P D sk TGS_REQ_AUTH ab) (\<lambda>cipher.
               rbind (tgs_padata tgt tk cipher) (\<lambda>apReq.
               rbind (asn1_step (encKdcReq
                 \<lparr>rq_pvno = PVNO, rq_msgType = MSG_TGS_REQ,
                  rq_padata = \<lparr>pa_type = PA_TGS_REQ, pa_value = apReq\<rparr> # to_extraPadata opts,
                  rq_reqBody = (tgs_body D opts tgt)\<lparr>rb_raw := Some body\<rparr>\<rparr>)) (\<lambda>request.
               Inr \<lparr>tr_request = request, tr_nonce = rb_nonce (tgs_body D opts tgt), tr_subkey = to_subkey opts,
                    tr_body = body, tr_sname = to_sname opts\<rparr>))))))))
           | _ \<Rightarrow> Inl NoTgt))"

text \<open>The keys to try, the subkey first when one was sent.\<close>

definition tgs_attempts :: "encryption_key option \<Rightarrow> bytes \<Rightarrow> (bytes \<times> nat \<times> opened_with) list" where
  "tgs_attempts subkey sessionKey =
     (case subkey of None \<Rightarrow> [] | Some k \<Rightarrow> [(ek_key k, TGS_REP_ENCPART_SUBKEY, WithSubkey)])
       @ [(sessionKey, TGS_REP_ENCPART_SESSKEY, WithSessionKey)]"

definition open_part :: "profile \<Rightarrow> bytes \<Rightarrow> bytes \<Rightarrow> nat \<Rightarrow> client_error + (enc_kdc_rep_part \<times> bytes)" where
  "open_part P cipher k u =
     rbind (crypto_step (p_decrypt P k u cipher)) (\<lambda>candidate.
     rbind (asn1_step (readEncKdcRepPart candidate)) (\<lambda>part. Inr (part, candidate)))"

fun first_open :: "profile \<Rightarrow> bytes \<Rightarrow> (bytes \<times> nat \<times> opened_with) list \<Rightarrow> (opened_with \<times> client_error) list
    \<Rightarrow> client_error + (enc_kdc_rep_part \<times> bytes \<times> opened_with)" where
  "first_open P cipher [] failures = Inl (WouldNotOpen failures)"
| "first_open P cipher ((k, u, which) # rest) failures =
     (case open_part P cipher k u of
        Inr (part, plain) \<Rightarrow> Inr (part, plain, which)
      | Inl e \<Rightarrow> first_open P cipher rest (failures @ [(which, e)]))"

record referral =
  rf_requested :: jstring
  rf_issued :: jstring
  rf_toRealm :: "jstring option"

text \<open>The names are compared as texts.\<close>

definition find_referral :: "principal option \<Rightarrow> enc_kdc_rep_part \<Rightarrow> referral option" where
  "find_referral asked part =
     (case asked of
        None \<Rightarrow> None
      | Some a \<Rightarrow>
          (let got = pn_name (ep_sname part)
           in if js_join SLASH (pn_name a) = js_join SLASH got then None
              else Some \<lparr>rf_requested = principalToString (pn_name a) None,
                         rf_issued = principalToString got (Some (ep_srealm part)),
                         rf_toRealm = (if 1 < length got \<and> got ! 0 = js_ascii ''krbtgt'' then Some (got ! 1) else None)\<rparr>))"

record reply_bytes =
  by_ticket :: bytes
  by_encPart :: bytes
  by_encPartPlain :: bytes

text \<open>The plaintext is trimmed to its first element.\<close>

definition trim_plain :: "bytes \<Rightarrow> bytes" where
  "trim_plain plain = (case readTlv plain 0 0 of Inl _ \<Rightarrow> plain | Inr t \<Rightarrow> t_raw t)"

definition replyBytes :: "kdc_rep \<Rightarrow> bytes \<Rightarrow> asn1_error + reply_bytes" where
  "replyBytes rep plain =
     rbind (encTicket (rp_ticket rep)) (\<lambda>tk.
     rbind (encEncryptedData (rp_encPart rep)) (\<lambda>ep.
     Inr \<lparr>by_ticket = tk, by_encPart = ep, by_encPartPlain = trim_plain plain\<rparr>))"

record tgs_reply_options =
  ro_sessionKey :: bytes
  ro_reply :: bytes
  ro_subkey :: "encryption_key option"
  ro_nonce :: "int option"
  ro_requestedSname :: "principal option"
  ro_sname :: "principal option"
  ro_built :: "tgs_request option"

definition asked_sname :: "tgs_reply_options \<Rightarrow> principal option" where
  "asked_sname opts =
     (case ro_requestedSname opts of
        Some p \<Rightarrow> Some p
      | None \<Rightarrow> (case ro_sname opts of
          Some p \<Rightarrow> Some p
        | None \<Rightarrow> (case ro_built opts of Some b \<Rightarrow> tr_sname b | None \<Rightarrow> None)))"

record tgs_reply =
  ty_openedWith :: opened_with
  ty_referral :: "referral option"
  ty_held :: held_ticket
  ty_flagNames :: "string list"
  ty_encPart :: enc_kdc_rep_part
  ty_bytes :: reply_bytes

datatype tgs_outcome = TgsKrbError krb_error | TgsReply tgs_reply

definition held_of_reply :: "kdc_rep \<Rightarrow> enc_kdc_rep_part \<Rightarrow> held_ticket" where
  "held_of_reply rep part =
     \<lparr>ht_ticket = Some (rp_ticket rep), ht_sessionKey = Some (ek_key (ep_key part)), ht_etype = ek_etype (ep_key part),
      ht_client = Some (rp_cname rep), ht_realm = Some (rp_crealm rep), ht_service = Some (ep_sname part),
      ht_serviceRealm = Some (ep_srealm part), ht_flags = Some (ep_flags part), ht_authtime = Some (ep_authtime part),
      ht_starttime = ep_starttime part, ht_endtime = Some (ep_endtime part), ht_renewTill = ep_renewTill part\<rparr>"

definition readTgsRep :: "webcrypto \<Rightarrow> tgs_reply_options \<Rightarrow> client_error + tgs_outcome" where
  "readTgsRep W opts =
     rbind (asn1_step (readKdcResponse (ro_reply opts))) (\<lambda>response.
     case response of
       KrbErrorResponse e \<Rightarrow> Inr (TgsKrbError e)
     | KdcReply kind rep \<Rightarrow>
         if kind \<noteq> ''TGS-REP'' then Inl (ExpectedTgsRep kind)
         else
           rbind (client_etype W (ed_etype (rp_encPart rep))) (\<lambda>P.
           rbind (first_open P (ed_cipher (rp_encPart rep)) (tgs_attempts (ro_subkey opts) (ro_sessionKey opts)) [])
             (\<lambda>(part, plain, which).
           if ro_nonce opts \<noteq> None \<and> ro_nonce opts \<noteq> Some (ep_nonce part)
           then Inl (NonceMismatch (ep_nonce part) (the (ro_nonce opts)))
           else
             rbind (asn1_step (replyBytes rep plain)) (\<lambda>by.
             Inr (TgsReply \<lparr>ty_openedWith = which, ty_referral = find_referral (asked_sname opts) part,
               ty_held = held_of_reply rep part, ty_flagNames = ticketFlagNames (ep_flags part), ty_encPart = part,
               ty_bytes = by\<rparr>)))))"

subsection \<open>The AP exchange\<close>

text \<open>\<open>ao_subkey\<close>: the outer \<open>None\<close> is an option left out, for which a key is drawn, the inner one an explicit \<open>null\<close>.\<close>

record ap_options =
  ao_ticket :: "held_ticket option"
  ao_mutual :: bool
  ao_gssFlags :: "nat list option"
  ao_channelBindings :: "bytes option"
  ao_delegation :: "bytes option"
  ao_now :: "js_date option"
  ao_sequenceNumber :: "int option"
  ao_subkey :: "encryption_key option option"

record ap_request =
  aq_apReq :: bytes
  aq_token :: bytes
  aq_sequenceNumber :: int
  aq_subkey :: "encryption_key option"
  aq_ctime :: js_date
  aq_cusec :: int
  aq_gssFlags :: "nat list"

definition CHECKSUM_TYPE_GSS :: int where "CHECKSUM_TYPE_GSS = 0x8003"

definition GSS_MUTUAL :: nat where "GSS_MUTUAL = 2"

definition add_flag :: "nat \<Rightarrow> nat list \<Rightarrow> nat list" where
  "add_flag f flags = (if f \<in> set flags then flags else flags @ [f])"

text \<open>Integrity and confidentiality unless the caller chose; mutual authentication and delegation added when asked for.\<close>

definition ap_flags :: "ap_options \<Rightarrow> nat list" where
  "ap_flags opts =
     (let base = or_default (ao_gssFlags opts) [32, 16];
          mutual = (if ao_mutual opts then add_flag GSS_MUTUAL base else base)
      in if ao_delegation opts \<noteq> None then add_flag GSS_DELEG mutual else mutual)"

definition ap_subkey :: "profile \<Rightarrow> draws \<Rightarrow> ap_options \<Rightarrow> held_ticket \<Rightarrow> encryption_key option" where
  "ap_subkey P D opts tk =
     or_default (ao_subkey opts) (Some \<lparr>ek_etype = ht_etype tk, ek_key = dr_subkey D (p_keyBytes P)\<rparr>)"

definition ap_authenticator :: "draws \<Rightarrow> ap_options \<Rightarrow> held_ticket \<Rightarrow> bytes \<Rightarrow> encryption_key option \<Rightarrow> client_error + authenticator" where
  "ap_authenticator D opts tk gssChecksum subkey =
     (case ht_client tk of
        None \<Rightarrow> Inl BadPrincipal
      | Some cl \<Rightarrow>
          (let requested = or_default (ao_now opts) (dr_now D)
           in rbind (micros requested) (\<lambda>us.
             Inr \<lparr>au_vno = PVNO, au_crealm = as_text (ht_realm tk), au_cname = cl,
                  au_cksum = Some \<lparr>ck_type = CHECKSUM_TYPE_GSS, ck_checksum = gssChecksum\<rparr>, au_cusec = us,
                  au_ctime = whole_second requested, au_subkey = subkey,
                  au_seqNumber = Some (or_default (ao_sequenceNumber opts) (randomSequenceNumber (dr_sequence D))),
                  au_authorizationData = None\<rparr>)))"

definition buildApReq :: "webcrypto \<Rightarrow> draws \<Rightarrow> ap_options \<Rightarrow> client_error + ap_request" where
  "buildApReq W D opts =
     (case ao_ticket opts of
        None \<Rightarrow> Inl NoServiceTicket
      | Some tk \<Rightarrow>
          (case (ht_ticket tk, ht_sessionKey tk) of
             (Some raw, Some sk) \<Rightarrow>
               rbind (client_etype W (ht_etype tk)) (\<lambda>P.
               let flags = ap_flags opts
               in rbind (gss_step (buildGssChecksum \<lparr>go_flags = flags, go_channelBindings = ao_channelBindings opts,
                    go_delegation = ao_delegation opts, go_extensions = None\<rparr>)) (\<lambda>ck.
                  let subkey = ap_subkey P D opts tk
                  in rbind (ap_authenticator D opts tk ck subkey) (\<lambda>a.
                     rbind (asn1_step (encAuthenticator a)) (\<lambda>ab.
                     rbind (seal P D sk AP_REQ_AUTH ab) (\<lambda>cipher.
                     rbind (asn1_step (encApReq
                       \<lparr>ar_pvno = PVNO, ar_msgType = MSG_AP_REQ, ar_apOptions = (if ao_mutual opts then [2] else []),
                        ar_ticket = raw,
                        ar_authenticator = \<lparr>ed_etype = ht_etype tk, ed_kvno = None, ed_cipher = cipher\<rparr>\<rparr>)) (\<lambda>apReq.
                     rbind (gss_step (encodeInitialContextToken AP_REQ apReq)) (\<lambda>token.
                     Inr \<lparr>aq_apReq = apReq, aq_token = token, aq_sequenceNumber = the (au_seqNumber a), aq_subkey = subkey,
                          aq_ctime = au_ctime a, aq_cusec = au_cusec a, aq_gssFlags = flags\<rparr>)))))))
           | _ \<Rightarrow> Inl NoServiceTicket))"

record ap_reply_options =
  po_reply :: bytes
  po_sessionKey :: bytes
  po_sentCtime :: "js_date option"
  po_sentCusec :: "int option"

text \<open>The last member of every outcome says whether the answer came in a context token.\<close>

datatype ap_outcome =
    ApKrbError krb_error bool
  | NotMutual enc_ap_rep_part bool
  | MutualConfirmed "encryption_key option" "int option" enc_ap_rep_part bool

text \<open>The time is compared to the second, and is never echoed when none was sent; microseconds that were not sent are not
  compared.\<close>

definition time_echoed :: "js_date option \<Rightarrow> js_date \<Rightarrow> bool" where
  "time_echoed sent ct = (case sent of Some (TimeValue t) \<Rightarrow> ct = TimeValue (t div 1000 * 1000) | _ \<Rightarrow> False)"

definition usec_echoed :: "int option \<Rightarrow> int \<Rightarrow> bool" where
  "usec_echoed sent us = (case sent of None \<Rightarrow> True | Some u \<Rightarrow> us = u)"

definition unwrap_ap_reply :: "bytes \<Rightarrow> client_error + (bytes \<times> bool)" where
  "unwrap_ap_reply b =
     (if b \<noteq> [] \<and> b ! 0 = 0x60 then rbind (gss_step (decodeInitialContextToken b)) (\<lambda>w. Inr (ct_inner w, True))
      else Inr (b, False))"

definition confirmApRep :: "webcrypto \<Rightarrow> ap_reply_options \<Rightarrow> client_error + ap_outcome" where
  "confirmApRep W opts =
     rbind (unwrap_ap_reply (po_reply opts)) (\<lambda>(b, wrapped).
     if map_option fst (identify b) = Some APP_KRB_ERROR
     then rbind (asn1_step (readKrbError b)) (\<lambda>e. Inr (ApKrbError e wrapped))
     else
       rbind (asn1_step (readApRep b)) (\<lambda>apRep.
       rbind (client_etype W (ed_etype (ap_encPart apRep))) (\<lambda>P.
       rbind (crypto_step (p_decrypt P (po_sessionKey opts) AP_REP_ENCPART (ed_cipher (ap_encPart apRep)))) (\<lambda>plain.
       rbind (asn1_step (readEncApRepPart plain)) (\<lambda>part.
       if \<not> time_echoed (po_sentCtime opts) (ea_ctime part) \<or> \<not> usec_echoed (po_sentCusec opts) (ea_cusec part)
       then if po_sentCtime opts = Some InvalidDate then Inl BadIsoDate else Inr (NotMutual part wrapped)
       else Inr (MutualConfirmed (ea_subkey part) (ea_seqNumber part) part wrapped))))))"

datatype key_origin = AcceptorSubkey | InitiatorSubkey | TicketSessionKey

record key_context =
  kx_acceptorSubkey :: "encryption_key option"
  kx_subkey :: "encryption_key option"
  kx_sessionKey :: bytes
  kx_etype :: int

definition perMessageKey :: "key_context \<Rightarrow> encryption_key \<times> key_origin" where
  "perMessageKey c =
     (case kx_acceptorSubkey c of
        Some k \<Rightarrow> (k, AcceptorSubkey)
      | None \<Rightarrow> (case kx_subkey c of
          Some k \<Rightarrow> (k, InitiatorSubkey)
        | None \<Rightarrow> (\<lparr>ek_etype = kx_etype c, ek_key = kx_sessionKey c\<rparr>, TicketSessionKey)))"

subsection \<open>Delegation and renewal\<close>

text \<open>The name type in four little-endian bytes, of which an absent type has four zeros, then the texts one after the other.\<close>

definition s4uByteArray :: "principal \<Rightarrow> jstring option \<Rightarrow> jstring option \<Rightarrow> bytes" where
  "s4uByteArray userName userRealm authPackage =
     gss_le32 (nat (or_default (pn_type userName) 0 mod 2 ^ 32)) @ concat (map utf8 (pn_name userName))
       @ utf8 (as_text userRealm) @ utf8 (as_text (first_text authPackage (Some (js_ascii ''Kerberos''))))"

definition forUserChecksum ::
  "webcrypto \<Rightarrow> bytes \<Rightarrow> principal \<Rightarrow> jstring option \<Rightarrow> jstring option \<Rightarrow> client_error + krb_checksum" where
  "forUserChecksum W sessionKey userName userRealm authPackage =
     rbind (client_etype W 23) (\<lambda>arcfour.
     rbind (crypto_step (p_checksum arcfour sessionKey PA_FOR_USER_CKSUM (s4uByteArray userName userRealm authPackage))) (\<lambda>c.
     Inr \<lparr>ck_type = p_checksumType arcfour, ck_checksum = c\<rparr>))"

record s4u_options =
  so_user :: "principal option"
  so_userRealm :: "jstring option"
  so_authPackage :: "jstring option"

text \<open>The options the request itself takes are those of the TGS exchange; a missing session key is an empty one until
  \<open>buildTgsReq\<close> refuses it.\<close>

definition s4u_padata :: "webcrypto \<Rightarrow> s4u_options \<Rightarrow> held_ticket \<Rightarrow> principal \<Rightarrow> client_error + bytes" where
  "s4u_padata W s tgt user =
     (let userRealm = first_text (so_userRealm s) (ht_realm tgt);
          authPackage = first_text (so_authPackage s) (Some (js_ascii ''Kerberos''))
      in rbind (forUserChecksum W (or_default (ht_sessionKey tgt) []) user userRealm authPackage) (\<lambda>ck.
         asn1_step (encPaForUser
           \<lparr>pu_userName = user, pu_userRealm = as_text userRealm, pu_cksum = ck, pu_authPackage = authPackage\<rparr>)))"

definition buildS4u2SelfReq ::
  "webcrypto \<Rightarrow> draws \<Rightarrow> s4u_options \<Rightarrow> tgs_options \<Rightarrow> client_error + (jstring \<times> tgs_request)" where
  "buildS4u2SelfReq W D s opts =
     (case so_user s of
        None \<Rightarrow> Inl NoUser
      | Some user \<Rightarrow>
          (case to_tgt opts of
             None \<Rightarrow> Inl BadPrincipal
           | Some tgt \<Rightarrow>
               rbind (s4u_padata W s tgt user) (\<lambda>forUser.
               rbind (buildTgsReq W D (opts\<lparr>
                 to_sname := (case to_sname opts of Some p \<Rightarrow> Some p | None \<Rightarrow> ht_client tgt),
                 to_kdcOptions := Some (or_default (to_kdcOptions opts) [1, 8]),
                 to_extraPadata := \<lparr>pa_type = PA_FOR_USER, pa_value = forUser\<rparr> # to_extraPadata opts\<rparr>)) (\<lambda>built.
               Inr (principalToString (pn_name user) (first_text (so_userRealm s) (ht_realm tgt)), built)))))"

definition buildS4u2ProxyReq ::
  "webcrypto \<Rightarrow> draws \<Rightarrow> ticket option \<Rightarrow> bool \<Rightarrow> tgs_options \<Rightarrow> client_error + tgs_request" where
  "buildS4u2ProxyReq W D evidenceTicket resourceBased opts =
     (case evidenceTicket of
        None \<Rightarrow> Inl NoEvidence
      | Some ev \<Rightarrow>
          rbind (if resourceBased
                 then rbind (asn1_step (encPaPacOptions [3])) (\<lambda>v. Inr [\<lparr>pa_type = PA_PAC_OPTIONS, pa_value = v\<rparr>])
                 else Inr []) (\<lambda>padata.
          buildTgsReq W D (opts\<lparr>
            to_kdcOptions := Some (or_default (to_kdcOptions opts) [1, 8, 14]),
            to_additionalTickets := Some [ev],
            to_extraPadata := padata @ to_extraPadata opts\<rparr>)))"

definition krbtgt_of :: "held_ticket \<Rightarrow> principal" where
  "krbtgt_of tgt = \<lparr>pn_type = Some NT_SRV_INST, pn_name = [js_ascii ''krbtgt'', as_text (ht_realm tgt)]\<rparr>"

text \<open>Where no name is given the ticket must be there to take its realm from.\<close>

definition to_krbtgt :: "int list \<Rightarrow> tgs_options \<Rightarrow> client_error + tgs_options" where
  "to_krbtgt options opts =
     rbind (case (to_sname opts, to_tgt opts) of
              (Some p, _) \<Rightarrow> Inr p
            | (None, Some tgt) \<Rightarrow> Inr (krbtgt_of tgt)
            | (None, None) \<Rightarrow> Inl BadPrincipal) (\<lambda>sn.
     Inr (opts\<lparr>to_sname := Some sn, to_kdcOptions := Some (or_default (to_kdcOptions opts) options)\<rparr>))"

definition buildRenewReq :: "webcrypto \<Rightarrow> draws \<Rightarrow> tgs_options \<Rightarrow> client_error + tgs_request" where
  "buildRenewReq W D opts = rbind (to_krbtgt [30, 8] opts) (buildTgsReq W D)"

definition buildForwardedTgtReq :: "webcrypto \<Rightarrow> draws \<Rightarrow> tgs_options \<Rightarrow> client_error + tgs_request" where
  "buildForwardedTgtReq W D opts = rbind (to_krbtgt [2, 1] opts) (buildTgsReq W D)"

record cred_options =
  co_forwarded :: "held_ticket option"
  co_key :: encryption_key
  co_now :: "js_date option"
  co_nonce :: "int option"

text \<open>An invalid date is refused by the writer of the time, before the microseconds are written.\<close>

definition cred_part :: "draws \<Rightarrow> cred_options \<Rightarrow> held_ticket \<Rightarrow> bytes \<Rightarrow> enc_krb_cred_part" where
  "cred_part D opts fw sk =
     (let now = or_default (co_now opts) (dr_now D)
      in \<lparr>cp_ticketInfo = [\<lparr>ci_key = \<lparr>ek_etype = ht_etype fw, ek_key = sk\<rparr>, ci_prealm = ht_realm fw, ci_pname = ht_client fw,
             ci_flags = ht_flags fw, ci_authtime = ht_authtime fw, ci_starttime = ht_starttime fw, ci_endtime = ht_endtime fw,
             ci_renewTill = ht_renewTill fw, ci_srealm = first_text (ht_serviceRealm fw) (ht_realm fw),
             ci_sname = ht_service fw, ci_caddr = None\<rparr>],
          cp_nonce = Some (or_default (co_nonce opts) (randomNonce (dr_nonce D))), cp_timestamp = Some now,
          cp_usec = Some (case micros now of Inl _ \<Rightarrow> 0 | Inr us \<Rightarrow> us), cp_sAddress = None, cp_rAddress = None\<rparr>)"

definition wrapDelegatedCredential :: "webcrypto \<Rightarrow> draws \<Rightarrow> cred_options \<Rightarrow> client_error + bytes" where
  "wrapDelegatedCredential W D opts =
     (case co_forwarded opts of
        None \<Rightarrow> Inl NothingForwarded
      | Some fw \<Rightarrow>
          (case (ht_ticket fw, ht_sessionKey fw) of
             (Some tk, Some sk) \<Rightarrow>
               rbind (client_etype W (ek_etype (co_key opts))) (\<lambda>P.
               rbind (asn1_step (encEncKrbCredPart (cred_part D opts fw sk))) (\<lambda>part.
               rbind (seal P D (ek_key (co_key opts)) KRB_CRED_ENCPART part) (\<lambda>cipher.
               asn1_step (encKrbCred \<lparr>cr_pvno = PVNO, cr_msgType = MSG_CRED, cr_tickets = [tk],
                 cr_encPart = \<lparr>ed_etype = ek_etype (co_key opts), ed_kvno = None, ed_cipher = cipher\<rparr>\<rparr>))))
           | _ \<Rightarrow> Inl NothingForwarded))"

record delegated =
  dg_held :: held_ticket
  dg_flagNames :: "string list"
  dg_timestamp :: "js_date option"
  dg_credential :: enc_krb_cred_part

definition held_of_cred :: "ticket \<Rightarrow> krb_cred_info \<Rightarrow> held_ticket" where
  "held_of_cred tk info =
     \<lparr>ht_ticket = Some tk, ht_sessionKey = Some (ek_key (ci_key info)), ht_etype = ek_etype (ci_key info),
      ht_client = ci_pname info, ht_realm = ci_prealm info, ht_service = ci_sname info, ht_serviceRealm = ci_srealm info,
      ht_flags = Some (or_default (ci_flags info) []), ht_authtime = ci_authtime info, ht_starttime = ci_starttime info,
      ht_endtime = ci_endtime info, ht_renewTill = ci_renewTill info\<rparr>"

text \<open>The log line before the return writes the client's name, and so requires one.\<close>

definition readDelegatedCredential :: "webcrypto \<Rightarrow> encryption_key \<Rightarrow> bytes \<Rightarrow> client_error + delegated" where
  "readDelegatedCredential W key b =
     rbind (asn1_step (readKrbCred b)) (\<lambda>cred.
     rbind (client_etype W (ed_etype (cr_encPart cred))) (\<lambda>P.
     if ek_etype key \<noteq> ed_etype (cr_encPart cred) then Inl (OtherCredKey (ed_etype (cr_encPart cred)) (ek_etype key))
     else
       rbind (crypto_step (p_decrypt P (ek_key key) KRB_CRED_ENCPART (ed_cipher (cr_encPart cred)))) (\<lambda>plain.
       rbind (asn1_step (readEncKrbCredPart plain)) (\<lambda>part.
       if length (cp_ticketInfo part) \<noteq> length (cr_tickets cred)
       then Inl (CredCount (length (cr_tickets cred)) (length (cp_ticketInfo part)))
       else
         (let info = cp_ticketInfo part ! 0
          in if ci_pname info = None then Inl BadPrincipal
             else Inr \<lparr>dg_held = held_of_cred (cr_tickets cred ! 0) info,
                       dg_flagNames = ticketFlagNames (or_default (ci_flags info) []),
                       dg_timestamp = cp_timestamp part, dg_credential = part\<rparr>)))))"

end
