(* ===== verification/Krb5_Client_Laws.thy ===== *)
theory Krb5_Client_Laws
  imports Krb5_Client Krb5_Tickets
begin

text \<open>
  What the client's exchanges guarantee: the TGS request as its receiver opens it, which replies are taken and under which
  key, the echo of mutual authentication, and delegated credentials handed over.
\<close>

subsection \<open>Steps and keys\<close>

lemma step_eq_Inr [simp]:
  "asn1_step r = Inr x \<longleftrightarrow> r = Inr x" "crypto_step c = Inr y \<longleftrightarrow> c = Inr y" "gss_step g = Inr z \<longleftrightarrow> g = Inr z"
  by (auto simp: asn1_step_def crypto_step_def gss_step_def split: sum.splits)

lemma step_Inr [simp]: "asn1_step (Inr x) = Inr x" "crypto_step (Inr y) = Inr y" "gss_step (Inr z) = Inr z"
  by (simp_all add: asn1_step_def crypto_step_def gss_step_def)

lemma or_default_simps [simp]: "or_default None d = d" "or_default (Some y) d = y"
  by (simp_all add: or_default_def)

lemma first_text_None [simp]: "first_text None b = b"
  by (simp add: first_text_def)

lemma client_etype_eq: "client_etype W i = Inr P \<longleftrightarrow> 0 \<le> i \<and> etypeById W (nat i) = Inr P"
  by (simp add: client_etype_def)

lemma etype_sealing:
  assumes "client_etype W i = Inr P"
  shows "encryption_profile (p_encrypt P) (p_decrypt P) (usable_key W (nat i)) (\<lambda>c. length c = p_confounderBytes P)"
  using assms etype_profile_roundtrip by (intro encryption_profileI) (auto simp: client_etype_eq)

lemma seal_length:
  assumes "client_etype W i = Inr P" and "usable_key W (nat i) k" and "length c = p_confounderBytes P"
    and "p_encrypt P k u c plain = Inr x"
  shows "length plain \<le> length x"
proof -
  from assms(1) have "etypeById W (nat i) = Inr P" by (simp add: client_etype_eq)
  then show ?thesis
  proof (cases rule: etype_cases)
    case (sha1 n)
    with assms aesSha1_roundtrip [of W k n c u plain] show ?thesis by (auto simp: usable_key_def)
  next
    case (sha2 n h mac)
    with assms aesSha2_roundtrip [of W k n h mac c u plain] show ?thesis by (auto simp: usable_key_def)
  next
    case rc4
    with assms arcfour_roundtrip [of c k u plain] show ?thesis by (auto simp: ARCFOUR_def)
  qed
qed

text \<open>Confounders of the two lengths the encryption types ask for.\<close>

definition confounded :: "draws \<Rightarrow> bool" where
  "confounded D \<longleftrightarrow> length (dr_confounder D 8) = 8 \<and> length (dr_confounder D 16) = 16"

lemma confounder_length: "client_etype W i = Inr P \<Longrightarrow> confounded D \<Longrightarrow> length (dr_confounder D (p_confounderBytes P)) = p_confounderBytes P"
  by (auto simp: client_etype_eq confounded_def ARCFOUR_def elim: etype_cases)

lemma sealed_opens:
  assumes "client_etype W i = Inr P" and "usable_key W (nat i) k" and "confounded D" and "seal P D k u plain = Inr x"
  shows "p_decrypt P k u x = Inr plain" and "length plain \<le> length x"
proof -
  note c = confounder_length [OF assms(1,3)]
  from assms(4) have e: "p_encrypt P k u (dr_confounder D (p_confounderBytes P)) plain = Inr x" by (simp add: seal_def)
  show "p_decrypt P k u x = Inr plain" by (rule encryption_profile.decrypt_encrypt [OF etype_sealing [OF assms(1)] assms(2) c e])
  show "length plain \<le> length x" by (rule seal_length [OF assms(1,2) c e])
qed

subsection \<open>Sizes\<close>

lemma application_fits: "rbind (tagged fs) (encApplication n) = Inr b \<Longrightarrow> (k, Inr (Some c)) \<in> set fs \<Longrightarrow> length c \<le> length b"
  by (rule sublist_length_le [OF application_writes])

lemma cipher_fits: "encEncryptedData d = Inr e \<Longrightarrow> length (ed_cipher d) \<le> length e"
proof -
  assume e: "encEncryptedData d = Inr e"
  then obtain oc where oc: "encOctetString (ed_cipher d) = Inr oc"
    by (cases "encOctetString (ed_cipher d)") (auto simp: encEncryptedData_def tagged_def req_def rbind_eq_Inr)
  then have "length (ed_cipher d) \<le> length oc" by (auto simp: encOctetString_def dest: tlv_segment sublist_length_le)
  moreover have "length oc \<le> length e"
    using e unfolding encEncryptedData_def by (intro sublist_length_le tagged_segment [of _ e 2]) (auto simp: req_def oc)
  ultimately show ?thesis by simp
qed

subsection \<open>Draws\<close>

lemma micros_range: "micros d = Inr us \<Longrightarrow> 0 \<le> us \<and> us < 1000000"
  by (auto simp: micros_def split: js_date.splits)

lemma micros_int48: "micros d = Inr us \<Longrightarrow> int48 us"
  by (auto simp: int48_def dest: micros_range)

lemma randomNonce_int48: "int48 (randomNonce b)"
proof -
  have "be_nat (take 4 b) < 256 ^ length (take 4 b)" by (rule be_nat_less)
  also have "\<dots> \<le> 256 ^ 4" by (rule power_increasing) simp_all
  finally show ?thesis by (simp add: randomNonce_def int48_def)
qed

lemma randomSequenceNumber_range: "b \<noteq> [] \<Longrightarrow> 0 \<le> randomSequenceNumber b \<and> randomSequenceNumber b < 2 ^ 31"
proof -
  let ?a = "unat (b ! 0 AND 0x7f)" and ?p = "(256 :: nat) ^ length (take 3 (drop 1 b))"
  have "?a = unat (b ! 0) mod 128" by (simp add: unat_byte_and_mask)
  then have "(?a + 1) * ?p \<le> 128 * 256 ^ 3"
    by (intro mult_le_mono power_increasing) (simp_all add: Suc_le_eq)
  moreover have "be_nat ((b ! 0 AND 0x7f) # take 3 (drop 1 b)) < (?a + 1) * ?p"
    using be_nat_less [of "take 3 (drop 1 b)"] by (simp only: be_nat_Cons add_mult_distrib mult_1)
  ultimately have "be_nat ((b ! 0 AND 0x7f) # take 3 (drop 1 b)) < 2 ^ 31" by simp
  then show ?thesis by (simp add: randomSequenceNumber_def)
qed

subsection \<open>Delegated credentials\<close>

text \<open>A ticket that can be forwarded, and what the other side holds of it: the ticket as bytes, its times to the second, its
  flags in order and none where there were none, and the client's realm where the service had none of its own.\<close>

definition handed_over :: "held_ticket \<Rightarrow> held_ticket" where
  "handed_over fw = fw\<lparr>ht_ticket := map_option sealed (ht_ticket fw),
     ht_serviceRealm := nonempty (first_text (ht_serviceRealm fw) (ht_realm fw)),
     ht_flags := Some (wire_flags (or_default (ht_flags fw) [])), ht_authtime := map_option whole_second (ht_authtime fw),
     ht_starttime := map_option whole_second (ht_starttime fw), ht_endtime := map_option whole_second (ht_endtime fw),
     ht_renewTill := map_option whole_second (ht_renewTill fw)\<rparr>"

definition forwardable :: "held_ticket \<Rightarrow> bool" where
  "forwardable fw \<longleftrightarrow>
     (case ht_ticket fw of None \<Rightarrow> False | Some tk \<Rightarrow> ticket_ok tk) \<and> ht_sessionKey fw \<noteq> None \<and> int48 (ht_etype fw)
     \<and> pred_option wf_utf16 (ht_realm fw) \<and> ht_realm fw \<noteq> Some []
     \<and> pred_option wf_utf16 (ht_serviceRealm fw) \<and> pred_option principal_ok (ht_client fw) \<and> pred_option principal_ok (ht_service fw)
     \<and> pred_option flags_ok (ht_flags (handed_over fw)) \<and> pred_option time_ok (ht_authtime (handed_over fw))
     \<and> pred_option time_ok (ht_starttime (handed_over fw)) \<and> pred_option time_ok (ht_endtime (handed_over fw))
     \<and> pred_option time_ok (ht_renewTill (handed_over fw))"

lemma handed_over_simps [simp]:
  "ht_ticket (handed_over fw) = map_option sealed (ht_ticket fw)" "ht_sessionKey (handed_over fw) = ht_sessionKey fw"
  "ht_etype (handed_over fw) = ht_etype fw" "ht_client (handed_over fw) = ht_client fw" "ht_realm (handed_over fw) = ht_realm fw"
  by (simp_all add: handed_over_def)

definition cred_options_ok :: "draws \<Rightarrow> cred_options \<Rightarrow> bool" where
  "cred_options_ok D opts \<longleftrightarrow> int48 (ek_etype (co_key opts)) \<and> time_ok (whole_second (or_default (co_now opts) (dr_now D)))
     \<and> pred_option int48 (co_nonce opts)"

lemma first_text_pred: "pred_option P a \<Longrightarrow> pred_option P b \<Longrightarrow> pred_option P (first_text a b)"
  by (auto simp: first_text_def nonempty_def split: option.splits list.splits)

lemma nonempty_pred: "pred_option P x \<Longrightarrow> pred_option P (nonempty x)"
  by (auto simp: nonempty_def split: option.splits list.splits)

lemma wire_flags_Nil [simp]: "wire_flags [] = []"
  by (simp add: wire_flags_def)

definition sent_part :: "draws \<Rightarrow> cred_options \<Rightarrow> held_ticket \<Rightarrow> bytes \<Rightarrow> enc_krb_cred_part" where
  "sent_part D opts fw sk = wire_cred_part (cred_part D opts fw sk)"

lemma sent_part_ok:
  assumes "forwardable fw" and "cred_options_ok D opts"
  shows "enc_krb_cred_part_ok (sent_part D opts fw sk)"
proof -
  have "int48 (or_default (co_nonce opts) (randomNonce (dr_nonce D)))"
    using assms(2) randomNonce_int48 by (cases "co_nonce opts") (simp_all add: cred_options_ok_def)
  moreover have "int48 (case micros d of Inl _ \<Rightarrow> 0 | Inr us \<Rightarrow> us)" for d
    using micros_int48 [of d] by (cases "micros d") (simp_all add: int48_def)
  moreover have "pred_option wf_utf16 (nonempty (first_text (ht_serviceRealm fw) (ht_realm fw)))"
    using assms(1) by (intro nonempty_pred first_text_pred) (simp_all add: forwardable_def)
  moreover have "pred_option wf_utf16 (nonempty (ht_realm fw))"
    using assms(1) by (intro nonempty_pred) (simp add: forwardable_def)
  moreover have "pred_option flags_ok (map_option wire_flags (ht_flags fw))"
    using assms(1) by (cases "ht_flags fw") (simp_all add: forwardable_def handed_over_def)
  ultimately show ?thesis
    using assms
    by (simp add: enc_krb_cred_part_ok_def sent_part_def wire_cred_part_def wire_cred_info_def cred_part_def krb_cred_info_ok_def
        forwardable_def handed_over_def cred_options_ok_def encryption_key_ok_def Let_def)
qed

text \<open>What the acceptor makes of a credential the client wrapped, the client's name being there or not.\<close>

lemma delegated_read:
  assumes "co_forwarded opts = Some fw" and "forwardable fw" and "cred_options_ok D opts" and "confounded D"
    and "usable_key W (nat (ek_etype (co_key opts))) (ek_key (co_key opts))"
    and w: "wrapDelegatedCredential W D opts = Inr b" and "length b \<le> MAX_INPUT_BYTES"
  obtains d where "readDelegatedCredential W (co_key opts) b = (if ht_client fw = None then Inl BadPrincipal else Inr d)"
    and "dg_held d = handed_over fw" and "dg_timestamp d = Some (whole_second (or_default (co_now opts) (dr_now D)))"
proof -
  from assms(2) obtain tk sk where tk: "ht_ticket fw = Some tk" "ticket_ok tk" "ht_sessionKey fw = Some sk"
    by (auto simp: forwardable_def split: option.splits)
  have kept: "nonempty (ht_realm fw) = ht_realm fw"
    using assms(2) by (auto simp: forwardable_def nonempty_def split: option.splits list.splits)
  have flags: "or_default (map_option wire_flags fl) [] = wire_flags (or_default fl [])" for fl by (cases fl) simp_all
  let ?et = "ek_etype (co_key opts)" and ?k = "ek_key (co_key opts)"
  from w obtain P part x where P: "client_etype W ?et = Inr P"
    and part: "encEncKrbCredPart (cred_part D opts fw sk) = Inr part"
    and x: "seal P D ?k KRB_CRED_ENCPART part = Inr x"
    and b: "encKrbCred \<lparr>cr_pvno = PVNO, cr_msgType = MSG_CRED, cr_tickets = [tk],
      cr_encPart = \<lparr>ed_etype = ?et, ed_kvno = None, ed_cipher = x\<rparr>\<rparr> = Inr b"
    by (auto simp: wrapDelegatedCredential_def assms(1) tk rbind_eq_Inr)
  note opens = sealed_opens [OF P assms(5,4) x]
  obtain ed where ed: "encEncryptedData \<lparr>ed_etype = ?et, ed_kvno = None, ed_cipher = x\<rparr> = Inr ed"
    using b by (cases "encEncryptedData \<lparr>ed_etype = ?et, ed_kvno = None, ed_cipher = x\<rparr>") (auto simp: encKrbCred_def tagged_def req_def rbind_eq_Inr)
  have "length ed \<le> length b" using b unfolding encKrbCred_def by (rule application_fits [where k = 3]) (simp add: req_def ed)
  with cipher_fits [OF ed] opens(2) assms(7) have small: "length part \<le> MAX_INPUT_BYTES" by simp
  have cred: "readKrbCred b = Inr \<lparr>cr_pvno = PVNO, cr_msgType = MSG_CRED, cr_tickets = [sealed tk],
      cr_encPart = \<lparr>ed_etype = ?et, ed_kvno = None, ed_cipher = x\<rparr>\<rparr>"
    using krb_cred_readback [OF _ b assms(7)] tk assms(3) by (simp add: krb_cred_ok_def encrypted_data_ok_def cred_options_ok_def)
  have inner: "readEncKrbCredPart part = Inr (sent_part D opts fw sk)"
    using wire_cred_part_read [OF sent_part_ok [OF assms(2,3), unfolded sent_part_def] part small] by (simp add: sent_part_def)
  show ?thesis
    by (rule that [of "\<lparr>dg_held = handed_over fw, dg_flagNames = ticketFlagNames (wire_flags (or_default (ht_flags fw) [])),
        dg_timestamp = Some (whole_second (or_default (co_now opts) (dr_now D))), dg_credential = sent_part D opts fw sk\<rparr>"])
      (simp_all add: readDelegatedCredential_def cred P opens(1) inner, simp_all add: sent_part_def wire_cred_part_def wire_cred_info_def cred_part_def Let_def
        handed_over_def held_of_cred_def tk kept flags)
qed

lemma encTicket_sealed: "ticket_ok tk \<Longrightarrow> encTicket (sealed tk) = encTicket tk"
  by (auto simp: ticket_ok_def sealed_def encTicket_def small_def split: option.splits sum.splits)

lemma request_from_handed_over:
  assumes "forwardable fw"
  shows "buildTgsReq W D (opts\<lparr>to_tgt := Some (handed_over fw)\<rparr>) = buildTgsReq W D (opts\<lparr>to_tgt := Some fw\<rparr>)"
proof -
  from assms obtain tk where tk: "ht_ticket fw = Some tk" "ticket_ok tk" by (auto simp: forwardable_def split: option.splits)
  let ?h = "opts\<lparr>to_tgt := Some (handed_over fw)\<rparr>" and ?o = "opts\<lparr>to_tgt := Some fw\<rparr>"
  have "tgs_body D ?h (handed_over fw) = tgs_body D ?o fw"
    by (simp add: tgs_body_def)
  moreover have "tgs_authenticator P D ?h (handed_over fw) = tgs_authenticator P D ?o fw" for P
    by (rule ext) (simp add: tgs_authenticator_def split: option.split)
  moreover have "tgs_padata (handed_over fw) (sealed tk) = tgs_padata fw tk"
    by (rule ext) (simp add: tgs_padata_def encApReq_def encTicket_sealed [OF tk(2)])
  ultimately show ?thesis
    by (simp add: buildTgsReq_def tk split: option.split)
qed

end
