(* ===== verification/Krb5_Client_Tgs.thy ===== *)
theory Krb5_Client_Tgs
  imports Krb5_Client_Laws
begin

text \<open>
  The TGS exchange from both ends: what the ticket-granting service reads in a request that was built, and what the client
  makes of the answer.  The rules on how long an encoding gets let the samples be built without evaluating a cipher.
\<close>

subsection \<open>How long an encoding gets\<close>

text \<open>A value is written in at most so many bytes.\<close>

definition within :: "nat \<Rightarrow> asn1_error + bytes \<Rightarrow> bool" where
  "within n v \<longleftrightarrow> (\<exists>b. v = Inr b \<and> length b \<le> n)"

definition field_within :: "nat \<Rightarrow> asn1_error + bytes option \<Rightarrow> bool" where
  "field_within n v \<longleftrightarrow> (\<exists>b. v = Inr b \<and> (case b of None \<Rightarrow> True | Some c \<Rightarrow> length c \<le> n))"

named_theorems size_intros \<open>how long an encoding gets\<close>

lemma within_fits: "fits v \<Longrightarrow> within 500 v"
  by (auto simp: within_def fits_def split: sum.splits)

lemma within_tlv: "length v \<le> n \<Longrightarrow> n < 2 ^ 32 \<Longrightarrow> within (n + 6) (tlv tg v)"
proof -
  assume n: "length v \<le> n" "n < 2 ^ 32"
  then have ok: "length v < 2 ^ 32" by simp
  obtain len where len: "encodeLength (length v) = Inr len" using encodeLength_error [of "length v"] ok by (cases "encodeLength (length v)") auto
  then have "length len \<le> 5" by (auto simp: encodeLength_def Let_def split: if_splits)
  with len n show ?thesis by (simp add: within_def tlv_def)
qed

lemma within_octets [size_intros]: "length v \<le> n \<Longrightarrow> n < 2 ^ 32 \<Longrightarrow> within (n + 6) (encOctetString v)"
  unfolding encOctetString_def by (rule within_tlv)

lemma field_req [size_intros]: "within n v \<Longrightarrow> field_within n (req v)"
  by (auto simp: within_def field_within_def req_def)

lemma field_none [size_intros]: "field_within 0 (opt enc None)"
  by (simp add: field_within_def)

lemma field_opt [size_intros]: "within n (enc x) \<Longrightarrow> field_within n (opt enc (Some x))"
  by (auto simp: within_def field_within_def req_def)

definition fields_within :: "nat list \<Rightarrow> (nat \<times> (asn1_error + bytes option)) list \<Rightarrow> bool" where
  "fields_within ns fs \<longleftrightarrow> list_all2 (\<lambda>n (k, v). k \<le> 30 \<and> field_within n v) ns fs"

lemma fields_Nil [size_intros]: "fields_within [] []"
  by (simp add: fields_within_def)

lemma fields_Cons [size_intros]: "field_within n v \<Longrightarrow> fields_within ns fs \<Longrightarrow> k \<le> 30 \<Longrightarrow> fields_within (n # ns) ((k, v) # fs)"
  by (simp add: fields_within_def)

lemma parts_within:
  assumes "fields_within ns fs" and "\<forall>n\<in>set ns. n < 2 ^ 32"
  shows "\<exists>ps parts. rmap (\<lambda>(n, v). rbind v (\<lambda>b. Inr (Some (int n, b)))) fs = Inr ps \<and> encTaggedSequence_parts ps = Inr parts
    \<and> length (concat parts) \<le> sum_list (map (\<lambda>n. n + 6) ns)"
  using assms unfolding fields_within_def
proof (induction rule: list_all2_induct)
  case Nil
  then show ?case by simp
next
  case (Cons n ns f fs)
  obtain k v where f: "f = (k, v)" by (cases f)
  with Cons.hyps obtain b where b: "k \<le> 30" "v = Inr b" "case b of None \<Rightarrow> True | Some c \<Rightarrow> length c \<le> n"
    by (auto simp: field_within_def)
  from Cons.IH Cons.prems obtain ps parts where ps: "rmap (\<lambda>(n, v). rbind v (\<lambda>b. Inr (Some (int n, b)))) fs = Inr ps"
    "encTaggedSequence_parts ps = Inr parts" "length (concat parts) \<le> sum_list (map (\<lambda>n. n + 6) ns)" by auto
  show ?case
  proof (cases b)
    case None
    with ps b show ?thesis by (auto simp: f)
  next
    case (Some c)
    with b Cons.prems have "within (n + 6) (encContext (int k) c)"
      using within_tlv [of c n "0xa0 OR byte_of k"] by (simp add: encContext_def contextTag_def)
    then obtain p where "encContext (int k) c = Inr p" "length p \<le> n + 6" by (auto simp: within_def)
    with ps b Some show ?thesis by (auto simp: f)
  qed
qed

lemma within_tagged [size_intros]:
  assumes "fields_within ns fs" and "sum_list (map (\<lambda>n. n + 6) ns) = m" and "m < 2 ^ 32"
  shows "within (m + 6) (tagged fs)"
proof -
  have "\<forall>n\<in>set ns. n < 2 ^ 32"
  proof
    fix n assume "n \<in> set ns"
    then have "n + 6 \<le> sum_list (map (\<lambda>n. n + 6) ns)" by (intro member_le_sum_list) auto
    with assms show "n < 2 ^ 32" by simp
  qed
  from parts_within [OF assms(1) this] obtain ps parts where
    "rmap (\<lambda>(n, v). rbind v (\<lambda>b. Inr (Some (int n, b)))) fs = Inr ps" "encTaggedSequence_parts ps = Inr parts"
    "length (concat parts) \<le> m" using assms(2) by auto
  with within_tlv [of "concat parts" m TAG_SEQUENCE] assms(3) show ?thesis
    by (simp add: tagged_def encTaggedSequence_def encSequence_def)
qed

lemma within_application [size_intros]:
  "within n v \<Longrightarrow> n < 2 ^ 32 \<Longrightarrow> k \<le> 30 \<Longrightarrow> within (n + 6) (rbind v (encApplication (int k)))"
proof -
  assume "within n v" and n: "n < 2 ^ 32" "k \<le> 30"
  then obtain b where "v = Inr b" "length b \<le> n" by (auto simp: within_def)
  with within_tlv [of b n "0x60 OR byte_of k"] n show ?thesis by (simp add: encApplication_def applicationTag_def)
qed

definition items_within :: "nat list \<Rightarrow> ('a \<Rightarrow> asn1_error + bytes) \<Rightarrow> 'a list \<Rightarrow> bool" where
  "items_within ns enc xs \<longleftrightarrow> list_all2 (\<lambda>n x. within n (enc x)) ns xs"

lemma items_Nil [size_intros]: "items_within [] enc []"
  by (simp add: items_within_def)

lemma items_Cons [size_intros]: "within n (enc x) \<Longrightarrow> items_within ns enc xs \<Longrightarrow> items_within (n # ns) enc (x # xs)"
  by (simp add: items_within_def)

lemma within_sequence [size_intros]:
  assumes "items_within ns enc xs" and "sum_list ns = m" and "m < 2 ^ 32"
  shows "within (m + 6) (encSeqOf enc xs)"
proof -
  have "\<exists>es. rmap enc xs = Inr es \<and> length (concat es) \<le> sum_list ns"
    using assms(1) unfolding items_within_def by (induction rule: list_all2_induct) (auto simp: within_def)
  then obtain es where "rmap enc xs = Inr es" "length (concat es) \<le> m" using assms(2) by auto
  with within_tlv [of "concat es" m TAG_SEQUENCE] assms(3) show ?thesis by (simp add: encSeqOf_def encSequence_def)
qed

subsection \<open>Sizes inside a request\<close>

lemma rmap_member: "rmap f xs = Inr ys \<Longrightarrow> x \<in> set xs \<Longrightarrow> \<exists>y. f x = Inr y \<and> y \<in> set ys"
  by (induction xs arbitrary: ys) (auto simp: rbind_eq_Inr)

lemma seq_of_fits: "encSeqOf enc xs = Inr e \<Longrightarrow> x \<in> set xs \<Longrightarrow> enc x = Inr b \<Longrightarrow> length b \<le> length e"
proof -
  assume e: "encSeqOf enc xs = Inr e" and x: "x \<in> set xs" and b: "enc x = Inr b"
  then obtain es where es: "rmap enc xs = Inr es" "tlv TAG_SEQUENCE (concat es) = Inr e" by (auto simp: encSeqOf_def encSequence_def rbind_eq_Inr)
  from rmap_member [OF es(1) x] b have "b \<in> set es" by auto
  with tlv_segment [OF es(2)] sublist_concat [of b es] show ?thesis by (meson sublist_length_le sublist_order.order_trans)
qed

lemma pa_data_fits: "encPaData pa = Inr e \<Longrightarrow> length (pa_value pa) \<le> length e"
proof -
  assume e: "encPaData pa = Inr e"
  then obtain oc where oc: "encOctetString (pa_value pa) = Inr oc"
    by (cases "encOctetString (pa_value pa)") (auto simp: encPaData_def tagged_def req_def rbind_eq_Inr)
  then have "length (pa_value pa) \<le> length oc" by (auto simp: encOctetString_def dest: tlv_segment sublist_length_le)
  moreover have "length oc \<le> length e"
    using e unfolding encPaData_def by (intro sublist_length_le tagged_segment [of _ e 2]) (auto simp: req_def oc)
  ultimately show ?thesis by simp
qed

lemma request_pa_fits:
  assumes "encKdcReq x = Inr b" and "pa \<in> set (rq_padata x)"
  shows "length (pa_value pa) \<le> length b"
proof -
  from assms(2) obtain p ps where ne: "rq_padata x = p # ps" by (cases "rq_padata x") auto
  obtain s where s: "encSeqOf encPaData (rq_padata x) = Inr s"
    using assms(1) by (cases "encSeqOf encPaData (rq_padata x)") (auto simp: encKdcReq_def tagged_def req_def ne rbind_eq_Inr)
  have "length s \<le> length b" using assms(1) s unfolding encKdcReq_def
    by (intro application_fits [where k = 3]) (auto simp: req_def ne)
  moreover obtain e where e: "encPaData pa = Inr e"
    using s rmap_member [of encPaData "rq_padata x" _ pa] assms(2) by (auto simp: encSeqOf_def rbind_eq_Inr)
  ultimately show ?thesis using seq_of_fits [OF s assms(2) e] pa_data_fits [OF e] by simp
qed

subsection \<open>The request to the ticket-granting service\<close>

lemma raw_body_same:
  assumes "rb_raw b = None" and "encKdcReqBody b = Inr r"
  shows "encKdcReq (x\<lparr>rq_reqBody := b\<lparr>rb_raw := Some r\<rparr>\<rparr>) = encKdcReq (x\<lparr>rq_reqBody := b\<rparr>)"
  by (simp add: encKdcReq_def encReqBodyField_def assms)

definition tgs_ok :: "draws \<Rightarrow> tgs_options \<Rightarrow> held_ticket \<Rightarrow> bool" where
  "tgs_ok D opts tgt \<longleftrightarrow>
     body_fields_ok (wire_body (tgs_body D opts tgt)) \<and> list_all pa_data_ok (to_extraPadata opts)
     \<and> pred_option ticket_ok (ht_ticket tgt) \<and> pred_option principal_ok (ht_client tgt) \<and> wf_utf16 (as_text (ht_realm tgt))
     \<and> int48 (ht_etype tgt) \<and> pred_option encryption_key_ok (to_subkey opts) \<and> pred_option int48 (to_sequenceNumber opts)
     \<and> dr_sequence D \<noteq> [] \<and> time_ok (whole_second (or_default (to_now opts) (dr_now D)))"

lemma checksumType_int48: "client_etype W i = Inr P \<Longrightarrow> int48 (p_checksumType P)"
  by (auto simp: client_etype_eq etypeById_def ETYPES_def aesSha1Profile_def aesSha2Profile_def ARCFOUR_def int48_def split: option.splits if_splits)

lemma sequence_int48: "pred_option int48 n \<Longrightarrow> b \<noteq> [] \<Longrightarrow> int48 (or_default n (randomSequenceNumber b))"
  using randomSequenceNumber_range [of b] by (cases n) (simp_all add: int48_def)

lemma authenticator_time: "encAuthenticator (a\<lparr>au_ctime := whole_second (au_ctime a)\<rparr>) = encAuthenticator a"
  by (simp add: encAuthenticator_def encKerberosTime_whole)

text \<open>The parts of a request that was built.\<close>

lemma tgs_request_parts:
  assumes "buildTgsReq W D opts = Inr r" and "to_tgt opts = Some tgt" and "ht_ticket tgt = Some tk" and "ht_sessionKey tgt = Some sk"
  obtains P ck a ab x ap where "client_etype W (ht_etype tgt) = Inr P"
    and "encKdcReqBody (tgs_body D opts tgt) = Inr (tr_body r)"
    and "p_checksum P sk TGS_REQ_AUTH_CKSUM (tr_body r) = Inr ck"
    and "tgs_authenticator P D opts tgt ck = Inr a" and "encAuthenticator a = Inr ab"
    and "seal P D sk TGS_REQ_AUTH ab = Inr x"
    and "encApReq \<lparr>ar_pvno = PVNO, ar_msgType = MSG_AP_REQ, ar_apOptions = [], ar_ticket = tk,
       ar_authenticator = \<lparr>ed_etype = ht_etype tgt, ed_kvno = None, ed_cipher = x\<rparr>\<rparr> = Inr ap"
    and "encKdcReq \<lparr>rq_pvno = PVNO, rq_msgType = MSG_TGS_REQ,
       rq_padata = \<lparr>pa_type = PA_TGS_REQ, pa_value = ap\<rparr> # to_extraPadata opts, rq_reqBody = tgs_body D opts tgt\<rparr> = Inr (tr_request r)"
proof -
  from assms obtain P body ck a ab x ap req where P: "client_etype W (ht_etype tgt) = Inr P"
    and body: "encKdcReqBody (tgs_body D opts tgt) = Inr body"
    and rest: "p_checksum P sk TGS_REQ_AUTH_CKSUM body = Inr ck" "tgs_authenticator P D opts tgt ck = Inr a"
      "encAuthenticator a = Inr ab" "seal P D sk TGS_REQ_AUTH ab = Inr x"
    and ap: "tgs_padata tgt tk x = Inr ap"
    and req: "encKdcReq \<lparr>rq_pvno = PVNO, rq_msgType = MSG_TGS_REQ,
       rq_padata = \<lparr>pa_type = PA_TGS_REQ, pa_value = ap\<rparr> # to_extraPadata opts,
       rq_reqBody = (tgs_body D opts tgt)\<lparr>rb_raw := Some body\<rparr>\<rparr> = Inr req"
    and r: "tr_request r = req" "tr_body r = body"
    by (auto simp: buildTgsReq_def rbind_eq_Inr)
  have "rb_raw (tgs_body D opts tgt) = None" by (simp add: tgs_body_def)
  from raw_body_same [OF this body, of "\<lparr>rq_pvno = PVNO, rq_msgType = MSG_TGS_REQ,
       rq_padata = \<lparr>pa_type = PA_TGS_REQ, pa_value = ap\<rparr> # to_extraPadata opts, rq_reqBody = tgs_body D opts tgt\<rparr>"] req
  have "encKdcReq \<lparr>rq_pvno = PVNO, rq_msgType = MSG_TGS_REQ,
       rq_padata = \<lparr>pa_type = PA_TGS_REQ, pa_value = ap\<rparr> # to_extraPadata opts, rq_reqBody = tgs_body D opts tgt\<rparr> = Inr req"
    by simp
  with that [of P ck a ab x ap] P body rest ap show ?thesis by (simp add: r tgs_padata_def)
qed

lemma pa_types_int48: "int48 PA_TGS_REQ" "int48 PA_FOR_USER" "int48 PA_PAC_OPTIONS"
  by (simp_all add: int48_def PA_TGS_REQ_def PA_FOR_USER_def PA_PAC_OPTIONS_def)

text \<open>What the ticket-granting service reads: the body it was sent, as bytes too, the extra padata, and in front of them an
  AP-REQ with the ticket, whose authenticator opens under the session key.\<close>

lemma tgs_request_reads:
  assumes "buildTgsReq W D opts = Inr r" and "to_tgt opts = Some tgt" and "ht_ticket tgt = Some tk" and "ht_sessionKey tgt = Some sk"
    and ok: "tgs_ok D opts tgt" and "confounded D" and "usable_key W (nat (ht_etype tgt)) sk"
    and "length (tr_request r) \<le> MAX_INPUT_BYTES"
  obtains P ap apReq ab ck au where "client_etype W (ht_etype tgt) = Inr P"
    and "readKdcReq (tr_request r) = Inr \<lparr>rq_pvno = PVNO, rq_msgType = MSG_TGS_REQ,
       rq_padata = \<lparr>pa_type = PA_TGS_REQ, pa_value = ap\<rparr> # to_extraPadata opts,
       rq_reqBody = sealed_body (wire_body (tgs_body D opts tgt))\<rparr>"
    and "rb_raw (sealed_body (wire_body (tgs_body D opts tgt))) = Some (tr_body r)"
    and "readApReq ap = Inr apReq" and "ar_ticket apReq = sealed tk"
    and "p_decrypt P sk TGS_REQ_AUTH (ed_cipher (ar_authenticator apReq)) = Inr ab" and "readAuthenticator ab = Inr au"
    and "au_cksum au = Some \<lparr>ck_type = p_checksumType P, ck_checksum = ck\<rparr>"
    and "p_checksum P sk TGS_REQ_AUTH_CKSUM (tr_body r) = Inr ck"
    and "au_subkey au = to_subkey opts" and "Some (au_cname au) = ht_client tgt"
proof -
  from tgs_request_parts [OF assms(1-4)] obtain P ck a ab x ap where P: "client_etype W (ht_etype tgt) = Inr P"
    and body: "encKdcReqBody (tgs_body D opts tgt) = Inr (tr_body r)" and ck: "p_checksum P sk TGS_REQ_AUTH_CKSUM (tr_body r) = Inr ck"
    and a: "tgs_authenticator P D opts tgt ck = Inr a" and ab: "encAuthenticator a = Inr ab" and x: "seal P D sk TGS_REQ_AUTH ab = Inr x"
    and ap: "encApReq \<lparr>ar_pvno = PVNO, ar_msgType = MSG_AP_REQ, ar_apOptions = [], ar_ticket = tk,
       ar_authenticator = \<lparr>ed_etype = ht_etype tgt, ed_kvno = None, ed_cipher = x\<rparr>\<rparr> = Inr ap"
    and req: "encKdcReq \<lparr>rq_pvno = PVNO, rq_msgType = MSG_TGS_REQ,
       rq_padata = \<lparr>pa_type = PA_TGS_REQ, pa_value = ap\<rparr> # to_extraPadata opts, rq_reqBody = tgs_body D opts tgt\<rparr> = Inr (tr_request r)" .
  note opens = sealed_opens [OF P assms(7,6) x]
  have raw: "rb_raw (tgs_body D opts tgt) = None" by (simp add: tgs_body_def)
  have apl: "length ap \<le> MAX_INPUT_BYTES" using request_pa_fits [OF req, of "\<lparr>pa_type = PA_TGS_REQ, pa_value = ap\<rparr>"] assms(8) by simp
  obtain ed where ed: "encEncryptedData \<lparr>ed_etype = ht_etype tgt, ed_kvno = None, ed_cipher = x\<rparr> = Inr ed"
    using ap by (cases "encEncryptedData \<lparr>ed_etype = ht_etype tgt, ed_kvno = None, ed_cipher = x\<rparr>") (auto simp: encApReq_def tagged_def req_def rbind_eq_Inr)
  have "length ed \<le> length ap" using ap unfolding encApReq_def by (rule application_fits [where k = 4]) (simp add: req_def ed)
  with cipher_fits [OF ed] opens(2) apl have abl: "length ab \<le> MAX_INPUT_BYTES" by simp
  let ?au = "a\<lparr>au_ctime := whole_second (au_ctime a)\<rparr>"
  have au: "authenticator_ok ?au \<and> au_cksum a = Some \<lparr>ck_type = p_checksumType P, ck_checksum = ck\<rparr>
      \<and> au_subkey a = to_subkey opts \<and> Some (au_cname a) = ht_client tgt"
    using a ok checksumType_int48 [OF P] sequence_int48 [of "to_sequenceNumber opts" "dr_sequence D"] micros_int48
    by (auto simp: tgs_authenticator_def tgs_ok_def authenticator_ok_def checksum_ok_def Let_def rbind_eq_Inr split: option.splits)
  have "readAuthenticator ab = Inr ?au"
    using authenticator_readback [OF conjunct1 [OF au] _ abl] ab by (simp add: authenticator_time)
  moreover have "readApReq ap = Inr \<lparr>ar_pvno = PVNO, ar_msgType = MSG_AP_REQ, ar_apOptions = [], ar_ticket = sealed tk,
       ar_authenticator = \<lparr>ed_etype = ht_etype tgt, ed_kvno = None, ed_cipher = x\<rparr>\<rparr>"
    using ap_req_readback [OF _ ap apl] ok assms(3) by (simp add: ap_req_ok_def tgs_ok_def encrypted_data_ok_def flags_ok_def)
  moreover have "readKdcReq (tr_request r) = Inr \<lparr>rq_pvno = PVNO, rq_msgType = MSG_TGS_REQ,
       rq_padata = \<lparr>pa_type = PA_TGS_REQ, pa_value = ap\<rparr> # to_extraPadata opts,
       rq_reqBody = sealed_body (wire_body (tgs_body D opts tgt))\<rparr>"
    using wire_request_read [OF _ req assms(8)] ok wire_body_built [OF raw]
    by (simp add: kdc_req_ok_def wire_request_def tgs_ok_def body_ok_def pa_data_ok_def pa_types_int48)
  moreover have "rb_raw (sealed_body (wire_body (tgs_body D opts tgt))) = Some (tr_body r)"
    using encReqBodyField_wire [of "tgs_body D opts tgt"] ok wire_body_built [OF raw] raw body
    by (simp add: sealed_body_def tgs_ok_def body_ok_def) (simp add: encReqBodyField_def)
  ultimately show ?thesis using that P opens(1) au ck by simp
qed

subsection \<open>Samples\<close>

definition sample_draws :: draws where
  "sample_draws = \<lparr>dr_nonce = [0, 0, 0, 7], dr_sequence = [128, 0, 0, 7], dr_subkey = (\<lambda>n. replicate n 9),
     dr_confounder = (\<lambda>n. replicate n 0), dr_now = TimeValue 1709210096001, dr_tenHours = TimeValue 1709246096789\<rparr>"

definition sample_tgt :: held_ticket where
  "sample_tgt = \<lparr>ht_ticket = Some sample_ticket, ht_sessionKey = Some (replicate 16 5), ht_etype = 19,
     ht_client = Some \<lparr>pn_type = Some 1, pn_name = [name_k]\<rparr>, ht_realm = Some name_R,
     ht_service = Some \<lparr>pn_type = Some 2, pn_name = [name_k, name_R]\<rparr>, ht_serviceRealm = None, ht_flags = None,
     ht_authtime = Some (TimeValue 1709210096000), ht_starttime = None, ht_endtime = None, ht_renewTill = None\<rparr>"

definition sample_tgs_options :: tgs_options where
  "sample_tgs_options = \<lparr>to_tgt = Some sample_tgt, to_realm = None, to_nonce = None, to_subkey = None, to_kdcOptions = None,
     to_sname = Some \<lparr>pn_type = Some 3, pn_name = [name_k]\<rparr>, to_till = None, to_etypes = None, to_addresses = None,
     to_additionalTickets = None, to_encAuthorizationData = None, to_now = None, to_sequenceNumber = None, to_extraPadata = []\<rparr>"

definition sample_profile :: profile where
  "sample_profile = aesSha2Profile sample_webcrypto 19 ''aes128-cts-hmac-sha256-128'' 16 SHA256 16"

lemma sample_profile: "client_etype sample_webcrypto 19 = Inr sample_profile"
  by (simp add: client_etype_def etypeById_def ETYPES_def sample_profile_def)

lemma sample_checksum: "k \<noteq> [] \<Longrightarrow> p_checksum sample_profile k u m = Inr (zeros 16)"
  by (simp add: sample_profile_def aesSha2Profile_def aesSha2_checksum_def aesSha2_checksumKey_def kdfHmacSha2_def hmac_def
      lift_option_def sample_webcrypto_def sha_bytes_def zeros_def)

lemma sample_usable: "k \<noteq> [] \<Longrightarrow> usable_key sample_webcrypto 19 k" "confounded sample_draws"
  by (simp_all add: usable_key_def sample_webcrypto_ok confounded_def sample_draws_def)

lemma sample_seal:
  "k \<noteq> [] \<Longrightarrow> \<exists>x. seal sample_profile sample_draws k u plain = Inr x \<and> length x = length plain + 32 \<and> p_decrypt sample_profile k u x = Inr plain"
  using aesSha2_roundtrip [OF sample_webcrypto_ok, of k 16 SHA256 16 "replicate 16 0" u plain 19]
  by (auto simp: seal_def sample_profile_def aesSha2Profile_def sample_draws_def)

lemma sample_sequence: "randomSequenceNumber (dr_sequence sample_draws) = 7"
  by (simp add: randomSequenceNumber_def sample_draws_def be_nat_def)

definition sample_authenticator :: "krb_checksum \<Rightarrow> js_date \<Rightarrow> encryption_key option \<Rightarrow> authenticator" where
  "sample_authenticator ck t sk = \<lparr>au_vno = PVNO, au_crealm = name_R, au_cname = \<lparr>pn_type = Some 1, pn_name = [name_k]\<rparr>,
     au_cksum = Some ck, au_cusec = 1000, au_ctime = t, au_subkey = sk, au_seqNumber = Some 7, au_authorizationData = None\<rparr>"

definition sample_tgs_body :: kdc_req_body where
  "sample_tgs_body = \<lparr>rb_kdcOptions = [1, 8], rb_cname = None, rb_realm = name_R,
     rb_sname = Some \<lparr>pn_type = Some 3, pn_name = [name_k]\<rparr>, rb_from = None, rb_till = TimeValue 1709246096789, rb_rtime = None,
     rb_nonce = 7, rb_etypes = [19], rb_addresses = None, rb_encAuthorizationData = None, rb_additionalTickets = None, rb_raw = None\<rparr>"

lemma sample_tgs_body: "tgs_body sample_draws sample_tgs_options sample_tgt = sample_tgs_body"
  by (simp add: tgs_body_def sample_tgs_options_def sample_draws_def sample_tgt_def as_text_def randomNonce_def be_nat_def name_R_def
      sample_tgs_body_def)

lemma sample_small:
  "fits (encKdcReqBody sample_tgs_body)" "fits (encTicket sample_ticket)"
  "fits (encAuthenticator (sample_authenticator \<lparr>ck_type = 19, ck_checksum = zeros 16\<rparr> (TimeValue 1709210096001) None))"
  "fits (encInt PVNO)" "fits (encInt MSG_AP_REQ)" "fits (encInt MSG_TGS_REQ)" "fits (encInt 19)" "fits (encInt PA_TGS_REQ)"
  "fits (encFlags [])"
  by code_simp+

lemmas sample_within = sample_small [THEN within_fits]

lemma sample_selects:
  "to_tgt sample_tgs_options = Some sample_tgt" "to_subkey sample_tgs_options = None" "to_extraPadata sample_tgs_options = []"
  "to_sname sample_tgs_options = Some \<lparr>pn_type = Some 3, pn_name = [name_k]\<rparr>"
  "ht_ticket sample_tgt = Some sample_ticket" "ht_sessionKey sample_tgt = Some (replicate 16 5)" "ht_etype sample_tgt = 19"
  by (simp_all add: sample_tgs_options_def sample_tgt_def)

lemma sample_au: "tgs_authenticator sample_profile sample_draws sample_tgs_options sample_tgt (zeros 16) =
  Inr (sample_authenticator \<lparr>ck_type = 19, ck_checksum = zeros 16\<rparr> (TimeValue 1709210096001) None)"
proof -
  have "p_checksumType sample_profile = 19" by (simp add: sample_profile_def aesSha2Profile_def)
  moreover have "micros (dr_now sample_draws) = Inr 1000" "dr_now sample_draws = TimeValue 1709210096001"
    by (simp_all add: micros_def sample_draws_def)
  ultimately show ?thesis
    by (simp add: tgs_authenticator_def sample_tgt_def sample_tgs_options_def sample_authenticator_def sample_sequence as_text_def)
qed

lemma sample_tgs_ok: "tgs_ok sample_draws sample_tgs_options sample_tgt"
proof -
  have "time_ok (TimeValue 1709210096000)" "whole_second (TimeValue 1709210096001) = TimeValue 1709210096000"
    "whole_second (TimeValue 1709246096789) = TimeValue 1709246096000"
    by (simp_all add: sample_checks whole_second_def)
  moreover have "flags_ok (wire_flags [1, 8])" by (simp add: flags_ok_def wire_flags_def)
  ultimately show ?thesis
    by (simp add: tgs_ok_def sample_tgs_body body_fields_ok_def, simp add: wire_body_def sample_tgs_body_def sample_tgs_options_def sample_tgt_def
        sample_draws_def sample_ticket_ok as_text_def sample_checks)
qed

lemma extra_aside:
  "tgs_body D (opts\<lparr>to_extraPadata := extra\<rparr>) tgt = tgs_body D opts tgt"
  "tgs_authenticator P D (opts\<lparr>to_extraPadata := extra\<rparr>) tgt = tgs_authenticator P D opts tgt"
  by (simp add: tgs_body_def) (rule ext, simp add: tgs_authenticator_def split: option.split)

text \<open>The sample request, with padata of the caller's after the AP-REQ.\<close>

lemma sample_request_with:
  assumes extra: "items_within ns encPaData extra" "sum_list ns \<le> 5000"
  obtains r where "buildTgsReq sample_webcrypto sample_draws (sample_tgs_options\<lparr>to_extraPadata := extra\<rparr>) = Inr r"
    and "length (tr_request r) \<le> MAX_INPUT_BYTES"
proof -
  define au where "au = sample_authenticator \<lparr>ck_type = 19, ck_checksum = zeros 16\<rparr> (TimeValue 1709210096001) None"
  from within_fits [OF sample_small(3)] obtain ab where ab: "encAuthenticator au = Inr ab" "length ab \<le> 500"
    by (auto simp: within_def au_def)
  from sample_seal [of "replicate 16 5" TGS_REQ_AUTH ab] ab(2) obtain x where
    x: "seal sample_profile sample_draws (replicate 16 5) TGS_REQ_AUTH ab = Inr x" "length x \<le> 532"
    by auto
  from sample_within(1) obtain sb where body: "encKdcReqBody sample_tgs_body = Inr sb" "length sb \<le> 500" by (auto simp: within_def)
  let ?ap = "\<lparr>ar_pvno = PVNO, ar_msgType = MSG_AP_REQ, ar_apOptions = [], ar_ticket = sample_ticket,
     ar_authenticator = \<lparr>ed_etype = 19, ed_kvno = None, ed_cipher = x\<rparr>\<rparr>"
  have "\<exists>n. n \<le> 5000 \<and> within n (encApReq ?ap)"
    unfolding encApReq_def encEncryptedData_def ap_req.select_convs encrypted_data.select_convs
    by (rule exI, rule conjI [rotated], (rule size_intros sample_within x(2) refl | simp add: krb5_constants)+)
  then obtain ap where ap: "encApReq ?ap = Inr ap" "length ap \<le> 5000" by (auto simp: within_def)
  have "\<exists>n. n \<le> 6000 \<and> within n (encPaData \<lparr>pa_type = PA_TGS_REQ, pa_value = ap\<rparr>)"
    unfolding encPaData_def pa_data.select_convs
    by (rule exI, rule conjI [rotated], (rule size_intros sample_within ap(2) refl | simp)+)
  then obtain n where n: "within n (encPaData \<lparr>pa_type = PA_TGS_REQ, pa_value = ap\<rparr>)" "n \<le> 6000" by blast
  let ?rq = "\<lparr>rq_pvno = PVNO, rq_msgType = MSG_TGS_REQ, rq_padata = \<lparr>pa_type = PA_TGS_REQ, pa_value = ap\<rparr> # extra,
      rq_reqBody = sample_tgs_body\<lparr>rb_raw := Some sb\<rparr>\<rparr>"
  have field: "within 500 (encReqBodyField (sample_tgs_body\<lparr>rb_raw := Some sb\<rparr>))"
    using body by (simp add: within_def encReqBodyField_def)
  have "\<exists>n. n \<le> 20000 \<and> within n (encKdcReq ?rq)"
    unfolding encKdcReq_def kdc_req.select_convs nonempty_simps kdc_req_body.select_convs
    by (rule exI, rule conjI [rotated], (rule size_intros sample_within field n(1) extra(1) refl | use extra(2) n(2) in \<open>simp add: krb5_constants\<close>)+)
  then obtain b where b: "encKdcReq ?rq = Inr b" "length b \<le> MAX_INPUT_BYTES" by (auto simp: within_def MAX_INPUT_BYTES_def)
  let ?o = "sample_tgs_options\<lparr>to_extraPadata := extra\<rparr>"
  have same: "tgs_body sample_draws ?o sample_tgt = sample_tgs_body"
    "tgs_authenticator sample_profile sample_draws ?o sample_tgt (zeros 16) = Inr au"
    using sample_tgs_body sample_au extra_aside [where extra = extra] by (simp_all add: au_def)
  show ?thesis
  proof (rule that)
    show "buildTgsReq sample_webcrypto sample_draws ?o =
        Inr \<lparr>tr_request = b, tr_nonce = 7, tr_subkey = None, tr_body = sb,
             tr_sname = Some \<lparr>pn_type = Some 3, pn_name = [name_k]\<rparr>\<rparr>"
      using ap b(1) x(1) ab body same
      by (simp add: buildTgsReq_def sample_selects sample_profile sample_checksum tgs_padata_def)
        (simp add: sample_tgs_body_def)
  qed (simp add: b(2))
qed

lemma sample_request_built:
  obtains r where "buildTgsReq sample_webcrypto sample_draws sample_tgs_options = Inr r" and "length (tr_request r) \<le> MAX_INPUT_BYTES"
proof -
  have "sample_tgs_options\<lparr>to_extraPadata := []\<rparr> = sample_tgs_options" by (simp add: sample_tgs_options_def)
  with sample_request_with [OF items_Nil] that show ?thesis by auto
qed

subsection \<open>Replies of the ticket-granting service\<close>

lemma first_open_Inr:
  "first_open P c as fs = Inr (part, plain, which) \<Longrightarrow>
     \<exists>k u. (k, u, which) \<in> set as \<and> p_decrypt P k u c = Inr plain \<and> readEncKdcRepPart plain = Inr part"
  by (induction P c as fs rule: first_open.induct) (auto simp: open_part_def rbind_eq_Inr split: sum.splits)

lemma part_element:
  assumes "encEncKdcRepPart p n = Inr plain"
  shows "trim_plain plain = plain"
proof -
  from assms obtain e k where "encApplication k e = Inr plain" by (auto simp: encEncKdcRepPart_def rbind_eq_Inr)
  then have "applicationTag k \<noteq> Inl (ApplicationTagRange k)" by (auto simp: encApplication_def)
  then obtain m where "k = int m" using that by (cases k) (auto simp: applicationTag_def)
  with \<open>encApplication k e = Inr plain\<close> obtain y where "plain = der_encode y" "der_valid y" using application_element by blast
  then show ?thesis using der_read_whole [of y] by (simp add: trim_plain_def)
qed

text \<open>A reply that the service sealed under the key the request promised is opened with it.\<close>

lemma tgs_reply_reads:
  assumes ok: "kdc_rep_ok rep" "rp_msgType rep = MSG_TGS_REP" and b: "encKdcRep rep = Inr b" "length b \<le> MAX_INPUT_BYTES"
    and P: "client_etype W (ed_etype (rp_encPart rep)) = Inr P"
    and part: "enc_kdc_rep_part_ok part" "encEncKdcRepPart part (int (tag_of (ep_taggedAs part))) = Inr plain"
    and key: "usable_key W (nat (ed_etype (rp_encPart rep))) k" "length conf = p_confounderBytes P"
      "p_encrypt P k u conf plain = Inr (ed_cipher (rp_encPart rep))"
    and which: "(k, u, which) = (case ro_subkey opts of None \<Rightarrow> (ro_sessionKey opts, TGS_REP_ENCPART_SESSKEY, WithSessionKey)
      | Some s \<Rightarrow> (ek_key s, TGS_REP_ENCPART_SUBKEY, WithSubkey))"
    and opts: "ro_reply opts = b" "ro_nonce opts = None \<or> ro_nonce opts = Some (ep_nonce part)"
  obtains y where "readTgsRep W opts = Inr (TgsReply y)" and "ty_openedWith y = which" and "ty_encPart y = part"
    and "ty_referral y = find_referral (asked_sname opts) part"
    and "ty_held y = held_of_reply (rep\<lparr>rp_ticket := sealed (rp_ticket rep)\<rparr>) part" and "by_encPartPlain (ty_bytes y) = plain"
proof -
  have dec: "p_decrypt P k u (ed_cipher (rp_encPart rep)) = Inr plain"
    by (rule encryption_profile.decrypt_encrypt [OF etype_sealing [OF P] key])
  obtain ed where ed: "encEncryptedData (rp_encPart rep) = Inr ed"
    using b(1) by (cases "encEncryptedData (rp_encPart rep)") (auto simp: encKdcRep_def tagged_def req_def rbind_eq_Inr)
  obtain tk where tk: "encTicket (rp_ticket rep) = Inr tk"
    using b(1) by (cases "encTicket (rp_ticket rep)") (auto simp: encKdcRep_def tagged_def req_def rbind_eq_Inr)
  have tk': "encTicket (sealed (rp_ticket rep)) = Inr tk" using tk ok(1) by (simp add: encTicket_sealed kdc_rep_ok_def)
  have "length ed \<le> length b" using b(1) unfolding encKdcRep_def by (rule application_fits [where k = 6]) (simp add: req_def ed)
  with cipher_fits [OF ed] seal_length [OF P key] b(2) have "length plain \<le> MAX_INPUT_BYTES" by simp
  then have inner: "readEncKdcRepPart plain = Inr part" by (rule enc_kdc_rep_part_readback [OF part])
  have outer: "readKdcResponse b = Inr (KdcReply ''TGS-REP'' (rep\<lparr>rp_ticket := sealed (rp_ticket rep)\<rparr>))"
    using kdc_reply_readback [of rep, OF _ b] ok by (simp add: wire_reply_id) (simp add: kdc_rep_ok_def)
  have first: "first_open P (ed_cipher (rp_encPart rep)) (tgs_attempts (ro_subkey opts) (ro_sessionKey opts)) [] = Inr (part, plain, which)"
    using which dec inner by (cases "ro_subkey opts") (simp_all add: tgs_attempts_def open_part_def)
  show ?thesis
    by (rule that, simp add: readTgsRep_def opts(1) outer P first replyBytes_def tk' ed)
      (use opts(2) in \<open>auto simp: part_element [OF part(2)]\<close>)
qed


definition sample_tgs_part :: enc_kdc_rep_part where
  "sample_tgs_part = sample_enc_part\<lparr>ep_taggedAs := EncTGSRepPart\<rparr>"

definition sample_tgs_rep :: "bytes \<Rightarrow> kdc_rep" where
  "sample_tgs_rep x = sample_reply\<lparr>rp_msgType := MSG_TGS_REP, rp_encPart := \<lparr>ed_etype = 19, ed_kvno = None, ed_cipher = x\<rparr>\<rparr>"

definition sample_reply_options :: "bytes \<Rightarrow> tgs_reply_options" where
  "sample_reply_options b = \<lparr>ro_sessionKey = replicate 16 5, ro_reply = b, ro_subkey = None, ro_nonce = Some 77,
     ro_requestedSname = Some \<lparr>pn_type = Some 3, pn_name = [name_R]\<rparr>, ro_sname = None, ro_built = None\<rparr>"

lemma sample_rep_small:
  "fits (encInt MSG_TGS_REP)" "fits (encGeneralString name_R)" "fits (encPrincipalName \<lparr>pn_type = Some 1, pn_name = [name_k]\<rparr>)"
  by code_simp+

lemma sample_rep_built:
  obtains x b plain where "encKdcRep (sample_tgs_rep x) = Inr b" and "length b \<le> MAX_INPUT_BYTES"
    and "encEncKdcRepPart sample_tgs_part (int (tag_of (ep_taggedAs sample_tgs_part))) = Inr plain"
    and "p_encrypt sample_profile (replicate 16 5) TGS_REP_ENCPART_SESSKEY (replicate 16 0) plain = Inr x"
proof -
  have n: "encEncKdcRepPart sample_tgs_part (int (tag_of (ep_taggedAs sample_tgs_part))) = encEncKdcRepPart sample_enc_part 26"
    by (simp add: sample_tgs_part_def encEncKdcRepPart_def tag_of_def krb5_constants)
  with within_fits [OF sample_fits(3)] obtain plain where
    plain: "encEncKdcRepPart sample_tgs_part (int (tag_of (ep_taggedAs sample_tgs_part))) = Inr plain" "length plain \<le> 500"
    by (auto simp: within_def)
  from sample_seal [of "replicate 16 5" TGS_REP_ENCPART_SESSKEY plain] plain(2) obtain x where
    x: "seal sample_profile sample_draws (replicate 16 5) TGS_REP_ENCPART_SESSKEY plain = Inr x" "length x \<le> 532" by auto
  have conf: "dr_confounder sample_draws (p_confounderBytes sample_profile) = replicate 16 0"
    by (simp add: sample_draws_def sample_profile_def aesSha2Profile_def)
  have "\<exists>n. n \<le> 5000 \<and> within n (encKdcRep (sample_tgs_rep x))"
    unfolding encKdcRep_def encEncryptedData_def sample_tgs_rep_def sample_reply_def kdc_rep.select_convs kdc_rep.update_convs
      encrypted_data.select_convs nonempty_simps
    by (rule exI, rule conjI [rotated], (rule size_intros sample_within sample_rep_small [THEN within_fits] x(2) refl | simp add: krb5_constants)+)
  then obtain b where "encKdcRep (sample_tgs_rep x) = Inr b" "length b \<le> MAX_INPUT_BYTES"
    by (auto simp: within_def MAX_INPUT_BYTES_def)
  with that plain(1) x(1) show ?thesis by (simp add: seal_def conf)
qed

lemma sample_tgs_rep_ok: "kdc_rep_ok (sample_tgs_rep x)" "rp_msgType (sample_tgs_rep x) = MSG_TGS_REP" "enc_kdc_rep_part_ok sample_tgs_part"
  "ed_etype (rp_encPart (sample_tgs_rep x)) = 19" "ed_cipher (rp_encPart (sample_tgs_rep x)) = x" "ep_nonce sample_tgs_part = 77"
  using sample_ok(1,2)
  by (simp_all add: sample_tgs_rep_def sample_tgs_part_def sample_enc_part_def kdc_rep_ok_def enc_kdc_rep_part_ok_def sample_checks krb5_constants)

subsection \<open>Properties\<close>

text \<open>The request to the ticket-granting service proves the session key: the service reads the body with the very bytes the
  checksum covers, in front of the other padata an AP-REQ with the ticket as it is held, and what opens under the session key with
  key usage 7 is an authenticator of the client with the subkey and the checksum, under key usage 6, of those bytes.\<close>

theorem tgs_request_proves_key:
  assumes "buildTgsReq W D opts = Inr r" and "to_tgt opts = Some tgt" and "ht_ticket tgt = Some tk" and "ht_sessionKey tgt = Some sk"
    and "tgs_ok D opts tgt" and "confounded D" and "usable_key W (nat (ht_etype tgt)) sk"
    and "length (tr_request r) \<le> MAX_INPUT_BYTES"
  shows "\<exists>P rq ap apReq ab au ck. client_etype W (ht_etype tgt) = Inr P \<and> readKdcReq (tr_request r) = Inr rq
    \<and> rq_msgType rq = MSG_TGS_REQ \<and> rb_raw (rq_reqBody rq) = Some (tr_body r) \<and> rb_nonce (rq_reqBody rq) = tr_nonce r
    \<and> rq_padata rq = \<lparr>pa_type = PA_TGS_REQ, pa_value = ap\<rparr> # to_extraPadata opts
    \<and> readApReq ap = Inr apReq \<and> ar_ticket apReq = sealed tk
    \<and> p_decrypt P sk 7 (ed_cipher (ar_authenticator apReq)) = Inr ab \<and> readAuthenticator ab = Inr au
    \<and> Some (au_cname au) = ht_client tgt \<and> au_subkey au = to_subkey opts
    \<and> au_cksum au = Some \<lparr>ck_type = p_checksumType P, ck_checksum = ck\<rparr> \<and> p_checksum P sk 6 (tr_body r) = Inr ck"
proof -
  have "tr_nonce r = rb_nonce (tgs_body D opts tgt)"
    using assms(1-4) by (auto simp: buildTgsReq_def rbind_eq_Inr)
  moreover have "rb_nonce (sealed_body (wire_body (tgs_body D opts tgt))) = rb_nonce (tgs_body D opts tgt)"
    by (simp add: sealed_body_def wire_body_def split: option.split)
  ultimately show ?thesis
    by (rule_tac tgs_request_reads [OF assms]) (force simp: key_usages)
qed

lemma tgs_request_proves_key_witness:
  "\<exists>r P rq ap apReq ab au ck. buildTgsReq sample_webcrypto sample_draws sample_tgs_options = Inr r
    \<and> client_etype sample_webcrypto (ht_etype sample_tgt) = Inr P \<and> readKdcReq (tr_request r) = Inr rq
    \<and> rq_msgType rq = MSG_TGS_REQ \<and> rb_raw (rq_reqBody rq) = Some (tr_body r) \<and> rb_nonce (rq_reqBody rq) = tr_nonce r
    \<and> rq_padata rq = \<lparr>pa_type = PA_TGS_REQ, pa_value = ap\<rparr> # to_extraPadata sample_tgs_options
    \<and> readApReq ap = Inr apReq \<and> ar_ticket apReq = sealed sample_ticket
    \<and> p_decrypt P (replicate 16 5) 7 (ed_cipher (ar_authenticator apReq)) = Inr ab \<and> readAuthenticator ab = Inr au
    \<and> Some (au_cname au) = ht_client sample_tgt \<and> au_subkey au = to_subkey sample_tgs_options
    \<and> au_cksum au = Some \<lparr>ck_type = p_checksumType P, ck_checksum = ck\<rparr> \<and> p_checksum P (replicate 16 5) 6 (tr_body r) = Inr ck"
proof -
  obtain r where r: "buildTgsReq sample_webcrypto sample_draws sample_tgs_options = Inr r" "length (tr_request r) \<le> MAX_INPUT_BYTES"
    by (rule sample_request_built)
  have u: "usable_key sample_webcrypto (nat (ht_etype sample_tgt)) (replicate 16 5)" by (simp add: sample_selects sample_usable)
  from tgs_request_proves_key [OF r(1) sample_selects(1) sample_selects(5,6) sample_tgs_ok sample_usable(2) u r(2)] r(1)
  show ?thesis by blast
qed

text \<open>A reply is taken only as the answer to the request: it is a TGS-REP whose encrypted part opened under the subkey that was
  sent with key usage 9 or under the session key with key usage 8, as the result says, and whose nonce is the one that was sent;
  the session key and the names come from that part, and the ticket from the reply with its own bytes.\<close>

theorem tgs_reply_is_the_answer:
  assumes "readTgsRep W opts = Inr (TgsReply y)"
  shows "\<exists>rep P k u plain. readKdcResponse (ro_reply opts) = Inr (KdcReply ''TGS-REP'' rep)
    \<and> client_etype W (ed_etype (rp_encPart rep)) = Inr P \<and> p_decrypt P k u (ed_cipher (rp_encPart rep)) = Inr plain
    \<and> (case ty_openedWith y of
         WithSubkey \<Rightarrow> u = 9 \<and> Some k = map_option ek_key (ro_subkey opts)
       | WithSessionKey \<Rightarrow> u = 8 \<and> k = ro_sessionKey opts)
    \<and> readEncKdcRepPart plain = Inr (ty_encPart y)
    \<and> (ro_nonce opts = None \<or> ro_nonce opts = Some (ep_nonce (ty_encPart y)))
    \<and> ty_held y = held_of_reply rep (ty_encPart y) \<and> encTicket (rp_ticket rep) = Inr (by_ticket (ty_bytes y))"
proof -
  from assms obtain rep P part plain which where
    r: "readKdcResponse (ro_reply opts) = Inr (KdcReply ''TGS-REP'' rep)" "client_etype W (ed_etype (rp_encPart rep)) = Inr P"
      "first_open P (ed_cipher (rp_encPart rep)) (tgs_attempts (ro_subkey opts) (ro_sessionKey opts)) [] = Inr (part, plain, which)"
      "ro_nonce opts = None \<or> ro_nonce opts = Some (ep_nonce part)"
    and y: "ty_openedWith y = which" "ty_encPart y = part" "ty_held y = held_of_reply rep part"
      "encTicket (rp_ticket rep) = Inr (by_ticket (ty_bytes y))"
  proof -
    from assms obtain response where response: "readKdcResponse (ro_reply opts) = Inr response"
      by (auto simp: readTgsRep_def rbind_eq_Inr)
    with assms obtain kind rep where "response = KdcReply kind rep" by (cases response) (auto simp: readTgsRep_def)
    with response assms that show ?thesis
      by (auto simp: readTgsRep_def rbind_eq_Inr replyBytes_def split: if_split_asm)
  qed
  from first_open_Inr [OF r(3)] obtain k u where k: "(k, u, which) \<in> set (tgs_attempts (ro_subkey opts) (ro_sessionKey opts))"
    "p_decrypt P k u (ed_cipher (rp_encPart rep)) = Inr plain" "readEncKdcRepPart plain = Inr part" by blast
  from k(1) have "case which of WithSubkey \<Rightarrow> u = 9 \<and> Some k = map_option ek_key (ro_subkey opts)
      | WithSessionKey \<Rightarrow> u = 8 \<and> k = ro_sessionKey opts"
    by (cases "ro_subkey opts") (auto simp: tgs_attempts_def key_usages)
  with r k y show ?thesis by blast
qed

lemma tgs_reply_is_the_answer_witness:
  "\<exists>b y rep P k u plain. readTgsRep sample_webcrypto (sample_reply_options b) = Inr (TgsReply y)
    \<and> readKdcResponse (ro_reply (sample_reply_options b)) = Inr (KdcReply ''TGS-REP'' rep)
    \<and> client_etype sample_webcrypto (ed_etype (rp_encPart rep)) = Inr P \<and> p_decrypt P k u (ed_cipher (rp_encPart rep)) = Inr plain
    \<and> readEncKdcRepPart plain = Inr (ty_encPart y)
    \<and> ty_held y = held_of_reply rep (ty_encPart y) \<and> encTicket (rp_ticket rep) = Inr (by_ticket (ty_bytes y))"
proof -
  from sample_rep_built obtain x b plain where s: "encKdcRep (sample_tgs_rep x) = Inr b" "length b \<le> MAX_INPUT_BYTES"
    "encEncKdcRepPart sample_tgs_part (int (tag_of (ep_taggedAs sample_tgs_part))) = Inr plain"
    "p_encrypt sample_profile (replicate 16 5) TGS_REP_ENCPART_SESSKEY (replicate 16 0) plain = Inr x" .
  obtain y where y: "readTgsRep sample_webcrypto (sample_reply_options b) = Inr (TgsReply y)"
    by (rule tgs_reply_reads [OF sample_tgs_rep_ok(1,2) s(1,2) _ sample_tgs_rep_ok(3) s(3), of sample_webcrypto sample_profile "replicate 16 5"
        "replicate 16 0" TGS_REP_ENCPART_SESSKEY WithSessionKey "sample_reply_options b"])
      (simp_all add: sample_tgs_rep_ok sample_profile sample_usable s(4) sample_reply_options_def, simp add: sample_profile_def aesSha2Profile_def)
  from tgs_reply_is_the_answer [OF y] y show ?thesis by blast
qed

text \<open>The reply that answers a request is taken: sealed under the subkey with key usage 9 when one was sent and under the session
  key with key usage 8 otherwise, with the nonce of the request, it delivers the ticket as bytes and the session key, the names and
  the times of the encrypted part; it is a referral exactly when another name than the one asked for was issued.\<close>

theorem tgs_reply_delivers:
  assumes "kdc_rep_ok rep" and "rp_msgType rep = MSG_TGS_REP" and "encKdcRep rep = Inr b" and "length b \<le> MAX_INPUT_BYTES"
    and "client_etype W (ed_etype (rp_encPart rep)) = Inr P"
    and "enc_kdc_rep_part_ok part" and "encEncKdcRepPart part (int (tag_of (ep_taggedAs part))) = Inr plain"
    and "usable_key W (nat (ed_etype (rp_encPart rep))) k" and "length conf = p_confounderBytes P"
    and "p_encrypt P k u conf plain = Inr (ed_cipher (rp_encPart rep))"
    and "(k, u, which) = (case ro_subkey opts of None \<Rightarrow> (ro_sessionKey opts, 8, WithSessionKey) | Some s \<Rightarrow> (ek_key s, 9, WithSubkey))"
    and "ro_reply opts = b" and "ro_nonce opts = None \<or> ro_nonce opts = Some (ep_nonce part)"
  shows "\<exists>y. readTgsRep W opts = Inr (TgsReply y) \<and> ty_openedWith y = which \<and> ty_encPart y = part
    \<and> ty_held y = held_of_reply (rep\<lparr>rp_ticket := sealed (rp_ticket rep)\<rparr>) part \<and> by_encPartPlain (ty_bytes y) = plain
    \<and> (ty_referral y = None \<longleftrightarrow> (case asked_sname opts of None \<Rightarrow> True
         | Some a \<Rightarrow> js_join SLASH (pn_name a) = js_join SLASH (pn_name (ep_sname part))))"
proof -
  have "find_referral (asked_sname opts) part = None \<longleftrightarrow> (case asked_sname opts of None \<Rightarrow> True
         | Some a \<Rightarrow> js_join SLASH (pn_name a) = js_join SLASH (pn_name (ep_sname part)))"
    by (simp add: find_referral_def Let_def split: option.split)
  then show ?thesis
    using tgs_reply_reads [OF assms(1-10) assms(11) [folded key_usages] assms(12,13)] by metis
qed

lemma tgs_reply_delivers_witness:
  "\<exists>x b plain y. readTgsRep sample_webcrypto (sample_reply_options b) = Inr (TgsReply y) \<and> ty_openedWith y = WithSessionKey
    \<and> ty_encPart y = sample_tgs_part
    \<and> ty_held y = held_of_reply ((sample_tgs_rep x)\<lparr>rp_ticket := sealed (rp_ticket (sample_tgs_rep x))\<rparr>) sample_tgs_part
    \<and> by_encPartPlain (ty_bytes y) = plain"
proof -
  from sample_rep_built obtain x b plain where s: "encKdcRep (sample_tgs_rep x) = Inr b" "length b \<le> MAX_INPUT_BYTES"
    "encEncKdcRepPart sample_tgs_part (int (tag_of (ep_taggedAs sample_tgs_part))) = Inr plain"
    "p_encrypt sample_profile (replicate 16 5) TGS_REP_ENCPART_SESSKEY (replicate 16 0) plain = Inr x" .
  have "\<exists>y. readTgsRep sample_webcrypto (sample_reply_options b) = Inr (TgsReply y) \<and> ty_openedWith y = WithSessionKey
      \<and> ty_encPart y = sample_tgs_part
      \<and> ty_held y = held_of_reply ((sample_tgs_rep x)\<lparr>rp_ticket := sealed (rp_ticket (sample_tgs_rep x))\<rparr>) sample_tgs_part
      \<and> by_encPartPlain (ty_bytes y) = plain
      \<and> (ty_referral y = None \<longleftrightarrow> (case asked_sname (sample_reply_options b) of None \<Rightarrow> True
         | Some a \<Rightarrow> js_join SLASH (pn_name a) = js_join SLASH (pn_name (ep_sname sample_tgs_part))))"
    by (rule tgs_reply_delivers [OF sample_tgs_rep_ok(1,2) s(1,2) _ sample_tgs_rep_ok(3) s(3), where P = sample_profile and k = "replicate 16 5"
        and conf = "replicate 16 0" and u = 8])
      (simp_all add: sample_tgs_rep_ok sample_profile sample_usable s(4) [unfolded key_usages] sample_reply_options_def,
        simp add: sample_profile_def aesSha2Profile_def)
  then show ?thesis by blast
qed

end
