(* ===== verification/Krb5_Client_Ap.thy ===== *)
theory Krb5_Client_Ap
  imports Krb5_Client_Tgs
begin

text \<open>
  The AP exchange and delegation from both ends: what the service opens, when the client holds it for authenticated, and what an
  acceptor can do with a forwarded ticket.
\<close>

subsection \<open>The request to the service\<close>

definition ap_ok :: "draws \<Rightarrow> ap_options \<Rightarrow> held_ticket \<Rightarrow> bool" where
  "ap_ok D opts tk \<longleftrightarrow>
     pred_option ticket_ok (ht_ticket tk) \<and> pred_option principal_ok (ht_client tk) \<and> wf_utf16 (as_text (ht_realm tk))
     \<and> int48 (ht_etype tk) \<and> (case ao_subkey opts of Some (Some k) \<Rightarrow> encryption_key_ok k | _ \<Rightarrow> True)
     \<and> pred_option int48 (ao_sequenceNumber opts) \<and> dr_sequence D \<noteq> []
     \<and> time_ok (whole_second (or_default (ao_now opts) (dr_now D)))
     \<and> foldl (OR) 0 (ap_flags opts) < 2 ^ 32 \<and> (case ao_delegation opts of None \<Rightarrow> True | Some c \<Rightarrow> length c < 2 ^ 16)"

text \<open>What the service makes of the token: the ticket, and under its session key the authenticator with the reported time, and in
  the 0x8003 checksum the flags and the delegated credential.\<close>

lemma ap_request_reads:
  assumes "buildApReq W D opts = Inr q" and "ao_ticket opts = Some tk" and "ht_ticket tk = Some raw" and "ht_sessionKey tk = Some sk"
    and ok: "ap_ok D opts tk" and "confounded D" and "usable_key W (nat (ht_etype tk)) sk" and len: "length (aq_apReq q) \<le> MAX_INPUT_BYTES"
  obtains P apReq ab au gc where "client_etype W (ht_etype tk) = Inr P"
    and "decodeInitialContextToken (aq_token q) = Inr \<lparr>ct_tokId = TOK_ID AP_REQ, ct_tokIdName = Some AP_REQ, ct_inner = aq_apReq q\<rparr>"
    and "readApReq (aq_apReq q) = Inr apReq" and "ar_ticket apReq = sealed raw"
    and "p_decrypt P sk AP_REQ_AUTH (ed_cipher (ar_authenticator apReq)) = Inr ab" and "readAuthenticator ab = Inr au"
    and "au_ctime au = aq_ctime q" and "au_cusec au = aq_cusec q" and "au_subkey au = aq_subkey q"
    and "map_option ck_type (au_cksum au) = Some CHECKSUM_TYPE_GSS"
    and "parseGssChecksum (ck_checksum (the (au_cksum au))) = Inr gc" and "gc_flags gc = foldl (OR) 0 (aq_gssFlags q)"
    and "gc_delegation gc = map_option (\<lambda>c. (1, c)) (ao_delegation opts)"
    and "time_ok (aq_ctime q)" and "int48 (aq_cusec q)"
proof -
  from assms(1-4) obtain P ck a ab x where P: "client_etype W (ht_etype tk) = Inr P"
    and ck: "buildGssChecksum \<lparr>go_flags = ap_flags opts, go_channelBindings = ao_channelBindings opts,
        go_delegation = ao_delegation opts, go_extensions = None\<rparr> = Inr ck"
    and a: "ap_authenticator D opts tk ck (ap_subkey P D opts tk) = Inr a" and ab: "encAuthenticator a = Inr ab"
    and x: "seal P D sk AP_REQ_AUTH ab = Inr x"
    and ap: "encApReq \<lparr>ar_pvno = PVNO, ar_msgType = MSG_AP_REQ, ar_apOptions = (if ao_mutual opts then [2] else []),
        ar_ticket = raw, ar_authenticator = \<lparr>ed_etype = ht_etype tk, ed_kvno = None, ed_cipher = x\<rparr>\<rparr> = Inr (aq_apReq q)"
    and token: "encodeInitialContextToken AP_REQ (aq_apReq q) = Inr (aq_token q)"
    and q: "aq_ctime q = au_ctime a" "aq_cusec q = au_cusec a" "aq_gssFlags q = ap_flags opts" "aq_subkey q = ap_subkey P D opts tk"
    by (auto simp: buildApReq_def rbind_eq_Inr Let_def)
  note opens = sealed_opens [OF P assms(7,6) x]
  obtain ed where ed: "encEncryptedData \<lparr>ed_etype = ht_etype tk, ed_kvno = None, ed_cipher = x\<rparr> = Inr ed"
    using ap by (cases "encEncryptedData \<lparr>ed_etype = ht_etype tk, ed_kvno = None, ed_cipher = x\<rparr>") (auto simp: encApReq_def tagged_def req_def rbind_eq_Inr)
  have "length ed \<le> length (aq_apReq q)" using ap unfolding encApReq_def by (rule application_fits [where k = 4]) (simp add: req_def ed)
  with cipher_fits [OF ed] opens(2) len have abl: "length ab \<le> MAX_INPUT_BYTES" by simp
  have subkey: "pred_option encryption_key_ok (ap_subkey P D opts tk)"
    using ok by (cases "ao_subkey opts"; cases "the (ao_subkey opts)") (simp_all add: ap_subkey_def ap_ok_def encryption_key_ok_def)
  have int: "int48 CHECKSUM_TYPE_GSS" by (simp add: CHECKSUM_TYPE_GSS_def int48_def)
  have au: "authenticator_ok a \<and> au_cksum a = Some \<lparr>ck_type = CHECKSUM_TYPE_GSS, ck_checksum = ck\<rparr>
      \<and> au_subkey a = ap_subkey P D opts tk \<and> time_ok (au_ctime a) \<and> int48 (au_cusec a)"
    using a ok subkey int sequence_int48 [of "ao_sequenceNumber opts" "dr_sequence D"] micros_int48
    by (auto simp: ap_authenticator_def ap_ok_def authenticator_ok_def checksum_ok_def Let_def rbind_eq_Inr split: option.splits)
  have "readAuthenticator ab = Inr a" by (rule authenticator_readback [OF conjunct1 [OF au] ab abl])
  moreover have "flags_ok (if ao_mutual opts then [2] else [])" by (simp add: flags_ok_def)
  then have "readApReq (aq_apReq q) = Inr \<lparr>ar_pvno = PVNO, ar_msgType = MSG_AP_REQ, ar_apOptions = (if ao_mutual opts then [2] else []),
        ar_ticket = sealed raw, ar_authenticator = \<lparr>ed_etype = ht_etype tk, ed_kvno = None, ed_cipher = x\<rparr>\<rparr>"
    using ap_req_readback [OF _ ap len] ok assms(3) by (simp add: ap_req_ok_def ap_ok_def encrypted_data_ok_def)
  moreover have "\<exists>gc. parseGssChecksum ck = Inr gc \<and> gc_flags gc = foldl (OR) 0 (ap_flags opts)
      \<and> gc_delegation gc = map_option (\<lambda>c. (1, c)) (ao_delegation opts)"
    using gss_checksum_reads_back [OF ck] ok by (auto simp: effective_flags_def ap_ok_def split: option.splits)
  ultimately show ?thesis using that P context_token_reads_back [OF token] opens(1) au by (auto simp: q)
qed

subsection \<open>The answer of the service\<close>

lemma bare_ap_rep_head:
  assumes "encApRep r = Inr b"
  shows "b \<noteq> [] \<and> b ! 0 = 0x6f"
proof -
  from assms obtain e where "encApplication (int APP_AP_REP) e = Inr b" by (auto simp: encApRep_def rbind_eq_Inr)
  then have "tlv 0x6f e = Inr b" by (simp add: encApplication_def applicationTag_def krb5_constants byte_of_def)
  then show ?thesis by (auto simp: tlv_def rbind_eq_Inr)
qed

lemma ap_reply_confirmed:
  assumes P: "client_etype W i = Inr P" "usable_key W (nat i) sk" "length conf = p_confounderBytes P" "int48 i"
    and part: "enc_ap_rep_part_ok part" "encEncApRepPart part = Inr plain" "p_encrypt P sk AP_REP_ENCPART conf plain = Inr x"
    and rep: "encApRep \<lparr>ap_pvno = PVNO, ap_msgType = MSG_AP_REP, ap_encPart = \<lparr>ed_etype = i, ed_kvno = None, ed_cipher = x\<rparr>\<rparr> = Inr b"
      "length b \<le> MAX_INPUT_BYTES"
    and sent: "po_sentCtime opts = Some t" "whole_second t = ea_ctime part" "po_sentCusec opts = Some (ea_cusec part)"
    and opts: "po_sessionKey opts = sk" "unwrap_ap_reply (po_reply opts) = Inr (b, w)"
  shows "confirmApRep W opts = Inr (MutualConfirmed (ea_subkey part) (ea_seqNumber part) part w)"
proof -
  have dec: "p_decrypt P sk AP_REP_ENCPART x = Inr plain"
    by (rule encryption_profile.decrypt_encrypt [OF etype_sealing [OF P(1)] P(2,3) part(3)])
  obtain ed where ed: "encEncryptedData \<lparr>ed_etype = i, ed_kvno = None, ed_cipher = x\<rparr> = Inr ed"
    using rep(1) by (cases "encEncryptedData \<lparr>ed_etype = i, ed_kvno = None, ed_cipher = x\<rparr>") (auto simp: encApRep_def tagged_def req_def rbind_eq_Inr)
  have "length ed \<le> length b" using rep(1) unfolding encApRep_def by (rule application_fits [where k = 2]) (simp add: req_def ed)
  with cipher_fits [OF ed] seal_length [OF P(1-3) part(3)] rep(2) have "length plain \<le> MAX_INPUT_BYTES" by simp
  then have inner: "readEncApRepPart plain = Inr part" by (rule enc_ap_rep_part_readback [OF part(1,2)])
  have outer: "readApRep b = Inr \<lparr>ap_pvno = PVNO, ap_msgType = MSG_AP_REP, ap_encPart = \<lparr>ed_etype = i, ed_kvno = None, ed_cipher = x\<rparr>\<rparr>"
    by (rule ap_rep_readback [OF _ rep]) (simp add: ap_rep_ok_def encrypted_data_ok_def P(4))
  have "time_ok (ea_ctime part)" using part(1) by (simp add: enc_ap_rep_part_ok_def)
  then have "time_echoed (Some t) (ea_ctime part)"
    using sent(2) by (cases t) (auto simp: time_echoed_def whole_second_def time_ok_def)
  moreover have "map_option fst (identify b) \<noteq> Some APP_KRB_ERROR"
    using identify_message [OF rep(1) [unfolded encApRep_def]] by (simp add: identify_def krb5_constants)
  ultimately show ?thesis
    by (simp add: confirmApRep_def opts outer P(1) dec inner sent(1,3) usec_echoed_def)
qed

lemma unwrap_ap_rep:
  assumes "encApRep r = Inr b"
  shows "unwrap_ap_reply b = Inr (b, False)" and "encodeInitialContextToken AP_REP b = Inr t \<Longrightarrow> unwrap_ap_reply t = Inr (b, True)"
proof -
  show "unwrap_ap_reply b = Inr (b, False)" using bare_ap_rep_head [OF assms] by (simp add: unwrap_ap_reply_def)
  assume t: "encodeInitialContextToken AP_REP b = Inr t"
  then have "t \<noteq> [] \<and> t ! 0 = 0x60" by (auto simp: encodeInitialContextToken_def Let_def rbind_eq_Inr)
  then show "unwrap_ap_reply t = Inr (b, True)" by (simp add: unwrap_ap_reply_def context_token_reads_back [OF t])
qed

subsection \<open>Samples\<close>

lemma within_int [size_intros]: "int48 n \<Longrightarrow> within 12 (encInt n)"
proof -
  assume n: "int48 n"
  obtain bs where bs: "integerContent (Whole n) = Inr bs" by (cases "n = 0"; cases "0 < n") (auto simp: integerContent_def Let_def)
  with integerContent_length [OF bs, of 6] n have "length bs \<le> 6" by (simp add: int48_def)
  from within_tlv [OF this, of TAG_INTEGER] show ?thesis by (simp add: encInteger_def bs)
qed

definition sample_ap_options :: ap_options where
  "sample_ap_options = \<lparr>ao_ticket = Some sample_tgt, ao_mutual = True, ao_gssFlags = None, ao_channelBindings = None,
     ao_delegation = Some [1, 2, 3], ao_now = None, ao_sequenceNumber = None, ao_subkey = Some None\<rparr>"

definition sample_gss :: bytes where
  "sample_gss = gss_le32 16 @ replicate 16 0 @ gss_le32 51 @ le16 1 @ le16 (length [1 :: byte, 2, 3]) @ [1, 2, 3]"

lemma sample_ap_flags: "ap_flags sample_ap_options = [32, 16, 2, 1]" "foldl (OR) 0 [32, 16, 2, 1] = (51 :: nat)"
proof -
  show "ap_flags sample_ap_options = [32, 16, 2, 1]"
    by (simp add: ap_flags_def sample_ap_options_def add_flag_def GSS_MUTUAL_def GSS_DELEG_def)
  show "foldl (OR) 0 [32, 16, 2, 1] = (51 :: nat)" by simp
qed

lemma sample_gss: "buildGssChecksum \<lparr>go_flags = ap_flags sample_ap_options, go_channelBindings = None, go_delegation = Some [1, 2, 3],
    go_extensions = None\<rparr> = Inr sample_gss" "length sample_gss = 31"
  by (simp_all add: buildGssChecksum_def sample_ap_flags sample_gss_def GSS_DELEG_def)

lemma sample_ap_ok: "ap_ok sample_draws sample_ap_options sample_tgt"
proof -
  have "time_ok (whole_second (TimeValue 1709210096001))" by (simp add: sample_checks whole_second_def)
  then show ?thesis
    by (simp add: ap_ok_def sample_ap_flags(1), simp add: sample_ap_options_def sample_tgt_def sample_draws_def sample_ticket_ok
        as_text_def sample_checks)
qed

lemma sample_ap_small: "fits (encKerberosTime (TimeValue 1709210096000))" "fits (encFlags [2])"
  by code_simp+

lemma sample_int48_19: "int48 19"
  by (simp add: int48_def)

lemma sample_ap_int48: "int48 CHECKSUM_TYPE_GSS" "int48 1000" "int48 7"
  by (simp_all add: int48_def CHECKSUM_TYPE_GSS_def)

definition sample_ap_au :: authenticator where
  "sample_ap_au = sample_authenticator \<lparr>ck_type = CHECKSUM_TYPE_GSS, ck_checksum = sample_gss\<rparr> (TimeValue 1709210096000) None"

lemma sample_ap_au: "ap_authenticator sample_draws sample_ap_options sample_tgt sample_gss None = Inr sample_ap_au"
proof -
  have "micros (TimeValue 1709210096001) = Inr 1000" "whole_second (TimeValue 1709210096001) = TimeValue 1709210096000"
    by (simp_all add: micros_def whole_second_def)
  then show ?thesis
    by (simp add: ap_authenticator_def sample_tgt_def sample_ap_options_def sample_ap_au_def sample_authenticator_def as_text_def
        sample_draws_def randomSequenceNumber_def be_nat_def)
qed

lemma sample_ap_built:
  obtains q where "buildApReq sample_webcrypto sample_draws sample_ap_options = Inr q" and "length (aq_apReq q) \<le> MAX_INPUT_BYTES"
    and "aq_ctime q = TimeValue 1709210096000" and "aq_cusec q = 1000"
proof -
  have "\<exists>n. n \<le> 2000 \<and> within n (encAuthenticator sample_ap_au)"
    unfolding encAuthenticator_def sample_ap_au_def sample_authenticator_def authenticator.select_convs encChecksum_def krb_checksum.select_convs
    by (rule exI, rule conjI [rotated],
      (rule size_intros sample_within sample_rep_small [THEN within_fits] sample_ap_small [THEN within_fits] sample_ap_int48 int48_small
        eq_refl [OF sample_gss(2)] refl | simp add: krb5_constants)+)
  then obtain ab where ab: "encAuthenticator sample_ap_au = Inr ab" "length ab \<le> 2000" by (auto simp: within_def)
  from sample_seal [of "replicate 16 5" AP_REQ_AUTH ab] ab(2) obtain x where
    x: "seal sample_profile sample_draws (replicate 16 5) AP_REQ_AUTH ab = Inr x" "length x \<le> 2032" by auto
  let ?ap = "\<lparr>ar_pvno = PVNO, ar_msgType = MSG_AP_REQ, ar_apOptions = [2], ar_ticket = sample_ticket,
     ar_authenticator = \<lparr>ed_etype = 19, ed_kvno = None, ed_cipher = x\<rparr>\<rparr>"
  have "\<exists>n. n \<le> 5000 \<and> within n (encApReq ?ap)"
    unfolding encApReq_def encEncryptedData_def ap_req.select_convs encrypted_data.select_convs
    by (rule exI, rule conjI [rotated], (rule size_intros sample_within sample_ap_small [THEN within_fits] x(2) int48_small sample_int48_19 refl | simp add: krb5_constants)+)
  then obtain ap where ap: "encApReq ?ap = Inr ap" "length ap \<le> 5000" by (auto simp: within_def)
  have "length (KRB5_MECH_OID_DER @ token_id_bytes AP_REQ @ ap) \<le> 5013" using ap(2) by (simp add: KRB5_MECH_OID_DER_def token_id_bytes_def)
  from within_tlv [OF this, where tg = 96] obtain token where token: "encodeInitialContextToken AP_REQ ap = Inr token"
    by (auto simp: within_def context_token_tlv)
  have subkey: "ap_subkey sample_profile sample_draws sample_ap_options sample_tgt = None" by (simp add: ap_subkey_def sample_ap_options_def)
  have selects: "ao_ticket sample_ap_options = Some sample_tgt" "ao_channelBindings sample_ap_options = None"
    "ao_delegation sample_ap_options = Some [1, 2, 3]" "ao_mutual sample_ap_options" by (simp_all add: sample_ap_options_def)
  have "buildApReq sample_webcrypto sample_draws sample_ap_options =
      Inr \<lparr>aq_apReq = ap, aq_token = token, aq_sequenceNumber = 7, aq_subkey = None, aq_ctime = TimeValue 1709210096000, aq_cusec = 1000,
           aq_gssFlags = ap_flags sample_ap_options\<rparr>"
    using ap(1) x(1) ab(1) token
    by (simp add: buildApReq_def selects sample_selects sample_profile sample_gss(1) subkey sample_ap_au Let_def)
      (simp add: sample_ap_au_def sample_authenticator_def)
  with that ap(2) show ?thesis by (simp add: MAX_INPUT_BYTES_def)
qed

lemma sample_reply_sealed:
  obtains plain x b where "encEncApRepPart \<lparr>ea_ctime = TimeValue 1709210096000, ea_cusec = 1000, ea_subkey = None, ea_seqNumber = Some 7\<rparr> = Inr plain"
    and "p_encrypt sample_profile (replicate 16 5) AP_REP_ENCPART (replicate 16 0) plain = Inr x"
    and "encApRep \<lparr>ap_pvno = PVNO, ap_msgType = MSG_AP_REP, ap_encPart = \<lparr>ed_etype = 19, ed_kvno = None, ed_cipher = x\<rparr>\<rparr> = Inr b"
    and "length b \<le> MAX_INPUT_BYTES"
proof -
  have "\<exists>n. n \<le> 1000 \<and> within n (encEncApRepPart \<lparr>ea_ctime = TimeValue 1709210096000, ea_cusec = 1000, ea_subkey = None, ea_seqNumber = Some 7\<rparr>)"
    unfolding encEncApRepPart_def enc_ap_rep_part.select_convs
    by (rule exI, rule conjI [rotated], (rule size_intros sample_ap_small [THEN within_fits] sample_ap_int48 refl | simp add: krb5_constants)+)
  then obtain plain where plain: "encEncApRepPart \<lparr>ea_ctime = TimeValue 1709210096000, ea_cusec = 1000, ea_subkey = None, ea_seqNumber = Some 7\<rparr> = Inr plain"
    "length plain \<le> 1000" by (auto simp: within_def)
  from sample_seal [of "replicate 16 5" AP_REP_ENCPART plain] plain(2) obtain x where
    x: "seal sample_profile sample_draws (replicate 16 5) AP_REP_ENCPART plain = Inr x" "length x \<le> 1032" by auto
  have conf: "dr_confounder sample_draws (p_confounderBytes sample_profile) = replicate 16 0"
    by (simp add: sample_draws_def sample_profile_def aesSha2Profile_def)
  have "\<exists>n. n \<le> 5000 \<and> within n (encApRep \<lparr>ap_pvno = PVNO, ap_msgType = MSG_AP_REP, ap_encPart = \<lparr>ed_etype = 19, ed_kvno = None, ed_cipher = x\<rparr>\<rparr>)"
    unfolding encApRep_def encEncryptedData_def ap_rep.select_convs encrypted_data.select_convs
    by (rule exI, rule conjI [rotated], (rule size_intros x(2) int48_small sample_int48_19 refl | simp add: krb5_constants)+)
  then obtain b where "encApRep \<lparr>ap_pvno = PVNO, ap_msgType = MSG_AP_REP, ap_encPart = \<lparr>ed_etype = 19, ed_kvno = None, ed_cipher = x\<rparr>\<rparr> = Inr b"
    "length b \<le> MAX_INPUT_BYTES" by (auto simp: within_def MAX_INPUT_BYTES_def)
  with that plain(1) x(1) show ?thesis by (simp add: seal_def conf)
qed

subsection \<open>Properties of the AP exchange\<close>

text \<open>The service that holds the session key learns from the token what the client sent: the token is a Kerberos context token
  around the AP-REQ, the ticket in it is the one held, and what opens under key usage 11 is an authenticator with the time the client
  reports and a 0x8003 checksum that parses to the flags and the delegated credential.\<close>

theorem ap_request_delivers:
  assumes "buildApReq W D opts = Inr q" and "ao_ticket opts = Some tk" and "ht_ticket tk = Some raw" and "ht_sessionKey tk = Some sk"
    and "ap_ok D opts tk" and "confounded D" and "usable_key W (nat (ht_etype tk)) sk" and "length (aq_apReq q) \<le> MAX_INPUT_BYTES"
  shows "\<exists>P apReq ab au ck gc. client_etype W (ht_etype tk) = Inr P
    \<and> rbind (decodeInitialContextToken (aq_token q)) (\<lambda>t. Inr (ct_tokIdName t, ct_inner t)) = Inr (Some AP_REQ, aq_apReq q)
    \<and> readApReq (aq_apReq q) = Inr apReq \<and> ar_ticket apReq = sealed raw
    \<and> p_decrypt P sk 11 (ed_cipher (ar_authenticator apReq)) = Inr ab \<and> readAuthenticator ab = Inr au
    \<and> au_ctime au = aq_ctime q \<and> au_cusec au = aq_cusec q \<and> au_subkey au = aq_subkey q
    \<and> au_cksum au = Some ck \<and> ck_type ck = 0x8003 \<and> parseGssChecksum (ck_checksum ck) = Inr gc
    \<and> gc_flags gc = foldl (OR) 0 (aq_gssFlags q) \<and> gc_delegation gc = map_option (\<lambda>c. (1, c)) (ao_delegation opts)"
  by (rule ap_request_reads [OF assms]) (force simp: key_usages CHECKSUM_TYPE_GSS_def)

lemma ap_request_delivers_witness:
  "\<exists>q P apReq ab au ck gc. buildApReq sample_webcrypto sample_draws sample_ap_options = Inr q
    \<and> client_etype sample_webcrypto (ht_etype sample_tgt) = Inr P
    \<and> rbind (decodeInitialContextToken (aq_token q)) (\<lambda>t. Inr (ct_tokIdName t, ct_inner t)) = Inr (Some AP_REQ, aq_apReq q)
    \<and> readApReq (aq_apReq q) = Inr apReq \<and> ar_ticket apReq = sealed sample_ticket
    \<and> p_decrypt P (replicate 16 5) 11 (ed_cipher (ar_authenticator apReq)) = Inr ab \<and> readAuthenticator ab = Inr au
    \<and> au_ctime au = aq_ctime q \<and> au_cusec au = aq_cusec q \<and> au_subkey au = aq_subkey q
    \<and> au_cksum au = Some ck \<and> ck_type ck = 0x8003 \<and> parseGssChecksum (ck_checksum ck) = Inr gc
    \<and> gc_flags gc = foldl (OR) 0 (aq_gssFlags q) \<and> gc_delegation gc = map_option (\<lambda>c. (1, c)) (ao_delegation sample_ap_options)"
proof -
  obtain q where q: "buildApReq sample_webcrypto sample_draws sample_ap_options = Inr q" "length (aq_apReq q) \<le> MAX_INPUT_BYTES"
    by (rule sample_ap_built)
  have tk: "ao_ticket sample_ap_options = Some sample_tgt" by (simp add: sample_ap_options_def)
  have u: "usable_key sample_webcrypto (nat (ht_etype sample_tgt)) (replicate 16 5)" by (simp add: sample_selects sample_usable)
  from ap_request_delivers [OF q(1) tk sample_selects(5,6) sample_ap_ok sample_usable(2) u q(2)] q(1) show ?thesis by blast
qed

text \<open>The context counts as mutually authenticated only on the echo: what came, unwrapped or bare, is an AP-REP whose encrypted part
  opens under the ticket's session key with key usage 12 and names the second the client sent, and the microseconds when it gave them;
  without a time that was sent there is no confirmation.\<close>

theorem mutual_only_on_echo:
  assumes "confirmApRep W opts = Inr (MutualConfirmed sk n part w)"
  shows "\<exists>b apRep P plain t. unwrap_ap_reply (po_reply opts) = Inr (b, w) \<and> readApRep b = Inr apRep
    \<and> client_etype W (ed_etype (ap_encPart apRep)) = Inr P
    \<and> p_decrypt P (po_sessionKey opts) 12 (ed_cipher (ap_encPart apRep)) = Inr plain \<and> readEncApRepPart plain = Inr part
    \<and> po_sentCtime opts = Some (TimeValue t) \<and> ea_ctime part = TimeValue (t div 1000 * 1000)
    \<and> (po_sentCusec opts = None \<or> po_sentCusec opts = Some (ea_cusec part)) \<and> sk = ea_subkey part \<and> n = ea_seqNumber part"
proof -
  from assms obtain b w' where b: "unwrap_ap_reply (po_reply opts) = Inr (b, w')" by (auto simp: confirmApRep_def rbind_eq_Inr)
  from assms obtain apRep P plain where r: "readApRep b = Inr apRep" "client_etype W (ed_etype (ap_encPart apRep)) = Inr P"
    "p_decrypt P (po_sessionKey opts) 12 (ed_cipher (ap_encPart apRep)) = Inr plain" "readEncApRepPart plain = Inr part"
    and echo: "time_echoed (po_sentCtime opts) (ea_ctime part)" "usec_echoed (po_sentCusec opts) (ea_cusec part)"
    and "w = w'" "sk = ea_subkey part" "n = ea_seqNumber part"
    by (auto simp: confirmApRep_def b rbind_eq_Inr key_usages split: if_split_asm)
  moreover from echo(1) obtain t where "po_sentCtime opts = Some (TimeValue t)" "ea_ctime part = TimeValue (t div 1000 * 1000)"
    by (auto simp: time_echoed_def split: option.splits js_date.splits)
  moreover from echo(2) have "po_sentCusec opts = None \<or> po_sentCusec opts = Some (ea_cusec part)"
    by (auto simp: usec_echoed_def split: option.splits)
  ultimately show ?thesis using b by blast
qed

definition sample_sent :: "bytes \<Rightarrow> ap_reply_options" where
  "sample_sent t = \<lparr>po_reply = t, po_sessionKey = replicate 16 5, po_sentCtime = Some (TimeValue 1709210096001), po_sentCusec = Some 1000\<rparr>"

lemma sample_part_ok: "enc_ap_rep_part_ok \<lparr>ea_ctime = TimeValue 1709210096000, ea_cusec = 1000, ea_subkey = None, ea_seqNumber = Some 7\<rparr>"
  by (simp add: enc_ap_rep_part_ok_def sample_values sample_ap_int48)

lemma sample_confirmed: "\<exists>t part. confirmApRep sample_webcrypto (sample_sent t) = Inr (MutualConfirmed None (Some 7) part False)"
proof -
  let ?part = "\<lparr>ea_ctime = TimeValue 1709210096000, ea_cusec = 1000, ea_subkey = None, ea_seqNumber = Some 7\<rparr>"
  from sample_reply_sealed obtain plain x b where s: "encEncApRepPart ?part = Inr plain"
    "p_encrypt sample_profile (replicate 16 5) AP_REP_ENCPART (replicate 16 0) plain = Inr x"
    "encApRep \<lparr>ap_pvno = PVNO, ap_msgType = MSG_AP_REP, ap_encPart = \<lparr>ed_etype = 19, ed_kvno = None, ed_cipher = x\<rparr>\<rparr> = Inr b"
    "length b \<le> MAX_INPUT_BYTES" .
  have conf: "length (replicate 16 0 :: bytes) = p_confounderBytes sample_profile" by (simp add: sample_profile_def aesSha2Profile_def)
  have u: "usable_key sample_webcrypto (nat 19) (replicate 16 5)" using sample_usable(1) by simp
  from ap_reply_confirmed [OF sample_profile u conf sample_int48_19 sample_part_ok s, of "sample_sent b" "TimeValue 1709210096001" False]
    unwrap_ap_rep(1) [OF s(3)] show ?thesis by (auto simp: sample_sent_def whole_second_def)
qed

lemma mutual_only_on_echo_witness:
  "\<exists>t part b apRep P plain. confirmApRep sample_webcrypto (sample_sent t) = Inr (MutualConfirmed None (Some 7) part False)
    \<and> readApRep b = Inr apRep \<and> client_etype sample_webcrypto (ed_etype (ap_encPart apRep)) = Inr P
    \<and> p_decrypt P (po_sessionKey (sample_sent t)) 12 (ed_cipher (ap_encPart apRep)) = Inr plain \<and> readEncApRepPart plain = Inr part"
proof -
  from sample_confirmed obtain t part where c: "confirmApRep sample_webcrypto (sample_sent t) = Inr (MutualConfirmed None (Some 7) part False)"
    by blast
  from mutual_only_on_echo [OF c] c show ?thesis by blast
qed

text \<open>A service that answers is believed: when it seals the time and the microseconds that the request reported, bare or in a
  context token, the client that checks them against what it sent holds the context for mutually authenticated and takes over the
  service's subkey and sequence number.\<close>

theorem ap_exchange_completes:
  assumes "buildApReq W D opts = Inr q" and "ao_ticket opts = Some tk" and "ht_ticket tk = Some raw" and "ht_sessionKey tk = Some sk"
    and "ap_ok D opts tk" and "confounded D" and "usable_key W (nat (ht_etype tk)) sk" and "length (aq_apReq q) \<le> MAX_INPUT_BYTES"
    and "client_etype W (ht_etype tk) = Inr P" and "length conf = p_confounderBytes P"
    and "pred_option encryption_key_ok s" and "pred_option int48 n"
    and "encEncApRepPart \<lparr>ea_ctime = aq_ctime q, ea_cusec = aq_cusec q, ea_subkey = s, ea_seqNumber = n\<rparr> = Inr plain"
    and "p_encrypt P sk 12 conf plain = Inr x"
    and "encApRep \<lparr>ap_pvno = PVNO, ap_msgType = MSG_AP_REP, ap_encPart = \<lparr>ed_etype = ht_etype tk, ed_kvno = None, ed_cipher = x\<rparr>\<rparr> = Inr b"
    and "length b \<le> MAX_INPUT_BYTES" and "if w then encodeInitialContextToken AP_REP b = Inr t else t = b"
  shows "\<exists>part. confirmApRep W \<lparr>po_reply = t, po_sessionKey = sk, po_sentCtime = Some (aq_ctime q), po_sentCusec = Some (aq_cusec q)\<rparr>
    = Inr (MutualConfirmed s n part w)"
proof -
  obtain "time_ok (aq_ctime q)" "int48 (aq_cusec q)" by (rule ap_request_reads [OF assms(1-8)])
  then have part: "enc_ap_rep_part_ok \<lparr>ea_ctime = aq_ctime q, ea_cusec = aq_cusec q, ea_subkey = s, ea_seqNumber = n\<rparr>"
    and whole: "whole_second (aq_ctime q) = aq_ctime q"
    using assms(11,12) by (auto simp: enc_ap_rep_part_ok_def whole_second_def time_ok_def split: js_date.splits)
  have i: "int48 (ht_etype tk)" using assms(5) by (simp add: ap_ok_def)
  have "unwrap_ap_reply t = Inr (b, w)" using assms(17) unwrap_ap_rep [OF assms(15)] by (cases w) simp_all
  with ap_reply_confirmed [OF assms(9,7,10) i part assms(13) assms(14) [folded key_usages] assms(15,16)] whole show ?thesis by simp
qed

lemma ap_exchange_completes_witness:
  "\<exists>q t part. buildApReq sample_webcrypto sample_draws sample_ap_options = Inr q
    \<and> confirmApRep sample_webcrypto \<lparr>po_reply = t, po_sessionKey = replicate 16 5, po_sentCtime = Some (aq_ctime q), po_sentCusec = Some (aq_cusec q)\<rparr>
      = Inr (MutualConfirmed None (Some 7) part False)"
proof -
  obtain q where q: "buildApReq sample_webcrypto sample_draws sample_ap_options = Inr q" "length (aq_apReq q) \<le> MAX_INPUT_BYTES"
    "aq_ctime q = TimeValue 1709210096000" "aq_cusec q = 1000" by (rule sample_ap_built)
  from sample_reply_sealed obtain plain x b where
    s: "encEncApRepPart \<lparr>ea_ctime = TimeValue 1709210096000, ea_cusec = 1000, ea_subkey = None, ea_seqNumber = Some 7\<rparr> = Inr plain"
    "p_encrypt sample_profile (replicate 16 5) AP_REP_ENCPART (replicate 16 0) plain = Inr x"
    "encApRep \<lparr>ap_pvno = PVNO, ap_msgType = MSG_AP_REP, ap_encPart = \<lparr>ed_etype = 19, ed_kvno = None, ed_cipher = x\<rparr>\<rparr> = Inr b"
    "length b \<le> MAX_INPUT_BYTES" .
  have tk: "ao_ticket sample_ap_options = Some sample_tgt" by (simp add: sample_ap_options_def)
  have u: "usable_key sample_webcrypto (nat (ht_etype sample_tgt)) (replicate 16 5)" by (simp add: sample_selects sample_usable)
  have "\<exists>part. confirmApRep sample_webcrypto \<lparr>po_reply = b, po_sessionKey = replicate 16 5, po_sentCtime = Some (aq_ctime q), po_sentCusec = Some (aq_cusec q)\<rparr>
      = Inr (MutualConfirmed None (Some 7) part False)"
    by (rule ap_exchange_completes [OF q(1) tk sample_selects(5,6) sample_ap_ok sample_usable(2) u q(2), where P = sample_profile
          and conf = "replicate 16 0" and plain = plain and x = x and b = b])
      (use s(1,3,4) s(2) [unfolded key_usages] in \<open>simp_all add: sample_selects sample_profile q sample_ap_int48\<close>,
        simp add: sample_profile_def aesSha2Profile_def)
  with q(1) show ?thesis by blast
qed

end
