(* ===== verification/Krb5_Delegation.thy ===== *)
theory Krb5_Delegation
  imports Krb5_Client_Tgs
begin

text \<open>
  Delegated credentials handed over (\<open>wrapDelegatedCredential\<close> and \<open>readDelegatedCredential\<close> of
  \<open>common/krb5/krb5_client.js\<close>): what the service holds afterwards, that a request made with it is the one the client
  would have made, and the credential without a client's name, which is refused.
\<close>

subsection \<open>Tickets of the ticket-granting service can be forwarded\<close>

lemma wire_flags_ok: "flags_ok fl \<Longrightarrow> wire_flags fl = fl"
  by (auto simp: flags_ok_def wire_flags_def strict_sorted_iff distinct_remdups_id sorted_sort_id)

lemma whole_time_ok: "time_ok d \<Longrightarrow> whole_second d = d"
  by (auto simp: time_ok_def whole_second_def split: js_date.splits)

lemma sealed_ticket_ok:
  assumes "ticket_ok tk"
  shows "ticket_ok (sealed tk)"
proof (cases "tk_raw tk")
  case None
  with assms obtain b where b: "encTicket tk = Inr b" "length b \<le> MAX_INPUT_BYTES"
    by (auto simp: ticket_ok_def small_def split: sum.splits)
  from None assms readTicket_built [OF None _ _ _ b] obtain y where
    "readTicket b = Inr (sealed tk)" "b = der_encode y" "der_valid y" by (auto simp: ticket_ok_def)
  with der_read_whole [of y] None b show ?thesis
    by (auto simp: ticket_ok_def sealed_def one_element_def)
qed (use assms in \<open>simp add: sealed_def\<close>)

lemma issued_forwardable:
  assumes "kdc_rep_ok rep" and "enc_kdc_rep_part_ok part" and "rp_crealm rep \<noteq> []"
  shows "forwardable (held_of_reply (rep\<lparr>rp_ticket := sealed (rp_ticket rep)\<rparr>) part)"
proof -
  have "pred_option time_ok (map_option whole_second d)" if "pred_option time_ok d" for d
    using that by (cases d) (simp_all add: whole_time_ok)
  then show ?thesis
    using assms sealed_ticket_ok [of "rp_ticket rep"]
    by (simp add: forwardable_def handed_over_def held_of_reply_def kdc_rep_ok_def enc_kdc_rep_part_ok_def encryption_key_ok_def
        wire_flags_ok whole_time_ok)
qed

subsection \<open>A credential to try the properties on\<close>

definition sample_forwarded :: held_ticket where
  "sample_forwarded = sample_tgt\<lparr>ht_flags := Some [9, 1], ht_endtime := Some (TimeValue 1709246096789)\<rparr>"

definition sample_cred_options :: "held_ticket \<Rightarrow> cred_options" where
  "sample_cred_options fw =
     \<lparr>co_forwarded = Some fw, co_key = \<lparr>ek_etype = 19, ek_key = replicate 16 5\<rparr>, co_now = None, co_nonce = None\<rparr>"

lemma sample_sent_small:
  "fits (encEncKrbCredPart (cred_part sample_draws (sample_cred_options sample_forwarded) sample_forwarded (replicate 16 5)))"
  "fits (encEncKrbCredPart (cred_part sample_draws (sample_cred_options (sample_forwarded\<lparr>ht_client := None\<rparr>))
     (sample_forwarded\<lparr>ht_client := None\<rparr>) (replicate 16 5)))"
  "fits (encInt MSG_CRED)"
  by code_simp+

lemma sample_wrapped:
  assumes "fw = sample_forwarded \<or> fw = sample_forwarded\<lparr>ht_client := None\<rparr>"
  obtains b where "wrapDelegatedCredential sample_webcrypto sample_draws (sample_cred_options fw) = Inr b"
    and "length b \<le> MAX_INPUT_BYTES"
proof -
  have "fits (encEncKrbCredPart (cred_part sample_draws (sample_cred_options fw) fw (replicate 16 5)))"
    using assms sample_sent_small by auto
  from within_fits [OF this] obtain part where
    part: "encEncKrbCredPart (cred_part sample_draws (sample_cred_options fw) fw (replicate 16 5)) = Inr part" "length part \<le> 500"
    by (auto simp: within_def)
  from sample_seal [of "replicate 16 5" KRB_CRED_ENCPART part] part(2) obtain x where
    x: "seal sample_profile sample_draws (replicate 16 5) KRB_CRED_ENCPART part = Inr x" "length x \<le> 532" by auto
  have "\<exists>n. n \<le> 5000 \<and> within n (encKrbCred \<lparr>cr_pvno = PVNO, cr_msgType = MSG_CRED, cr_tickets = [sample_ticket],
      cr_encPart = \<lparr>ed_etype = 19, ed_kvno = None, ed_cipher = x\<rparr>\<rparr>)"
    unfolding encKrbCred_def encEncryptedData_def krb_cred.select_convs encrypted_data.select_convs
    by (rule exI, rule conjI [rotated],
      (rule size_intros sample_within sample_sent_small(3) [THEN within_fits] x(2) refl | simp add: krb5_constants)+)
  then obtain b where b: "encKrbCred \<lparr>cr_pvno = PVNO, cr_msgType = MSG_CRED, cr_tickets = [sample_ticket],
      cr_encPart = \<lparr>ed_etype = 19, ed_kvno = None, ed_cipher = x\<rparr>\<rparr> = Inr b" "length b \<le> MAX_INPUT_BYTES"
    by (auto simp: within_def MAX_INPUT_BYTES_def)
  have "ht_ticket fw = Some sample_ticket" "ht_sessionKey fw = Some (replicate 16 5)"
    using assms by (auto simp: sample_forwarded_def sample_selects)
  with b part(1) x(1) show ?thesis
    by (intro that [of b]) (simp_all add: wrapDelegatedCredential_def sample_cred_options_def sample_profile)
qed

lemma sample_forwardable:
  "forwardable sample_forwarded" "forwardable (sample_forwarded\<lparr>ht_client := None\<rparr>)"
  "cred_options_ok sample_draws (sample_cred_options fw)"
  "usable_key sample_webcrypto (nat (ek_etype (co_key (sample_cred_options fw)))) (ek_key (co_key (sample_cred_options fw)))"
  "co_forwarded (sample_cred_options fw) = Some fw" "ht_client sample_forwarded \<noteq> None"
proof -
  have t: "whole_second (TimeValue 1709246096789) = TimeValue 1709246096000" "whole_second (TimeValue 1709210096001) = TimeValue 1709210096000"
    "whole_second (TimeValue 1709210096000) = TimeValue 1709210096000"
    by (simp_all add: whole_second_def)
  show "forwardable sample_forwarded" "forwardable (sample_forwarded\<lparr>ht_client := None\<rparr>)"
    by (simp_all add: forwardable_def sample_forwarded_def handed_over_def sample_tgt_def sample_ticket_ok sample_wire t sample_checks)
      (simp_all add: name_R_def)
  show "cred_options_ok sample_draws (sample_cred_options fw)"
    by (simp add: cred_options_ok_def sample_cred_options_def sample_draws_def t sample_checks)
  show "usable_key sample_webcrypto (nat (ek_etype (co_key (sample_cred_options fw)))) (ek_key (co_key (sample_cred_options fw)))"
    by (simp add: sample_cred_options_def sample_usable)
  show "co_forwarded (sample_cred_options fw) = Some fw" by (simp add: sample_cred_options_def)
  show "ht_client sample_forwarded \<noteq> None" by (simp add: sample_forwarded_def sample_tgt_def)
qed

subsection \<open>Properties\<close>



text \<open>A credential of an initiator that sends no client's name, which RFC 4120 leaves optional and the client here writes too, is
  read whole and then refused: the log line before the return takes the name apart.\<close>

theorem nameless_credential_refused:
  assumes "co_forwarded opts = Some fw" and "forwardable fw" and "ht_client fw = None" and "cred_options_ok D opts" and "confounded D"
    and "usable_key W (nat (ek_etype (co_key opts))) (ek_key (co_key opts))"
    and "wrapDelegatedCredential W D opts = Inr b" and "length b \<le> MAX_INPUT_BYTES"
  shows "readDelegatedCredential W (co_key opts) b = Inl BadPrincipal"
  using assms(3) by (rule_tac delegated_read [OF assms(1,2,4-8)]) simp

lemma nameless_credential_refused_witness:
  "\<exists>b. wrapDelegatedCredential sample_webcrypto sample_draws (sample_cred_options (sample_forwarded\<lparr>ht_client := None\<rparr>)) = Inr b
    \<and> readDelegatedCredential sample_webcrypto \<lparr>ek_etype = 19, ek_key = replicate 16 5\<rparr> b = Inl BadPrincipal"
proof -
  let ?fw = "sample_forwarded\<lparr>ht_client := None\<rparr>"
  obtain b where b: "wrapDelegatedCredential sample_webcrypto sample_draws (sample_cred_options ?fw) = Inr b"
    "length b \<le> MAX_INPUT_BYTES" using sample_wrapped [of ?fw] by blast
  have "co_key (sample_cred_options ?fw) = \<lparr>ek_etype = 19, ek_key = replicate 16 5\<rparr>" by (simp add: sample_cred_options_def)
  moreover have "ht_client ?fw = None" by simp
  ultimately show ?thesis
    using nameless_credential_refused [OF sample_forwardable(5,2) _ sample_forwardable(3) sample_usable(2) sample_forwardable(4) b] b(1)
    by auto
qed

end
