(* ===== verification/Krb5_Keytab.thy ===== *)
theory Krb5_Keytab
  imports Krb5_Crypto Reader_Interfaces
begin

text \<open>
  MIT keytab files (\<open>common/krb5/krb5_keytab.js\<close>): the reader closure of \<open>reader\<close>, the loop of
  \<open>parseKeytab\<close> and \<open>keysFromKeytab\<close>.  The closure's variable \<open>at\<close> is the offset a cursor threads; the
  byte order fixed when it is made is the argument \<open>be\<close>.  A negative entry size is a deleted slot and
  skipped, size zero ends the file; a time stamp is the number of milliseconds of the \<open>Date\<close>.

  The properties: what the MIT tools write (live and deleted slots in any order, either byte order, with or
  without the 32-bit version number, with padding behind it) is read back exactly; the reader needs nothing but
  the buffer and stops after \<open>MAX_ENTRIES\<close> slots.
\<close>

definition MAX_KEYTAB_BYTES :: nat where "MAX_KEYTAB_BYTES = 1024 * 1024"

definition MAX_ENTRIES :: nat where "MAX_ENTRIES = 4096"

datatype keytab_error =
    KeytabTooLarge nat
  | KeytabTooShort
  | NotAKeytab byte
  | UnknownKeytabVersion byte
  | KeytabTruncated nat
  | StringPastEnd nat
  | KeyPastEnd nat
  | EntryPastEnd nat int nat "nat option"
  | TooManyComponents nat int

record keytab_entry =
  ke_realm :: string
  ke_components :: "string list"
  ke_principal :: string
  ke_nameType :: nat
  ke_timestamp :: "nat option"
  ke_kvno :: nat
  ke_etype :: nat
  ke_etypeName :: string
  ke_supported :: bool
  ke_key :: bytes

record keytab =
  kt_version :: nat
  kt_bigEndian :: bool
  kt_entries :: "keytab_entry list"
  kt_deletedSlots :: nat

record keytab_key =
  kk_etype :: nat
  kk_key :: bytes
  kk_label :: string

subsection \<open>The reader\<close>

definition ordered_nat :: "bool \<Rightarrow> bytes \<Rightarrow> nat" where
  "ordered_nat be bs = (if be then be_nat bs else le_nat bs)"

text \<open>The value of 32 bits read as a signed number, and what \<open>>>> 0\<close> makes of it.\<close>

definition signed32 :: "nat \<Rightarrow> int" where
  "signed32 n = (if n < 2 ^ 31 then int n else int n - 2 ^ 32)"

definition unsigned32 :: "int \<Rightarrow> nat" where
  "unsigned32 i = nat (i mod 2 ^ 32)"

definition kt_u8 :: "(keytab_error, byte) cursor" where
  "kt_u8 b at = (if length b < at + 1 then Inl (KeytabTruncated at) else Inr (b ! at, at + 1))"

definition kt_u16 :: "bool \<Rightarrow> (keytab_error, nat) cursor" where
  "kt_u16 be b at =
     (if length b < at + 2 then Inl (KeytabTruncated at)
      else Inr (ordered_nat be (take 2 (drop at b)), at + 2))"

definition kt_i32 :: "bool \<Rightarrow> (keytab_error, int) cursor" where
  "kt_i32 be b at =
     (if length b < at + 4 then Inl (KeytabTruncated at)
      else Inr (signed32 (ordered_nat be (take 4 (drop at b))), at + 4))"

definition kt_u32 :: "bool \<Rightarrow> (keytab_error, nat) cursor" where
  "kt_u32 be = cbind (kt_i32 be) (\<lambda>i. cret (unsigned32 i))"

definition counted :: "(nat \<Rightarrow> keytab_error) \<Rightarrow> nat \<Rightarrow> (keytab_error, bytes) cursor" where
  "counted err n b at =
     (if length b < at + n then Inl (err n) else Inr (take n (drop at b), at + n))"

definition countedString :: "bool \<Rightarrow> (keytab_error, string) cursor" where
  "countedString be =
     cbind (kt_u16 be) (\<lambda>n. cbind (counted StringPastEnd n) (\<lambda>bs. cret (map (\<lambda>c. char_of (unat c)) bs)))"

definition countedBytes :: "bool \<Rightarrow> (keytab_error, bytes) cursor" where
  "countedBytes be = cbind (kt_u16 be) (\<lambda>n. counted KeyPastEnd n)"

subsection \<open>Entries\<close>

fun join_slash :: "string list \<Rightarrow> string" where
  "join_slash [] = []"
| "join_slash [x] = x"
| "join_slash (x # y # zs) = x @ ''/'' @ join_slash (y # zs)"

definition isSupportedEtype :: "webcrypto \<Rightarrow> nat \<Rightarrow> bool" where
  "isSupportedEtype W i = (ETYPES W i \<noteq> None)"

definition keytab_entry_of ::
    "webcrypto \<Rightarrow> string \<Rightarrow> string list \<Rightarrow> nat \<Rightarrow> nat \<Rightarrow> nat \<Rightarrow> nat \<Rightarrow> bytes \<Rightarrow> keytab_entry" where
  "keytab_entry_of W realm components nameType timestamp kvno keyType keyValue =
     \<lparr>ke_realm = realm, ke_components = components,
      ke_principal = join_slash components @ ''@'' @ realm, ke_nameType = nameType,
      ke_timestamp = (if timestamp = 0 then None else Some (timestamp * 1000)), ke_kvno = kvno,
      ke_etype = keyType, ke_etypeName = etypeName W keyType,
      ke_supported = isSupportedEtype W keyType, ke_key = keyValue\<rparr>"

definition component_count :: "byte \<Rightarrow> nat \<Rightarrow> int" where
  "component_count version n = (if version = 1 then int n - 1 else int n)"

definition read_entry ::
    "webcrypto \<Rightarrow> byte \<Rightarrow> bool \<Rightarrow> nat \<Rightarrow> nat \<Rightarrow> (keytab_error, keytab_entry) cursor" where
  "read_entry W version be start entryEnd =
     cbind (kt_u16 be) (\<lambda>n.
     let numComponents = component_count version n in
     if numComponents < 0 \<or> 16 < numComponents then cfail (TooManyComponents start numComponents)
     else
       cbind (countedString be) (\<lambda>realm.
       cbind (read_times (nat numComponents) (countedString be)) (\<lambda>components.
       cbind (if version = 2 then kt_u32 be else cret 0) (\<lambda>nameType.
       cbind (kt_u32 be) (\<lambda>timestamp.
       cbind kt_u8 (\<lambda>vno8.
       cbind (kt_u16 be) (\<lambda>keyType.
       cbind (countedBytes be) (\<lambda>keyValue.
       cbind (\<lambda>b at. if at + 4 \<le> entryEnd then kt_u32 be b at else Inr (unat vno8, at)) (\<lambda>kvno.
       cret (keytab_entry_of W realm components nameType timestamp kvno keyType keyValue))))))))))"

text \<open>The hint of the error message: the size read in the other byte order.\<close>

definition size_hint :: "bool \<Rightarrow> bytes \<Rightarrow> nat \<Rightarrow> int \<Rightarrow> nat option" where
  "size_hint be b start sz =
     (if 0xffff < sz then Some (ordered_nat (\<not> be) (take 4 (drop start b))) else None)"

function parse_entries ::
    "webcrypto \<Rightarrow> byte \<Rightarrow> bool \<Rightarrow> bytes \<Rightarrow> nat \<Rightarrow> keytab_entry list \<Rightarrow> nat
      \<Rightarrow> keytab_error + keytab_entry list \<times> nat" where
  "parse_entries W version be b start entries deleted =
     (if start + 4 \<le> length b \<and> length entries + deleted < MAX_ENTRIES
      then
        (case kt_i32 be b start of
           Inl e \<Rightarrow> Inl e
         | Inr (sz, at) \<Rightarrow>
             if sz = 0 then Inr (entries, deleted)
             else if sz < 0 then
               parse_entries W version be b (start + 4 + nat \<bar>sz\<bar>) entries (deleted + 1)
             else
               (let entryEnd = start + 4 + nat sz in
                if length b < entryEnd
                then Inl (EntryPastEnd start sz (length b - start - 4) (size_hint be b start sz))
                else
                  (case read_entry W version be start entryEnd b at of
                     Inl e \<Rightarrow> Inl e
                   | Inr (x, _) \<Rightarrow> parse_entries W version be b entryEnd (entries @ [x]) deleted)))
      else Inr (entries, deleted))"
  by pat_completeness auto
termination
  by (relation "measure (\<lambda>(W, v, be, b, start, es, d). length b - start)") auto

declare parse_entries.simps [simp del]

definition parseKeytab :: "webcrypto \<Rightarrow> bytes \<Rightarrow> keytab_error + keytab" where
  "parseKeytab W b =
     (if MAX_KEYTAB_BYTES < length b then Inl (KeytabTooLarge (length b))
      else if length b < 4 then Inl KeytabTooShort
      else if b ! 0 \<noteq> 5 then Inl (NotAKeytab (b ! 0))
      else
        (let version = b ! 1 in
         if version \<noteq> 1 \<and> version \<noteq> 2 then Inl (UnknownKeytabVersion version)
         else
           (let be = (version = 2) in
            case parse_entries W version be b 2 [] 0 of
              Inl e \<Rightarrow> Inl e
            | Inr (entries, deleted) \<Rightarrow>
                Inr \<lparr>kt_version = 0x0500 OR unat version, kt_bigEndian = be, kt_entries = entries,
                     kt_deletedSlots = deleted\<rparr>)))"

definition keysFromKeytab :: "keytab \<Rightarrow> keytab_key list" where
  "keysFromKeytab parsed =
     map (\<lambda>e. \<lparr>kk_etype = ke_etype e, kk_key = ke_key e,
               kk_label = ''keytab '' @ ke_principal e @ '' (kvno '' @ show_nat (ke_kvno e) @ '', '' @
                 ke_etypeName e @ '')''\<rparr>)
       (filter ke_supported (kt_entries parsed))"

subsection \<open>What a keytab writer produces\<close>

text \<open>The reference format: numbers of a fixed width in the file's byte order, counted strings, and slots.\<close>

definition ordered_bytes :: "bool \<Rightarrow> nat \<Rightarrow> nat \<Rightarrow> bytes" where
  "ordered_bytes be w n = (if be then be_fixed w n else rev (be_fixed w n))"

definition enc_counted :: "bool \<Rightarrow> bytes \<Rightarrow> bytes" where
  "enc_counted be bs = ordered_bytes be 2 (length bs) @ bs"

definition latin1 :: "string \<Rightarrow> bytes" where
  "latin1 s = map (\<lambda>c. word_of_nat (of_char c)) s"

record live_slot =
  ls_realm :: string
  ls_components :: "string list"
  ls_nameType :: nat
  ls_timestamp :: nat
  ls_vno8 :: byte
  ls_etype :: nat
  ls_key :: bytes
  ls_vno32 :: "nat option"
  ls_padding :: bytes

datatype slot = Live live_slot | Deleted bytes

definition enc_entry :: "byte \<Rightarrow> bool \<Rightarrow> live_slot \<Rightarrow> bytes" where
  "enc_entry version be e =
     ordered_bytes be 2 (length (ls_components e) + (if version = 1 then 1 else 0)) @
     enc_counted be (latin1 (ls_realm e)) @
     concat (map (\<lambda>c. enc_counted be (latin1 c)) (ls_components e)) @
     (if version = 2 then ordered_bytes be 4 (ls_nameType e) else []) @
     ordered_bytes be 4 (ls_timestamp e) @ [ls_vno8 e] @ ordered_bytes be 2 (ls_etype e) @
     enc_counted be (ls_key e)"

definition enc_vno32 :: "bool \<Rightarrow> live_slot \<Rightarrow> bytes" where
  "enc_vno32 be e = (case ls_vno32 e of None \<Rightarrow> [] | Some v \<Rightarrow> ordered_bytes be 4 v)"

fun enc_slot :: "byte \<Rightarrow> bool \<Rightarrow> slot \<Rightarrow> bytes" where
  "enc_slot version be (Live e) =
     (let body = enc_entry version be e @ enc_vno32 be e @ ls_padding e
      in ordered_bytes be 4 (length body) @ body)"
| "enc_slot version be (Deleted room) =
     ordered_bytes be 4 (2 ^ 32 - length room) @ room"

definition live_ok :: "byte \<Rightarrow> live_slot \<Rightarrow> bool" where
  "live_ok version e \<longleftrightarrow>
     length (ls_realm e) < 2 ^ 16 \<and> length (ls_components e) \<le> 16 \<and>
     (\<forall>c\<in>set (ls_components e). length c < 2 ^ 16) \<and>
     (if version = 2 then ls_nameType e < 2 ^ 32 else ls_nameType e = 0) \<and>
     ls_timestamp e < 2 ^ 32 \<and> ls_etype e < 2 ^ 16 \<and> length (ls_key e) < 2 ^ 16 \<and>
     (case ls_vno32 e of None \<Rightarrow> length (ls_padding e) < 4 | Some v \<Rightarrow> v < 2 ^ 32)"

fun slot_ok :: "byte \<Rightarrow> slot \<Rightarrow> bool" where
  "slot_ok version (Live e) = live_ok version e"
| "slot_ok version (Deleted room) = (room \<noteq> [])"

definition read_back :: "webcrypto \<Rightarrow> live_slot \<Rightarrow> keytab_entry" where
  "read_back W e =
     keytab_entry_of W (ls_realm e) (ls_components e) (ls_nameType e) (ls_timestamp e)
       (case ls_vno32 e of None \<Rightarrow> unat (ls_vno8 e) | Some v \<Rightarrow> v) (ls_etype e) (ls_key e)"

definition live_of :: "slot list \<Rightarrow> live_slot list" where
  "live_of slots = concat (map (\<lambda>s. case s of Live e \<Rightarrow> [e] | Deleted _ \<Rightarrow> []) slots)"

subsection \<open>Reading numbers and strings\<close>

lemma length_ordered_bytes [simp]: "length (ordered_bytes be w n) = w"
  by (simp add: ordered_bytes_def)

lemma ordered_nat_bytes [simp]: "n < 256 ^ w \<Longrightarrow> ordered_nat be (ordered_bytes be w n) = n"
  by (simp add: ordered_nat_def ordered_bytes_def le_nat_def)

lemma unsigned32_signed32 [simp]: "n < 2 ^ 32 \<Longrightarrow> unsigned32 (signed32 n) = n"
  by (auto simp: unsigned32_def signed32_def minus_mod_eq_div_mult intro: nat_int_comparison(1)[THEN iffD2])

lemma reads_u8: "reads_at p kt_u8 v [v]"
  by (simp add: reads_at_def kt_u8_def nth_append)

lemma reads_u16: "n < 2 ^ 16 \<Longrightarrow> reads_at p (kt_u16 be) n (ordered_bytes be 2 n)"
  by (simp add: reads_at_def kt_u16_def)

lemma reads_i32: "n < 2 ^ 32 \<Longrightarrow> reads_at p (kt_i32 be) (signed32 n) (ordered_bytes be 4 n)"
  by (simp add: reads_at_def kt_i32_def)

lemma reads_u32: "n < 2 ^ 32 \<Longrightarrow> reads_at p (kt_u32 be) n (ordered_bytes be 4 n)"
  using reads_at_last [OF reads_i32, of n p be unsigned32] by (simp add: kt_u32_def)

lemma reads_counted: "reads_at p (counted err (length bs)) bs bs"
  by (simp add: reads_at_def counted_def)

lemma reads_countedBytes: "length bs < 2 ^ 16 \<Longrightarrow> reads_at p (countedBytes be) bs (enc_counted be bs)"
  unfolding countedBytes_def enc_counted_def
  by (intro reads_at_cbind [OF reads_u16]) (simp_all add: reads_counted)

lemma chars_latin1 [simp]: "map (\<lambda>c. char_of (unat c)) (latin1 s) = s"
  by (induction s) (simp_all add: latin1_def unat_of_nat)

lemma length_latin1 [simp]: "length (latin1 s) = length s"
  by (simp add: latin1_def)

lemma reads_countedString:
  "length s < 2 ^ 16 \<Longrightarrow> reads_at p (countedString be) s (enc_counted be (latin1 s))"
  unfolding countedString_def enc_counted_def
  using reads_at_last [OF reads_counted [of _ StringPastEnd "latin1 s"], of _ "map (\<lambda>c. char_of (unat c))"]
  by (intro reads_at_cbind [OF reads_u16]) (simp_all del: map_map)

subsection \<open>Reading entries and slots\<close>

lemma reads_vno32:
  assumes "live_ok version e" and "entryEnd = p + length (enc_vno32 be e @ ls_padding e)"
  shows "reads_at p (\<lambda>b at. if at + 4 \<le> entryEnd then kt_u32 be b at else Inr (unat (ls_vno8 e), at))
    (case ls_vno32 e of None \<Rightarrow> unat (ls_vno8 e) | Some v \<Rightarrow> v) (enc_vno32 be e)"
proof (cases "ls_vno32 e")
  case None
  with assms show ?thesis by (simp add: reads_at_def enc_vno32_def live_ok_def)
next
  case (Some v)
  with assms have "reads_at p (kt_u32 be) v (ordered_bytes be 4 v)"
    by (intro reads_u32) (simp add: live_ok_def)
  with Some assms(2) show ?thesis by (simp add: reads_at_def enc_vno32_def)
qed

lemma component_count_written [simp]:
  "component_count version (n + (if version = 1 then 1 else 0)) = int n"
  by (simp add: component_count_def)

lemma reads_entry:
  assumes ok: "live_ok version e"
    and E: "entryEnd = p + length (enc_entry version be e @ enc_vno32 be e @ ls_padding e)"
  shows "reads_at p (read_entry W version be start entryEnd) (read_back W e)
    (enc_entry version be e @ enc_vno32 be e)"
proof -
  let ?n = "length (ls_components e) + (if version = 1 then 1 else 0)"
  note [simp del] = read_times.simps
  have small: "?n < 2 ^ 16" "length (ls_realm e) < 2 ^ 16" "ls_timestamp e < 2 ^ 32"
      "ls_etype e < 2 ^ 16" "length (ls_key e) < 2 ^ 16"
    and comps: "length (ls_components e) \<le> 16" "\<And>c. c \<in> set (ls_components e) \<Longrightarrow> length c < 2 ^ 16"
    using ok by (auto simp: live_ok_def)
  have names: "reads_at q (read_times (length (ls_components e)) (countedString be)) (ls_components e)
      (concat (map (\<lambda>c. enc_counted be (latin1 c)) (ls_components e)))" for q
    by (intro reads_at_times reads_countedString comps)
  have name_type: "reads_at q (if version = 2 then kt_u32 be else cret 0) (ls_nameType e)
      (if version = 2 then ordered_bytes be 4 (ls_nameType e) else [])" for q
    using ok by (auto simp: live_ok_def intro: reads_u32)
  have kvno: "reads_at q (cbind (\<lambda>b at. if at + 4 \<le> entryEnd then kt_u32 be b at else Inr (unat (ls_vno8 e), at))
        (\<lambda>kvno. cret (keytab_entry_of W (ls_realm e) (ls_components e) (ls_nameType e) (ls_timestamp e) kvno
          (ls_etype e) (ls_key e))))
      (read_back W e) (enc_vno32 be e)" if "q = p + length (enc_entry version be e)" for q
    unfolding read_back_def using ok E that by (intro reads_at_last reads_vno32) simp_all
  have credible: "\<not> (int (length (ls_components e)) < 0 \<or> 16 < int (length (ls_components e)))"
    using comps by simp
  show ?thesis
    unfolding read_entry_def enc_entry_def append_assoc
    by (rule reads_at_cbind [OF reads_u16 [OF small(1)]],
        unfold component_count_written Let_def if_not_P [OF credible] nat_int,
        rule reads_at_cbind, rule reads_countedString [OF small(2)], rule reads_at_cbind, rule names,
        rule reads_at_cbind, rule name_type, rule reads_at_cbind, rule reads_u32 [OF small(3)],
        rule reads_at_cbind, rule reads_u8, rule reads_at_cbind, rule reads_u16 [OF small(4)],
        rule reads_at_cbind, rule reads_countedBytes [OF small(5)], rule kvno)
      (simp add: enc_entry_def)
qed

subsection \<open>Reading files\<close>

definition deleted_of :: "slot list \<Rightarrow> nat" where
  "deleted_of slots = length (filter (\<lambda>s. case s of Live _ \<Rightarrow> False | Deleted _ \<Rightarrow> True) slots)"

definition ends_file :: "bytes \<Rightarrow> bool" where
  "ends_file rest \<longleftrightarrow> length rest < 4 \<or> take 4 rest = [0, 0, 0, 0]"

lemma slot_counts [simp]:
  "live_of [] = []" "live_of (Live e # ss) = e # live_of ss" "live_of (Deleted r # ss) = live_of ss"
  "deleted_of [] = 0" "deleted_of (Live e # ss) = deleted_of ss" "deleted_of (Deleted r # ss) = Suc (deleted_of ss)"
  by (simp_all add: live_of_def deleted_of_def)

lemma parse_live:
  assumes ok: "live_ok version e" and small: "length (enc_slot version be (Live e)) < 2 ^ 31"
    and room: "length entries + deleted < MAX_ENTRIES"
  shows "parse_entries W version be (pre @ enc_slot version be (Live e) @ suf) (length pre) entries deleted =
    parse_entries W version be (pre @ enc_slot version be (Live e) @ suf)
      (length (pre @ enc_slot version be (Live e))) (entries @ [read_back W e]) deleted"
proof -
  define body where "body = enc_entry version be e @ enc_vno32 be e @ ls_padding e"
  define b where "b = pre @ enc_slot version be (Live e) @ suf"
  have slot: "enc_slot version be (Live e) = ordered_bytes be 4 (length body) @ body"
    by (simp add: body_def Let_def)
  have len: "0 < length body" "length body < 2 ^ 31"
    using small [unfolded slot] by (simp add: body_def enc_entry_def, simp)
  have b: "b = pre @ ordered_bytes be 4 (length body) @ (body @ suf)"
    "b = (pre @ ordered_bytes be 4 (length body)) @ (enc_entry version be e @ enc_vno32 be e) @ (ls_padding e @ suf)"
    unfolding b_def slot by (simp_all only: append_assoc) (simp only: body_def append_assoc)
  let ?E = "length pre + 4 + length body"
  have "reads_at (length pre) (kt_i32 be) (signed32 (length body)) (ordered_bytes be 4 (length body))"
    using len by (intro reads_i32) simp
  from reads_atD [OF this] len have sz: "kt_i32 be b (length pre) = Inr (int (length body), length pre + 4)"
    unfolding b(1) by (simp add: signed32_def)
  have "reads_at (length (pre @ ordered_bytes be 4 (length body))) (read_entry W version be (length pre) ?E)
      (read_back W e) (enc_entry version be e @ enc_vno32 be e)"
    by (rule reads_entry [OF ok]) (simp add: body_def)
  from reads_atD [OF this, of "ls_padding e @ suf"]
  have entry: "\<exists>q. read_entry W version be (length pre) ?E b (length pre + 4) = Inr (read_back W e, q)"
    unfolding b(2) by simp
  have E: "length (pre @ enc_slot version be (Live e)) = ?E" "?E \<le> length b"
    by (simp_all add: slot b_def del: enc_slot.simps)
  show ?thesis
    unfolding b_def [symmetric] E(1)
    using sz entry len room E(2) by (subst parse_entries.simps) (auto simp: Let_def)
qed

lemma parse_deleted:
  assumes "gap \<noteq> []" and "length gap < 2 ^ 31" and room: "length entries + deleted < MAX_ENTRIES"
  shows "parse_entries W version be (pre @ enc_slot version be (Deleted gap) @ suf) (length pre) entries deleted =
    parse_entries W version be (pre @ enc_slot version be (Deleted gap) @ suf)
      (length (pre @ enc_slot version be (Deleted gap))) entries (deleted + 1)"
proof -
  define b where "b = pre @ enc_slot version be (Deleted gap) @ suf"
  let ?n = "2 ^ 32 - length gap"
  have b: "b = pre @ ordered_bytes be 4 ?n @ (gap @ suf)" by (simp add: b_def)
  have "0 < length gap" using assms(1) by simp
  with assms(2) have n: "?n < 2 ^ 32" "signed32 ?n = - int (length gap)"
    by (auto simp: signed32_def)
  from reads_atD [OF reads_i32 [OF n(1)], where pre = pre and suf = "gap @ suf"]
  have sz: "kt_i32 be b (length pre) = Inr (- int (length gap), length pre + 4)"
    unfolding b n(2) by simp
  have E: "length (pre @ enc_slot version be (Deleted gap)) = length pre + 4 + length gap"
    "length pre + 4 \<le> length b"
    by (simp_all add: b)
  show ?thesis
    unfolding b_def [symmetric] E(1)
    using sz \<open>0 < length gap\<close> room E(2) by (subst parse_entries.simps) simp
qed

lemma parse_end:
  assumes "ends_file rest"
  shows "parse_entries W version be (pre @ rest) (length pre) entries deleted = Inr (entries, deleted)"
proof (cases "length rest < 4")
  case True
  then show ?thesis by (subst parse_entries.simps) simp
next
  case False
  with assms have "kt_i32 be (pre @ rest) (length pre) = Inr (0, length pre + 4)"
    by (simp add: ends_file_def kt_i32_def ordered_nat_def le_nat_def be_nat_def signed32_def)
  then show ?thesis by (subst parse_entries.simps) simp
qed

lemma parse_slots:
  assumes "\<forall>s\<in>set slots. slot_ok version s" and "\<forall>s\<in>set slots. length (enc_slot version be s) < 2 ^ 31"
    and "length entries + deleted + length slots \<le> MAX_ENTRIES" and "ends_file rest"
  shows "parse_entries W version be (pre @ concat (map (enc_slot version be) slots) @ rest) (length pre)
      entries deleted =
    Inr (entries @ map (read_back W) (live_of slots), deleted + deleted_of slots)"
  using assms
proof (induction slots arbitrary: pre entries deleted)
  case Nil
  then show ?case by (simp add: parse_end)
next
  case (Cons s slots)
  let ?tail = "concat (map (enc_slot version be) slots) @ rest"
  show ?case
  proof (cases s)
    case (Live e)
    with Cons.prems show ?thesis
      using parse_live [of version e be entries deleted W pre ?tail]
        Cons.IH [of "entries @ [read_back W e]" deleted "pre @ enc_slot version be s"]
      by (simp del: enc_slot.simps)
  next
    case (Deleted gap)
    then have "length gap < 2 ^ 31" using Cons.prems(2) by simp
    with Deleted Cons.prems show ?thesis
      using parse_deleted [of gap entries deleted W version be pre ?tail]
        Cons.IH [of entries "deleted + 1" "pre @ enc_slot version be s"]
      by (simp del: enc_slot.simps)
  qed
qed

lemma slot_within_file:
  "s \<in> set slots \<Longrightarrow> length (f s) \<le> length (concat (map f slots))"
  by (induction slots) auto

subsection \<open>Properties\<close>

text \<open>C13: what a keytab writer produces is read back exactly: every live slot in order, whatever deleted slots
  lie between them, in either byte order, with the 32-bit version number taken where it is present, and
  with the end of the file marked by a zero size or by fewer than four octets.\<close>

theorem keytab_roundtrip:
  assumes "version \<in> {1, 2}" and "\<forall>s\<in>set slots. slot_ok version s" and "length slots \<le> MAX_ENTRIES"
    and "ends_file rest"
    and "file = [5, version] @ concat (map (enc_slot version (version = 2)) slots) @ rest"
    and "4 \<le> length file" and "length file \<le> MAX_KEYTAB_BYTES"
  shows "parseKeytab W file =
    Inr \<lparr>kt_version = 0x500 OR unat version, kt_bigEndian = (version = 2),
         kt_entries = map (read_back W) (live_of slots), kt_deletedSlots = deleted_of slots\<rparr>"
proof -
  have "length (enc_slot version (version = 2) s) < 2 ^ 31" if "s \<in> set slots" for s
    using slot_within_file [OF that, of "enc_slot version (version = 2)"] assms(5,7)
    by (simp add: MAX_KEYTAB_BYTES_def)
  then have "parse_entries W version (version = 2) file 2 [] 0 =
      Inr (map (read_back W) (live_of slots), deleted_of slots)"
    using parse_slots [of slots version "version = 2" "[]" 0 rest W "[5, version]"] assms(2,3,4)
    by (simp add: assms(5) numeral_2_eq_2)
  moreover have "file ! 0 = 5" "file ! 1 = version" by (simp_all add: assms(5))
  ultimately show ?thesis
    using assms(1,6,7) by (auto simp: parseKeytab_def Let_def)
qed

definition sample_slots :: "slot list" where
  "sample_slots =
     [Deleted [9, 9],
      Live \<lparr>ls_realm = ''R'', ls_components = [''a''], ls_nameType = 1, ls_timestamp = 0, ls_vno8 = 3,
        ls_etype = 23, ls_key = [0xAA], ls_vno32 = Some 300, ls_padding = []\<rparr>]"

lemma keytab_roundtrip_witness:
  "\<exists>file. length file = 38 \<and>
     parseKeytab sample_webcrypto file =
       Inr \<lparr>kt_version = 0x500 OR unat (2 :: byte), kt_bigEndian = ((2 :: byte) = 2),
            kt_entries = map (read_back sample_webcrypto) (live_of sample_slots),
            kt_deletedSlots = deleted_of sample_slots\<rparr>"
proof (intro exI conjI)
  let ?file = "[5, 2 :: byte] @ concat (map (enc_slot 2 ((2 :: byte) = 2)) sample_slots) @ []"
  show len: "length ?file = 38"
    by (simp add: sample_slots_def enc_entry_def enc_vno32_def enc_counted_def)
  show "parseKeytab sample_webcrypto ?file =
      Inr \<lparr>kt_version = 0x500 OR unat (2 :: byte), kt_bigEndian = ((2 :: byte) = 2),
           kt_entries = map (read_back sample_webcrypto) (live_of sample_slots),
           kt_deletedSlots = deleted_of sample_slots\<rparr>"
  proof (rule keytab_roundtrip [OF _ _ _ _ refl])
    show "\<forall>s\<in>set sample_slots. slot_ok 2 s" by (simp add: sample_slots_def live_ok_def)
    show "length sample_slots \<le> MAX_ENTRIES" by (simp add: sample_slots_def MAX_ENTRIES_def)
    show "4 \<le> length ?file" "length ?file \<le> MAX_KEYTAB_BYTES"
      unfolding len by (simp_all add: MAX_KEYTAB_BYTES_def)
  qed (simp_all add: ends_file_def)
qed

end
