(* ===== verification/Cbor.thy ===== *)
theory Cbor
  imports Complex_Main Krb5_Primitives Reader_Interfaces
begin

text \<open>
  The CBOR reader of the WebAuthn pages (\<open>client/src/cbor.js\<close>): \<open>Reader\<close>, \<open>readHead\<close>, \<open>readValue\<close>,
  \<open>decodeFirst\<close> and \<open>decode\<close>.

  A JavaScript number is a rational, an infinity, NaN or the negative zero a float may carry; a \<open>Map\<close> is the
  list of its pairs in insertion order, compared as the language compares map keys (\<open>same_key\<close>: NaN equals
  itself, the zeros are equal, two objects never are).  \<open>TextDecoder\<close> with \<open>fatal\<close> is strict UTF-8 without
  a leading byte order mark.  The depth the source counts up to \<open>MAX_DEPTH\<close> is counted down here: \<open>levels\<close>
  is how many more levels \<open>readValue\<close> may enter.

  The reader is an interpretation of \<open>cursor_reader\<close>; its answers are bounded by the bytes they were read
  from, and what the reference encoder writes is read back.
\<close>

definition MAX_INPUT :: nat where "MAX_INPUT = 2 * 1024 * 1024"

definition MAX_NESTING :: nat where "MAX_NESTING = 32"

datatype jnum = Fin rat | NegZero | Infinite bool | NotANumber

datatype cbor =
    Num jnum
  | ByteString bytes
  | TextString jstring
  | Arr "cbor list"
  | Mapping "(cbor \<times> cbor) list"
  | Tagged nat cbor
  | Boolean bool
  | Null
  | Undefined
  | Simple nat

datatype cbor_error =
    ItemPastEnd nat nat nat
  | UnsafeArgument nat
  | ReservedInformation nat nat
  | TooDeep nat
  | IndefiniteLength nat nat
  | NotUtf8
  | NonScalarKey nat
  | DuplicateKey nat
  | DoubleFloat nat
  | StrayBreak nat
  | NoInput
  | InputTooLarge nat
  | TrailingBytes nat nat

subsection \<open>Heads\<close>

definition cbor_take :: "nat \<Rightarrow> (cbor_error, bytes) cursor" where
  "cbor_take n b off =
     (if length b < off + n then Inl (ItemPastEnd n (length b - off) off)
      else Inr (take n (drop off b), off + n))"

definition cbor_uint :: "nat \<Rightarrow> (cbor_error, nat) cursor" where
  "cbor_uint n = cbind (cbor_take n) (\<lambda>bs. cret (foldl (\<lambda>v c. v * 256 + unat c) 0 bs))"

record cbor_head =
  h_major :: nat
  h_info :: nat
  h_arg :: "nat option"

text \<open>The argument: the low five bits, or the octets behind the initial one.\<close>

definition read_argument :: "nat \<Rightarrow> nat \<Rightarrow> (cbor_error, cbor_head) cursor" where
  "read_argument major info =
     (let head = (\<lambda>arg. \<lparr>h_major = major, h_info = info, h_arg = arg\<rparr>)
      in if info < 24 then cret (head (Some info))
         else if info = 24 then cbind (cbor_uint 1) (\<lambda>v. cret (head (Some v)))
         else if info = 25 then cbind (cbor_uint 2) (\<lambda>v. cret (head (Some v)))
         else if info = 26 then cbind (cbor_uint 4) (\<lambda>v. cret (head (Some v)))
         else if info = 27 then
           cbind (cbor_uint 4) (\<lambda>hi. cbind (cbor_uint 4) (\<lambda>lo.
             if hi * 4294967296 + lo < 2 ^ 53 then cret (head (Some (hi * 4294967296 + lo)))
             else (\<lambda>b off. Inl (UnsafeArgument off))))
         else if info = 31 then cret (head None)
         else (\<lambda>b off. Inl (ReservedInformation info off)))"

definition readHead :: "(cbor_error, cbor_head) cursor" where
  "readHead =
     cbind (cbor_take 1) (\<lambda>initial.
       read_argument (unat (drop_bit 5 (hd initial))) (unat (hd initial AND 0x1f)))"

subsection \<open>Numbers\<close>

definition signed_num :: "bool \<Rightarrow> rat \<Rightarrow> jnum" where
  "signed_num neg q = (if neg then (if q = 0 then NegZero else Fin (- q)) else Fin q)"

definition halfToNumber :: "nat \<Rightarrow> jnum" where
  "halfToNumber bits =
     (let exponent = drop_bit 10 (bits AND 0x7c00); fraction = bits AND 0x03ff; neg = (bits AND 0x8000 \<noteq> 0)
      in if exponent = 0 then signed_num neg (of_nat fraction / 1024 / 2 ^ 14)
         else if exponent = 0x1f then (if fraction \<noteq> 0 then NotANumber else Infinite neg)
         else signed_num neg (2 ^ exponent / 2 ^ 15 * (1 + of_nat fraction / 1024)))"

text \<open>\<open>DataView.getFloat32\<close>: IEEE 754 single precision.\<close>

definition singleToNumber :: "nat \<Rightarrow> jnum" where
  "singleToNumber bits =
     (let exponent = bits div 2 ^ 23 mod 256; fraction = bits mod 2 ^ 23; neg = (2 ^ 31 \<le> bits mod 2 ^ 32)
      in if exponent = 0 then signed_num neg (of_nat fraction / 2 ^ 149)
         else if exponent = 255 then (if fraction \<noteq> 0 then NotANumber else Infinite neg)
         else signed_num neg (2 ^ exponent / 2 ^ 127 * (1 + of_nat fraction / 2 ^ 23)))"

subsection \<open>Text and map keys\<close>

definition text_decode :: "bytes \<Rightarrow> jstring option" where
  "text_decode bs = fromUtf8 (if take 3 bs = [0xef, 0xbb, 0xbf] then drop 3 bs else bs)"

definition object_key :: "cbor \<Rightarrow> bool" where
  "object_key k = (case k of ByteString _ \<Rightarrow> True | Arr _ \<Rightarrow> True | Mapping _ \<Rightarrow> True | _ \<Rightarrow> False)"

fun same_num :: "jnum \<Rightarrow> jnum \<Rightarrow> bool" where
  "same_num NegZero (Fin q) \<longleftrightarrow> q = 0"
| "same_num (Fin q) NegZero \<longleftrightarrow> q = 0"
| "same_num m n \<longleftrightarrow> m = n"

fun same_key :: "cbor \<Rightarrow> cbor \<Rightarrow> bool" where
  "same_key (Num m) (Num n) \<longleftrightarrow> same_num m n"
| "same_key (TextString s) (TextString t) \<longleftrightarrow> s = t"
| "same_key (Boolean p) (Boolean q) \<longleftrightarrow> p = q"
| "same_key Null Null \<longleftrightarrow> True"
| "same_key Undefined Undefined \<longleftrightarrow> True"
| "same_key _ _ \<longleftrightarrow> False"

definition has_key :: "(cbor \<times> cbor) list \<Rightarrow> cbor \<Rightarrow> bool" where
  "has_key kvs k = list_ex (\<lambda>kv. same_key (fst kv) k) kvs"

subsection \<open>Values\<close>

fun read_map :: "nat \<Rightarrow> (cbor_error, cbor) cursor \<Rightarrow> (cbor \<times> cbor) list \<Rightarrow> (cbor_error, cbor) cursor" where
  "read_map 0 rv out = cret (Mapping out)"
| "read_map (Suc n) rv out =
     cbind rv (\<lambda>key.
       if object_key key then (\<lambda>b off. Inl (NonScalarKey off))
       else if has_key out key then (\<lambda>b off. Inl (DuplicateKey off))
       else cbind rv (\<lambda>v. read_map n rv (out @ [(key, v)])))"

definition read_simple :: "nat \<Rightarrow> nat option \<Rightarrow> (cbor_error, cbor) cursor" where
  "read_simple info arg =
     (if info = 20 then cret (Boolean False)
      else if info = 21 then cret (Boolean True)
      else if info = 22 then cret Null
      else if info = 23 then cret Undefined
      else case arg of
        None \<Rightarrow> (\<lambda>b off. Inl (StrayBreak off))
      | Some a \<Rightarrow>
          if info = 25 then cret (Num (halfToNumber a))
          else if info = 26 then cret (Num (singleToNumber a))
          else if info = 27 then (\<lambda>b off. Inl (DoubleFloat off))
          else cret (Simple a))"

definition read_item :: "(cbor_error, cbor) cursor \<Rightarrow> nat \<Rightarrow> nat \<Rightarrow> (cbor_error, cbor) cursor" where
  "read_item rv major arg =
     (if major = 0 then cret (Num (Fin (of_nat arg)))
      else if major = 1 then cret (Num (Fin (- 1 - of_nat arg)))
      else if major = 2 then cbind (cbor_take arg) (\<lambda>bs. cret (ByteString bs))
      else if major = 3 then
        cbind (cbor_take arg) (\<lambda>bs. case text_decode bs of None \<Rightarrow> cfail NotUtf8 | Some s \<Rightarrow> cret (TextString s))
      else if major = 4 then cbind (read_times arg rv) (\<lambda>vs. cret (Arr vs))
      else if major = 5 then read_map arg rv []
      else cbind rv (\<lambda>v. cret (Tagged arg v)))"

fun read_levels :: "nat \<Rightarrow> (cbor_error, cbor) cursor" where
  "read_levels 0 = (\<lambda>b off. Inl (TooDeep off))"
| "read_levels (Suc levels) =
     cbind readHead (\<lambda>h.
       if h_major h = 7 then read_simple (h_info h) (h_arg h)
       else case h_arg h of
         None \<Rightarrow> (\<lambda>b off. Inl (IndefiniteLength (h_major h) off))
       | Some arg \<Rightarrow> read_item (read_levels levels) (h_major h) arg)"

definition readValue :: "nat \<Rightarrow> (cbor_error, cbor) cursor" where
  "readValue depth = read_levels (MAX_NESTING + 1 - depth)"

definition checkInput :: "bytes \<Rightarrow> cbor_error + unit" where
  "checkInput b =
     (if b = [] then Inl NoInput
      else if MAX_INPUT < length b then Inl (InputTooLarge (length b))
      else Inr ())"

definition decodeFirst :: "bytes \<Rightarrow> cbor_error + cbor \<times> nat" where
  "decodeFirst b = rbind (checkInput b) (\<lambda>_. readValue 0 b 0)"

definition decode :: "bytes \<Rightarrow> cbor_error + cbor" where
  "decode b =
     rbind (decodeFirst b) (\<lambda>(v, bytesRead).
       if bytesRead \<noteq> length b then Inl (TrailingBytes (length b - bytesRead) bytesRead)
       else Inr v)"

subsection \<open>Sizes and well-formed values\<close>

text \<open>What a value occupies: one for every item, and the octets and code units of its strings.\<close>

lemma size_pair_in_list [termination_simp]:
  "p \<in> set kvs \<Longrightarrow> size (fst p) < Suc (size_list (size_prod size size) kvs)"
  "p \<in> set kvs \<Longrightarrow> size (snd p) < Suc (size_list (size_prod size size) kvs)"
  by (induction kvs) auto

fun items :: "cbor \<Rightarrow> nat" where
  "items (ByteString bs) = 1 + length bs"
| "items (TextString s) = 1 + length s"
| "items (Arr vs) = 1 + sum_list (map items vs)"
| "items (Mapping kvs) = 1 + sum_list (map (\<lambda>kv. items (fst kv) + items (snd kv)) kvs)"
| "items (Tagged _ v) = 1 + items v"
| "items _ = 1"

fun nests :: "nat \<Rightarrow> cbor \<Rightarrow> bool" where
  "nests 0 v \<longleftrightarrow> False"
| "nests (Suc n) (Arr vs) \<longleftrightarrow> list_all (nests n) vs"
| "nests (Suc n) (Mapping kvs) \<longleftrightarrow> list_all (\<lambda>kv. nests n (fst kv) \<and> nests n (snd kv)) kvs"
| "nests (Suc n) (Tagged _ v) \<longleftrightarrow> nests n v"
| "nests (Suc n) _ \<longleftrightarrow> True"

fun distinct_keys :: "(cbor \<times> cbor) list \<Rightarrow> bool" where
  "distinct_keys [] \<longleftrightarrow> True"
| "distinct_keys (kv # kvs) \<longleftrightarrow>
     \<not> object_key (fst kv) \<and> list_all (\<lambda>kv'. \<not> same_key (fst kv) (fst kv')) kvs \<and> distinct_keys kvs"

fun well_keyed :: "cbor \<Rightarrow> bool" where
  "well_keyed (Arr vs) \<longleftrightarrow> list_all well_keyed vs"
| "well_keyed (Mapping kvs) \<longleftrightarrow>
     distinct_keys kvs \<and> list_all (\<lambda>kv. well_keyed (fst kv) \<and> well_keyed (snd kv)) kvs"
| "well_keyed (Tagged _ v) \<longleftrightarrow> well_keyed v"
| "well_keyed _ \<longleftrightarrow> True"

subsection \<open>The reader stays inside its input\<close>

lemma cursor_take: "cursor_reader (cbor_take n)"
  by unfold_locales (auto simp: cbor_take_def take_drop add.commute split: if_splits)

lemma cursor_uint: "cursor_reader (cbor_uint n)"
  unfolding cbor_uint_def by (intro cursor_reader_intros cursor_take)

lemma cursor_head: "cursor_reader readHead"
  unfolding readHead_def read_argument_def Let_def by (intro cursor_reader_intros cursor_take cursor_uint)

lemma cursor_map: "cursor_reader rv \<Longrightarrow> cursor_reader (read_map n rv out)"
  by (induction n arbitrary: out) (simp_all, (intro cursor_reader_intros | assumption)+)

lemma cursor_simple: "cursor_reader (read_simple info arg)"
  unfolding read_simple_def by (intro cursor_reader_intros)

lemma cursor_item: "cursor_reader rv \<Longrightarrow> cursor_reader (read_item rv major arg)"
  unfolding read_item_def by (intro cursor_reader_intros cursor_take cursor_map)

lemma cursor_levels: "cursor_reader (read_levels d)"
  by (induction d) (simp_all, (intro cursor_reader_intros cursor_head cursor_simple cursor_item | assumption)+)

interpretation cbor_value: cursor_reader "readValue depth" for depth
  unfolding readValue_def by (rule cursor_levels)

subsection \<open>What a value costs\<close>

definition sound_value :: "nat \<Rightarrow> cbor \<Rightarrow> bool" where
  "sound_value d v \<longleftrightarrow> nests d v \<and> well_keyed v"

definition pair_items :: "(cbor \<times> cbor) list \<Rightarrow> nat" where
  "pair_items kvs = sum_list (map (\<lambda>kv. items (fst kv) + items (snd kv)) kvs)"

definition sound_pairs :: "nat \<Rightarrow> (cbor \<times> cbor) list \<Rightarrow> bool" where
  "sound_pairs d kvs \<longleftrightarrow>
     distinct_keys kvs \<and> list_all (\<lambda>kv. sound_value d (fst kv) \<and> sound_value d (snd kv)) kvs"

lemma distinct_keys_snoc:
  "distinct_keys (kvs @ [(k, v)]) \<longleftrightarrow> distinct_keys kvs \<and> \<not> object_key k \<and> \<not> has_key kvs k"
  by (induction kvs) (auto simp: has_key_def list_all_iff list_ex_iff)

lemma sound_forms:
  "sound_value (Suc d) (Arr vs) \<longleftrightarrow> list_all (sound_value d) vs"
  "sound_value (Suc d) (Mapping kvs) \<longleftrightarrow> sound_pairs d kvs"
  "sound_value (Suc d) (Tagged t v) \<longleftrightarrow> sound_value d v"
  by (auto simp: sound_value_def sound_pairs_def list_all_iff)

lemma read_map_priced:
  assumes "priced_reader rv items (sound_value d)"
    and "off \<le> length b" and "read_map n rv out b off = Inr (v, off')" and "sound_pairs d out"
  shows "\<exists>kvs. v = Mapping kvs \<and> off + pair_items kvs \<le> off' + pair_items out \<and> sound_pairs d kvs"
  using assms(2-)
proof (induction n arbitrary: off out)
  case 0
  then show ?case by (auto simp: cret_def)
next
  case (Suc n)
  note step = priced_reader.priced [OF assms(1)]
    cursor_reader.advances [OF priced_reader.axioms(1) [OF assms(1)]]
  from Suc.prems(2) obtain k w m m' where k: "rv b off = Inr (k, m)" and w: "rv b m = Inr (w, m')"
    and fresh: "\<not> object_key k" "\<not> has_key out k"
    and rest: "read_map n rv (out @ [(k, w)]) b m' = Inr (v, off')"
    by (auto simp: cbind_eq_Inr split: if_splits)
  note k = step [OF Suc.prems(1) k]
  from k have m: "m \<le> length b" by simp
  note w = step [OF m w]
  have "sound_pairs d (out @ [(k, w)])"
    using Suc.prems(3) k w fresh by (simp add: sound_pairs_def distinct_keys_snoc)
  with w have "\<exists>kvs. v = Mapping kvs \<and> m' + pair_items kvs \<le> off' + pair_items (out @ [(k, w)]) \<and> sound_pairs d kvs"
    by (intro Suc.IH [OF _ rest]) simp_all
  then show ?case using k w by (auto simp: pair_items_def)
qed

lemma length_text_decode:
  assumes "text_decode bs = Some s"
  shows "length s \<le> length bs"
proof -
  have "length s \<le> length (if take 3 bs = [0xef, 0xbb, 0xbf] then drop 3 bs else bs)"
    using assms unfolding text_decode_def by (rule length_fromUtf8)
  then show ?thesis by (auto split: if_splits)
qed

lemma read_item_priced:
  assumes rv: "priced_reader rv items (sound_value d)"
    and off: "off \<le> length b" and v: "read_item rv major arg b off = Inr (v, off')"
  shows "off + items v \<le> Suc off' \<and> sound_value (Suc d) v"
proof -
  note step = priced_reader.priced [OF rv off]
  consider "major \<le> 1" | "major = 2" | "major = 3" | "major = 4" | "major = 5" | "5 < major" by linarith
  then show ?thesis
  proof cases
    case 1
    with v show ?thesis by (auto simp: read_item_def sound_value_def split: if_splits)
  next
    case 2
    with v show ?thesis by (auto simp: read_item_def sound_value_def cbind_eq_Inr cbor_take_def split: if_splits)
  next
    case 3
    with v obtain bs s where "cbor_take arg b off = Inr (bs, off')" and s: "text_decode bs = Some s" and "v = TextString s"
      by (auto simp: read_item_def cbind_eq_Inr split: option.splits)
    with length_text_decode [OF s] show ?thesis
      by (auto simp: sound_value_def cbor_take_def split: if_splits)
  next
    case 4
    with v obtain vs where "read_times arg rv b off = Inr (vs, off')" and "v = Arr vs"
      by (auto simp: read_item_def cbind_eq_Inr)
    with priced_reader.read_times_priced [OF rv off] show ?thesis by (fastforce simp: sound_forms)
  next
    case 5
    with v have "read_map arg rv [] b off = Inr (v, off')" by (simp add: read_item_def)
    from read_map_priced [OF rv off this] show ?thesis
      by (auto simp: sound_forms sound_pairs_def pair_items_def)
  next
    case 6
    with v obtain w where "rv b off = Inr (w, off')" and "v = Tagged arg w"
      by (auto simp: read_item_def cbind_eq_Inr)
    with step show ?thesis by (fastforce simp: sound_forms)
  qed
qed

lemma readHead_advances: "off \<le> length b \<Longrightarrow> readHead b off = Inr (h, off') \<Longrightarrow> off < off' \<and> off' \<le> length b"
  by (auto simp: readHead_def read_argument_def Let_def cbind_eq_Inr cbor_uint_def cbor_take_def cret_def split: if_splits)

lemma read_levels_priced: "priced_reader (read_levels d) items (sound_value d)"
proof (induction d)
  case 0
  show ?case by (intro priced_reader.intro cursor_levels priced_reader_axioms.intro) simp
next
  case (Suc d)
  show ?case
  proof (intro priced_reader.intro cursor_levels priced_reader_axioms.intro)
    fix off b v off'
    assume "off \<le> length b" and "read_levels (Suc d) b off = Inr (v, off')"
    then obtain h m where h: "readHead b off = Inr (h, m)"
      and rest: "(if h_major h = 7 then read_simple (h_info h) (h_arg h)
       else case h_arg h of
         None \<Rightarrow> (\<lambda>b off. Inl (IndefiniteLength (h_major h) off))
       | Some arg \<Rightarrow> read_item (read_levels d) (h_major h) arg) b m = Inr (v, off')"
      by (auto simp: cbind_eq_Inr)
    have m: "off < m" "m \<le> length b" using readHead_advances [OF \<open>off \<le> length b\<close> h] by simp_all
    show "off + items v \<le> off' \<and> sound_value (Suc d) v"
    proof (cases "h_major h = 7")
      case True
      with rest m show ?thesis
        by (auto simp: read_simple_def sound_value_def split: if_splits option.splits)
    next
      case False
      with rest obtain arg where "read_item (read_levels d) (h_major h) arg b m = Inr (v, off')"
        by (auto split: option.splits)
      from read_item_priced [OF Suc.IH m(2) this] m(1) show ?thesis by simp
    qed
  qed
qed

interpretation cbor_level: priced_reader "read_levels d" items "sound_value d" for d
  by (rule read_levels_priced)

subsection \<open>The reference encoding\<close>

text \<open>The deterministic encoding of RFC 8949 for the values without floats, and which values it has.\<close>

definition head_info :: "nat \<Rightarrow> nat" where
  "head_info n = (if n < 24 then n else if n < 2 ^ 8 then 24 else if n < 2 ^ 16 then 25
     else if n < 2 ^ 32 then 26 else 27)"

definition head_tail :: "nat \<Rightarrow> bytes" where
  "head_tail n = (if n < 24 then [] else if n < 2 ^ 8 then be_fixed 1 n else if n < 2 ^ 16 then be_fixed 2 n
     else if n < 2 ^ 32 then be_fixed 4 n else be_fixed 4 (n div 2 ^ 32) @ be_fixed 4 n)"

definition enc_head :: "nat \<Rightarrow> nat \<Rightarrow> bytes" where
  "enc_head major n = byte_of (32 * major + head_info n) # head_tail n"

definition enc_num :: "jnum \<Rightarrow> bytes" where
  "enc_num m = (case m of
       Fin q \<Rightarrow> if 0 \<le> q then enc_head 0 (nat \<lfloor>q\<rfloor>) else enc_head 1 (nat (- 1 - \<lfloor>q\<rfloor>))
     | _ \<Rightarrow> [])"

fun enc :: "cbor \<Rightarrow> bytes" where
  "enc (Num m) = enc_num m"
| "enc (ByteString bs) = enc_head 2 (length bs) @ bs"
| "enc (TextString s) = enc_head 3 (length (utf8 s)) @ utf8 s"
| "enc (Arr vs) = enc_head 4 (length vs) @ concat (map enc vs)"
| "enc (Mapping kvs) = enc_head 5 (length kvs) @ concat (map (\<lambda>kv. enc (fst kv) @ enc (snd kv)) kvs)"
| "enc (Tagged t v) = enc_head 6 t @ enc v"
| "enc (Boolean p) = enc_head 7 (if p then 21 else 20)"
| "enc Null = enc_head 7 22"
| "enc Undefined = enc_head 7 23"
| "enc (Simple n) = enc_head 7 n"

fun storable :: "cbor \<Rightarrow> bool" where
  "storable (Num m) \<longleftrightarrow>
     (case m of Fin q \<Rightarrow> of_int \<lfloor>q\<rfloor> = q \<and> - (2 ^ 53) \<le> \<lfloor>q\<rfloor> \<and> \<lfloor>q\<rfloor> < 2 ^ 53 | _ \<Rightarrow> False)"
| "storable (ByteString bs) \<longleftrightarrow> length bs < 2 ^ 53"
| "storable (TextString s) \<longleftrightarrow>
     wf_utf16 s \<and> length (utf8 s) < 2 ^ 53 \<and> take 3 (utf8 s) \<noteq> [0xef, 0xbb, 0xbf]"
| "storable (Arr vs) \<longleftrightarrow> length vs < 2 ^ 53 \<and> list_all storable vs"
| "storable (Mapping kvs) \<longleftrightarrow>
     length kvs < 2 ^ 53 \<and> list_all (\<lambda>kv. storable (fst kv) \<and> storable (snd kv)) kvs"
| "storable (Tagged t v) \<longleftrightarrow> t < 2 ^ 53 \<and> storable v"
| "storable (Simple n) \<longleftrightarrow> n < 20 \<or> (24 \<le> n \<and> n < 256)"
| "storable _ \<longleftrightarrow> True"

lemma reads_take: "reads_at p (cbor_take (length bs)) bs bs"
  by (simp add: reads_at_def cbor_take_def)

lemma reads_take1: "reads_at p (cbor_take 1) [c] [c]"
  using reads_take [of p "[c]"] by simp

lemma reads_uint: "n < 256 ^ k \<Longrightarrow> reads_at p (cbor_uint k) n (be_fixed k n)"
  using reads_at_last [OF reads_take [of p "be_fixed k n"], of be_nat]
  by (simp add: cbor_uint_def be_nat_def [symmetric])

lemma head_byte:
  assumes "major < 8" and "info < 32"
  shows "unat (drop_bit 5 (byte_of (32 * major + info))) = major"
    and "unat (byte_of (32 * major + info) AND 0x1f) = info"
proof -
  have c: "unat (byte_of (32 * major + info)) = 32 * major + info" using assms by simp
  show "unat (drop_bit 5 (byte_of (32 * major + info))) = major"
    unfolding unat_drop_bit_eq c using assms by (simp add: drop_bit_eq_div)
  show "unat (byte_of (32 * major + info) AND 0x1f) = info"
    unfolding byte_simps(1-) c using assms by simp
qed

lemma foldl_be_nat: "foldl (\<lambda>v c. v * 256 + unat c) 0 bs = be_nat bs"
  by (simp add: be_nat_def)

lemma head_tail_read:
  assumes "n < 2 ^ 53" and "length pre = p"
  shows "read_argument major (head_info n) (pre @ head_tail n @ suf) p =
    Inr (\<lparr>h_major = major, h_info = head_info n, h_arg = Some n\<rparr>, p + length (head_tail n))"
proof -
  note uint = read_argument_def Let_def cbind_def cbor_uint_def cbor_take_def cret_def foldl_be_nat be_nat_Cons
  consider "n < 24" | "24 \<le> n" "n < 2 ^ 8" | "2 ^ 8 \<le> n" "n < 2 ^ 16" | "2 ^ 16 \<le> n" "n < 2 ^ 32" | "2 ^ 32 \<le> n"
    by linarith
  then show ?thesis
  proof cases
    case 5
    then have f: "head_info n = 27" "head_tail n = be_fixed 4 (n div 2 ^ 32) @ be_fixed 4 n"
      by (simp_all add: head_info_def head_tail_def)
    have "n div 2 ^ 32 < 2 ^ 32" using assms(1) by (simp add: div_less_iff_less_mult)
    then show ?thesis using assms 5 by (simp add: f uint be_nat_be_fixed)
  qed (use assms in \<open>simp_all add: head_info_def head_tail_def uint\<close>)
qed

lemma reads_head:
  assumes "major < 8" and n: "n < 2 ^ 53"
  shows "reads_at p readHead \<lparr>h_major = major, h_info = head_info n, h_arg = Some n\<rparr> (enc_head major n)"
proof -
  have info: "head_info n < 32" by (simp add: head_info_def)
  note c = head_byte [OF assms(1) info]
  show ?thesis
    unfolding reads_at_def enc_head_def
  proof (intro allI impI)
    fix pre suf :: bytes
    let ?c = "byte_of (32 * major + head_info n)"
    assume p: "length pre = p"
    have "cbor_take 1 (pre @ (?c # head_tail n) @ suf) p = Inr ([?c], p + 1)"
      using p by (simp add: cbor_take_def)
    then show "readHead (pre @ (?c # head_tail n) @ suf) p =
        Inr (\<lparr>h_major = major, h_info = head_info n, h_arg = Some n\<rparr>, p + length (?c # head_tail n))"
      using head_tail_read [OF n, of "pre @ [?c]" "p + 1" major suf] p
      by (simp add: readHead_def cbind_def c)
  qed
qed

lemma distinct_keys_append1: "distinct_keys (xs @ ys) \<Longrightarrow> distinct_keys xs"
  by (induction xs) (auto simp: list_all_iff)

lemma reads_map:
  assumes "\<And>kv q. kv \<in> set kvs \<Longrightarrow> reads_at q rv (fst kv) (enc (fst kv)) \<and> reads_at q rv (snd kv) (enc (snd kv))"
    and "distinct_keys (out @ kvs)"
  shows "reads_at p (read_map (length kvs) rv out) (Mapping (out @ kvs))
    (concat (map (\<lambda>kv. enc (fst kv) @ enc (snd kv)) kvs))"
  using assms
proof (induction kvs arbitrary: out p)
  case (Cons kv kvs)
  obtain k v where kv: "kv = (k, v)" by force
  have "distinct_keys ((out @ [(k, v)]) @ kvs)" using Cons.prems(2) kv by simp
  moreover from distinct_keys_append1 [OF this] have fresh: "\<not> object_key k" "\<not> has_key out k"
    by (simp_all add: distinct_keys_snoc)
  ultimately have rest: "reads_at q (read_map (length kvs) rv (out @ [(k, v)])) (Mapping (out @ kv # kvs))
      (concat (map (\<lambda>kv. enc (fst kv) @ enc (snd kv)) kvs))" for q
    using Cons.IH [of "out @ [(k, v)]"] Cons.prems(1) by (simp add: kv)
  have "reads_at p rv k (enc k)" and v: "reads_at q rv v (enc v)" for q
    using Cons.prems(1) [of kv] by (simp_all add: kv)
  from reads_at_cbind [OF this(1), where k = "\<lambda>key.
       if object_key key then (\<lambda>b off. Inl (NonScalarKey off))
       else if has_key out key then (\<lambda>b off. Inl (DuplicateKey off))
       else cbind rv (\<lambda>v. read_map (length kvs) rv (out @ [(key, v)]))"]
    reads_at_cbind [OF v, where k = "\<lambda>v. read_map (length kvs) rv (out @ [(k, v)])"] rest
  show ?case using fresh by (simp add: kv)
qed (simp add: reads_at_cret)

lemma reads_major:
  assumes "major < 7" and "n < 2 ^ 53" and "\<And>q. reads_at q (read_item (read_levels d) major n) v body"
  shows "reads_at p (read_levels (Suc d)) v (enc_head major n @ body)"
  unfolding read_levels.simps
  by (rule reads_at_cbind [OF reads_head]) (use assms in simp_all)

lemma reads_simple:
  assumes "n < 2 ^ 53" and "\<And>q. reads_at q (read_simple (head_info n) (Some n)) v []"
  shows "reads_at p (read_levels (Suc d)) v (enc_head 7 n)"
proof -
  have "reads_at p (read_levels (Suc d)) v (enc_head 7 n @ [])"
    unfolding read_levels.simps
    by (rule reads_at_cbind [OF reads_head]) (use assms in simp_all)
  then show ?thesis by simp
qed

lemma reads_num:
  assumes "storable (Num m)"
  shows "reads_at p (read_levels (Suc d)) (Num m) (enc_num m)"
proof -
  from assms obtain q where q: "m = Fin q" "of_int \<lfloor>q\<rfloor> = q" "- (2 ^ 53) \<le> \<lfloor>q\<rfloor>" "\<lfloor>q\<rfloor> < 2 ^ 53"
    by (auto split: jnum.splits)
  define i where "i = \<lfloor>q\<rfloor>"
  have m: "m = Fin (of_int i)" unfolding i_def q(2) by (rule q(1))
  have bounds: "- (2 ^ 53) \<le> i" "i < 2 ^ 53" using q(3,4) by (simp_all add: i_def)
  show ?thesis
  proof (cases "0 \<le> i")
    case True
    then have "reads_at r (read_item (read_levels d) 0 (nat i)) (Num m) []" for r
      by (simp add: read_item_def m reads_at_cret)
    moreover have "nat i < 2 ^ 53" using True bounds by (simp add: nat_less_iff)
    ultimately show ?thesis using reads_major [of 0 "nat i" d "Num m" "[]" p] True
      by (simp add: m enc_num_def)
  next
    case False
    then have "Num m = Num (Fin (- 1 - of_nat (nat (- 1 - i))))"
      by (simp add: m)
    then have "reads_at r (read_item (read_levels d) 1 (nat (- 1 - i))) (Num m) []" for r
      by (simp add: read_item_def reads_at_cret)
    moreover have "nat (- 1 - i) < 2 ^ 53" using False bounds by (simp add: nat_less_iff)
    ultimately show ?thesis using reads_major [of 1 "nat (- 1 - i)" d "Num m" "[]" p] False
      by (simp add: m enc_num_def)
  qed
qed

lemma reads_levels: "sound_value d v \<Longrightarrow> storable v \<Longrightarrow> reads_at p (read_levels d) v (enc v)"
proof (induction d arbitrary: v p)
  case 0
  then show ?case by (simp add: sound_value_def)
next
  case (Suc d)
  note simple = reads_simple [where d = d and p = p]
  show ?case
  proof (cases v)
    case (Num m)
    with Suc.prems show ?thesis using reads_num by simp
  next
    case (ByteString bs)
    have "reads_at q (read_item (read_levels d) 2 (length bs)) v bs" for q
      using reads_at_last [OF reads_take [of q bs], of ByteString] by (simp add: read_item_def ByteString)
    with Suc.prems(2) ByteString show ?thesis using reads_major [of 2 "length bs" d v bs p] by simp
  next
    case (TextString s)
    with Suc.prems(2) have "text_decode (utf8 s) = Some s"
      by (simp add: text_decode_def fromUtf8_utf8)
    then have "reads_at q (read_item (read_levels d) 3 (length (utf8 s))) v (utf8 s)" for q
      using reads_at_cbind [OF reads_take [of q "utf8 s"], where e' = "[]"
          and k = "\<lambda>bs. case text_decode bs of None \<Rightarrow> cfail NotUtf8 | Some s \<Rightarrow> cret (TextString s)"]
      by (auto simp: read_item_def TextString)
    with Suc.prems(2) TextString show ?thesis using reads_major [of 3 "length (utf8 s)" d v "utf8 s" p] by simp
  next
    case (Arr vs)
    with Suc have "reads_at q (read_times (length vs) (read_levels d)) vs (concat (map enc vs))" for q
      by (intro reads_at_times) (auto simp: sound_forms list_all_iff)
    from reads_at_last [OF this, where f = Arr]
    have "reads_at q (read_item (read_levels d) 4 (length vs)) v (concat (map enc vs))" for q
      by (simp add: read_item_def Arr)
    with Suc.prems(2) Arr show ?thesis using reads_major [of 4 "length vs" d v] by simp
  next
    case (Mapping kvs)
    with Suc have "reads_at q (read_map (length kvs) (read_levels d) []) (Mapping ([] @ kvs))
        (concat (map (\<lambda>kv. enc (fst kv) @ enc (snd kv)) kvs))" for q
      by (intro reads_map) (auto simp: sound_forms sound_pairs_def list_all_iff)
    with Suc.prems(2) Mapping show ?thesis
      using reads_major [of 5 "length kvs" d v "concat (map (\<lambda>kv. enc (fst kv) @ enc (snd kv)) kvs)" p]
      by (simp add: read_item_def)
  next
    case (Tagged t w)
    with Suc have "reads_at q (read_levels d) w (enc w)" for q by (simp add: sound_forms)
    from reads_at_last [OF this, where f = "Tagged t"] Suc.prems(2) Tagged show ?thesis
      using reads_major [of 6 t d v "enc w" p] by (simp add: read_item_def)
  next
    case (Simple n)
    with Suc.prems(2) have "reads_at q (read_simple (head_info n) (Some n)) v []" for q
      by (auto simp: read_simple_def head_info_def reads_at_cret)
    with Suc.prems(2) Simple show ?thesis using simple [of n v] by auto
  qed (use simple [of 20] simple [of 21] simple [of 22] simple [of 23] in
      \<open>simp_all add: read_simple_def head_info_def reads_at_cret\<close>)
qed

lemma decode_encoded:
  assumes "sound_value (MAX_NESTING + 1) v" and "storable v" and "length (enc v @ s) \<le> MAX_INPUT"
  shows "decodeFirst (enc v @ s) = Inr (v, length (enc v))"
proof -
  have r: "readValue 0 (enc v @ s') 0 = Inr (v, length (enc v))" for s'
    using reads_atD [OF reads_levels [OF assms(1,2)], of "[]" s'] by (simp add: readValue_def)
  have "0 < items v" by (cases v) simp_all
  with cbor_level.priced [OF _ r [of s, unfolded readValue_def]] have "enc v \<noteq> []" by auto
  with r assms(3) show ?thesis by (simp add: decodeFirst_def checkInput_def)
qed

text \<open>The map \<open>{1: [-7, h'']}\<close> of the specification's examples.\<close>

definition sample_value :: cbor where
  "sample_value = Mapping [(Num (Fin 1), Arr [Num (Fin (-7)), ByteString []])]"

lemma enc_sample: "enc sample_value = [0xa1, 0x01, 0x82, 0x26, 0x40]"
  by (simp add: sample_value_def enc_num_def enc_head_def head_info_def head_tail_def byte_of_def)

lemma sample_storable: "sound_value (MAX_NESTING + 1) sample_value" "storable sample_value"
proof -
  have levels: "MAX_NESTING + 1 = Suc (Suc (Suc 30))" by (simp add: MAX_NESTING_def)
  show "sound_value (MAX_NESTING + 1) sample_value"
    unfolding levels sample_value_def sound_value_def
    by (simp only: nests.simps list.pred_inject fst_conv snd_conv) (simp add: object_key_def)
qed (simp add: sample_value_def)

lemma decode_sample: "decodeFirst [0xa1, 0x01, 0x82, 0x26, 0x40, 0xff] = Inr (sample_value, 5)"
  using decode_encoded [OF sample_storable, of "[0xff]"] by (simp add: enc_sample MAX_INPUT_def)

subsection \<open>Properties\<close>

text \<open>C14: whatever the input, the value decoded from the front of a buffer occupies no more than the octets it was
  read from and nests at most \<open>MAX_NESTING\<close> deep, and in each of its maps no key is a byte string, an array or a map
  and no two keys are the same for \<open>Map.has\<close>.  That is equality for numbers, text, booleans, null and undefined; a
  tagged or a simple value is an object to \<open>Map.has\<close>, never the same as another, so two such keys may be
  equal in content.\<close>

theorem cbor_value_bounded:
  assumes "decodeFirst b = Inr (v, n)"
  shows "0 < n \<and> n \<le> length b \<and> items v \<le> n \<and> nests (MAX_NESTING + 1) v \<and> well_keyed v"
proof -
  from assms have r: "read_levels (MAX_NESTING + 1) b 0 = Inr (v, n)"
    by (auto simp: decodeFirst_def rbind_eq_Inr readValue_def)
  have "0 < items v" by (cases v) simp_all
  with cbor_level.priced [OF _ r] cbor_level.advances [OF _ r] show ?thesis
    by (simp add: sound_value_def)
qed

lemma cbor_value_bounded_witness:
  "items sample_value \<le> 5 \<and> nests (MAX_NESTING + 1) sample_value \<and> well_keyed sample_value"
  using cbor_value_bounded [OF decode_sample] by blast

text \<open>What follows an item has no influence on it: cut off or replaced, the same value is read with the
  same length, and the item alone is a whole document.\<close>

theorem cbor_item_self_delimiting:
  assumes "decodeFirst b = Inr (v, n)" and "length s \<le> MAX_INPUT - n"
  shows "decodeFirst (take n b @ s) = Inr (v, n) \<and> decode (take n b) = Inr v"
proof -
  from assms(1) have r: "readValue 0 b 0 = Inr (v, n)" and b: "length b \<le> MAX_INPUT"
    by (auto simp: decodeFirst_def rbind_eq_Inr checkInput_def split: if_splits)
  have n: "0 < n" "n \<le> length b"
    using cbor_level.priced [OF _ r [unfolded readValue_def]] cbor_level.advances [OF _ r [unfolded readValue_def]]
    by (cases v; simp)+
  have "decodeFirst (take n b @ s') = Inr (v, n)" if "length s' \<le> MAX_INPUT - n" for s'
    using cbor_value.local [OF _ r, of s'] n b that by (auto simp: decodeFirst_def checkInput_def)
  from this [OF assms(2)] this [of "[]"] n show ?thesis by (simp add: decode_def)
qed

lemma cbor_item_self_delimiting_witness:
  "decodeFirst (take 5 [0xa1, 0x01, 0x82, 0x26, 0x40, 0xff] @ [0x01]) = Inr (sample_value, 5) \<and>
   decode (take 5 [0xa1, 0x01, 0x82, 0x26, 0x40, 0xff]) = Inr sample_value"
  by (rule cbor_item_self_delimiting [OF decode_sample]) (simp add: MAX_INPUT_def)

text \<open>C15: a value is read back from its encoding, alone and with anything behind it, when it is in the scope of
  \<open>storable\<close> and \<open>sound_value\<close>: its numbers are integers from -2^53 to below 2^53, its text is well-formed UTF-16 that
  does not begin with U+FEFF (which the decoder drops), its lengths and tags are below 2^53, its simple values are
  ones with no meaning of their own, its maps have keys as in C14, and it has at most \<open>MAX_NESTING\<close> levels.
  The encoding has the shortest heads and definite lengths, with the entries of a map in the order of the value.\<close>

theorem cbor_roundtrip:
  assumes "sound_value (MAX_NESTING + 1) v" and "storable v" and "length (enc v @ s) \<le> MAX_INPUT"
  shows "decode (enc v) = Inr v \<and> decodeFirst (enc v @ s) = Inr (v, length (enc v))"
  using decode_encoded [OF assms] decode_encoded [OF assms(1,2), of "[]"] assms(3) by (simp add: decode_def)

lemma cbor_roundtrip_witness:
  "decode [0xa1, 0x01, 0x82, 0x26, 0x40] = Inr sample_value \<and>
   decodeFirst [0xa1, 0x01, 0x82, 0x26, 0x40, 0xff] = Inr (sample_value, 5)"
  using cbor_roundtrip [OF sample_storable, of "[0xff]"] by (simp add: enc_sample MAX_INPUT_def)

end
