(* ===== verification/Hash_Trees.thy ===== *)
theory Hash_Trees
  imports Prelude
begin

text \<open>
  The interfaces the two hash-based signature schemes share.

  \<^item> \<open>winternitz\<close>: a code of a message as base-\<open>B\<close> digits followed by the digits of a checksum.  The provider
    promises that the digits determine the message and that the checksum digits are those of the sum of
    the complements; the client gets the property one-time signatures rest on: no other message has
    digits at least as large everywhere, so no chain can only be walked forward to forge.
  \<^item> \<open>merkle_tree\<close>: a complete binary tree of hashes by height and row.  The provider promises that an inner node
    combines its two children; the client gets that climbing from a leaf along the siblings of its
    path arrives at the root.

  Besides, the array in which a tree is filled from its leaves down to index one.
\<close>

subsection \<open>Winternitz codes\<close>

lemma digits_le:
  fixes B :: nat
  assumes "s < B ^ v" and "\<forall>i<v. s div B ^ i mod B \<le> s' div B ^ i mod B"
  shows "s \<le> s'"
  using assms
proof (induction v arbitrary: s s')
  case (Suc v)
  have B: "0 < B" using Suc.prems(1) by (cases B) auto
  have "s div B < B ^ v" using Suc.prems(1) B by (simp add: div_less_iff_less_mult mult.commute)
  moreover have "\<forall>i<v. s div B div B ^ i mod B \<le> s' div B div B ^ i mod B"
    using Suc.prems(2) by (auto simp flip: div_mult2_eq power_Suc)
  ultimately have "s div B \<le> s' div B" by (rule Suc.IH)
  moreover have "s mod B \<le> s' mod B" using Suc.prems(2) by (auto dest: spec [of _ 0])
  ultimately have "s div B * B + s mod B \<le> s' div B * B + s' mod B" by (intro add_mono mult_le_mono1)
  then show ?case by (simp only: div_mult_mod_eq)
qed simp

locale winternitz =
  fixes B u v :: nat
    and msg_digit :: "'m \<Rightarrow> nat \<Rightarrow> nat"
    and check_digit :: "'m \<Rightarrow> nat \<Rightarrow> nat"
    and valid :: "'m \<Rightarrow> bool"
  assumes msg_bound: "valid m \<Longrightarrow> i < u \<Longrightarrow> msg_digit m i \<le> B - 1"
    and check_value: "valid m \<Longrightarrow> i < v \<Longrightarrow>
      check_digit m i = (\<Sum>i<u. B - 1 - msg_digit m i) div B ^ (v - 1 - i) mod B"
    and room: "u * (B - 1) < B ^ v"
    and determined: "valid m \<Longrightarrow> valid m' \<Longrightarrow> \<forall>i<u. msg_digit m i = msg_digit m' i \<Longrightarrow> m = m'"
begin

definition checksum :: "'m \<Rightarrow> nat" where
  "checksum m = (\<Sum>i<u. B - 1 - msg_digit m i)"

lemma checksum_less: "checksum m < B ^ v"
proof -
  have "checksum m \<le> (\<Sum>i<u. B - 1)" unfolding checksum_def by (intro sum_mono) simp
  with room show ?thesis by simp
qed

lemma checksum_digit:
  assumes "valid m" and "i < v"
  shows "checksum m div B ^ i mod B = check_digit m (v - 1 - i)"
  using check_value [OF assms(1), of "v - 1 - i"] assms(2) by (simp add: checksum_def)

lemma antichain:
  assumes m: "valid m" and m': "valid m'"
    and msg: "\<forall>i<u. msg_digit m i \<le> msg_digit m' i"
    and check: "\<forall>i<v. check_digit m i \<le> check_digit m' i"
  shows "m = m'"
proof -
  have "checksum m \<le> checksum m'"
    using check by (intro digits_le [OF checksum_less]) (simp add: checksum_digit m m')
  then have "(\<Sum>i<u. msg_digit m' i) \<le> (\<Sum>i<u. msg_digit m i)"
  proof -
    have total: "checksum x + (\<Sum>i<u. msg_digit x i) = u * (B - 1)" if "valid x" for x
    proof -
      have "(\<Sum>i<u. (B - 1 - msg_digit x i) + msg_digit x i) = (\<Sum>i<u. B - 1)"
        using msg_bound [OF that] by (intro sum.cong) (simp_all only: lessThan_iff le_add_diff_inverse2)
      then show ?thesis by (simp add: checksum_def sum.distrib)
    qed
    from total [OF m] total [OF m'] \<open>checksum m \<le> checksum m'\<close> show ?thesis by linarith
  qed
  then have "\<forall>i<u. msg_digit m i = msg_digit m' i"
    using msg sum_strict_mono_ex1 [of "{..<u}" "msg_digit m" "msg_digit m'"]
    by (metis finite_lessThan lessThan_iff leD le_neq_implies_less)
  with determined [OF m m'] show ?thesis by simp
qed

end

subsection \<open>Merkle trees\<close>

text \<open>The verifier's climb: the node reached so far, its row, and the siblings that remain.\<close>

fun climb :: "(nat \<Rightarrow> nat \<Rightarrow> 'h \<Rightarrow> 'h \<Rightarrow> 'h) \<Rightarrow> nat \<Rightarrow> nat \<Rightarrow> 'h \<Rightarrow> 'h list \<Rightarrow> 'h" where
  "climb combine k j x [] = x"
| "climb combine k j x (s # siblings) =
     climb combine (Suc k) (j div 2)
       (if odd j then combine (Suc k) (j div 2) s x else combine (Suc k) (j div 2) x s) siblings"

lemma xor_one_nat: "j XOR 1 = (if odd j then j - 1 else j + 1)" for j :: nat
  by (cases "odd j") (auto simp: Suc_0_xor_eq xor.commute [of j])

lemma sibling_in_row:
  fixes q :: nat
  assumes "q < 2 ^ h" and "i < h"
  shows "q div 2 ^ i XOR 1 < 2 ^ (h - i)"
proof -
  have up: "2 ^ (h - i) = 2 * (2 :: nat) ^ (h - Suc i)"
    using assms(2) by (simp flip: power_Suc add: Suc_diff_Suc)
  have "q div 2 ^ i < 2 ^ (h - i)"
    using assms by (simp add: div_less_iff_less_mult flip: power_add)
  then show ?thesis unfolding xor_one_nat up by (auto elim!: evenE)
qed

locale merkle_tree =
  fixes combine :: "nat \<Rightarrow> nat \<Rightarrow> 'h \<Rightarrow> 'h \<Rightarrow> 'h"
    and height :: nat
    and tree :: "nat \<Rightarrow> nat \<Rightarrow> 'h"
  assumes inner: "k < height \<Longrightarrow> j < 2 ^ (height - Suc k) \<Longrightarrow>
    tree (Suc k) j = combine (Suc k) j (tree k (2 * j)) (tree k (2 * j + 1))"
begin

definition siblings :: "nat \<Rightarrow> nat \<Rightarrow> 'h list" where
  "siblings k j = map (\<lambda>i. tree (k + i) (j div 2 ^ i XOR 1)) [0..<height - k]"

lemma siblings_step:
  assumes "k < height"
  shows "siblings k j = tree k (j XOR 1) # siblings (Suc k) (j div 2)"
proof -
  have "[0..<height - k] = 0 # map Suc [0..<height - Suc k]"
    using assms by (metis Suc_diff_Suc map_Suc_upt upt_conv_Cons zero_less_diff)
  then show ?thesis by (simp add: siblings_def div_mult2_eq)
qed

lemma climb_siblings:
  assumes "k \<le> height" and "j < 2 ^ (height - k)"
  shows "climb combine k j (tree k j) (siblings k j) = tree height 0"
  using assms
proof (induction "height - k" arbitrary: k j)
  case 0
  then have "[0..<height - k] = []" and e: "k = height" "j = 0" by simp_all
  then have "siblings k j = []" by (simp only: siblings_def list.map)
  with e show ?case by simp
next
  case (Suc n)
  then have k: "k < height" and j: "j div 2 < 2 ^ (height - Suc k)"
    by (auto simp: Suc_diff_Suc [symmetric] div_less_iff_less_mult mult.commute)
  have up: "tree (Suc k) (j div 2) =
      combine (Suc k) (j div 2) (tree k (2 * (j div 2))) (tree k (2 * (j div 2) + 1))"
    by (rule inner [OF k j])
  have "climb combine (Suc k) (j div 2) (tree (Suc k) (j div 2)) (siblings (Suc k) (j div 2)) = tree height 0"
    using Suc k j by (intro Suc.hyps) simp_all
  with up show ?case by (simp add: siblings_step [OF k] xor_one_nat [simplified]) (auto elim: oddE evenE)
qed

end

subsection \<open>Trees in an array\<close>

text \<open>The loop \<open>for (r = leaves - 1; r >= 1; r--) nodes[r] = f(r, nodes[2 * r], nodes[2 * r + 1])\<close>.\<close>

definition fill_node :: "(nat \<Rightarrow> 'h \<Rightarrow> 'h \<Rightarrow> 'h) \<Rightarrow> nat \<Rightarrow> 'h list \<Rightarrow> 'h list" where
  "fill_node f r nodes = nodes[r := f r (nodes ! (2 * r)) (nodes ! (2 * r + 1))]"

definition fill_nodes :: "(nat \<Rightarrow> 'h \<Rightarrow> 'h \<Rightarrow> 'h) \<Rightarrow> nat \<Rightarrow> nat \<Rightarrow> 'h list \<Rightarrow> 'h list" where
  "fill_nodes f lo leaves nodes = fold (fill_node f) (rev [lo..<leaves]) nodes"

lemma fill_nodes_step: "lo < leaves \<Longrightarrow>
    fill_nodes f lo leaves nodes = fill_node f lo (fill_nodes f (Suc lo) leaves nodes)"
  by (simp add: fill_nodes_def upt_conv_Cons)

lemma fill_nodes_inv:
  assumes "1 \<le> lo" and "lo \<le> leaves" and "length nodes = 2 * leaves"
  shows "length (fill_nodes f lo leaves nodes) = 2 * leaves \<and>
    (\<forall>r. lo \<le> r \<and> r < leaves \<longrightarrow> fill_nodes f lo leaves nodes ! r =
       f r (fill_nodes f lo leaves nodes ! (2 * r)) (fill_nodes f lo leaves nodes ! (2 * r + 1))) \<and>
    (\<forall>r. r < lo \<or> leaves \<le> r \<longrightarrow> fill_nodes f lo leaves nodes ! r = nodes ! r)"
  using assms
proof (induction "leaves - lo" arbitrary: lo)
  case 0
  then show ?case by (auto simp: fill_nodes_def)
next
  case (Suc n)
  then have IH: "length (fill_nodes f (Suc lo) leaves nodes) = 2 * leaves"
      "\<forall>r. Suc lo \<le> r \<and> r < leaves \<longrightarrow> fill_nodes f (Suc lo) leaves nodes ! r =
       f r (fill_nodes f (Suc lo) leaves nodes ! (2 * r)) (fill_nodes f (Suc lo) leaves nodes ! (2 * r + 1))"
      "\<forall>r. r < Suc lo \<or> leaves \<le> r \<longrightarrow> fill_nodes f (Suc lo) leaves nodes ! r = nodes ! r"
    using Suc.hyps(1) [of "Suc lo"] by simp_all
  from Suc have "lo < leaves" by simp
  with IH Suc.prems show ?case
    by (auto simp: fill_nodes_step fill_node_def nth_list_update le_less_Suc_eq)
qed

subsection \<open>Strings of equal length\<close>

lemma length_concat_uniform: "\<forall>x\<in>set xs. length x = n \<Longrightarrow> length (concat xs) = length xs * n"
  by (induction xs) auto

lemma concat_slice:
  "\<forall>x\<in>set xs. length x = n \<Longrightarrow> i < length xs \<Longrightarrow> take n (drop (i * n) (concat xs)) = xs ! i"
proof (induction xs arbitrary: i)
  case (Cons x xs)
  then show ?case by (cases i) auto
qed simp

text \<open>Walking a chain in two parts.\<close>

lemma fold_upt_split: "a \<le> b \<Longrightarrow> fold f [a..<b] (fold f [0..<a] x) = fold f [0..<b] x"
  by (metis fold_append le0 o_apply upt_add_eq_append le_add_diff_inverse)

end
