(* ===== verification/Hbs_Params.thy ===== *)
theory Hbs_Params
  imports Hash_Trees
begin

text \<open>
  The common part of the stateful hash-based signatures (\<open>client/src/hbs.js\<close>): the hash functions, the byte
  helpers of the two specifications, the parameter sets of LM-OTS, LMS, XMSS and XMSS^MT, and the digit
  functions \<open>coef\<close> / \<open>cksm\<close>.

  The hash functions themselves come from a package (\<open>@noble/hashes\<close>); they are the parameter \<open>noble\<close>, of which
  only the documented output lengths are ever used (\<open>noble_documented\<close>).

  \<open>LM-OTS\<close> is an interpretation of \<open>winternitz\<close> for each of its sixteen parameter sets.
\<close>

subsection \<open>Hash functions\<close>

record noble =
  nb_sha256 :: "bytes \<Rightarrow> bytes"
  nb_sha512 :: "bytes \<Rightarrow> bytes"
  nb_shake128 :: "bytes \<Rightarrow> nat \<Rightarrow> bytes"
  nb_shake256 :: "bytes \<Rightarrow> nat \<Rightarrow> bytes"

definition noble_documented :: "noble \<Rightarrow> bool" where
  "noble_documented N \<longleftrightarrow>
     (\<forall>b. length (nb_sha256 N b) = 32 \<and> length (nb_sha512 N b) = 64 \<and>
       (\<forall>k. length (nb_shake128 N b k) = k \<and> length (nb_shake256 N b k) = k))"

datatype hash_name = Sha256 | Sha512 | Shake128 | Shake256

definition sha256Trunc :: "noble \<Rightarrow> bytes \<Rightarrow> nat \<Rightarrow> bytes" where
  "sha256Trunc N b outLen =
     (let full = nb_sha256 N b in if outLen = length full then full else take outLen full)"

definition HASHES :: "noble \<Rightarrow> hash_name \<Rightarrow> bytes \<Rightarrow> nat \<Rightarrow> bytes" where
  "HASHES N name b outLen =
     (case name of
        Sha256 \<Rightarrow> sha256Trunc N b outLen
      | Sha512 \<Rightarrow>
          (let full = nb_sha512 N b in if outLen = length full then full else take outLen full)
      | Shake128 \<Rightarrow> nb_shake128 N b outLen
      | Shake256 \<Rightarrow> nb_shake256 N b outLen)"

definition hash_room :: "hash_name \<Rightarrow> nat \<Rightarrow> bool" where
  "hash_room name k = (case name of Sha256 \<Rightarrow> k \<le> 32 | Sha512 \<Rightarrow> k \<le> 64 | _ \<Rightarrow> True)"

lemma length_HASHES:
  "noble_documented N \<Longrightarrow> hash_room name k \<Longrightarrow> length (HASHES N name b k) = k"
  by (cases name) (auto simp: noble_documented_def hash_room_def HASHES_def sha256Trunc_def Let_def)

subsection \<open>Byte helpers\<close>

definition u32str :: "nat \<Rightarrow> bytes" where
  "u32str v = [byte_of (drop_bit 24 v), byte_of (drop_bit 16 v), byte_of (drop_bit 8 v), byte_of v]"

definition u16str :: "nat \<Rightarrow> bytes" where
  "u16str v = [byte_of (drop_bit 8 v), byte_of v]"

definition u8str :: "nat \<Rightarrow> bytes" where
  "u8str v = [byte_of v]"

text \<open>\<open>toByte(value, length)\<close> fills an array from its last index down with the remainders by 256.\<close>

definition toByte :: "nat \<Rightarrow> nat \<Rightarrow> bytes" where
  "toByte v len = be_fixed len v"

text \<open>An element read behind the end is \<open>undefined\<close>, which the bitwise operators take for zero.\<close>

definition byte_at :: "bytes \<Rightarrow> nat \<Rightarrow> nat" where
  "byte_at b i = (if i < length b then unat (b ! i) else 0)"

definition strTou32 :: "bytes \<Rightarrow> nat \<Rightarrow> nat" where
  "strTou32 b off =
     push_bit 24 (byte_at b off) OR push_bit 16 (byte_at b (off + 1)) OR
     push_bit 8 (byte_at b (off + 2)) OR byte_at b (off + 3)"

definition bytesToBig :: "bytes \<Rightarrow> nat" where
  "bytesToBig b = foldl (\<lambda>v c. push_bit 8 v OR unat c) 0 b"

lemma u32str_be_fixed: "u32str v = be_fixed 4 v"
proof -
  have four: "4 = Suc (Suc (Suc (Suc 0)))" by simp
  show ?thesis
    unfolding four be_fixed.simps u32str_def by (simp add: drop_bit_eq_div div_mult2_eq [symmetric])
qed

lemma length_u32str [simp]: "length (u32str v) = 4"
  and length_u16str [simp]: "length (u16str v) = 2"
  and length_u8str [simp]: "length (u8str v) = 1"
  by (simp_all add: u32str_def u16str_def u8str_def)

lemma bytesToBig_be_nat: "bytesToBig b = be_nat b"
proof -
  have "foldl (\<lambda>v c. push_bit 8 v OR unat c) a b = foldl (\<lambda>v c. v * 256 + unat c) a b" for a
  proof (induction b arbitrary: a)
    case (Cons c b)
    have "push_bit 8 a OR unat c = a * 256 + unat c"
      using or_eq_add_nat [of "unat c" 8 a] byte_less_256 [of c] by simp
    with Cons.IH show ?case by simp
  qed simp
  then show ?thesis by (simp add: bytesToBig_def be_nat_def)
qed

lemma strTou32_be_nat:
  assumes "length b = 4"
  shows "strTou32 (pre @ b @ suf) (length pre) = be_nat b"
proof -
  from assms obtain a0 a1 a2 a3 where b: "b = [a0, a1, a2, a3]"
    by (auto simp: length_Suc_conv numeral_eq_Suc)
  note lt = byte_less_256 [of a0] byte_less_256 [of a1] byte_less_256 [of a2] byte_less_256 [of a3]
  have "strTou32 (pre @ b @ suf) (length pre) =
      push_bit 24 (unat a0) OR push_bit 16 (unat a1) OR push_bit 8 (unat a2) OR unat a3"
    by (simp add: strTou32_def byte_at_def b nth_append)
  also have "push_bit 8 (unat a2) OR unat a3 = unat a2 * 256 + unat a3"
    using or_eq_add_nat [of "unat a3" 8 "unat a2"] lt by simp
  also have "push_bit 16 (unat a1) OR (unat a2 * 256 + unat a3) = unat a1 * 65536 + (unat a2 * 256 + unat a3)"
    using or_eq_add_nat [of "unat a2 * 256 + unat a3" 16 "unat a1"] lt by simp
  also have "push_bit 24 (unat a0) OR (unat a1 * 65536 + (unat a2 * 256 + unat a3)) =
      unat a0 * 16777216 + (unat a1 * 65536 + (unat a2 * 256 + unat a3))"
    using or_eq_add_nat [of "unat a1 * 65536 + (unat a2 * 256 + unat a3)" 24 "unat a0"] lt by simp
  finally show ?thesis by (simp add: b be_nat_Cons)
qed

lemma strTou32_u32str [simp]:
  "v < 2 ^ 32 \<Longrightarrow> strTou32 (pre @ u32str v @ suf) (length pre) = v"
  by (simp add: strTou32_be_nat u32str_be_fixed)

lemma strTou32_behind: "strTou32 (pre @ b) (length pre + k) = strTou32 b k"
  by (simp add: strTou32_def byte_at_def nth_append)

lemma bytesToBig_toByte: "v < 256 ^ len \<Longrightarrow> bytesToBig (toByte v len) = v"
  by (simp add: bytesToBig_be_nat toByte_def)

lemma length_toByte [simp]: "length (toByte v len) = len"
  by (simp add: toByte_def)

subsection \<open>Parameter sets\<close>

fun floor_log2 :: "nat \<Rightarrow> nat" where
  "floor_log2 x = (if x < 2 then 0 else Suc (floor_log2 (x div 2)))"

declare floor_log2.simps [simp del]

text \<open>\<open>Math.ceil(a / b)\<close>.\<close>

definition ceil_div :: "nat \<Rightarrow> nat \<Rightarrow> nat" where
  "ceil_div a b = (a + b - 1) div b"

record lmots_internals =
  li_u :: nat
  li_v :: nat
  li_ls :: nat
  li_p :: nat

definition lmotsInternals :: "nat \<Rightarrow> nat \<Rightarrow> lmots_internals" where
  "lmotsInternals n w =
     (let u = ceil_div (8 * n) w; v = ceil_div (floor_log2 ((2 ^ w - 1) * u) + 1) w
      in \<lparr>li_u = u, li_v = v, li_ls = 16 - v * w, li_p = u + v\<rparr>)"

record lmots_params =
  ot_id :: nat
  ot_name :: string
  ot_hash :: hash_name
  ot_n :: nat
  ot_w :: nat
  ot_p :: nat
  ot_ls :: nat
  ot_sigLen :: nat

definition lmotsSet :: "nat \<Rightarrow> string \<Rightarrow> hash_name \<Rightarrow> nat \<Rightarrow> nat \<Rightarrow> lmots_params" where
  "lmotsSet i name hash n w =
     (let internals = lmotsInternals n w
      in \<lparr>ot_id = i, ot_name = name, ot_hash = hash, ot_n = n, ot_w = w, ot_p = li_p internals,
          ot_ls = li_ls internals, ot_sigLen = 4 + n * (li_p internals + 1)\<rparr>)"

definition LMOTS :: "lmots_params list" where
  "LMOTS =
     [lmotsSet 1 ''LMOTS_SHA256_N32_W1'' Sha256 32 1,
      lmotsSet 2 ''LMOTS_SHA256_N32_W2'' Sha256 32 2,
      lmotsSet 3 ''LMOTS_SHA256_N32_W4'' Sha256 32 4,
      lmotsSet 4 ''LMOTS_SHA256_N32_W8'' Sha256 32 8,
      lmotsSet 5 ''LMOTS_SHA256_N24_W1'' Sha256 24 1,
      lmotsSet 6 ''LMOTS_SHA256_N24_W2'' Sha256 24 2,
      lmotsSet 7 ''LMOTS_SHA256_N24_W4'' Sha256 24 4,
      lmotsSet 8 ''LMOTS_SHA256_N24_W8'' Sha256 24 8,
      lmotsSet 9 ''LMOTS_SHAKE_N32_W1'' Shake256 32 1,
      lmotsSet 10 ''LMOTS_SHAKE_N32_W2'' Shake256 32 2,
      lmotsSet 11 ''LMOTS_SHAKE_N32_W4'' Shake256 32 4,
      lmotsSet 12 ''LMOTS_SHAKE_N32_W8'' Shake256 32 8,
      lmotsSet 13 ''LMOTS_SHAKE_N24_W1'' Shake256 24 1,
      lmotsSet 14 ''LMOTS_SHAKE_N24_W2'' Shake256 24 2,
      lmotsSet 15 ''LMOTS_SHAKE_N24_W4'' Shake256 24 4,
      lmotsSet 16 ''LMOTS_SHAKE_N24_W8'' Shake256 24 8]"

record lms_params =
  lm_id :: nat
  lm_name :: string
  lm_hash :: hash_name
  lm_m :: nat
  lm_h :: nat

definition lmsSet :: "nat \<Rightarrow> string \<Rightarrow> hash_name \<Rightarrow> nat \<Rightarrow> nat \<Rightarrow> lms_params" where
  "lmsSet i name hash m h = \<lparr>lm_id = i, lm_name = name, lm_hash = hash, lm_m = m, lm_h = h\<rparr>"

definition LMS :: "lms_params list" where
  "LMS =
     [lmsSet 5 ''LMS_SHA256_M32_H5'' Sha256 32 5,
      lmsSet 6 ''LMS_SHA256_M32_H10'' Sha256 32 10,
      lmsSet 7 ''LMS_SHA256_M32_H15'' Sha256 32 15,
      lmsSet 8 ''LMS_SHA256_M32_H20'' Sha256 32 20,
      lmsSet 9 ''LMS_SHA256_M32_H25'' Sha256 32 25,
      lmsSet 10 ''LMS_SHA256_M24_H5'' Sha256 24 5,
      lmsSet 11 ''LMS_SHA256_M24_H10'' Sha256 24 10,
      lmsSet 12 ''LMS_SHA256_M24_H15'' Sha256 24 15,
      lmsSet 13 ''LMS_SHA256_M24_H20'' Sha256 24 20,
      lmsSet 14 ''LMS_SHA256_M24_H25'' Sha256 24 25,
      lmsSet 15 ''LMS_SHAKE_M32_H5'' Shake256 32 5,
      lmsSet 16 ''LMS_SHAKE_M32_H10'' Shake256 32 10,
      lmsSet 17 ''LMS_SHAKE_M32_H15'' Shake256 32 15,
      lmsSet 18 ''LMS_SHAKE_M32_H20'' Shake256 32 20,
      lmsSet 19 ''LMS_SHAKE_M32_H25'' Shake256 32 25,
      lmsSet 20 ''LMS_SHAKE_M24_H5'' Shake256 24 5,
      lmsSet 21 ''LMS_SHAKE_M24_H10'' Shake256 24 10,
      lmsSet 22 ''LMS_SHAKE_M24_H15'' Shake256 24 15,
      lmsSet 23 ''LMS_SHAKE_M24_H20'' Shake256 24 20,
      lmsSet 24 ''LMS_SHAKE_M24_H25'' Shake256 24 25]"

text \<open>\<open>indexBy\<close>: identifiers and names are unique in a table, so looking up the map is finding the row.\<close>

definition LMOTS_BY_ID :: "nat \<Rightarrow> lmots_params option" where
  "LMOTS_BY_ID i = find (\<lambda>s. ot_id s = i) LMOTS"

definition LMOTS_BY_NAME :: "string \<Rightarrow> lmots_params option" where
  "LMOTS_BY_NAME nm = find (\<lambda>s. ot_name s = nm) LMOTS"

definition LMS_BY_ID :: "nat \<Rightarrow> lms_params option" where
  "LMS_BY_ID i = find (\<lambda>s. lm_id s = i) LMS"

definition LMS_BY_NAME :: "string \<Rightarrow> lms_params option" where
  "LMS_BY_NAME nm = find (\<lambda>s. lm_name s = nm) LMS"

lemma floor_log2_eq: "2 ^ k \<le> x \<Longrightarrow> x < 2 ^ Suc k \<Longrightarrow> floor_log2 x = k"
proof (induction k arbitrary: x)
  case 0
  then show ?case by (simp add: floor_log2.simps)
next
  case (Suc k)
  then have "floor_log2 (x div 2) = k" by (intro Suc.IH) auto
  moreover have "2 \<le> x"
  proof -
    have "2 * 2 ^ k \<le> x" and "1 \<le> (2 :: nat) ^ k" using Suc.prems(1) by simp_all
    then show ?thesis by linarith
  qed
  ultimately show ?case by (subst floor_log2.simps) simp
qed

text \<open>The rows both specifications print, as the source computes them.\<close>

lemma floor_log2_rows:
  "floor_log2 256 = 8" "floor_log2 384 = 8" "floor_log2 960 = 9" "floor_log2 8160 = 12"
  "floor_log2 192 = 7" "floor_log2 288 = 8" "floor_log2 720 = 9" "floor_log2 6120 = 12"
  by (rule floor_log2_eq; simp)+

lemma lmotsInternals_table:
  "lmotsInternals 32 1 = \<lparr>li_u = 256, li_v = 9, li_ls = 7, li_p = 265\<rparr>"
  "lmotsInternals 32 2 = \<lparr>li_u = 128, li_v = 5, li_ls = 6, li_p = 133\<rparr>"
  "lmotsInternals 32 4 = \<lparr>li_u = 64, li_v = 3, li_ls = 4, li_p = 67\<rparr>"
  "lmotsInternals 32 8 = \<lparr>li_u = 32, li_v = 2, li_ls = 0, li_p = 34\<rparr>"
  "lmotsInternals 24 1 = \<lparr>li_u = 192, li_v = 8, li_ls = 8, li_p = 200\<rparr>"
  "lmotsInternals 24 2 = \<lparr>li_u = 96, li_v = 5, li_ls = 6, li_p = 101\<rparr>"
  "lmotsInternals 24 4 = \<lparr>li_u = 48, li_v = 3, li_ls = 4, li_p = 51\<rparr>"
  "lmotsInternals 24 8 = \<lparr>li_u = 24, li_v = 2, li_ls = 0, li_p = 26\<rparr>"
  by (simp_all add: lmotsInternals_def ceil_div_def floor_log2_rows Let_def)

definition lmots_u :: "lmots_params \<Rightarrow> nat" where
  "lmots_u op = li_u (lmotsInternals (ot_n op) (ot_w op))"

definition lmots_v :: "lmots_params \<Rightarrow> nat" where
  "lmots_v op = li_v (lmotsInternals (ot_n op) (ot_w op))"

definition lmots_shape :: "lmots_params \<Rightarrow> bool" where
  "lmots_shape op \<longleftrightarrow>
     ot_w op \<in> {1, 2, 4, 8} \<and> ot_n op \<in> {24, 32} \<and> lmots_u op * ot_w op = 8 * ot_n op \<and>
     ot_p op = lmots_u op + lmots_v op \<and> ot_ls op + lmots_v op * ot_w op = 16 \<and>
     lmots_u op * (2 ^ ot_w op - 1) < (2 ^ ot_w op) ^ lmots_v op \<and> ot_sigLen op = 4 + ot_n op * (ot_p op + 1) \<and>
     hash_room (ot_hash op) (ot_n op) \<and> hash_room (ot_hash op) 16"

lemma LMOTS_shape: "op \<in> set LMOTS \<Longrightarrow> lmots_shape op"
proof -
  have "list_all lmots_shape LMOTS"
    by (simp add: LMOTS_def lmots_shape_def lmotsSet_def lmots_u_def lmots_v_def lmotsInternals_table
        lmotsInternals_table [simplified] hash_room_def Let_def)
  then show "op \<in> set LMOTS \<Longrightarrow> ?thesis" by (simp add: list_all_iff)
qed

lemma find_key: "distinct (map f xs) \<Longrightarrow> x \<in> set xs \<Longrightarrow> find (\<lambda>y. f y = f x) xs = Some x"
  by (induction xs) auto

lemma table_ids:
  "map ot_id LMOTS = [1, 2, 3, 4, 5, 6, 7, 8, 9, 10, 11, 12, 13, 14, 15, 16]"
  "map lm_id LMS = [5, 6, 7, 8, 9, 10, 11, 12, 13, 14, 15, 16, 17, 18, 19, 20, 21, 22, 23, 24]"
  by (simp_all add: LMOTS_def lmotsSet_def LMS_def lmsSet_def Let_def)

lemma table_id_range:
  "op \<in> set LMOTS \<Longrightarrow> 0 < ot_id op \<and> ot_id op < 2 ^ 32"
  "lp \<in> set LMS \<Longrightarrow> 0 < lm_id lp \<and> lm_id lp < 2 ^ 32"
proof -
  have "list_all (\<lambda>i. 0 < i \<and> i < (2 ^ 32 :: nat)) (map ot_id LMOTS)"
    "list_all (\<lambda>i. 0 < i \<and> i < (2 ^ 32 :: nat)) (map lm_id LMS)"
    by (simp_all add: table_ids)
  then show "op \<in> set LMOTS \<Longrightarrow> 0 < ot_id op \<and> ot_id op < 2 ^ 32"
    "lp \<in> set LMS \<Longrightarrow> 0 < lm_id lp \<and> lm_id lp < 2 ^ 32"
    by (simp_all add: list_all_iff)
qed

lemma BY_ID_row [simp]:
  "op \<in> set LMOTS \<Longrightarrow> LMOTS_BY_ID (ot_id op) = Some op"
  "lp \<in> set LMS \<Longrightarrow> LMS_BY_ID (lm_id lp) = Some lp"
  unfolding LMOTS_BY_ID_def LMS_BY_ID_def by (intro find_key; simp add: table_ids)+

lemma LMS_shape: "lp \<in> set LMS \<Longrightarrow>
    lm_m lp \<in> {24, 32} \<and> 5 \<le> lm_h lp \<and> lm_h lp \<le> 25 \<and> hash_room (lm_hash lp) (lm_m lp) \<and> hash_room (lm_hash lp) 16"
proof -
  have "list_all (\<lambda>lp. lm_m lp \<in> {24, 32} \<and> 5 \<le> lm_h lp \<and> lm_h lp \<le> 25 \<and> hash_room (lm_hash lp) (lm_m lp) \<and>
      hash_room (lm_hash lp) 16) LMS"
    by (simp add: LMS_def lmsSet_def hash_room_def)
  then show "lp \<in> set LMS \<Longrightarrow> ?thesis" by (simp add: list_all_iff)
qed

lemma BY_ID_set:
  "LMOTS_BY_ID i = Some op \<Longrightarrow> op \<in> set LMOTS \<and> ot_id op = i"
  "LMS_BY_ID i = Some lp \<Longrightarrow> lp \<in> set LMS \<and> lm_id lp = i"
  by (auto simp: LMOTS_BY_ID_def LMS_BY_ID_def find_Some_iff)

subsection \<open>Digits\<close>

definition coef :: "bytes \<Rightarrow> nat \<Rightarrow> nat \<Rightarrow> nat" where
  "coef S i w =
     (let shift = 8 - (w * (i mod (8 div w)) + w)
      in (2 ^ w - 1) AND drop_bit shift (byte_at S (i * w div 8)))"

definition cksm :: "lmots_params \<Rightarrow> bytes \<Rightarrow> bytes" where
  "cksm op S =
     (let lim = ot_n op * 8 div ot_w op; largest = 2 ^ ot_w op - 1;
          total = foldl (\<lambda>total i. total + largest - coef S i (ot_w op)) 0 [0..<lim]
      in u16str (push_bit (ot_ls op) total AND 0xffff))"

lemma and_mask_nat: "(2 ^ w - 1) AND x = (x :: nat) mod 2 ^ w"
  by (simp add: and.commute take_bit_eq_mask mask_eq_exp_minus_1 flip: take_bit_eq_mod)

lemma coef_value:
  "coef S i w = byte_at S (i * w div 8) div 2 ^ (8 - (w * (i mod (8 div w)) + w)) mod 2 ^ w"
  by (simp only: coef_def Let_def and_mask_nat drop_bit_eq_div)

lemma coef_less: "coef S i w \<le> 2 ^ w - 1"
proof -
  have "coef S i w < 2 ^ w" by (simp add: coef_value)
  then show ?thesis by linarith
qed

lemma foldl_complements:
  "(\<And>i. c i \<le> (largest :: nat)) \<Longrightarrow> foldl (\<lambda>total i. total + largest - c i) a [0..<n] = a + (\<Sum>i<n. largest - c i)"
proof (induction n)
  case (Suc n)
  have "a + (\<Sum>i<n. largest - c i) + largest - c n = a + (\<Sum>i<n. largest - c i) + (largest - c n)"
    by (rule diff_add_assoc [OF Suc.prems])
  with Suc show ?case by (simp add: add.assoc)
qed simp

text \<open>The digits of one octet determine it.\<close>

lemma digits_eq:
  fixes B :: nat
  assumes "s < B ^ v" and "s' < B ^ v" and "\<forall>i<v. s div B ^ i mod B = s' div B ^ i mod B"
  shows "s = s'"
  using digits_le [OF assms(1)] digits_le [OF assms(2)] assms(3) by (intro antisym) simp_all

lemma octet_digits:
  assumes "w \<in> {1, 2, 4, 8}" and "x < 256" and "y < 256"
    and "\<forall>r < 8 div w. x div 2 ^ (8 - (w * r + w)) mod 2 ^ w = y div 2 ^ (8 - (w * r + w)) mod 2 ^ w"
  shows "x = (y :: nat)"
proof (rule digits_eq [where B = "2 ^ w" and v = "8 div w"])
  from assms(1) have exact: "w * (8 div w) = 8" by auto
  have "(2 ^ w) ^ (8 div w) = (256 :: nat)" by (simp only: exact flip: power_mult) simp
  with assms(2,3) show "x < (2 ^ w) ^ (8 div w)" and "y < (2 ^ w) ^ (8 div w)" by simp_all
  show "\<forall>i < 8 div w. x div (2 ^ w) ^ i mod 2 ^ w = y div (2 ^ w) ^ i mod 2 ^ w"
  proof (intro allI impI)
    fix i assume i: "i < 8 div w"
    then have "8 - (w * (8 div w - 1 - i) + w) = w * i"
      using assms(1) by auto
    moreover have "8 div w - 1 - i < 8 div w" using i by simp
    ultimately show "x div (2 ^ w) ^ i mod 2 ^ w = y div (2 ^ w) ^ i mod 2 ^ w"
      using assms(4) by (metis power_mult)
  qed
qed

lemma coefs_determine:
  assumes w: "w \<in> {1, 2, 4, 8}" and len: "length S = length S'" and u: "u * w = 8 * length S"
    and eq: "\<forall>i<u. coef S i w = coef S' i w"
  shows "S = S'"
proof (rule nth_equalityI [OF len])
  fix j assume j: "j < length S"
  from w have w0: "0 < w" and exact: "8 div w * w = 8" by auto
  have "byte_at S j = byte_at S' j"
  proof (rule octet_digits [OF w])
    show "\<forall>r < 8 div w. byte_at S j div 2 ^ (8 - (w * r + w)) mod 2 ^ w = byte_at S' j div 2 ^ (8 - (w * r + w)) mod 2 ^ w"
    proof (intro allI impI)
      fix r assume r: "r < 8 div w"
      let ?i = "j * (8 div w) + r"
      have "r * w < 8" using r exact w0 by (metis mult_less_cancel2)
      moreover have iw: "?i * w = j * 8 + r * w" using exact by (simp add: algebra_simps)
      ultimately have "?i * w div 8 = j" by simp
      moreover have "?i mod (8 div w) = r" using r by simp
      moreover have "?i < u"
      proof -
        have "?i * w < 8 * length S" using iw \<open>r * w < 8\<close> j by linarith
        with u w0 show ?thesis by (metis mult_less_cancel2)
      qed
      ultimately show "byte_at S j div 2 ^ (8 - (w * r + w)) mod 2 ^ w = byte_at S' j div 2 ^ (8 - (w * r + w)) mod 2 ^ w"
        using eq by (metis coef_value)
    qed
  qed (simp_all add: byte_at_def byte_less_256)
  with j len show "S ! j = S' ! j" by (simp add: byte_at_def word_unat_eq_iff)
qed

subsection \<open>The LM-OTS code\<close>

text \<open>The digits both the signer and the verifier take: those of the hash followed by its checksum.\<close>

definition lmots_digit :: "lmots_params \<Rightarrow> bytes \<Rightarrow> nat \<Rightarrow> nat" where
  "lmots_digit op Q i = coef (Q @ cksm op Q) i (ot_w op)"

lemma coef_append_left:
  assumes "w \<in> {1, 2, 4, 8}" and "u * w = 8 * length Q" and "i < u"
  shows "coef (Q @ ck) i w = coef Q i w"
proof -
  have "i * w < 8 * length Q" using assms by (metis insertE mult_less_cancel2 singletonD zero_less_numeral zero_less_one)
  then have "i * w div 8 < length Q" by (simp add: div_less_iff_less_mult mult.commute)
  then show ?thesis by (simp add: coef_value byte_at_def nth_append)
qed

lemma coef_append_right:
  assumes "w \<in> {1, 2, 4, 8}" and "u * w = 8 * length Q"
  shows "coef (Q @ ck) (u + i) w = coef ck i w"
proof -
  have "(u + i) * w div 8 = length Q + i * w div 8" using assms(2) by (simp add: add_mult_distrib)
  moreover have "(u + i) mod (8 div w) = i mod (8 div w)"
  proof -
    have "u = length Q * (8 div w)" using assms by auto
    then show ?thesis by simp
  qed
  ultimately show ?thesis by (simp add: coef_value byte_at_def nth_append)
qed

lemma coef_u16str:
  assumes w: "w \<in> {1, 2, 4, 8}" and i: "i * w + w \<le> 16" and X: "X < 2 ^ 16"
  shows "coef (u16str X) i w = X div 2 ^ (16 - (i * w + w)) mod 2 ^ w"
proof -
  define r where "r = i mod (8 div w)"
  define s where "s = 8 - (w * r + w)"
  have exact: "8 div w * w = 8" and w0: "0 < w" using w by auto
  have "r < 8 div w" using w by (auto simp: r_def)
  then have rw: "w * r + w \<le> 8" using w by auto
  have iw: "i * w = 8 * (i div (8 div w)) + w * r"
  proof -
    have "i * w = (i div (8 div w) * (8 div w) + r) * w" by (simp only: r_def div_mult_mod_eq)
    also have "\<dots> = i div (8 div w) * (8 div w * w) + w * r" by (simp add: algebra_simps)
    finally show ?thesis using exact by simp
  qed
  have byte: "i * w div 8 = i div (8 div w)" using iw rw w0 by simp
  have "i div (8 div w) < 2" using iw i w0 by linarith
  then consider "i div (8 div w) = 0" | "i div (8 div w) = 1" by linarith
  then show ?thesis
  proof cases
    case 1
    then have sh: "16 - (i * w + w) = 8 + s" unfolding iw s_def using rw by simp
    have "X div 256 < 256" using X by (simp add: div_less_iff_less_mult)
    with 1 byte have "coef (u16str X) i w = X div 256 div 2 ^ s mod 2 ^ w"
      by (simp add: coef_value u16str_def byte_at_def drop_bit_eq_div flip: r_def s_def)
    then show ?thesis by (simp add: sh power_add div_mult2_eq)
  next
    case 2
    then have sh: "16 - (i * w + w) = s" unfolding iw s_def using rw by simp
    have "X mod 2 ^ 8 div 2 ^ s mod 2 ^ w = X div 2 ^ s mod 2 ^ (8 - s) mod 2 ^ w"
      using drop_bit_take_bit [of s 8 X] by (simp only: drop_bit_eq_div take_bit_eq_mod)
    also have "\<dots> = X div 2 ^ s mod 2 ^ w"
      using rw by (intro mod_mod_cancel le_imp_power_dvd) (simp add: s_def)
    finally show ?thesis using 2 byte
      by (simp add: sh coef_value u16str_def byte_at_def flip: r_def s_def)
  qed
qed

lemma cksm_value:
  assumes op: "lmots_shape op"
  shows "cksm op Q = u16str ((\<Sum>i<lmots_u op. 2 ^ ot_w op - 1 - coef Q i (ot_w op)) * 2 ^ ot_ls op)"
proof -
  let ?sum = "\<Sum>i<lmots_u op. 2 ^ ot_w op - 1 - coef Q i (ot_w op)"
  have lim: "ot_n op * 8 div ot_w op = lmots_u op" using op by (auto simp: lmots_shape_def)
  have "?sum \<le> (\<Sum>i<lmots_u op. 2 ^ ot_w op - 1)" by (intro sum_mono) simp
  then have "?sum < (2 ^ ot_w op) ^ lmots_v op" using op by (simp add: lmots_shape_def)
  then have "?sum * 2 ^ ot_ls op < 2 ^ (ot_ls op + lmots_v op * ot_w op)"
    by (simp add: power_add mult.commute flip: power_mult)
  then have "?sum * 2 ^ ot_ls op < 2 ^ 16" using op by (simp add: lmots_shape_def)
  then have "push_bit (ot_ls op) ?sum AND 0xffff = ?sum * 2 ^ ot_ls op"
    using and_mask_nat [of 16 "?sum * 2 ^ ot_ls op"] by (simp add: push_bit_eq_mult and.commute)
  moreover have "foldl (\<lambda>total i. total + (2 ^ ot_w op - 1) - coef Q i (ot_w op)) 0 [0..<lmots_u op] = ?sum"
    using foldl_complements [of "\<lambda>i. coef Q i (ot_w op)", OF coef_less, of 0] by simp
  ultimately show ?thesis by (simp only: cksm_def Let_def lim)
qed

lemma lmots_check_digit:
  assumes op: "lmots_shape op" and Q: "length Q = ot_n op" and i: "i < lmots_v op"
  shows "lmots_digit op Q (lmots_u op + i) =
    (\<Sum>i<lmots_u op. 2 ^ ot_w op - 1 - lmots_digit op Q i) div (2 ^ ot_w op) ^ (lmots_v op - 1 - i) mod 2 ^ ot_w op"
proof -
  let ?w = "ot_w op" and ?u = "lmots_u op" and ?v = "lmots_v op"
  let ?sum = "\<Sum>i<?u. 2 ^ ?w - 1 - coef Q i ?w"
  have w: "?w \<in> {1, 2, 4, 8}" and u: "?u * ?w = 8 * length Q" and ls: "ot_ls op + ?v * ?w = 16"
    and room: "?u * (2 ^ ?w - 1) < (2 ^ ?w) ^ ?v"
    using op Q by (simp_all add: lmots_shape_def)
  have "?sum \<le> (\<Sum>i<?u. 2 ^ ?w - 1)" by (intro sum_mono) simp
  with room have "?sum < (2 ^ ?w) ^ ?v" by simp
  then have X: "?sum * 2 ^ ot_ls op < 2 ^ 16"
    unfolding ls [symmetric] by (simp add: power_add mult.commute flip: power_mult)
  obtain k where k: "?v = i + k + 1" using i by (metis add.assoc add.commute less_iff_Suc_add Suc_eq_plus1)
  have iw: "i * ?w + ?w \<le> 16" and sh: "16 - (i * ?w + ?w) = ot_ls op + k * ?w"
    using ls by (simp_all add: k add_mult_distrib)
  have digits: "lmots_digit op Q j = coef Q j ?w" if "j < ?u" for j
    unfolding lmots_digit_def by (rule coef_append_left [OF w u that])
  have "lmots_digit op Q (?u + i) = ?sum * 2 ^ ot_ls op div 2 ^ (ot_ls op + k * ?w) mod 2 ^ ?w"
    unfolding lmots_digit_def coef_append_right [OF w u] cksm_value [OF op] coef_u16str [OF w iw X] sh ..
  also have "\<dots> = ?sum div (2 ^ ?w) ^ k mod 2 ^ ?w"
    by (simp add: power_add div_mult2_eq mult.commute [of k] flip: power_mult)
  finally show ?thesis by (simp add: k digits)
qed

text \<open>The rows of the table, counted round.\<close>

definition lmots_row :: "nat \<Rightarrow> lmots_params" where
  "lmots_row i = LMOTS ! (i mod length LMOTS)"

lemma lmots_row_in [simp]: "lmots_row i \<in> set LMOTS"
proof -
  have "length LMOTS = 16" using arg_cong [OF table_ids(1), of length] by simp
  then show ?thesis by (simp add: lmots_row_def)
qed

lemma lmots_row_surj: "op \<in> set LMOTS \<Longrightarrow> \<exists>i. op = lmots_row i"
  by (metis in_set_conv_nth lmots_row_def mod_less)

interpretation lmots: winternitz "2 ^ ot_w (lmots_row k)" "lmots_u (lmots_row k)" "lmots_v (lmots_row k)"
    "lmots_digit (lmots_row k)" "\<lambda>Q i. lmots_digit (lmots_row k) Q (lmots_u (lmots_row k) + i)"
    "\<lambda>Q. length Q = ot_n (lmots_row k)" for k
proof
  let ?op = "lmots_row k"
  have op: "lmots_shape ?op" by (rule LMOTS_shape) simp
  then have w: "ot_w ?op \<in> {1, 2, 4, 8}" and u: "lmots_u ?op * ot_w ?op = 8 * ot_n ?op"
    by (simp_all add: lmots_shape_def)
  show "lmots_digit ?op Q i \<le> 2 ^ ot_w ?op - 1" for Q i
    unfolding lmots_digit_def by (rule coef_less)
  show "lmots_u ?op * (2 ^ ot_w ?op - 1) < (2 ^ ot_w ?op) ^ lmots_v ?op"
    using op by (simp add: lmots_shape_def)
  fix Q :: bytes
  assume Q: "length Q = ot_n ?op"
  show "lmots_digit ?op Q (lmots_u ?op + i) = (\<Sum>i<lmots_u ?op. 2 ^ ot_w ?op - 1 - lmots_digit ?op Q i)
      div (2 ^ ot_w ?op) ^ (lmots_v ?op - 1 - i) mod 2 ^ ot_w ?op" if "i < lmots_v ?op" for i
    by (rule lmots_check_digit [OF op Q that])
  fix Q' :: bytes
  assume Q': "length Q' = ot_n ?op" and eq: "\<forall>i<lmots_u ?op. lmots_digit ?op Q i = lmots_digit ?op Q' i"
  show "Q = Q'"
  proof (rule coefs_determine [OF w])
    show "\<forall>i<lmots_u ?op. coef Q i (ot_w ?op) = coef Q' i (ot_w ?op)"
      using eq coef_append_left [OF w] u Q Q' by (simp add: lmots_digit_def)
  qed (simp_all add: Q Q' u)
qed

subsection \<open>Property\<close>

text \<open>C19: for two different hashes, some digit the signer reveals for the first is higher than the digit of
  the second: with the checksum no LM-OTS signature can be turned into one of another hash by walking its
  chains forward only, for any of the sixteen parameter sets.\<close>

theorem lmots_checksum_antichain:
  assumes "op \<in> set LMOTS" and "length Q = ot_n op" and "length Q' = ot_n op" and "Q \<noteq> Q'"
  shows "\<exists>i<ot_p op. coef (Q' @ cksm op Q') i (ot_w op) < coef (Q @ cksm op Q) i (ot_w op)"
proof -
  obtain k where k: "op = lmots_row k" using lmots_row_surj [OF assms(1)] by blast
  have p: "ot_p op = lmots_u op + lmots_v op" using LMOTS_shape [OF assms(1)] by (simp add: lmots_shape_def)
  have "\<not> ((\<forall>i<lmots_u op. lmots_digit op Q i \<le> lmots_digit op Q' i) \<and>
      (\<forall>i<lmots_v op. lmots_digit op Q (lmots_u op + i) \<le> lmots_digit op Q' (lmots_u op + i)))"
    using lmots.antichain [of Q k Q'] assms(2-4) unfolding k by blast
  then obtain i where "i < lmots_u op \<and> lmots_digit op Q' i < lmots_digit op Q i \<or>
      i < lmots_v op \<and> lmots_digit op Q' (lmots_u op + i) < lmots_digit op Q (lmots_u op + i)"
    by (auto simp: not_le)
  then show ?thesis unfolding p lmots_digit_def by (metis add_less_cancel_left trans_less_add1)
qed

lemma lmots_checksum_antichain_witness:
  "\<exists>i<34. coef (replicate 32 1 @ cksm (lmotsSet 4 ''LMOTS_SHA256_N32_W8'' Sha256 32 8) (replicate 32 1)) i 8
     < coef (replicate 32 0 @ cksm (lmotsSet 4 ''LMOTS_SHA256_N32_W8'' Sha256 32 8) (replicate 32 0)) i 8"
proof -
  let ?op = "lmotsSet 4 ''LMOTS_SHA256_N32_W8'' Sha256 32 8"
  have op: "ot_p ?op = 34" "ot_w ?op = 8" "ot_n ?op = 32"
    by (simp_all add: lmotsSet_def lmotsInternals_table Let_def)
  have "?op \<in> set LMOTS" by (simp add: LMOTS_def)
  from lmots_checksum_antichain [OF this, of "replicate 32 0" "replicate 32 1"] show ?thesis
    by (simp add: op)
qed

end
