(* ===== verification/Hbs_Lms.thy ===== *)
theory Hbs_Lms
  imports Hbs_Params
begin

text \<open>
  LM-OTS, LMS and HSS as \<open>client/src/hbs.js\<close> has them: one-time signatures and their verification, the tree in
  an array, the parsers of keys and signatures, and the stateful HSS key (\<open>hssKeygen\<close>, \<open>hssSign\<close>, \<open>hssVerify\<close>).
  Randomness (the master seed, the randomizers \<open>C\<close>) is an argument; an exception is an \<open>hbs_error\<close>.

  The LMS tree is an interpretation of \<open>merkle_tree\<close>: row \<open>j\<close> at height \<open>k\<close> is the array's index \<open>2 ^ (h - k) + j\<close>.
\<close>

datatype hbs_error =
    OtsSignatureLength nat
  | OtsSignatureType nat
  | LmsKeyTooShort nat
  | UnknownLmsType nat
  | UnknownLmotsType nat
  | LmsKeyLength nat
  | LmsSignatureTooShort nat
  | LmsSignatureOtsType nat
  | LmsSignatureNoRoom
  | LmsSignatureLmsType nat
  | LeafOutsideTree nat
  | LmsSignatureLength nat
  | HssKeyTooShort nat
  | HssLevelCount nat
  | HssSignatureTooShort nat
  | HssLevelMismatch nat nat
  | HssTrailingBytes nat
  | NestedKeyTruncated
  | NestedKeyUnknown nat
  | NotAnLmsPrivateKey
  | LmsPrivateKeyVersion byte
  | LmsPrivateKeyTruncated nat
  | LmsPrivateKeyTypecode nat
  | KeyTooExpensive nat
  | NoTopLevel
  | HssKeyExhausted

subsection \<open>LM-OTS\<close>

definition D_PBLC :: nat where "D_PBLC = 0x8080"
definition D_MESG :: nat where "D_MESG = 0x8181"
definition D_LEAF :: nat where "D_LEAF = 0x8282"
definition D_INTR :: nat where "D_INTR = 0x8383"

definition lmotsHash :: "noble \<Rightarrow> lmots_params \<Rightarrow> bytes list \<Rightarrow> bytes" where
  "lmotsHash N op parts = HASHES N (ot_hash op) (concat parts) (ot_n op)"

definition lmotsPrivateElement :: "noble \<Rightarrow> lmots_params \<Rightarrow> bytes \<Rightarrow> nat \<Rightarrow> nat \<Rightarrow> bytes \<Rightarrow> bytes" where
  "lmotsPrivateElement N op I q i seed = lmotsHash N op [I, u32str q, u16str i, u8str 0xff, seed]"

text \<open>Steps \<open>lo\<close> to \<open>hi\<close> of chain \<open>i\<close>.\<close>

definition lmots_chain :: "noble \<Rightarrow> lmots_params \<Rightarrow> bytes \<Rightarrow> nat \<Rightarrow> nat \<Rightarrow> nat \<Rightarrow> nat \<Rightarrow> bytes \<Rightarrow> bytes" where
  "lmots_chain N op I q i lo hi x =
     fold (\<lambda>j tmp. lmotsHash N op [I, u32str q, u16str i, u8str j, tmp]) [lo..<hi] x"

definition lmotsPublicKeyHash :: "noble \<Rightarrow> lmots_params \<Rightarrow> bytes \<Rightarrow> nat \<Rightarrow> bytes \<Rightarrow> bytes" where
  "lmotsPublicKeyHash N op I q seed =
     (let largest = 2 ^ ot_w op - 1
      in lmotsHash N op ([I, u32str q, u16str D_PBLC] @
           map (\<lambda>i. lmots_chain N op I q i 0 largest (lmotsPrivateElement N op I q i seed)) [0..<ot_p op]))"

definition lmotsSign :: "noble \<Rightarrow> lmots_params \<Rightarrow> bytes \<Rightarrow> nat \<Rightarrow> bytes \<Rightarrow> bytes \<Rightarrow> bytes \<Rightarrow> bytes" where
  "lmotsSign N op I q seed message C =
     (let Q = lmotsHash N op [I, u32str q, u16str D_MESG, C, message];
          QC = Q @ cksm op Q
      in concat ([u32str (ot_id op), C] @
           map (\<lambda>i. lmots_chain N op I q i 0 (coef QC i (ot_w op)) (lmotsPrivateElement N op I q i seed))
             [0..<ot_p op]))"

definition lmotsPublicKeyCandidate ::
    "noble \<Rightarrow> lmots_params \<Rightarrow> bytes \<Rightarrow> nat \<Rightarrow> bytes \<Rightarrow> bytes \<Rightarrow> hbs_error + bytes" where
  "lmotsPublicKeyCandidate N op I q signature message =
     (let n = ot_n op; expected = 4 + n * (ot_p op + 1)
      in if length signature \<noteq> expected then Inl (OtsSignatureLength (length signature))
         else if strTou32 signature 0 \<noteq> ot_id op then Inl (OtsSignatureType (strTou32 signature 0))
         else
           (let C = take n (drop 4 signature);
                Q = lmotsHash N op [I, u32str q, u16str D_MESG, C, message];
                QC = Q @ cksm op Q;
                largest = 2 ^ ot_w op - 1
            in Inr (lmotsHash N op ([I, u32str q, u16str D_PBLC] @
                 map (\<lambda>i. lmots_chain N op I q i (coef QC i (ot_w op)) largest
                            (take n (drop (4 + n * (i + 1)) signature))) [0..<ot_p op]))))"

subsection \<open>LMS\<close>

definition lmsHash :: "noble \<Rightarrow> lms_params \<Rightarrow> bytes list \<Rightarrow> bytes" where
  "lmsHash N lp parts = HASHES N (lm_hash lp) (concat parts) (lm_m lp)"

text \<open>Every node, indexed from one; the entries below \<open>leaves\<close> are \<open>undefined\<close> until the loop fills them.\<close>

definition lmsTree :: "noble \<Rightarrow> lms_params \<Rightarrow> lmots_params \<Rightarrow> bytes \<Rightarrow> bytes \<Rightarrow> bytes list" where
  "lmsTree N lp op I seed =
     (let leaves = 2 ^ lm_h lp
      in fill_nodes (\<lambda>r left right. lmsHash N lp [I, u32str r, u16str D_INTR, left, right]) 1 leaves
           (replicate leaves [] @
            map (\<lambda>q. lmsHash N lp [I, u32str (leaves + q), u16str D_LEAF, lmotsPublicKeyHash N op I q seed])
              [0..<leaves]))"

definition lmsPublicKeyBytes :: "lms_params \<Rightarrow> lmots_params \<Rightarrow> bytes \<Rightarrow> bytes \<Rightarrow> bytes" where
  "lmsPublicKeyBytes lp op I root = concat [u32str (lm_id lp), u32str (ot_id op), I, root]"

function auth_nodes :: "'h list \<Rightarrow> nat \<Rightarrow> 'h list" where
  "auth_nodes nodes node =
     (if 1 < node then nodes ! (node XOR 1) # auth_nodes nodes (node div 2) else [])"
  by pat_completeness auto
termination
  by (relation "measure snd") auto

declare auth_nodes.simps [simp del]

definition lmsAuthPath :: "lms_params \<Rightarrow> bytes list \<Rightarrow> nat \<Rightarrow> bytes list" where
  "lmsAuthPath lp nodes q = auth_nodes nodes (2 ^ lm_h lp + q)"

definition lmsSignWithTree ::
    "noble \<Rightarrow> lms_params \<Rightarrow> lmots_params \<Rightarrow> bytes \<Rightarrow> bytes \<Rightarrow> bytes list \<Rightarrow> nat \<Rightarrow> bytes \<Rightarrow> bytes \<Rightarrow> bytes" where
  "lmsSignWithTree N lp op I seed nodes q message C =
     concat ([u32str q, lmotsSign N op I q seed message C, u32str (lm_id lp)] @ lmsAuthPath lp nodes q)"

subsection \<open>Parsing keys and signatures\<close>

record lms_public =
  pk_lms :: lms_params
  pk_ots :: lmots_params
  pk_I :: bytes
  pk_root :: bytes
  pk_bytes :: bytes

definition parseLmsPublicKey :: "bytes \<Rightarrow> hbs_error + lms_public" where
  "parseLmsPublicKey b =
     (if length b < 8 then Inl (LmsKeyTooShort (length b))
      else case LMS_BY_ID (strTou32 b 0) of
        None \<Rightarrow> Inl (UnknownLmsType (strTou32 b 0))
      | Some lp \<Rightarrow>
          (case LMOTS_BY_ID (strTou32 b 4) of
             None \<Rightarrow> Inl (UnknownLmotsType (strTou32 b 4))
           | Some op \<Rightarrow>
               if length b \<noteq> 24 + lm_m lp then Inl (LmsKeyLength (length b))
               else Inr \<lparr>pk_lms = lp, pk_ots = op, pk_I = take 16 (drop 8 b), pk_root = drop 24 b,
                         pk_bytes = b\<rparr>))"

record lms_signature =
  sg_q :: nat
  sg_ots :: bytes
  sg_path :: "bytes list"
  sg_length :: nat

definition parseLmsSignature ::
    "bytes \<Rightarrow> lmots_params \<Rightarrow> lms_params \<Rightarrow> bool \<Rightarrow> hbs_error + lms_signature" where
  "parseLmsSignature b op lp allowTrailing =
     (if length b < 8 then Inl (LmsSignatureTooShort (length b))
      else
        (let q = strTou32 b 0; otsType = strTou32 b 4
         in if otsType \<noteq> ot_id op then Inl (LmsSignatureOtsType otsType)
            else
              (let otsLen = 4 + ot_n op * (ot_p op + 1)
               in if length b < 8 + otsLen - 4 then Inl LmsSignatureNoRoom
                  else
                    (let otsSignature = take otsLen (drop 4 b);
                         lmsTypeOffset = 4 + otsLen;
                         lmsType = strTou32 b lmsTypeOffset
                     in if lmsType \<noteq> lm_id lp then Inl (LmsSignatureLmsType lmsType)
                        else if 2 ^ lm_h lp \<le> q then Inl (LeafOutsideTree q)
                        else
                          (let expected = 12 + ot_n op * (ot_p op + 1) + lm_m lp * lm_h lp
                           in if (if allowTrailing then length b < expected else length b \<noteq> expected)
                              then Inl (LmsSignatureLength (length b))
                              else Inr \<lparr>sg_q = q, sg_ots = otsSignature,
                                        sg_path = map (\<lambda>i. take (lm_m lp) (drop (lmsTypeOffset + 4 + i * lm_m lp) b))
                                          [0..<lm_h lp],
                                        sg_length = expected\<rparr>)))))"

fun lms_climb :: "noble \<Rightarrow> lms_params \<Rightarrow> bytes \<Rightarrow> nat \<Rightarrow> bytes \<Rightarrow> bytes list \<Rightarrow> bytes" where
  "lms_climb N lp I nodeNum tmp [] = tmp"
| "lms_climb N lp I nodeNum tmp (s # path) =
     (let half = nodeNum div 2
      in lms_climb N lp I half
           (if nodeNum mod 2 = 1 then lmsHash N lp [I, u32str half, u16str D_INTR, s, tmp]
            else lmsHash N lp [I, u32str half, u16str D_INTR, tmp, s]) path)"

definition lmsRootFromSignature ::
    "noble \<Rightarrow> lms_params \<Rightarrow> lmots_params \<Rightarrow> bytes \<Rightarrow> bytes \<Rightarrow> bytes \<Rightarrow> hbs_error + bytes" where
  "lmsRootFromSignature N lp op I signature message =
     rbind (parseLmsSignature signature op lp False) (\<lambda>parsed.
     rbind (lmotsPublicKeyCandidate N op I (sg_q parsed) (sg_ots parsed) message) (\<lambda>Kc.
     (let nodeNum = 2 ^ lm_h lp + sg_q parsed
      in Inr (lms_climb N lp I nodeNum (lmsHash N lp [I, u32str nodeNum, u16str D_LEAF, Kc]) (sg_path parsed)))))"

subsection \<open>One-time signatures verify\<close>

lemma length_lmotsHash [simp]:
  "noble_documented N \<Longrightarrow> op \<in> set LMOTS \<Longrightarrow> length (lmotsHash N op parts) = ot_n op"
  using LMOTS_shape [of op] by (simp add: lmotsHash_def length_HASHES lmots_shape_def)

lemma length_lmsHash [simp]:
  "noble_documented N \<Longrightarrow> lp \<in> set LMS \<Longrightarrow> length (lmsHash N lp parts) = lm_m lp"
  using LMS_shape [of lp] by (simp add: lmsHash_def length_HASHES)

lemma length_lmots_chain [simp]:
  assumes "noble_documented N" and "op \<in> set LMOTS" and "length x = ot_n op"
  shows "length (lmots_chain N op I q i lo hi x) = ot_n op"
proof -
  have "length (fold (\<lambda>j tmp. lmotsHash N op [I, u32str q, u16str i, u8str j, tmp]) js x) = ot_n op" for js
    using assms by (induction js arbitrary: x) simp_all
  then show ?thesis by (simp add: lmots_chain_def)
qed

lemma lmots_chain_split:
  "a \<le> b \<Longrightarrow> lmots_chain N op I q i a b (lmots_chain N op I q i 0 a x) = lmots_chain N op I q i 0 b x"
  unfolding lmots_chain_def by (rule fold_upt_split)

lemma lmotsSign_parts:
  assumes N: "noble_documented N" and op: "op \<in> set LMOTS" and C: "length C = ot_n op"
  shows "length (lmotsSign N op I q seed message C) = 4 + ot_n op * (ot_p op + 1)"
    and "strTou32 (lmotsSign N op I q seed message C @ rest) 0 = ot_id op"
    and "take (ot_n op) (drop 4 (lmotsSign N op I q seed message C)) = C"
    and "i < ot_p op \<Longrightarrow> take (ot_n op) (drop (4 + ot_n op * (i + 1)) (lmotsSign N op I q seed message C)) =
      lmots_chain N op I q i 0
        (lmots_digit op (lmotsHash N op [I, u32str q, u16str D_MESG, C, message]) i)
        (lmotsPrivateElement N op I q i seed)"
proof -
  let ?Q = "lmotsHash N op [I, u32str q, u16str D_MESG, C, message]"
  let ?link = "\<lambda>i. lmots_chain N op I q i 0 (lmots_digit op ?Q i) (lmotsPrivateElement N op I q i seed)"
  let ?links = "map ?link [0..<ot_p op]"
  have link: "length (?link i) = ot_n op" for i
    by (simp add: N op lmotsPrivateElement_def)
  then have links: "\<forall>x\<in>set ?links. length x = ot_n op" by simp
  have sign: "lmotsSign N op I q seed message C = u32str (ot_id op) @ C @ concat ?links"
    by (simp add: lmotsSign_def lmots_digit_def Let_def)
  show "length (lmotsSign N op I q seed message C) = 4 + ot_n op * (ot_p op + 1)"
    using length_concat_uniform [OF links] by (simp add: sign C)
  show "strTou32 (lmotsSign N op I q seed message C @ rest) 0 = ot_id op"
    using table_id_range(1) [OF op] strTou32_u32str [of "ot_id op" "[]"] by (simp add: sign)
  show "take (ot_n op) (drop 4 (lmotsSign N op I q seed message C)) = C"
    by (simp add: sign C)
  show "take (ot_n op) (drop (4 + ot_n op * (i + 1)) (lmotsSign N op I q seed message C)) = ?link i"
    if "i < ot_p op"
    using concat_slice [OF links, of i] that
    by (simp add: sign C mult.commute [of i] flip: drop_drop)
qed

lemma lmots_sign_verifies:
  assumes N: "noble_documented N" and op: "op \<in> set LMOTS" and C: "length C = ot_n op"
  shows "lmotsPublicKeyCandidate N op I q (lmotsSign N op I q seed message C) message =
    Inr (lmotsPublicKeyHash N op I q seed)"
proof -
  let ?Q = "lmotsHash N op [I, u32str q, u16str D_MESG, C, message]"
  note parts = lmotsSign_parts [OF N op C, where I = I and q = q and seed = seed and message = message]
  have chain: "lmots_chain N op I q i (coef (?Q @ cksm op ?Q) i (ot_w op)) (2 ^ ot_w op - 1)
        (take (ot_n op) (drop (4 + ot_n op * (i + 1)) (lmotsSign N op I q seed message C))) =
      lmots_chain N op I q i 0 (2 ^ ot_w op - 1) (lmotsPrivateElement N op I q i seed)" if "i < ot_p op" for i
    unfolding parts(4) [OF that] lmots_digit_def by (rule lmots_chain_split [OF coef_less])
  have links: "map (\<lambda>i. lmots_chain N op I q i (coef (?Q @ cksm op ?Q) i (ot_w op)) (2 ^ ot_w op - 1)
        (take (ot_n op) (drop (4 + ot_n op * (i + 1)) (lmotsSign N op I q seed message C)))) [0..<ot_p op] =
      map (\<lambda>i. lmots_chain N op I q i 0 (2 ^ ot_w op - 1) (lmotsPrivateElement N op I q i seed)) [0..<ot_p op]"
    using chain by (intro map_cong refl) simp_all
  have "strTou32 (lmotsSign N op I q seed message C) 0 = ot_id op" using parts(2) [where rest = "[]"] by simp
  then show ?thesis
    unfolding lmotsPublicKeyCandidate_def lmotsPublicKeyHash_def Let_def parts(1) parts(3) links by simp
qed

subsection \<open>The tree\<close>

definition lms_combine :: "noble \<Rightarrow> lms_params \<Rightarrow> bytes \<Rightarrow> nat \<Rightarrow> nat \<Rightarrow> bytes \<Rightarrow> bytes \<Rightarrow> bytes" where
  "lms_combine N lp I k j left right =
     lmsHash N lp [I, u32str (2 ^ (lm_h lp - k) + j), u16str D_INTR, left, right]"

definition lms_node :: "noble \<Rightarrow> lms_params \<Rightarrow> lmots_params \<Rightarrow> bytes \<Rightarrow> bytes \<Rightarrow> nat \<Rightarrow> nat \<Rightarrow> bytes" where
  "lms_node N lp op I seed k j = lmsTree N lp op I seed ! (2 ^ (lm_h lp - k) + j)"

lemma lmsTree_facts:
  shows "length (lmsTree N lp op I seed) = 2 * 2 ^ lm_h lp"
    and "1 \<le> r \<Longrightarrow> r < 2 ^ lm_h lp \<Longrightarrow> lmsTree N lp op I seed ! r = lmsHash N lp [I, u32str r, u16str D_INTR,
      lmsTree N lp op I seed ! (2 * r), lmsTree N lp op I seed ! (2 * r + 1)]"
    and "q < 2 ^ lm_h lp \<Longrightarrow> lmsTree N lp op I seed ! (2 ^ lm_h lp + q) =
      lmsHash N lp [I, u32str (2 ^ lm_h lp + q), u16str D_LEAF, lmotsPublicKeyHash N op I q seed]"
  unfolding lmsTree_def Let_def
  using fill_nodes_inv [of 1 "2 ^ lm_h lp" "replicate (2 ^ lm_h lp) [] @
      map (\<lambda>q. lmsHash N lp [I, u32str (2 ^ lm_h lp + q), u16str D_LEAF, lmotsPublicKeyHash N op I q seed])
        [0..<2 ^ lm_h lp]" "\<lambda>r left right. lmsHash N lp [I, u32str r, u16str D_INTR, left, right]"]
  by (simp_all add: nth_append)

interpretation lms: merkle_tree "lms_combine N lp I" "lm_h lp" "lms_node N lp op I seed" for N lp op I seed
proof
  fix k j :: nat
  assume k: "k < lm_h lp" and j: "j < 2 ^ (lm_h lp - Suc k)"
  let ?r = "2 ^ (lm_h lp - Suc k) + j"
  have up: "2 ^ (lm_h lp - k) = 2 * (2 :: nat) ^ (lm_h lp - Suc k)"
    using k by (simp flip: power_Suc add: Suc_diff_Suc)
  have "?r < 2 * 2 ^ (lm_h lp - Suc k)" using j by simp
  also have "\<dots> \<le> 2 ^ lm_h lp" unfolding up [symmetric] by (simp add: power_increasing)
  finally have "?r < 2 ^ lm_h lp" .
  moreover have "1 \<le> ?r" by (simp add: Suc_leI)
  ultimately show "lms_node N lp op I seed (Suc k) j =
      lms_combine N lp I (Suc k) j (lms_node N lp op I seed k (2 * j)) (lms_node N lp op I seed k (2 * j + 1))"
    unfolding lms_node_def lms_combine_def up by (subst lmsTree_facts(2)) (simp_all add: algebra_simps)
qed

lemma node_number:
  fixes j :: nat
  assumes "k < h"
  shows "1 < 2 ^ (h - k) + j" and "(2 ^ (h - k) + j) div 2 = 2 ^ (h - Suc k) + j div 2"
    and "(2 ^ (h - k) + j) mod 2 = j mod 2" and "(2 ^ (h - k) + j) XOR 1 = 2 ^ (h - k) + (j XOR 1)"
proof -
  have up: "2 ^ (h - k) = 2 * (2 :: nat) ^ (h - Suc k)"
    using assms by (simp flip: power_Suc add: Suc_diff_Suc)
  have "0 < (2 :: nat) ^ (h - Suc k)" by simp
  then show "1 < 2 ^ (h - k) + j" unfolding up by linarith
  show "(2 ^ (h - k) + j) div 2 = 2 ^ (h - Suc k) + j div 2" and m: "(2 ^ (h - k) + j) mod 2 = j mod 2"
    unfolding up by simp_all
  show "(2 ^ (h - k) + j) XOR 1 = 2 ^ (h - k) + (j XOR 1)"
    unfolding xor_one_nat by (auto simp: up elim!: oddE)
qed

lemma auth_nodes_siblings:
  assumes "k \<le> lm_h lp" and "j < 2 ^ (lm_h lp - k)"
  shows "auth_nodes (lmsTree N lp op I seed) (2 ^ (lm_h lp - k) + j) =
    merkle_tree.siblings (lm_h lp) (lms_node N lp op I seed) k j"
  using assms
proof (induction "lm_h lp - k" arbitrary: k j)
  case 0
  then have e: "lm_h lp - k = 0" "j = 0" by simp_all
  show ?case unfolding lms.siblings_def e by (simp add: auth_nodes.simps)
next
  case (Suc n)
  then have k: "k < lm_h lp" and j: "j div 2 < 2 ^ (lm_h lp - Suc k)"
    by (auto simp: Suc_diff_Suc [symmetric] div_less_iff_less_mult mult.commute)
  have "auth_nodes (lmsTree N lp op I seed) (2 ^ (lm_h lp - Suc k) + j div 2) =
      merkle_tree.siblings (lm_h lp) (lms_node N lp op I seed) (Suc k) (j div 2)"
    using Suc k j by (intro Suc.hyps) simp_all
  then show ?case
    unfolding lms.siblings_step [OF k] lms_node_def
    by (subst auth_nodes.simps) (simp only: node_number [OF k] if_True)
qed

lemma length_siblings: "length (merkle_tree.siblings (lm_h lp) (lms_node N lp op I seed) k j) = lm_h lp - k"
  by (simp add: lms.siblings_def)

lemma length_node:
  assumes N: "noble_documented N" and lp: "lp \<in> set LMS" and k: "k \<le> lm_h lp" and j: "j < 2 ^ (lm_h lp - k)"
  shows "length (lms_node N lp op I seed k j) = lm_m lp"
proof (cases k)
  case 0
  with j show ?thesis by (simp add: lms_node_def lmsTree_facts(3) N lp)
next
  case (Suc i)
  with k j lms.inner [of i lp j N op I seed] show ?thesis by (simp add: lms_combine_def N lp)
qed

lemma siblings_lengths:
  assumes N: "noble_documented N" and lp: "lp \<in> set LMS" and q: "q < 2 ^ lm_h lp"
  shows "\<forall>x\<in>set (merkle_tree.siblings (lm_h lp) (lms_node N lp op I seed) 0 q). length x = lm_m lp"
proof -
  have "q div 2 ^ i XOR 1 < 2 ^ (lm_h lp - i)" if "i < lm_h lp" for i
    using sibling_in_row [OF q that] .
  then show ?thesis using length_node [OF N lp] by (auto simp: lms.siblings_def)
qed

lemma lms_climb_climb:
  assumes "k + length path \<le> lm_h lp"
  shows "lms_climb N lp I (2 ^ (lm_h lp - k) + j) x path = climb (lms_combine N lp I) k j x path"
  using assms
proof (induction path arbitrary: k j x)
  case (Cons s path)
  then have k: "k < lm_h lp" by simp
  have "lms_combine N lp I (Suc k) (j div 2) = (\<lambda>l r. lmsHash N lp
      [I, u32str (2 ^ (lm_h lp - Suc k) + j div 2), u16str D_INTR, l, r])"
    by (simp add: lms_combine_def fun_eq_iff)
  with Cons.IH [of "Suc k" "j div 2"] Cons.prems show ?case
    by (simp add: node_number(2,3) [OF k, simplified] Let_def odd_iff_mod_2_eq_one)
qed simp

subsection \<open>A signature gives the root back\<close>

text \<open>What the signer writes, in the pieces the parser takes it apart into.\<close>

lemma lms_signature_parsed:
  assumes N: "noble_documented N" and op: "op \<in> set LMOTS" and lp: "lp \<in> set LMS"
    and C: "length C = ot_n op" and q: "q < 2 ^ lm_h lp" and rest: "allowTrailing \<or> rest = []"
  shows "parseLmsSignature (lmsSignWithTree N lp op I seed (lmsTree N lp op I seed) q message C @ rest) op lp allowTrailing =
    Inr \<lparr>sg_q = q, sg_ots = lmotsSign N op I q seed message C,
         sg_path = merkle_tree.siblings (lm_h lp) (lms_node N lp op I seed) 0 q,
         sg_length = 12 + ot_n op * (ot_p op + 1) + lm_m lp * lm_h lp\<rparr>"
    and "length (lmsSignWithTree N lp op I seed (lmsTree N lp op I seed) q message C) =
      12 + ot_n op * (ot_p op + 1) + lm_m lp * lm_h lp"
proof -
  let ?path = "merkle_tree.siblings (lm_h lp) (lms_node N lp op I seed) 0 q"
  let ?ots = "lmotsSign N op I q seed message C"
  let ?sig = "lmsSignWithTree N lp op I seed (lmsTree N lp op I seed) q message C"
  let ?len = "4 + ot_n op * (ot_p op + 1)"
  have path: "lmsAuthPath lp (lmsTree N lp op I seed) q = ?path"
    using auth_nodes_siblings [of 0 lp q N op I seed] q by (simp add: lmsAuthPath_def)
  have sig: "?sig = u32str q @ ?ots @ u32str (lm_id lp) @ concat ?path"
    by (simp add: lmsSignWithTree_def path)
  note uniform = siblings_lengths [OF N lp q, of op I seed]
  have ots: "length ?ots = ?len" by (rule lmotsSign_parts(1) [OF N op C])
  have plen: "length (concat ?path) = lm_h lp * lm_m lp"
    using length_concat_uniform [OF uniform] length_siblings [of lp N op I seed 0 q] by simp
  show len: "length ?sig = 12 + ot_n op * (ot_p op + 1) + lm_m lp * lm_h lp"
    by (simp add: sig ots plen)
  have "lm_h lp \<le> 25" using LMS_shape [OF lp] by simp
  then have "(2 :: nat) ^ lm_h lp \<le> 2 ^ 25" by (rule power_increasing) simp
  with q have "q < 2 ^ 32" by simp
  then have f1: "strTou32 (?sig @ rest) 0 = q" using strTou32_u32str [of q "[]"] by (simp add: sig)
  have f2: "strTou32 (?sig @ rest) 4 = ot_id op"
    using lmotsSign_parts(2) [OF N op C, of I q seed message "u32str (lm_id lp) @ concat ?path @ rest"]
      strTou32_behind [of "u32str q" "?ots @ u32str (lm_id lp) @ concat ?path @ rest" 0] by (simp add: sig)
  have f3: "take ?len (drop 4 (?sig @ rest)) = ?ots" by (simp add: sig ots)
  have f4: "strTou32 (?sig @ rest) (4 + ?len) = lm_id lp"
    using strTou32_u32str [of "lm_id lp" "u32str q @ ?ots" "concat ?path @ rest"] table_id_range(2) [OF lp]
    by (simp add: sig ots)
  have f5: "map (\<lambda>i. take (lm_m lp) (drop (4 + ?len + 4 + i * lm_m lp) (?sig @ rest))) [0..<lm_h lp] = ?path"
    (is "map ?slice _ = _")
  proof (rule nth_equalityI)
    fix i assume "i < length (map ?slice [0..<lm_h lp])"
    then have i: "i < lm_h lp" by simp
    have "take (lm_m lp) (drop (i * lm_m lp) (concat ?path @ rest)) =
        take (lm_m lp) (drop (i * lm_m lp) (concat ?path))"
    proof -
      have "i * lm_m lp + lm_m lp \<le> length (concat ?path)"
        using i plen mult_le_mono1 [of "Suc i" "lm_h lp" "lm_m lp"] by simp
      then show ?thesis by simp
    qed
    with concat_slice [OF uniform, of i] length_siblings [of lp N op I seed 0 q] i
    show "map ?slice [0..<lm_h lp] ! i = ?path ! i"
      by (simp add: sig ots flip: drop_drop)
  qed (simp add: length_siblings)
  show "parseLmsSignature (?sig @ rest) op lp allowTrailing =
    Inr \<lparr>sg_q = q, sg_ots = ?ots, sg_path = ?path,
         sg_length = 12 + ot_n op * (ot_p op + 1) + lm_m lp * lm_h lp\<rparr>"
    unfolding parseLmsSignature_def Let_def f1 f2 f3 f4 f5 using q rest len by auto
qed

lemma lms_sign_gives_root:
  assumes N: "noble_documented N" and op: "op \<in> set LMOTS" and lp: "lp \<in> set LMS"
    and C: "length C = ot_n op" and q: "q < 2 ^ lm_h lp"
  shows "lmsRootFromSignature N lp op I (lmsSignWithTree N lp op I seed (lmsTree N lp op I seed) q message C) message =
    Inr (lmsTree N lp op I seed ! 1)"
proof -
  let ?path = "merkle_tree.siblings (lm_h lp) (lms_node N lp op I seed) 0 q"
  have leaf: "lmsHash N lp [I, u32str (2 ^ lm_h lp + q), u16str D_LEAF, lmotsPublicKeyHash N op I q seed] =
      lms_node N lp op I seed 0 q"
    by (simp add: lms_node_def lmsTree_facts(3) [OF q])
  have "lms_climb N lp I (2 ^ lm_h lp + q) (lms_node N lp op I seed 0 q) ?path =
      climb (lms_combine N lp I) 0 q (lms_node N lp op I seed 0 q) ?path"
    using lms_climb_climb [of 0 ?path lp N I q] length_siblings [of lp N op I seed 0 q] by simp
  also have "\<dots> = lms_node N lp op I seed (lm_h lp) 0"
    using lms.climb_siblings [of 0 lp q N I op seed] q by simp
  also have "\<dots> = lmsTree N lp op I seed ! 1" by (simp add: lms_node_def)
  finally show ?thesis
    unfolding lmsRootFromSignature_def
    using lms_signature_parsed(1) [OF N op lp C q, of False "[]" I seed message] lmots_sign_verifies [OF N op C, of I q seed message]
    by (simp add: leaf Let_def)
qed

end
