(* ===== verification/Hbs_Hss.thy ===== *)
theory Hbs_Hss
  imports Hbs_Lms
begin

text \<open>
  HSS, the tree of LMS trees (\<open>client/src/hbs.js\<close>): keys, signatures, the private key file, generation, signing
  and verification.

  The private key is state.  \<open>hss_prepare\<close> is the part of \<open>hssSign\<close> that finds the lowest level with an unused
  leaf and regenerates the levels below it, \<open>hss_bump\<close> the increment of the bottom index afterwards, and
  \<open>hss_history\<close> the states in which the successive signatures of a key are made.
\<close>

record hss_level =
  lv_lms :: lms_params
  lv_ots :: lmots_params
  lv_generation :: nat
  lv_q :: nat

record hss_key =
  hk_master :: bytes
  hk_levels :: "hss_level list"

subsection \<open>Public keys and signatures\<close>

record hss_public =
  hp_levels :: nat
  hp_top :: lms_public

definition parseHssPublicKey :: "bytes \<Rightarrow> hbs_error + hss_public" where
  "parseHssPublicKey b =
     (if length b < 4 then Inl (HssKeyTooShort (length b))
      else
        (let levels = strTou32 b 0
         in if levels < 1 \<or> 8 < levels then Inl (HssLevelCount levels)
            else rbind (parseLmsPublicKey (drop 4 b)) (\<lambda>lms. Inr \<lparr>hp_levels = levels, hp_top = lms\<rparr>)))"

definition lmsMOf :: "bytes \<Rightarrow> hbs_error + nat" where
  "lmsMOf b =
     (if length b < 8 then Inl NestedKeyTruncated
      else case LMS_BY_ID (strTou32 b 0) of
        None \<Rightarrow> Inl (NestedKeyUnknown (strTou32 b 0))
      | Some lp \<Rightarrow> Inr (lm_m lp))"

record hss_signed =
  hs_signature :: lms_signature
  hs_signatureBytes :: bytes
  hs_key :: lms_public
  hs_signedKey :: lms_public

fun parse_hss_levels ::
    "nat \<Rightarrow> bytes \<Rightarrow> nat \<Rightarrow> lms_public \<Rightarrow> hss_signed list \<Rightarrow> hbs_error + hss_signed list \<times> nat \<times> lms_public" where
  "parse_hss_levels 0 b offset key levels = Inr (levels, offset, key)"
| "parse_hss_levels (Suc n) b offset key levels =
     rbind (parseLmsSignature (drop offset b) (pk_ots key) (pk_lms key) True) (\<lambda>sig.
     (let sigBytes = take (sg_length sig) (drop offset b);
          offset' = offset + sg_length sig;
          childBytes = drop offset' b
      in rbind (lmsMOf childBytes) (\<lambda>m.
         rbind (parseLmsPublicKey (take (8 + 16 + m) childBytes)) (\<lambda>child.
         parse_hss_levels n b (offset' + length (pk_bytes child)) child
           (levels @ [\<lparr>hs_signature = sig, hs_signatureBytes = sigBytes, hs_key = key, hs_signedKey = child\<rparr>])))))"

record hss_signature =
  hg_nspk :: nat
  hg_levels :: "hss_signed list"
  hg_finalKey :: lms_public
  hg_finalSignature :: lms_signature
  hg_finalSignatureBytes :: bytes

definition parseHssSignature :: "bytes \<Rightarrow> hss_public \<Rightarrow> hbs_error + hss_signature" where
  "parseHssSignature b pub =
     (if length b < 4 then Inl (HssSignatureTooShort (length b))
      else
        (let nspk = strTou32 b 0
         in if nspk + 1 \<noteq> hp_levels pub then Inl (HssLevelMismatch nspk (hp_levels pub))
            else
              rbind (parse_hss_levels nspk b 4 (hp_top pub) []) (\<lambda>(levels, offset, key).
              rbind (parseLmsSignature (drop offset b) (pk_ots key) (pk_lms key) True) (\<lambda>lst.
              if offset + sg_length lst \<noteq> length b
              then Inl (HssTrailingBytes (length b - offset - sg_length lst))
              else Inr \<lparr>hg_nspk = nspk, hg_levels = levels, hg_finalKey = key, hg_finalSignature = lst,
                        hg_finalSignatureBytes = drop offset b\<rparr>))))"

subsection \<open>The private key\<close>

definition MAX_KEYGEN_HASHES :: nat where "MAX_KEYGEN_HASHES = 8000000"

definition lmsKeygenCost :: "lms_params \<Rightarrow> lmots_params \<Rightarrow> nat" where
  "lmsKeygenCost lp op =
     (let leaves = 2 ^ lm_h lp in leaves * (ot_p op * (2 ^ ot_w op - 1) + 1) + 2 * leaves)"

definition canKeygen :: "nat \<Rightarrow> bool" where
  "canKeygen cost \<longleftrightarrow> cost \<le> MAX_KEYGEN_HASHES"

definition LMS_KEY_MAGIC :: bytes where "LMS_KEY_MAGIC = [0x4c, 0x4d, 0x53, 0x4b]"

definition deriveLevelIdentity ::
    "noble \<Rightarrow> bytes \<Rightarrow> nat \<Rightarrow> nat \<Rightarrow> lms_params \<Rightarrow> lmots_params \<Rightarrow> bytes \<times> bytes" where
  "deriveLevelIdentity N master level generation lp op =
     (HASHES N (lm_hash lp) (concat [master, u8str level, u32str generation, u8str 0]) 16,
      HASHES N (ot_hash op) (concat [master, u8str level, u32str generation, u8str 1]) (ot_n op))"

definition serializeLmsPrivateKey :: "hss_key \<Rightarrow> bytes" where
  "serializeLmsPrivateKey key =
     concat ([LMS_KEY_MAGIC, u8str 1, u8str (length (hk_levels key)), hk_master key] @
       concat (map (\<lambda>level. [u32str (lm_id (lv_lms level)), u32str (ot_id (lv_ots level)),
                              u32str (lv_generation level), u32str (lv_q level)]) (hk_levels key)))"

fun parse_private_levels :: "nat \<Rightarrow> nat \<Rightarrow> bytes \<Rightarrow> nat \<Rightarrow> hbs_error + hss_level list" where
  "parse_private_levels 0 i b offset = Inr []"
| "parse_private_levels (Suc n) i b offset =
     (if length b < offset + 16 then Inl (LmsPrivateKeyTruncated i)
      else case (LMS_BY_ID (strTou32 b offset), LMOTS_BY_ID (strTou32 b (offset + 4))) of
        (Some lp, Some op) \<Rightarrow>
          rbind (parse_private_levels n (i + 1) b (offset + 16)) (\<lambda>levels.
          Inr (\<lparr>lv_lms = lp, lv_ots = op, lv_generation = strTou32 b (offset + 8),
                lv_q = strTou32 b (offset + 12)\<rparr> # levels))
      | _ \<Rightarrow> Inl (LmsPrivateKeyTypecode i))"

definition parseLmsPrivateKey :: "bytes \<Rightarrow> hbs_error + hss_key" where
  "parseLmsPrivateKey b =
     (if length b < 38 \<or> take 4 b \<noteq> LMS_KEY_MAGIC then Inl NotAnLmsPrivateKey
      else if b ! 4 \<noteq> 1 then Inl (LmsPrivateKeyVersion (b ! 4))
      else rbind (parse_private_levels (unat (b ! 5)) 0 b 38) (\<lambda>levels.
           Inr \<lparr>hk_master = take 32 (drop 6 b), hk_levels = levels\<rparr>))"

subsection \<open>Signing\<close>

text \<open>A level's identity, its tree and its public key.\<close>

definition level_tree :: "noble \<Rightarrow> bytes \<Rightarrow> nat \<Rightarrow> hss_level \<Rightarrow> bytes list" where
  "level_tree N master i level =
     (case deriveLevelIdentity N master i (lv_generation level) (lv_lms level) (lv_ots level) of
        (I, seed) \<Rightarrow> lmsTree N (lv_lms level) (lv_ots level) I seed)"

definition level_public :: "noble \<Rightarrow> bytes \<Rightarrow> nat \<Rightarrow> hss_level \<Rightarrow> bytes" where
  "level_public N master i level =
     lmsPublicKeyBytes (lv_lms level) (lv_ots level)
       (fst (deriveLevelIdentity N master i (lv_generation level) (lv_lms level) (lv_ots level)))
       (level_tree N master i level ! 1)"

definition level_sign :: "noble \<Rightarrow> bytes \<Rightarrow> nat \<Rightarrow> hss_level \<Rightarrow> bytes \<Rightarrow> bytes \<Rightarrow> bytes" where
  "level_sign N master i level message C =
     (case deriveLevelIdentity N master i (lv_generation level) (lv_lms level) (lv_ots level) of
        (I, seed) \<Rightarrow> lmsSignWithTree N (lv_lms level) (lv_ots level) I seed (level_tree N master i level)
                      (lv_q level) message C)"

text \<open>Each level signs the public key of the level below with its own index, the bottom one the message;
  \<open>rnd i\<close> is the randomizer of level \<open>i\<close>.\<close>

fun hss_parts :: "noble \<Rightarrow> bytes \<Rightarrow> nat \<Rightarrow> hss_level list \<Rightarrow> bytes \<Rightarrow> (nat \<Rightarrow> bytes) \<Rightarrow> bytes list" where
  "hss_parts N master i [] message rnd = []"
| "hss_parts N master i [bottom] message rnd = [level_sign N master i bottom message (rnd i)]"
| "hss_parts N master i (parent # child # levels) message rnd =
     (let childPub = level_public N master (i + 1) child
      in level_sign N master i parent childPub (rnd i) # childPub #
         hss_parts N master (i + 1) (child # levels) message rnd)"

fun lowest_usable :: "hss_level list \<Rightarrow> nat \<Rightarrow> nat" where
  "lowest_usable levels 0 = 0"
| "lowest_usable levels (Suc d) =
     (if 2 ^ lm_h (lv_lms (levels ! d)) \<le> lv_q (levels ! d) then lowest_usable levels d else Suc d)"

definition hss_prepare :: "hss_level list \<Rightarrow> hss_level list option" where
  "hss_prepare levels =
     (let d = lowest_usable levels (length levels)
      in if d = 0 then None
         else Some (take d levels @
           map (\<lambda>level. level\<lparr>lv_generation := lv_generation level + 1, lv_q := 0\<rparr>) (drop d levels)))"

definition hss_bump :: "hss_level list \<Rightarrow> hss_level list" where
  "hss_bump levels =
     (let bottom = length levels - 1
      in levels[bottom := (levels ! bottom)\<lparr>lv_q := lv_q (levels ! bottom) + 1\<rparr>])"

record hss_signed_message =
  sm_signature :: bytes
  sm_privateKey :: bytes
  sm_q :: nat

definition hssSign ::
    "noble \<Rightarrow> bytes \<Rightarrow> bytes \<Rightarrow> (nat \<Rightarrow> bytes) \<Rightarrow> bool \<Rightarrow> hbs_error + hss_signed_message" where
  "hssSign N privateKeyBytes message rnd reuseIndex =
     rbind (parseLmsPrivateKey privateKeyBytes) (\<lambda>key.
     case hss_prepare (hk_levels key) of
       None \<Rightarrow> Inl HssKeyExhausted
     | Some levels \<Rightarrow>
         Inr \<lparr>sm_signature = concat (u32str (length levels - 1) # hss_parts N (hk_master key) 0 levels message rnd),
              sm_privateKey = serializeLmsPrivateKey
                (key\<lparr>hk_levels := if reuseIndex then levels else hss_bump levels\<rparr>),
              sm_q = lv_q (last levels)\<rparr>)"

record hss_generated =
  gk_privateKey :: bytes
  gk_publicKey :: bytes
  gk_key :: hss_key

definition hssKeygen :: "noble \<Rightarrow> (lms_params \<times> lmots_params) list \<Rightarrow> bytes \<Rightarrow> hbs_error + hss_generated" where
  "hssKeygen N spec master =
     (let levels = map (\<lambda>(lp, op). \<lparr>lv_lms = lp, lv_ots = op, lv_generation = 0, lv_q = 0\<rparr>) spec;
          total = sum_list (map (\<lambda>(lp, op). lmsKeygenCost lp op) spec)
      in if \<not> canKeygen total then Inl (KeyTooExpensive total)
         else if levels = [] then Inl NoTopLevel
         else
           (let key = \<lparr>hk_master = master, hk_levels = levels\<rparr>
            in Inr \<lparr>gk_privateKey = serializeLmsPrivateKey key,
                    gk_publicKey = concat [u32str (length levels), level_public N master 0 (hd levels)],
                    gk_key = key\<rparr>))"

subsection \<open>Verifying\<close>

datatype hss_verdict = HssValid nat | HssInvalidLevel nat | HssInvalidMessage

fun hss_check_levels ::
    "noble \<Rightarrow> nat \<Rightarrow> lms_public \<Rightarrow> hss_signed list \<Rightarrow> hbs_error + (nat + lms_public)" where
  "hss_check_levels N i key [] = Inr (Inr key)"
| "hss_check_levels N i key (level # levels) =
     rbind (lmsRootFromSignature N (pk_lms key) (pk_ots key) (pk_I key) (hs_signatureBytes level)
             (pk_bytes (hs_signedKey level))) (\<lambda>root.
       if root \<noteq> pk_root key then Inr (Inl i)
       else hss_check_levels N (i + 1) (hs_signedKey level) levels)"

definition hssVerify :: "noble \<Rightarrow> bytes \<Rightarrow> bytes \<Rightarrow> bytes \<Rightarrow> hbs_error + hss_verdict" where
  "hssVerify N publicKeyBytes message signatureBytes =
     rbind (parseHssPublicKey publicKeyBytes) (\<lambda>pub.
     rbind (parseHssSignature signatureBytes pub) (\<lambda>parsed.
     rbind (hss_check_levels N 0 (hp_top pub) (hg_levels parsed)) (\<lambda>checked.
     case checked of
       Inl i \<Rightarrow> Inr (HssInvalidLevel i)
     | Inr key \<Rightarrow>
         rbind (lmsRootFromSignature N (pk_lms key) (pk_ots key) (pk_I key) (hg_finalSignatureBytes parsed) message)
           (\<lambda>finalRoot. if finalRoot \<noteq> pk_root key then Inr HssInvalidMessage
                         else Inr (HssValid (length (hg_levels parsed) + 1))))))"

subsection \<open>The states of a key\<close>

text \<open>What the key file keeps of a level: the generation and the index go through \<open>u32str\<close>.\<close>

definition stored_level :: "hss_level \<Rightarrow> hss_level" where
  "stored_level level = level\<lparr>lv_generation := lv_generation level mod 2 ^ 32, lv_q := lv_q level mod 2 ^ 32\<rparr>"

text \<open>The states in which successive messages are signed, the key written to its file and read back in between.\<close>

fun hss_history :: "nat \<Rightarrow> hss_level list \<Rightarrow> hss_level list list" where
  "hss_history 0 levels = []"
| "hss_history (Suc n) levels =
     (case hss_prepare levels of
        None \<Rightarrow> []
      | Some levels' \<Rightarrow> levels' # hss_history n (map stored_level (hss_bump levels')))"

text \<open>A caller that signs one message after the other, each time with the private key the last call returned.\<close>

fun hss_sign_all :: "noble \<Rightarrow> bytes \<Rightarrow> (bytes \<times> (nat \<Rightarrow> bytes)) list \<Rightarrow> hbs_error + bytes list" where
  "hss_sign_all N privateKeyBytes [] = Inr []"
| "hss_sign_all N privateKeyBytes ((message, rnd) # messages) =
     rbind (hssSign N privateKeyBytes message rnd False) (\<lambda>r.
     rbind (hss_sign_all N (sm_privateKey r) messages) (\<lambda>sigs. Inr (sm_signature r # sigs)))"

subsection \<open>One level\<close>

definition level_ok :: "hss_level \<Rightarrow> bool" where
  "level_ok level \<longleftrightarrow>
     lv_lms level \<in> set LMS \<and> lv_ots level \<in> set LMOTS \<and> lv_q level < 2 ^ lm_h (lv_lms level)"

definition pub_of :: "noble \<Rightarrow> bytes \<Rightarrow> nat \<Rightarrow> hss_level \<Rightarrow> lms_public" where
  "pub_of N master i level =
     \<lparr>pk_lms = lv_lms level, pk_ots = lv_ots level,
      pk_I = fst (deriveLevelIdentity N master i (lv_generation level) (lv_lms level) (lv_ots level)),
      pk_root = level_tree N master i level ! 1, pk_bytes = level_public N master i level\<rparr>"

lemma pub_of_sel [simp]:
  "pk_lms (pub_of N master i level) = lv_lms level" "pk_ots (pub_of N master i level) = lv_ots level"
  "pk_bytes (pub_of N master i level) = level_public N master i level"
  by (simp_all add: pub_of_def)

lemma length_root:
  assumes "noble_documented N" and "lp \<in> set LMS"
  shows "length (lmsTree N lp op I seed ! 1) = lm_m lp"
  using length_node [OF assms, of "lm_h lp" 0 op I seed] by (simp add: lms_node_def)

lemma level_public_forms:
  assumes N: "noble_documented N" and ok: "level_ok level"
  shows "length (level_public N master i level) = 24 + lm_m (lv_lms level)"
    and "strTou32 (level_public N master i level @ rest) 0 = lm_id (lv_lms level)"
    and "parseLmsPublicKey (level_public N master i level) = Inr (pub_of N master i level)"
    and "lmsMOf (level_public N master i level @ rest) = Inr (lm_m (lv_lms level))"
proof -
  let ?lp = "lv_lms level" and ?op = "lv_ots level"
  have lp: "?lp \<in> set LMS" and op: "?op \<in> set LMOTS" using ok by (simp_all add: level_ok_def)
  obtain I seed where id: "deriveLevelIdentity N master i (lv_generation level) ?lp ?op = (I, seed)" by force
  then have I: "length I = 16" using LMS_shape [OF lp] by (auto simp: deriveLevelIdentity_def length_HASHES N)
  let ?root = "level_tree N master i level ! 1"
  have root: "length ?root = lm_m ?lp" unfolding level_tree_def id prod.case by (rule length_root [OF N lp])
  have pub: "level_public N master i level = u32str (lm_id ?lp) @ u32str (ot_id ?op) @ I @ ?root"
    by (simp add: level_public_def lmsPublicKeyBytes_def id)
  show len: "length (level_public N master i level) = 24 + lm_m ?lp" by (simp add: pub I root [simplified])
  show id0: "strTou32 (level_public N master i level @ rest) 0 = lm_id ?lp" for rest
    using strTou32_u32str [of "lm_id ?lp" "[]"] table_id_range(2) [OF lp] by (simp add: pub)
  show "lmsMOf (level_public N master i level @ rest) = Inr (lm_m ?lp)"
    unfolding lmsMOf_def id0 by (simp add: len lp)
  have id1: "strTou32 (level_public N master i level) 4 = ot_id ?op"
    using strTou32_u32str [of "ot_id ?op" "u32str (lm_id ?lp)" "I @ ?root"] table_id_range(1) [OF op] by (simp add: pub)
  have "take 16 (drop 8 (level_public N master i level)) = I" "drop 24 (level_public N master i level) = ?root"
    by (simp_all add: pub I)
  then show "parseLmsPublicKey (level_public N master i level) = Inr (pub_of N master i level)"
    using id0 [of "[]"] id1 by (simp add: parseLmsPublicKey_def len lp op pub_of_def id)
qed

lemma level_sign_forms:
  assumes N: "noble_documented N" and ok: "level_ok level" and C: "length C = ot_n (lv_ots level)"
  shows "\<exists>sig. parseLmsSignature (level_sign N master i level message C @ rest) (lv_ots level) (lv_lms level) True = Inr sig \<and>
      sg_length sig = length (level_sign N master i level message C)"
    and "lmsRootFromSignature N (lv_lms level) (lv_ots level) (pk_I (pub_of N master i level))
      (level_sign N master i level message C) message = Inr (pk_root (pub_of N master i level))"
proof -
  let ?lp = "lv_lms level" and ?op = "lv_ots level"
  have lp: "?lp \<in> set LMS" and op: "?op \<in> set LMOTS" and q: "lv_q level < 2 ^ lm_h ?lp"
    using ok by (simp_all add: level_ok_def)
  obtain I seed where id: "deriveLevelIdentity N master i (lv_generation level) ?lp ?op = (I, seed)" by force
  have sign: "level_sign N master i level message C =
      lmsSignWithTree N ?lp ?op I seed (lmsTree N ?lp ?op I seed) (lv_q level) message C"
    by (simp add: level_sign_def level_tree_def id)
  show "\<exists>sig. parseLmsSignature (level_sign N master i level message C @ rest) ?op ?lp True = Inr sig \<and>
      sg_length sig = length (level_sign N master i level message C)"
    unfolding sign using lms_signature_parsed [OF N op lp C q, of True rest I seed message] by simp
  show "lmsRootFromSignature N ?lp ?op (pk_I (pub_of N master i level))
      (level_sign N master i level message C) message = Inr (pk_root (pub_of N master i level))"
    unfolding sign by (simp add: lms_sign_gives_root [OF N op lp C q, simplified] pub_of_def id level_tree_def)
qed

subsection \<open>The chain of levels\<close>

definition rnd_ok :: "nat \<Rightarrow> hss_level list \<Rightarrow> (nat \<Rightarrow> bytes) \<Rightarrow> bool" where
  "rnd_ok i levels rnd \<longleftrightarrow> (\<forall>j<length levels. length (rnd (i + j)) = ot_n (lv_ots (levels ! j)))"

lemma rnd_ok_Cons: "rnd_ok i (level # levels) rnd \<longleftrightarrow> length (rnd i) = ot_n (lv_ots level) \<and> rnd_ok (i + 1) levels rnd"
  by (auto simp: rnd_ok_def less_Suc_eq_0_disj nth_Cons split: nat.splits)

lemma hss_levels_parsed:
  assumes N: "noble_documented N"
    and "\<forall>level\<in>set (level # levels). level_ok level" and "rnd_ok i (level # levels) rnd"
    and "b = pre @ concat (hss_parts N master i (level # levels) message rnd)"
  shows "\<exists>es off. parse_hss_levels (length levels) b (length pre) (pub_of N master i level) acc =
      Inr (acc @ es, off, pub_of N master (i + length levels) (last (level # levels))) \<and>
    (\<forall>k. hss_check_levels N k (pub_of N master i level) es =
      Inr (Inr (pub_of N master (i + length levels) (last (level # levels))))) \<and>
    length es = length levels \<and> off \<le> length b \<and>
    drop off b = level_sign N master (i + length levels) (last (level # levels)) message (rnd (i + length levels))"
  using assms(2-)
proof (induction levels arbitrary: level i pre acc)
  case Nil
  then show ?case by (intro exI [of _ "[]"] exI [of _ "length pre"]) simp
next
  case (Cons child levels)
  let ?pub = "level_public N master (i + 1) child"
  let ?sig = "level_sign N master i level ?pub (rnd i)"
  define tail where "tail = concat (hss_parts N master (i + 1) (child # levels) message rnd)"
  define lst where "lst = last (child # levels)"
  have ok: "level_ok level" "level_ok child" and C: "length (rnd i) = ot_n (lv_ots level)"
    using Cons.prems by (simp_all add: rnd_ok_Cons)
  have b: "b = pre @ ?sig @ ?pub @ tail" using Cons.prems(3) by (simp add: tail_def Let_def)
  obtain sig where sig: "parseLmsSignature (?sig @ ?pub @ tail) (lv_ots level) (lv_lms level) True = Inr sig"
    and len: "sg_length sig = length ?sig"
    using level_sign_forms(1) [OF N ok(1) C] by blast
  note pub = level_public_forms [OF N ok(2), of master "i + 1"]
  let ?entry = "\<lparr>hs_signature = sig, hs_signatureBytes = ?sig, hs_key = pub_of N master i level,
    hs_signedKey = pub_of N master (i + 1) child\<rparr>"
  obtain es off where es: "parse_hss_levels (length levels) b (length (pre @ ?sig @ ?pub))
        (pub_of N master (i + 1) child) (acc @ [?entry]) =
      Inr ((acc @ [?entry]) @ es, off, pub_of N master (i + 1 + length levels) lst)"
    and check: "\<And>k. hss_check_levels N k (pub_of N master (i + 1) child) es =
      Inr (Inr (pub_of N master (i + 1 + length levels) lst))"
    and rest: "length es = length levels" "off \<le> length b" "drop off b =
      level_sign N master (i + 1 + length levels) lst message (rnd (i + 1 + length levels))"
    using Cons.IH [of child "i + 1" "pre @ ?sig @ ?pub" "acc @ [?entry]"] Cons.prems(1,2) b
    unfolding lst_def by (auto simp: rnd_ok_Cons tail_def)
  have "parse_hss_levels (length (child # levels)) b (length pre) (pub_of N master i level) acc =
      Inr (acc @ ?entry # es, off, pub_of N master (i + 1 + length levels) lst)"
    using es pub sig len by (simp add: b Let_def add.assoc)
  moreover have "hss_check_levels N k (pub_of N master i level) (?entry # es) =
      Inr (Inr (pub_of N master (i + 1 + length levels) lst))" for k
    using check level_sign_forms(2) [OF N ok(1) C, of master i ?pub] by simp
  ultimately show ?case
    using rest by (intro exI [of _ "?entry # es"] exI [of _ off]) (simp add: lst_def)
qed

subsection \<open>A signed message verifies\<close>

lemma hss_verifies:
  assumes N: "noble_documented N" and ok: "\<forall>level\<in>set (upper # levels). level_ok level"
    and rnd: "rnd_ok 0 (upper # levels) rnd" and L: "length levels < 8"
  shows "hssVerify N (concat [u32str (length (upper # levels)), level_public N master 0 upper]) message
      (concat (u32str (length levels) # hss_parts N master 0 (upper # levels) message rnd)) =
    Inr (HssValid (length (upper # levels)))"
proof -
  let ?pubBytes = "concat [u32str (length (upper # levels)), level_public N master 0 upper]"
  let ?sigBytes = "concat (u32str (length levels) # hss_parts N master 0 (upper # levels) message rnd)"
  define k where "k = length levels"
  define lst where "lst = last (upper # levels)"
  have lst: "level_ok lst" using ok unfolding lst_def by (metis last_in_set list.discI)
  have k: "k < 8" using L by (simp add: k_def)
  have C: "length (rnd k) = ot_n (lv_ots lst)"
    using rnd unfolding rnd_ok_def lst_def k_def by (metis add_0 last_conv_nth length_Cons lessI list.discI diff_Suc_1)
  obtain es off where parse: "parse_hss_levels k ?sigBytes 4 (pub_of N master 0 upper) [] = Inr (es, off, pub_of N master k lst)"
    and check: "hss_check_levels N 0 (pub_of N master 0 upper) es = Inr (Inr (pub_of N master k lst))"
    and len: "length es = k" and off: "off \<le> length ?sigBytes"
    and last: "drop off ?sigBytes = level_sign N master k lst message (rnd k)"
    using hss_levels_parsed [OF N ok rnd, of ?sigBytes "u32str (length levels)" master message "[]"]
    by (auto simp: k_def lst_def simp del: last.simps hss_parts.simps)
  obtain sig where sig: "parseLmsSignature (drop off ?sigBytes) (lv_ots lst) (lv_lms lst) True = Inr sig"
    and sig_len: "sg_length sig = length (drop off ?sigBytes)"
    using level_sign_forms(1) [OF N lst C, of master k message "[]"] unfolding last append_Nil2 by blast
  have nspk: "strTou32 ?sigBytes 0 = k" and four: "4 \<le> length ?sigBytes"
    using strTou32_u32str [of k "[]"] k by (simp_all add: k_def)
  have pub: "parseHssPublicKey ?pubBytes = Inr \<lparr>hp_levels = k + 1, hp_top = pub_of N master 0 upper\<rparr>"
    using strTou32_u32str [of "k + 1" "[]"] k level_public_forms(3) [OF N, of upper master 0] ok
    by (simp add: parseHssPublicKey_def k_def)
  have "parseHssSignature ?sigBytes \<lparr>hp_levels = k + 1, hp_top = pub_of N master 0 upper\<rparr> =
      Inr \<lparr>hg_nspk = k, hg_levels = es, hg_finalKey = pub_of N master k lst, hg_finalSignature = sig,
           hg_finalSignatureBytes = drop off ?sigBytes\<rparr>"
    unfolding parseHssSignature_def Let_def nspk using four off parse sig sig_len by simp
  moreover have "lmsRootFromSignature N (lv_lms lst) (lv_ots lst) (pk_I (pub_of N master k lst))
      (drop off ?sigBytes) message = Inr (pk_root (pub_of N master k lst))"
    unfolding last by (rule level_sign_forms(2) [OF N lst C])
  ultimately show ?thesis
    unfolding hssVerify_def pub using check len by (simp add: k_def)
qed

subsection \<open>The private key file\<close>

definition level_params :: "hss_level \<Rightarrow> bool" where
  "level_params level \<longleftrightarrow> lv_lms level \<in> set LMS \<and> lv_ots level \<in> set LMOTS"

definition level_wf :: "hss_level \<Rightarrow> bool" where
  "level_wf level \<longleftrightarrow> level_params level \<and> lv_generation level < 2 ^ 32 \<and> lv_q level < 2 ^ 32"

definition level_bytes :: "hss_level \<Rightarrow> bytes" where
  "level_bytes level = u32str (lm_id (lv_lms level)) @ u32str (ot_id (lv_ots level)) @
     u32str (lv_generation level) @ u32str (lv_q level)"

lemma length_level_bytes [simp]: "length (level_bytes level) = 16"
  by (simp add: level_bytes_def)

lemma private_levels_parsed:
  assumes "\<forall>level\<in>set levels. level_wf level"
  shows "parse_private_levels (length levels) i (pre @ concat (map level_bytes levels)) (length pre) = Inr levels"
  using assms
proof (induction levels arbitrary: i pre)
  case (Cons level levels)
  then have wf: "level_wf level" and rest: "\<forall>level\<in>set levels. level_wf level" by simp_all
  have lp: "lv_lms level \<in> set LMS" and op: "lv_ots level \<in> set LMOTS"
    using wf by (simp_all add: level_wf_def level_params_def)
  let ?tail = "concat (map level_bytes levels)"
  let ?a = "u32str (lm_id (lv_lms level))" and ?b = "u32str (ot_id (lv_ots level))"
    and ?c = "u32str (lv_generation level)" and ?d = "u32str (lv_q level)"
  have "strTou32 (pre @ level_bytes level @ ?tail) (length pre) = lm_id (lv_lms level)"
    "strTou32 (pre @ level_bytes level @ ?tail) (length pre + 4) = ot_id (lv_ots level)"
    "strTou32 (pre @ level_bytes level @ ?tail) (length pre + 8) = lv_generation level"
    "strTou32 (pre @ level_bytes level @ ?tail) (length pre + 12) = lv_q level"
    using wf table_id_range(2) [OF lp] table_id_range(1) [OF op]
      strTou32_u32str [of "lm_id (lv_lms level)" pre "?b @ ?c @ ?d @ ?tail"]
      strTou32_u32str [of "ot_id (lv_ots level)" "pre @ ?a" "?c @ ?d @ ?tail"]
      strTou32_u32str [of "lv_generation level" "pre @ ?a @ ?b" "?d @ ?tail"]
      strTou32_u32str [of "lv_q level" "pre @ ?a @ ?b @ ?c" ?tail]
    by (simp_all add: level_bytes_def level_wf_def)
  with Cons.IH [OF rest, of "i + 1" "pre @ level_bytes level"] show ?case
    by (simp add: lp op)
qed simp

lemma parse_serialized_key:
  assumes "length (hk_master key) = 32" and "length (hk_levels key) < 256"
    and "\<forall>level\<in>set (hk_levels key). level_wf level"
  shows "parseLmsPrivateKey (serializeLmsPrivateKey key) = Inr key"
proof -
  let ?head = "LMS_KEY_MAGIC @ u8str 1 @ u8str (length (hk_levels key)) @ hk_master key"
  have tail: "concat (concat (map (\<lambda>level. [u32str (lm_id (lv_lms level)), u32str (ot_id (lv_ots level)),
      u32str (lv_generation level), u32str (lv_q level)]) levels)) = concat (map level_bytes levels)" for levels
    by (induction levels) (simp_all add: level_bytes_def)
  have whole: "serializeLmsPrivateKey key = ?head @ concat (map level_bytes (hk_levels key))"
    by (simp add: serializeLmsPrivateKey_def tail)
  have "length ?head = 38" using assms(1) by (simp add: LMS_KEY_MAGIC_def)
  with private_levels_parsed [OF assms(3), of 0 ?head]
  have "parse_private_levels (length (hk_levels key)) 0 (serializeLmsPrivateKey key) 38 = Inr (hk_levels key)"
    by (simp add: whole)
  moreover have "serializeLmsPrivateKey key ! 4 = 1" "unat (serializeLmsPrivateKey key ! 5) = length (hk_levels key)"
    "take 4 (serializeLmsPrivateKey key) = LMS_KEY_MAGIC" "take 32 (drop 6 (serializeLmsPrivateKey key)) = hk_master key"
    "38 \<le> length (serializeLmsPrivateKey key)"
    using assms(1,2) by (simp_all add: whole LMS_KEY_MAGIC_def u8str_def byte_of_def unat_of_nat)
  ultimately show ?thesis by (simp add: parseLmsPrivateKey_def)
qed

subsection \<open>How the state moves\<close>

definition level_live :: "hss_level \<Rightarrow> bool" where
  "level_live level \<longleftrightarrow> lv_q level < 2 ^ lm_h (lv_lms level)"

definition renewed :: "hss_level \<Rightarrow> hss_level" where
  "renewed level = level\<lparr>lv_generation := lv_generation level + 1, lv_q := 0\<rparr>"

lemma lowest_usable_live:
  "\<forall>d<n. level_live (levels ! d) \<Longrightarrow> lowest_usable levels n = n"
  by (cases n) (auto simp: level_live_def)

lemma prepare_live:
  assumes "\<forall>u\<in>set us. level_live u"
  shows "hss_prepare (us @ [l]) =
    (if level_live l then Some (us @ [l]) else if us = [] then None else Some (us @ [renewed l]))"
proof -
  have "lowest_usable (us @ [l]) (length us) = length us"
    using assms by (intro lowest_usable_live) (simp add: nth_append)
  then show ?thesis by (auto simp: hss_prepare_def level_live_def renewed_def nth_append Let_def)
qed

lemma bump_last [simp]: "hss_bump (us @ [l]) = us @ [l\<lparr>lv_q := lv_q l + 1\<rparr>]"
  by (simp add: hss_bump_def Let_def)

text \<open>The bottom level after \<open>t\<close> signatures, all generations counted.\<close>

definition bottom_at :: "hss_level \<Rightarrow> nat \<Rightarrow> hss_level" where
  "bottom_at l t = l\<lparr>lv_generation := t div 2 ^ lm_h (lv_lms l), lv_q := t mod 2 ^ lm_h (lv_lms l)\<rparr>"

definition storable_level :: "hss_level \<Rightarrow> bool" where
  "storable_level level \<longleftrightarrow> lv_generation level < 2 ^ 32 \<and> lv_q level < 2 ^ 32"

lemma stored_id: "storable_level l \<Longrightarrow> stored_level l = l"
  by (simp add: stored_level_def storable_level_def)

lemma map_stored_id: "\<forall>u\<in>set us. storable_level u \<Longrightarrow> map stored_level us = us"
  by (induction us) (simp_all add: stored_id)

lemma history_upper:
  assumes "us \<noteq> []" and "\<forall>u\<in>set us. level_live u \<and> storable_level u" and "lv_q l \<le> 2 ^ lm_h (lv_lms l)"
    and "2 ^ lm_h (lv_lms l) < (2 :: nat) ^ 32"
    and "lv_generation l * 2 ^ lm_h (lv_lms l) + lv_q l + n \<le> 2 ^ 32 * 2 ^ lm_h (lv_lms l)"
  shows "hss_history n (us @ [l]) =
    map (\<lambda>i. us @ [bottom_at l (lv_generation l * 2 ^ lm_h (lv_lms l) + lv_q l + i)]) [0..<n]"
  using assms(3-)
proof (induction n arbitrary: l)
  case (Suc n)
  from assms(2) have live: "\<forall>u\<in>set us. level_live u" and stored: "map stored_level us = us"
    by (auto intro: map_stored_id)
  let ?H = "2 ^ lm_h (lv_lms l) :: nat"
  let ?t = "lv_generation l * ?H + lv_q l"
  define l' where "l' = bottom_at l ?t"
  have prep: "hss_prepare (us @ [l]) = Some (us @ [l'])"
  proof (cases "lv_q l < ?H")
    case True
    then have "l' = l" by (simp add: l'_def bottom_at_def)
    with True show ?thesis by (simp add: prepare_live [OF live] level_live_def)
  next
    case False
    with Suc.prems(1) have "lv_q l = ?H" by simp
    then have "l' = renewed l" by (simp add: l'_def bottom_at_def renewed_def)
    with False assms(1) show ?thesis by (simp add: prepare_live [OF live] level_live_def)
  qed
  let ?l = "l'\<lparr>lv_q := lv_q l' + 1\<rparr>"
  have same: "lv_lms ?l = lv_lms l" and q: "lv_q ?l \<le> ?H"
    and t: "lv_generation ?l * ?H + lv_q ?l = Suc ?t"
    by (simp_all add: l'_def bottom_at_def Suc_leI add_mult_distrib add.assoc div_mult_mod_eq)
  have at: "bottom_at ?l s = bottom_at l s" for s by (simp add: l'_def bottom_at_def)
  have "[0..<Suc n] = 0 # map Suc [0..<n]" by (simp add: map_Suc_upt upt_conv_Cons)
  have "?t < 2 ^ 32 * ?H" using Suc.prems(3) by simp
  then have "?t div ?H < 2 ^ 32" by (rule less_mult_imp_div_less)
  then have "storable_level ?l" using q Suc.prems(2) by (simp add: storable_level_def l'_def bottom_at_def)
  then have keep: "map stored_level (us @ [?l]) = us @ [?l]" using stored by (simp add: stored_id)
  have "hss_history (Suc n) (us @ [l]) = (us @ [l']) # hss_history n (us @ [?l])"
    by (simp only: hss_history.simps prep option.case bump_last keep)
  moreover have "hss_history n (us @ [?l]) = map (\<lambda>i. us @ [bottom_at ?l (Suc ?t + i)]) [0..<n]"
    using Suc.IH [of ?l] same q t Suc.prems(2,3) by simp
  ultimately show ?case
    using \<open>[0..<Suc n] = 0 # map Suc [0..<n]\<close> at by (simp add: l'_def [symmetric] del: upt_Suc)
qed simp

lemma history_single:
  assumes "lv_q l \<le> 2 ^ lm_h (lv_lms l)" and "2 ^ lm_h (lv_lms l) < (2 :: nat) ^ 32" and "lv_generation l < 2 ^ 32"
  shows "hss_history n [l] =
    map (\<lambda>i. [l\<lparr>lv_q := lv_q l + i\<rparr>]) [0..<min n (2 ^ lm_h (lv_lms l) - lv_q l)]"
  using assms
proof (induction n arbitrary: l)
  case (Suc n)
  let ?H = "2 ^ lm_h (lv_lms l) :: nat"
  let ?l = "l\<lparr>lv_q := lv_q l + 1\<rparr>"
  show ?case
  proof (cases "lv_q l < ?H")
    case True
    then have "hss_prepare [l] = Some [l]" and bump: "hss_bump [l] = [?l]"
      using prepare_live [of "[]" l] bump_last [of "[]" l] by (simp_all add: level_live_def)
    moreover have "min (Suc n) (?H - lv_q l) = Suc (min n (?H - lv_q ?l))" using True by simp
    moreover have "[0..<Suc m] = 0 # map Suc [0..<m]" for m by (simp add: map_Suc_upt upt_conv_Cons)
    moreover have "stored_level ?l = ?l" using True Suc.prems by (intro stored_id) (simp add: storable_level_def)
    ultimately show ?thesis using Suc.IH [of ?l] True Suc.prems by (simp del: upt_Suc)
  next
    case False
    then have "hss_prepare [l] = None" using prepare_live [of "[]" l] by (simp add: level_live_def)
    with False show ?thesis by simp
  qed
qed simp

subsection \<open>A key in use\<close>

lemma rnd_ok_cong: "map lv_ots a = map lv_ots b \<Longrightarrow> rnd_ok i a rnd = rnd_ok i b rnd"
  unfolding rnd_ok_def by (metis length_map nth_map)

lemma level_public_q [simp]: "level_public N master i (level\<lparr>lv_q := q\<rparr>) = level_public N master i level"
  by (simp add: level_public_def level_tree_def)

lemma tree_size: "level_params level \<Longrightarrow> 2 ^ lm_h (lv_lms level) < (2 :: nat) ^ 32"
  using LMS_shape [of "lv_lms level"] by (intro power_strict_increasing) (auto simp: level_params_def)

definition hss_ready :: "bytes \<Rightarrow> hss_level list \<Rightarrow> hss_level \<Rightarrow> nat \<Rightarrow> bool" where
  "hss_ready master us l n \<longleftrightarrow>
     length master = 32 \<and> length us < 8 \<and> (\<forall>u\<in>set us. level_wf u \<and> level_live u) \<and> level_params l \<and>
     lv_q l \<le> 2 ^ lm_h (lv_lms l) \<and> lv_generation l + n < 2 ^ 32 \<and>
     (us = [] \<longrightarrow> lv_q l + n \<le> 2 ^ lm_h (lv_lms l))"

lemma hss_sign_step:
  assumes N: "noble_documented N" and ready: "hss_ready master us l (Suc n)" and rnd: "rnd_ok 0 (us @ [l]) rnd"
  shows "\<exists>r l'. hssSign N (serializeLmsPrivateKey \<lparr>hk_master = master, hk_levels = us @ [l]\<rparr>) message rnd False = Inr r \<and>
    sm_privateKey r = serializeLmsPrivateKey \<lparr>hk_master = master, hk_levels = us @ [l']\<rparr> \<and>
    hss_ready master us l' n \<and> lv_ots l' = lv_ots l \<and>
    level_public N master 0 (hd (us @ [l'])) = level_public N master 0 (hd (us @ [l])) \<and>
    hssVerify N (concat [u32str (length us + 1), level_public N master 0 (hd (us @ [l]))]) message (sm_signature r) =
      Inr (HssValid (length us + 1))"
proof -
  let ?key = "\<lparr>hk_master = master, hk_levels = us @ [l]\<rparr>"
  have live: "\<forall>u\<in>set us. level_live u" and par: "level_params l" using ready by (simp_all add: hss_ready_def)
  have parse: "parseLmsPrivateKey (serializeLmsPrivateKey ?key) = Inr ?key"
    using ready tree_size [OF par] by (intro parse_serialized_key) (auto simp: hss_ready_def level_wf_def)
  define l1 where "l1 = (if level_live l then l else renewed l)"
  have l1: "level_ok l1" "lv_lms l1 = lv_lms l" "lv_ots l1 = lv_ots l" "lv_generation l1 \<le> lv_generation l + 1"
    using par by (auto simp: l1_def level_ok_def level_live_def renewed_def level_params_def)
  have single: "us = [] \<Longrightarrow> l1 = l" and prep: "hss_prepare (us @ [l]) = Some (us @ [l1])"
    using ready by (auto simp: prepare_live [OF live] l1_def hss_ready_def level_live_def)
  let ?l' = "l1\<lparr>lv_q := lv_q l1 + 1\<rparr>"
  obtain r where r: "hssSign N (serializeLmsPrivateKey ?key) message rnd False = Inr r"
    and sig: "sm_signature r = concat (u32str (length us) # hss_parts N master 0 (us @ [l1]) message rnd)"
    and next_key: "sm_privateKey r = serializeLmsPrivateKey \<lparr>hk_master = master, hk_levels = us @ [?l']\<rparr>"
    by (simp add: hssSign_def parse prep)
  have ready': "hss_ready master us ?l' n"
    using ready l1 single by (auto simp: hss_ready_def level_params_def level_ok_def Suc_leI)
  have pub: "level_public N master 0 (hd (us @ [?l'])) = level_public N master 0 (hd (us @ [l]))"
    "level_public N master 0 (hd (us @ [l1])) = level_public N master 0 (hd (us @ [l]))"
    using single by (cases us; simp)+
  have "\<forall>level\<in>set (us @ [l1]). level_ok level"
    using ready l1(1) by (auto simp: hss_ready_def level_wf_def level_params_def level_live_def level_ok_def)
  moreover have "rnd_ok 0 (us @ [l1]) rnd" using rnd rnd_ok_cong [of "us @ [l1]" "us @ [l]"] l1(3) by simp
  moreover have "length (tl (us @ [l1])) = length us" by simp
  moreover have "us @ [l1] = hd (us @ [l1]) # tl (us @ [l1])" by (cases us) simp_all
  ultimately have "hssVerify N (concat [u32str (length us + 1), level_public N master 0 (hd (us @ [l1]))]) message
      (sm_signature r) = Inr (HssValid (length us + 1))"
    using hss_verifies [OF N, of "hd (us @ [l1])" "tl (us @ [l1])" rnd master message] ready
    unfolding sig by (metis One_nat_def add.right_neutral add_Suc_right hss_ready_def length_Cons)
  then show ?thesis using r next_key ready' l1(3) pub by (intro exI [of _ r] exI [of _ ?l']) simp
qed

lemma hss_sign_all_verifies:
  assumes N: "noble_documented N" and "hss_ready master us l (length messages)"
    and "\<forall>m\<in>set messages. rnd_ok 0 (us @ [l]) (snd m)"
  shows "\<exists>sigs. hss_sign_all N (serializeLmsPrivateKey \<lparr>hk_master = master, hk_levels = us @ [l]\<rparr>) messages = Inr sigs \<and>
    length sigs = length messages \<and>
    (\<forall>i<length messages. hssVerify N (concat [u32str (length us + 1), level_public N master 0 (hd (us @ [l]))])
       (fst (messages ! i)) (sigs ! i) = Inr (HssValid (length us + 1)))"
  using assms(2,3)
proof (induction messages arbitrary: l)
  case (Cons m messages)
  obtain message rnd where m: "m = (message, rnd)" by force
  from Cons.prems have ready: "hss_ready master us l (Suc (length messages))" and rnd: "rnd_ok 0 (us @ [l]) rnd"
    by (simp_all add: m)
  from hss_sign_step [OF N ready rnd, of message] obtain r l' where
    r: "hssSign N (serializeLmsPrivateKey \<lparr>hk_master = master, hk_levels = us @ [l]\<rparr>) message rnd False = Inr r"
    and key: "sm_privateKey r = serializeLmsPrivateKey \<lparr>hk_master = master, hk_levels = us @ [l']\<rparr>"
    and ready': "hss_ready master us l' (length messages)" and ots: "lv_ots l' = lv_ots l"
    and pub: "level_public N master 0 (hd (us @ [l'])) = level_public N master 0 (hd (us @ [l]))"
    and ok: "hssVerify N (concat [u32str (length us + 1), level_public N master 0 (hd (us @ [l]))]) message (sm_signature r) =
      Inr (HssValid (length us + 1))"
    by blast
  have "\<forall>m\<in>set messages. rnd_ok 0 (us @ [l']) (snd m)"
    using Cons.prems(2) rnd_ok_cong [of "us @ [l']" "us @ [l]"] ots by simp
  from Cons.IH [OF ready' this] show ?case
    using r key ok pub by (auto simp: m nth_Cons split: nat.splits)
qed simp

lemma map_upt_distinct: "(\<And>i j. f i = f j \<Longrightarrow> i = j) \<Longrightarrow> distinct (map f [0..<n])"
  by (auto simp: distinct_map inj_on_def)

lemma div_mod_eq: "a div H = b div H \<Longrightarrow> a mod H = b mod H \<Longrightarrow> a = (b :: nat)"
  by (metis div_mult_mod_eq)

text \<open>A one-time key of the bottom level: the generation, as the key derivation sees it, and the index.\<close>

definition bottom_key :: "hss_level list \<Rightarrow> nat \<times> nat" where
  "bottom_key s = (lv_generation (last s) mod 2 ^ 32, lv_q (last s))"

text \<open>So many messages a key of several levels signs before its generations are used up.\<close>

definition generations_last :: "hss_level list \<Rightarrow> hss_level \<Rightarrow> nat \<Rightarrow> bool" where
  "generations_last us l n \<longleftrightarrow>
     (us \<noteq> [] \<longrightarrow> lv_generation l * 2 ^ lm_h (lv_lms l) + lv_q l + n \<le> 2 ^ 32 * 2 ^ lm_h (lv_lms l))"

lemma history_bottoms:
  assumes us: "\<forall>u\<in>set us. level_live u \<and> storable_level u" and q: "lv_q l \<le> 2 ^ lm_h (lv_lms l)"
    and H: "2 ^ lm_h (lv_lms l) < (2 :: nat) ^ 32" and g: "lv_generation l < 2 ^ 32" and n: "generations_last us l n"
  shows "distinct (map bottom_key (hss_history n (us @ [l]))) \<and> (\<forall>s\<in>set (hss_history n (us @ [l])). lv_q (last s) < 2 ^ lm_h (lv_lms l))"
proof (cases "us = []")
  case True
  then have "map bottom_key (hss_history n (us @ [l])) = map (\<lambda>i. (lv_generation l, lv_q l + i)) [0..<min n (2 ^ lm_h (lv_lms l) - lv_q l)]"
    using history_single [OF q H g, of n] g by (simp add: bottom_key_def)
  also have "distinct \<dots>" by (rule map_upt_distinct) simp
  finally have "distinct (map bottom_key (hss_history n (us @ [l])))" .
  then show ?thesis using True history_single [OF q H g, of n] by (auto simp: comp_def)
next
  case False
  let ?H = "2 ^ lm_h (lv_lms l) :: nat" and ?t = "lv_generation l * 2 ^ lm_h (lv_lms l) + lv_q l"
  have n': "?t + n \<le> 2 ^ 32 * ?H" using n False by (simp add: generations_last_def)
  note h = history_upper [OF False us q H n']
  have "map bottom_key (hss_history n (us @ [l])) = map (\<lambda>i. ((?t + i) div ?H, (?t + i) mod ?H)) [0..<n]"
    using n' by (auto simp: h bottom_key_def bottom_at_def less_mult_imp_div_less)
  also have "distinct \<dots>" by (rule map_upt_distinct) (auto dest: div_mod_eq)
  finally have "distinct (map bottom_key (hss_history n (us @ [l])))" .
  then show ?thesis by (auto simp: h bottom_at_def)
qed

text \<open>After \<open>2 ^ 32\<close> generations the derivation is back at the first: the same identity, the same tree, the same one-time keys.\<close>

lemma u32str_wraps: "u32str (g + 2 ^ 32) = u32str g"
proof -
  have "(256 :: byte) = 0" by simp
  then have b: "byte_of (x + k * 256) = byte_of x" for x k by (simp only: byte_of_def of_nat_add of_nat_mult of_nat_numeral mult_zero_right add_0_right)
  have "(g + 2 ^ 32) div 2 ^ 24 = g div 2 ^ 24 + 1 * 256" "(g + 2 ^ 32) div 2 ^ 16 = g div 2 ^ 16 + 256 * 256"
    "(g + 2 ^ 32) div 2 ^ 8 = g div 2 ^ 8 + 65536 * 256" "g + 2 ^ 32 = g + 16777216 * 256"
    using div_mult_self1 [of "2 ^ 24" g 256] div_mult_self1 [of "2 ^ 16" g 65536] div_mult_self1 [of "2 ^ 8" g 16777216] by simp_all
  then show ?thesis by (simp only: u32str_def drop_bit_eq_div b)
qed

lemma generation_wraps:
  "deriveLevelIdentity N master i (g + 2 ^ 32) lp op = deriveLevelIdentity N master i g lp op"
  by (simp only: deriveLevelIdentity_def u32str_wraps)

definition sample_noble :: noble where
  "sample_noble = \<lparr>nb_sha256 = (\<lambda>b. replicate 32 1), nb_sha512 = (\<lambda>b. replicate 64 2),
     nb_shake128 = (\<lambda>b k. replicate k 3), nb_shake256 = (\<lambda>b k. replicate k 4)\<rparr>"

lemma sample_noble_documented: "noble_documented sample_noble"
  by (simp add: noble_documented_def sample_noble_def)

definition sample_lms :: lms_params where "sample_lms = lmsSet 5 ''LMS_SHA256_M32_H5'' Sha256 32 5"

definition sample_lmots :: lmots_params where
  "sample_lmots = lmotsSet 4 ''LMOTS_SHA256_N32_W8'' Sha256 32 8"

lemma sample_params:
  "sample_lms \<in> set LMS" "sample_lmots \<in> set LMOTS" "lm_h sample_lms = 5" "ot_n sample_lmots = 32"
  "lmsKeygenCost sample_lms sample_lmots = 277536"
  by (simp_all add: sample_lms_def sample_lmots_def LMS_def LMOTS_def lmsKeygenCost_def lmsSet_def lmotsSet_def
      lmotsInternals_table Let_def)

subsection \<open>Properties\<close>

text \<open>C16: with any documented hash functions, every message signed with a generated key, one after the other
  with the updated private key, verifies under the generated public key, at every number of levels and for all
  parameter sets, and a single-level key signs as many messages as its tree has leaves.\<close>

theorem hss_signatures_verify:
  assumes "noble_documented N" and "hssKeygen N spec master = Inr g"
    and "\<forall>(lp, op)\<in>set spec. lp \<in> set LMS \<and> op \<in> set LMOTS" and "length spec \<le> 8" and "length master = 32"
    and "length messages < 2 ^ 32" and "length spec = 1 \<longrightarrow> length messages \<le> 2 ^ lm_h (fst (hd spec))"
    and "\<forall>m\<in>set messages. \<forall>j<length spec. length (snd m j) = ot_n (snd (spec ! j))"
  shows "\<exists>sigs. hss_sign_all N (gk_privateKey g) messages = Inr sigs \<and> length sigs = length messages \<and>
    (\<forall>i<length messages.
       hssVerify N (gk_publicKey g) (fst (messages ! i)) (sigs ! i) = Inr (HssValid (length spec)))"
proof -
  let ?level = "\<lambda>(lp, op). \<lparr>lv_lms = lp, lv_ots = op, lv_generation = 0, lv_q = 0\<rparr>"
  from assms(2) have "spec \<noteq> []" by (auto simp: hssKeygen_def Let_def split: if_splits)
  then obtain us l where levels: "map ?level spec = us @ [l]"
    by (cases "map ?level spec" rule: rev_cases) simp_all
  have "length (map ?level spec) = length us + 1" unfolding levels by simp
  then have L: "length spec = length us + 1" by simp
  have fresh: "level_params x \<and> lv_generation x = 0 \<and> lv_q x = 0" if "x \<in> set (us @ [l])" for x
    using that assms(3) unfolding levels [symmetric] by (auto simp: level_params_def)
  have "us = [] \<Longrightarrow> lv_lms l = fst (hd spec)" using levels by (cases spec) auto
  then have ready: "hss_ready master us l (length messages)"
    using assms(4-7) fresh [of l] fresh L unfolding hss_ready_def level_wf_def level_live_def by simp
  have "lv_ots (map ?level spec ! j) = snd (spec ! j)" if "j < length spec" for j
    using that by (simp add: case_prod_beta)
  then have rnd: "\<forall>m\<in>set messages. rnd_ok 0 (us @ [l]) (snd m)"
    unfolding rnd_ok_def levels [symmetric] using assms(8) by simp
  have g: "gk_privateKey g = serializeLmsPrivateKey \<lparr>hk_master = master, hk_levels = us @ [l]\<rparr>"
    "gk_publicKey g = concat [u32str (length us + 1), level_public N master 0 (hd (us @ [l]))]"
    using assms(2) levels by (auto simp: hssKeygen_def Let_def split: if_splits)
  show ?thesis
    unfolding g L by (rule hss_sign_all_verifies [OF assms(1) ready rnd])
qed

lemma hss_signatures_verify_witness:
  "\<exists>g sigs. hssKeygen sample_noble [(sample_lms, sample_lmots)] (replicate 32 7) = Inr g \<and>
     hss_sign_all sample_noble (gk_privateKey g) [([1, 2], \<lambda>_. replicate 32 0), ([3], \<lambda>_. replicate 32 5)] = Inr sigs \<and>
     hssVerify sample_noble (gk_publicKey g) [3] (sigs ! 1) = Inr (HssValid 1)"
proof -
  obtain g where g: "hssKeygen sample_noble [(sample_lms, sample_lmots)] (replicate 32 7) = Inr g"
    by (simp add: hssKeygen_def canKeygen_def sample_params MAX_KEYGEN_HASHES_def Let_def)
  let ?messages = "[([1, 2], \<lambda>_. replicate 32 0), ([3], \<lambda>_. replicate 32 5)] :: (bytes \<times> (nat \<Rightarrow> bytes)) list"
  have "\<exists>sigs. hss_sign_all sample_noble (gk_privateKey g) ?messages = Inr sigs \<and> length sigs = length ?messages \<and>
    (\<forall>i<length ?messages. hssVerify sample_noble (gk_publicKey g) (fst (?messages ! i)) (sigs ! i) =
      Inr (HssValid (length [(sample_lms, sample_lmots)])))"
    by (rule hss_signatures_verify [OF sample_noble_documented g]) (simp_all add: sample_params)
  with g show ?thesis by fastforce
qed

text \<open>C17: while a key is used, its file read back between the messages, the bottom level never signs two of them with the same
  one-time key: a key of one level stops when its leaves are spent, and one of several levels, for which a generation is 32 bits,
  repeats none before it has signed \<open>2 ^ (32 + h)\<close> messages.  The index stays inside the tree.\<close>

theorem hss_bottom_key_never_reused:
  assumes "\<forall>u\<in>set us. level_live u \<and> storable_level u" and "level_params l" and "lv_q l \<le> 2 ^ lm_h (lv_lms l)"
    and "lv_generation l < 2 ^ 32" and "generations_last us l n"
  shows "distinct (map bottom_key (hss_history n (us @ [l]))) \<and>
    (\<forall>s\<in>set (hss_history n (us @ [l])). lv_q (last s) < 2 ^ lm_h (lv_lms l)) \<and>
    length (hss_history n [l]) = min n (2 ^ lm_h (lv_lms l) - lv_q l)"
  using history_bottoms [OF assms(1,3) tree_size [OF assms(2)] assms(4,5)] history_single [OF assms(3) tree_size [OF assms(2)] assms(4)]
  by simp

lemma hss_bottom_key_never_reused_witness:
  "let u = \<lparr>lv_lms = sample_lms, lv_ots = sample_lmots, lv_generation = 0, lv_q = 30\<rparr>
   in distinct (map bottom_key (hss_history 1000 ([u] @ [u]))) \<and> length (hss_history 40 [u]) = 2"
proof -
  let ?u = "\<lparr>lv_lms = sample_lms, lv_ots = sample_lmots, lv_generation = 0, lv_q = 30\<rparr>"
  have u: "level_params ?u" "level_live ?u" "storable_level ?u"
    by (simp_all add: level_params_def level_live_def storable_level_def sample_params)
  have "distinct (map bottom_key (hss_history 1000 ([?u] @ [?u]))) \<and>
      (\<forall>s\<in>set (hss_history 1000 ([?u] @ [?u])). lv_q (last s) < 2 ^ lm_h (lv_lms ?u)) \<and>
      length (hss_history 1000 [?u]) = min 1000 (2 ^ lm_h (lv_lms ?u) - lv_q ?u)"
    by (rule hss_bottom_key_never_reused) (use u in \<open>simp_all add: sample_params generations_last_def\<close>)
  moreover have "distinct (map bottom_key (hss_history 40 ([] @ [?u]))) \<and>
      (\<forall>s\<in>set (hss_history 40 ([] @ [?u])). lv_q (last s) < 2 ^ lm_h (lv_lms ?u)) \<and>
      length (hss_history 40 [?u]) = min 40 (2 ^ lm_h (lv_lms ?u) - lv_q ?u)"
    by (rule hss_bottom_key_never_reused) (use u in \<open>simp_all add: sample_params generations_last_def\<close>)
  ultimately show ?thesis by (simp add: sample_params Let_def)
qed

text \<open>The index of an upper level never moves: message \<open>i\<close> is signed in a state whose upper level is still the
  one of the first message, while the key it certifies is the bottom level's generation \<open>i div 2 ^ h\<close>.  So a key of two
  levels never runs out, and two messages \<open>2 ^ h\<close> apart carry signatures of different keys made with one and
  the same one-time key of the upper level.\<close>

theorem hss_upper_index_reused:
  assumes "level_live u" and "storable_level u" and "level_params l" and "lv_generation l = 0" and "lv_q l = 0"
    and "n \<le> 2 ^ (32 + lm_h (lv_lms l))" and "i < n"
  shows "length (hss_history n [u, l]) = n \<and> hss_history n [u, l] ! i = [u, bottom_at l i] \<and>
    hss_parts N master 0 (hss_history n [u, l] ! i) message rnd =
      [level_sign N master 0 u (level_public N master 1 (bottom_at l i)) (rnd 0),
       level_public N master 1 (bottom_at l i),
       level_sign N master 1 (bottom_at l i) message (rnd 1)]"
  using history_upper [of "[u]" l n] tree_size [OF assms(3)] assms by (simp add: Let_def power_add)

lemma hss_upper_index_reused_witness:
  "let u = \<lparr>lv_lms = sample_lms, lv_ots = sample_lmots, lv_generation = 0, lv_q = 0\<rparr>
   in length (hss_history 33 [u, u]) = 33 \<and> hss_history 33 [u, u] ! 0 = [u, u] \<and>
      hss_history 33 [u, u] ! 32 = [u, u\<lparr>lv_generation := 1\<rparr>]"
proof -
  let ?u = "\<lparr>lv_lms = sample_lms, lv_ots = sample_lmots, lv_generation = 0, lv_q = 0\<rparr>"
  have u: "level_live ?u" "storable_level ?u" "level_params ?u"
    by (simp_all add: level_live_def storable_level_def level_params_def sample_params)
  from hss_upper_index_reused [OF u, of 33 0] hss_upper_index_reused [OF u, of 33 32]
  show ?thesis by (simp add: bottom_at_def sample_params Let_def)
qed

end
