(* ===== verification/Hbs_Xmss.thy ===== *)
theory Hbs_Xmss
  imports Hbs_Params
begin

text \<open>
  XMSS and XMSS^MT as \<open>client/src/hbs.js\<close> has them: the parameter sets, the keyed hashes over an address, WOTS+,
  L-trees, the hash tree and its verification.

  An address is the source's array of eight 32-bit words; the functions that write into the array they are handed
  return it beside their result, so that the words a callee leaves behind are the ones its caller goes on with.
  WOTS+ is an interpretation of \<open>winternitz\<close>, the tree one of \<open>merkle_tree\<close>.
\<close>

subsection \<open>Parameter sets\<close>

record xmss_params =
  xp_id :: nat
  xp_name :: string
  xp_hash :: hash_name
  xp_n :: nat
  xp_w :: nat
  xp_h :: nat
  xp_d :: nat
  xp_padding :: nat
  xp_multiTree :: bool

fun has_text :: "string \<Rightarrow> string \<Rightarrow> bool" where
  "has_text pat [] \<longleftrightarrow> pat = []"
| "has_text pat (c # s) \<longleftrightarrow> take (length pat) (c # s) = pat \<or> has_text pat s"

definition xmssHashOf :: "string \<Rightarrow> hash_name" where
  "xmssHashOf name =
     (if has_text ''SHAKE256'' name then Shake256
      else if has_text ''SHAKE'' name then (if has_text ''_512'' name then Shake256 else Shake128)
      else if has_text ''_512'' name then Sha512 else Sha256)"

definition xmssSet :: "nat \<Rightarrow> string \<Rightarrow> nat \<Rightarrow> nat \<Rightarrow> nat \<Rightarrow> xmss_params" where
  "xmssSet i name n h d =
     \<lparr>xp_id = i, xp_name = name, xp_hash = xmssHashOf name, xp_n = n, xp_w = 16, xp_h = h, xp_d = d,
      xp_padding = (if n = 24 then 4 else n), xp_multiTree = (1 < d)\<rparr>"

definition XMSS :: "xmss_params list" where
  "XMSS =
     [xmssSet 1 ''XMSS-SHA2_10_256'' 32 10 1,
      xmssSet 2 ''XMSS-SHA2_16_256'' 32 16 1,
      xmssSet 3 ''XMSS-SHA2_20_256'' 32 20 1,
      xmssSet 4 ''XMSS-SHA2_10_512'' 64 10 1,
      xmssSet 5 ''XMSS-SHA2_16_512'' 64 16 1,
      xmssSet 6 ''XMSS-SHA2_20_512'' 64 20 1,
      xmssSet 7 ''XMSS-SHAKE_10_256'' 32 10 1,
      xmssSet 8 ''XMSS-SHAKE_16_256'' 32 16 1,
      xmssSet 9 ''XMSS-SHAKE_20_256'' 32 20 1,
      xmssSet 10 ''XMSS-SHAKE_10_512'' 64 10 1,
      xmssSet 11 ''XMSS-SHAKE_16_512'' 64 16 1,
      xmssSet 12 ''XMSS-SHAKE_20_512'' 64 20 1,
      xmssSet 13 ''XMSS-SHA2_10_192'' 24 10 1,
      xmssSet 14 ''XMSS-SHA2_16_192'' 24 16 1,
      xmssSet 15 ''XMSS-SHA2_20_192'' 24 20 1,
      xmssSet 16 ''XMSS-SHAKE256_10_256'' 32 10 1,
      xmssSet 17 ''XMSS-SHAKE256_16_256'' 32 16 1,
      xmssSet 18 ''XMSS-SHAKE256_20_256'' 32 20 1,
      xmssSet 19 ''XMSS-SHAKE256_10_192'' 24 10 1,
      xmssSet 20 ''XMSS-SHAKE256_16_192'' 24 16 1,
      xmssSet 21 ''XMSS-SHAKE256_20_192'' 24 20 1]"

definition XMSSMT_SHAPES :: "(nat \<times> nat) list" where
  "XMSSMT_SHAPES = [(20, 2), (20, 4), (40, 2), (40, 4), (40, 8), (60, 3), (60, 6), (60, 12)]"

definition XMSSMT_families :: "(string \<times> string \<times> nat) list" where
  "XMSSMT_families =
     [(''XMSSMT-SHA2_'', ''_256'', 32), (''XMSSMT-SHA2_'', ''_512'', 64), (''XMSSMT-SHAKE_'', ''_256'', 32),
      (''XMSSMT-SHAKE_'', ''_512'', 64), (''XMSSMT-SHA2_'', ''_192'', 24), (''XMSSMT-SHAKE256_'', ''_256'', 32),
      (''XMSSMT-SHAKE256_'', ''_192'', 24)]"

definition XMSSMT :: "xmss_params list" where
  "XMSSMT =
     map2 (\<lambda>i ((prefix, suffix, n), (h, d)). xmssSet i (prefix @ show_nat h @ ''/'' @ show_nat d @ suffix) n h d)
       [1..<57] (List.product XMSSMT_families XMSSMT_SHAPES)"

definition XMSS_BY_ID :: "nat \<Rightarrow> xmss_params option" where
  "XMSS_BY_ID i = find (\<lambda>s. xp_id s = i) XMSS"

definition XMSSMT_BY_ID :: "nat \<Rightarrow> xmss_params option" where
  "XMSSMT_BY_ID i = find (\<lambda>s. xp_id s = i) XMSSMT"

definition XMSS_BY_NAME :: "string \<Rightarrow> xmss_params option" where
  "XMSS_BY_NAME nm = find (\<lambda>s. xp_name s = nm) XMSS"

definition XMSSMT_BY_NAME :: "string \<Rightarrow> xmss_params option" where
  "XMSSMT_BY_NAME nm = find (\<lambda>s. xp_name s = nm) XMSSMT"

text \<open>What every parameter set satisfies.\<close>

definition xmss_shape :: "xmss_params \<Rightarrow> bool" where
  "xmss_shape p \<longleftrightarrow>
     xp_w p = 16 \<and> (xp_n p = 24 \<or> xp_n p = 32 \<or> xp_n p = 64) \<and> 0 < xp_d p \<and>
     xp_h p = xp_d p * (xp_h p div xp_d p) \<and> xp_h p div xp_d p \<le> 20 \<and> 0 < xp_h p \<and> xp_h p \<le> 60 \<and>
     xp_id p \<le> 60 \<and> hash_room (xp_hash p) (xp_n p) \<and>
     (if xp_multiTree p then xp_h p = 20 \<or> xp_h p = 40 \<or> xp_h p = 60 else xp_d p = 1)"

lemma XMSS_shapes: "list_all xmss_shape XMSS" "list_all xmss_shape XMSSMT"
  by code_simp+

lemma XMSS_ids: "map xp_id XMSS = [1..<22]" "map xp_id XMSSMT = [1..<57]"
  by code_simp+

lemma XMSS_trees: "list_all (\<lambda>p. \<not> xp_multiTree p) XMSS" "list_all xp_multiTree XMSSMT"
  by code_simp+

subsection \<open>Keyed hashes and addresses\<close>

definition PAD_F :: nat where "PAD_F = 0"
definition PAD_H :: nat where "PAD_H = 1"
definition PAD_HASH :: nat where "PAD_HASH = 2"
definition PAD_PRF :: nat where "PAD_PRF = 3"
definition PAD_PRF_KEYGEN :: nat where "PAD_PRF_KEYGEN = 4"

definition coreHash :: "noble \<Rightarrow> xmss_params \<Rightarrow> bytes \<Rightarrow> bytes" where
  "coreHash N p b = HASHES N (xp_hash p) b (xp_n p)"

text \<open>The prefixes are cached in the source; they are constants of the parameter set.\<close>

definition padBytes :: "xmss_params \<Rightarrow> nat \<Rightarrow> bytes" where
  "padBytes p which = toByte which (xp_padding p)"

record address =
  ad0 :: nat
  ad1 :: nat
  ad2 :: nat
  ad3 :: nat
  ad4 :: nat
  ad5 :: nat
  ad6 :: nat
  ad7 :: nat

definition newAddress :: address where
  "newAddress = \<lparr>ad0 = 0, ad1 = 0, ad2 = 0, ad3 = 0, ad4 = 0, ad5 = 0, ad6 = 0, ad7 = 0\<rparr>"

definition addressBytes :: "address \<Rightarrow> bytes" where
  "addressBytes a =
     concat (map u32str [ad0 a, ad1 a, ad2 a, ad3 a, ad4 a, ad5 a, ad6 a, ad7 a])"

definition setType :: "nat \<Rightarrow> address \<Rightarrow> address" where
  "setType ty a = a\<lparr>ad3 := ty, ad4 := 0, ad5 := 0, ad6 := 0, ad7 := 0\<rparr>"

definition setTreeAddress :: "nat \<Rightarrow> address \<Rightarrow> address" where
  "setTreeAddress v a = a\<lparr>ad1 := drop_bit 32 v AND 0xffffffff, ad2 := v AND 0xffffffff\<rparr>"

definition prf_hash :: "noble \<Rightarrow> xmss_params \<Rightarrow> bytes \<Rightarrow> bytes \<Rightarrow> bytes" where
  "prf_hash N p key inBytes32 = coreHash N p (concat [padBytes p PAD_PRF, key, inBytes32])"

definition prfKeygen :: "noble \<Rightarrow> xmss_params \<Rightarrow> bytes \<Rightarrow> bytes \<Rightarrow> bytes" where
  "prfKeygen N p key inBytes = coreHash N p (concat [padBytes p PAD_PRF_KEYGEN, key, inBytes])"

definition hashMessage :: "noble \<Rightarrow> xmss_params \<Rightarrow> bytes \<Rightarrow> bytes \<Rightarrow> nat \<Rightarrow> bytes \<Rightarrow> bytes" where
  "hashMessage N p R root idx message =
     coreHash N p (concat [padBytes p PAD_HASH, R, root, toByte idx (xp_n p), message])"

definition xorBytesInto :: "bytes \<Rightarrow> bytes \<Rightarrow> bytes" where
  "xorBytesInto a b = map (\<lambda>i. a ! i XOR (if i < length b then b ! i else 0)) [0..<length a]"

definition thashF :: "noble \<Rightarrow> xmss_params \<Rightarrow> bytes \<Rightarrow> bytes \<Rightarrow> address \<Rightarrow> bytes \<times> address" where
  "thashF N p inp pubSeed a =
     (let a = a\<lparr>ad7 := 0\<rparr>; key = prf_hash N p pubSeed (addressBytes a);
          a = a\<lparr>ad7 := 1\<rparr>; bm = prf_hash N p pubSeed (addressBytes a)
      in (coreHash N p (concat [padBytes p PAD_F, key, xorBytesInto inp bm]), a))"

definition thashH :: "noble \<Rightarrow> xmss_params \<Rightarrow> bytes \<Rightarrow> bytes \<Rightarrow> bytes \<Rightarrow> address \<Rightarrow> bytes \<times> address" where
  "thashH N p left right pubSeed a =
     (let a = a\<lparr>ad7 := 0\<rparr>; key = prf_hash N p pubSeed (addressBytes a);
          a = a\<lparr>ad7 := 1\<rparr>; bm0 = prf_hash N p pubSeed (addressBytes a);
          a = a\<lparr>ad7 := 2\<rparr>; bm1 = prf_hash N p pubSeed (addressBytes a)
      in (coreHash N p (concat [padBytes p PAD_H, key, xorBytesInto left bm0, xorBytesInto right bm1]), a))"

subsection \<open>WOTS+\<close>

record wots_len =
  wl_len1 :: nat
  wl_len2 :: nat
  wl_len :: nat
  wl_lgw :: nat

definition wotsLen :: "xmss_params \<Rightarrow> wots_len" where
  "wotsLen p =
     (let lgw = floor_log2 (xp_w p); len1 = ceil_div (8 * xp_n p) lgw;
          len2 = floor_log2 (len1 * (xp_w p - 1)) div lgw + 1
      in \<lparr>wl_len1 = len1, wl_len2 = len2, wl_len = len1 + len2, wl_lgw = lgw\<rparr>)"

fun baseW_loop :: "nat \<Rightarrow> bytes \<Rightarrow> nat \<Rightarrow> nat \<Rightarrow> nat \<Rightarrow> nat \<Rightarrow> nat \<Rightarrow> nat list" where
  "baseW_loop 0 X w lgw inPos octet bits = []"
| "baseW_loop (Suc n) X w lgw inPos octet bits =
     (let (octet, inPos, bits) = (if bits = 0 then (byte_at X inPos, inPos + 1, 8) else (octet, inPos, bits));
          bits = bits - lgw
      in (drop_bit bits octet AND (w - 1)) # baseW_loop n X w lgw inPos octet bits)"

definition baseW :: "bytes \<Rightarrow> nat \<Rightarrow> nat \<Rightarrow> nat list" where
  "baseW X w outLen = baseW_loop outLen X w (floor_log2 w) 0 0 0"

definition wotsDigits :: "xmss_params \<Rightarrow> bytes \<Rightarrow> nat list" where
  "wotsDigits p message =
     (let lens = wotsLen p;
          msg = baseW message (xp_w p) (wl_len1 lens);
          csum = foldl (\<lambda>csum i. csum + xp_w p - 1 - msg ! i) 0 [0..<wl_len1 lens];
          csum = push_bit (8 - (wl_len2 lens * wl_lgw lens) mod 8) csum;
          csumBytes = ceil_div (wl_len2 lens * wl_lgw lens) 8
      in msg @ baseW (toByte csum csumBytes) (xp_w p) (wl_len2 lens))"

text \<open>Running a step for each index in turn, the address going from one to the next.\<close>

fun adr_map :: "(nat \<Rightarrow> address \<Rightarrow> 'x \<times> address) \<Rightarrow> nat list \<Rightarrow> address \<Rightarrow> 'x list \<times> address" where
  "adr_map f [] a = ([], a)"
| "adr_map f (i # is) a = (let (x, a') = f i a; (xs, a'') = adr_map f is a' in (x # xs, a''))"

definition wotsChain ::
    "noble \<Rightarrow> xmss_params \<Rightarrow> bytes \<Rightarrow> nat \<Rightarrow> nat \<Rightarrow> bytes \<Rightarrow> address \<Rightarrow> bytes \<times> address" where
  "wotsChain N p X start steps pubSeed a =
     fold (\<lambda>i (tmp, a). thashF N p tmp pubSeed (a\<lparr>ad6 := i\<rparr>)) [start..<min (start + steps) (xp_w p)] (X, a)"

definition wotsPrivateKey ::
    "noble \<Rightarrow> xmss_params \<Rightarrow> bytes \<Rightarrow> bytes \<Rightarrow> address \<Rightarrow> bytes list \<times> address" where
  "wotsPrivateKey N p skSeed pubSeed a =
     adr_map (\<lambda>i a. let a = a\<lparr>ad5 := i\<rparr> in (prfKeygen N p skSeed (concat [pubSeed, addressBytes a]), a))
       [0..<wl_len (wotsLen p)] (a\<lparr>ad6 := 0, ad7 := 0\<rparr>)"

definition wotsPublicKey ::
    "noble \<Rightarrow> xmss_params \<Rightarrow> bytes list \<Rightarrow> bytes \<Rightarrow> address \<Rightarrow> bytes list \<times> address" where
  "wotsPublicKey N p sk pubSeed a =
     adr_map (\<lambda>i a. wotsChain N p (sk ! i) 0 (xp_w p - 1) pubSeed (a\<lparr>ad5 := i\<rparr>)) [0..<length sk] a"

definition wotsSign ::
    "noble \<Rightarrow> xmss_params \<Rightarrow> bytes \<Rightarrow> bytes list \<Rightarrow> bytes \<Rightarrow> address \<Rightarrow> bytes list \<times> address" where
  "wotsSign N p message sk pubSeed a =
     (let digits = wotsDigits p message
      in adr_map (\<lambda>i a. wotsChain N p (sk ! i) 0 (digits ! i) pubSeed (a\<lparr>ad5 := i\<rparr>)) [0..<length sk] a)"

definition wotsPkFromSig ::
    "noble \<Rightarrow> xmss_params \<Rightarrow> bytes \<Rightarrow> bytes list \<Rightarrow> bytes \<Rightarrow> address \<Rightarrow> bytes list \<times> address" where
  "wotsPkFromSig N p message sig pubSeed a =
     (let digits = wotsDigits p message
      in adr_map (\<lambda>i a. wotsChain N p (sig ! i) (digits ! i) (xp_w p - 1 - digits ! i) pubSeed (a\<lparr>ad5 := i\<rparr>))
           [0..<length sig] a)"

subsection \<open>Trees\<close>

text \<open>The L-tree works in place on a copy of the public key; \<open>lenPrime\<close> nodes of it are in use.\<close>

definition ltree_row ::
    "noble \<Rightarrow> xmss_params \<Rightarrow> bytes \<Rightarrow> nat \<Rightarrow> bytes list \<times> address \<Rightarrow> bytes list \<times> address" where
  "ltree_row N p pubSeed lenPrime =
     fold (\<lambda>i (nodes, a). case thashH N p (nodes ! (2 * i)) (nodes ! (2 * i + 1)) pubSeed (a\<lparr>ad6 := i\<rparr>) of
             (x, a) \<Rightarrow> (nodes[i := x], a)) [0..<lenPrime div 2]"

function ltree_loop :: "noble \<Rightarrow> xmss_params \<Rightarrow> bytes \<Rightarrow> bytes list \<Rightarrow> nat \<Rightarrow> address \<Rightarrow> bytes" where
  "ltree_loop N p pubSeed nodes lenPrime a =
     (if 1 < lenPrime
      then
        (case ltree_row N p pubSeed lenPrime (nodes, a) of
           (nodes, a) \<Rightarrow>
             ltree_loop N p pubSeed
               (if lenPrime mod 2 = 1 then nodes[lenPrime div 2 := nodes ! (lenPrime - 1)] else nodes)
               (ceil_div lenPrime 2) (a\<lparr>ad5 := ad5 a + 1\<rparr>))
      else nodes ! 0)"
  by pat_completeness auto
termination
  by (relation "measure (\<lambda>(N, p, s, nodes, lenPrime, a). lenPrime)") (auto simp: ceil_div_def)

declare ltree_loop.simps [simp del]

definition ltree :: "noble \<Rightarrow> xmss_params \<Rightarrow> bytes list \<Rightarrow> bytes \<Rightarrow> address \<Rightarrow> bytes" where
  "ltree N p pk pubSeed a = ltree_loop N p pubSeed pk (length pk) (a\<lparr>ad5 := 0\<rparr>)"

definition tree_address :: "nat \<Rightarrow> nat \<Rightarrow> address" where
  "tree_address layer treeAddress = setTreeAddress treeAddress (newAddress\<lparr>ad0 := layer\<rparr>)"

definition xmss_leaf ::
    "noble \<Rightarrow> xmss_params \<Rightarrow> bytes \<Rightarrow> bytes \<Rightarrow> nat \<Rightarrow> nat \<Rightarrow> nat \<Rightarrow> bytes" where
  "xmss_leaf N p skSeed pubSeed layer treeAddress i =
     (let a = (setType 0 (tree_address layer treeAddress))\<lparr>ad4 := i\<rparr>;
          (sk, a) = wotsPrivateKey N p skSeed pubSeed a;
          a = (setType 0 a)\<lparr>ad4 := i\<rparr>;
          (pk, a) = wotsPublicKey N p sk pubSeed a;
          a = (setType 1 a)\<lparr>ad4 := i\<rparr>
      in ltree N p pk pubSeed a)"

fun xmss_rows ::
    "noble \<Rightarrow> xmss_params \<Rightarrow> bytes \<Rightarrow> nat \<Rightarrow> nat \<Rightarrow> nat \<Rightarrow> nat \<Rightarrow> bytes list \<Rightarrow> bytes list list" where
  "xmss_rows N p pubSeed layer treeAddress 0 k prev = []"
| "xmss_rows N p pubSeed layer treeAddress (Suc n) k prev =
     (let row = map (\<lambda>j. fst (thashH N p (prev ! (2 * j)) (prev ! (2 * j + 1)) pubSeed
                   ((setType 2 (tree_address layer treeAddress))\<lparr>ad5 := k - 1, ad6 := j\<rparr>)))
                  [0..<length prev div 2]
      in row # xmss_rows N p pubSeed layer treeAddress n (k + 1) row)"

definition xmss_height :: "xmss_params \<Rightarrow> nat" where
  "xmss_height p = xp_h p div xp_d p"

definition xmssTree ::
    "noble \<Rightarrow> xmss_params \<Rightarrow> bytes \<Rightarrow> bytes \<Rightarrow> nat \<Rightarrow> nat \<Rightarrow> bytes list list" where
  "xmssTree N p skSeed pubSeed layer treeAddress =
     (let height = xmss_height p;
          leaves = map (xmss_leaf N p skSeed pubSeed layer treeAddress) [0..<2 ^ height]
      in leaves # xmss_rows N p pubSeed layer treeAddress height 1 leaves)"

definition xmss_root :: "xmss_params \<Rightarrow> bytes list list \<Rightarrow> bytes" where
  "xmss_root p levels = levels ! xmss_height p ! 0"

definition xmssAuthPath :: "xmss_params \<Rightarrow> bytes list list \<Rightarrow> nat \<Rightarrow> bytes list" where
  "xmssAuthPath p levels leafIndex =
     map (\<lambda>k. levels ! k ! (drop_bit k leafIndex XOR 1)) [0..<xmss_height p]"

text \<open>Step \<open>k\<close> of the verifier's climb; word six carries the row it has reached.\<close>

definition xmss_climb_step ::
    "noble \<Rightarrow> xmss_params \<Rightarrow> bytes \<Rightarrow> nat \<Rightarrow> bytes list \<Rightarrow> nat \<Rightarrow> bytes \<times> address \<Rightarrow> bytes \<times> address" where
  "xmss_climb_step N p pubSeed leafIndex auth k =
     (\<lambda>(node, a).
        let a = a\<lparr>ad5 := k\<rparr>
        in if leafIndex div 2 ^ k mod 2 = 0
           then thashH N p node (auth ! k) pubSeed (a\<lparr>ad6 := ad6 a div 2\<rparr>)
           else thashH N p (auth ! k) node pubSeed (a\<lparr>ad6 := (ad6 a - 1) div 2\<rparr>))"

definition xmssRootFromSig ::
    "noble \<Rightarrow> xmss_params \<Rightarrow> nat \<Rightarrow> bytes list \<Rightarrow> bytes list \<Rightarrow> bytes \<Rightarrow> bytes \<Rightarrow> nat \<Rightarrow> nat \<Rightarrow> bytes" where
  "xmssRootFromSig N p leafIndex otsSig auth message pubSeed layer treeAddress =
     (let a = (setType 0 (tree_address layer treeAddress))\<lparr>ad4 := leafIndex\<rparr>;
          (pk, a) = wotsPkFromSig N p message otsSig pubSeed a;
          a = (setType 1 a)\<lparr>ad4 := leafIndex\<rparr>;
          node = ltree N p pk pubSeed a;
          a = (setType 2 a)\<lparr>ad6 := leafIndex\<rparr>
      in fst (fold (xmss_climb_step N p pubSeed leafIndex auth) [0..<xmss_height p] (node, a)))"

subsection \<open>What the address threading amounts to\<close>

text \<open>The words a WOTS+ computation leaves alone: all but the last three, and all but the last two.\<close>

definition frame5 :: "address \<Rightarrow> address" where
  "frame5 a = a\<lparr>ad5 := 0, ad6 := 0, ad7 := 0\<rparr>"

definition frame6 :: "address \<Rightarrow> address" where
  "frame6 a = a\<lparr>ad6 := 0, ad7 := 0\<rparr>"

lemma thashF_frame:
  "fst (thashF N p x seed (a\<lparr>ad6 := j\<rparr>)) = fst (thashF N p x seed ((frame6 a)\<lparr>ad6 := j\<rparr>))"
  "frame6 (snd (thashF N p x seed (a\<lparr>ad6 := j\<rparr>))) = frame6 a"
  by (simp_all add: thashF_def frame6_def Let_def)

lemma thashH_frame:
  "fst (thashH N p l r seed (a\<lparr>ad7 := x\<rparr>)) = fst (thashH N p l r seed a)"
  "snd (thashH N p l r seed a) = a\<lparr>ad7 := 2\<rparr>"
  by (simp_all add: thashH_def Let_def)

definition chain :: "noble \<Rightarrow> xmss_params \<Rightarrow> bytes \<Rightarrow> address \<Rightarrow> nat \<Rightarrow> nat \<Rightarrow> bytes \<Rightarrow> bytes" where
  "chain N p seed A lo hi x = fold (\<lambda>j x. fst (thashF N p x seed (A\<lparr>ad6 := j\<rparr>))) [lo..<hi] x"

lemma wotsChain_frame:
  "fst (wotsChain N p X start steps seed a) = chain N p seed (frame6 a) start (min (start + steps) (xp_w p)) X"
  "frame6 (snd (wotsChain N p X start steps seed a)) = frame6 a"
proof -
  have "fst (fold (\<lambda>i (tmp, a). thashF N p tmp seed (a\<lparr>ad6 := i\<rparr>)) js (x, b)) =
      fold (\<lambda>j x. fst (thashF N p x seed ((frame6 b)\<lparr>ad6 := j\<rparr>))) js x \<and>
    frame6 (snd (fold (\<lambda>i (tmp, a). thashF N p tmp seed (a\<lparr>ad6 := i\<rparr>)) js (x, b))) = frame6 b" for js x b
  proof (induction js arbitrary: x b)
    case (Cons j js)
    obtain x' b' where s: "thashF N p x seed (b\<lparr>ad6 := j\<rparr>) = (x', b')" by force
    then have "x' = fst (thashF N p x seed ((frame6 b)\<lparr>ad6 := j\<rparr>))" "frame6 b' = frame6 b"
      using thashF_frame [where N = N and p = p and x = x and seed = seed and a = b and j = j] by simp_all
    with Cons.IH [where x = x' and b = b'] s show ?case by simp
  qed simp
  then show "fst (wotsChain N p X start steps seed a) = chain N p seed (frame6 a) start (min (start + steps) (xp_w p)) X"
    and "frame6 (snd (wotsChain N p X start steps seed a)) = frame6 a"
    unfolding wotsChain_def chain_def by blast+
qed

lemma adr_map_frame:
  assumes "\<And>i a. fst (f i a) = F i (frame5 a)" and "\<And>i a. frame5 (snd (f i a)) = frame5 a"
  shows "fst (adr_map f is a) = map (\<lambda>i. F i (frame5 a)) is \<and> frame5 (snd (adr_map f is a)) = frame5 a"
proof (induction "is" arbitrary: a)
  case (Cons i "is")
  obtain x b where s: "f i a = (x, b)" by force
  with assms [of i a] have x: "x = F i (frame5 a)" "frame5 b = frame5 a" by simp_all
  obtain xs c where r: "adr_map f is b = (xs, c)" by force
  with Cons.IH [of b] x s show ?case by simp
qed simp

lemma frame5_set: "frame6 (a\<lparr>ad5 := i\<rparr>) = (frame5 a)\<lparr>ad5 := i\<rparr>" "frame6 b = frame6 (a\<lparr>ad5 := i\<rparr>) \<Longrightarrow> frame5 b = frame5 a"
proof -
  show "frame6 (a\<lparr>ad5 := i\<rparr>) = (frame5 a)\<lparr>ad5 := i\<rparr>" by (simp add: frame5_def frame6_def)
  assume "frame6 b = frame6 (a\<lparr>ad5 := i\<rparr>)"
  then show "frame5 b = frame5 a"
    by (cases a; cases b) (simp add: frame5_def frame6_def)
qed

lemma chains_frame:
  "fst (adr_map (\<lambda>i a. wotsChain N p (X i) (s i) (t i) seed (a\<lparr>ad5 := i\<rparr>)) is a) =
     map (\<lambda>i. chain N p seed ((frame5 a)\<lparr>ad5 := i\<rparr>) (s i) (min (s i + t i) (xp_w p)) (X i)) is"
  "frame5 (snd (adr_map (\<lambda>i a. wotsChain N p (X i) (s i) (t i) seed (a\<lparr>ad5 := i\<rparr>)) is a)) = frame5 a"
  using adr_map_frame [of "\<lambda>i a. wotsChain N p (X i) (s i) (t i) seed (a\<lparr>ad5 := i\<rparr>)"
      "\<lambda>i A. chain N p seed (A\<lparr>ad5 := i\<rparr>) (s i) (min (s i + t i) (xp_w p)) (X i)" "is" a]
  by (simp_all add: wotsChain_frame frame5_set(1) frame5_set(2) [OF wotsChain_frame(2)])

lemma private_frame:
  "fst (wotsPrivateKey N p skSeed seed a) = map (\<lambda>i. prfKeygen N p skSeed (seed @ addressBytes ((frame5 a)\<lparr>ad5 := i\<rparr>)))
     [0..<wl_len (wotsLen p)]"
  "frame5 (snd (wotsPrivateKey N p skSeed seed a)) = frame5 a"
proof -
  have "fst (adr_map (\<lambda>i a. let a = a\<lparr>ad5 := i\<rparr> in (prfKeygen N p skSeed (concat [seed, addressBytes a]), a)) is b) =
      map (\<lambda>i. prfKeygen N p skSeed (seed @ addressBytes (b\<lparr>ad5 := i\<rparr>))) is \<and>
    frame5 (snd (adr_map (\<lambda>i a. let a = a\<lparr>ad5 := i\<rparr> in (prfKeygen N p skSeed (concat [seed, addressBytes a]), a)) is b)) =
      frame5 b" for "is" b
  proof (induction "is" arbitrary: b)
    case (Cons i "is")
    from Cons.IH [of "b\<lparr>ad5 := i\<rparr>"] show ?case
      by (simp add: Let_def case_prod_beta frame5_def)
  qed simp
  from this [of "[0..<wl_len (wotsLen p)]" "a\<lparr>ad6 := 0, ad7 := 0\<rparr>"]
  show "fst (wotsPrivateKey N p skSeed seed a) = map (\<lambda>i. prfKeygen N p skSeed (seed @ addressBytes ((frame5 a)\<lparr>ad5 := i\<rparr>)))
     [0..<wl_len (wotsLen p)]"
    and "frame5 (snd (wotsPrivateKey N p skSeed seed a)) = frame5 a"
    by (simp_all add: wotsPrivateKey_def frame5_def)
qed

end
