(* ===== verification/Hbs_Xmss_Laws.thy ===== *)
theory Hbs_Xmss_Laws
  imports Hbs_Xmss
begin

text \<open>
  What the one-time signatures and trees of \<open>Hbs_Xmss\<close> satisfy.  The WOTS+ digits of the seventy-seven parameter
  sets are an interpretation of \<open>winternitz\<close>, the tree one of \<open>merkle_tree\<close>; with both, the root computed from a
  signature is the root of the signer's tree.  The last part gives the lengths the parsers rely on.
\<close>

subsection \<open>Digits\<close>

lemma xmss_shapeD:
  assumes "xmss_shape p"
  shows "xp_w p = 16" and "hash_room (xp_hash p) (xp_n p)" and "xp_n p \<in> {24, 32, 64}"
    and "0 < xp_d p" and "xp_h p = xp_d p * xmss_height p" and "xmss_height p \<le> 20" and "0 < xmss_height p"
    and "xp_h p \<le> 60"
  using assms by (auto simp: xmss_shape_def xmss_height_def intro: gr0I)

lemma wotsLen_shape:
  assumes "xmss_shape p"
  shows "wotsLen p = \<lparr>wl_len1 = 2 * xp_n p, wl_len2 = 3, wl_len = 2 * xp_n p + 3, wl_lgw = 4\<rparr>"
proof -
  have l: "floor_log2 16 = 4" "floor_log2 720 = 9" "floor_log2 960 = 9" "floor_log2 1920 = 10"
    by (rule floor_log2_eq; simp)+
  show ?thesis
    using xmss_shapeD(1,3) [OF assms] by (auto simp: wotsLen_def ceil_div_def l Let_def)
qed

lemma baseW_coef: "baseW X 16 n = map (\<lambda>i. coef X i 4) [0..<n]"
proof -
  have l: "floor_log2 16 = 4" by (rule floor_log2_eq) simp_all
  have mask: "x AND 15 = x mod 16" for x :: nat
    using and_mask_nat [of 4 x] by (simp add: and.commute)
  have even: "coef X (2 * j) 4 = byte_at X j div 16 mod 16" for j by (simp add: coef_value)
  have odd: "coef X (2 * j + 1) 4 = byte_at X j mod 16" for j
  proof -
    have "Suc (2 * j) * 4 div 8 = j" and "Suc (2 * j) mod 2 = 1" by presburger+
    then show ?thesis by (simp add: coef_value)
  qed
  have "baseW_loop n X 16 4 j oc 0 = map (\<lambda>i. coef X i 4) [2 * j..<2 * j + n] \<and>
    baseW_loop n X 16 4 (j + 1) (byte_at X j) 4 = map (\<lambda>i. coef X i 4) [2 * j + 1..<2 * j + 1 + n]" for j oc
  proof (induction n arbitrary: j oc)
    case (Suc n)
    from Suc [of j oc] Suc [of "j + 1" "byte_at X j"] even [of j] odd [of j] show ?case
      by (simp del: upt_Suc add: mask drop_bit_eq_div upt_conv_Cons)
  qed simp
  from this [of 0 0] show ?thesis by (simp add: baseW_def l)
qed

definition wots_sum :: "nat \<Rightarrow> bytes \<Rightarrow> nat" where
  "wots_sum n message = (\<Sum>i<2 * n. 15 - coef message i 4)"

lemma wotsDigits_shape:
  assumes p: "xmss_shape p"
  shows "wotsDigits p message =
    map (\<lambda>i. coef message i 4) [0..<2 * xp_n p] @ map (\<lambda>i. wots_sum (xp_n p) message div 16 ^ (2 - i) mod 16) [0..<3]"
proof -
  let ?s = "wots_sum (xp_n p) message"
  have "?s \<le> (\<Sum>i<2 * xp_n p. 15)" unfolding wots_sum_def by (intro sum_mono) simp
  then have s: "?s * 16 < 2 ^ 16" using xmss_shapeD(3) [OF p] by auto
  have "toByte v (Suc (Suc 0)) = u16str v" for v
    by (simp add: toByte_def u16str_def drop_bit_eq_div)
  then have bytes: "toByte v 2 = u16str v" for v
    by (simp only: numeral_2_eq_2)
  have "foldl (\<lambda>csum i. csum + 16 - 1 - coef message i 4) 0 [0..<2 * xp_n p] = ?s"
    using foldl_complements [of "\<lambda>i. coef message i 4" 15 0 "2 * xp_n p"] coef_less [of message _ 4]
    by (simp add: wots_sum_def add.commute [of _ 15])
  moreover have "foldl (\<lambda>csum i. csum + 16 - 1 - map (\<lambda>i. coef message i 4) [0..<2 * xp_n p] ! i) 0 [0..<2 * xp_n p] =
      foldl (\<lambda>csum i. csum + 16 - 1 - coef message i 4) 0 [0..<2 * xp_n p]"
    by (intro foldl_cong) simp_all
  moreover have "map (\<lambda>i. coef (u16str (?s * 16)) i 4) [0..<3] = map (\<lambda>i. ?s div 16 ^ (2 - i) mod 16) [0..<3]"
  proof (intro map_cong refl)
    fix i :: nat assume "i \<in> set [0..<3]"
    then have i: "i = 0 \<or> i = 1 \<or> i = 2" by auto
    then show "coef (u16str (?s * 16)) i 4 = ?s div 16 ^ (2 - i) mod 16"
      using coef_u16str [of 4 i "?s * 16"] s by (auto simp: div_mult_mult1_if)
  qed
  ultimately show ?thesis
    by (simp add: wotsDigits_def wotsLen_shape [OF p] xmss_shapeD(1) [OF p] baseW_coef Let_def bytes ceil_div_def
        push_bit_eq_mult)
qed

lemma wotsDigits_bounds:
  assumes p: "xmss_shape p"
  shows "length (wotsDigits p message) = wl_len (wotsLen p)"
    and "i < wl_len (wotsLen p) \<Longrightarrow> wotsDigits p message ! i \<le> 15"
  using coef_less [of message _ 4]
  by (auto simp: wotsDigits_shape [OF p] wotsLen_shape [OF p] nth_append)


text \<open>The rows of the two tables, counted round.\<close>

definition xmss_row :: "nat \<Rightarrow> xmss_params" where
  "xmss_row i = (XMSS @ XMSSMT) ! (i mod length (XMSS @ XMSSMT))"

lemma xmss_tables_shape: "p \<in> set (XMSS @ XMSSMT) \<Longrightarrow> xmss_shape p"
  using XMSS_shapes by (auto simp: list_all_iff)

lemma xmss_row_in: "xmss_row i \<in> set (XMSS @ XMSSMT)"
proof -
  have "length XMSS = 21" using arg_cong [OF XMSS_ids(1), of length] by simp
  then show ?thesis unfolding xmss_row_def by (intro nth_mem mod_less_divisor) simp
qed

lemma xmss_row_surj: "p \<in> set (XMSS @ XMSSMT) \<Longrightarrow> \<exists>i. p = xmss_row i"
  by (metis in_set_conv_nth xmss_row_def mod_less)

interpretation wots: winternitz 16 "2 * xp_n (xmss_row k)" 3 "\<lambda>m i. wotsDigits (xmss_row k) m ! i"
    "\<lambda>m i. wotsDigits (xmss_row k) m ! (2 * xp_n (xmss_row k) + i)" "\<lambda>m. length m = xp_n (xmss_row k)" for k
proof
  let ?p = "xmss_row k"
  have p: "xmss_shape ?p" by (rule xmss_tables_shape [OF xmss_row_in])
  have n: "xp_n ?p \<in> {24, 32, 64}" by (rule xmss_shapeD(3) [OF p])
  have digit: "wotsDigits ?p m ! i = coef m i 4" if "i < 2 * xp_n ?p" for m i
    using that by (simp add: wotsDigits_shape [OF p] nth_append)
  have check: "wotsDigits ?p m ! (2 * xp_n ?p + i) = wots_sum (xp_n ?p) m div 16 ^ (2 - i) mod 16" if "i < 3" for m i
    using that by (simp add: wotsDigits_shape [OF p] nth_append)
  show "wotsDigits ?p m ! i \<le> 16 - 1" if "i < 2 * xp_n ?p" for m i
    using coef_less [of m i 4] by (simp add: digit [OF that])
  show "wotsDigits ?p m ! (2 * xp_n ?p + i) =
      (\<Sum>i<2 * xp_n ?p. 16 - 1 - wotsDigits ?p m ! i) div 16 ^ (3 - 1 - i) mod 16" if "i < 3" for m i
    by (simp add: check [OF that] digit wots_sum_def)
  show "2 * xp_n ?p * (16 - 1) < 16 ^ 3" using n by auto
  fix m m' :: bytes
  assume l: "length m = xp_n ?p" "length m' = xp_n ?p"
    and eq: "\<forall>i<2 * xp_n ?p. wotsDigits ?p m ! i = wotsDigits ?p m' ! i"
  show "m = m'"
    by (rule coefs_determine [where w = 4 and u = "2 * xp_n ?p"]) (use l eq in \<open>simp_all add: digit\<close>)
qed

subsection \<open>One-time signatures verify\<close>

lemma chain_split: "lo \<le> hi \<Longrightarrow> chain N p seed A lo hi (chain N p seed A 0 lo x) = chain N p seed A 0 hi x"
  unfolding chain_def by (rule fold_upt_split)

lemma wots_pk_from_sig:
  assumes p: "xmss_shape p" and sk: "length sk = wl_len (wotsLen p)"
    and frames: "frame5 b = frame5 a" "frame5 c = frame5 a"
  shows "fst (wotsPkFromSig N p message (fst (wotsSign N p message sk seed a)) seed b) =
    fst (wotsPublicKey N p sk seed c)"
proof -
  let ?d = "wotsDigits p message"
  have d: "?d ! i \<le> 15" if "i < length sk" for i using wotsDigits_bounds(2) [OF p] that by (simp add: sk)
  have sig: "fst (wotsSign N p message sk seed a) =
      map (\<lambda>i. chain N p seed ((frame5 a)\<lparr>ad5 := i\<rparr>) 0 (min (0 + ?d ! i) 16) (sk ! i)) [0..<length sk]"
    by (simp add: wotsSign_def Let_def chains_frame(1) xmss_shapeD(1) [OF p])
  show ?thesis
    unfolding wotsPkFromSig_def wotsPublicKey_def Let_def chains_frame(1) sig frames xmss_shapeD(1) [OF p]
    by (rule nth_equalityI) (simp_all add: chain_split min_absorb1 d le_trans [OF d])
qed

lemma wots_frames [simp]:
  "frame5 (snd (wotsSign N p message sk seed a)) = frame5 a"
  "frame5 (snd (wotsPublicKey N p sk seed a)) = frame5 a"
  "frame5 (snd (wotsPkFromSig N p message sig seed a)) = frame5 a"
  by (simp_all add: wotsSign_def wotsPublicKey_def wotsPkFromSig_def Let_def chains_frame(2))

lemma length_thash: "length (fst (thashF N p x seed a)) = xp_n p" "length (fst (thashH N p l r seed a)) = xp_n p"
  if "noble_documented N" "xmss_shape p"
  using that xmss_shapeD(2) [OF that(2)] by (simp_all add: thashF_def thashH_def coreHash_def length_HASHES Let_def)

lemma length_chain:
  assumes N: "noble_documented N" and p: "xmss_shape p" and x: "length x = xp_n p"
  shows "length (chain N p seed A lo hi x) = xp_n p"
proof -
  have "length (fold (\<lambda>j x. fst (thashF N p x seed (A\<lparr>ad6 := j\<rparr>))) js x) = xp_n p" for js
    using x by (induction js arbitrary: x) (simp_all add: length_thash [OF N p])
  then show ?thesis by (simp add: chain_def)
qed

lemma wotsSign_lengths:
  assumes N: "noble_documented N" and p: "xmss_shape p" and sk: "\<forall>x\<in>set sk. length x = xp_n p"
  shows "length (fst (wotsSign N p message sk seed a)) = length sk"
    and "\<forall>x\<in>set (fst (wotsSign N p message sk seed a)). length x = xp_n p"
  using sk by (auto simp: wotsSign_def Let_def chains_frame(1) length_chain [OF N p])

lemma wotsPrivateKey_lengths:
  assumes N: "noble_documented N" and p: "xmss_shape p"
  shows "length (fst (wotsPrivateKey N p skSeed seed a)) = wl_len (wotsLen p)"
    and "\<forall>x\<in>set (fst (wotsPrivateKey N p skSeed seed a)). length x = xp_n p"
  using xmss_shapeD(2) [OF p] N by (auto simp: private_frame(1) prfKeygen_def coreHash_def length_HASHES)


subsection \<open>The tree\<close>

definition xmss_combine ::
    "noble \<Rightarrow> xmss_params \<Rightarrow> bytes \<Rightarrow> nat \<Rightarrow> nat \<Rightarrow> nat \<Rightarrow> nat \<Rightarrow> bytes \<Rightarrow> bytes \<Rightarrow> bytes" where
  "xmss_combine N p pubSeed layer treeAddress k j left right =
     fst (thashH N p left right pubSeed ((setType 2 (tree_address layer treeAddress))\<lparr>ad5 := k - 1, ad6 := j\<rparr>))"

definition xmss_node ::
    "noble \<Rightarrow> xmss_params \<Rightarrow> bytes \<Rightarrow> bytes \<Rightarrow> nat \<Rightarrow> nat \<Rightarrow> nat \<Rightarrow> nat \<Rightarrow> bytes" where
  "xmss_node N p skSeed pubSeed layer treeAddress k j = xmssTree N p skSeed pubSeed layer treeAddress ! k ! j"

lemma xmss_rows_step:
  assumes "i < n"
  shows "(prev # xmss_rows N p seed layer t n k prev) ! Suc i =
    map (\<lambda>j. xmss_combine N p seed layer t (k + i) j
          ((prev # xmss_rows N p seed layer t n k prev) ! i ! (2 * j))
          ((prev # xmss_rows N p seed layer t n k prev) ! i ! (2 * j + 1)))
      [0..<length ((prev # xmss_rows N p seed layer t n k prev) ! i) div 2]"
  using assms
proof (induction n arbitrary: i k prev)
  case (Suc n)
  show ?case
  proof (cases i)
    case 0
    then show ?thesis by (simp add: xmss_combine_def Let_def)
  next
    case (Suc i')
    with Suc.IH [of i' "map (\<lambda>j. fst (thashH N p (prev ! (2 * j)) (prev ! (2 * j + 1)) seed
                   ((setType 2 (tree_address layer t))\<lparr>ad5 := k - 1, ad6 := j\<rparr>)))
                  [0..<length prev div 2]" "k + 1"] Suc.prems
    show ?thesis by (simp add: Let_def)
  qed
qed simp

lemma xmssTree_step:
  assumes "i < xmss_height p"
  shows "xmssTree N p skSeed seed layer t ! Suc i =
    map (\<lambda>j. xmss_combine N p seed layer t (Suc i) j (xmssTree N p skSeed seed layer t ! i ! (2 * j))
          (xmssTree N p skSeed seed layer t ! i ! (2 * j + 1)))
      [0..<length (xmssTree N p skSeed seed layer t ! i) div 2]"
  using xmss_rows_step [OF assms, where k = 1] by (simp only: xmssTree_def Let_def plus_1_eq_Suc)

lemma xmssTree_length:
  "i \<le> xmss_height p \<Longrightarrow> length (xmssTree N p skSeed seed layer t ! i) = 2 ^ (xmss_height p - i)"
proof (induction i)
  case 0
  then show ?case by (simp add: xmssTree_def Let_def)
next
  case (Suc i)
  then have i: "i < xmss_height p" by simp
  have "2 ^ (xmss_height p - i) = 2 * (2 :: nat) ^ (xmss_height p - Suc i)"
    using i by (simp flip: power_Suc add: Suc_diff_Suc)
  with Suc.IH i show ?case by (simp add: xmssTree_step)
qed

interpretation xmss: merkle_tree "xmss_combine N p seed layer t" "xmss_height p" "xmss_node N p skSeed seed layer t"
  for N p seed layer t skSeed
proof
  fix k j :: nat
  assume k: "k < xmss_height p" and j: "j < 2 ^ (xmss_height p - Suc k)"
  have "2 ^ (xmss_height p - k) = 2 * (2 :: nat) ^ (xmss_height p - Suc k)"
    using k by (simp flip: power_Suc add: Suc_diff_Suc)
  with xmssTree_length [of k p N skSeed seed layer t] k j
  show "xmss_node N p skSeed seed layer t (Suc k) j =
      xmss_combine N p seed layer t (Suc k) j (xmss_node N p skSeed seed layer t k (2 * j))
        (xmss_node N p skSeed seed layer t k (2 * j + 1))"
    by (simp add: xmss_node_def xmssTree_step)
qed

lemma xmssAuthPath_siblings:
  "xmssAuthPath p (xmssTree N p skSeed seed layer t) i =
    merkle_tree.siblings (xmss_height p) (xmss_node N p skSeed seed layer t) 0 i"
  by (simp add: xmssAuthPath_def xmss.siblings_def xmss_node_def drop_bit_eq_div)

lemma xmss_climb:
  assumes "frame5 a = setType 2 (tree_address layer t)" and "ad6 a = leaf div 2 ^ k" and "k + length path = length auth"
    and "path = drop k auth"
  shows "fst (fold (xmss_climb_step N p seed leaf auth) [k..<length auth] (x, a)) =
    climb (xmss_combine N p seed layer t) k (leaf div 2 ^ k) x path"
  using assms
proof (induction path arbitrary: k x a)
  case (Cons s path)
  let ?A = "setType 2 (tree_address layer t)"
  have k: "k < length auth" using Cons.prems(3) by simp
  then have "s # path = auth ! k # drop (Suc k) auth" using Cons.prems(4) Cons_nth_drop_Suc [OF k] by simp
  then have s: "s = auth ! k" "path = drop (Suc k) auth" by simp_all
  have th: "thashH N p l r seed (a\<lparr>ad5 := k, ad6 := j\<rparr>) =
      (xmss_combine N p seed layer t (Suc k) j l r, a\<lparr>ad5 := k, ad6 := j, ad7 := 2\<rparr>)" for l r j
  proof (rule prod_eqI)
    have "a\<lparr>ad5 := k, ad6 := j, ad7 := 0\<rparr> = (frame5 a)\<lparr>ad5 := k, ad6 := j\<rparr>" by (simp add: frame5_def)
    with thashH_frame(1) [where a = "a\<lparr>ad5 := k, ad6 := j\<rparr>" and x = 0 and N = N and p = p and l = l and r = r and seed = seed] Cons.prems(1)
    show "fst (thashH N p l r seed (a\<lparr>ad5 := k, ad6 := j\<rparr>)) =
        fst (xmss_combine N p seed layer t (Suc k) j l r, a\<lparr>ad5 := k, ad6 := j, ad7 := 2\<rparr>)"
      by (simp add: xmss_combine_def)
  qed (simp add: thashH_frame(2))
  let ?j = "leaf div 2 ^ k"
  let ?x = "if odd ?j then xmss_combine N p seed layer t (Suc k) (?j div 2) s x
            else xmss_combine N p seed layer t (Suc k) (?j div 2) x s"
  have step: "xmss_climb_step N p seed leaf auth k (x, a) = (?x, a\<lparr>ad5 := k, ad6 := ?j div 2, ad7 := 2\<rparr>)"
  proof -
    have "odd j \<Longrightarrow> (j - 1) div 2 = j div 2" for j :: nat by presburger
    from this [of ?j] Cons.prems(2) s(1) show ?thesis
      by (cases "odd ?j") (simp_all add: xmss_climb_step_def Let_def th odd_iff_mod_2_eq_one)
  qed
  have "frame5 (a\<lparr>ad5 := k, ad6 := ?j div 2, ad7 := 2\<rparr>) = ?A" using Cons.prems(1) by (simp add: frame5_def)
  then have "fst (fold (xmss_climb_step N p seed leaf auth) [Suc k..<length auth]
      (?x, a\<lparr>ad5 := k, ad6 := ?j div 2, ad7 := 2\<rparr>)) =
      climb (xmss_combine N p seed layer t) (Suc k) (leaf div 2 ^ Suc k) ?x path"
    using Cons.prems(3) s(2) by (intro Cons.IH) (simp_all add: div_mult2_eq mult.commute [of 2])
  then show ?case
    by (simp add: upt_conv_Cons [OF k] step div_mult2_eq mult.commute [of 2])
qed simp


subsection \<open>A signature gives the root back\<close>

text \<open>The one-time key pair of a leaf, as the generator and the signer derive it.\<close>

definition leaf_address :: "nat \<Rightarrow> nat \<Rightarrow> nat \<Rightarrow> address" where
  "leaf_address layer treeAddress i = (setType 0 (tree_address layer treeAddress))\<lparr>ad4 := i\<rparr>"

definition leaf_key :: "noble \<Rightarrow> xmss_params \<Rightarrow> bytes \<Rightarrow> bytes \<Rightarrow> nat \<Rightarrow> nat \<Rightarrow> nat \<Rightarrow> bytes list" where
  "leaf_key N p skSeed pubSeed layer treeAddress i =
     fst (wotsPrivateKey N p skSeed pubSeed (leaf_address layer treeAddress i))"

lemma leaf_address_frames:
  "frame5 (leaf_address layer t i) = leaf_address layer t i"
  "frame5 a = leaf_address layer t i \<Longrightarrow> (setType 0 a)\<lparr>ad4 := i\<rparr> = leaf_address layer t i"
  "frame5 a = frame5 b \<Longrightarrow> setType ty a = setType ty b"
proof -
  show "frame5 (leaf_address layer t i) = leaf_address layer t i"
    by (simp add: leaf_address_def frame5_def setType_def)
  show same: "frame5 a = frame5 b \<Longrightarrow> setType ty a = setType ty b" for a b ty
    by (cases a; cases b) (simp add: frame5_def setType_def)
  assume "frame5 a = leaf_address layer t i"
  then have "frame5 a = frame5 (leaf_address layer t i)" by (simp add: leaf_address_def frame5_def setType_def)
  from same [OF this, of 0] show "(setType 0 a)\<lparr>ad4 := i\<rparr> = leaf_address layer t i"
    by (simp add: leaf_address_def setType_def)
qed

lemma leaf_value:
  "xmss_leaf N p skSeed seed layer t i =
    ltree N p (fst (wotsPublicKey N p (leaf_key N p skSeed seed layer t i) seed (leaf_address layer t i))) seed
      ((setType 1 (leaf_address layer t i))\<lparr>ad4 := i\<rparr>)"
proof -
  obtain sk a where k: "wotsPrivateKey N p skSeed seed (leaf_address layer t i) = (sk, a)" by force
  have a: "(setType 0 a)\<lparr>ad4 := i\<rparr> = leaf_address layer t i"
    using private_frame(2) [of N p skSeed seed "leaf_address layer t i"] by (simp add: k leaf_address_frames)
  obtain pk b where w: "wotsPublicKey N p sk seed (leaf_address layer t i) = (pk, b)" by force
  have "frame5 b = frame5 (leaf_address layer t i)"
    using wots_frames(2) [of N p sk seed "leaf_address layer t i"] by (simp add: w)
  from leaf_address_frames(3) [OF this, of 1] have "setType 1 b = setType 1 (leaf_address layer t i)" .
  with k w a show ?thesis
    by (simp add: xmss_leaf_def Let_def leaf_key_def flip: leaf_address_def)
qed

lemma xmss_sign_gives_root:
  assumes N: "noble_documented N" and p: "xmss_shape p" and i: "i < 2 ^ xmss_height p" and a: "frame5 a = leaf_address layer t i"
  shows "xmssRootFromSig N p i (fst (wotsSign N p message (leaf_key N p skSeed seed layer t i) seed a))
      (xmssAuthPath p (xmssTree N p skSeed seed layer t) i) message seed layer t =
    xmss_root p (xmssTree N p skSeed seed layer t)"
proof -
  let ?L = "leaf_address layer t i" and ?sk = "leaf_key N p skSeed seed layer t i"
  let ?auth = "xmssAuthPath p (xmssTree N p skSeed seed layer t) i"
  obtain pk b where w: "wotsPkFromSig N p message (fst (wotsSign N p message ?sk seed a)) seed ?L = (pk, b)" by force
  have sk: "length ?sk = wl_len (wotsLen p)" by (simp add: leaf_key_def private_frame(1))
  have pk: "pk = fst (wotsPublicKey N p ?sk seed ?L)"
    using wots_pk_from_sig [OF p sk, where a = a and b = ?L and c = ?L and N = N and message = message and seed = seed] w a
    by (simp add: leaf_address_frames(1))
  have "frame5 b = frame5 ?L" 
    using wots_frames(3) [of N p message "fst (wotsSign N p message ?sk seed a)" seed ?L] by (simp add: w)
  from leaf_address_frames(3) [OF this] have b: "setType ty b = setType ty ?L" for ty .
  let ?node = "ltree N p pk seed ((setType 1 b)\<lparr>ad4 := i\<rparr>)"
  have node: "?node = xmss_node N p skSeed seed layer t 0 i"
    using i by (simp add: xmss_node_def xmssTree_def Let_def leaf_value pk b)
  let ?c = "(setType 2 ((setType 1 b)\<lparr>ad4 := i\<rparr>))\<lparr>ad6 := i\<rparr>"
  have "frame5 ?c = setType 2 (tree_address layer t)"
    unfolding b by (simp add: leaf_address_def frame5_def setType_def)
  then have "fst (fold (xmss_climb_step N p seed i ?auth) [0..<length ?auth] (?node, ?c)) =
      climb (xmss_combine N p seed layer t) 0 (i div 2 ^ 0) ?node ?auth"
    by (rule xmss_climb) simp_all
  also have "\<dots> = xmss_node N p skSeed seed layer t (xmss_height p) 0"
    unfolding node xmssAuthPath_siblings using xmss.climb_siblings [of 0 p i N seed layer t skSeed] i by simp
  finally have "fst (fold (xmss_climb_step N p seed i ?auth) [0..<xmss_height p] (?node, ?c)) =
      xmss_root p (xmssTree N p skSeed seed layer t)"
    by (simp add: xmss_root_def xmss_node_def xmssAuthPath_def)
  then show ?thesis
    by (simp add: xmssRootFromSig_def Let_def w flip: leaf_address_def)
qed

subsection \<open>Lengths\<close>

lemma ltree_row_lengths:
  assumes N: "noble_documented N" and p: "xmss_shape p" and nodes: "\<forall>x\<in>set nodes. length x = xp_n p"
  shows "length (fst (ltree_row N p seed k (nodes, a))) = length nodes"
    and "\<forall>x\<in>set (fst (ltree_row N p seed k (nodes, a))). length x = xp_n p"
proof -
  let ?step = "\<lambda>i (nodes, a). case thashH N p (nodes ! (2 * i)) (nodes ! (2 * i + 1)) seed (a\<lparr>ad6 := i\<rparr>) of
    (x, a) \<Rightarrow> (nodes[i := x], a)"
  have "length (fst (fold ?step is (nodes, a))) = length nodes \<and>
      (\<forall>x\<in>set (fst (fold ?step is (nodes, a))). length x = xp_n p)" for "is"
    using nodes
  proof (induction "is" arbitrary: nodes a)
    case (Cons i "is")
    obtain x b where t: "thashH N p (nodes ! (2 * i)) (nodes ! (2 * i + 1)) seed (a\<lparr>ad6 := i\<rparr>) = (x, b)" by force
    then have x: "length x = xp_n p"
      using length_thash(2) [OF N p, of "nodes ! (2 * i)" "nodes ! (2 * i + 1)" seed "a\<lparr>ad6 := i\<rparr>"] by simp
    have "\<forall>y\<in>set (nodes[i := x]). length y = xp_n p"
      using Cons.prems x set_update_subset_insert [of nodes i x] by blast
    from Cons.IH [OF this, of b] t show ?case by simp
  qed simp
  then show "length (fst (ltree_row N p seed k (nodes, a))) = length nodes"
    and "\<forall>x\<in>set (fst (ltree_row N p seed k (nodes, a))). length x = xp_n p"
    unfolding ltree_row_def by blast+
qed

lemma length_ltree_loop:
  assumes N: "noble_documented N" and p: "xmss_shape p" and nodes: "\<forall>x\<in>set nodes. length x = xp_n p"
    and k: "k \<le> length nodes" "nodes \<noteq> []"
  shows "length (ltree_loop N p seed nodes k a) = xp_n p"
  using nodes k
proof (induction k arbitrary: nodes a rule: less_induct)
  case (less k)
  show ?case
  proof (cases "1 < k")
    case True
    obtain nodes' b where r: "ltree_row N p seed k (nodes, a) = (nodes', b)" by force
    let ?nodes = "if k mod 2 = 1 then nodes'[k div 2 := nodes' ! (k - 1)] else nodes'"
    have l: "length nodes' = length nodes" and all: "\<forall>x\<in>set nodes'. length x = xp_n p"
      using ltree_row_lengths [OF N p less.prems(1), of seed k a] by (simp_all add: r)
    then have "nodes' ! (k - 1) \<in> set nodes'" using less.prems(2) True by (intro nth_mem) simp
    with all have "\<forall>x\<in>set ?nodes. length x = xp_n p"
      using set_update_subset_insert [of nodes' "k div 2" "nodes' ! (k - 1)"] by auto
    moreover have "ceil_div k 2 < k" "ceil_div k 2 \<le> length ?nodes" "?nodes \<noteq> []"
      using True less.prems(2,3) l by (auto simp: ceil_div_def)
    ultimately have "length (ltree_loop N p seed ?nodes (ceil_div k 2) (b\<lparr>ad5 := ad5 b + 1\<rparr>)) = xp_n p"
      by (intro less.IH)
    with True r show ?thesis by (subst ltree_loop.simps) simp
  next
    case False
    with less.prems show ?thesis by (subst ltree_loop.simps) (simp add: nth_mem)
  qed
qed

lemma wotsPublicKey_lengths:
  assumes N: "noble_documented N" and p: "xmss_shape p"
  shows "\<forall>x\<in>set (fst (wotsPublicKey N p (leaf_key N p skSeed seed layer t i) seed a)). length x = xp_n p"
    and "length (fst (wotsPublicKey N p (leaf_key N p skSeed seed layer t i) seed a)) = 2 * xp_n p + 3"
proof -
  let ?sk = "leaf_key N p skSeed seed layer t i"
  have "\<forall>x\<in>set ?sk. length x = xp_n p" and l: "length ?sk = 2 * xp_n p + 3"
    using wotsPrivateKey_lengths [OF N p] by (simp_all add: leaf_key_def wotsLen_shape [OF p])
  then show "\<forall>x\<in>set (fst (wotsPublicKey N p ?sk seed a)). length x = xp_n p"
    and "length (fst (wotsPublicKey N p ?sk seed a)) = 2 * xp_n p + 3"
    by (auto simp: wotsPublicKey_def chains_frame(1) length_chain [OF N p])
qed

lemma length_xmss_node:
  assumes N: "noble_documented N" and p: "xmss_shape p" and k: "k \<le> xmss_height p" and j: "j < 2 ^ (xmss_height p - k)"
  shows "length (xmss_node N p skSeed seed layer t k j) = xp_n p"
proof (cases k)
  case 0
  have "length (xmss_leaf N p skSeed seed layer t j) = xp_n p"
    using wotsPublicKey_lengths [OF N p, of skSeed seed layer t j "leaf_address layer t j"]
    unfolding leaf_value ltree_def by (intro length_ltree_loop [OF N p]) auto
  with 0 j show ?thesis by (simp add: xmss_node_def xmssTree_def Let_def)
next
  case (Suc i)
  with k j xmss.inner [of i p j N skSeed seed layer t] show ?thesis
    by (simp add: xmss_combine_def length_thash [OF N p])
qed

lemma xmss_siblings_lengths:
  assumes N: "noble_documented N" and p: "xmss_shape p" and q: "q < 2 ^ xmss_height p"
  shows "\<forall>x\<in>set (xmssAuthPath p (xmssTree N p skSeed seed layer t) q). length x = xp_n p"
proof -
  have "q div 2 ^ i XOR 1 < 2 ^ (xmss_height p - i)" if "i < xmss_height p" for i
    using sibling_in_row [OF q that] .
  then show ?thesis
    using length_xmss_node [OF N p] by (auto simp: xmssAuthPath_siblings xmss.siblings_def)
qed

end
