(* ===== verification/Hbs_Xmss_Key.thy ===== *)
theory Hbs_Xmss_Key
  imports Hbs_Hss Hbs_Xmss_Laws
begin

text \<open>
  Keys and signatures of XMSS and XMSS^MT (\<open>client/src/hbs.js\<close>): the private key file, the public key, the signature
  and its parser, generation, signing, verification, the count of what is left, and the demonstration that signs
  twice from one index.

  The index is a Number in the source, read with \<open>Number(bytesToBig(...))\<close>; \<open>to_number\<close> is that conversion.
  Below \<open>2 ^ 53\<close> it is the identity, above it rounds to an even multiple, which only the sets of height sixty reach.
\<close>

subsection \<open>Numbers\<close>

definition to_number :: "nat \<Rightarrow> nat" where
  "to_number v =
     (if v < 2 ^ 53 then v
      else
        (let e = floor_log2 v - 52; q = v div 2 ^ e; r = v mod 2 ^ e
         in (if 2 ^ (e - 1) < r \<or> r = 2 ^ (e - 1) \<and> odd q then q + 1 else q) * 2 ^ e))"

lemma to_number_id [simp]: "v < 2 ^ 53 \<Longrightarrow> to_number v = v"
  by (simp add: to_number_def)

lemma to_number_exact:
  assumes "2 ^ 53 \<le> v" and "2 ^ (floor_log2 v - 52) dvd v"
  shows "to_number v = v"
  using assms by (simp add: to_number_def Let_def dvd_imp_mod_0)

lemma to_number_power: "to_number (2 ^ k) = 2 ^ k"
proof (cases "k < 53")
  case True
  then have "(2 :: nat) ^ k < 2 ^ 53" by (rule power_strict_increasing) simp
  then show ?thesis by (rule to_number_id)
next
  case False
  then have "(2 :: nat) ^ 53 \<le> 2 ^ k" by (intro power_increasing) simp_all
  moreover have "floor_log2 (2 ^ k) = k" by (rule floor_log2_eq) simp_all
  ultimately show ?thesis by (intro to_number_exact) (simp_all add: le_imp_power_dvd)
qed

subsection \<open>Costs\<close>

datatype xmss_error =
    NotAnXmssPrivateKey
  | XmssPrivateKeyVersion byte
  | UnknownXmssId nat
  | XmssPrivateKeyLength nat
  | XmssKeyTooShort nat
  | XmssKeyLength nat
  | XmssSignatureLength nat
  | XmssIndexOutOfRange nat
  | XmssTooExpensive nat
  | XmssKeyExhausted
  | UnknownXmssName string

definition XMSS_KEY_MAGIC :: bytes where "XMSS_KEY_MAGIC = [0x58, 0x4d, 0x53, 0x4b]"

definition xmssTreeCost :: "xmss_params \<Rightarrow> nat" where
  "xmssTreeCost p =
     (let lens = wotsLen p; leaves = 2 ^ (xp_h p div xp_d p)
      in leaves * wl_len lens * (xp_w p - 1) * 3)"

definition xmssKeyCost :: "xmss_params \<Rightarrow> nat" where
  "xmssKeyCost p = xmssTreeCost p * xp_d p"

definition xmssIdxBytes :: "xmss_params \<Rightarrow> nat" where
  "xmssIdxBytes p = ceil_div (xp_h p) 8"

definition resolveXmss :: "string \<Rightarrow> xmss_error + xmss_params" where
  "resolveXmss nm =
     (case XMSS_BY_NAME nm of
        Some p \<Rightarrow> Inr p
      | None \<Rightarrow> (case XMSSMT_BY_NAME nm of Some p \<Rightarrow> Inr p | None \<Rightarrow> Inl (UnknownXmssName nm)))"

subsection \<open>The private key\<close>

record xmss_key =
  xk_params :: xmss_params
  xk_skSeed :: bytes
  xk_skPrf :: bytes
  xk_pubSeed :: bytes
  xk_root :: bytes
  xk_idx :: nat

definition serializeXmssPrivateKey :: "xmss_key \<Rightarrow> bytes" where
  "serializeXmssPrivateKey key =
     concat [XMSS_KEY_MAGIC, u8str 1, u8str (if xp_multiTree (xk_params key) then 1 else 0),
       u32str (xp_id (xk_params key)), xk_skSeed key, xk_skPrf key, xk_pubSeed key, xk_root key,
       toByte (xk_idx key) 8]"

definition parseXmssPrivateKey :: "bytes \<Rightarrow> xmss_error + xmss_key" where
  "parseXmssPrivateKey b =
     (if length b < 10 \<or> take 4 b \<noteq> XMSS_KEY_MAGIC then Inl NotAnXmssPrivateKey
      else if b ! 4 \<noteq> 1 then Inl (XmssPrivateKeyVersion (b ! 4))
      else
        (let multi = (b ! 5 = 1); i = strTou32 b 6
         in case (if multi then XMSSMT_BY_ID i else XMSS_BY_ID i) of
              None \<Rightarrow> Inl (UnknownXmssId i)
            | Some p \<Rightarrow>
                (let n = xp_n p
                 in if length b \<noteq> 10 + 4 * n + 8 then Inl (XmssPrivateKeyLength (length b))
                    else Inr \<lparr>xk_params = p, xk_skSeed = take n (drop 10 b), xk_skPrf = take n (drop (10 + n) b),
                              xk_pubSeed = take n (drop (10 + 2 * n) b), xk_root = take n (drop (10 + 3 * n) b),
                              xk_idx = to_number (bytesToBig (drop (10 + 4 * n) b))\<rparr>)))"

subsection \<open>The public key\<close>

definition xmssPublicKeyBytes :: "xmss_params \<Rightarrow> bytes \<Rightarrow> bytes \<Rightarrow> bytes" where
  "xmssPublicKeyBytes p root pubSeed = concat [u32str (xp_id p), root, pubSeed]"

record xmss_public =
  xu_params :: xmss_params
  xu_root :: bytes
  xu_pubSeed :: bytes
  xu_bytes :: bytes

definition parseXmssPublicKey :: "bytes \<Rightarrow> bool \<Rightarrow> xmss_error + xmss_public" where
  "parseXmssPublicKey b multiTree =
     (if length b < 4 then Inl (XmssKeyTooShort (length b))
      else
        (let i = strTou32 b 0
         in case (if multiTree then XMSSMT_BY_ID i else XMSS_BY_ID i) of
              None \<Rightarrow> Inl (UnknownXmssId i)
            | Some p \<Rightarrow>
                if length b \<noteq> 4 + 2 * xp_n p then Inl (XmssKeyLength (length b))
                else Inr \<lparr>xu_params = p, xu_root = take (xp_n p) (drop 4 b), xu_pubSeed = drop (4 + xp_n p) b,
                          xu_bytes = b\<rparr>))"

subsection \<open>Signatures\<close>

record xmss_layer =
  xl_ots :: "bytes list"
  xl_auth :: "bytes list"

record xmss_signature =
  xs_idx :: nat
  xs_r :: bytes
  xs_trees :: "xmss_layer list"
  xs_params :: xmss_params
  xs_length :: nat

text \<open>\<open>count\<close> strings of \<open>n\<close> octets each, from an offset on.\<close>

definition n_strings :: "nat \<Rightarrow> bytes \<Rightarrow> nat \<Rightarrow> nat \<Rightarrow> bytes list" where
  "n_strings n b offset count = map (\<lambda>i. take n (drop (offset + i * n) b)) [0..<count]"

fun parse_xmss_trees :: "xmss_params \<Rightarrow> bytes \<Rightarrow> nat \<Rightarrow> nat \<Rightarrow> xmss_layer list" where
  "parse_xmss_trees p b offset 0 = []"
| "parse_xmss_trees p b offset (Suc d) =
     (let len = wl_len (wotsLen p); behind = offset + len * xp_n p
      in \<lparr>xl_ots = n_strings (xp_n p) b offset len, xl_auth = n_strings (xp_n p) b behind (xmss_height p)\<rparr> #
         parse_xmss_trees p b (behind + xmss_height p * xp_n p) d)"

definition idx_length :: "xmss_params \<Rightarrow> nat" where
  "idx_length p = (if xp_multiTree p then xmssIdxBytes p else 4)"

definition parseXmssSignature :: "bytes \<Rightarrow> xmss_params \<Rightarrow> xmss_error + xmss_signature" where
  "parseXmssSignature b p =
     (let n = xp_n p; lens = wotsLen p; perTree = (xmss_height p + wl_len lens) * n;
          idxLen = idx_length p; expected = idxLen + n + xp_d p * perTree
      in if length b \<noteq> expected then Inl (XmssSignatureLength (length b))
         else
           (let idx = to_number (bytesToBig (take idxLen b))
            in if 2 ^ xp_h p \<le> idx then Inl (XmssIndexOutOfRange idx)
               else Inr \<lparr>xs_idx = idx, xs_r = take n (drop idxLen b), xs_trees = parse_xmss_trees p b (idxLen + n) (xp_d p),
                         xs_params = p, xs_length = expected\<rparr>))"

subsection \<open>Generation, signing, verification\<close>

record xmss_generated =
  xg_privateKey :: bytes
  xg_publicKey :: bytes
  xg_key :: xmss_key

definition xmssKeygen :: "noble \<Rightarrow> string \<Rightarrow> bytes \<Rightarrow> bytes \<Rightarrow> bytes \<Rightarrow> xmss_error + xmss_generated" where
  "xmssKeygen N nm skSeed skPrf pubSeed =
     rbind (resolveXmss nm) (\<lambda>p.
     (let cost = xmssKeyCost p
      in if \<not> canKeygen cost then Inl (XmssTooExpensive cost)
         else
           (let tree = xmssTree N p skSeed pubSeed (xp_d p - 1) 0;
                key = \<lparr>xk_params = p, xk_skSeed = skSeed, xk_skPrf = skPrf, xk_pubSeed = pubSeed,
                       xk_root = xmss_root p tree, xk_idx = 0\<rparr>
            in Inr \<lparr>xg_privateKey = serializeXmssPrivateKey key,
                    xg_publicKey = xmssPublicKeyBytes p (xmss_root p tree) pubSeed, xg_key = key\<rparr>)))"

fun xmss_sign_layers ::
    "noble \<Rightarrow> xmss_params \<Rightarrow> bytes \<Rightarrow> bytes \<Rightarrow> nat \<Rightarrow> nat \<Rightarrow> nat \<Rightarrow> nat \<Rightarrow> bytes \<Rightarrow> bytes list" where
  "xmss_sign_layers N p skSeed pubSeed 0 layer idxTree idxLeaf msg = []"
| "xmss_sign_layers N p skSeed pubSeed (Suc d) layer idxTree idxLeaf msg =
     (let tree = xmssTree N p skSeed pubSeed layer idxTree;
          a = (setType 0 (tree_address layer idxTree))\<lparr>ad4 := idxLeaf\<rparr>;
          (sk, a) = wotsPrivateKey N p skSeed pubSeed a;
          a = (setType 0 a)\<lparr>ad4 := idxLeaf\<rparr>;
          (otsSig, a) = wotsSign N p msg sk pubSeed a
      in otsSig @ xmssAuthPath p tree idxLeaf @
         xmss_sign_layers N p skSeed pubSeed d (layer + 1) (drop_bit (xmss_height p) idxTree)
           (idxTree mod 2 ^ xmss_height p) (xmss_root p tree))"

record xmss_signed =
  xm_signature :: bytes
  xm_privateKey :: bytes
  xm_idx :: nat

definition xmssSign :: "noble \<Rightarrow> bytes \<Rightarrow> bytes \<Rightarrow> bool \<Rightarrow> xmss_error + xmss_signed" where
  "xmssSign N privateKeyBytes message reuseIndex =
     rbind (parseXmssPrivateKey privateKeyBytes) (\<lambda>key.
     (let p = xk_params key; idx = xk_idx key
      in if 2 ^ xp_h p \<le> idx then Inl XmssKeyExhausted
         else
           (let r = prf_hash N p (xk_skPrf key) (toByte idx 32);
                mPrime = hashMessage N p r (xk_root key) idx message;
                parts = [toByte idx (idx_length p), r] @
                  xmss_sign_layers N p (xk_skSeed key) (xk_pubSeed key) (xp_d p) 0 (drop_bit (xmss_height p) idx)
                    (idx mod 2 ^ xmss_height p) mPrime;
                key = (if reuseIndex then key else key\<lparr>xk_idx := to_number (idx + 1)\<rparr>)
            in Inr \<lparr>xm_signature = concat parts, xm_privateKey = serializeXmssPrivateKey key, xm_idx = idx\<rparr>)))"

fun xmss_verify_layers ::
    "noble \<Rightarrow> xmss_params \<Rightarrow> bytes \<Rightarrow> xmss_layer list \<Rightarrow> nat \<Rightarrow> nat \<Rightarrow> nat \<Rightarrow> bytes \<Rightarrow> bytes" where
  "xmss_verify_layers N p pubSeed [] layer idxTree idxLeaf node = node"
| "xmss_verify_layers N p pubSeed (t # trees) layer idxTree idxLeaf node =
     xmss_verify_layers N p pubSeed trees (layer + 1) (drop_bit (xmss_height p) idxTree) (idxTree mod 2 ^ xmss_height p)
       (xmssRootFromSig N p idxLeaf (xl_ots t) (xl_auth t) node pubSeed layer idxTree)"

datatype xmss_verdict = XmssValid nat nat | XmssRootMismatch

definition xmssVerify :: "noble \<Rightarrow> bytes \<Rightarrow> bytes \<Rightarrow> bytes \<Rightarrow> bool \<Rightarrow> xmss_error + xmss_verdict" where
  "xmssVerify N publicKeyBytes message signatureBytes multiTree =
     rbind (parseXmssPublicKey publicKeyBytes multiTree) (\<lambda>pub.
     (let p = xu_params pub
      in rbind (parseXmssSignature signatureBytes p) (\<lambda>parsed.
         (let mPrime = hashMessage N p (xs_r parsed) (xu_root pub) (xs_idx parsed) message;
              node = xmss_verify_layers N p (xu_pubSeed pub) (xs_trees parsed) 0
                (drop_bit (xmss_height p) (xs_idx parsed)) (xs_idx parsed mod 2 ^ xmss_height p) mPrime
          in if node \<noteq> xu_root pub then Inr XmssRootMismatch else Inr (XmssValid (xs_idx parsed) (xp_d p))))))"

subsection \<open>What is left of a key, and the failure on demand\<close>

datatype key_remaining =
    XmssRemaining (rm_used: nat) (rm_total: nat) (rm_left: int) (rm_name: string)
  | HssRemaining (rm_used: nat) (rm_total: nat) (rm_left: int) (rm_names: "string list")

definition remaining :: "bytes \<Rightarrow> (xmss_error + hbs_error) + key_remaining" where
  "remaining b =
     (if 4 < length b \<and> b ! 0 = XMSS_KEY_MAGIC ! 0 \<and> b ! 1 = XMSS_KEY_MAGIC ! 1
      then case parseXmssPrivateKey b of
             Inl e \<Rightarrow> Inl (Inl e)
           | Inr xk \<Rightarrow> Inr (XmssRemaining (xk_idx xk) (2 ^ xp_h (xk_params xk))
               (2 ^ xp_h (xk_params xk) - int (xk_idx xk)) (xp_name (xk_params xk)))
      else case parseLmsPrivateKey b of
             Inl e \<Rightarrow> Inl (Inr e)
           | Inr lk \<Rightarrow>
               if hk_levels lk = [] then Inl (Inr NoTopLevel)
               else (let total = foldl (\<lambda>total level. total * 2 ^ lm_h (lv_lms level)) 1 (hk_levels lk);
                    bottom = last (hk_levels lk)
                in Inr (HssRemaining (lv_q bottom) total (2 ^ lm_h (lv_lms bottom) - int (lv_q bottom))
                     (map (\<lambda>l. lm_name (lv_lms l)) (hk_levels lk)))))"

text \<open>The scheme chooses the signer; \<open>rnd\<close> and \<open>rnd'\<close> are the randomizers of the two HSS signatures.\<close>

definition signTwiceFromOneIndex ::
    "noble \<Rightarrow> (nat \<Rightarrow> bytes) \<Rightarrow> (nat \<Rightarrow> bytes) \<Rightarrow> string \<Rightarrow> bytes \<Rightarrow> bytes \<Rightarrow> bytes \<Rightarrow>
      (xmss_error + hbs_error) + bytes \<times> bytes \<times> nat" where
  "signTwiceFromOneIndex N rnd rnd' scheme privateKeyBytes messageA messageB =
     (if scheme = ''xmss''
      then case rbind (xmssSign N privateKeyBytes messageA True) (\<lambda>first.
                rbind (xmssSign N privateKeyBytes messageB True) (\<lambda>second.
                Inr (xm_signature first, xm_signature second, xm_idx first))) of
             Inl e \<Rightarrow> Inl (Inl e) | Inr r \<Rightarrow> Inr r
      else case rbind (hssSign N privateKeyBytes messageA rnd True) (\<lambda>first.
                rbind (hssSign N privateKeyBytes messageB rnd' True) (\<lambda>second.
                Inr (sm_signature first, sm_signature second, sm_q first))) of
             Inl e \<Rightarrow> Inl (Inr e) | Inr r \<Rightarrow> Inr r)"

text \<open>A caller that signs one message after the other, each time with the private key the last call returned.\<close>

fun xmss_sign_all :: "noble \<Rightarrow> bytes \<Rightarrow> bytes list \<Rightarrow> xmss_error + xmss_signed list" where
  "xmss_sign_all N privateKeyBytes [] = Inr []"
| "xmss_sign_all N privateKeyBytes (message # messages) =
     rbind (xmssSign N privateKeyBytes message False) (\<lambda>r.
     rbind (xmss_sign_all N (xm_privateKey r) messages) (\<lambda>rs. Inr (r # rs)))"

subsection \<open>Looking a set up\<close>

abbreviation xmss_tables :: "xmss_params set" where
  "xmss_tables \<equiv> set (XMSS @ XMSSMT)"

lemma xmss_lookup:
  assumes "p \<in> xmss_tables"
  shows "(if xp_multiTree p then XMSSMT_BY_ID (xp_id p) else XMSS_BY_ID (xp_id p)) = Some p"
    and "xp_id p < 2 ^ 32" and "(xp_multiTree p \<Longrightarrow> XMSSMT_BY_ID (xp_id p) = Some p)"
    and "(\<not> xp_multiTree p \<Longrightarrow> XMSS_BY_ID (xp_id p) = Some p)"
proof -
  have d: "distinct (map xp_id XMSS)" "distinct (map xp_id XMSSMT)" by (simp_all add: XMSS_ids)
  have "p \<in> set XMSS \<Longrightarrow> \<not> xp_multiTree p" "p \<in> set XMSSMT \<Longrightarrow> xp_multiTree p"
    using XMSS_trees by (auto simp: list_all_iff)
  with assms show m: "(xp_multiTree p \<Longrightarrow> XMSSMT_BY_ID (xp_id p) = Some p)"
    and s: "(\<not> xp_multiTree p \<Longrightarrow> XMSS_BY_ID (xp_id p) = Some p)"
    unfolding XMSS_BY_ID_def XMSSMT_BY_ID_def
    using find_key [OF d(1)] find_key [OF d(2)] by auto
  from m s show "(if xp_multiTree p then XMSSMT_BY_ID (xp_id p) else XMSS_BY_ID (xp_id p)) = Some p" by simp
  have "xp_id p \<le> 60" using xmss_tables_shape [OF assms] by (simp add: xmss_shape_def)
  then show "xp_id p < 2 ^ 32" by simp
qed

subsection \<open>The private and the public key\<close>

definition xmss_key_ok :: "xmss_key \<Rightarrow> bool" where
  "xmss_key_ok key \<longleftrightarrow>
     xk_params key \<in> xmss_tables \<and> length (xk_skSeed key) = xp_n (xk_params key) \<and>
     length (xk_skPrf key) = xp_n (xk_params key) \<and> length (xk_pubSeed key) = xp_n (xk_params key) \<and>
     length (xk_root key) = xp_n (xk_params key)"

lemma xmss_private_roundtrip:
  assumes ok: "xmss_key_ok key" and idx: "xk_idx key < 2 ^ 64"
  shows "parseXmssPrivateKey (serializeXmssPrivateKey key) = Inr (key\<lparr>xk_idx := to_number (xk_idx key)\<rparr>)"
proof -
  let ?p = "xk_params key" and ?b = "serializeXmssPrivateKey key"
  let ?n = "xp_n ?p"
  have p: "?p \<in> xmss_tables" and lens: "length (xk_skSeed key) = ?n" "length (xk_skPrf key) = ?n"
      "length (xk_pubSeed key) = ?n" "length (xk_root key) = ?n"
    using ok by (simp_all add: xmss_key_ok_def)
  let ?head = "XMSS_KEY_MAGIC @ u8str 1 @ u8str (if xp_multiTree ?p then 1 else 0)"
  have b: "?b = ?head @ u32str (xp_id ?p) @ xk_skSeed key @ xk_skPrf key @ xk_pubSeed key @ xk_root key @ toByte (xk_idx key) 8"
    by (simp add: serializeXmssPrivateKey_def)
  have len: "length ?b = 10 + 4 * ?n + 8" by (simp add: b lens XMSS_KEY_MAGIC_def)
  have magic: "take 4 ?b = XMSS_KEY_MAGIC" "?b ! 4 = 1" "?b ! 5 = (if xp_multiTree ?p then 1 else 0)"
    by (simp_all add: b XMSS_KEY_MAGIC_def u8str_def byte_of_def)
  have i: "strTou32 ?b 6 = xp_id ?p"
  proof -
    have "length ?head = 6" by (simp add: XMSS_KEY_MAGIC_def)
    then show ?thesis
      using strTou32_u32str [OF xmss_lookup(2) [OF p], of ?head
          "xk_skSeed key @ xk_skPrf key @ xk_pubSeed key @ xk_root key @ toByte (xk_idx key) 8"]
      by (simp only: b append_assoc)
  qed
  have body: "drop 10 ?b = xk_skSeed key @ xk_skPrf key @ xk_pubSeed key @ xk_root key @ toByte (xk_idx key) 8"
    by (simp add: b XMSS_KEY_MAGIC_def)
  have slices: "take ?n (drop 10 ?b) = xk_skSeed key" "take ?n (drop (10 + ?n) ?b) = xk_skPrf key"
      "take ?n (drop (10 + 2 * ?n) ?b) = xk_pubSeed key" "take ?n (drop (10 + 3 * ?n) ?b) = xk_root key"
      "drop (10 + 4 * ?n) ?b = toByte (xk_idx key) 8"
    unfolding add.commute [of 10] drop_drop [symmetric] body by (simp_all add: lens)
  have v: "bytesToBig (toByte (xk_idx key) 8) = xk_idx key" using idx by (intro bytesToBig_toByte) simp
  have k: "key\<lparr>xk_idx := x\<rparr> = \<lparr>xk_params = ?p, xk_skSeed = xk_skSeed key, xk_skPrf = xk_skPrf key,
      xk_pubSeed = xk_pubSeed key, xk_root = xk_root key, xk_idx = x\<rparr>" for x
    by (cases key) simp
  show ?thesis
    unfolding parseXmssPrivateKey_def Let_def len magic i k
    using xmss_lookup(3,4) [OF p] by (cases "xp_multiTree ?p") (simp_all add: slices v)
qed

lemma xmss_public_parsed:
  assumes p: "p \<in> xmss_tables" and "length root = xp_n p" and "length seed = xp_n p"
  shows "parseXmssPublicKey (xmssPublicKeyBytes p root seed) (xp_multiTree p) =
    Inr \<lparr>xu_params = p, xu_root = root, xu_pubSeed = seed, xu_bytes = xmssPublicKeyBytes p root seed\<rparr>"
proof -
  let ?b = "xmssPublicKeyBytes p root seed"
  have b: "?b = u32str (xp_id p) @ root @ seed" by (simp add: xmssPublicKeyBytes_def)
  have i: "strTou32 ?b 0 = xp_id p" using strTou32_u32str [OF xmss_lookup(2) [OF p], of "[]"] by (simp add: b)
  have len: "length ?b = 4 + 2 * xp_n p" by (simp add: b assms)
  have "take (xp_n p) (drop 4 ?b) = root" "drop (4 + xp_n p) ?b = seed" by (simp_all add: b assms)
  then show ?thesis
    unfolding parseXmssPublicKey_def Let_def i xmss_lookup(1) [OF p] len by simp
qed

subsection \<open>The layers of a signature\<close>

definition layer_bytes :: "xmss_layer \<Rightarrow> bytes" where
  "layer_bytes t = concat (xl_ots t) @ concat (xl_auth t)"

definition layer_ok :: "xmss_params \<Rightarrow> xmss_layer \<Rightarrow> bool" where
  "layer_ok p t \<longleftrightarrow>
     length (xl_ots t) = wl_len (wotsLen p) \<and> (\<forall>x\<in>set (xl_ots t). length x = xp_n p) \<and>
     length (xl_auth t) = xmss_height p \<and> (\<forall>x\<in>set (xl_auth t). length x = xp_n p)"

lemma n_strings_concat:
  assumes "\<forall>x\<in>set xs. length x = n"
  shows "n_strings n (pre @ concat xs @ suf) (length pre) (length xs) = xs"
proof (rule nth_equalityI)
  fix i assume "i < length (n_strings n (pre @ concat xs @ suf) (length pre) (length xs))"
  then have i: "i < length xs" by (simp add: n_strings_def)
  then have "Suc i * n \<le> length xs * n" by (intro mult_le_mono1) simp
  then have "i * n + n \<le> length (concat xs)" by (simp add: length_concat_uniform [OF assms])
  then have "take n (drop (i * n) (concat xs @ suf)) = take n (drop (i * n) (concat xs))" by simp
  with concat_slice [OF assms i] i show "n_strings n (pre @ concat xs @ suf) (length pre) (length xs) ! i = xs ! i"
    by (simp add: n_strings_def)
qed (simp add: n_strings_def)

lemma layer_bytes_length:
  "layer_ok p t \<Longrightarrow> length (layer_bytes t) = (xmss_height p + wl_len (wotsLen p)) * xp_n p"
  using length_concat_uniform [of "xl_ots t" "xp_n p"] length_concat_uniform [of "xl_auth t" "xp_n p"]
  by (simp add: layer_ok_def layer_bytes_def add_mult_distrib)

lemma layers_parsed:
  assumes "\<forall>t\<in>set ts. layer_ok p t"
  shows "parse_xmss_trees p (pre @ concat (map layer_bytes ts)) (length pre) (length ts) = ts"
  using assms
proof (induction ts arbitrary: pre)
  case (Cons t ts)
  let ?len = "wl_len (wotsLen p)" and ?rest = "concat (map layer_bytes ts)"
  from Cons.prems have t: "length (xl_ots t) = ?len" "\<forall>x\<in>set (xl_ots t). length x = xp_n p"
      "length (xl_auth t) = xmss_height p" "\<forall>x\<in>set (xl_auth t). length x = xp_n p"
    by (simp_all add: layer_ok_def)
  have lo: "length (concat (xl_ots t)) = ?len * xp_n p" "length (concat (xl_auth t)) = xmss_height p * xp_n p"
    using length_concat_uniform [OF t(2)] length_concat_uniform [OF t(4)] by (simp_all add: t)
  have "n_strings (xp_n p) (pre @ concat (xl_ots t) @ concat (xl_auth t) @ ?rest) (length pre) ?len = xl_ots t"
    using n_strings_concat [OF t(2), of pre "concat (xl_auth t) @ ?rest"] by (simp add: t)
  moreover have "n_strings (xp_n p) (pre @ concat (xl_ots t) @ concat (xl_auth t) @ ?rest)
      (length pre + ?len * xp_n p) (xmss_height p) = xl_auth t"
    using n_strings_concat [OF t(4), of "pre @ concat (xl_ots t)" ?rest] by (simp add: t lo)
  moreover have "parse_xmss_trees p (pre @ concat (xl_ots t) @ concat (xl_auth t) @ ?rest)
      (length pre + ?len * xp_n p + xmss_height p * xp_n p) (length ts) = ts"
    using Cons.IH [of "pre @ concat (xl_ots t) @ concat (xl_auth t)"] Cons.prems by (simp add: lo add.assoc)
  moreover have "pre @ concat (map layer_bytes (t # ts)) = pre @ concat (xl_ots t) @ concat (xl_auth t) @ ?rest"
    by (simp add: layer_bytes_def)
  ultimately show ?case by (simp add: Let_def del: list.map)
qed simp

text \<open>What the signer writes, layer by layer.\<close>

fun signed_layers ::
    "noble \<Rightarrow> xmss_params \<Rightarrow> bytes \<Rightarrow> bytes \<Rightarrow> nat \<Rightarrow> nat \<Rightarrow> nat \<Rightarrow> nat \<Rightarrow> bytes \<Rightarrow> xmss_layer list" where
  "signed_layers N p skSeed seed 0 layer t i msg = []"
| "signed_layers N p skSeed seed (Suc d) layer t i msg =
     \<lparr>xl_ots = fst (wotsSign N p msg (leaf_key N p skSeed seed layer t i) seed (leaf_address layer t i)),
      xl_auth = xmssAuthPath p (xmssTree N p skSeed seed layer t) i\<rparr> #
     signed_layers N p skSeed seed d (layer + 1) (drop_bit (xmss_height p) t) (t mod 2 ^ xmss_height p)
       (xmss_root p (xmssTree N p skSeed seed layer t))"

lemma length_signed_layers [simp]: "length (signed_layers N p skSeed seed d layer t i msg) = d"
  by (induction d arbitrary: layer t i msg) simp_all

lemma sign_layers_bytes:
  "concat (xmss_sign_layers N p skSeed seed d layer t i msg) =
    concat (map layer_bytes (signed_layers N p skSeed seed d layer t i msg))"
proof (induction d arbitrary: layer t i msg)
  case (Suc d)
  obtain sk a where k: "wotsPrivateKey N p skSeed seed (leaf_address layer t i) = (sk, a)" by force
  have a: "(setType 0 a)\<lparr>ad4 := i\<rparr> = leaf_address layer t i"
    using private_frame(2) [of N p skSeed seed "leaf_address layer t i"] by (simp add: k leaf_address_frames)
  have sk: "leaf_key N p skSeed seed layer t i = sk" by (simp add: leaf_key_def k)
  obtain sig b where w: "wotsSign N p msg sk seed (leaf_address layer t i) = (sig, b)" by force
  show ?case
    using Suc.IH by (simp add: Let_def k a w sk layer_bytes_def flip: leaf_address_def)
qed simp

lemma signed_layers_ok:
  assumes N: "noble_documented N" and p: "xmss_shape p" and i: "i < 2 ^ xmss_height p"
  shows "\<forall>x\<in>set (signed_layers N p skSeed seed d layer t i msg). layer_ok p x"
  using i
proof (induction d arbitrary: layer t i msg)
  case (Suc d)
  have sk: "length (leaf_key N p skSeed seed layer t i) = wl_len (wotsLen p)"
      "\<forall>x\<in>set (leaf_key N p skSeed seed layer t i). length x = xp_n p"
    unfolding leaf_key_def using wotsPrivateKey_lengths [OF N p] by blast+
  have "layer_ok p \<lparr>xl_ots = fst (wotsSign N p msg (leaf_key N p skSeed seed layer t i) seed (leaf_address layer t i)),
      xl_auth = xmssAuthPath p (xmssTree N p skSeed seed layer t) i\<rparr>"
    using wotsSign_lengths [OF N p sk(2)] xmss_siblings_lengths [OF N p Suc.prems]
    by (simp add: layer_ok_def sk(1)) (simp add: xmssAuthPath_def)
  with Suc.IH [of "t mod 2 ^ xmss_height p"] show ?case by simp
qed simp

lemma signed_layers_verify:
  assumes N: "noble_documented N" and p: "xmss_shape p" and i: "i < 2 ^ xmss_height p" and t: "t < 2 ^ (xmss_height p * d)"
  shows "xmss_verify_layers N p seed (signed_layers N p skSeed seed (Suc d) layer t i msg) layer t i msg =
    xmss_root p (xmssTree N p skSeed seed (layer + d) 0)"
  using i t
proof (induction d arbitrary: layer t i msg)
  case 0
  with xmss_sign_gives_root [OF N p 0(1) leaf_address_frames(1)] show ?case by simp
next
  case (Suc d)
  have "drop_bit (xmss_height p) t < 2 ^ (xmss_height p * d)"
    using Suc.prems(2) by (simp add: drop_bit_eq_div div_less_iff_less_mult power_add mult.commute)
  from Suc.IH [OF _ this, of "t mod 2 ^ xmss_height p" "layer + 1"]
    xmss_sign_gives_root [OF N p Suc.prems(1) leaf_address_frames(1)]
  show ?case by simp
qed


subsection \<open>One signature\<close>

lemma idx_room:
  fixes idx :: nat
  assumes p: "xmss_shape p" and idx: "idx < 2 ^ xp_h p"
  shows "idx < 256 ^ idx_length p"
proof -
  have "xp_h p \<le> 8 * idx_length p"
  proof (cases "xp_multiTree p")
    case True
    then show ?thesis by (simp add: idx_length_def xmssIdxBytes_def ceil_div_def)
  next
    case False
    with p have "xp_h p \<le> 20" by (auto simp: xmss_shape_def)
    with False show ?thesis by (simp add: idx_length_def)
  qed
  then have "(2 :: nat) ^ xp_h p \<le> 2 ^ (8 * idx_length p)" by (intro power_increasing) simp_all
  with idx show ?thesis by (simp add: power_mult)
qed

text \<open>The signature of one index, in pieces.\<close>

definition signature_of :: "noble \<Rightarrow> xmss_key \<Rightarrow> bytes \<Rightarrow> bytes \<times> xmss_layer list" where
  "signature_of N key message =
     (let p = xk_params key; idx = xk_idx key; r = prf_hash N p (xk_skPrf key) (toByte idx 32)
      in (r, signed_layers N p (xk_skSeed key) (xk_pubSeed key) (xp_d p) 0 (drop_bit (xmss_height p) idx)
               (idx mod 2 ^ xmss_height p) (hashMessage N p r (xk_root key) idx message)))"

definition top_root :: "noble \<Rightarrow> xmss_key \<Rightarrow> bytes" where
  "top_root N key =
     xmss_root (xk_params key)
       (xmssTree N (xk_params key) (xk_skSeed key) (xk_pubSeed key) (xp_d (xk_params key) - 1) 0)"

lemma signature_parsed:
  assumes N: "noble_documented N" and p: "xmss_shape p" and r: "length r = xp_n p"
    and ts: "\<forall>t\<in>set ts. layer_ok p t" "length ts = xp_d p" and idx: "idx < 2 ^ xp_h p" "idx < 2 ^ 53"
  shows "\<exists>len. parseXmssSignature (toByte idx (idx_length p) @ r @ concat (map layer_bytes ts)) p =
    Inr \<lparr>xs_idx = idx, xs_r = r, xs_trees = ts, xs_params = p, xs_length = len\<rparr>"
proof -
  let ?sig = "toByte idx (idx_length p) @ r @ concat (map layer_bytes ts)"
  have "\<forall>x\<in>set (map layer_bytes ts). length x = (xmss_height p + wl_len (wotsLen p)) * xp_n p"
    using ts(1) layer_bytes_length by auto
  from length_concat_uniform [OF this]
  have "length ?sig = idx_length p + xp_n p + xp_d p * ((xmss_height p + wl_len (wotsLen p)) * xp_n p)"
    by (simp add: r ts(2))
  moreover have "to_number (bytesToBig (take (idx_length p) ?sig)) = idx"
    using bytesToBig_toByte [OF idx_room [OF p idx(1)]] idx(2) by simp
  moreover have "parse_xmss_trees p ?sig (idx_length p + xp_n p) (xp_d p) = ts"
    using layers_parsed [OF ts(1), of "toByte idx (idx_length p) @ r"] by (simp add: r ts(2))
  moreover have "take (xp_n p) (drop (idx_length p) ?sig) = r" by (simp add: r)
  ultimately show ?thesis using idx(1) unfolding parseXmssSignature_def Let_def by simp
qed

lemma xmss_sign_step:
  assumes N: "noble_documented N" and ok: "xmss_key_ok key" and idx: "xk_idx key < 2 ^ xp_h (xk_params key)" "xk_idx key < 2 ^ 53"
  shows "xmssSign N (serializeXmssPrivateKey key) message False =
    Inr \<lparr>xm_signature = (case signature_of N key message of (r, ts) \<Rightarrow>
           toByte (xk_idx key) (idx_length (xk_params key)) @ r @ concat (map layer_bytes ts)),
         xm_privateKey = serializeXmssPrivateKey (key\<lparr>xk_idx := xk_idx key + 1\<rparr>), xm_idx = xk_idx key\<rparr>"
proof -
  have "xk_idx key < 2 ^ 64" using idx(2) by (rule less_trans) simp
  from xmss_private_roundtrip [OF ok this] idx(2)
  have parsed: "parseXmssPrivateKey (serializeXmssPrivateKey key) = Inr key" by simp
  have "to_number (xk_idx key + 1) = xk_idx key + 1"
  proof (cases "xk_idx key + 1 = 2 ^ 53")
    case True
    then show ?thesis using to_number_power [of 53] by (simp only:)
  next
    case False
    with idx(2) show ?thesis by (intro to_number_id) linarith
  qed
  with idx(1) show ?thesis
    by (simp add: xmssSign_def parsed Let_def signature_of_def sign_layers_bytes not_le)
qed

lemma xmss_verify_step:
  assumes N: "noble_documented N" and ok: "xmss_key_ok key" and root: "xk_root key = top_root N key"
    and idx: "xk_idx key < 2 ^ xp_h (xk_params key)" "xk_idx key < 2 ^ 53"
    and sig: "signature_of N key message = (r, ts)"
  shows "xmssVerify N (xmssPublicKeyBytes (xk_params key) (xk_root key) (xk_pubSeed key)) message
      (toByte (xk_idx key) (idx_length (xk_params key)) @ r @ concat (map layer_bytes ts)) (xp_multiTree (xk_params key)) =
    Inr (XmssValid (xk_idx key) (xp_d (xk_params key)))"
proof -
  let ?p = "xk_params key" and ?i = "xk_idx key"
  have tab: "?p \<in> xmss_tables" and lens: "length (xk_root key) = xp_n ?p" "length (xk_pubSeed key) = xp_n ?p"
    using ok by (simp_all add: xmss_key_ok_def)
  have p: "xmss_shape ?p" by (rule xmss_tables_shape [OF tab])
  have r: "r = prf_hash N ?p (xk_skPrf key) (toByte ?i 32)" and rlen: "length r = xp_n ?p"
    using sig xmss_shapeD(2) [OF p] N by (auto simp: signature_of_def Let_def prf_hash_def coreHash_def length_HASHES)
  have leaf: "?i mod 2 ^ xmss_height ?p < 2 ^ xmss_height ?p" by simp
  obtain d where d: "xp_d ?p = Suc d" using xmss_shapeD(4) [OF p] gr0_implies_Suc by blast
  have "?i < 2 ^ (xmss_height ?p * Suc d)" using idx(1) xmss_shapeD(5) [OF p] by (simp add: d mult.commute)
  then have t: "drop_bit (xmss_height ?p) ?i < 2 ^ (xmss_height ?p * d)"
    by (simp add: drop_bit_eq_div div_less_iff_less_mult power_add mult.commute)
  let ?m = "hashMessage N ?p r (xk_root key) ?i message"
  have ts: "ts = signed_layers N ?p (xk_skSeed key) (xk_pubSeed key) (Suc d) 0 (drop_bit (xmss_height ?p) ?i)
      (?i mod 2 ^ xmss_height ?p) ?m"
    using sig by (simp add: signature_of_def Let_def d r)
  have oks: "\<forall>t\<in>set ts. layer_ok ?p t" unfolding ts by (rule signed_layers_ok [OF N p leaf])
  have dl: "length ts = xp_d ?p" by (simp add: ts d)
  obtain len where parsed: "parseXmssSignature (toByte ?i (idx_length ?p) @ r @ concat (map layer_bytes ts)) ?p =
      Inr \<lparr>xs_idx = ?i, xs_r = r, xs_trees = ts, xs_params = ?p, xs_length = len\<rparr>"
    using signature_parsed [OF N p rlen oks dl idx] by blast
  have "xmss_verify_layers N ?p (xk_pubSeed key) ts 0 (drop_bit (xmss_height ?p) ?i) (?i mod 2 ^ xmss_height ?p) ?m =
      xk_root key"
    unfolding ts signed_layers_verify [OF N p leaf t] by (simp add: root top_root_def d)
  then show ?thesis
    by (simp add: xmssVerify_def xmss_public_parsed [OF tab lens] parsed Let_def)
qed

subsection \<open>A key in use\<close>

lemma xmss_sign_all_verifies:
  assumes N: "noble_documented N" and ok: "xmss_key_ok key" and root: "xk_root key = top_root N key"
    and room: "xk_idx key + length messages \<le> 2 ^ xp_h (xk_params key)" "xk_idx key + length messages \<le> 2 ^ 53"
  shows "\<exists>rs. xmss_sign_all N (serializeXmssPrivateKey key) messages = Inr rs \<and>
    map xm_idx rs = [xk_idx key..<xk_idx key + length messages] \<and>
    (\<forall>i<length messages. xmssVerify N (xmssPublicKeyBytes (xk_params key) (xk_root key) (xk_pubSeed key)) (messages ! i)
       (xm_signature (rs ! i)) (xp_multiTree (xk_params key)) =
       Inr (XmssValid (xk_idx key + i) (xp_d (xk_params key))))"
  using ok root room
proof (induction messages arbitrary: key)
  case (Cons message messages)
  let ?key = "key\<lparr>xk_idx := xk_idx key + 1\<rparr>"
  have idx: "xk_idx key < 2 ^ xp_h (xk_params key)" "xk_idx key < 2 ^ 53" using Cons.prems(3,4) by simp_all
  have key': "xmss_key_ok ?key" "xk_root ?key = top_root N ?key"
    using Cons.prems(1,2) by (simp_all add: xmss_key_ok_def top_root_def)
  obtain r ts where sig: "signature_of N key message = (r, ts)" by force
  obtain rs where rs: "xmss_sign_all N (serializeXmssPrivateKey ?key) messages = Inr rs"
      "map xm_idx rs = [xk_idx key + 1..<xk_idx key + 1 + length messages]"
      "\<forall>i<length messages. xmssVerify N (xmssPublicKeyBytes (xk_params key) (xk_root key) (xk_pubSeed key)) (messages ! i)
       (xm_signature (rs ! i)) (xp_multiTree (xk_params key)) = Inr (XmssValid (xk_idx key + 1 + i) (xp_d (xk_params key)))"
    using Cons.IH [OF key'] Cons.prems(3,4) by auto
  note first = xmss_sign_step [OF N Cons.prems(1) idx, of message] xmss_verify_step [OF N Cons.prems(1,2) idx sig]
  show ?case
  proof (intro exI conjI allI impI)
    let ?r = "\<lparr>xm_signature = toByte (xk_idx key) (idx_length (xk_params key)) @ r @ concat (map layer_bytes ts),
         xm_privateKey = serializeXmssPrivateKey ?key, xm_idx = xk_idx key\<rparr>"
    show "xmss_sign_all N (serializeXmssPrivateKey key) (message # messages) = Inr (?r # rs)"
      using first(1) rs(1) by (simp add: sig)
    show "map xm_idx (?r # rs) = [xk_idx key..<xk_idx key + length (message # messages)]"
      using rs(2) by (simp del: upt_Suc add: upt_conv_Cons)
    show "xmssVerify N (xmssPublicKeyBytes (xk_params key) (xk_root key) (xk_pubSeed key)) ((message # messages) ! i)
       (xm_signature ((?r # rs) ! i)) (xp_multiTree (xk_params key)) = Inr (XmssValid (xk_idx key + i) (xp_d (xk_params key)))"
      if "i < length (message # messages)" for i
      using that rs(3) first(2) by (cases i) simp_all
  qed
qed simp


lemma xmss_sign_exhausted:
  assumes "xmss_key_ok key" and "xk_idx key = 2 ^ xp_h (xk_params key)" and "xp_h (xk_params key) < 53"
  shows "xmssSign N (serializeXmssPrivateKey key) message reuse = Inl XmssKeyExhausted"
proof -
  have "(2 :: nat) ^ xp_h (xk_params key) < 2 ^ 53" using assms(3) by (rule power_strict_increasing) simp
  then have "xk_idx key < 2 ^ 53" using assms(2) by simp
  moreover from this have "xk_idx key < 2 ^ 64" by (rule less_trans) simp
  ultimately have "parseXmssPrivateKey (serializeXmssPrivateKey key) = Inr key"
    using xmss_private_roundtrip [OF assms(1)] by simp
  then show ?thesis by (simp add: xmssSign_def Let_def assms(2))
qed

lemma xmss_sign_all_exhausted:
  assumes N: "noble_documented N" and ok: "xmss_key_ok key" and h: "xp_h (xk_params key) < 53"
    and idx: "xk_idx key \<le> 2 ^ xp_h (xk_params key)" and more: "2 ^ xp_h (xk_params key) < xk_idx key + length messages"
  shows "xmss_sign_all N (serializeXmssPrivateKey key) messages = Inl XmssKeyExhausted"
  using ok h idx more
proof (induction messages arbitrary: key)
  case (Cons message messages)
  show ?case
  proof (cases "xk_idx key = 2 ^ xp_h (xk_params key)")
    case True
    with xmss_sign_exhausted [OF Cons.prems(1) True Cons.prems(2)] show ?thesis by simp
  next
    case False
    with Cons.prems(3) have idx: "xk_idx key < 2 ^ xp_h (xk_params key)" by simp
    moreover have "(2 :: nat) ^ xp_h (xk_params key) < 2 ^ 53"
      using Cons.prems(2) by (rule power_strict_increasing) simp
    ultimately have "xk_idx key < 2 ^ 53" by (rule less_trans)
    note step = xmss_sign_step [OF N Cons.prems(1) idx this, of message]
    have "xmss_sign_all N (serializeXmssPrivateKey (key\<lparr>xk_idx := xk_idx key + 1\<rparr>)) messages = Inl XmssKeyExhausted"
      by (rule Cons.IH) (use Cons.prems idx in \<open>simp_all add: xmss_key_ok_def\<close>)
    with step show ?thesis by simp
  qed
qed simp

lemma xmss_generated:
  assumes N: "noble_documented N" and g: "xmssKeygen N nm skSeed skPrf pubSeed = Inr g"
    and p: "resolveXmss nm = Inr p"
    and lens: "length skSeed = xp_n p" "length skPrf = xp_n p" "length pubSeed = xp_n p"
  shows "xg_privateKey g = serializeXmssPrivateKey (xg_key g)"
    and "xg_publicKey g = xmssPublicKeyBytes p (xk_root (xg_key g)) (xk_pubSeed (xg_key g))"
    and "xmss_key_ok (xg_key g)" and "xk_root (xg_key g) = top_root N (xg_key g)"
    and "xk_params (xg_key g) = p" and "xk_idx (xg_key g) = 0"
proof -
  have tab: "p \<in> xmss_tables"
    using p by (auto simp: resolveXmss_def XMSS_BY_NAME_def XMSSMT_BY_NAME_def find_Some_iff split: option.splits)
  have shape: "xmss_shape p" by (rule xmss_tables_shape [OF tab])
  let ?root = "xmss_root p (xmssTree N p skSeed pubSeed (xp_d p - 1) 0)"
  have "length ?root = xp_n p"
    using length_xmss_node [OF N shape, of "xmss_height p" 0 skSeed pubSeed "xp_d p - 1" 0]
    by (simp add: xmss_root_def xmss_node_def)
  moreover have "g = \<lparr>xg_privateKey = serializeXmssPrivateKey
        \<lparr>xk_params = p, xk_skSeed = skSeed, xk_skPrf = skPrf, xk_pubSeed = pubSeed, xk_root = ?root, xk_idx = 0\<rparr>,
      xg_publicKey = xmssPublicKeyBytes p ?root pubSeed,
      xg_key = \<lparr>xk_params = p, xk_skSeed = skSeed, xk_skPrf = skPrf, xk_pubSeed = pubSeed, xk_root = ?root, xk_idx = 0\<rparr>\<rparr>"
    using g by (auto simp: xmssKeygen_def p Let_def split: if_splits)
  ultimately show "xg_privateKey g = serializeXmssPrivateKey (xg_key g)"
    and "xg_publicKey g = xmssPublicKeyBytes p (xk_root (xg_key g)) (xk_pubSeed (xg_key g))"
    and "xmss_key_ok (xg_key g)" and "xk_root (xg_key g) = top_root N (xg_key g)"
    and "xk_params (xg_key g) = p" and "xk_idx (xg_key g) = 0"
    using tab lens by (simp_all add: xmss_key_ok_def top_root_def)
qed

subsection \<open>Properties\<close>

text \<open>C18: whatever the parameter set the generator accepts, signing one message after the other with the private key
  the last call returned uses the indexes zero, one, two and so on, each once, and every signature verifies under
  the generated public key with its index; up to the number of leaves, or to two to the fifty-three.\<close>

theorem xmss_signatures_verify:
  assumes "noble_documented N" and "xmssKeygen N nm skSeed skPrf pubSeed = Inr g" and "resolveXmss nm = Inr p"
    and "length skSeed = xp_n p" and "length skPrf = xp_n p" and "length pubSeed = xp_n p"
    and "length messages \<le> 2 ^ min (xp_h p) 53"
  shows "\<exists>rs. xmss_sign_all N (xg_privateKey g) messages = Inr rs \<and> map xm_idx rs = [0..<length messages] \<and>
    (\<forall>i<length messages. xmssVerify N (xg_publicKey g) (messages ! i) (xm_signature (rs ! i)) (xp_multiTree p) =
       Inr (XmssValid i (xp_d p)))"
proof -
  note g = xmss_generated [OF assms(1-6)]
  have "(2 :: nat) ^ min (xp_h p) 53 \<le> 2 ^ xp_h p" "(2 :: nat) ^ min (xp_h p) 53 \<le> 2 ^ 53"
    by (intro power_increasing; simp)+
  with assms(7) have "length messages \<le> 2 ^ xp_h p" "length messages \<le> 2 ^ 53" by (blast intro: le_trans)+
  with xmss_sign_all_verifies [OF assms(1) g(3,4), of messages] show ?thesis
    by (simp add: g(1,2,5,6))
qed

definition sample_xmss :: xmss_params where
  "sample_xmss = xmssSet 1 ''XMSS-SHA2_10_256'' 32 10 1"

lemma sample_xmss_facts:
  "resolveXmss ''XMSS-SHA2_10_256'' = Inr sample_xmss" "xp_n sample_xmss = 32" "xp_h sample_xmss = 10"
  "xp_d sample_xmss = 1" "\<not> xp_multiTree sample_xmss"
  "\<exists>g. xmssKeygen N ''XMSS-SHA2_10_256'' a b c = Inr g"
proof -
  show r: "resolveXmss ''XMSS-SHA2_10_256'' = Inr sample_xmss"
    by (simp add: resolveXmss_def XMSS_BY_NAME_def XMSS_def sample_xmss_def xmssSet_def)
  have tab: "sample_xmss \<in> xmss_tables" by (simp add: XMSS_def sample_xmss_def)
  show s: "xp_n sample_xmss = 32" "xp_h sample_xmss = 10" "xp_d sample_xmss = 1" "\<not> xp_multiTree sample_xmss"
    by (simp_all add: sample_xmss_def xmssSet_def)
  have "xp_w sample_xmss = 16" by (simp add: sample_xmss_def xmssSet_def)
  then show "\<exists>g. xmssKeygen N ''XMSS-SHA2_10_256'' a b c = Inr g"
    using wotsLen_shape [OF xmss_tables_shape [OF tab]] s
    by (simp add: xmssKeygen_def r xmssKeyCost_def xmssTreeCost_def canKeygen_def MAX_KEYGEN_HASHES_def Let_def)
qed

lemma xmss_signatures_verify_witness:
  "\<exists>g rs. xmssKeygen sample_noble ''XMSS-SHA2_10_256'' (replicate 32 1) (replicate 32 2) (replicate 32 3) = Inr g \<and>
     xmss_sign_all sample_noble (xg_privateKey g) [[1, 2], [3]] = Inr rs \<and> map xm_idx rs = [0, 1] \<and>
     xmssVerify sample_noble (xg_publicKey g) [3] (xm_signature (rs ! 1)) False = Inr (XmssValid 1 1)"
proof -
  obtain g where g: "xmssKeygen sample_noble ''XMSS-SHA2_10_256'' (replicate 32 1) (replicate 32 2) (replicate 32 3) = Inr g"
    using sample_xmss_facts(6) by blast
  have "\<exists>rs. xmss_sign_all sample_noble (xg_privateKey g) [[1, 2], [3]] = Inr rs \<and>
    map xm_idx rs = [0..<length [[1, 2], [3 :: byte]]] \<and>
    (\<forall>i<length [[1, 2], [3 :: byte]]. xmssVerify sample_noble (xg_publicKey g) ([[1, 2], [3]] ! i) (xm_signature (rs ! i))
       (xp_multiTree sample_xmss) = Inr (XmssValid i (xp_d sample_xmss)))"
    by (rule xmss_signatures_verify [OF sample_noble_documented g sample_xmss_facts(1)])
      (simp_all add: sample_xmss_facts)
  with g show ?thesis by (fastforce simp: sample_xmss_facts)
qed

text \<open>A key whose tree is lower than fifty-three (every set but those of height sixty) stops at its last leaf: a run
  that asks for one signature more than there are leaves ends with the exhaustion error.\<close>

theorem xmss_key_exhausts:
  assumes "noble_documented N" and "xmssKeygen N nm skSeed skPrf pubSeed = Inr g" and "resolveXmss nm = Inr p"
    and "length skSeed = xp_n p" and "length skPrf = xp_n p" and "length pubSeed = xp_n p"
    and "xp_h p < 53" and "2 ^ xp_h p < length messages"
  shows "xmss_sign_all N (xg_privateKey g) messages = Inl XmssKeyExhausted"
proof -
  note g = xmss_generated [OF assms(1-6)]
  show ?thesis
    unfolding g(1) by (rule xmss_sign_all_exhausted [OF assms(1) g(3)]) (simp_all add: g(5,6) assms(7,8))
qed

lemma xmss_key_exhausts_witness:
  "\<exists>g. xmssKeygen sample_noble ''XMSS-SHA2_10_256'' (replicate 32 1) (replicate 32 2) (replicate 32 3) = Inr g \<and>
     xmss_sign_all sample_noble (xg_privateKey g) (replicate 1025 []) = Inl XmssKeyExhausted"
proof -
  obtain g where g: "xmssKeygen sample_noble ''XMSS-SHA2_10_256'' (replicate 32 1) (replicate 32 2) (replicate 32 3) = Inr g"
    using sample_xmss_facts(6) by blast
  have "xmss_sign_all sample_noble (xg_privateKey g) (replicate 1025 []) = Inl XmssKeyExhausted"
    by (rule xmss_key_exhausts [OF sample_noble_documented g sample_xmss_facts(1)])
      (simp_all add: sample_xmss_facts)
  with g show ?thesis by blast
qed

text \<open>At index \<open>2 ^ 53\<close> the next index is not a Number.  A key of height sixty that has reached it is handed back
  unchanged by the signer, so every further message is signed with the same one-time key.\<close>

theorem xmss_index_stuck:
  assumes "noble_documented N" and "xmss_key_ok key" and "xp_h (xk_params key) = 60" and "xk_idx key = 2 ^ 53"
  shows "\<exists>sig. xmssSign N (serializeXmssPrivateKey key) message False =
    Inr \<lparr>xm_signature = sig, xm_privateKey = serializeXmssPrivateKey key, xm_idx = 2 ^ 53\<rparr>"
proof -
  have "to_number (xk_idx key) = xk_idx key" unfolding assms(4) by (rule to_number_power)
  moreover have "xk_idx key < 2 ^ 64" by (simp add: assms(4))
  ultimately have parsed: "parseXmssPrivateKey (serializeXmssPrivateKey key) = Inr key"
    using xmss_private_roundtrip [OF assms(2)] by simp
  have "floor_log2 (2 ^ 53 + 1) = 53" by (rule floor_log2_eq) simp_all
  then have stuck: "to_number (xk_idx key + 1) = xk_idx key"
    by (simp add: to_number_def Let_def assms(4))
  have same: "key\<lparr>xk_idx := xk_idx key\<rparr> = key" by (cases key) simp
  have room: "\<not> 2 ^ xp_h (xk_params key) \<le> xk_idx key" by (simp add: assms(3,4))
  show ?thesis
    unfolding xmssSign_def parsed assms(4) [symmetric] by (simp add: room Let_def stuck [simplified] same)
qed


lemma xmss_index_stuck_witness:
  "\<exists>sig. xmssSign sample_noble (serializeXmssPrivateKey
       \<lparr>xk_params = XMSSMT ! 5, xk_skSeed = replicate 32 1, xk_skPrf = replicate 32 2, xk_pubSeed = replicate 32 3,
        xk_root = replicate 32 4, xk_idx = 2 ^ 53\<rparr>) [1, 2] False =
    Inr \<lparr>xm_signature = sig, xm_privateKey = serializeXmssPrivateKey
       \<lparr>xk_params = XMSSMT ! 5, xk_skSeed = replicate 32 1, xk_skPrf = replicate 32 2, xk_pubSeed = replicate 32 3,
        xk_root = replicate 32 4, xk_idx = 2 ^ 53\<rparr>, xm_idx = 2 ^ 53\<rparr>"
proof -
  have s: "xp_h (XMSSMT ! 5) = 60" "xp_n (XMSSMT ! 5) = 32"
    by (simp_all add: XMSSMT_def XMSSMT_families_def XMSSMT_SHAPES_def product_nth xmssSet_def)
  have "length XMSSMT = 56" using arg_cong [OF XMSS_ids(2), of length] by simp
  then have "XMSSMT ! 5 \<in> xmss_tables" by simp
  then show ?thesis
    by (intro xmss_index_stuck [OF sample_noble_documented]) (simp_all add: xmss_key_ok_def s)
qed

end
