(* ===== verification/Bounded_Logs.thy ===== *)
theory Bounded_Logs
  imports Prelude
begin

text \<open>
  The interface of the logs that keep the latest entries only.  A provider has an operation that adds an entry and a
  view of what it holds, newest first; it promises that an addition puts the entry in front and forgets what
  lies behind the capacity.  The client gets what the log holds after any run of additions.
\<close>

locale bounded_log =
  fixes push :: "'x \<Rightarrow> 's \<Rightarrow> 's"
    and newest :: "'s \<Rightarrow> 'x list"
    and cap :: nat
  assumes newest_push: "length (newest s) \<le> cap \<Longrightarrow> newest (push x s) = take cap (x # newest s)"
begin

lemma length_push: "length (newest s) \<le> cap \<Longrightarrow> length (newest (push x s)) \<le> cap"
  by (simp add: newest_push)

lemma newest_pushes:
  assumes "length (newest s) \<le> cap"
  shows "newest (fold push xs s) = take cap (rev xs @ newest s)"
  using assms
proof (induction xs arbitrary: s)
  case (Cons x xs)
  have "newest (fold push xs (push x s)) = take cap (rev xs @ newest (push x s))"
    using Cons.prems by (intro Cons.IH length_push)
  also have "\<dots> = take cap (rev xs @ take cap (x # newest s))"
    using Cons.prems by (simp add: newest_push)
  also have "\<dots> = take cap (rev xs @ x # newest s)"
    by (simp add: min_def)
  finally show ?case by simp
qed simp

lemma full_forgets: "cap \<le> length xs \<Longrightarrow> length (newest s) \<le> cap \<Longrightarrow> newest (fold push xs s) = take cap (rev xs)"
  by (simp add: newest_pushes)

end

end
