(* ===== verification/Ssf_Receiver.thy ===== *)
theory Ssf_Receiver
  imports Bounded_Logs Js_Strings "HOL-Library.AList"
begin

text \<open>
  The RFC 8935 push endpoint the service hosts for a page (\<open>api/ssf_receiver.js\<close>), the routes of \<open>api/server.js\<close>
  that call it, and the polling of the page (\<open>drainReceiver\<close> of \<open>client/src/ssf.js\<close>).

  The module's \<open>Map\<close> of inboxes is an association list in insertion order.  The clock is read once per call and the
  random identifier is an argument; \<open>decode\<close> is what the platform does to one part of a compact JWS
  (base64url, UTF-8, JSON), \<open>None\<close> when that throws.  The settings are integers of the configuration file.
  The events of an inbox are an interpretation of \<open>bounded_log\<close>.
\<close>

subsection \<open>Settings\<close>

datatype setting_value = SettingNumber int | SettingBoolean bool | SettingOther

type_synonym appconfig = "string \<Rightarrow> setting_value option"

definition setting :: "appconfig \<Rightarrow> string \<Rightarrow> nat \<Rightarrow> nat" where
  "setting cfg nm fallback =
     (case cfg nm of
        Some (SettingNumber v) \<Rightarrow> if v \<le> 0 then fallback else nat v
      | _ \<Rightarrow> fallback)"

definition enabled :: "appconfig \<Rightarrow> bool" where
  "enabled cfg \<longleftrightarrow> cfg ''ssfReceiverEnabled'' \<noteq> Some (SettingBoolean False)"

definition ttlMs :: "appconfig \<Rightarrow> nat" where
  "ttlMs cfg = setting cfg ''ssfReceiverTtlMs'' (60 * 60 * 1000)"

definition maxInboxes :: "appconfig \<Rightarrow> nat" where
  "maxInboxes cfg = setting cfg ''ssfReceiverMaxInboxes'' 20"

definition maxEvents :: "appconfig \<Rightarrow> nat" where
  "maxEvents cfg = setting cfg ''ssfReceiverMaxEvents'' 200"

definition maxEventBytes :: "appconfig \<Rightarrow> nat" where
  "maxEventBytes cfg = setting cfg ''ssfReceiverMaxEventBytes'' (64 * 1024)"

subsection \<open>Inboxes\<close>

datatype jws_problem = NoProblem | NotThreeParts nat | Undecodable

record 'j jws_reading =
  jr_header :: "'j option"
  jr_claims :: "'j option"
  jr_problem :: jws_problem

record 'j set_event =
  ev_at :: nat
  ev_token :: string
  ev_bytes :: nat
  ev_contentType :: string
  ev_correctMediaType :: bool
  ev_authorization :: bool
  ev_reading :: "'j jws_reading"

record 'j inbox =
  ib_id :: string
  ib_label :: string
  ib_createdAt :: nat
  ib_lastPushAt :: nat
  ib_pushes :: nat
  ib_dropped :: nat
  ib_events :: "'j set_event list"

type_synonym 'j receiver = "(string \<times> 'j inbox) list"

record inbox_summary =
  is_id :: string
  is_label :: string
  is_createdAt :: nat
  is_lastPushAt :: nat
  is_pushes :: nat
  is_dropped :: nat
  is_waiting :: nat

definition describe :: "'j inbox \<Rightarrow> inbox_summary" where
  "describe b =
     \<lparr>is_id = ib_id b, is_label = ib_label b, is_createdAt = ib_createdAt b, is_lastPushAt = ib_lastPushAt b,
      is_pushes = ib_pushes b, is_dropped = ib_dropped b, is_waiting = length (ib_events b)\<rparr>"

definition expired :: "appconfig \<Rightarrow> nat \<Rightarrow> 'j inbox \<Rightarrow> bool" where
  "expired cfg now b \<longleftrightarrow> ttlMs cfg < now - ib_createdAt b"

definition sweep :: "appconfig \<Rightarrow> nat \<Rightarrow> 'j receiver \<Rightarrow> nat \<times> 'j receiver" where
  "sweep cfg now s =
     (length (filter (\<lambda>(k, b). expired cfg now b) s), filter (\<lambda>(k, b). \<not> expired cfg now b) s)"

datatype create_refusal = HostingDisabled | AtInboxLimit nat nat

definition create ::
    "appconfig \<Rightarrow> nat \<Rightarrow> string \<Rightarrow> string \<Rightarrow> 'j receiver \<Rightarrow> (create_refusal + inbox_summary) \<times> 'j receiver" where
  "create cfg now new_id label s =
     (if \<not> enabled cfg then (Inl HostingDisabled, s)
      else
        (let s = snd (sweep cfg now s)
         in if maxInboxes cfg \<le> length s then (Inl (AtInboxLimit (length s) (maxInboxes cfg)), s)
            else
              (let b = \<lparr>ib_id = new_id, ib_label = take 200 label, ib_createdAt = now, ib_lastPushAt = 0,
                        ib_pushes = 0, ib_dropped = 0, ib_events = []\<rparr>
               in (Inr (describe b), AList.update new_id b s))))"

definition get_inbox :: "appconfig \<Rightarrow> nat \<Rightarrow> string \<Rightarrow> 'j receiver \<Rightarrow> 'j inbox option \<times> 'j receiver" where
  "get_inbox cfg now i s = (let s = snd (sweep cfg now s) in (map_of s i, s))"

definition remove_inbox :: "appconfig \<Rightarrow> nat \<Rightarrow> string \<Rightarrow> 'j receiver \<Rightarrow> bool \<times> 'j receiver" where
  "remove_inbox cfg now i s =
     (let s = snd (sweep cfg now s) in (map_of s i \<noteq> None, AList.delete i s))"

subsection \<open>A push\<close>

definition readCompactJws :: "(string \<Rightarrow> 'j option) \<Rightarrow> string \<Rightarrow> 'j jws_reading" where
  "readCompactJws decode token =
     (let parts = split_on (CHR ''.'') token
      in if length parts \<noteq> 3
         then \<lparr>jr_header = None, jr_claims = None, jr_problem = NotThreeParts (length parts)\<rparr>
         else case decode (parts ! 0) of
           None \<Rightarrow> \<lparr>jr_header = None, jr_claims = None, jr_problem = Undecodable\<rparr>
         | Some h \<Rightarrow>
             (case decode (parts ! 1) of
                None \<Rightarrow> \<lparr>jr_header = Some h, jr_claims = None, jr_problem = Undecodable\<rparr>
              | Some c \<Rightarrow> \<lparr>jr_header = Some h, jr_claims = Some c, jr_problem = NoProblem\<rparr>))"

record push_request =
  rq_body :: "string option"
  rq_contentType :: string
  rq_authorization :: string

datatype push_trouble = NotHosted | NoSuchReceiver | EmptyBody | TooLarge nat nat

text \<open>The RFC 8935 answer: a status and, when it is a refusal, the reason.\<close>

type_synonym push_answer = "nat \<times> push_trouble option"

definition SET_MEDIA_TYPE :: string where "SET_MEDIA_TYPE = ''application/secevent+jwt''"

definition utf8_length :: "string \<Rightarrow> nat" where
  "utf8_length s = sum_list (map (\<lambda>c. if ccode c < 128 then 1 else 2) s)"

text \<open>Appending to the events of an inbox, the oldest going when they are full.\<close>

definition push_event :: "nat \<Rightarrow> 'j set_event \<Rightarrow> 'j inbox \<Rightarrow> 'j inbox" where
  "push_event cap e b =
     (let b = (if cap \<le> length (ib_events b)
               then b\<lparr>ib_events := tl (ib_events b), ib_dropped := ib_dropped b + 1\<rparr> else b)
      in b\<lparr>ib_events := ib_events b @ [e]\<rparr>)"

definition event_of :: "(string \<Rightarrow> 'j option) \<Rightarrow> nat \<Rightarrow> push_request \<Rightarrow> string \<Rightarrow> 'j set_event" where
  "event_of decode now r tx =
     (let contentType = map to_lower (trim (hd (split_on (CHR '';'') (rq_contentType r))))
      in \<lparr>ev_at = now, ev_token = tx, ev_bytes = utf8_length tx, ev_contentType = contentType,
          ev_correctMediaType = (contentType = SET_MEDIA_TYPE), ev_authorization = (rq_authorization r \<noteq> []),
          ev_reading = readCompactJws decode tx\<rparr>)"

definition deliver ::
    "(string \<Rightarrow> 'j option) \<Rightarrow> appconfig \<Rightarrow> nat \<Rightarrow> string \<Rightarrow> push_request \<Rightarrow> 'j receiver \<Rightarrow> push_answer \<times> 'j receiver" where
  "deliver decode cfg now i r s =
     (if \<not> enabled cfg then ((404, Some NotHosted), s)
      else
        (let (found, s) = get_inbox cfg now i s
         in case found of
              None \<Rightarrow> ((404, Some NoSuchReceiver), s)
            | Some b \<Rightarrow>
                (let tx = trim (case rq_body r of None \<Rightarrow> [] | Some x \<Rightarrow> x);
                     size = utf8_length tx; limit = maxEventBytes cfg
                 in if tx = [] then ((400, Some EmptyBody), s)
                    else if limit < size then ((400, Some (TooLarge size limit)), s)
                    else
                      (let b = push_event (maxEvents cfg) (event_of decode now r tx) b
                       in ((202, None), AList.update i (b\<lparr>ib_pushes := ib_pushes b + 1, ib_lastPushAt := now\<rparr>) s)))))"

subsection \<open>Reading and emptying\<close>

record 'j drained =
  dr_inbox :: inbox_summary
  dr_from :: nat
  dr_events :: "'j set_event list"
  dr_total :: nat

text \<open>The cursor is what \<open>Number(after)\<close> gives, \<open>None\<close> when that is not finite.\<close>

definition drain ::
    "appconfig \<Rightarrow> nat \<Rightarrow> string \<Rightarrow> int option \<Rightarrow> 'j receiver \<Rightarrow> 'j drained option \<times> 'j receiver" where
  "drain cfg now i after_number s =
     (let (found, s) = get_inbox cfg now i s
      in case found of
           None \<Rightarrow> (None, s)
         | Some b \<Rightarrow>
             (let start = (case after_number of None \<Rightarrow> 0 | Some v \<Rightarrow> if v < 0 then 0 else nat v);
                  start = (if length (ib_events b) < start then length (ib_events b) else start)
              in (Some \<lparr>dr_inbox = describe b, dr_from = start, dr_events = drop start (ib_events b),
                        dr_total = length (ib_events b)\<rparr>, s)))"

definition clear_inbox :: "appconfig \<Rightarrow> nat \<Rightarrow> string \<Rightarrow> 'j receiver \<Rightarrow> (nat \<times> inbox_summary) option \<times> 'j receiver" where
  "clear_inbox cfg now i s =
     (let (found, s) = get_inbox cfg now i s
      in case found of
           None \<Rightarrow> (None, s)
         | Some b \<Rightarrow>
             (let gone = length (ib_events b); b = b\<lparr>ib_events := []\<rparr>
              in (Some (gone, describe b), AList.update i b s)))"

record receiver_limits =
  rl_enabled :: bool
  rl_ttlMs :: nat
  rl_maxInboxes :: nat
  rl_maxEvents :: nat
  rl_maxEventBytes :: nat
  rl_held :: nat

definition limits :: "appconfig \<Rightarrow> 'j receiver \<Rightarrow> receiver_limits" where
  "limits cfg s =
     \<lparr>rl_enabled = enabled cfg, rl_ttlMs = ttlMs cfg, rl_maxInboxes = maxInboxes cfg, rl_maxEvents = maxEvents cfg,
      rl_maxEventBytes = maxEventBytes cfg, rl_held = length s\<rparr>"

definition reset_receiver :: "'j receiver \<Rightarrow> nat \<times> 'j receiver" where
  "reset_receiver s = (length s, [])"

subsection \<open>The service\<close>

datatype receiver_call =
    Create (call_time: nat) string string
  | Deliver (call_time: nat) string push_request
  | Drain (call_time: nat) string "int option"
  | Clear (call_time: nat) string
  | Remove (call_time: nat) string
  | Reset (call_time: nat)

fun receiver_step :: "(string \<Rightarrow> 'j option) \<Rightarrow> appconfig \<Rightarrow> receiver_call \<Rightarrow> 'j receiver \<Rightarrow> 'j receiver" where
  "receiver_step decode cfg (Create now i label) s = snd (create cfg now i label s)"
| "receiver_step decode cfg (Deliver now i r) s = snd (deliver decode cfg now i r s)"
| "receiver_step decode cfg (Drain now i a) s = snd (drain cfg now i a s)"
| "receiver_step decode cfg (Clear now i) s = snd (clear_inbox cfg now i s)"
| "receiver_step decode cfg (Remove now i) s = snd (remove_inbox cfg now i s)"
| "receiver_step decode cfg (Reset now) s = snd (reset_receiver s)"

inductive receiver_reachable :: "(string \<Rightarrow> 'j option) \<Rightarrow> appconfig \<Rightarrow> 'j receiver \<Rightarrow> bool" for decode cfg where
  start: "receiver_reachable decode cfg []"
| call: "receiver_reachable decode cfg s \<Longrightarrow> receiver_reachable decode cfg (receiver_step decode cfg c s)"

text \<open>What an inbox holds at any time.\<close>

definition inbox_ok :: "appconfig \<Rightarrow> string \<Rightarrow> 'j inbox \<Rightarrow> bool" where
  "inbox_ok cfg k b \<longleftrightarrow>
     ib_id b = k \<and> length (ib_label b) \<le> 200 \<and> length (ib_events b) \<le> maxEvents cfg \<and>
     ib_dropped b + length (ib_events b) \<le> ib_pushes b \<and>
     (\<forall>e\<in>set (ib_events b). ev_token e \<noteq> [] \<and> ev_bytes e = utf8_length (ev_token e) \<and> ev_bytes e \<le> maxEventBytes cfg)"

definition receiver_ok :: "appconfig \<Rightarrow> 'j receiver \<Rightarrow> bool" where
  "receiver_ok cfg s \<longleftrightarrow>
     distinct (map fst s) \<and> length s \<le> maxInboxes cfg \<and> (\<forall>(k, b)\<in>set s. inbox_ok cfg k b)"

lemma setting_positive: "0 < fallback \<Longrightarrow> 0 < setting cfg nm fallback"
  by (auto simp: setting_def split: option.splits setting_value.splits)

lemma maxEvents_positive [simp]: "0 < maxEvents cfg"
  by (simp add: maxEvents_def setting_positive)

lemma length_update_mem: "map_of s k \<noteq> None \<Longrightarrow> length (AList.update k v s) = length s"
  by (induction s) auto

lemma length_update: "length (AList.update k v s) \<le> Suc (length s)"
  by (induction s) auto

lemma update_entry: "x \<in> set (AList.update k v s) \<Longrightarrow> x = (k, v) \<or> x \<in> set s"
  by (induction s) (auto split: if_splits)

lemma receiver_ok_filter: "receiver_ok cfg s \<Longrightarrow> receiver_ok cfg (filter P s)"
  by (auto simp: receiver_ok_def distinct_map_filter intro: le_trans [OF length_filter_le])

lemma receiver_ok_sweep [intro]: "receiver_ok cfg s \<Longrightarrow> receiver_ok cfg (snd (sweep cfg now s))"
  by (simp add: sweep_def receiver_ok_filter)

lemma receiver_ok_update:
  assumes "receiver_ok cfg s" and "inbox_ok cfg k b" and "length (AList.update k b s) \<le> maxInboxes cfg"
  shows "receiver_ok cfg (AList.update k b s)"
  using assms update_entry [of _ k b s] unfolding receiver_ok_def
  by (auto simp: distinct_update dest!: update_entry)

lemma receiver_ok_delete: "receiver_ok cfg s \<Longrightarrow> receiver_ok cfg (AList.delete k s)"
  by (simp add: AList.delete_eq receiver_ok_filter)

lemma get_inbox_ok:
  assumes "receiver_ok cfg s" and "get_inbox cfg now i s = (Some b, s')"
  shows "receiver_ok cfg s'" and "inbox_ok cfg i b" and "map_of s' i = Some b" and "\<not> expired cfg now b"
proof -
  have s': "s' = snd (sweep cfg now s)" and m: "map_of s' i = Some b"
    using assms(2) by (auto simp: get_inbox_def Let_def)
  then show "receiver_ok cfg s'" and "map_of s' i = Some b" using assms(1) by blast+
  from m have "(i, b) \<in> set s'" by (rule map_of_SomeD)
  then show "inbox_ok cfg i b" and "\<not> expired cfg now b"
    using \<open>receiver_ok cfg s'\<close> by (auto simp: receiver_ok_def s' sweep_def)
qed

lemma get_inbox_state: "snd (get_inbox cfg now i s) = snd (sweep cfg now s)"
  by (simp add: get_inbox_def Let_def)

text \<open>The events, newest first, are a log that keeps the last \<open>cap\<close> of them.\<close>

interpretation inbox_log: bounded_log "push_event (Suc cap)" "\<lambda>b. rev (ib_events b)" "Suc cap" for cap
proof
  fix b :: "'j inbox" and e
  assume "length (rev (ib_events b)) \<le> Suc cap"
  then have "rev (tl (ib_events b)) = take cap (rev (ib_events b))" if "Suc cap \<le> length (ib_events b)"
    using that by (cases "ib_events b") auto
  then show "rev (ib_events (push_event (Suc cap) e b)) = take (Suc cap) (e # rev (ib_events b))"
    by (simp add: push_event_def Let_def)
qed

lemma push_event_frame [simp]:
  "ib_id (push_event cap e b) = ib_id b" "ib_label (push_event cap e b) = ib_label b"
  "ib_createdAt (push_event cap e b) = ib_createdAt b" "ib_pushes (push_event cap e b) = ib_pushes b"
  by (simp_all add: push_event_def Let_def)

lemma push_event_counts:
  assumes "0 < cap"
  shows "ib_dropped (push_event cap e b) + length (ib_events (push_event cap e b)) =
    Suc (ib_dropped b + length (ib_events b))"
    and "set (ib_events (push_event cap e b)) \<subseteq> insert e (set (ib_events b))"
  using assms by (auto simp: push_event_def Let_def dest: list.set_sel(2) [rotated])

lemma deliver_ok:
  assumes "receiver_ok cfg s"
  shows "receiver_ok cfg (snd (deliver decode cfg now i r s))"
proof -
  obtain found s' where g: "get_inbox cfg now i s = (found, s')" by force
  have s': "receiver_ok cfg s'" using receiver_ok_sweep [OF assms, of now] get_inbox_state [of cfg now i s] by (simp add: g)
  show ?thesis
  proof (cases found)
    case None
    with s' assms show ?thesis by (simp add: deliver_def g)
  next
    case (Some b)
    define tx where "tx = trim (case rq_body r of None \<Rightarrow> [] | Some x \<Rightarrow> x)"
    let ?e = "event_of decode now r tx"
    let ?b = "push_event (maxEvents cfg) ?e b"
    note ok = get_inbox_ok [OF assms, of now i b s'] g Some
    obtain cap where cap: "maxEvents cfg = Suc cap" using maxEvents_positive gr0_implies_Suc by blast
    have "length (ib_events ?b) \<le> maxEvents cfg"
      using inbox_log.length_push [of b cap ?e] ok by (simp add: cap inbox_ok_def)
    moreover have "ib_dropped ?b + length (ib_events ?b) \<le> ib_pushes b + 1"
      using push_event_counts(1) [OF maxEvents_positive, of cfg ?e b] ok by (simp add: inbox_ok_def)
    moreover have "\<forall>e\<in>set (ib_events ?b). ev_token e \<noteq> [] \<and> ev_bytes e = utf8_length (ev_token e) \<and> ev_bytes e \<le> maxEventBytes cfg"
      if "tx \<noteq> []" "utf8_length tx \<le> maxEventBytes cfg"
      using push_event_counts(2) [OF maxEvents_positive, of cfg ?e b] ok that
      by (auto simp: inbox_ok_def event_of_def Let_def)
    ultimately have "inbox_ok cfg i (?b\<lparr>ib_pushes := ib_pushes ?b + 1, ib_lastPushAt := now\<rparr>)"
      if "tx \<noteq> []" "utf8_length tx \<le> maxEventBytes cfg"
      using ok that by (auto simp: inbox_ok_def)
    then have "receiver_ok cfg (AList.update i (?b\<lparr>ib_pushes := ib_pushes ?b + 1, ib_lastPushAt := now\<rparr>) s')"
      if "tx \<noteq> []" "utf8_length tx \<le> maxEventBytes cfg"
      using ok that by (intro receiver_ok_update) (auto simp: length_update_mem receiver_ok_def)
    with assms s' show ?thesis
      unfolding deliver_def g Some Let_def prod.case option.case tx_def [symmetric]
      by (simp add: not_less)
  qed
qed

lemma create_ok:
  assumes "receiver_ok cfg s"
  shows "receiver_ok cfg (snd (create cfg now i label s))"
proof -
  let ?s = "snd (sweep cfg now s)"
  let ?b = "\<lparr>ib_id = i, ib_label = take 200 label, ib_createdAt = now, ib_lastPushAt = 0,
      ib_pushes = 0, ib_dropped = 0, ib_events = []\<rparr>"
  have s: "receiver_ok cfg ?s" using assms by blast
  have "receiver_ok cfg (AList.update i ?b ?s)" if "length ?s < maxInboxes cfg"
    by (rule receiver_ok_update [OF s]) (use that length_update [of i ?b ?s] in \<open>auto simp: inbox_ok_def\<close>)
  with s assms show ?thesis by (simp add: create_def Let_def not_le)
qed

lemma clear_ok:
  assumes "receiver_ok cfg s"
  shows "receiver_ok cfg (snd (clear_inbox cfg now i s))"
proof -
  obtain found s' where g: "get_inbox cfg now i s = (found, s')" by force
  have s': "receiver_ok cfg s'" using receiver_ok_sweep [OF assms, of now] get_inbox_state [of cfg now i s] by (simp add: g)
  show ?thesis
  proof (cases found)
    case (Some b)
    note ok = get_inbox_ok [OF assms, of now i b s'] g Some
    then have "inbox_ok cfg i (b\<lparr>ib_events := []\<rparr>)" by (simp add: inbox_ok_def)
    then have "receiver_ok cfg (AList.update i (b\<lparr>ib_events := []\<rparr>) s')"
      using ok by (intro receiver_ok_update) (auto simp: length_update_mem receiver_ok_def)
    then show ?thesis by (simp add: clear_inbox_def g Some Let_def)
  qed (use s' in \<open>simp add: clear_inbox_def g\<close>)
qed

lemma drain_ok: "receiver_ok cfg s \<Longrightarrow> receiver_ok cfg (snd (drain cfg now i a s))"
  using get_inbox_state [of cfg now i s]
  by (auto simp: drain_def Let_def split: prod.splits option.splits)

lemma receiver_step_ok: "receiver_ok cfg s \<Longrightarrow> receiver_ok cfg (receiver_step decode cfg c s)"
proof (cases c)
  case Remove
  assume "receiver_ok cfg s"
  with Remove show ?thesis by (auto simp: remove_inbox_def Let_def intro: receiver_ok_delete)
next
  case Reset
  then show ?thesis by (simp add: reset_receiver_def receiver_ok_def)
qed (simp_all add: create_ok deliver_ok drain_ok clear_ok)

subsection \<open>The page\<close>

text \<open>What \<open>drainReceiver\<close> keeps: the count it sends as cursor and the tokens it has recorded.  The cursor moves before
  the tokens of the answer are taken in one by one, and \<open>takeReceivedToken\<close> may throw: it judges the token before it
  records it, and the parameter \<open>throws\<close> says of which tokens that fails.  A throw leaves the loop, and the rest of the
  answer is not taken.\<close>

record receiver_page =
  pg_inboxSeen :: nat
  pg_taken :: "string list"

fun take_in :: "(string \<Rightarrow> bool) \<Rightarrow> string list \<Rightarrow> string list" where
  "take_in throws [] = []"
| "take_in throws (t # ts) = (if throws t then [] else t # take_in throws ts)"

definition drainReceiver :: "(string \<Rightarrow> bool) \<Rightarrow> 'j drained option \<Rightarrow> receiver_page \<Rightarrow> receiver_page" where
  "drainReceiver throws answer page =
     (case answer of
        None \<Rightarrow> page
      | Some a \<Rightarrow>
          \<lparr>pg_inboxSeen = dr_total a, pg_taken = pg_taken page @ take_in throws (map ev_token (dr_events a))\<rparr>)"

text \<open>A transmitter pushing to one inbox and the page polling it.  A poll is three steps, between which anything else
  may happen: the page sends its cursor, the api answers, and the page takes the answer in, or never gets it.
  Nothing keeps the page from sending again before an answer came.\<close>

datatype inbox_traffic =
    Pushed nat push_request
  | Sent
  | Served nat nat
  | Arrived nat
  | Lost nat

record 'j inbox_exchange =
  ex_receiver :: "'j receiver"
  ex_page :: receiver_page
  ex_requests :: "nat list"
  ex_answers :: "'j drained option list"

definition without :: "nat \<Rightarrow> 'a list \<Rightarrow> 'a list" where
  "without k xs = take k xs @ drop (Suc k) xs"

fun traffic_step ::
    "(string \<Rightarrow> bool) \<Rightarrow> (string \<Rightarrow> 'j option) \<Rightarrow> appconfig \<Rightarrow> string \<Rightarrow> inbox_traffic \<Rightarrow> 'j inbox_exchange \<Rightarrow> 'j inbox_exchange" where
  "traffic_step throws decode cfg i (Pushed now r) x =
     x\<lparr>ex_receiver := snd (deliver decode cfg now i r (ex_receiver x))\<rparr>"
| "traffic_step throws decode cfg i Sent x = x\<lparr>ex_requests := ex_requests x @ [pg_inboxSeen (ex_page x)]\<rparr>"
| "traffic_step throws decode cfg i (Served now k) x =
     (if k < length (ex_requests x) then
        (let (answer, s) = drain cfg now i (Some (int (ex_requests x ! k))) (ex_receiver x)
         in x\<lparr>ex_receiver := s, ex_requests := without k (ex_requests x), ex_answers := ex_answers x @ [answer]\<rparr>)
      else x)"
| "traffic_step throws decode cfg i (Arrived k) x =
     (if k < length (ex_answers x) then
        x\<lparr>ex_page := drainReceiver throws (ex_answers x ! k) (ex_page x), ex_answers := without k (ex_answers x)\<rparr>
      else x)"
| "traffic_step throws decode cfg i (Lost k) x = x\<lparr>ex_answers := without k (ex_answers x)\<rparr>"

text \<open>The traffic of a page that waits for the answer of a poll before it polls again.\<close>

datatype poll_phase = Idle | Asking | Answered

fun polls_in_turn :: "poll_phase \<Rightarrow> inbox_traffic list \<Rightarrow> bool" where
  "polls_in_turn ph [] = (ph = Idle)"
| "polls_in_turn ph (Pushed now r # es) = polls_in_turn ph es"
| "polls_in_turn ph (Sent # es) = (ph = Idle \<and> polls_in_turn Asking es)"
| "polls_in_turn ph (Served now k # es) = (ph = Asking \<and> k = 0 \<and> polls_in_turn Answered es)"
| "polls_in_turn ph (Arrived k # es) = (ph = Answered \<and> k = 0 \<and> polls_in_turn Idle es)"
| "polls_in_turn ph (Lost k # es) = (ph = Answered \<and> k = 0 \<and> polls_in_turn Idle es)"

fun in_time :: "nat \<Rightarrow> inbox_traffic \<Rightarrow> bool" where
  "in_time limit (Pushed now r) = (now \<le> limit)"
| "in_time limit (Served now k) = (now \<le> limit)"
| "in_time limit e = True"

definition accepted :: "appconfig \<Rightarrow> push_request \<Rightarrow> bool" where
  "accepted cfg r \<longleftrightarrow>
     (let t = trim (case rq_body r of None \<Rightarrow> [] | Some x \<Rightarrow> x) in t \<noteq> [] \<and> utf8_length t \<le> maxEventBytes cfg)"

definition token_of :: "push_request \<Rightarrow> string" where
  "token_of r = trim (case rq_body r of None \<Rightarrow> [] | Some x \<Rightarrow> x)"

fun accepted_tokens :: "appconfig \<Rightarrow> inbox_traffic list \<Rightarrow> string list" where
  "accepted_tokens cfg [] = []"
| "accepted_tokens cfg (Pushed now r # es) =
     (if accepted cfg r then token_of r # accepted_tokens cfg es else accepted_tokens cfg es)"
| "accepted_tokens cfg (e # es) = accepted_tokens cfg es"

lemma sweep_keeps: "map_of s i = Some b \<Longrightarrow> distinct (map fst s) \<Longrightarrow> \<not> expired cfg now b \<Longrightarrow>
    map_of (snd (sweep cfg now s)) i = Some b"
  by (induction s) (auto simp: sweep_def split: if_splits dest: map_of_SomeD)

lemma sweep_distinct: "distinct (map fst s) \<Longrightarrow> distinct (map fst (snd (sweep cfg now s)))"
  by (simp add: sweep_def distinct_map_filter)

lemma take_in_all: "\<forall>t\<in>set ts. \<not> throws t \<Longrightarrow> take_in throws ts = ts"
  by (induction ts) auto

lemma without_0 [simp]: "without 0 (x # xs) = xs"
  by (simp add: without_def)

lemma drain_answer:
  assumes "map_of s i = Some b" and "distinct (map fst s)" and "\<not> expired cfg now b" and "seen \<le> length (ib_events b)"
  shows "\<exists>a. drain cfg now i (Some (int seen)) s = (Some a, snd (sweep cfg now s)) \<and>
    dr_total a = length (ib_events b) \<and> dr_events a = drop seen (ib_events b)"
  using sweep_keeps [OF assms(1-3)] assms(4) by (simp add: drain_def get_inbox_def Let_def)

lemma push_effect:
  assumes "map_of s i = Some b" and "distinct (map fst s)" and "\<not> expired cfg now b" and "enabled cfg"
  shows "if accepted cfg r
    then \<exists>b'. map_of (snd (deliver decode cfg now i r s)) i = Some b' \<and> ib_createdAt b' = ib_createdAt b \<and>
           ib_events b' = ib_events (push_event (maxEvents cfg) (event_of decode now r (token_of r)) b)
    else map_of (snd (deliver decode cfg now i r s)) i = Some b"
    and "distinct (map fst (snd (deliver decode cfg now i r s)))"
  using sweep_keeps [OF assms(1-3)] sweep_distinct [OF assms(2)] assms(4)
  by (auto simp: deliver_def get_inbox_def Let_def accepted_def not_less update_Some_unfold token_of_def
      distinct_update simp flip: token_of_def)

lemma token_event_of [simp]: "ev_token (event_of decode now r t) = t"
  by (simp add: event_of_def Let_def)

text \<open>What holds between the steps: the page has the tokens its cursor counts, and what is in flight is the cursor, or
  an answer that continues where the page stands.\<close>

definition in_flight_ok :: "poll_phase \<Rightarrow> nat \<Rightarrow> string list \<Rightarrow> 'j inbox_exchange \<Rightarrow> bool" where
  "in_flight_ok ph seen toks x \<longleftrightarrow>
     (case ph of
        Idle \<Rightarrow> ex_requests x = [] \<and> ex_answers x = []
      | Asking \<Rightarrow> ex_requests x = [seen] \<and> ex_answers x = []
      | Answered \<Rightarrow> ex_requests x = [] \<and>
          (\<exists>a. ex_answers x = [Some a] \<and> seen \<le> dr_total a \<and> dr_total a \<le> length toks \<and>
             map ev_token (dr_events a) = drop seen (take (dr_total a) toks)))"

definition page_follows :: "appconfig \<Rightarrow> string \<Rightarrow> nat \<Rightarrow> poll_phase \<Rightarrow> string list \<Rightarrow> 'j inbox_exchange \<Rightarrow> bool" where
  "page_follows cfg i born ph toks x \<longleftrightarrow>
     (\<exists>b. map_of (ex_receiver x) i = Some b \<and> ib_createdAt b = born \<and> map ev_token (ib_events b) = toks) \<and>
     distinct (map fst (ex_receiver x)) \<and> pg_inboxSeen (ex_page x) \<le> length toks \<and>
     pg_taken (ex_page x) = take (pg_inboxSeen (ex_page x)) toks \<and>
     in_flight_ok ph (pg_inboxSeen (ex_page x)) toks x"

lemma in_flight_ok_grows:
  assumes "in_flight_ok ph seen toks x" and "seen \<le> length toks"
  shows "in_flight_ok ph seen (toks @ [t]) (x\<lparr>ex_receiver := s\<rparr>)"
  using assms by (cases ph) (auto simp: in_flight_ok_def)

lemma page_follows_push:
  assumes "page_follows cfg i born ph toks x" and "enabled cfg" and "now \<le> born + ttlMs cfg"
    and "accepted cfg r \<longrightarrow> length toks < maxEvents cfg"
  shows "page_follows cfg i born ph (toks @ accepted_tokens cfg [Pushed now r]) (traffic_step throws decode cfg i (Pushed now r) x)"
proof -
  obtain b where b: "map_of (ex_receiver x) i = Some b" "ib_createdAt b = born" "map ev_token (ib_events b) = toks"
      "distinct (map fst (ex_receiver x))"
    using assms(1) by (auto simp: page_follows_def)
  then have "\<not> expired cfg now b" using assms(3) by (simp add: expired_def)
  note push = push_effect [OF b(1,4) this assms(2), where decode = decode and r = r]
  show ?thesis
  proof (cases "accepted cfg r")
    case False
    with push b assms(1) show ?thesis by (cases ph) (auto simp: page_follows_def in_flight_ok_def)
  next
    case True
    with push(1) obtain b' where b': "map_of (snd (deliver decode cfg now i r (ex_receiver x))) i = Some b'"
        "ib_createdAt b' = born"
        "ib_events b' = ib_events (push_event (maxEvents cfg) (event_of decode now r (token_of r)) b)"
      using b(2) by auto
    have "length (ib_events b) < maxEvents cfg" using assms(4) True b(3) by (metis length_map)
    then have "map ev_token (ib_events b') = toks @ [token_of r]" using b(3) by (simp add: b'(3) push_event_def Let_def)
    with True b' push(2) assms(1) show ?thesis
      by (auto simp: page_follows_def intro: in_flight_ok_grows)
  qed
qed

lemma page_follows_serve:
  assumes "page_follows cfg i born Asking toks x" and "now \<le> born + ttlMs cfg"
  shows "page_follows cfg i born Answered toks (traffic_step throws decode cfg i (Served now 0) x)"
proof -
  obtain b where b: "map_of (ex_receiver x) i = Some b" "ib_createdAt b = born" "map ev_token (ib_events b) = toks"
      "distinct (map fst (ex_receiver x))"
    using assms(1) by (auto simp: page_follows_def)
  have fresh: "\<not> expired cfg now b" using assms(2) b(2) by (simp add: expired_def)
  have "pg_inboxSeen (ex_page x) \<le> length (ib_events b)" using assms(1) b(3) by (auto simp: page_follows_def)
  then obtain a where a: "drain cfg now i (Some (int (pg_inboxSeen (ex_page x)))) (ex_receiver x) =
        (Some a, snd (sweep cfg now (ex_receiver x)))"
      "dr_total a = length (ib_events b)" "dr_events a = drop (pg_inboxSeen (ex_page x)) (ib_events b)"
    using drain_answer [OF b(1,4) fresh] by blast
  have "dr_total a = length toks" "map ev_token (dr_events a) = drop (pg_inboxSeen (ex_page x)) toks"
    using a(2,3) b(3) by (auto simp flip: drop_map)
  with a(1) b assms(1) sweep_keeps [OF b(1,4) fresh] sweep_distinct [OF b(4), of cfg now] show ?thesis
    by (auto simp: page_follows_def in_flight_ok_def)
qed

lemma take_drop_take: "k \<le> n \<Longrightarrow> take k xs @ drop k (take n xs) = take n xs"
  by (metis append_take_drop_id min.absorb1 take_take)

lemma page_follows_arrive:
  assumes "page_follows cfg i born Answered toks x" and "\<forall>t\<in>set toks. \<not> throws t"
  shows "page_follows cfg i born Idle toks (traffic_step throws decode cfg i (Arrived 0) x)"
proof -
  obtain a where a: "ex_answers x = [Some a]" "pg_inboxSeen (ex_page x) \<le> dr_total a" "dr_total a \<le> length toks"
      "map ev_token (dr_events a) = drop (pg_inboxSeen (ex_page x)) (take (dr_total a) toks)"
    using assms(1) by (auto simp: page_follows_def in_flight_ok_def)
  have "take_in throws (map ev_token (dr_events a)) = map ev_token (dr_events a)"
    unfolding a(4) by (rule take_in_all) (use assms(2) in \<open>auto dest!: in_set_dropD in_set_takeD\<close>)
  with a assms(1) take_drop_take [OF a(2), of toks] show ?thesis
    by (auto simp: page_follows_def in_flight_ok_def drainReceiver_def)
qed

lemma page_follows_ask:
  "page_follows cfg i born Idle toks x \<Longrightarrow> page_follows cfg i born Asking toks (traffic_step throws decode cfg i Sent x)"
  by (auto simp: page_follows_def in_flight_ok_def)

lemma page_follows_lose:
  "page_follows cfg i born Answered toks x \<Longrightarrow> page_follows cfg i born Idle toks (traffic_step throws decode cfg i (Lost 0) x)"
  by (auto simp: page_follows_def in_flight_ok_def)

lemma page_follows_run:
  assumes "enabled cfg" and "page_follows cfg i born ph toks x" and "polls_in_turn ph es"
    and "\<forall>e\<in>set es. in_time (born + ttlMs cfg) e" and "\<forall>t\<in>set (toks @ accepted_tokens cfg es). \<not> throws t"
    and "length toks + length (accepted_tokens cfg es) \<le> maxEvents cfg"
  shows "page_follows cfg i born Idle (toks @ accepted_tokens cfg es) (fold (traffic_step throws decode cfg i) es x)"
  using assms(2-)
proof (induction es arbitrary: ph toks x)
  case (Cons e es)
  show ?case
  proof (cases e)
    case (Pushed now r)
    with Cons.prems page_follows_push [OF Cons.prems(1) assms(1), of now r throws decode]
      Cons.IH [of ph "toks @ accepted_tokens cfg [Pushed now r]" "traffic_step throws decode cfg i (Pushed now r) x"]
    show ?thesis by (auto split: if_splits)
  next
    case Sent
    with Cons.prems page_follows_ask [of cfg i born toks x throws decode]
      Cons.IH [of Asking toks "traffic_step throws decode cfg i Sent x"] show ?thesis by auto
  next
    case (Served now k)
    with Cons.prems page_follows_serve [of cfg i born toks x now throws decode]
      Cons.IH [of Answered toks "traffic_step throws decode cfg i (Served now 0) x"] show ?thesis by auto
  next
    case (Arrived k)
    with Cons.prems page_follows_arrive [of cfg i born toks x throws decode]
      Cons.IH [of Idle toks "traffic_step throws decode cfg i (Arrived 0) x"] show ?thesis by auto
  next
    case (Lost k)
    with Cons.prems page_follows_lose [of cfg i born toks x throws decode]
      Cons.IH [of Idle toks "traffic_step throws decode cfg i (Lost 0) x"] show ?thesis by auto
  qed
qed simp

lemma sweep_some: "map_of (snd (sweep cfg now s)) i = Some b \<Longrightarrow> distinct (map fst s) \<Longrightarrow> map_of s i = Some b"
  by (auto simp: sweep_def dest!: map_of_SomeD intro: map_of_is_SomeI)

definition inbox_full :: "appconfig \<Rightarrow> string \<Rightarrow> 'j receiver \<Rightarrow> bool" where
  "inbox_full cfg i s \<longleftrightarrow>
     distinct (map fst s) \<and> (\<forall>b. map_of s i = Some b \<longrightarrow> length (ib_events b) = maxEvents cfg)"

lemma inbox_full_sweep: "inbox_full cfg i s \<Longrightarrow> inbox_full cfg i (snd (sweep cfg now s))"
  unfolding inbox_full_def using sweep_some [of cfg now s i] sweep_distinct by blast

lemma inbox_full_update:
  "inbox_full cfg i s \<Longrightarrow> length (ib_events b) = maxEvents cfg \<Longrightarrow> inbox_full cfg i (AList.update i b s)"
  by (simp add: inbox_full_def distinct_update update_conv del: map_of_eq_Some_iff)

definition nothing_new :: "appconfig \<Rightarrow> 'j drained option \<Rightarrow> bool" where
  "nothing_new cfg answer \<longleftrightarrow> (case answer of None \<Rightarrow> True | Some a \<Rightarrow> dr_total a = maxEvents cfg \<and> dr_events a = [])"

definition page_blind :: "appconfig \<Rightarrow> string \<Rightarrow> 'j inbox_exchange \<Rightarrow> bool" where
  "page_blind cfg i x \<longleftrightarrow>
     inbox_full cfg i (ex_receiver x) \<and> pg_inboxSeen (ex_page x) = maxEvents cfg \<and>
     set (ex_requests x) \<subseteq> {maxEvents cfg} \<and> (\<forall>answer\<in>set (ex_answers x). nothing_new cfg answer)"

lemma without_subset: "set (without k xs) \<subseteq> set xs"
  by (auto simp: without_def dest: in_set_takeD in_set_dropD)

lemma inbox_full_deliver:
  assumes "inbox_full cfg i s"
  shows "inbox_full cfg i (snd (deliver decode cfg now i r s))"
proof -
  note full = inbox_full_sweep [OF assms, of now]
  show ?thesis
  proof (cases "map_of (snd (sweep cfg now s)) i")
    case None
    with full assms show ?thesis by (simp add: deliver_def get_inbox_def Let_def)
  next
    case (Some b)
    with full have b: "length (ib_events b) = maxEvents cfg" by (simp add: inbox_full_def)
    then have "length (ib_events (push_event (maxEvents cfg) x b)) = maxEvents cfg" for x
      using maxEvents_positive [of cfg] by (simp add: push_event_def Let_def)
    with Some full assms show ?thesis by (simp add: deliver_def get_inbox_def Let_def inbox_full_update)
  qed
qed

lemma inbox_full_drain:
  assumes "inbox_full cfg i s"
  shows "inbox_full cfg i (snd (drain cfg now i (Some (int (maxEvents cfg))) s)) \<and>
    nothing_new cfg (fst (drain cfg now i (Some (int (maxEvents cfg))) s))"
  using inbox_full_sweep [OF assms, of now]
  by (auto simp: drain_def get_inbox_def Let_def nothing_new_def inbox_full_def split: option.splits)

lemma page_blind_step:
  assumes "page_blind cfg i x"
  shows "page_blind cfg i (traffic_step throws decode cfg i e x) \<and> ex_page (traffic_step throws decode cfg i e x) = ex_page x"
proof (cases e)
  case (Pushed now r)
  with assms inbox_full_deliver show ?thesis by (auto simp: page_blind_def)
next
  case Sent
  with assms show ?thesis by (auto simp: page_blind_def)
next
  case (Served now k)
  show ?thesis
  proof (cases "k < length (ex_requests x)")
    case True
    then have "ex_requests x ! k = maxEvents cfg" using assms by (auto simp: page_blind_def dest!: nth_mem)
    moreover obtain answer s where "drain cfg now i (Some (int (maxEvents cfg))) (ex_receiver x) = (answer, s)" by force
    ultimately show ?thesis
      using True Served assms inbox_full_drain [of cfg i "ex_receiver x" now] without_subset [of k "ex_requests x"]
      by (auto simp: page_blind_def)
  qed (use Served assms in simp)
next
  case (Arrived k)
  show ?thesis
  proof (cases "k < length (ex_answers x)")
    case True
    then have "nothing_new cfg (ex_answers x ! k)" using assms by (simp add: page_blind_def)
    then have "drainReceiver throws (ex_answers x ! k) (ex_page x) = ex_page x"
      using assms by (auto simp: nothing_new_def drainReceiver_def page_blind_def split: option.splits)
    with True Arrived assms without_subset [of k "ex_answers x"] show ?thesis by (auto simp: page_blind_def)
  qed (use Arrived assms in simp)
next
  case (Lost k)
  with assms without_subset [of k "ex_answers x"] show ?thesis by (auto simp: page_blind_def)
qed

lemma page_blind_run:
  "page_blind cfg i x \<Longrightarrow> ex_page (fold (traffic_step throws decode cfg i) es x) = ex_page x"
proof (induction es arbitrary: x)
  case (Cons e es)
  with page_blind_step [OF Cons.prems, of throws decode e] show ?case by simp
qed simp

subsection \<open>Properties\<close>

text \<open>C20: in every state the service can reach, the inboxes have distinct identifiers and are no more than the limit, an
  inbox holds at most the permitted number of events, each within the size limit with its true size, and its
  counters account for all of them; and no call ever hands out an inbox older than its time to live.\<close>

theorem receiver_bounded:
  assumes "receiver_reachable decode cfg s"
  shows "receiver_ok cfg s \<and> (fst (get_inbox cfg now i s) = Some b \<longrightarrow> now - ib_createdAt b \<le> ttlMs cfg \<and> ib_id b = i)"
proof -
  have ok: "receiver_ok cfg s"
    using assms by induction (simp_all add: receiver_ok_def [of _ "[]"] receiver_step_ok)
  show ?thesis
  proof (intro conjI ok impI)
    assume "fst (get_inbox cfg now i s) = Some b"
    then obtain s' where "get_inbox cfg now i s = (Some b, s')" by (metis prod.collapse)
    from get_inbox_ok(2,4) [OF ok this] show "now - ib_createdAt b \<le> ttlMs cfg" and "ib_id b = i"
      by (simp_all add: expired_def inbox_ok_def not_less)
  qed
qed

definition sample_push :: "string \<Rightarrow> push_request" where
  "sample_push t = \<lparr>rq_body = Some t, rq_contentType = ''application/secevent+jwt; x=y'', rq_authorization = []\<rparr>"

definition sample_config :: appconfig where
  "sample_config = [''ssfReceiverMaxEvents'' \<mapsto> SettingNumber 2]"

definition sample_decode :: "string \<Rightarrow> string option" where
  "sample_decode t = (if t = [] then None else Some t)"

lemma receiver_bounded_witness:
  "receiver_ok sample_config (receiver_step sample_decode sample_config (Deliver 7 ''ab'' (sample_push ''h.p.s''))
     (receiver_step sample_decode sample_config (Create 5 ''ab'' ''mine'') []))"
proof -
  have "receiver_reachable sample_decode sample_config
      (receiver_step sample_decode sample_config (Deliver 7 ''ab'' (sample_push ''h.p.s''))
     (receiver_step sample_decode sample_config (Create 5 ''ab'' ''mine'') []))"
    by (intro receiver_reachable.intros)
  from receiver_bounded [OF this] show ?thesis by blast
qed

text \<open>C21: as long as the inbox does not fill up, the page waits for the answer of one poll before it sends the next, and
  no accepted token makes \<open>takeReceivedToken\<close> throw, the page takes in exactly the accepted tokens, each once and in
  the order they were pushed, however the pushes fall between the steps of the polls and whichever answers are lost
  before the last.\<close>

theorem page_receives_all:
  assumes "enabled cfg" and "receiver_ok cfg s" and "map_of s i = Some b" and "ib_events b = []"
    and "polls_in_turn Idle es" and "\<forall>e\<in>set es. in_time (ib_createdAt b + ttlMs cfg) e"
    and "now \<le> ib_createdAt b + ttlMs cfg"
    and "length (accepted_tokens cfg es) \<le> maxEvents cfg" and "\<forall>t\<in>set (accepted_tokens cfg es). \<not> throws t"
  shows "pg_taken (ex_page (fold (traffic_step throws decode cfg i) (es @ [Sent, Served now 0, Arrived 0])
      \<lparr>ex_receiver = s, ex_page = \<lparr>pg_inboxSeen = 0, pg_taken = []\<rparr>, ex_requests = [], ex_answers = []\<rparr>)) =
    accepted_tokens cfg es"
proof -
  let ?x = "\<lparr>ex_receiver = s, ex_page = \<lparr>pg_inboxSeen = 0, pg_taken = []\<rparr>, ex_requests = [], ex_answers = []\<rparr>"
  let ?born = "ib_createdAt b" and ?toks = "accepted_tokens cfg es"
  have "page_follows cfg i ?born Idle [] ?x"
    using assms(2-4) by (simp add: page_follows_def in_flight_ok_def receiver_ok_def)
  then have run: "page_follows cfg i ?born Idle ?toks (fold (traffic_step throws decode cfg i) es ?x)"
    using page_follows_run [OF assms(1) _ assms(5,6), of i "[]" ?x throws decode] assms(8,9) by simp
  define y where "y = traffic_step throws decode cfg i Sent (fold (traffic_step throws decode cfg i) es ?x)"
  have asked: "page_follows cfg i ?born Asking ?toks y"
    unfolding y_def using run by (rule page_follows_ask)
  obtain b' where b': "map_of (ex_receiver y) i = Some b'" "ib_createdAt b' = ?born" "map ev_token (ib_events b') = ?toks"
      "distinct (map fst (ex_receiver y))" "ex_requests y = [pg_inboxSeen (ex_page y)]" "ex_answers y = []"
      "pg_inboxSeen (ex_page y) \<le> length ?toks"
    using asked by (auto simp: page_follows_def in_flight_ok_def)
  have "\<not> expired cfg now b'" using assms(7) b'(2) by (simp add: expired_def)
  moreover have len: "length (ib_events b') = length ?toks" using b'(3) by (metis length_map)
  ultimately obtain a where a: "drain cfg now i (Some (int (pg_inboxSeen (ex_page y)))) (ex_receiver y) =
        (Some a, snd (sweep cfg now (ex_receiver y)))" "dr_total a = length ?toks"
    using drain_answer [OF b'(1,4), of cfg now "pg_inboxSeen (ex_page y)"] b'(7) by auto
  let ?z = "traffic_step throws decode cfg i (Served now 0) y"
  have "page_follows cfg i ?born Idle ?toks (traffic_step throws decode cfg i (Arrived 0) ?z)"
    by (intro page_follows_arrive page_follows_serve asked assms(7,9))
  moreover have "pg_inboxSeen (ex_page (traffic_step throws decode cfg i (Arrived 0) ?z)) = length ?toks"
    using a b'(5,6) by (simp add: drainReceiver_def)
  ultimately have "pg_taken (ex_page (traffic_step throws decode cfg i (Arrived 0) ?z)) = ?toks"
    by (simp add: page_follows_def del: traffic_step.simps)
  then show ?thesis by (simp add: y_def del: traffic_step.simps)
qed

lemma page_receives_all_witness:
  "let s = receiver_step sample_decode sample_config (Create 5 ''ab'' ''mine'') [] in
   pg_taken (ex_page (fold (traffic_step (\<lambda>t. t = ''bad'') sample_decode sample_config ''ab'')
     ([Sent, Pushed 6 (sample_push ''h.p.s''), Served 7 0, Pushed 9 (sample_push '' h.q.s ''), Arrived 0, Sent, Served 9 0,
       Lost 0] @ [Sent, Served 10 0, Arrived 0])
     \<lparr>ex_receiver = s, ex_page = \<lparr>pg_inboxSeen = 0, pg_taken = []\<rparr>, ex_requests = [], ex_answers = []\<rparr>)) =
   [''h.p.s'', ''h.q.s'']"
proof -
  let ?es = "[Sent, Pushed 6 (sample_push ''h.p.s''), Served 7 0, Pushed 9 (sample_push '' h.q.s ''), Arrived 0, Sent, Served 9 0,
    Lost 0]"
  let ?s = "receiver_step sample_decode sample_config (Create 5 ''ab'' ''mine'') []"
  let ?b = "\<lparr>ib_id = ''ab'', ib_label = ''mine'', ib_createdAt = 5, ib_lastPushAt = 0, ib_pushes = 0, ib_dropped = 0,
    ib_events = []\<rparr>"
  have cfg: "enabled sample_config" "ttlMs sample_config = 3600000" "maxEvents sample_config = 2"
      "maxInboxes sample_config = 20" "maxEventBytes sample_config = 65536"
    by (simp_all add: enabled_def ttlMs_def maxEvents_def maxInboxes_def maxEventBytes_def setting_def sample_config_def)
  have s: "?s = [(''ab'', ?b)]" by (simp add: create_def cfg sweep_def Let_def)
  have ok: "receiver_ok sample_config ?s" unfolding s by (simp add: receiver_ok_def inbox_ok_def cfg)
  have toks: "accepted_tokens sample_config ?es = [''h.p.s'', ''h.q.s'']"
    by (simp add: accepted_def token_of_def sample_push_def cfg trim_def is_space_def utf8_length_def Let_def)
  have "map_of ?s ''ab'' = Some ?b" unfolding s by simp
  from page_receives_all [OF cfg(1) ok this, of ?es 10 "\<lambda>t. t = ''bad''" sample_decode] show ?thesis
    unfolding Let_def toks by (simp add: cfg)
qed

text \<open>A token that makes \<open>takeReceivedToken\<close> throw takes the rest of its answer with it: the cursor already counts them,
  so from an inbox that holds no more than they, every later poll brings nothing.\<close>

theorem throwing_token_loses_rest:
  assumes "map_of s i = Some b" and "distinct (map fst s)" and "\<not> expired cfg now b"
    and "map ev_token (ib_events b) = seen @ t # rest" and "throws t" and "\<forall>u\<in>set seen. \<not> throws u"
  shows "ex_page (fold (traffic_step throws decode cfg i) [Sent, Served now 0, Arrived 0, Sent, Served now 0, Arrived 0]
      \<lparr>ex_receiver = s, ex_page = \<lparr>pg_inboxSeen = 0, pg_taken = []\<rparr>, ex_requests = [], ex_answers = []\<rparr>) =
    \<lparr>pg_inboxSeen = Suc (length seen + length rest), pg_taken = seen\<rparr>"
proof -
  let ?s = "snd (sweep cfg now s)" and ?n = "length (ib_events b)"
  have n: "?n = Suc (length seen + length rest)" using arg_cong [OF assms(4), of length] by simp
  obtain a where a: "drain cfg now i (Some (int 0)) s = (Some a, ?s)" "dr_total a = ?n" "dr_events a = ib_events b"
    using drain_answer [OF assms(1-3), of 0] by auto
  obtain a' where a': "drain cfg now i (Some (int ?n)) ?s = (Some a', snd (sweep cfg now ?s))" "dr_total a' = ?n" "dr_events a' = []"
    using drain_answer [OF sweep_keeps [OF assms(1-3)] sweep_distinct [OF assms(2)] assms(3), of ?n] by auto
  have "take_in throws (seen @ t # rest) = seen" using assms(5,6) by (induction seen) auto
  with a(2,3) have "drainReceiver throws (Some a) \<lparr>pg_inboxSeen = 0, pg_taken = []\<rparr> = \<lparr>pg_inboxSeen = ?n, pg_taken = seen\<rparr>"
    by (simp add: drainReceiver_def assms(4))
  with a(1) a' show ?thesis by (simp add: n) (simp add: drainReceiver_def n)
qed

lemma throwing_token_loses_rest_witness:
  "let b = \<lparr>ib_id = ''ab'', ib_label = [], ib_createdAt = 5, ib_lastPushAt = 8, ib_pushes = 2, ib_dropped = 0,
         ib_events = map (\<lambda>t. event_of sample_decode 8 (sample_push t) t) [''h.p.s'', ''bad'', ''h.q.s'']\<rparr>
   in ex_page (fold (traffic_step (\<lambda>t. t = ''bad'') sample_decode sample_config ''ab'')
        [Sent, Served 9 0, Arrived 0, Sent, Served 9 0, Arrived 0]
        \<lparr>ex_receiver = [(''ab'', b)], ex_page = \<lparr>pg_inboxSeen = 0, pg_taken = []\<rparr>, ex_requests = [], ex_answers = []\<rparr>) =
      \<lparr>pg_inboxSeen = 3, pg_taken = [''h.p.s'']\<rparr>"
proof -
  have "ttlMs sample_config = 3600000" by (simp add: ttlMs_def setting_def sample_config_def)
  then show ?thesis
    unfolding Let_def
    by (subst throwing_token_loses_rest [where b = "\<lparr>ib_id = ''ab'', ib_label = [], ib_createdAt = 5, ib_lastPushAt = 8,
        ib_pushes = 2, ib_dropped = 0,
        ib_events = map (\<lambda>t. event_of sample_decode 8 (sample_push t) t) [''h.p.s'', ''bad'', ''h.q.s'']\<rparr>"
          and seen = "[''h.p.s'']" and t = "''bad''" and rest = "[''h.q.s'']"])
      (simp_all add: expired_def)
qed

text \<open>Once the inbox is full and the page has seen all of it, the page never takes in another token, whatever is
  pushed and however often it polls: its cursor is the number of events held, which no longer grows.\<close>

theorem full_inbox_blinds_page:
  assumes "distinct (map fst s)" and "map_of s i = Some b" and "length (ib_events b) = maxEvents cfg"
    and "pg_inboxSeen page = maxEvents cfg"
  shows "pg_taken (ex_page (fold (traffic_step throws decode cfg i) es
      \<lparr>ex_receiver = s, ex_page = page, ex_requests = [], ex_answers = []\<rparr>)) = pg_taken page"
proof -
  have "page_blind cfg i \<lparr>ex_receiver = s, ex_page = page, ex_requests = [], ex_answers = []\<rparr>"
    using assms by (simp add: page_blind_def inbox_full_def)
  from page_blind_run [OF this, of throws decode es] show ?thesis by simp
qed

lemma full_inbox_blinds_page_witness:
  "let b = \<lparr>ib_id = ''ab'', ib_label = [], ib_createdAt = 5, ib_lastPushAt = 8, ib_pushes = 2, ib_dropped = 0,
         ib_events = map (\<lambda>t. event_of sample_decode 8 (sample_push t) t) [''h.p.s'', ''h.q.s'']\<rparr>
   in pg_taken (ex_page (fold (traffic_step (\<lambda>t. False) sample_decode sample_config ''ab'')
        [Pushed 9 (sample_push ''h.r.s''), Sent, Served 10 0, Arrived 0, Pushed 11 (sample_push ''h.t.s''), Sent, Served 12 0,
         Arrived 0]
        \<lparr>ex_receiver = [(''ab'', b)], ex_page = \<lparr>pg_inboxSeen = 2, pg_taken = [''h.p.s'', ''h.q.s'']\<rparr>,
         ex_requests = [], ex_answers = []\<rparr>)) = [''h.p.s'', ''h.q.s'']"
proof -
  have "maxEvents sample_config = 2" by (simp add: maxEvents_def setting_def sample_config_def)
  then show ?thesis
    unfolding Let_def
    by (subst full_inbox_blinds_page [where b = "\<lparr>ib_id = ''ab'', ib_label = [], ib_createdAt = 5, ib_lastPushAt = 8,
        ib_pushes = 2, ib_dropped = 0,
        ib_events = map (\<lambda>t. event_of sample_decode 8 (sample_push t) t) [''h.p.s'', ''h.q.s'']\<rparr>"]) simp_all
qed

end
