(* ===== verification/Js_Values.thy ===== *)
theory Js_Values
  imports Js_Strings "HOL-Library.AList"
begin

text \<open>
  The values of JavaScript that travel as JSON, and what the components do with them: \<open>typeof\<close>, truth, \<open>String(x)\<close>,
  \<open>x || ''\<close>, reading and writing a property.  An object is the list of its own properties in enumeration order, an
  absent property is \<open>None\<close>, and a number is the text the language prints for it, which is what decides
  both its truth and its string.
\<close>

datatype json =
    JNull
  | JBool bool
  | JNum string
  | JStr string
  | JArr "json list"
  | JObj "(string \<times> json) list"

type_synonym fields = "(string \<times> json) list"

definition is_string :: "json option \<Rightarrow> bool" where
  "is_string v \<longleftrightarrow> (case v of Some (JStr s) \<Rightarrow> True | _ \<Rightarrow> False)"

definition is_number :: "json option \<Rightarrow> bool" where
  "is_number v \<longleftrightarrow> (case v of Some (JNum s) \<Rightarrow> True | _ \<Rightarrow> False)"

definition is_array :: "json option \<Rightarrow> bool" where
  "is_array v \<longleftrightarrow> (case v of Some (JArr xs) \<Rightarrow> True | _ \<Rightarrow> False)"

text \<open>\<open>value && typeof value === 'object'\<close>, arrays included.\<close>

definition is_object :: "json option \<Rightarrow> bool" where
  "is_object v \<longleftrightarrow> (case v of Some (JObj fs) \<Rightarrow> True | Some (JArr xs) \<Rightarrow> True | _ \<Rightarrow> False)"

definition is_plain_object :: "json option \<Rightarrow> bool" where
  "is_plain_object v \<longleftrightarrow> (case v of Some (JObj fs) \<Rightarrow> True | _ \<Rightarrow> False)"

fun truthy :: "json option \<Rightarrow> bool" where
  "truthy None \<longleftrightarrow> False"
| "truthy (Some JNull) \<longleftrightarrow> False"
| "truthy (Some (JBool b)) \<longleftrightarrow> b"
| "truthy (Some (JNum s)) \<longleftrightarrow> s \<noteq> ''0'' \<and> s \<noteq> ''NaN''"
| "truthy (Some (JStr s)) \<longleftrightarrow> s \<noteq> []"
| "truthy (Some (JArr xs)) \<longleftrightarrow> True"
| "truthy (Some (JObj fs)) \<longleftrightarrow> True"

fun join_with :: "string \<Rightarrow> string list \<Rightarrow> string" where
  "join_with sep [] = []"
| "join_with sep [x] = x"
| "join_with sep (x # y # xs) = x @ sep @ join_with sep (y # xs)"

text \<open>\<open>String(x)\<close>; an array joins the strings of its elements, those of \<open>null\<close> being empty.\<close>

fun js_String :: "json \<Rightarrow> string" where
  "js_String JNull = ''null''"
| "js_String (JBool b) = (if b then ''true'' else ''false'')"
| "js_String (JNum s) = s"
| "js_String (JStr s) = s"
| "js_String (JArr xs) = join_with '','' (map (\<lambda>x. case x of JNull \<Rightarrow> [] | _ \<Rightarrow> js_String x) xs)"
| "js_String (JObj fs) = ''[object Object]''"

definition js_text :: "json option \<Rightarrow> string" where
  "js_text v = (if truthy v then js_String (the v) else [])"

text \<open>\<open>String(x)\<close> of a value that may be absent.\<close>

definition js_string_of :: "json option \<Rightarrow> string" where
  "js_string_of v = (case v of None \<Rightarrow> ''undefined'' | Some x \<Rightarrow> js_String x)"

text \<open>The names every object inherits: reading one of them never gives \<open>undefined\<close>.\<close>

definition inherited_names :: "string list" where
  "inherited_names =
     [''constructor'', ''__defineGetter__'', ''__defineSetter__'', ''hasOwnProperty'', ''__lookupGetter__'',
      ''__lookupSetter__'', ''isPrototypeOf'', ''propertyIsEnumerable'', ''toString'', ''valueOf'', ''__proto__'',
      ''toLocaleString'']"

definition own :: "fields \<Rightarrow> string \<Rightarrow> json option" where
  "own fs nm = map_of fs nm"

lemma js_text_string [simp]: "js_text (Some (JStr s)) = s"
  by (simp add: js_text_def)

lemma js_text_None [simp]: "js_text None = []"
  by (simp add: js_text_def)

lemma type_tests [simp]:
  "is_string (Some (JStr s))" "\<not> is_string None" "is_number (Some (JNum s))" "\<not> is_number None"
  "is_array (Some (JArr xs))" "\<not> is_array None" "is_object (Some (JObj fs))" "\<not> is_object None"
  "is_plain_object (Some (JObj fs))"
  by (simp_all add: is_string_def is_number_def is_array_def is_object_def is_plain_object_def)

lemma own_simps [simp]:
  "own [] nm = None" "own ((k, v) # fs) nm = (if k = nm then Some v else own fs nm)"
  by (simp_all add: own_def)

lemma own_append: "own (fs @ gs) nm = (case own fs nm of Some v \<Rightarrow> Some v | None \<Rightarrow> own gs nm)"
  by (induction fs) auto

end
