(* ===== verification/Ssf_Subjects.thy ===== *)
theory Ssf_Subjects
  imports Js_Values "HOL-Library.List_Lexorder" "HOL-Library.Char_ord"
begin

text \<open>
  Subject identifiers (\<open>client/src/ssf_client.js\<close>): the eleven formats with their closed member sets, the shape rules of their
  values, the validator of a simple and of a complex subject, and the string that keys a subject.  An error is the path
  the source prefixes its sentence with and what is wrong there.

  The tables are objects, so a format named like something every object inherits is looked up as that; what follows
  reads a member list that is not there and throws: \<open>None\<close>.
\<close>

subsection \<open>Formats\<close>

record subject_format =
  sf_format :: string
  sf_members :: "string list"
  sf_required :: "string list"

definition SUBJECT_FORMATS :: "subject_format list" where
  "SUBJECT_FORMATS =
     [\<lparr>sf_format = ''account'', sf_members = [''uri''], sf_required = [''uri'']\<rparr>,
      \<lparr>sf_format = ''email'', sf_members = [''email''], sf_required = [''email'']\<rparr>,
      \<lparr>sf_format = ''iss_sub'', sf_members = [''iss'', ''sub''], sf_required = [''iss'', ''sub'']\<rparr>,
      \<lparr>sf_format = ''opaque'', sf_members = [''id''], sf_required = [''id'']\<rparr>,
      \<lparr>sf_format = ''phone_number'', sf_members = [''phone_number''], sf_required = [''phone_number'']\<rparr>,
      \<lparr>sf_format = ''did'', sf_members = [''url''], sf_required = [''url'']\<rparr>,
      \<lparr>sf_format = ''uri'', sf_members = [''uri''], sf_required = [''uri'']\<rparr>,
      \<lparr>sf_format = ''aliases'', sf_members = [''identifiers''], sf_required = [''identifiers'']\<rparr>,
      \<lparr>sf_format = ''jwt_id'', sf_members = [''iss'', ''jti''], sf_required = [''iss'', ''jti'']\<rparr>,
      \<lparr>sf_format = ''saml_assertion_id'', sf_members = [''issuer'', ''assertion_id''],
       sf_required = [''issuer'', ''assertion_id'']\<rparr>,
      \<lparr>sf_format = ''ip-addresses'', sf_members = [''ip-addresses''], sf_required = [''ip-addresses'']\<rparr>]"

definition SUBJECT_FORMAT_BY_NAME :: "string \<Rightarrow> subject_format option" where
  "SUBJECT_FORMAT_BY_NAME nm = find (\<lambda>row. sf_format row = nm) SUBJECT_FORMATS"

definition COMPLEX_SUBJECT_MEMBERS :: "string list" where
  "COMPLEX_SUBJECT_MEMBERS = [''user'', ''device'', ''session'', ''application'', ''tenant'', ''org_unit'', ''group'']"

subsection \<open>Shapes\<close>

definition is_alnum :: "char \<Rightarrow> bool" where
  "is_alnum c \<longleftrightarrow> is_lower c \<or> is_upper c \<or> is_digit c"

text \<open>\<open>/^\+[1-9][0-9]{1,14}$/\<close>\<close>

definition E164 :: "string \<Rightarrow> bool" where
  "E164 s \<longleftrightarrow>
     (case s of
        p # d # ds \<Rightarrow> p = CHR ''+'' \<and> is_digit d \<and> d \<noteq> CHR ''0'' \<and> list_all is_digit ds \<and> 1 \<le> length ds \<and> length ds \<le> 14
      | _ \<Rightarrow> False)"

definition no_space_at :: "string \<Rightarrow> bool" where
  "no_space_at s \<longleftrightarrow> s \<noteq> [] \<and> list_all (\<lambda>c. \<not> is_space c \<and> c \<noteq> CHR ''@'') s"

text \<open>\<open>/^[^\s@]+@[^\s@]+$/\<close>\<close>

definition ADDR_SPEC :: "string \<Rightarrow> bool" where
  "ADDR_SPEC s \<longleftrightarrow> CHR ''@'' \<in> set s \<and> no_space_at (before (CHR ''@'') s) \<and> no_space_at (after (CHR ''@'') s)"

definition begins :: "string \<Rightarrow> string \<Rightarrow> bool" where
  "begins prefix s \<longleftrightarrow> take (length prefix) s = prefix"

text \<open>\<open>/^acct:[^\s@]+@[^\s@]+$/\<close>\<close>

definition ACCT_URI :: "string \<Rightarrow> bool" where
  "ACCT_URI s \<longleftrightarrow> begins ''acct:'' s \<and> ADDR_SPEC (drop 5 s)"

definition no_space :: "string \<Rightarrow> bool" where
  "no_space s \<longleftrightarrow> s \<noteq> [] \<and> list_all (\<lambda>c. \<not> is_space c) s"

text \<open>\<open>/^did:[a-z0-9]+:[^\s]+$/\<close>: the method ends at the first colon.\<close>

definition DID_URL :: "string \<Rightarrow> bool" where
  "DID_URL s \<longleftrightarrow> begins ''did:'' s \<and> CHR '':'' \<in> set (drop 4 s)
     \<and> before (CHR '':'') (drop 4 s) \<noteq> [] \<and> list_all (\<lambda>c. is_lower c \<or> is_digit c) (before (CHR '':'') (drop 4 s))
     \<and> no_space (after (CHR '':'') (drop 4 s))"

text \<open>\<open>/^[A-Za-z][A-Za-z0-9+.\-]*:[^\s]+$/\<close>: the scheme ends at the first colon.\<close>

definition ABSOLUTE_URI :: "string \<Rightarrow> bool" where
  "ABSOLUTE_URI s \<longleftrightarrow> CHR '':'' \<in> set s
     \<and> (case before (CHR '':'') s of
          [] \<Rightarrow> False
        | c # cs \<Rightarrow> (is_lower c \<or> is_upper c)
            \<and> list_all (\<lambda>c. is_alnum c \<or> c = CHR ''+'' \<or> c = CHR ''.'' \<or> c = CHR ''-'') cs)
     \<and> no_space (after (CHR '':'') s)"

text \<open>\<open>(25[0-5]|2[0-4][0-9]|1?[0-9]?[0-9])\<close>, four times with dots between.\<close>

definition IPV4_OCTET :: "string \<Rightarrow> bool" where
  "IPV4_OCTET s \<longleftrightarrow> all_digits s \<and> length s \<le> 3 \<and> (length s = 3 \<longrightarrow> hd s \<noteq> CHR ''0'' \<and> dec_value s \<le> 255)"

definition IPV4 :: "string \<Rightarrow> bool" where
  "IPV4 s \<longleftrightarrow> (let ps = split_on (CHR ''.'') s in length ps = 4 \<and> list_all IPV4_OCTET ps)"

text \<open>\<open>/^[0-9A-Fa-f:]*:[0-9A-Fa-f:]*:[0-9A-Fa-f:]*(:[0-9.]+)?$/\<close>: digits and colons, two colons at least, and
  perhaps behind a further colon, which is then the last one, digits and dots.\<close>

definition hex_colons :: "string \<Rightarrow> bool" where
  "hex_colons s \<longleftrightarrow> list_all (\<lambda>c. is_hex c \<or> c = CHR '':'') s \<and> 2 \<le> count_list s (CHR '':'')"

definition IPV6 :: "string \<Rightarrow> bool" where
  "IPV6 s \<longleftrightarrow> hex_colons s
     \<or> (hex_colons (butlast (upto_last (CHR '':'') s)) \<and> after_last (CHR '':'') s \<noteq> []
        \<and> list_all (\<lambda>c. is_digit c \<or> c = CHR ''.'') (after_last (CHR '':'') s))"

definition SUBJECT_VALUE_RULES :: "string \<Rightarrow> string \<Rightarrow> (string \<Rightarrow> bool) option" where
  "SUBJECT_VALUE_RULES format nm =
     map_of [((''account'', ''uri''), ACCT_URI), ((''email'', ''email''), ADDR_SPEC),
             ((''phone_number'', ''phone_number''), E164), ((''did'', ''url''), DID_URL),
             ((''uri'', ''uri''), ABSOLUTE_URI), ((''iss_sub'', ''iss''), ABSOLUTE_URI)] (format, nm)"

subsection \<open>The validator\<close>

datatype subject_problem =
    NotObject
  | NoFormat
  | NestedComplex
  | UnknownFormat string
  | ForeignMember string
  | MissingMember string
  | NotNonEmptyString string
  | WrongShape string
  | AliasesNotArray
  | AliasesEmpty
  | NestedAliases
  | AddressesNotArray
  | AddressesEmpty
  | AddressNotString
  | NotAnAddress
  | NoMembers
  | CriticalMissing string

type_synonym subject_errors = "(string \<times> subject_problem) list"

definition checkSubjectMember :: "string \<Rightarrow> string \<Rightarrow> json \<Rightarrow> subject_problem option" where
  "checkSubjectMember format nm v =
     (case v of
        JStr s \<Rightarrow>
          if s = [] then Some (NotNonEmptyString nm)
          else (case SUBJECT_VALUE_RULES format nm of
                  None \<Rightarrow> None
                | Some rule \<Rightarrow> if rule s then None else Some (WrongShape nm))
      | _ \<Rightarrow> Some (NotNonEmptyString nm))"

definition indexed :: "string \<Rightarrow> string \<Rightarrow> nat \<Rightarrow> string" where
  "indexed path nm i = path @ nm @ ''['' @ show_nat i @ '']''"

definition validateIpAddresses :: "fields \<Rightarrow> string \<Rightarrow> subject_errors" where
  "validateIpAddresses subject path =
     (case own subject ''ip-addresses'' of
        None \<Rightarrow> []
      | Some (JArr []) \<Rightarrow> [(path, AddressesEmpty)]
      | Some (JArr xs) \<Rightarrow>
          concat (map (\<lambda>(i, x). case x of
              JStr s \<Rightarrow> if s = [] then [(indexed path ''.ip-addresses'' i, AddressNotString)]
                       else if \<not> IPV4 s \<and> \<not> IPV6 s then [(indexed path ''.ip-addresses'' i, NotAnAddress)] else []
            | _ \<Rightarrow> [(indexed path ''.ip-addresses'' i, AddressNotString)]) (zip [0..<length xs] xs))
      | Some _ \<Rightarrow> [(path, AddressesNotArray)])"

text \<open>What the closed member set and the required members say.\<close>

definition member_errors :: "subject_format \<Rightarrow> fields \<Rightarrow> string \<Rightarrow> subject_errors" where
  "member_errors row subject path =
     concat (map (\<lambda>(nm, _). if nm \<noteq> ''format'' \<and> nm \<notin> set (sf_members row) then [(path, ForeignMember nm)] else []) subject) @
     concat (map (\<lambda>nm. if own subject nm = None then [(path, MissingMember nm)] else []) (sf_required row))"

definition value_errors :: "subject_format \<Rightarrow> fields \<Rightarrow> string \<Rightarrow> subject_errors" where
  "value_errors row subject path =
     concat (map (\<lambda>nm. case own subject nm of
         None \<Rightarrow> []
       | Some v \<Rightarrow> (case checkSubjectMember (sf_format row) nm v of
                     None \<Rightarrow> [] | Some e \<Rightarrow> [(path @ ''.'' @ nm, e)])) (sf_members row))"

definition both :: "'a list option \<Rightarrow> 'a list option \<Rightarrow> 'a list option" where
  "both a b = (case (a, b) of (Some xs, Some ys) \<Rightarrow> Some (xs @ ys) | _ \<Rightarrow> None)"

definition all_errors :: "'a list option list \<Rightarrow> 'a list option" where
  "all_errors rs = foldr both rs (Some [])"

function validateSubject :: "json \<Rightarrow> string \<Rightarrow> subject_errors option" where
  "validateSubject v path =
     (case v of
        JObj subject \<Rightarrow>
          (case own subject ''format'' of
             Some (JStr format) \<Rightarrow>
               if format = [] then Some [(path, NoFormat)]
               else if format = ''complex'' then Some [(path, NestedComplex)]
               else (case SUBJECT_FORMAT_BY_NAME format of
                       None \<Rightarrow> if format \<in> set inherited_names then None else Some [(path, UnknownFormat format)]
                     | Some row \<Rightarrow>
                         both (Some (member_errors row subject path))
                           (if format = ''aliases'' then
                              (case own subject ''identifiers'' of
                                 Some (JArr xs) \<Rightarrow>
                                   if xs = [] then Some [(path, AliasesEmpty)]
                                   else all_errors (map (\<lambda>(i, x).
                                     (case x of
                                        JObj inner \<Rightarrow>
                                          if own inner ''format'' = Some (JStr ''aliases'')
                                          then Some [(indexed path ''.identifiers'' i, NestedAliases)]
                                          else validateSubject x (indexed path ''.identifiers'' i)
                                      | _ \<Rightarrow> validateSubject x (indexed path ''.identifiers'' i))) (zip [0..<length xs] xs))
                               | _ \<Rightarrow> Some [(path, AliasesNotArray)])
                            else if format = ''ip-addresses'' then Some (validateIpAddresses subject path)
                            else Some (value_errors row subject path)))
           | _ \<Rightarrow> Some [(path, NoFormat)])
      | _ \<Rightarrow> Some [(path, NotObject)])"
  by pat_completeness auto

lemma own_in_set: "own fs nm = Some v \<Longrightarrow> (nm, v) \<in> set fs"
  by (simp add: own_def map_of_SomeD)

lemma size_element: "x \<in> set xs \<Longrightarrow> size x < size (JArr xs)"
  by (simp add: size_list_estimation' less_Suc_eq_le)

lemma size_field: "own fs nm = Some v \<Longrightarrow> size v < size (JObj fs)"
  by (auto dest!: own_in_set simp: less_Suc_eq_le intro: size_list_estimation' [of "(nm, v)"])

termination validateSubject
proof (relation "measure (size \<circ> fst)", goal_cases)
  case 1
  show ?case by simp
qed (auto dest!: size_field set_zip_rightD size_element)

declare validateSubject.simps [simp del]

subsection \<open>A whole \<open>sub_id\<close>\<close>

record subject_verdict =
  sv_ok :: bool
  sv_complex :: bool
  sv_format :: string
  sv_errors :: subject_errors

text \<open>The format a simple verdict reports: the one the object names, if it names any.\<close>

definition reported_format :: "json \<Rightarrow> string" where
  "reported_format v =
     (case v of JObj fs \<Rightarrow> (case own fs ''format'' of Some (JStr f) \<Rightarrow> f | _ \<Rightarrow> []) | _ \<Rightarrow> [])"

definition simple_verdict :: "json \<Rightarrow> string \<Rightarrow> subject_verdict option" where
  "simple_verdict v path =
     map_option (\<lambda>es. \<lparr>sv_ok = (es = []), sv_complex = False, sv_format = reported_format v, sv_errors = es\<rparr>)
       (validateSubject v path)"

definition validateSubjectId :: "json \<Rightarrow> string list \<Rightarrow> string \<Rightarrow> subject_verdict option" where
  "validateSubjectId v criticalMembers path =
     (case v of
        JObj subject \<Rightarrow>
          if own subject ''format'' = None
          then Some \<lparr>sv_ok = False, sv_complex = False, sv_format = [], sv_errors = [(path, NoFormat)]\<rparr>
          else if own subject ''format'' \<noteq> Some (JStr ''complex'') then simple_verdict v path
          else
            (let members = filter (\<lambda>(nm, _). nm \<noteq> ''format'') subject;
                 none = (if members = [] then [(path, NoMembers)] else []);
                 missing = concat (map (\<lambda>nm. if own subject nm = None then [(path, CriticalMissing nm)] else []) criticalMembers)
             in map_option (\<lambda>es. \<lparr>sv_ok = (es = []), sv_complex = True, sv_format = ''complex'', sv_errors = es\<rparr>)
                  (both (both (Some none) (all_errors (map (\<lambda>(nm, x). validateSubject x (path @ ''.'' @ nm)) members)))
                    (Some missing)))
      | _ \<Rightarrow> Some \<lparr>sv_ok = False, sv_complex = False, sv_format = [], sv_errors = [(path, NotObject)]\<rparr>)"

definition additionalComplexMembers :: "json \<Rightarrow> string list" where
  "additionalComplexMembers v =
     (case v of
        JObj subject \<Rightarrow>
          if own subject ''format'' = Some (JStr ''complex'')
          then filter (\<lambda>nm. nm \<noteq> ''format'' \<and> nm \<notin> set COMPLEX_SUBJECT_MEMBERS) (map fst subject) else []
      | _ \<Rightarrow> [])"

subsection \<open>The key of a subject\<close>

text \<open>\<open>String(v == null ? '' : v)\<close>\<close>

definition shown :: "json option \<Rightarrow> string" where
  "shown v = (case v of None \<Rightarrow> [] | Some JNull \<Rightarrow> [] | Some x \<Rightarrow> js_String x)"

definition format_text :: "fields \<Rightarrow> string" where
  "format_text subject = js_string_of (own subject ''format'')"

definition simple_key :: "fields \<Rightarrow> string option" where
  "simple_key subject =
     (let format = format_text subject;
          keyed = (\<lambda>members. format @ ''{'' @
                     join_with '';'' (map (\<lambda>nm. nm @ ''='' @ shown (own subject nm)) (sort members)) @ ''}'')
      in case SUBJECT_FORMAT_BY_NAME format of
           Some row \<Rightarrow> Some (keyed (sf_members row))
         | None \<Rightarrow> if format \<in> set inherited_names then None
                   else Some (keyed (filter (\<lambda>nm. nm \<noteq> ''format'') (map fst subject))))"

function subjectKey :: "json \<Rightarrow> string option" where
  "subjectKey v =
     (case v of
        JObj subject \<Rightarrow>
          if own subject ''format'' = Some (JStr ''complex'') then
            (let members = filter (\<lambda>(nm, _). nm \<noteq> ''format'') subject;
                 rows = map (\<lambda>(nm, x). map_option (\<lambda>k. (nm, k)) (subjectKey x)) members
             in map_option (\<lambda>rows. ''complex{'' @ join_with '';'' (map (\<lambda>(nm, k). nm @ ''='' @ k) (sort_key fst rows)) @ ''}'')
                  (those rows))
          else
            (case (own subject ''format'', own subject ''identifiers'') of
               (Some (JStr f), Some (JArr xs)) \<Rightarrow>
                 if f = ''aliases''
                 then map_option (\<lambda>ks. ''aliases['' @ join_with ''|'' (sort ks) @ '']'') (those (map subjectKey xs))
                 else simple_key subject
             | _ \<Rightarrow> simple_key subject)
      | JArr xs \<Rightarrow> simple_key (zip (map show_nat [0..<length xs]) xs)
      | _ \<Rightarrow> Some [])"
  by pat_completeness auto

termination subjectKey
proof (relation "measure size", goal_cases)
  case 1
  show ?case by simp
qed (auto dest!: sym [of "Some (JArr _)" "own _ _"] size_field size_element simp: less_Suc_eq_le
      intro: size_list_estimation')

declare subjectKey.simps [simp del]

end
