(* ===== verification/Ssf_Subjects_Laws.thy ===== *)
theory Ssf_Subjects_Laws
  imports Ssf_Subjects "HOL-Library.Multiset"
begin

text \<open>
  The validator of subject identifiers against a grammar of them, where it throws, and what the key of a
  subject tells apart.
\<close>

subsection \<open>The grammar\<close>

definition value_ok :: "string \<Rightarrow> string \<Rightarrow> json \<Rightarrow> bool" where
  "value_ok format nm v \<longleftrightarrow>
     (\<exists>s. v = JStr s \<and> s \<noteq> [] \<and> (case SUBJECT_VALUE_RULES format nm of None \<Rightarrow> True | Some rule \<Rightarrow> rule s))"

definition address_ok :: "json \<Rightarrow> bool" where
  "address_ok v \<longleftrightarrow> (\<exists>s. v = JStr s \<and> s \<noteq> [] \<and> (IPV4 s \<or> IPV6 s))"

text \<open>A simple subject identifier: exactly the members of its format, each with a value of its shape; aliases
  hold at least one simple identifier of another format.\<close>

inductive simple_subject :: "json \<Rightarrow> bool" where
  Plain: "own fs ''format'' = Some (JStr format) \<Longrightarrow> SUBJECT_FORMAT_BY_NAME format = Some row
    \<Longrightarrow> format \<notin> {''aliases'', ''ip-addresses''} \<Longrightarrow> set (map fst fs) = insert ''format'' (set (sf_members row))
    \<Longrightarrow> (\<forall>nm\<in>set (sf_members row). value_ok format nm (the (own fs nm))) \<Longrightarrow> simple_subject (JObj fs)"
| Addresses: "own fs ''format'' = Some (JStr ''ip-addresses'') \<Longrightarrow> set (map fst fs) = {''format'', ''ip-addresses''}
    \<Longrightarrow> own fs ''ip-addresses'' = Some (JArr xs) \<Longrightarrow> xs \<noteq> [] \<Longrightarrow> (\<forall>x\<in>set xs. address_ok x) \<Longrightarrow> simple_subject (JObj fs)"
| Aliases: "own fs ''format'' = Some (JStr ''aliases'') \<Longrightarrow> set (map fst fs) = {''format'', ''identifiers''}
    \<Longrightarrow> own fs ''identifiers'' = Some (JArr xs) \<Longrightarrow> xs \<noteq> []
    \<Longrightarrow> (\<forall>x\<in>set xs. simple_subject x \<and> (\<nexists>inner. x = JObj inner \<and> own inner ''format'' = Some (JStr ''aliases'')))
    \<Longrightarrow> simple_subject (JObj fs)"

inductive_cases simple_subjectE: "simple_subject v"

inductive_simps simple_subject_object: "simple_subject (JObj fs)"

lemma not_object_simple: "(\<And>fs. v \<noteq> JObj fs) \<Longrightarrow> \<not> simple_subject v"
  by (auto elim: simple_subject.cases)

subsection \<open>Pieces of the validator\<close>

lemma both_Nil [simp]: "both a b = Some [] \<longleftrightarrow> a = Some [] \<and> b = Some []"
  by (cases a; cases b) (auto simp: both_def)

lemma all_errors_Nil: "all_errors rs = Some [] \<longleftrightarrow> (\<forall>r\<in>set rs. r = Some [])"
  unfolding all_errors_def by (induction rs) auto

lemma own_None_iff: "own fs nm = None \<longleftrightarrow> nm \<notin> set (map fst fs)"
  by (simp add: own_def map_of_eq_None_iff)

lemma formats_required: "SUBJECT_FORMAT_BY_NAME format = Some row \<Longrightarrow> sf_required row = sf_members row \<and> sf_format row = format"
proof -
  have "list_all (\<lambda>row. sf_required row = sf_members row) SUBJECT_FORMATS" by (simp add: SUBJECT_FORMATS_def)
  then show "SUBJECT_FORMAT_BY_NAME format = Some row \<Longrightarrow> sf_required row = sf_members row \<and> sf_format row = format"
    by (auto simp: SUBJECT_FORMAT_BY_NAME_def find_Some_iff list_all_iff)
qed

lemma special_members:
  "SUBJECT_FORMAT_BY_NAME ''aliases'' = Some row \<Longrightarrow> sf_members row = [''identifiers'']"
  "SUBJECT_FORMAT_BY_NAME ''ip-addresses'' = Some row \<Longrightarrow> sf_members row = [''ip-addresses'']"
  by (auto simp: SUBJECT_FORMAT_BY_NAME_def SUBJECT_FORMATS_def)

lemma known_not_complex: "SUBJECT_FORMAT_BY_NAME format = Some row \<Longrightarrow> format \<noteq> [] \<and> format \<noteq> ''complex''"
  by (auto simp: SUBJECT_FORMAT_BY_NAME_def SUBJECT_FORMATS_def)

lemma member_errors_Nil:
  assumes "SUBJECT_FORMAT_BY_NAME format = Some row" and "own fs ''format'' = Some v"
  shows "member_errors row fs path = [] \<longleftrightarrow> set (map fst fs) = insert ''format'' (set (sf_members row))"
proof -
  have f: "''format'' \<in> set (map fst fs)" using assms(2) own_None_iff [of fs "''format''"] by auto
  have "member_errors row fs path = [] \<longleftrightarrow>
      (\<forall>p\<in>set fs. fst p = ''format'' \<or> fst p \<in> set (sf_members row)) \<and> (\<forall>nm\<in>set (sf_members row). own fs nm \<noteq> None)"
    using formats_required [OF assms(1)]
    unfolding member_errors_def append_is_Nil_conv concat_eq_Nil_conv set_map ball_simps
    by (simp add: split_beta)
  also have "\<dots> \<longleftrightarrow> set (map fst fs) = insert ''format'' (set (sf_members row))"
    using f by (auto simp: own_None_iff)
  finally show ?thesis .
qed

lemma checkSubjectMember_None: "checkSubjectMember format nm v = None \<longleftrightarrow> value_ok format nm v"
  by (auto simp: checkSubjectMember_def value_ok_def split: json.split option.split)

lemma value_errors_Nil:
  assumes "\<And>nm. nm \<in> set (sf_members row) \<Longrightarrow> own fs nm \<noteq> None"
  shows "value_errors row fs path = [] \<longleftrightarrow> (\<forall>nm\<in>set (sf_members row). value_ok (sf_format row) nm (the (own fs nm)))"
proof -
  let ?err = "\<lambda>nm. case own fs nm of None \<Rightarrow> [] | Some v \<Rightarrow> (case checkSubjectMember (sf_format row) nm v of None \<Rightarrow> []
          | Some e \<Rightarrow> [(path @ ''.'' @ nm, e)])"
  have e: "?err nm = [] \<longleftrightarrow> value_ok (sf_format row) nm (the (own fs nm))" if member: "nm \<in> set (sf_members row)" for nm
  proof -
    obtain v where v: "own fs nm = Some v" using assms [OF member] by auto
    show ?thesis
      using checkSubjectMember_None [of "sf_format row" nm v]
      by (cases "checkSubjectMember (sf_format row) nm v") (simp_all add: v)
  qed
  have "value_errors row fs path = [] \<longleftrightarrow> (\<forall>nm\<in>set (sf_members row). ?err nm = [])"
    unfolding value_errors_def concat_eq_Nil_conv set_map ball_simps ..
  also have "\<dots> \<longleftrightarrow> (\<forall>nm\<in>set (sf_members row). value_ok (sf_format row) nm (the (own fs nm)))"
    using e by (intro ball_cong) simp_all
  finally show ?thesis .
qed

lemma zip_upt_ball: "(\<forall>p\<in>set (zip [0..<length xs] xs). P (snd p)) \<longleftrightarrow> (\<forall>x\<in>set xs. P x)"
proof -
  have m: "map snd (zip [0..<length xs] xs) = xs" by simp
  have "(\<forall>p\<in>set (zip [0..<length xs] xs). P (snd p)) \<longleftrightarrow> (\<forall>x\<in>set (map snd (zip [0..<length xs] xs)). P x)"
    unfolding set_map by blast
  then show ?thesis unfolding m .
qed

lemma addresses_Nil:
  "validateIpAddresses fs path = [] \<and> own fs ''ip-addresses'' \<noteq> None
     \<longleftrightarrow> (\<exists>xs. own fs ''ip-addresses'' = Some (JArr xs) \<and> xs \<noteq> [] \<and> (\<forall>x\<in>set xs. address_ok x))"
proof (cases "\<exists>x xs. own fs ''ip-addresses'' = Some (JArr (x # xs))")
  case True
  then obtain y ys where xs: "own fs ''ip-addresses'' = Some (JArr (y # ys))" by auto
  let ?err = "\<lambda>(i, x). case x of
              JStr s \<Rightarrow> if s = [] then [(indexed path ''.ip-addresses'' i, AddressNotString)]
                       else if \<not> IPV4 s \<and> \<not> IPV6 s then [(indexed path ''.ip-addresses'' i, NotAnAddress)] else []
            | _ \<Rightarrow> [(indexed path ''.ip-addresses'' i, AddressNotString)]"
  have e: "?err p = [] \<longleftrightarrow> address_ok (snd p)" for p
    by (cases p; cases "snd p") (simp_all add: address_ok_def)
  have "validateIpAddresses fs path = [] \<longleftrightarrow> (\<forall>p\<in>set (zip [0..<length (y # ys)] (y # ys)). ?err p = [])"
    by (simp only: validateIpAddresses_def xs option.case json.case list.case concat_eq_Nil_conv set_map ball_simps)
  also have "\<dots> \<longleftrightarrow> (\<forall>x\<in>set (y # ys). address_ok x)"
    unfolding e by (rule zip_upt_ball)
  finally show ?thesis using xs by simp
next
  case False
  then show ?thesis
    by (auto simp: validateIpAddresses_def neq_Nil_conv split: option.splits json.splits list.splits)
qed

lemma known_format_or_bad:
  assumes "\<not> (\<exists>fs format row. v = JObj fs \<and> own fs ''format'' = Some (JStr format) \<and> SUBJECT_FORMAT_BY_NAME format = Some row)"
  shows "validateSubject v path \<noteq> Some []" and "\<not> simple_subject v"
proof -
  show "validateSubject v path \<noteq> Some []"
    using assms by (subst validateSubject.simps) (auto split: json.split option.split)
  have "SUBJECT_FORMAT_BY_NAME ''aliases'' \<noteq> None" "SUBJECT_FORMAT_BY_NAME ''ip-addresses'' \<noteq> None"
    by (simp_all add: SUBJECT_FORMAT_BY_NAME_def SUBJECT_FORMATS_def)
  then obtain r1 r2 where special: "SUBJECT_FORMAT_BY_NAME ''aliases'' = Some r1" "SUBJECT_FORMAT_BY_NAME ''ip-addresses'' = Some r2"
    by blast
  show "\<not> simple_subject v"
  proof
    assume "simple_subject v"
    then show False
    proof cases
      case (Plain fs format row)
      with assms show False by blast
    next
      case (Addresses fs xs)
      with assms special show False by blast
    next
      case (Aliases fs xs)
      with assms special show False by blast
    qed
  qed
qed

text \<open>What is left to check of an object whose format is known.\<close>

lemma validate_known:
  assumes f: "own fs ''format'' = Some (JStr format)" and row: "SUBJECT_FORMAT_BY_NAME format = Some row"
  shows "validateSubject (JObj fs) path = Some [] \<longleftrightarrow>
    set (map fst fs) = insert ''format'' (set (sf_members row)) \<and>
    (if format = ''aliases'' then
       (\<exists>xs. own fs ''identifiers'' = Some (JArr xs) \<and> xs \<noteq> [] \<and>
          (\<forall>(i, x)\<in>set (zip [0..<length xs] xs).
             (\<nexists>inner. x = JObj inner \<and> own inner ''format'' = Some (JStr ''aliases'')) \<and>
             validateSubject x (indexed path ''.identifiers'' i) = Some []))
     else if format = ''ip-addresses'' then validateIpAddresses fs path = []
     else value_errors row fs path = [])"
proof -
  have n: "format \<noteq> []" "format \<noteq> ''complex''" using known_not_complex [OF row] by simp_all
  have m: "member_errors row fs path = [] \<longleftrightarrow> set (map fst fs) = insert ''format'' (set (sf_members row))"
    by (rule member_errors_Nil [OF row f])
  show ?thesis
  proof (cases "format = ''aliases''")
    case False
    then show ?thesis
      by (subst validateSubject.simps) (simp add: f row n m)
  next
    case True
    have e: "(case x of
                JObj inner \<Rightarrow> if own inner ''format'' = Some (JStr ''aliases'') then Some [(p, NestedAliases)] else validateSubject x p
              | _ \<Rightarrow> validateSubject x p) = Some []
        \<longleftrightarrow> (\<nexists>inner. x = JObj inner \<and> own inner ''format'' = Some (JStr ''aliases'')) \<and> validateSubject x p = Some []" for x p
      by (cases x) simp_all
    show ?thesis
    proof (cases "\<exists>xs. own fs ''identifiers'' = Some (JArr xs) \<and> xs \<noteq> []")
      case False
      then show ?thesis
        using f row m unfolding True
        by (subst validateSubject.simps) (simp split: option.split json.split)
    next
      case nonempty: True
      then obtain xs where xs: "own fs ''identifiers'' = Some (JArr xs)" "xs \<noteq> []" by blast
      show ?thesis
        using f row m xs unfolding True
        by (subst validateSubject.simps) (simp add: all_errors_Nil split_beta e del: validateSubject.simps)
    qed
  qed
qed

subsection \<open>The validator accepts the grammar\<close>

lemma ip_format_known: "\<exists>row. SUBJECT_FORMAT_BY_NAME ''ip-addresses'' = Some row"
  by (simp add: SUBJECT_FORMAT_BY_NAME_def SUBJECT_FORMATS_def)

lemma plain_simple:
  assumes f: "own fs ''format'' = Some (JStr format)" and row: "SUBJECT_FORMAT_BY_NAME format = Some row"
    and plain: "format \<notin> {''aliases'', ''ip-addresses''}"
  shows "validateSubject (JObj fs) path = Some [] \<longleftrightarrow> simple_subject (JObj fs)"
proof -
  have "simple_subject (JObj fs) \<longleftrightarrow> set (map fst fs) = insert ''format'' (set (sf_members row))
      \<and> (\<forall>nm\<in>set (sf_members row). value_ok format nm (the (own fs nm)))"
    using f row plain by (simp add: simple_subject_object)
  moreover have "set (map fst fs) = insert ''format'' (set (sf_members row)) \<Longrightarrow>
      value_errors row fs path = [] \<longleftrightarrow> (\<forall>nm\<in>set (sf_members row). value_ok format nm (the (own fs nm)))"
    using value_errors_Nil [of row fs path] own_None_iff [of fs] formats_required [OF row] by blast
  ultimately show ?thesis using validate_known [OF f row, of path] plain by auto
qed

lemma addresses_simple:
  assumes f: "own fs ''format'' = Some (JStr ''ip-addresses'')"
  shows "validateSubject (JObj fs) path = Some [] \<longleftrightarrow> simple_subject (JObj fs)"
proof -
  obtain row where row: "SUBJECT_FORMAT_BY_NAME ''ip-addresses'' = Some row" using ip_format_known by blast
  have "simple_subject (JObj fs) \<longleftrightarrow> set (map fst fs) = {''format'', ''ip-addresses''}
      \<and> (\<exists>xs. own fs ''ip-addresses'' = Some (JArr xs) \<and> xs \<noteq> [] \<and> (\<forall>x\<in>set xs. address_ok x))"
    using f by (simp add: simple_subject_object)
  moreover have "set (map fst fs) = {''format'', ''ip-addresses''} \<Longrightarrow> own fs ''ip-addresses'' \<noteq> None"
    by (simp add: own_None_iff)
  ultimately show ?thesis
    using validate_known [OF f row, of path] special_members(2) [OF row] addresses_Nil [of fs path] by auto
qed

text \<open>C27: The validator finds nothing wrong with a simple subject identifier exactly if it conforms to the
  grammar: a format of the registry, exactly the members of that format, each value of its shape, and aliases
  that hold at least one identifier and none of aliases.\<close>

theorem validator_accepts_exactly:
  "validateSubject v path = Some [] \<longleftrightarrow> simple_subject v"
proof (induction v arbitrary: path rule: measure_induct_rule [of size])
  case (less v)
  show ?case
  proof (cases "\<exists>fs format row. v = JObj fs \<and> own fs ''format'' = Some (JStr format) \<and> SUBJECT_FORMAT_BY_NAME format = Some row")
    case False
    then show ?thesis using known_format_or_bad [OF False] by blast
  next
    case True
    then obtain fs format row where v: "v = JObj fs" and f: "own fs ''format'' = Some (JStr format)"
      and row: "SUBJECT_FORMAT_BY_NAME format = Some row" by blast
    show ?thesis
    proof (cases "format = ''aliases''")
      case False
      then show ?thesis using plain_simple [OF f row] addresses_simple f v by (cases "format = ''ip-addresses''") auto
    next
      case True
      have IH: "validateSubject x p = Some [] \<longleftrightarrow> simple_subject x"
        if "own fs ''identifiers'' = Some (JArr xs)" and "x \<in> set xs" for xs x p
        using less size_element [OF that(2)] size_field [OF that(1)] v by simp
      have "(\<forall>(i, x)\<in>set (zip [0..<length xs] xs). Q x \<and> validateSubject x (indexed path ''.identifiers'' i) = Some [])
          \<longleftrightarrow> (\<forall>x\<in>set xs. Q x \<and> simple_subject x)" if xs: "own fs ''identifiers'' = Some (JArr xs)" for xs Q
      proof -
        have each: "validateSubject b q = Some [] \<longleftrightarrow> simple_subject b" if "(a, b) \<in> set (zip [0..<length xs] xs)" for a b q
          using IH [OF xs set_zip_rightD [OF that]] .
        have "(\<forall>(i, x)\<in>set (zip [0..<length xs] xs). Q x \<and> validateSubject x (indexed path ''.identifiers'' i) = Some [])
            \<longleftrightarrow> (\<forall>p\<in>set (zip [0..<length xs] xs). Q (snd p) \<and> simple_subject (snd p))"
          by (rule ball_cong [OF refl]) (use each in auto)
        then show ?thesis by (rule trans) (rule zip_upt_ball)
      qed
      then show ?thesis
        using f validate_known [OF f row, of path] special_members(1) row
        unfolding v True simple_subject_object by auto
    qed
  qed
qed

lemma email_simple:
  "simple_subject (JObj [(''format'', JStr ''email''), (''email'', JStr s)]) \<longleftrightarrow> ADDR_SPEC s"
proof -
  have "SUBJECT_FORMAT_BY_NAME ''email'' = Some \<lparr>sf_format = ''email'', sf_members = [''email''], sf_required = [''email'']\<rparr>"
    by (simp add: SUBJECT_FORMAT_BY_NAME_def SUBJECT_FORMATS_def)
  moreover have "ADDR_SPEC s \<Longrightarrow> s \<noteq> []" by (auto simp: ADDR_SPEC_def)
  ultimately show ?thesis
    by (auto simp: simple_subject_object value_ok_def SUBJECT_VALUE_RULES_def)
qed

subsection \<open>Where the validator throws\<close>

inductive throws :: "json \<Rightarrow> bool" where
  Here: "own fs ''format'' = Some (JStr f) \<Longrightarrow> f \<in> set inherited_names \<Longrightarrow> throws (JObj fs)"
| InAlias: "own fs ''format'' = Some (JStr ''aliases'') \<Longrightarrow> own fs ''identifiers'' = Some (JArr xs) \<Longrightarrow> x \<in> set xs
    \<Longrightarrow> (\<nexists>inner. x = JObj inner \<and> own inner ''format'' = Some (JStr ''aliases'')) \<Longrightarrow> throws x \<Longrightarrow> throws (JObj fs)"

inductive_simps throws_object: "throws (JObj fs)"

inductive_cases throwsE: "throws v"

lemma both_None: "both a b = None \<longleftrightarrow> a = None \<or> b = None"
  by (cases a; cases b) (auto simp: both_def)

lemma all_errors_None: "all_errors (map f xs) = None \<longleftrightarrow> (\<exists>x\<in>set xs. f x = None)"
  unfolding all_errors_def by (induction xs) (auto simp: both_None)

lemma aliases_known: "\<exists>row. SUBJECT_FORMAT_BY_NAME ''aliases'' = Some row" "''aliases'' \<notin> set inherited_names"
  by (simp_all add: SUBJECT_FORMAT_BY_NAME_def SUBJECT_FORMATS_def inherited_names_def)

lemma inherited_unknown: "f \<in> set inherited_names \<Longrightarrow> SUBJECT_FORMAT_BY_NAME f = None \<and> f \<noteq> [] \<and> f \<noteq> ''complex''"
proof -
  have "list_all (\<lambda>f. SUBJECT_FORMAT_BY_NAME f = None \<and> f \<noteq> [] \<and> f \<noteq> ''complex'') inherited_names" by code_simp
  then show "f \<in> set inherited_names \<Longrightarrow> SUBJECT_FORMAT_BY_NAME f = None \<and> f \<noteq> [] \<and> f \<noteq> ''complex''"
    by (auto simp: list_all_iff)
qed

lemma validate_aliases_None:
  assumes f: "own fs ''format'' = Some (JStr ''aliases'')"
  shows "validateSubject (JObj fs) path = None \<longleftrightarrow>
    (\<exists>xs. own fs ''identifiers'' = Some (JArr xs) \<and>
       (\<exists>(i, x)\<in>set (zip [0..<length xs] xs).
          (\<nexists>inner. x = JObj inner \<and> own inner ''format'' = Some (JStr ''aliases'')) \<and>
          validateSubject x (indexed path ''.identifiers'' i) = None))"
proof -
  obtain row where row: "SUBJECT_FORMAT_BY_NAME ''aliases'' = Some row" using aliases_known(1) by blast
  have e: "(case x of
              JObj inner \<Rightarrow> if own inner ''format'' = Some (JStr ''aliases'') then Some [(p, NestedAliases)] else validateSubject x p
            | _ \<Rightarrow> validateSubject x p) = None
      \<longleftrightarrow> (\<nexists>inner. x = JObj inner \<and> own inner ''format'' = Some (JStr ''aliases'')) \<and> validateSubject x p = None" for x p
    by (cases x) simp_all
  show ?thesis
  proof (cases "\<exists>xs. own fs ''identifiers'' = Some (JArr xs)")
    case False
    then show ?thesis
      using f row by (subst validateSubject.simps) (simp add: both_None split: option.split json.split)
  next
    case True
    then obtain xs where xs: "own fs ''identifiers'' = Some (JArr xs)" by blast
    show ?thesis
      using f row xs by (subst validateSubject.simps) (simp add: both_None all_errors_None split_beta e)
  qed
qed

lemma validate_other_None:
  assumes "own fs ''format'' \<noteq> Some (JStr ''aliases'')"
  shows "validateSubject (JObj fs) path = None \<longleftrightarrow> (\<exists>f. own fs ''format'' = Some (JStr f) \<and> f \<in> set inherited_names)"
proof (cases "\<exists>f. own fs ''format'' = Some (JStr f)")
  case False
  then show ?thesis by (subst validateSubject.simps) (simp split: option.split json.split)
next
  case True
  then obtain f where f: "own fs ''format'' = Some (JStr f)" by blast
  then have "f \<noteq> ''aliases''" using assms by simp
  then show ?thesis
    using f inherited_unknown [of f] by (subst validateSubject.simps) (auto simp: both_def split: option.split)
qed

lemma throws_other:
  assumes "own fs ''format'' \<noteq> Some (JStr ''aliases'')"
  shows "throws (JObj fs) \<longleftrightarrow> (\<exists>f. own fs ''format'' = Some (JStr f) \<and> f \<in> set inherited_names)"
  using assms by (simp add: throws_object)

lemma throws_aliases:
  assumes "own fs ''format'' = Some (JStr ''aliases'')"
  shows "throws (JObj fs) \<longleftrightarrow> (\<exists>xs. own fs ''identifiers'' = Some (JArr xs) \<and>
      (\<exists>x\<in>set xs. (\<nexists>inner. x = JObj inner \<and> own inner ''format'' = Some (JStr ''aliases'')) \<and> throws x))"
  using assms aliases_known(2) unfolding throws_object by auto

text \<open>C28: The validator throws, instead of reporting an unknown format, exactly if the format of the subject, or of an
  identifier among its aliases, is a name that every JavaScript object inherits, like \<open>toString\<close>.\<close>

theorem validator_throws_exactly:
  "validateSubject v path = None \<longleftrightarrow> throws v"
proof (induction v arbitrary: path rule: measure_induct_rule [of size])
  case (less v)
  show ?case
  proof (cases "\<exists>fs. v = JObj fs")
    case False
    then show ?thesis by (subst validateSubject.simps) (auto elim: throwsE split: json.split)
  next
    case True
    then obtain fs where v: "v = JObj fs" by blast
    show ?thesis
    proof (cases "own fs ''format'' = Some (JStr ''aliases'')")
      case False
      then show ?thesis by (simp add: v throws_other validate_other_None)
    next
      case f: True
      let ?ok = "\<lambda>x. \<nexists>inner. x = JObj inner \<and> own inner ''format'' = Some (JStr ''aliases'')"
      have "(\<exists>(i, x)\<in>set (zip [0..<length xs] xs). ?ok x \<and> validateSubject x (indexed path ''.identifiers'' i) = None)
          \<longleftrightarrow> (\<exists>x\<in>set xs. ?ok x \<and> throws x)" if xs: "own fs ''identifiers'' = Some (JArr xs)" for xs
      proof -
        have each: "validateSubject b q = None \<longleftrightarrow> throws b" if "(a, b) \<in> set (zip [0..<length xs] xs)" for a b q
          using less size_element [OF set_zip_rightD [OF that]] size_field [OF xs] v by simp
        have "(\<exists>(i, x)\<in>set (zip [0..<length xs] xs). ?ok x \<and> validateSubject x (indexed path ''.identifiers'' i) = None)
            \<longleftrightarrow> (\<exists>p\<in>set (zip [0..<length xs] xs). ?ok (snd p) \<and> throws (snd p))"
          by (rule bex_cong [OF refl]) (use each in auto)
        also have "\<dots> \<longleftrightarrow> (\<exists>x\<in>set xs. ?ok x \<and> throws x)"
          using zip_upt_ball [of xs "\<lambda>x. \<not> (?ok x \<and> throws x)"] by blast
        finally show ?thesis .
      qed
      then show ?thesis
        unfolding v validate_aliases_None [OF f] throws_aliases [OF f] by blast
    qed
  qed
qed

lemma throws_example: "throws (JObj [(''format'', JStr ''toString'')])"
  by (simp add: throws_object inherited_names_def)

subsection \<open>Complex subjects\<close>

definition complex_members :: "fields \<Rightarrow> fields" where
  "complex_members fs = filter (\<lambda>(nm, _). nm \<noteq> ''format'') fs"

definition subject_ok :: "json \<Rightarrow> string list \<Rightarrow> bool" where
  "subject_ok v critical \<longleftrightarrow> map_option sv_ok (validateSubjectId v critical ''sub_id'') = Some True"

lemma option_ok:
  "map_option sv_ok (map_option (\<lambda>es. \<lparr>sv_ok = (es = []), sv_complex = c, sv_format = f, sv_errors = es\<rparr>) r) = Some True
     \<longleftrightarrow> r = Some []"
  by (cases r) simp_all

lemma complex_accepts_exactly:
  assumes "own fs ''format'' = Some (JStr ''complex'')"
  shows "subject_ok (JObj fs) critical \<longleftrightarrow>
    complex_members fs \<noteq> [] \<and> (\<forall>(nm, x)\<in>set (complex_members fs). simple_subject x) \<and> (\<forall>nm\<in>set critical. own fs nm \<noteq> None)"
proof -
  have missing: "concat (map (\<lambda>nm. if own fs nm = None then [(p, CriticalMissing nm)] else []) critical) = []
      \<longleftrightarrow> (\<forall>nm\<in>set critical. own fs nm \<noteq> None)" for p :: string
    unfolding concat_eq_Nil_conv set_map ball_simps by simp
  have "subject_ok (JObj fs) critical \<longleftrightarrow>
      both (both (Some (if complex_members fs = [] then [(''sub_id'', NoMembers)] else []))
        (all_errors (map (\<lambda>(nm, x). validateSubject x (''sub_id'' @ ''.'' @ nm)) (complex_members fs))))
        (Some (concat (map (\<lambda>nm. if own fs nm = None then [(''sub_id'', CriticalMissing nm)] else []) critical))) = Some []"
    using assms by (simp add: subject_ok_def validateSubjectId_def Let_def complex_members_def option_ok
        del: both_Nil map_option_eq_Some option.map_comp)
  also have "\<dots> \<longleftrightarrow> complex_members fs \<noteq> [] \<and> (\<forall>(nm, x)\<in>set (complex_members fs). simple_subject x)
      \<and> (\<forall>nm\<in>set critical. own fs nm \<noteq> None)"
    using missing by (auto simp: all_errors_Nil validator_accepts_exactly)
  finally show ?thesis .
qed

subsection \<open>What the key tells apart\<close>

lemma those_map: "those (map f xs) = (if \<forall>x\<in>set xs. f x \<noteq> None then Some (map (\<lambda>x. the (f x)) xs) else None)"
  by (induction xs) (auto split: option.split)

lemma sort_map_mset: "mset xs = mset ys \<Longrightarrow> sort (map g xs) = sort (map g ys)"
  by (metis mset_map sorted_list_of_multiset_mset)

definition aliases_of :: "json list \<Rightarrow> json" where
  "aliases_of xs = JObj [(''format'', JStr ''aliases''), (''identifiers'', JArr xs)]"

lemma alias_key: "subjectKey (aliases_of xs) =
    map_option (\<lambda>ks. ''aliases['' @ join_with ''|'' (sort ks) @ '']'') (those (map subjectKey xs))"
  unfolding aliases_of_def by (subst subjectKey.simps) simp

lemma alias_order_ignored:
  assumes "mset xs = mset ys"
  shows "subjectKey (aliases_of xs) = subjectKey (aliases_of ys)"
  using assms sort_map_mset [OF assms, of "\<lambda>x. the (subjectKey x)"] mset_eq_setD [OF assms]
  by (simp add: alias_key those_map)

definition jwt_subject :: "string \<Rightarrow> string \<Rightarrow> json" where
  "jwt_subject iss jti = JObj [(''format'', JStr ''jwt_id''), (''iss'', JStr iss), (''jti'', JStr jti)]"

lemma jwt_key: "subjectKey (jwt_subject iss jti) = Some (''jwt_id{iss='' @ iss @ '';jti='' @ jti @ ''}'')"
  unfolding jwt_subject_def
  by (subst subjectKey.simps)
    (simp add: simple_key_def format_text_def js_string_of_def SUBJECT_FORMAT_BY_NAME_def SUBJECT_FORMATS_def shown_def)

lemma jwt_simple: "iss \<noteq> [] \<Longrightarrow> jti \<noteq> [] \<Longrightarrow> simple_subject (jwt_subject iss jti)"
proof -
  have "SUBJECT_FORMAT_BY_NAME ''jwt_id'' = Some \<lparr>sf_format = ''jwt_id'', sf_members = [''iss'', ''jti''], sf_required = [''iss'', ''jti'']\<rparr>"
    by (simp add: SUBJECT_FORMAT_BY_NAME_def SUBJECT_FORMATS_def)
  then show "iss \<noteq> [] \<Longrightarrow> jti \<noteq> [] \<Longrightarrow> simple_subject (jwt_subject iss jti)"
    by (simp add: jwt_subject_def simple_subject_object value_ok_def SUBJECT_VALUE_RULES_def)
qed

text \<open>The key that is to tell subjects apart does not: the separators occur in values, so for any issuer and any two
  strings, the two tokens that divide the text at different places are different conforming subjects with one key.\<close>

theorem subject_keys_collide:
  assumes "iss \<noteq> []" and "jti \<noteq> []"
  shows "simple_subject (jwt_subject (iss @ '';jti='' @ x) jti) \<and> simple_subject (jwt_subject iss (x @ '';jti='' @ jti))
    \<and> jwt_subject (iss @ '';jti='' @ x) jti \<noteq> jwt_subject iss (x @ '';jti='' @ jti)
    \<and> subjectKey (jwt_subject (iss @ '';jti='' @ x) jti) = subjectKey (jwt_subject iss (x @ '';jti='' @ jti))"
  using assms by (simp add: jwt_key jwt_simple) (simp add: jwt_subject_def)

lemma subject_keys_collide_witness:
  "subjectKey (jwt_subject ''a;jti=b'' ''c'') = subjectKey (jwt_subject ''a'' ''b;jti=c'')"
  using subject_keys_collide [of "''a''" "''c''" "''b''"] by simp

end
