(* ===== verification/Ssf_Events.thy ===== *)
theory Ssf_Events
  imports Js_Values
begin

text \<open>
  The event catalogue of the Shared Signals workflow (\<open>client/src/ssf_events.js\<close>): the two event types of the framework,
  the eight of CAEP and the fourteen of RISC, each with its members and its payload generator, the check
  of a payload against its row, and the check of a subject's format.

  The prose of a row, which only the page shows, is not part of the model; a sentence of the source's findings is
  a constructor of \<open>finding\<close>.
\<close>

subsection \<open>Rows\<close>

datatype member_type = MString | MNumber | MStrings | MObject | MLangmap | MEnum | MOpenenum

record event_member =
  em_name :: string
  em_required :: bool
  em_type :: member_type
  em_values :: "string list"

record event_row =
  er_uri :: string
  er_family :: string
  er_name :: string
  er_subject :: string
  er_subjectFormats :: "string list option"
  er_deprecated :: string
  er_members :: "event_member list"
  er_generate :: "fields \<Rightarrow> fields"

abbreviation member :: "string \<Rightarrow> bool \<Rightarrow> member_type \<Rightarrow> string list \<Rightarrow> event_member" where
  "member nm req ty vals \<equiv> \<lparr>em_name = nm, em_required = req, em_type = ty, em_values = vals\<rparr>"

definition SSF_PREFIX :: string where
  "SSF_PREFIX = ''https://schemas.openid.net/secevent/ssf/event-type/''"

definition CAEP_PREFIX :: string where
  "CAEP_PREFIX = ''https://schemas.openid.net/secevent/caep/event-type/''"

definition RISC_PREFIX :: string where
  "RISC_PREFIX = ''https://schemas.openid.net/secevent/risc/event-type/''"

text \<open>The ways the generators copy a value: a non-empty string, one of a list, or a string with a default.\<close>

definition text_member :: "fields \<Rightarrow> string \<Rightarrow> fields" where
  "text_member asked nm =
     (case own asked nm of Some (JStr s) \<Rightarrow> if s \<noteq> [] then [(nm, JStr s)] else [] | _ \<Rightarrow> [])"

definition listed_member :: "fields \<Rightarrow> string \<Rightarrow> string list \<Rightarrow> fields" where
  "listed_member asked nm vals =
     (case own asked nm of Some (JStr s) \<Rightarrow> if s \<in> set vals then [(nm, JStr s)] else [] | _ \<Rightarrow> [])"

definition one_of :: "fields \<Rightarrow> string \<Rightarrow> string list \<Rightarrow> string \<Rightarrow> json" where
  "one_of asked nm vals d =
     (case own asked nm of Some (JStr s) \<Rightarrow> if s \<in> set vals then JStr s else JStr d | _ \<Rightarrow> JStr d)"

definition text_or :: "fields \<Rightarrow> string \<Rightarrow> string \<Rightarrow> json" where
  "text_or asked nm d =
     (case own asked nm of Some (JStr s) \<Rightarrow> if s \<noteq> [] then JStr s else JStr d | _ \<Rightarrow> JStr d)"

subsection \<open>The framework\<close>

definition generate_verification :: "fields \<Rightarrow> fields" where
  "generate_verification asked =
     text_member asked ''state''"

definition row_verification :: event_row where
  "row_verification =
     \<lparr>er_uri = SSF_PREFIX @ ''verification'', er_family = ''ssf'', er_name = ''Verification'', er_subject = ''none'',
      er_subjectFormats = None, er_deprecated = [],
      er_members = [member ''state'' False MString []],
      er_generate = generate_verification\<rparr>"

definition generate_stream_updated :: "fields \<Rightarrow> fields" where
  "generate_stream_updated asked =
     (''status'', one_of asked ''status'' [''enabled'', ''paused'', ''disabled''] ''enabled'') # text_member asked ''reason''"

definition row_stream_updated :: event_row where
  "row_stream_updated =
     \<lparr>er_uri = SSF_PREFIX @ ''stream-updated'', er_family = ''ssf'', er_name = ''Stream Updated'', er_subject = ''none'',
      er_subjectFormats = None, er_deprecated = [],
      er_members = [member ''status'' True MEnum [''enabled'', ''paused'', ''disabled''],
         member ''reason'' False MString []],
      er_generate = generate_stream_updated\<rparr>"

definition SSF_EVENTS :: "event_row list" where
  "SSF_EVENTS =
     [row_verification,
      row_stream_updated]"

subsection \<open>CAEP\<close>

definition CAEP_COMMON_MEMBERS :: "event_member list" where
  "CAEP_COMMON_MEMBERS =
     [member ''event_timestamp'' False MNumber [],
      member ''initiating_entity'' False MEnum [''admin'', ''user'', ''policy'', ''system''],
      member ''reason_admin'' False MLangmap [],
      member ''reason_user'' False MLangmap []]"

definition withCommonMembers :: "event_member list \<Rightarrow> event_member list" where
  "withCommonMembers members = members @ CAEP_COMMON_MEMBERS"

definition CREDENTIAL_TYPES :: "string list" where
  "CREDENTIAL_TYPES =
     [''password'', ''pin'', ''x509'', ''fido2-platform'', ''fido2-roaming'', ''fido-u2f'', ''verifiable-credential'',
      ''phone-voice'', ''phone-sms'', ''app'']"

definition row_session_revoked :: event_row where
  "row_session_revoked =
     \<lparr>er_uri = CAEP_PREFIX @ ''session-revoked'', er_family = ''caep'', er_name = ''Session Revoked'', er_subject = ''required'',
      er_subjectFormats = None, er_deprecated = [],
      er_members = withCommonMembers [],
      er_generate = (\<lambda>asked. [])\<rparr>"

definition generate_session_established :: "fields \<Rightarrow> fields" where
  "generate_session_established asked =
     text_member asked ''fp_ua'' @ text_member asked ''acr'' @
     (case own asked ''amr'' of Some (JArr xs) \<Rightarrow> if xs \<noteq> [] then [(''amr'', JArr xs)] else [] | _ \<Rightarrow> []) @
     text_member asked ''ext_id''"

definition row_session_established :: event_row where
  "row_session_established =
     \<lparr>er_uri = CAEP_PREFIX @ ''session-established'', er_family = ''caep'', er_name = ''Session Established'', er_subject = ''required'',
      er_subjectFormats = None, er_deprecated = [],
      er_members = withCommonMembers
        [member ''fp_ua'' False MString [],
         member ''acr'' False MString [],
         member ''amr'' False MStrings [],
         member ''ext_id'' False MString []],
      er_generate = generate_session_established\<rparr>"

definition generate_session_presented :: "fields \<Rightarrow> fields" where
  "generate_session_presented asked =
     text_member asked ''fp_ua'' @ text_member asked ''ext_id''"

definition row_session_presented :: event_row where
  "row_session_presented =
     \<lparr>er_uri = CAEP_PREFIX @ ''session-presented'', er_family = ''caep'', er_name = ''Session Presented'', er_subject = ''required'',
      er_subjectFormats = None, er_deprecated = [],
      er_members = withCommonMembers
        [member ''fp_ua'' False MString [],
         member ''ext_id'' False MString []],
      er_generate = generate_session_presented\<rparr>"

definition generate_token_claims_change :: "fields \<Rightarrow> fields" where
  "generate_token_claims_change asked =
     [(''claims'', case own asked ''claims'' of Some (JObj fs) \<Rightarrow> JObj fs | _ \<Rightarrow> JObj [(''groups'', JArr [JStr ''everyone''])])]"

definition row_token_claims_change :: event_row where
  "row_token_claims_change =
     \<lparr>er_uri = CAEP_PREFIX @ ''token-claims-change'', er_family = ''caep'', er_name = ''Token Claims Change'', er_subject = ''required'',
      er_subjectFormats = None, er_deprecated = [],
      er_members = withCommonMembers [member ''claims'' True MObject []],
      er_generate = generate_token_claims_change\<rparr>"

definition generate_credential_change :: "fields \<Rightarrow> fields" where
  "generate_credential_change asked =
     [(''credential_type'', text_or asked ''credential_type'' ''password''),
      (''change_type'', one_of asked ''change_type'' [''create'', ''revoke'', ''update'', ''delete''] ''update'')] @
     concat (map (text_member asked) [''friendly_name'', ''x509_issuer'', ''x509_serial'', ''fido2_aaguid''])"

definition row_credential_change :: event_row where
  "row_credential_change =
     \<lparr>er_uri = CAEP_PREFIX @ ''credential-change'', er_family = ''caep'', er_name = ''Credential Change'', er_subject = ''required'',
      er_subjectFormats = None, er_deprecated = [],
      er_members = withCommonMembers
        [member ''credential_type'' True MOpenenum CREDENTIAL_TYPES,
         member ''change_type'' True MEnum [''create'', ''revoke'', ''update'', ''delete''],
         member ''friendly_name'' False MString [],
         member ''x509_issuer'' False MString [],
         member ''x509_serial'' False MString [],
         member ''fido2_aaguid'' False MString []],
      er_generate = generate_credential_change\<rparr>"

definition generate_assurance_level_change :: "fields \<Rightarrow> fields" where
  "generate_assurance_level_change asked =
     [(''namespace'', text_or asked ''namespace'' ''NIST-AAL''), (''current_level'', text_or asked ''current_level'' ''aal2'')] @
     text_member asked ''previous_level'' @ listed_member asked ''change_direction'' [''increase'', ''decrease'']"

definition row_assurance_level_change :: event_row where
  "row_assurance_level_change =
     \<lparr>er_uri = CAEP_PREFIX @ ''assurance-level-change'', er_family = ''caep'', er_name = ''Assurance Level Change'', er_subject = ''required'',
      er_subjectFormats = None, er_deprecated = [],
      er_members = withCommonMembers
        [member ''namespace'' True MOpenenum [''RFC8176'', ''RFC6711'', ''ISO-IEC-29115'', ''NIST-IAL'', ''NIST-AAL'', ''NIST-FAL''],
         member ''current_level'' True MString [],
         member ''previous_level'' False MString [],
         member ''change_direction'' False MEnum [''increase'', ''decrease'']],
      er_generate = generate_assurance_level_change\<rparr>"

definition generate_device_compliance_change :: "fields \<Rightarrow> fields" where
  "generate_device_compliance_change asked =
     [(''previous_status'', one_of asked ''previous_status'' [''compliant'', ''not-compliant''] ''compliant''),
      (''current_status'', one_of asked ''current_status'' [''compliant'', ''not-compliant''] ''not-compliant'')]"

definition row_device_compliance_change :: event_row where
  "row_device_compliance_change =
     \<lparr>er_uri = CAEP_PREFIX @ ''device-compliance-change'', er_family = ''caep'', er_name = ''Device Compliance Change'', er_subject = ''required'',
      er_subjectFormats = None, er_deprecated = [],
      er_members = withCommonMembers
        [member ''previous_status'' True MEnum [''compliant'', ''not-compliant''],
         member ''current_status'' True MEnum [''compliant'', ''not-compliant'']],
      er_generate = generate_device_compliance_change\<rparr>"

definition generate_risk_level_change :: "fields \<Rightarrow> fields" where
  "generate_risk_level_change asked =
     [(''principal'', text_or asked ''principal'' ''SESSION''),
      (''current_level'', one_of asked ''current_level'' [''LOW'', ''MEDIUM'', ''HIGH''] ''MEDIUM'')] @
     listed_member asked ''previous_level'' [''LOW'', ''MEDIUM'', ''HIGH''] @ text_member asked ''risk_reason''"

definition row_risk_level_change :: event_row where
  "row_risk_level_change =
     \<lparr>er_uri = CAEP_PREFIX @ ''risk-level-change'', er_family = ''caep'', er_name = ''Risk Level Change'', er_subject = ''required'',
      er_subjectFormats = None, er_deprecated = [],
      er_members = withCommonMembers
        [member ''principal'' True MOpenenum [''USER'', ''DEVICE'', ''SESSION'', ''TENANT'', ''ORG_UNIT'', ''GROUP''],
         member ''current_level'' True MEnum [''LOW'', ''MEDIUM'', ''HIGH''],
         member ''previous_level'' False MEnum [''LOW'', ''MEDIUM'', ''HIGH''],
         member ''risk_reason'' False MString []],
      er_generate = generate_risk_level_change\<rparr>"

definition CAEP_EVENTS :: "event_row list" where
  "CAEP_EVENTS =
     [row_session_revoked,
      row_session_established,
      row_session_presented,
      row_token_claims_change,
      row_credential_change,
      row_assurance_level_change,
      row_device_compliance_change,
      row_risk_level_change]"

subsection \<open>RISC\<close>

definition RISC_COMMON_MEMBERS :: "event_member list" where
  "RISC_COMMON_MEMBERS =
     [member ''event_timestamp'' False MNumber [],
      member ''reason_admin'' False MLangmap [],
      member ''reason_user'' False MLangmap []]"

definition row_account_credential_change_required :: event_row where
  "row_account_credential_change_required =
     \<lparr>er_uri = RISC_PREFIX @ ''account-credential-change-required'', er_family = ''risc'', er_name = ''Account Credential Change Required'', er_subject = ''required'',
      er_subjectFormats = None, er_deprecated = [],
      er_members = [],
      er_generate = (\<lambda>asked. [])\<rparr>"

definition row_account_purged :: event_row where
  "row_account_purged =
     \<lparr>er_uri = RISC_PREFIX @ ''account-purged'', er_family = ''risc'', er_name = ''Account Purged'', er_subject = ''required'',
      er_subjectFormats = None, er_deprecated = [],
      er_members = [],
      er_generate = (\<lambda>asked. [])\<rparr>"

definition generate_account_disabled :: "fields \<Rightarrow> fields" where
  "generate_account_disabled asked =
     text_member asked ''reason''"

definition row_account_disabled :: event_row where
  "row_account_disabled =
     \<lparr>er_uri = RISC_PREFIX @ ''account-disabled'', er_family = ''risc'', er_name = ''Account Disabled'', er_subject = ''required'',
      er_subjectFormats = None, er_deprecated = [],
      er_members = [member ''reason'' False MOpenenum [''hijacking'', ''bulk-account'']],
      er_generate = generate_account_disabled\<rparr>"

definition row_account_enabled :: event_row where
  "row_account_enabled =
     \<lparr>er_uri = RISC_PREFIX @ ''account-enabled'', er_family = ''risc'', er_name = ''Account Enabled'', er_subject = ''required'',
      er_subjectFormats = None, er_deprecated = [],
      er_members = [],
      er_generate = (\<lambda>asked. [])\<rparr>"

definition generate_identifier_changed :: "fields \<Rightarrow> fields" where
  "generate_identifier_changed asked =
     text_member asked ''new-value''"

definition row_identifier_changed :: event_row where
  "row_identifier_changed =
     \<lparr>er_uri = RISC_PREFIX @ ''identifier-changed'', er_family = ''risc'', er_name = ''Identifier Changed'', er_subject = ''required'',
      er_subjectFormats = Some [''email'', ''phone_number''], er_deprecated = [],
      er_members = [member ''new-value'' False MString []],
      er_generate = generate_identifier_changed\<rparr>"

definition row_identifier_recycled :: event_row where
  "row_identifier_recycled =
     \<lparr>er_uri = RISC_PREFIX @ ''identifier-recycled'', er_family = ''risc'', er_name = ''Identifier Recycled'', er_subject = ''required'',
      er_subjectFormats = Some [''email'', ''phone_number''], er_deprecated = [],
      er_members = [],
      er_generate = (\<lambda>asked. [])\<rparr>"

definition generate_credential_compromise :: "fields \<Rightarrow> fields" where
  "generate_credential_compromise asked =
     [(''credential_type'', text_or asked ''credential_type'' ''password'')]"

definition row_credential_compromise :: event_row where
  "row_credential_compromise =
     \<lparr>er_uri = RISC_PREFIX @ ''credential-compromise'', er_family = ''risc'', er_name = ''Credential Compromise'', er_subject = ''required'',
      er_subjectFormats = None, er_deprecated = [],
      er_members = member ''credential_type'' True MOpenenum CREDENTIAL_TYPES # RISC_COMMON_MEMBERS,
      er_generate = generate_credential_compromise\<rparr>"

definition row_opt_in :: event_row where
  "row_opt_in =
     \<lparr>er_uri = RISC_PREFIX @ ''opt-in'', er_family = ''risc'', er_name = ''Opt In'', er_subject = ''required'',
      er_subjectFormats = None, er_deprecated = [],
      er_members = [],
      er_generate = (\<lambda>asked. [])\<rparr>"

definition row_opt_out_initiated :: event_row where
  "row_opt_out_initiated =
     \<lparr>er_uri = RISC_PREFIX @ ''opt-out-initiated'', er_family = ''risc'', er_name = ''Opt Out Initiated'', er_subject = ''required'',
      er_subjectFormats = None, er_deprecated = [],
      er_members = [],
      er_generate = (\<lambda>asked. [])\<rparr>"

definition row_opt_out_cancelled :: event_row where
  "row_opt_out_cancelled =
     \<lparr>er_uri = RISC_PREFIX @ ''opt-out-cancelled'', er_family = ''risc'', er_name = ''Opt Out Cancelled'', er_subject = ''required'',
      er_subjectFormats = None, er_deprecated = [],
      er_members = [],
      er_generate = (\<lambda>asked. [])\<rparr>"

definition row_opt_out_effective :: event_row where
  "row_opt_out_effective =
     \<lparr>er_uri = RISC_PREFIX @ ''opt-out-effective'', er_family = ''risc'', er_name = ''Opt Out Effective'', er_subject = ''required'',
      er_subjectFormats = None, er_deprecated = [],
      er_members = [],
      er_generate = (\<lambda>asked. [])\<rparr>"

definition row_recovery_activated :: event_row where
  "row_recovery_activated =
     \<lparr>er_uri = RISC_PREFIX @ ''recovery-activated'', er_family = ''risc'', er_name = ''Recovery Activated'', er_subject = ''required'',
      er_subjectFormats = None, er_deprecated = [],
      er_members = [],
      er_generate = (\<lambda>asked. [])\<rparr>"

definition row_recovery_information_changed :: event_row where
  "row_recovery_information_changed =
     \<lparr>er_uri = RISC_PREFIX @ ''recovery-information-changed'', er_family = ''risc'', er_name = ''Recovery Information Changed'', er_subject = ''required'',
      er_subjectFormats = None, er_deprecated = [],
      er_members = [],
      er_generate = (\<lambda>asked. [])\<rparr>"

definition row_sessions_revoked :: event_row where
  "row_sessions_revoked =
     \<lparr>er_uri = RISC_PREFIX @ ''sessions-revoked'', er_family = ''risc'', er_name = ''Sessions Revoked'', er_subject = ''required'',
      er_subjectFormats = None, er_deprecated = CAEP_PREFIX @ ''session-revoked'',
      er_members = [],
      er_generate = (\<lambda>asked. [])\<rparr>"

definition RISC_EVENTS :: "event_row list" where
  "RISC_EVENTS =
     [row_account_credential_change_required,
      row_account_purged,
      row_account_disabled,
      row_account_enabled,
      row_identifier_changed,
      row_identifier_recycled,
      row_credential_compromise,
      row_opt_in,
      row_opt_out_initiated,
      row_opt_out_cancelled,
      row_opt_out_effective,
      row_recovery_activated,
      row_recovery_information_changed,
      row_sessions_revoked]"

definition EVENTS :: "event_row list" where
  "EVENTS = SSF_EVENTS @ CAEP_EVENTS @ RISC_EVENTS"

definition EVENT_BY_URI :: "string \<Rightarrow> event_row option" where
  "EVENT_BY_URI uri = find (\<lambda>row. er_uri row = uri) EVENTS"

definition eventsForFamily :: "string \<Rightarrow> event_row list" where
  "eventsForFamily family = filter (\<lambda>row. er_family row = family) EVENTS"

definition FAMILIES :: "(string \<times> string) list" where
  "FAMILIES = [(''ssf'', SSF_PREFIX), (''caep'', CAEP_PREFIX), (''risc'', RISC_PREFIX)]"

definition PROFILES :: "(string \<times> string) list" where
  "PROFILES = [(''ssf'', ''ssf''), (''caep'', ''caep''), (''risc'', ''risc'')]"

text \<open>The chosen profile, as its identifier and its family.  The lookup table inherits, and what it inherits is not a
  row: \<open>None\<close>.\<close>

definition profileOf :: "string \<Rightarrow> (string \<times> string) option" where
  "profileOf i =
     (case find (\<lambda>(p, _). p = i) PROFILES of
        Some row \<Rightarrow> Some row
      | None \<Rightarrow> if i \<in> set inherited_names then None else Some (''ssf'', ''ssf''))"

definition starts_with :: "string \<Rightarrow> string \<Rightarrow> bool" where
  "starts_with prefix s \<longleftrightarrow> take (length prefix) s = prefix"

definition familyOf :: "string \<Rightarrow> string" where
  "familyOf uri = (case find (\<lambda>(i, prefix). starts_with prefix uri) FAMILIES of Some (i, _) \<Rightarrow> i | None \<Rightarrow> [])"

definition generateEvent :: "string \<Rightarrow> fields \<Rightarrow> fields" where
  "generateEvent uri values =
     (case EVENT_BY_URI uri of None \<Rightarrow> [] | Some row \<Rightarrow> er_generate row values)"

subsection \<open>Checking a payload\<close>

datatype finding =
    NotAString string
  | NotANumber string
  | NotStrings string
  | NotAnObject string
  | NotALanguageMap string
  | LanguageTextNotString string string
  | OddLanguageTag string
  | NotListed string
  | NotInOpenList string string
  | UnknownEventType string
  | PayloadNotObject string
  | DeprecatedFor string string
  | MemberMissing string string
  | UndefinedMember string string
  | WantsIdentifier string
  | WrongSubjectFormat string string

definition is_alpha :: "char \<Rightarrow> bool" where
  "is_alpha c \<longleftrightarrow> is_lower c \<or> is_upper c"

text \<open>\<open>/^[A-Za-z]{2,8}(-[A-Za-z0-9]{1,8})*$/\<close>\<close>

definition language_tag :: "string \<Rightarrow> bool" where
  "language_tag tag \<longleftrightarrow>
     (case split_on (CHR ''-'') tag of
        [] \<Rightarrow> False
      | p # ps \<Rightarrow> list_all is_alpha p \<and> 2 \<le> length p \<and> length p \<le> 8 \<and>
          list_all (\<lambda>q. list_all (\<lambda>c. is_alpha c \<or> is_digit c) q \<and> 1 \<le> length q \<and> length q \<le> 8) ps)"

text \<open>Errors and warnings, in the order the source pushes them.\<close>

type_synonym verdict_lists = "finding list \<times> finding list"

definition checkMember :: "event_member \<Rightarrow> json \<Rightarrow> verdict_lists" where
  "checkMember m v =
     (case em_type m of
        MString \<Rightarrow> (if is_string (Some v) then [] else [NotAString (em_name m)], [])
      | MNumber \<Rightarrow> (if is_number (Some v) then [] else [NotANumber (em_name m)], [])
      | MStrings \<Rightarrow>
          (case v of
             JArr xs \<Rightarrow> (if list_all (\<lambda>x. is_string (Some x)) xs then [] else [NotStrings (em_name m)], [])
           | _ \<Rightarrow> ([NotStrings (em_name m)], []))
      | MObject \<Rightarrow> (if is_plain_object (Some v) then [] else [NotAnObject (em_name m)], [])
      | MLangmap \<Rightarrow>
          (case v of
             JObj fs \<Rightarrow>
               (concat (map (\<lambda>(tag, x). if is_string (Some x) then [] else [LanguageTextNotString (em_name m) tag]) fs),
                concat (map (\<lambda>(tag, x). if language_tag tag then [] else [OddLanguageTag tag]) fs))
           | _ \<Rightarrow> ([NotALanguageMap (em_name m)], []))
      | MEnum \<Rightarrow> (if \<exists>s\<in>set (em_values m). v = JStr s then [] else [NotListed (em_name m)], [])
      | MOpenenum \<Rightarrow>
          ([], if \<exists>s\<in>set (em_values m). v = JStr s then [] else [NotInOpenList (em_name m) (js_String v)]))"

definition flat_name :: "string \<Rightarrow> string" where
  "flat_name nm = map (\<lambda>c. if c = CHR ''-'' then CHR ''_'' else c) nm"

definition nearestMember :: "string \<Rightarrow> event_member list \<Rightarrow> string" where
  "nearestMember nm members =
     (case find (\<lambda>m. em_name m \<noteq> nm \<and> flat_name (em_name m) = flat_name nm) members of
        Some m \<Rightarrow> em_name m | None \<Rightarrow> [])"

text \<open>One member of the payload.  The table of known members inherits like every object, so an inherited name is
  taken for a known member without a type, and nothing is said about it.\<close>

definition check_property :: "string \<Rightarrow> event_member list \<Rightarrow> string \<times> json \<Rightarrow> verdict_lists" where
  "check_property uri members = (\<lambda>(nm, v).
     case find (\<lambda>m. em_name m = nm) members of
       Some m \<Rightarrow> checkMember m v
     | None \<Rightarrow> if nm \<in> set inherited_names then ([], []) else ([], [UndefinedMember nm (nearestMember nm members)]))"

record verdict =
  vd_ok :: bool
  vd_errors :: "finding list"
  vd_warnings :: "finding list"

definition validateEvent :: "string \<Rightarrow> json option \<Rightarrow> verdict" where
  "validateEvent uri payload =
     (case EVENT_BY_URI uri of
        None \<Rightarrow> \<lparr>vd_ok = False, vd_errors = [UnknownEventType uri], vd_warnings = []\<rparr>
      | Some row \<Rightarrow>
          (case payload of
             Some (JObj body) \<Rightarrow>
               (let deprecated = (if er_deprecated row \<noteq> [] then [DeprecatedFor uri (er_deprecated row)] else []);
                    missing = concat (map (\<lambda>m. if em_required m \<and> own body (em_name m) = None
                                             then [MemberMissing uri (em_name m)] else []) (er_members row));
                    checks = map (check_property uri (er_members row)) body;
                    errors = missing @ concat (map fst checks)
                in \<lparr>vd_ok = (errors = []), vd_errors = errors, vd_warnings = deprecated @ concat (map snd checks)\<rparr>)
           | _ \<Rightarrow> \<lparr>vd_ok = False, vd_errors = [PayloadNotObject uri], vd_warnings = []\<rparr>))"

definition checkSubjectFormat :: "string \<Rightarrow> json option \<Rightarrow> finding list" where
  "checkSubjectFormat uri subject =
     (case EVENT_BY_URI uri of
        None \<Rightarrow> []
      | Some row \<Rightarrow>
          (case er_subjectFormats row of
             None \<Rightarrow> []
           | Some formats \<Rightarrow>
               if \<not> is_object subject then []
               else
                 (let format = js_text (case subject of Some (JObj fs) \<Rightarrow> own fs ''format'' | _ \<Rightarrow> None)
                  in if format = [] \<or> format = ''complex'' then [WantsIdentifier uri]
                     else if format \<in> set formats then [] else [WrongSubjectFormat uri format])))"

record described_event =
  de_uri :: string
  de_name :: string
  de_family :: string
  de_known :: bool
  de_payload :: json
  de_errors :: "finding list"
  de_warnings :: "finding list"

definition describeEvents :: "fields \<Rightarrow> described_event list" where
  "describeEvents events =
     map (\<lambda>(uri, payload).
       case EVENT_BY_URI uri of
         None \<Rightarrow> \<lparr>de_uri = uri, de_name = uri, de_family = familyOf uri, de_known = False, de_payload = payload,
                  de_errors = [], de_warnings = []\<rparr>
       | Some row \<Rightarrow>
           (let v = validateEvent uri (Some payload)
            in \<lparr>de_uri = uri, de_name = er_name row, de_family = er_family row, de_known = True, de_payload = payload,
                de_errors = vd_errors v, de_warnings = vd_warnings v\<rparr>)) events"

end
