(* ===== verification/Simulated_Events.thy ===== *)
theory Simulated_Events
  imports Ssf_Events Bounded_Logs
begin

text \<open>
  What the models of a CAEP session and of a RISC account have in common (\<open>client/src/caep_session.js\<close>,
  \<open>client/src/risc_account.js\<close>): the counters per event type that never forget, and the entries of the log
  that keeps the last forty.  The URI of an event is never one of the names that objects inherit.
\<close>

type_synonym seconds = nat
type_synonym counts = "(string \<times> nat) list"

record 'w sent_event =
  se_at :: seconds
  se_uri :: string
  se_name :: string
  se_jti :: string
  se_outcome :: string
  se_warnings :: "'w list"

definition EVENTS_KEPT :: nat where
  "EVENTS_KEPT = 40"

text \<open>\<open>counts[uri] || 0\<close> and \<open>counts[uri] = (counts[uri] || 0) + 1\<close>.\<close>

definition count_of :: "counts \<Rightarrow> string \<Rightarrow> nat" where
  "count_of cs uri = (case map_of cs uri of Some n \<Rightarrow> n | None \<Rightarrow> 0)"

definition bump :: "string \<Rightarrow> counts \<Rightarrow> counts" where
  "bump uri cs = AList.update uri (count_of cs uri + 1) cs"

text \<open>\<open>(EVENT_BY_URI[uri] || {}).name || uri\<close>\<close>

definition event_name :: "string \<Rightarrow> string" where
  "event_name uri =
     (case EVENT_BY_URI uri of Some row \<Rightarrow> if er_name row \<noteq> [] then er_name row else uri | None \<Rightarrow> uri)"

definition sent_entry :: "seconds \<Rightarrow> string \<Rightarrow> fields \<Rightarrow> 'w list \<Rightarrow> 'w sent_event" where
  "sent_entry now uri detail warnings =
     \<lparr>se_at = now, se_uri = uri, se_name = event_name uri, se_jti = js_text (own detail ''jti''),
      se_outcome = js_text (own detail ''outcome''), se_warnings = warnings\<rparr>"

definition keep_event :: "'w sent_event \<Rightarrow> 'w sent_event list \<Rightarrow> 'w sent_event list" where
  "keep_event e es = take EVENTS_KEPT (e # es)"

text \<open>What of an argument the functions read: the members of an object, none of any other value.\<close>

definition fields_of :: "json option \<Rightarrow> fields" where
  "fields_of v = (case v of Some (JObj fs) \<Rightarrow> fs | _ \<Rightarrow> [])"

text \<open>\<open>x || d\<close>\<close>

definition js_or :: "json option \<Rightarrow> json \<Rightarrow> json" where
  "js_or v d = (if truthy v then the v else d)"

text \<open>\<open>o[k] = v\<close> for a value that is no object; such a value written to \<open>__proto__\<close> is ignored.\<close>

definition set_prop :: "string \<Rightarrow> json \<Rightarrow> fields \<Rightarrow> fields" where
  "set_prop k v fs = (if k = ''__proto__'' then fs else AList.update k v fs)"

text \<open>The three common claims of a payload, added to what the generator built.\<close>

definition add_timestamp :: "seconds \<Rightarrow> fields \<Rightarrow> fields \<Rightarrow> fields" where
  "add_timestamp now options payload =
     (if own options ''eventTimestamp'' = Some (JBool False) then payload
      else AList.update ''event_timestamp''
        (case own options ''eventTimestamp'' of Some (JNum n) \<Rightarrow> JNum n | _ \<Rightarrow> JNum (show_nat now)) payload)"

definition add_reason :: "string \<Rightarrow> string \<Rightarrow> fields \<Rightarrow> fields \<Rightarrow> fields" where
  "add_reason nm opt options payload =
     (if truthy (own options opt)
      then AList.update nm (JObj (set_prop (js_String (js_or (own options ''language'') (JStr ''en'')))
                                    (JStr (js_text (own options opt))) [])) payload
      else payload)"

subsection \<open>Laws\<close>

lemma count_of_Nil [simp]: "count_of [] uri = 0"
  by (simp add: count_of_def)

lemma count_of_bump: "count_of (bump uri cs) u = (if u = uri then Suc (count_of cs u) else count_of cs u)"
  by (simp add: bump_def count_of_def update_conv')

lemma sum_update: "sum_list (map snd (AList.update k (count_of cs k + 1) cs)) = Suc (sum_list (map snd cs))"
  by (induction cs) (auto simp: count_of_def)

lemma sum_bump [simp]: "sum_list (map snd (bump uri cs)) = Suc (sum_list (map snd cs))"
  using sum_update by (simp add: bump_def)

lemma distinct_bump: "distinct (map fst cs) \<Longrightarrow> distinct (map fst (bump uri cs))"
  by (simp add: bump_def distinct_update)

lemma length_keep [simp]: "length (keep_event e es) \<le> EVENTS_KEPT"
  by (simp add: keep_event_def)

interpretation event_log: bounded_log keep_event "\<lambda>es. es" EVENTS_KEPT
  by unfold_locales (simp add: keep_event_def)

lemma js_or_simps [simp]:
  "js_or None d = d" "js_or (Some (JStr s)) d = (if s \<noteq> [] then JStr s else d)"
  by (simp_all add: js_or_def)

lemma fields_of_simps [simp]: "fields_of None = []" "fields_of (Some (JObj fs)) = fs"
  by (simp_all add: fields_of_def)

lemma own_update: "own (AList.update k v fs) nm = (if nm = k then Some v else own fs nm)"
  by (simp add: own_def update_conv')

lemma own_set_prop: "own (set_prop k v fs) nm = (if nm = k \<and> k \<noteq> ''__proto__'' then Some v else own fs nm)"
  by (auto simp: set_prop_def own_update)

end
