(* ===== verification/Session_Handoff.thy ===== *)
theory Session_Handoff
  imports Simulated_Events
begin

text \<open>
  The hand-off of a session from a sign-in page to the page that waits for it
  (\<open>client/src/session_handoff.js\<close>): six slots of the tab's \<open>sessionStorage\<close>, filled once, collected once, and
  good for half an hour.

  The store is \<open>None\<close> where there is none; one that is full refuses to write.  A slot that the source fills
  with \<open>JSON.stringify\<close> and reads with \<open>JSON.parse\<close> holds the value itself, and a text in one of those two slots,
  which the module never writes, is what \<open>JSON.parse\<close> refuses.  Times are milliseconds.
\<close>

subsection \<open>The protocols\<close>

record protocol_row =
  pr_id :: string
  pr_label :: string
  pr_sessionIdOnTheWire :: bool

definition PROTOCOLS :: "protocol_row list" where
  "PROTOCOLS =
     [\<lparr>pr_id = ''oidc'', pr_label = ''OAuth 2.0 / OIDC'', pr_sessionIdOnTheWire = True\<rparr>,
      \<lparr>pr_id = ''saml2'', pr_label = ''SAML 2.0'', pr_sessionIdOnTheWire = True\<rparr>,
      \<lparr>pr_id = ''saml11'', pr_label = ''SAML 1.1'', pr_sessionIdOnTheWire = False\<rparr>,
      \<lparr>pr_id = ''wsfed'', pr_label = ''WS-Federation'', pr_sessionIdOnTheWire = False\<rparr>,
      \<lparr>pr_id = ''spnego'', pr_label = ''SPNEGO / Kerberos'', pr_sessionIdOnTheWire = False\<rparr>]"

definition TTL_MS :: nat where
  "TTL_MS = 30 * 60 * 1000"

text \<open>The loop keeps the last row with the name; the names are distinct.\<close>

definition protocolFor :: "string \<Rightarrow> protocol_row option" where
  "protocolFor i = fold (\<lambda>one found. if pr_id one = i then Some one else found) PROTOCOLS None"

definition labelForProtocol :: "string \<Rightarrow> string" where
  "labelForProtocol i =
     (case protocolFor i of
        Some row \<Rightarrow> pr_label row
      | None \<Rightarrow> if i \<noteq> [] then i else ''an unnamed protocol'')"

definition sessionIdIsReal :: "fields \<Rightarrow> bool" where
  "sessionIdIsReal asked =
     (if trim (js_text (own asked ''sid'')) = [] then False
      else if own asked ''sidFromTheWire'' = Some (JBool True) then True
      else if own asked ''sidFromTheWire'' = Some (JBool False) then False
      else (case protocolFor (js_text (own asked ''protocol'')) of
              Some row \<Rightarrow> pr_sessionIdOnTheWire row | None \<Rightarrow> False))"

subsection \<open>The store\<close>

text \<open>What crosses, and with what provenance.\<close>

record handed_session =
  hs_protocol :: string
  hs_iss :: string
  hs_sub :: string
  hs_name :: string
  hs_sid :: string
  hs_sidFromTheWire :: bool
  hs_acr :: string
  hs_amr :: "string list"
  hs_tenant :: string

datatype item =
    Text string
  | SessionItem handed_session
  | MetaItem string nat

record session_store =
  ss_full :: bool
  ss_slots :: "(string \<times> item) list"

type_synonym tab = "session_store option"

definition K_ACTIVE :: string where "K_ACTIVE = ''session_handoff_active''"

definition K_RETURN :: string where "K_RETURN = ''session_handoff_return''"

definition K_LABEL :: string where "K_LABEL = ''session_handoff_label''"

definition K_WANTED :: string where "K_WANTED = ''session_handoff_wanted''"

definition K_SESSION :: string where "K_SESSION = ''session_handoff_session''"

definition K_META :: string where "K_META = ''session_handoff_meta''"

lemmas key_defs = K_ACTIVE_def K_RETURN_def K_LABEL_def K_WANTED_def K_SESSION_def K_META_def

definition get_item :: "string \<Rightarrow> tab \<Rightarrow> item option" where
  "get_item k tab = (case tab of None \<Rightarrow> None | Some s \<Rightarrow> map_of (ss_slots s) k)"

definition put_item :: "string \<Rightarrow> item \<Rightarrow> tab \<Rightarrow> tab \<times> bool" where
  "put_item k v tab =
     (case tab of
        None \<Rightarrow> (None, False)
      | Some s \<Rightarrow> if ss_full s then (tab, False) else (Some (s\<lparr>ss_slots := AList.update k v (ss_slots s)\<rparr>), True))"

definition drop_item :: "string \<Rightarrow> tab \<Rightarrow> tab" where
  "drop_item k tab = map_option (\<lambda>s. s\<lparr>ss_slots := AList.delete k (ss_slots s)\<rparr>) tab"

definition get_text :: "string \<Rightarrow> tab \<Rightarrow> string" where
  "get_text k tab = (case get_item k tab of Some (Text s) \<Rightarrow> s | _ \<Rightarrow> [])"

subsection \<open>The operations\<close>

definition start :: "fields \<Rightarrow> tab \<Rightarrow> tab \<times> bool" where
  "start settings tab =
     (let returnUrl = js_text (own settings ''returnUrl'');
          label = js_String (js_or (own settings ''label'') (JStr ''the workflow that asked for it''));
          wanted = js_text (own settings ''protocol'')
      in if returnUrl = [] then (tab, False)
         else
           (let tab = fst (put_item K_ACTIVE (Text ''1'') tab);
                tab = fst (put_item K_RETURN (Text returnUrl) tab);
                tab = fst (put_item K_LABEL (Text label) tab);
                tab = fst (put_item K_WANTED (Text wanted) tab)
            in (drop_item K_META (drop_item K_SESSION tab), True)))"

definition isActive :: "tab \<Rightarrow> bool" where
  "isActive tab \<longleftrightarrow> get_text K_ACTIVE tab = ''1''"

definition returnUrl :: "tab \<Rightarrow> string" where
  "returnUrl tab = get_text K_RETURN tab"

definition label :: "tab \<Rightarrow> string" where
  "label tab = (let s = get_text K_LABEL tab in if s \<noteq> [] then s else ''the workflow that asked for it'')"

definition wantedProtocol :: "tab \<Rightarrow> string" where
  "wantedProtocol tab = get_text K_WANTED tab"

definition cancel :: "tab \<Rightarrow> tab" where
  "cancel tab = fold drop_item [K_ACTIVE, K_RETURN, K_LABEL, K_WANTED, K_SESSION, K_META] tab"

text \<open>\<open>s.split(/\s+/)\<close> of a trimmed text: its words.\<close>

function words_of :: "string \<Rightarrow> string list" where
  "words_of s =
     (let t = dropWhile is_space s
      in if t = [] then [] else takeWhile (\<lambda>c. \<not> is_space c) t # words_of (dropWhile (\<lambda>c. \<not> is_space c) t))"
  by auto
termination
proof (relation "measure length", goal_cases)
  case (2 s t)
  then obtain c r where t: "t = c # r" "\<not> is_space c"
    by (metis hd_dropWhile list.exhaust list.sel(1))
  have "length (dropWhile (\<lambda>c. \<not> is_space c) t) \<le> length r"
    using t by (simp add: length_dropWhile_le)
  also have "\<dots> < length t" using t by simp
  also have "\<dots> \<le> length s" using 2 by (simp add: length_dropWhile_le)
  finally show ?case by simp
qed simp

declare words_of.simps [simp del]

definition toList :: "json option \<Rightarrow> string list" where
  "toList v =
     (case v of
        Some (JArr xs) \<Rightarrow> filter (\<lambda>s. s \<noteq> []) (map js_String xs)
      | Some (JStr s) \<Rightarrow> words_of s
      | _ \<Rightarrow> [])"

definition packed :: "fields \<Rightarrow> handed_session" where
  "packed asked =
     \<lparr>hs_protocol = js_text (own asked ''protocol''), hs_iss = js_text (own asked ''iss''),
      hs_sub = js_text (own asked ''sub''), hs_name = js_text (own asked ''name''), hs_sid = js_text (own asked ''sid''),
      hs_sidFromTheWire = sessionIdIsReal asked, hs_acr = js_text (own asked ''acr''),
      hs_amr = toList (own asked ''amr''), hs_tenant = js_text (own asked ''tenant'')\<rparr>"

definition deliver :: "nat \<Rightarrow> fields \<Rightarrow> string \<Rightarrow> tab \<Rightarrow> tab \<times> bool" where
  "deliver now asked source tab =
     (if \<not> isActive tab then (tab, False)
      else
        (let session = packed asked; (tab', written) = put_item K_SESSION (SessionItem session) tab
         in if \<not> written then (tab', False)
            else (fst (put_item K_META
                    (MetaItem (if source \<noteq> [] then source else labelForProtocol (hs_protocol session)) now) tab'), True)))"

definition isDelivered :: "tab \<Rightarrow> bool" where
  "isDelivered tab \<longleftrightarrow> get_item K_SESSION tab \<notin> {None, Some (Text [])}"

record taken =
  tk_session :: "handed_session option"
  tk_source :: string
  tk_expired :: bool

definition take_session :: "nat \<Rightarrow> tab \<Rightarrow> tab \<times> taken" where
  "take_session now tab =
     (let (source, since) = (case get_item K_META tab of Some (MetaItem s t) \<Rightarrow> (s, t) | _ \<Rightarrow> ([], 0));
          tab' = fold drop_item [K_SESSION, K_META, K_ACTIVE, K_RETURN, K_LABEL, K_WANTED] tab
      in case get_item K_SESSION tab of
           Some (SessionItem s) \<Rightarrow>
             if since \<noteq> 0 \<and> TTL_MS < now - since then (tab', \<lparr>tk_session = None, tk_source = source, tk_expired = True\<rparr>)
             else (tab', \<lparr>tk_session = Some s, tk_source = source, tk_expired = False\<rparr>)
         | _ \<Rightarrow> (tab', \<lparr>tk_session = None, tk_source = [], tk_expired = False\<rparr>))"

text \<open>The collected session as the object its consumers read.\<close>

definition session_object :: "handed_session \<Rightarrow> fields" where
  "session_object s =
     [(''protocol'', JStr (hs_protocol s)), (''iss'', JStr (hs_iss s)), (''sub'', JStr (hs_sub s)),
      (''name'', JStr (hs_name s)), (''sid'', JStr (hs_sid s)), (''sidFromTheWire'', JBool (hs_sidFromTheWire s)),
      (''acr'', JStr (hs_acr s)), (''amr'', JArr (map JStr (hs_amr s))), (''tenant'', JStr (hs_tenant s))]"

end
