(* ===== verification/Caep_Session.thy ===== *)
theory Caep_Session
  imports Simulated_Events Session_Handoff Ssf_Subjects
begin

text \<open>
  The session a CAEP event is about (\<open>client/src/caep_session.js\<close>): how it is seeded from the claims of an ID Token or from
  a session handed over by a sign-in page, the complex subject that names it, the values the pane suggests, and what each of
  the eight events does to it.  A sentence the source prints is a constructor of \<open>caep_warning\<close> or
  \<open>caep_problem\<close>; random identifiers take their bytes as an argument.
\<close>

subsection \<open>State\<close>

datatype caep_state = Established | Presented | Revoked

datatype caep_warning =
    EstablishedAgain
  | RevokedTwice
  | ClaimsOfRevoked
  | CredentialTaken
  | MissedAssurance string string
  | AssuranceWentDown
  | MissedCompliance string string
  | MissedRisk string string

datatype caep_error = PresentedAfterRevoked

record assurance =
  as_namespace :: string
  as_level :: string
  as_previousLevel :: string

record risk =
  rk_level :: string
  rk_previousLevel :: string
  rk_reason :: string

record changed_credential =
  ch_at :: seconds
  ch_credentialType :: string
  ch_changeType :: string
  ch_friendlyName :: string

record caep_session =
  cs_iss :: string
  cs_sub :: string
  cs_name :: string
  cs_sid :: string
  cs_deviceId :: string
  cs_tenant :: string
  cs_acr :: string
  cs_amr :: "json list"
  cs_protocol :: string
  cs_source_sub :: json
  cs_source_sid :: json
  cs_source_iss :: json
  cs_startedAt :: seconds
  cs_state :: caep_state
  cs_assurance :: assurance
  cs_compliance :: string
  cs_risk :: risk
  cs_claims :: fields
  cs_credentials :: "changed_credential list"
  cs_counts :: counts
  cs_total :: nat
  cs_events :: "caep_warning sent_event list"

definition generatedId :: "string \<Rightarrow> nat list \<Rightarrow> string" where
  "generatedId kind random =
     ''debugger-'' @ kind @ ''-'' @ concat (map (\<lambda>n. [hex_digit (n div 16), hex_digit (n mod 16)]) random)"

text \<open>\<open>s.split(/[\s,]+/)\<close>\<close>

definition is_comma_space :: "char \<Rightarrow> bool" where
  "is_comma_space c \<longleftrightarrow> is_space c \<or> c = CHR '',''"

function split_comma_space :: "string \<Rightarrow> string list" where
  "split_comma_space s =
     (let rest = dropWhile (\<lambda>c. \<not> is_comma_space c) s
      in takeWhile (\<lambda>c. \<not> is_comma_space c) s #
         (if rest = [] then [] else split_comma_space (dropWhile is_comma_space rest)))"
  by auto
termination
proof (relation "measure length", goal_cases)
  case (2 s rest)
  then obtain c r where r: "rest = c # r" "is_comma_space c"
    by (metis hd_dropWhile list.exhaust list.sel(1))
  have "length (dropWhile is_comma_space rest) \<le> length r"
    using r by (simp add: length_dropWhile_le)
  also have "\<dots> < length rest" using r by simp
  also have "\<dots> \<le> length s" using 2 by (simp add: length_dropWhile_le)
  finally show ?case by simp
qed simp

declare split_comma_space.simps [simp del]

definition toStringArray :: "json option \<Rightarrow> json list" where
  "toStringArray v =
     (case v of
        Some (JArr xs) \<Rightarrow> filter (\<lambda>x. is_string (Some x)) xs
      | Some (JStr s) \<Rightarrow> if trim s \<noteq> [] then map JStr (split_comma_space (trim s)) else []
      | _ \<Rightarrow> [])"

definition blank_assurance :: assurance where
  "blank_assurance = \<lparr>as_namespace = [], as_level = [], as_previousLevel = []\<rparr>"

definition blank_risk :: risk where
  "blank_risk = \<lparr>rk_level = [], rk_previousLevel = [], rk_reason = []\<rparr>"

definition newSession :: "seconds \<Rightarrow> nat list \<Rightarrow> nat list \<Rightarrow> fields \<Rightarrow> caep_session" where
  "newSession now random1 random2 asked =
     (let origin = (\<lambda>nm none. if truthy (own asked nm) then js_or (own asked ''from'') (JStr ''the ID Token'') else JStr none)
      in \<lparr>cs_iss = js_text (own asked ''iss''), cs_sub = js_text (own asked ''sub''), cs_name = js_text (own asked ''name''),
          cs_sid = js_String (js_or (own asked ''sid'') (JStr (generatedId ''sid'' random1))),
          cs_deviceId = js_String (js_or (own asked ''deviceId'') (JStr (generatedId ''dev'' random2))),
          cs_tenant = js_text (own asked ''tenant''), cs_acr = js_text (own asked ''acr''),
          cs_amr = toStringArray (own asked ''amr''), cs_protocol = js_text (own asked ''protocol''),
          cs_source_sub = origin ''sub'' ''generated here'', cs_source_sid = origin ''sid'' ''generated here'',
          cs_source_iss = origin ''iss'' ''you'', cs_startedAt = now, cs_state = Established,
          cs_assurance = blank_assurance, cs_compliance = [], cs_risk = blank_risk, cs_claims = [], cs_credentials = [],
          cs_counts = [], cs_total = 0, cs_events = []\<rparr>)"

subsection \<open>Seeding\<close>

datatype caep_problem =
    NoSubClaim
  | NoSidClaim
  | NoSubjectFrom string
  | SidGenerated string

definition with_amr :: "fields \<Rightarrow> fields" where
  "with_amr body = (case own body ''amr'' of Some v \<Rightarrow> [(''amr'', v)] | None \<Rightarrow> [])"

definition previous_text :: "(caep_session \<Rightarrow> string) \<Rightarrow> caep_session option \<Rightarrow> json" where
  "previous_text f previous = JStr (case previous of Some s \<Rightarrow> f s | None \<Rightarrow> [])"

definition seedFrom ::
  "seconds \<Rightarrow> nat list \<Rightarrow> nat list \<Rightarrow> json option \<Rightarrow> caep_session option \<Rightarrow> caep_session \<times> caep_problem list"
where
  "seedFrom now random1 random2 claims previous =
     (let body = fields_of claims; blank = JStr []
      in (newSession now random1 random2
            ([(''iss'', js_or (own body ''iss'') (previous_text cs_iss previous)),
              (''sub'', js_or (own body ''sub'') blank),
              (''name'', js_or (own body ''name'') (js_or (own body ''preferred_username'') (js_or (own body ''email'') blank))),
              (''sid'', js_or (own body ''sid'') blank),
              (''acr'', js_or (own body ''acr'') blank),
              (''tenant'', js_or (own body ''tid'') (js_or (own body ''tenant'') blank)),
              (''deviceId'', previous_text cs_deviceId previous)] @ with_amr body),
          (if truthy (own body ''sub'') then [] else [NoSubClaim]) @
          (if truthy (own body ''sid'') then [] else [NoSidClaim])))"

definition seedFromSession ::
  "seconds \<Rightarrow> nat list \<Rightarrow> nat list \<Rightarrow> json option \<Rightarrow> caep_session option \<Rightarrow> caep_session \<times> caep_problem list"
where
  "seedFromSession now random1 random2 descriptor previous =
     (let asked = fields_of descriptor; blank = JStr []; protocol = js_text (own asked ''protocol'');
          label = labelForProtocol protocol; real = sessionIdIsReal asked
      in (newSession now random1 random2
            ([(''protocol'', JStr protocol), (''from'', JStr (''the '' @ label @ '' sign-in'')),
              (''iss'', js_or (own asked ''iss'') (previous_text cs_iss previous)),
              (''sub'', js_or (own asked ''sub'') blank),
              (''name'', js_or (own asked ''name'') blank),
              (''sid'', JStr (if real then js_text (own asked ''sid'') else [])),
              (''acr'', js_or (own asked ''acr'') blank),
              (''tenant'', js_or (own asked ''tenant'') blank),
              (''deviceId'', previous_text cs_deviceId previous)] @ with_amr asked),
          (if truthy (own asked ''sub'') then [] else [NoSubjectFrom label]) @
          (if real then [] else [SidGenerated label])))"

subsection \<open>The subject\<close>

definition complexSubject :: "caep_session \<Rightarrow> fields \<Rightarrow> fields" where
  "complexSubject session options =
     [(''format'', JStr ''complex'')] @
     (if own options ''includeUser'' \<noteq> Some (JBool False)
      then [(''user'', JObj [(''format'', JStr ''iss_sub''), (''iss'', JStr (cs_iss session)), (''sub'', JStr (cs_sub session))])]
      else []) @
     (if own options ''includeSession'' \<noteq> Some (JBool False)
      then [(''session'', JObj [(''format'', JStr ''opaque''), (''id'', JStr (cs_sid session))])] else []) @
     (if truthy (own options ''includeDevice'') \<and> cs_deviceId session \<noteq> []
      then [(''device'', JObj [(''format'', JStr ''opaque''), (''id'', JStr (cs_deviceId session))])] else []) @
     (if truthy (own options ''includeTenant'') \<and> cs_tenant session \<noteq> []
      then [(''tenant'', JObj [(''format'', JStr ''opaque''), (''id'', JStr (cs_tenant session))])] else [])"

definition checkSubject :: "json \<Rightarrow> string list \<Rightarrow> subject_verdict option" where
  "checkSubject subject criticalMembers = validateSubjectId subject criticalMembers ''sub_id''"

definition short_name :: "string \<Rightarrow> string" where
  "short_name uri = (if starts_with CAEP_PREFIX uri then drop (length CAEP_PREFIX) uri else [])"

subsection \<open>The payload\<close>

definition suggest :: "caep_session \<Rightarrow> string \<Rightarrow> fields" where
  "suggest session uri =
     (let short = short_name uri; level = as_level (cs_assurance session); rlevel = rk_level (cs_risk session)
      in if short = ''session-established''
         then [(''acr'', JStr (cs_acr session)), (''amr'', JArr (cs_amr session)), (''ext_id'', JStr (cs_sid session))]
         else if short = ''session-presented'' then [(''ext_id'', JStr (cs_sid session))]
         else if short = ''token-claims-change'' then [(''claims'', JObj [(''groups'', JArr [JStr ''staff''])])]
         else if short = ''credential-change''
         then [(''credential_type'', JStr ''fido2-platform''), (''change_type'', JStr ''revoke''),
               (''friendly_name'', JStr ''the security key on this laptop'')]
         else if short = ''assurance-level-change''
         then [(''namespace'', js_or (Some (JStr (as_namespace (cs_assurance session)))) (JStr ''NIST-AAL'')),
               (''current_level'', JStr (if level = ''aal2'' then ''aal1'' else ''aal2'')),
               (''previous_level'', js_or (Some (JStr level)) (JStr ''aal1'')),
               (''change_direction'', JStr (if level = ''aal2'' then ''decrease'' else ''increase''))]
         else if short = ''device-compliance-change''
         then (let was = (if cs_compliance session \<noteq> [] then cs_compliance session else ''compliant'')
               in [(''previous_status'', JStr was),
                   (''current_status'', JStr (if was = ''compliant'' then ''not-compliant'' else ''compliant''))])
         else if short = ''risk-level-change''
         then [(''principal'', JStr ''SESSION''),
               (''previous_level'', js_or (Some (JStr rlevel)) (JStr ''LOW'')),
               (''current_level'', JStr (if rlevel = ''HIGH'' then ''MEDIUM'' else ''HIGH'')),
               (''risk_reason'', JStr ''impossible travel'')]
         else [])"

definition add_initiator :: "fields \<Rightarrow> fields \<Rightarrow> fields" where
  "add_initiator options payload =
     (case own options ''initiatingEntity'' of
        Some (JStr s) \<Rightarrow>
          if s \<in> {''admin'', ''user'', ''policy'', ''system''} then AList.update ''initiating_entity'' (JStr s) payload else payload
      | _ \<Rightarrow> payload)"

definition buildPayload :: "seconds \<Rightarrow> caep_session \<Rightarrow> string \<Rightarrow> fields option \<Rightarrow> fields \<Rightarrow> fields" where
  "buildPayload now session uri values options =
     add_reason ''reason_user'' ''reasonUser'' options
       (add_reason ''reason_admin'' ''reasonAdmin'' options
         (add_initiator options
           (add_timestamp now options
             (generateEvent uri (case values of Some vs \<Rightarrow> vs | None \<Rightarrow> suggest session uri)))))"

subsection \<open>The state machine\<close>

text \<open>\<open>Object.keys(v)\<close> with their values: an array has its indices.\<close>

definition entries_of :: "json option \<Rightarrow> fields" where
  "entries_of v =
     (case v of
        Some (JObj fs) \<Rightarrow> fs
      | Some (JArr xs) \<Rightarrow> zip (map show_nat [0..<length xs]) xs
      | _ \<Rightarrow> [])"

text \<open>The check behind the three warnings about a missed event: what the event says the value was, against what the
  session holds.\<close>

definition contradicts :: "json option \<Rightarrow> string \<Rightarrow> bool" where
  "contradicts v held \<longleftrightarrow> held \<noteq> [] \<and> is_string v \<and> v \<noteq> Some (JStr held)"

definition apply_event :: "seconds \<Rightarrow> string \<Rightarrow> fields \<Rightarrow> caep_session \<Rightarrow> caep_session \<times> caep_warning list" where
  "apply_event now short body session =
     (if short = ''session-established'' then
        (session\<lparr>cs_state := Established,
                 cs_acr := (case own body ''acr'' of Some (JStr s) \<Rightarrow> if s \<noteq> [] then s else cs_acr session | _ \<Rightarrow> cs_acr session),
                 cs_amr := (case own body ''amr'' of Some (JArr xs) \<Rightarrow> xs | _ \<Rightarrow> cs_amr session)\<rparr>,
         if cs_state session = Revoked then [EstablishedAgain] else [])
      else if short = ''session-presented'' then (session\<lparr>cs_state := Presented\<rparr>, [])
      else if short = ''session-revoked'' then
        (session\<lparr>cs_state := Revoked\<rparr>, if cs_state session = Revoked then [RevokedTwice] else [])
      else if short = ''token-claims-change'' then
        (session\<lparr>cs_claims := fold (\<lambda>(nm, v). set_prop nm v) (entries_of (own body ''claims'')) (cs_claims session)\<rparr>,
         if cs_state session = Revoked then [ClaimsOfRevoked] else [])
      else if short = ''credential-change'' then
        (let c = \<lparr>ch_at = now, ch_credentialType = js_text (own body ''credential_type''),
                  ch_changeType = js_text (own body ''change_type''), ch_friendlyName = js_text (own body ''friendly_name'')\<rparr>
         in (session\<lparr>cs_credentials := take 10 (c # cs_credentials session)\<rparr>,
             if js_string_of (own body ''change_type'') \<in> {''delete'', ''revoke''} then [CredentialTaken] else []))
      else if short = ''assurance-level-change'' then
        (let a = cs_assurance session; level = as_level a
         in (session\<lparr>cs_assurance :=
               \<lparr>as_namespace = js_String (js_or (own body ''namespace'') (JStr (as_namespace a))),
                as_level = js_text (own body ''current_level''),
                as_previousLevel = js_String (js_or (own body ''previous_level'') (JStr level))\<rparr>\<rparr>,
             (if contradicts (own body ''previous_level'') level
              then [MissedAssurance (js_string_of (own body ''previous_level'')) level] else []) @
             (if js_string_of (own body ''change_direction'') = ''decrease'' then [AssuranceWentDown] else [])))
      else if short = ''device-compliance-change'' then
        (session\<lparr>cs_compliance := js_String (js_or (own body ''current_status'') (JStr (cs_compliance session)))\<rparr>,
         if contradicts (own body ''previous_status'') (cs_compliance session)
         then [MissedCompliance (js_string_of (own body ''previous_status'')) (cs_compliance session)] else [])
      else if short = ''risk-level-change'' then
        (let level = rk_level (cs_risk session)
         in (session\<lparr>cs_risk :=
               \<lparr>rk_level = js_text (own body ''current_level''),
                rk_previousLevel = js_String (js_or (own body ''previous_level'') (JStr level)),
                rk_reason = js_text (own body ''risk_reason'')\<rparr>\<rparr>,
             if contradicts (own body ''previous_level'') level
             then [MissedRisk (js_string_of (own body ''previous_level'')) level] else []))
      else (session, []))"

record caep_verdict =
  cv_ok :: bool
  cv_errors :: "caep_error list"
  cv_warnings :: "caep_warning list"
  cv_state :: caep_state

definition apply_caep :: "seconds \<Rightarrow> caep_session \<Rightarrow> string \<Rightarrow> json option \<Rightarrow> caep_session \<times> caep_verdict" where
  "apply_caep now session uri payload =
     (let short = short_name uri
      in if short = [] then (session, \<lparr>cv_ok = True, cv_errors = [], cv_warnings = [], cv_state = cs_state session\<rparr>)
         else if short = ''session-presented'' \<and> cs_state session = Revoked
         then (session, \<lparr>cv_ok = False, cv_errors = [PresentedAfterRevoked], cv_warnings = [], cv_state = Revoked\<rparr>)
         else
           (let (session', ws) = apply_event now short (fields_of payload) session
            in (session', \<lparr>cv_ok = True, cv_errors = [], cv_warnings = ws, cv_state = cs_state session'\<rparr>)))"

subsection \<open>Counting\<close>

definition record_caep :: "seconds \<Rightarrow> caep_session \<Rightarrow> string \<Rightarrow> fields \<Rightarrow> caep_warning list \<Rightarrow> caep_session \<times> nat" where
  "record_caep now session uri detail warnings =
     (let session' = session\<lparr>cs_counts := bump uri (cs_counts session), cs_total := cs_total session + 1,
                             cs_events := keep_event (sent_entry now uri detail warnings) (cs_events session)\<rparr>
      in (session', cs_total session'))"

definition reset_caep :: "seconds \<Rightarrow> caep_session \<Rightarrow> caep_session" where
  "reset_caep now session =
     session\<lparr>cs_state := Established, cs_assurance := blank_assurance, cs_compliance := [], cs_risk := blank_risk,
             cs_claims := [], cs_credentials := [], cs_counts := [], cs_total := 0, cs_events := [],
             cs_startedAt := now\<rparr>"

record caep_view =
  vw_state :: caep_state
  vw_assurance :: string
  vw_counts :: "(string \<times> string \<times> string \<times> nat) list"
  vw_total :: nat

definition describe_caep :: "caep_session \<Rightarrow> caep_view" where
  "describe_caep session =
     \<lparr>vw_state = cs_state session,
      vw_assurance = (if as_level (cs_assurance session) \<noteq> []
                      then as_namespace (cs_assurance session) @ '' '' @ as_level (cs_assurance session) else []),
      vw_counts = map (\<lambda>row. (er_uri row, er_name row, drop (length CAEP_PREFIX) (er_uri row),
                              count_of (cs_counts session) (er_uri row))) CAEP_EVENTS,
      vw_total = cs_total session\<rparr>"

end
