(* ===== verification/Caep_Page.thy ===== *)
theory Caep_Page
  imports Caep_Session
begin

text \<open>
  The CAEP pane of the Shared Signals page (\<open>client/src/ssf.js\<close>): the form, the session read out of it on every draw,
  the simulation of an event from the values the model suggests, and the states the pane can be in.  What the
  push answers is a parameter.
\<close>

record caep_form =
  cf_iss :: string
  cf_sub :: string
  cf_sid :: string
  cf_device :: string
  cf_tenant :: string
  cf_acr :: string
  cf_amr :: string
  cf_initiating :: string
  cf_timestamp :: string
  cf_language :: string
  cf_reason_admin :: string
  cf_reason_user :: string
  cf_include_user :: bool
  cf_include_session :: bool
  cf_include_device :: bool
  cf_include_tenant :: bool

definition caepFromFields :: "seconds \<Rightarrow> nat list \<Rightarrow> nat list \<Rightarrow> caep_form \<Rightarrow> caep_session option \<Rightarrow> caep_session" where
  "caepFromFields now random1 random2 form model =
     (let session = (case model of Some s \<Rightarrow> s | None \<Rightarrow> newSession now random1 random2 [])
      in session\<lparr>cs_iss := cf_iss form, cs_sub := cf_sub form,
                 cs_sid := (if cf_sid form \<noteq> [] then cf_sid form else cs_sid session),
                 cs_deviceId := cf_device form, cs_tenant := cf_tenant form, cs_acr := cf_acr form,
                 cs_amr := (if trim (cf_amr form) \<noteq> [] then map JStr (split_comma_space (trim (cf_amr form))) else [])\<rparr>)"

definition caepSubjectOptions :: "caep_form \<Rightarrow> fields" where
  "caepSubjectOptions form =
     [(''includeUser'', JBool (cf_include_user form)), (''includeSession'', JBool (cf_include_session form)),
      (''includeDevice'', JBool (cf_include_device form)), (''includeTenant'', JBool (cf_include_tenant form))]"

definition caepTimestamp :: "seconds \<Rightarrow> caep_form \<Rightarrow> json" where
  "caepTimestamp now form =
     (if cf_timestamp form = ''omit'' then JBool False
      else if cf_timestamp form = ''hour'' then JNum (show_nat (now - 3600))
      else JNum (show_nat now))"

definition caepOptions :: "seconds \<Rightarrow> caep_form \<Rightarrow> fields" where
  "caepOptions now form =
     [(''initiatingEntity'', JStr (cf_initiating form)), (''eventTimestamp'', caepTimestamp now form),
      (''language'', JStr (if cf_language form \<noteq> [] then cf_language form else ''en'')),
      (''reasonAdmin'', JStr (cf_reason_admin form)), (''reasonUser'', JStr (cf_reason_user form))]"

record caep_push =
  cp_uri :: string
  cp_payload :: fields
  cp_subject :: fields
  cp_warnings :: "caep_warning list"

datatype caep_outcome =
    Invalid_Payload "finding list"
  | Refused "caep_error list"
  | Pushing caep_push

definition caepSimulate ::
  "seconds \<Rightarrow> nat list \<Rightarrow> nat list \<Rightarrow> caep_form \<Rightarrow> caep_session option \<Rightarrow> string \<Rightarrow> caep_session \<times> caep_outcome"
where
  "caepSimulate now random1 random2 form model uri =
     (let session = caepFromFields now random1 random2 form model;
          payload = buildPayload now session uri None (caepOptions now form);
          verdict = validateEvent uri (Some (JObj payload))
      in if \<not> vd_ok verdict then (session, Invalid_Payload (vd_errors verdict))
         else
           (let (session', applied) = apply_caep now session uri (Some (JObj payload))
            in if \<not> cv_ok applied
               then (caepFromFields now random1 random2 form (Some session'), Refused (cv_errors applied))
               else (session',
                     Pushing \<lparr>cp_uri = uri, cp_payload = payload,
                              cp_subject = complexSubject session' (caepSubjectOptions form),
                              cp_warnings = cv_warnings applied\<rparr>)))"

definition caepSettle ::
  "seconds \<Rightarrow> nat list \<Rightarrow> nat list \<Rightarrow> caep_form \<Rightarrow> caep_push \<Rightarrow> fields \<Rightarrow> caep_session \<Rightarrow> caep_session"
where
  "caepSettle now random1 random2 form push outcome session =
     (let detail = [(''jti'', js_or (own outcome ''jti'') (JStr [])),
                    (''outcome'', js_or (own outcome ''outcome'') (JStr ''not sent''))]
      in caepFromFields now random1 random2 form
           (Some (fst (record_caep now session (cp_uri push) detail (cp_warnings push)))))"

definition resetCaepSession ::
  "seconds \<Rightarrow> nat list \<Rightarrow> nat list \<Rightarrow> caep_form \<Rightarrow> caep_session option \<Rightarrow> caep_session"
where
  "resetCaepSession now random1 random2 form model =
     caepFromFields now random1 random2 form
       (Some (reset_caep now (caepFromFields now random1 random2 form model)))"

subsection \<open>The pane\<close>

text \<open>A push counts on the session object it began with; \<open>cn_object\<close> numbers the objects that seeding replaces.\<close>

record caep_pane =
  cn_model :: "caep_session option"
  cn_object :: nat
  cn_pushes :: "(nat \<times> caep_push) list"

definition replaced_session :: "caep_session \<Rightarrow> caep_pane \<Rightarrow> caep_pane" where
  "replaced_session session p = p\<lparr>cn_model := Some session, cn_object := cn_object p + 1\<rparr>"

definition simulated :: "seconds \<Rightarrow> nat list \<Rightarrow> nat list \<Rightarrow> caep_form \<Rightarrow> string \<Rightarrow> caep_pane \<Rightarrow> caep_pane" where
  "simulated now random1 random2 form uri p =
     (let (session, out) = caepSimulate now random1 random2 form (cn_model p) uri
      in p\<lparr>cn_model := Some session,
           cn_pushes := cn_pushes p @ (case out of Pushing push \<Rightarrow> [(cn_object p, push)] | _ \<Rightarrow> [])\<rparr>)"

definition settled ::
  "seconds \<Rightarrow> nat list \<Rightarrow> nat list \<Rightarrow> caep_form \<Rightarrow> fields \<Rightarrow> nat \<Rightarrow> caep_pane \<Rightarrow> caep_pane"
where
  "settled now random1 random2 form outcome i p =
     (let (object, push) = cn_pushes p ! i;
          session = (case cn_model p of
                       Some s \<Rightarrow> if object = cn_object p then caepSettle now random1 random2 form push outcome s
                                else caepFromFields now random1 random2 form (Some s)
                     | None \<Rightarrow> caepFromFields now random1 random2 form None)
      in p\<lparr>cn_model := Some session, cn_pushes := take i (cn_pushes p) @ drop (Suc i) (cn_pushes p)\<rparr>)"

inductive caep_step :: "caep_pane \<Rightarrow> caep_pane \<Rightarrow> bool" where
  Draw: "caep_step p (p\<lparr>cn_model := Some (caepFromFields now random1 random2 form (cn_model p))\<rparr>)"
| Simulate: "caep_step p (simulated now random1 random2 form uri p)"
| Settle: "i < length (cn_pushes p) \<Longrightarrow> caep_step p (settled now random1 random2 form outcome i p)"
| Reset: "caep_step p (p\<lparr>cn_model := Some (resetCaepSession now random1 random2 form (cn_model p))\<rparr>)"
| StartOver: "cn_model p = Some s \<Longrightarrow> caep_step p (p\<lparr>cn_model := Some (reset_caep now s)\<rparr>)"
| FillFromToken: "caep_step p (replaced_session (fst (seedFrom now random1 random2 claims (cn_model p))) p)"
| FillFromSession: "caep_step p (replaced_session (fst (seedFromSession now random1 random2 descriptor (cn_model p))) p)"

inductive caep_reachable :: "caep_pane \<Rightarrow> bool" where
  Opened: "caep_reachable \<lparr>cn_model = None, cn_object = 0, cn_pushes = []\<rparr>"
| Step: "caep_reachable p \<Longrightarrow> caep_step p q \<Longrightarrow> caep_reachable q"

end
