(* ===== verification/Ssf_Events_Laws.thy ===== *)
theory Ssf_Events_Laws
  imports Ssf_Events
begin

text \<open>
  The catalogue agrees with itself: its types are distinct, each carries the prefix of its family, and what a row's
  generator builds passes the row's own check, except for the one array that a generator copies unread.
\<close>

subsection \<open>The table\<close>

lemma uris_distinct: "distinct (map er_uri EVENTS)"
  by code_simp

lemma families_agree: "list_all (\<lambda>row. familyOf (er_uri row) = er_family row) EVENTS"
  by code_simp

lemma catalogue_row: "EVENT_BY_URI uri = Some row \<Longrightarrow> row \<in> set EVENTS \<and> er_uri row = uri"
  by (auto simp: EVENT_BY_URI_def find_Some_iff)

lemma find_by_key: "distinct (map f xs) \<Longrightarrow> x \<in> set xs \<Longrightarrow> find (\<lambda>y. f y = f x) xs = Some x"
  by (induction xs) auto

lemma catalogue_lookup: "row \<in> set EVENTS \<Longrightarrow> EVENT_BY_URI (er_uri row) = Some row"
  using uris_distinct unfolding EVENT_BY_URI_def by (rule find_by_key)

lemma family_of_row: "EVENT_BY_URI uri = Some row \<Longrightarrow> familyOf uri = er_family row"
  using families_agree by (auto dest!: catalogue_row simp: list_all_iff)

subsection \<open>What fits a row\<close>

definition fits :: "event_member list \<Rightarrow> fields \<Rightarrow> bool" where
  "fits members fs \<longleftrightarrow>
     (\<forall>(nm, v)\<in>set fs. \<exists>m. find (\<lambda>m. em_name m = nm) members = Some m \<and> fst (checkMember m v) = [])"

definition supplies :: "event_member list \<Rightarrow> fields \<Rightarrow> bool" where
  "supplies members fs \<longleftrightarrow> (\<forall>m\<in>set members. em_required m \<longrightarrow> own fs (em_name m) \<noteq> None)"

lemma fits_append [simp]: "fits members (fs @ gs) \<longleftrightarrow> fits members fs \<and> fits members gs"
  by (simp add: fits_def ball_Un)

lemma fits_Nil [simp]: "fits members []"
  by (simp add: fits_def)

lemma fits_Cons [simp]:
  "fits members ((nm, v) # fs) \<longleftrightarrow>
     (\<exists>m. find (\<lambda>m. em_name m = nm) members = Some m \<and> fst (checkMember m v) = []) \<and> fits members fs"
  by (auto simp: fits_def)

lemma fits_text_member:
  "find (\<lambda>m. em_name m = nm) members = Some m \<Longrightarrow> em_type m \<in> {MString, MOpenenum} \<Longrightarrow> fits members (text_member asked nm)"
  by (auto simp: text_member_def checkMember_def split: option.split json.split)

lemma fits_listed_member:
  "find (\<lambda>m. em_name m = nm) members = Some m \<Longrightarrow> em_type m = MEnum \<Longrightarrow> em_values m = vals
     \<Longrightarrow> fits members (listed_member asked nm vals)"
  by (auto simp: listed_member_def checkMember_def split: option.split json.split)

lemma check_one_of:
  "em_type m = MEnum \<Longrightarrow> em_values m = vals \<Longrightarrow> d \<in> set vals \<Longrightarrow> fst (checkMember m (one_of asked nm vals d)) = []"
  by (auto simp: one_of_def checkMember_def split: option.split json.split)

lemma check_text_or: "em_type m \<in> {MString, MOpenenum} \<Longrightarrow> fst (checkMember m (text_or asked nm d)) = []"
  by (auto simp: text_or_def checkMember_def split: option.split json.split)

lemmas piece_simps = fits_text_member fits_listed_member check_one_of check_text_or

definition strings_only :: "json option \<Rightarrow> bool" where
  "strings_only v \<longleftrightarrow> (case v of Some (JArr xs) \<Rightarrow> list_all (\<lambda>x. is_string (Some x)) xs | _ \<Rightarrow> True)"

definition SESSION_ESTABLISHED :: string where
  "SESSION_ESTABLISHED = CAEP_PREFIX @ ''session-established''"

definition sound_row :: "event_row \<Rightarrow> bool" where
  "sound_row row \<longleftrightarrow>
     (\<forall>asked. (er_uri row = SESSION_ESTABLISHED \<longrightarrow> strings_only (own asked ''amr''))
        \<longrightarrow> fits (er_members row) (er_generate row asked) \<and> supplies (er_members row) (er_generate row asked))"

lemma supplies_simps [simp]:
  "supplies [] fs"
  "supplies (m # ms) fs \<longleftrightarrow> (em_required m \<longrightarrow> own fs (em_name m) \<noteq> None) \<and> supplies ms fs"
  by (auto simp: supplies_def)

lemma amr_fits:
  "strings_only v \<Longrightarrow> find (\<lambda>m. em_name m = ''amr'') members = Some m \<Longrightarrow> em_type m = MStrings
    \<Longrightarrow> fits members (case v of Some (JArr xs) \<Rightarrow> if xs \<noteq> [] then [(''amr'', JArr xs)] else [] | _ \<Rightarrow> [])"
  by (auto simp: strings_only_def checkMember_def split: option.split json.split)

lemma claims_check:
  "em_type m = MObject \<Longrightarrow> fst (checkMember m (case v of Some (JObj fs) \<Rightarrow> JObj fs | _ \<Rightarrow> JObj gs)) = []"
  by (auto simp: checkMember_def split: option.split json.split)

lemma sound_ssf: "list_all sound_row SSF_EVENTS"
  by (simp add: SSF_EVENTS_def sound_row_def row_verification_def row_stream_updated_def generate_verification_def
      generate_stream_updated_def piece_simps)

lemma sound_caep: "list_all sound_row CAEP_EVENTS"
  by (simp add: CAEP_EVENTS_def sound_row_def row_session_revoked_def row_session_established_def
      row_session_presented_def row_token_claims_change_def row_credential_change_def row_assurance_level_change_def
      row_device_compliance_change_def row_risk_level_change_def generate_session_established_def
      generate_session_presented_def generate_token_claims_change_def generate_credential_change_def
      generate_assurance_level_change_def generate_device_compliance_change_def generate_risk_level_change_def
      withCommonMembers_def CAEP_COMMON_MEMBERS_def piece_simps amr_fits claims_check
      SESSION_ESTABLISHED_def)

lemma sound_risc: "list_all sound_row RISC_EVENTS"
  by (simp add: RISC_EVENTS_def sound_row_def row_account_credential_change_required_def row_account_purged_def
      row_account_disabled_def row_account_enabled_def row_identifier_changed_def row_identifier_recycled_def
      row_credential_compromise_def row_opt_in_def row_opt_out_initiated_def row_opt_out_cancelled_def
      row_opt_out_effective_def row_recovery_activated_def row_recovery_information_changed_def row_sessions_revoked_def
      generate_account_disabled_def generate_identifier_changed_def generate_credential_compromise_def
      RISC_COMMON_MEMBERS_def piece_simps)

lemma catalogue_sound: "EVENT_BY_URI uri = Some row \<Longrightarrow> sound_row row"
  using sound_ssf sound_caep sound_risc by (auto dest!: catalogue_row simp: EVENTS_def list_all_iff)

lemma fits_no_errors: "fits members fs \<Longrightarrow> (nm, v) \<in> set fs \<Longrightarrow> fst (check_property uri members (nm, v)) = []"
  by (fastforce simp: fits_def check_property_def)

lemma check_never_undefined: "UndefinedMember nm near \<notin> set (snd (checkMember m v))"
  by (auto simp: checkMember_def split: member_type.split json.split)

lemma fits_defined:
  "fits members fs \<Longrightarrow> p \<in> set fs \<Longrightarrow> UndefinedMember nm near \<notin> set (snd (check_property uri members p))"
  using check_never_undefined by (cases p) (fastforce simp: fits_def check_property_def)

lemma valid_if_fits:
  assumes "EVENT_BY_URI uri = Some row" and "fits (er_members row) fs" and "supplies (er_members row) fs"
  shows "vd_ok (validateEvent uri (Some (JObj fs)))"
    and "UndefinedMember nm near \<notin> set (vd_warnings (validateEvent uri (Some (JObj fs))))"
proof -
  have missing: "concat (map (\<lambda>m. if em_required m \<and> own fs (em_name m) = None then [MemberMissing uri (em_name m)]
      else []) (er_members row)) = []"
    using assms(3) by (auto simp: supplies_def)
  have errors: "concat (map fst (map (check_property uri (er_members row)) fs)) = []"
    using fits_no_errors [OF assms(2)] by auto
  show "vd_ok (validateEvent uri (Some (JObj fs)))"
    using missing errors by (simp add: validateEvent_def assms(1) Let_def)
  show "UndefinedMember nm near \<notin> set (vd_warnings (validateEvent uri (Some (JObj fs))))"
    using fits_defined [OF assms(2)] by (auto simp: validateEvent_def assms(1) Let_def)
qed

lemma generated_fits:
  assumes "EVENT_BY_URI uri = Some row" and "uri = SESSION_ESTABLISHED \<Longrightarrow> strings_only (own values ''amr'')"
  shows "fits (er_members row) (generateEvent uri values)" and "supplies (er_members row) (generateEvent uri values)"
  using catalogue_sound [OF assms(1)] catalogue_row [OF assms(1)] assms by (simp_all add: sound_row_def generateEvent_def)

lemma generated_valid:
  assumes "EVENT_BY_URI uri = Some row" and "uri = SESSION_ESTABLISHED \<Longrightarrow> strings_only (own values ''amr'')"
  shows "vd_ok (validateEvent uri (Some (JObj (generateEvent uri values))))"
    and "UndefinedMember nm near \<notin> set (vd_warnings (validateEvent uri (Some (JObj (generateEvent uri values)))))"
  using valid_if_fits [OF assms(1) generated_fits [OF assms]] by simp_all

text \<open>The one member copied without a look at its elements.\<close>

lemma session_established_row: "EVENT_BY_URI SESSION_ESTABLISHED = Some row_session_established"
  using catalogue_lookup [of row_session_established]
  by (simp add: EVENTS_def CAEP_EVENTS_def) (simp add: row_session_established_def SESSION_ESTABLISHED_def)

lemma session_established_amr:
  assumes "\<not> strings_only (own values ''amr'')"
  shows "NotStrings ''amr'' \<in> set (vd_errors (validateEvent SESSION_ESTABLISHED (Some (JObj (generateEvent SESSION_ESTABLISHED values)))))"
proof -
  obtain xs where xs: "own values ''amr'' = Some (JArr xs)" "\<not> list_all (\<lambda>x. is_string (Some x)) xs"
    using assms by (auto simp: strings_only_def split: option.splits json.splits)
  have "(''amr'', JArr xs) \<in> set (generate_session_established values)"
    using xs by (cases xs) (simp_all add: generate_session_established_def)
  then show ?thesis
    using xs by (force simp: validateEvent_def generateEvent_def session_established_row Let_def check_property_def
        row_session_established_def withCommonMembers_def checkMember_def)
qed

lemma errors_not_ok: "x \<in> set (vd_errors (validateEvent uri p)) \<Longrightarrow> \<not> vd_ok (validateEvent uri p)"
  by (auto simp: validateEvent_def Let_def split: option.splits json.splits)

text \<open>C22: A payload that \<open>generateEvent\<close> builds for a type of the catalogue, from any values, passes
  \<open>validateEvent\<close> for that type, with no member the type does not define, whatever values the form holds; the one exception
  is \<open>session-established\<close> with an \<open>amr\<close> array of which some element is no string, which is copied unread
  and then refused.\<close>

theorem generated_events_validate:
  assumes "EVENT_BY_URI uri \<noteq> None"
  shows "let v = validateEvent uri (Some (JObj (generateEvent uri values)));
             copied_clean = (uri = SESSION_ESTABLISHED \<longrightarrow> strings_only (own values ''amr''))
         in (vd_ok v \<longleftrightarrow> copied_clean) \<and> (copied_clean \<longrightarrow> (\<forall>nm near. UndefinedMember nm near \<notin> set (vd_warnings v)))"
  using assms generated_valid session_established_amr [of "values"] errors_not_ok by (simp add: Let_def) blast

lemma generated_events_validate_witness:
  "EVENT_BY_URI SESSION_ESTABLISHED \<noteq> None
   \<and> vd_ok (validateEvent SESSION_ESTABLISHED
        (Some (JObj (generateEvent SESSION_ESTABLISHED [(''acr'', JStr ''aal2''), (''amr'', JArr [JStr ''pwd''])]))))
   \<and> \<not> vd_ok (validateEvent SESSION_ESTABLISHED (Some (JObj (generateEvent SESSION_ESTABLISHED [(''amr'', JArr [JNum ''1''])]))))"
proof -
  have k: "EVENT_BY_URI SESSION_ESTABLISHED \<noteq> None" by (simp add: session_established_row)
  show ?thesis
    using generated_events_validate [OF k, of "[(''acr'', JStr ''aal2''), (''amr'', JArr [JStr ''pwd''])]"]
      generated_events_validate [OF k, of "[(''amr'', JArr [JNum ''1''])]"] k
    by (simp add: strings_only_def is_string_def Let_def)
qed

end
