(* ===== verification/Caep_Page_Laws.thy ===== *)
theory Caep_Page_Laws
  imports Caep_Page Ssf_Events_Laws
begin

text \<open>
  What holds of the CAEP session in every state of its pane: an event built from the values the model suggests never
  contradicts the session, a revocation lasts until the session is established again, and changed claims are merged.
\<close>

lemma if_branchE:
  assumes "(if b then x else y) = r" and "b \<Longrightarrow> x = r \<Longrightarrow> P" and "y = r \<Longrightarrow> P"
  shows P
  using assms by (cases b) auto

subsection \<open>The refusal and the revocation\<close>

lemma revoked_event:
  assumes "apply_event now short body s = (s', ws)" and "cs_state s = Revoked"
    and "short \<noteq> ''session-established''" and "short \<noteq> ''session-presented''"
  shows "cs_state s' = Revoked"
  using assms(1) unfolding apply_event_def Let_def if_not_P [OF assms(3)] if_not_P [OF assms(4)]
  by (elim if_branchE) (use assms(2) in auto)

text \<open>C24: The model refuses exactly a presentation of a revoked session, a refusal changes nothing, and
  no event but \<open>session-established\<close> ends a revocation.\<close>

theorem revocation_holds:
  "let (s', v) = apply_caep now s uri payload
   in (cv_ok v \<longleftrightarrow> \<not> (short_name uri = ''session-presented'' \<and> cs_state s = Revoked))
      \<and> (cv_ok v \<longleftrightarrow> cv_errors v = [])
      \<and> (\<not> cv_ok v \<longrightarrow> s' = s)
      \<and> (cs_state s = Revoked \<and> short_name uri \<noteq> ''session-established'' \<longrightarrow> cs_state s' = Revoked)"
proof (cases "short_name uri = ''session-presented'' \<and> cs_state s = Revoked")
  case True
  then show ?thesis by (simp add: apply_caep_def)
next
  case False
  obtain s' ws where "apply_event now (short_name uri) (fields_of payload) s = (s', ws)" by fastforce
  with False show ?thesis
    using revoked_event [of now "short_name uri" "fields_of payload" s s' ws]
    by (auto simp: apply_caep_def Let_def)
qed

lemma revocation_holds_witness:
  "let s = (newSession 1 [] [] [])\<lparr>cs_state := Revoked\<rparr>
   in cs_state (fst (apply_caep 2 s (CAEP_PREFIX @ ''session-presented'') (Some (JObj [])))) = Revoked
      \<and> \<not> cv_ok (snd (apply_caep 2 s (CAEP_PREFIX @ ''session-presented'') (Some (JObj []))))"
  using revocation_holds [of 2 "(newSession 1 [] [] [])\<lparr>cs_state := Revoked\<rparr>" "CAEP_PREFIX @ ''session-presented''"
      "Some (JObj [])"]
  by (simp add: Let_def split_beta short_name_def starts_with_def)

subsection \<open>Merged claims\<close>

lemma own_fold_set_prop:
  assumes "distinct (map fst fs)" and "''__proto__'' \<notin> set (map fst fs)"
  shows "own (fold (\<lambda>(nm, v). set_prop nm v) fs old) nm = (case own fs nm of Some v \<Rightarrow> Some v | None \<Rightarrow> own old nm)"
  using assms
proof (induction fs arbitrary: old)
  case (Cons p fs)
  obtain k v where p: "p = (k, v)" by (cases p)
  have "own fs k = None" using Cons.prems p by (auto simp: own_def map_of_eq_None_iff)
  with Cons p show ?case by (auto simp: own_set_prop split: option.split)
qed simp

text \<open>A \<open>token-claims-change\<close> merges: a claim it carries takes its new value, every other claim keeps the one it
  had, and nothing else of the session changes.\<close>

theorem claims_are_merged:
  assumes "own body ''claims'' = Some (JObj fs)" and "distinct (map fst fs)" and "''__proto__'' \<notin> set (map fst fs)"
  shows "let s' = fst (apply_caep now s (CAEP_PREFIX @ ''token-claims-change'') (Some (JObj body)))
    in (\<forall>nm. own (cs_claims s') nm = (case own fs nm of Some v \<Rightarrow> Some v | None \<Rightarrow> own (cs_claims s) nm))
       \<and> s' = s\<lparr>cs_claims := cs_claims s'\<rparr>"
  using own_fold_set_prop [OF assms(2,3)]
  by (simp add: apply_caep_def short_name_def starts_with_def apply_event_def entries_of_def assms(1) Let_def)

lemma claims_are_merged_witness:
  "let s = (newSession 1 [] [] [])\<lparr>cs_claims := [(''role'', JStr ''admin''), (''dept'', JStr ''x'')]\<rparr>;
       s' = fst (apply_caep 2 s (CAEP_PREFIX @ ''token-claims-change'') (Some (JObj [(''claims'', JObj [(''role'', JStr ''staff'')])])))
   in own (cs_claims s') ''role'' = Some (JStr ''staff'') \<and> own (cs_claims s') ''dept'' = Some (JStr ''x'')"
  using claims_are_merged [of "[(''claims'', JObj [(''role'', JStr ''staff'')])]" "[(''role'', JStr ''staff'')]" 2
      "(newSession 1 [] [] [])\<lparr>cs_claims := [(''role'', JStr ''admin''), (''dept'', JStr ''x'')]\<rparr>"]
  by (simp add: Let_def)

subsection \<open>Events built from the model\<close>

fun missed :: "caep_warning \<Rightarrow> bool" where
  "missed (MissedAssurance v held) \<longleftrightarrow> True"
| "missed (MissedCompliance v held) \<longleftrightarrow> True"
| "missed (MissedRisk v held) \<longleftrightarrow> True"
| "missed w \<longleftrightarrow> False"

lemma missed_only:
  assumes "apply_event now short body s = (s', ws)" and "\<exists>w\<in>set ws. missed w"
  shows "(short = ''assurance-level-change'' \<and> contradicts (own body ''previous_level'') (as_level (cs_assurance s)))
    \<or> (short = ''device-compliance-change'' \<and> contradicts (own body ''previous_status'') (cs_compliance s))
    \<or> (short = ''risk-level-change'' \<and> contradicts (own body ''previous_level'') (rk_level (cs_risk s)))"
  using assms(1) unfolding apply_event_def Let_def
  by (elim if_branchE) (use assms(2) in \<open>auto split: if_splits\<close>)

text \<open>The values the events compare are those of a closed list.\<close>

definition session_ok :: "caep_session \<Rightarrow> bool" where
  "session_ok s \<longleftrightarrow>
     cs_compliance s \<in> {[], ''compliant'', ''not-compliant''} \<and> rk_level (cs_risk s) \<in> {[], ''LOW'', ''MEDIUM'', ''HIGH''}"

definition added_members :: "string list" where
  "added_members = [''event_timestamp'', ''initiating_entity'', ''reason_admin'', ''reason_user'']"

lemma own_buildPayload:
  assumes "nm \<notin> set added_members"
  shows "own (buildPayload now s uri None options) nm = own (generateEvent uri (suggest s uri)) nm"
  using assms
  by (simp add: buildPayload_def add_reason_def add_initiator_def add_timestamp_def own_update added_members_def
      split: option.split json.split)

lemma set_update: "set (AList.update k v fs) \<subseteq> insert (k, v) (set fs)"
  by (induction fs) auto

lemma fits_update:
  assumes "fits members fs" and "find (\<lambda>m. em_name m = k) members = Some m" and "fst (checkMember m v) = []"
  shows "fits members (AList.update k v fs)"
  using assms set_update [of k v fs] unfolding fits_def by auto

lemma supplies_update: "supplies members fs \<Longrightarrow> supplies members (AList.update k v fs)"
  by (auto simp: supplies_def own_update)

definition takes_common :: "event_member list \<Rightarrow> bool" where
  "takes_common members \<longleftrightarrow>
     list_all (\<lambda>m. find (\<lambda>m'. em_name m' = em_name m) members = Some m) CAEP_COMMON_MEMBERS"

lemma caep_takes_common: "list_all (\<lambda>row. takes_common (er_members row)) CAEP_EVENTS"
  by code_simp

lemma fits_added:
  assumes "takes_common members" and "fits members fs"
  shows "fits members (add_timestamp now (caepOptions now' form) fs)" and "fits members (add_initiator options fs)"
    and "nm \<in> {''reason_admin'', ''reason_user''} \<Longrightarrow> fits members (add_reason nm opt options fs)"
  using assms
  by (auto simp: takes_common_def CAEP_COMMON_MEMBERS_def add_timestamp_def add_initiator_def add_reason_def
      caepOptions_def caepTimestamp_def checkMember_def set_prop_def intro!: fits_update
      split: option.split json.split)

lemma supplies_added:
  assumes "supplies members fs"
  shows "supplies members (add_timestamp now options fs)" and "supplies members (add_initiator options fs)"
    and "supplies members (add_reason nm opt options fs)"
  using assms
  by (auto simp: add_timestamp_def add_initiator_def add_reason_def intro!: supplies_update split: option.split json.split)

lemma caep_row:
  assumes "EVENT_BY_URI uri = Some row" and "er_family row = ''caep''"
  shows "row \<in> set CAEP_EVENTS"
proof -
  have "list_all (\<lambda>row. er_family row \<noteq> ''caep'') (SSF_EVENTS @ RISC_EVENTS)" by code_simp
  then show ?thesis using catalogue_row [OF assms(1)] assms(2) by (auto simp: EVENTS_def list_all_iff)
qed

lemma suggested_amr: "strings_only (own (suggest s uri) ''amr'') \<longleftrightarrow> (short_name uri = ''session-established'' \<longrightarrow> list_all (\<lambda>x. is_string (Some x)) (cs_amr s))"
  by (auto simp: suggest_def strings_only_def Let_def)

lemma form_amr [simp]: "list_all (\<lambda>x. is_string (Some x)) (cs_amr (caepFromFields now r1 r2 form model))"
  by (auto simp: caepFromFields_def list_all_iff Let_def)

lemma built_valid:
  assumes "EVENT_BY_URI uri = Some row" and "er_family row = ''caep''"
    and "list_all (\<lambda>x. is_string (Some x)) (cs_amr s)"
  shows "vd_ok (validateEvent uri (Some (JObj (buildPayload now s uri None (caepOptions now' form)))))"
proof -
  have c: "takes_common (er_members row)"
    using caep_takes_common caep_row [OF assms(1,2)] by (auto simp: list_all_iff)
  have g: "fits (er_members row) (generateEvent uri (suggest s uri))" "supplies (er_members row) (generateEvent uri (suggest s uri))"
    using generated_fits [OF assms(1), of "suggest s uri"] assms(3) by (simp_all add: suggested_amr)
  show ?thesis
    unfolding buildPayload_def option.case
    by (intro valid_if_fits(1) [OF assms(1)] fits_added [OF c] supplies_added g insertI1 insertI2)
qed

text \<open>What the three comparing events carry when the model suggests their values.\<close>

lemma short_name_uri: "short_name uri = x \<Longrightarrow> x \<noteq> [] \<Longrightarrow> uri = CAEP_PREFIX @ x"
  by (auto simp: short_name_def starts_with_def split: if_splits) (metis append_take_drop_id)

lemma short_name_prefixed [simp]: "short_name (CAEP_PREFIX @ x) = x"
  by (simp add: short_name_def starts_with_def)

lemma comparing_rows:
  "EVENT_BY_URI (CAEP_PREFIX @ ''assurance-level-change'') = Some row_assurance_level_change"
  "EVENT_BY_URI (CAEP_PREFIX @ ''device-compliance-change'') = Some row_device_compliance_change"
  "EVENT_BY_URI (CAEP_PREFIX @ ''risk-level-change'') = Some row_risk_level_change"
  using catalogue_lookup [of row_assurance_level_change] catalogue_lookup [of row_device_compliance_change]
    catalogue_lookup [of row_risk_level_change]
  by (simp_all add: EVENTS_def CAEP_EVENTS_def)
    (simp_all add: row_assurance_level_change_def row_device_compliance_change_def row_risk_level_change_def)

lemmas piece_defs = text_member_def listed_member_def one_of_def text_or_def

lemma suggested_assurance:
  assumes "short_name uri = ''assurance-level-change''"
  shows "own (generateEvent uri (suggest s uri)) ''previous_level''
       = Some (js_or (Some (JStr (as_level (cs_assurance s)))) (JStr ''aal1''))"
  using short_name_uri [OF assms]
  by (simp add: generateEvent_def comparing_rows suggest_def Let_def)
    (simp add: row_assurance_level_change_def generate_assurance_level_change_def piece_defs)

lemma suggested_compliance:
  assumes "short_name uri = ''device-compliance-change''" and "session_ok s"
  shows "own (generateEvent uri (suggest s uri)) ''previous_status'' = Some (js_or (Some (JStr (cs_compliance s))) (JStr ''compliant''))"
    and "own (generateEvent uri (suggest s uri)) ''current_status'' \<in> {Some (JStr ''compliant''), Some (JStr ''not-compliant'')}"
  using short_name_uri [OF assms(1)] assms(2)
  by (simp_all add: generateEvent_def comparing_rows suggest_def Let_def)
    (auto simp: row_device_compliance_change_def generate_device_compliance_change_def piece_defs session_ok_def)

lemma suggested_risk:
  assumes "short_name uri = ''risk-level-change''" and "session_ok s"
  shows "own (generateEvent uri (suggest s uri)) ''previous_level'' = Some (js_or (Some (JStr (rk_level (cs_risk s)))) (JStr ''LOW''))"
    and "own (generateEvent uri (suggest s uri)) ''current_level''
      \<in> {Some (JStr ''LOW''), Some (JStr ''MEDIUM''), Some (JStr ''HIGH'')}"
  using short_name_uri [OF assms(1)] assms(2)
  by (simp_all add: generateEvent_def comparing_rows suggest_def Let_def)
    (auto simp: row_risk_level_change_def generate_risk_level_change_def piece_defs session_ok_def)

lemma js_or_agrees: "\<not> contradicts (Some (js_or (Some (JStr held)) d)) held"
  by (simp add: contradicts_def)

lemma suggested_never_missed:
  assumes "session_ok s" and "apply_event now (short_name uri) (buildPayload now' s uri None options) s = (s', ws)"
  shows "\<not> (\<exists>w\<in>set ws. missed w)"
proof
  assume "\<exists>w\<in>set ws. missed w"
  note m = missed_only [OF assms(2) this]
  have "own (buildPayload now' s uri None options) nm = own (generateEvent uri (suggest s uri)) nm"
    if "nm \<in> {''previous_level'', ''previous_status''}" for nm
    using that by (intro own_buildPayload) (auto simp: added_members_def)
  with m show False
    using suggested_assurance suggested_compliance(1) [OF _ assms(1)] suggested_risk(1) [OF _ assms(1)]
      js_or_agrees by (metis insertCI)
qed

subsection \<open>The pane\<close>

lemma session_ok_fields: "(\<And>s. model = Some s \<Longrightarrow> session_ok s) \<Longrightarrow> session_ok (caepFromFields now r1 r2 form model)"
  by (cases model) (auto simp: caepFromFields_def session_ok_def newSession_def blank_risk_def Let_def)

lemma session_ok_event:
  assumes "session_ok s" and "apply_event now (short_name uri) (buildPayload now' s uri None options) s = (s', ws)"
  shows "session_ok s'"
proof -
  let ?body = "buildPayload now' s uri None options"
  have other: "cs_compliance s' = cs_compliance s" if "short_name uri \<noteq> ''device-compliance-change''"
    using assms(2) unfolding apply_event_def Let_def if_not_P [OF that] by (elim if_branchE) auto
  have other': "cs_risk s' = cs_risk s" if "short_name uri \<noteq> ''risk-level-change''"
    using assms(2) unfolding apply_event_def Let_def if_not_P [OF that] by (elim if_branchE) auto
  have compliance: "cs_compliance s' \<in> {''compliant'', ''not-compliant''}" if "short_name uri = ''device-compliance-change''"
    using assms(2) suggested_compliance(2) [OF that assms(1)] own_buildPayload [of "''current_status''" now' s uri options]
    by (auto simp: apply_event_def that added_members_def)
  have risk: "rk_level (cs_risk s') \<in> {''LOW'', ''MEDIUM'', ''HIGH''}" if "short_name uri = ''risk-level-change''"
    using assms(2) suggested_risk(2) [OF that assms(1)] own_buildPayload [of "''current_level''" now' s uri options]
    by (auto simp: apply_event_def that added_members_def Let_def)
  show ?thesis
    using other other' compliance risk assms(1)
    by (cases "short_name uri = ''device-compliance-change''"; cases "short_name uri = ''risk-level-change''")
      (auto simp: session_ok_def)
qed

lemma session_ok_simulate:
  assumes "caepSimulate now r1 r2 form model uri = (s, out)" and "\<And>s. model = Some s \<Longrightarrow> session_ok s"
  shows "session_ok s" and "out = Pushing push \<Longrightarrow> \<not> (\<exists>w\<in>set (cp_warnings push). missed w)"
proof -
  let ?s = "caepFromFields now r1 r2 form model" and ?p = "buildPayload now (caepFromFields now r1 r2 form model) uri None (caepOptions now form)"
  have ok: "session_ok ?s" using assms(2) by (rule session_ok_fields)
  obtain s' ws where e: "apply_event now (short_name uri) ?p ?s = (s', ws)" by fastforce
  show "session_ok s"
    using assms(1) ok session_ok_event [OF ok e] e
    by (auto simp: caepSimulate_def apply_caep_def Let_def intro: session_ok_fields split: if_splits)
  show "out = Pushing push \<Longrightarrow> \<not> (\<exists>w\<in>set (cp_warnings push). missed w)"
    using assms(1) suggested_never_missed [OF ok e] e
    by (auto simp: caepSimulate_def apply_caep_def Let_def split: if_splits)
qed

definition pane_ok :: "caep_pane \<Rightarrow> bool" where
  "pane_ok p \<longleftrightarrow> (\<forall>s. cn_model p = Some s \<longrightarrow> session_ok s)"

lemma session_ok_reset [simp]: "session_ok (reset_caep now s)"
  by (simp add: session_ok_def reset_caep_def blank_risk_def)

lemma session_ok_new [simp]: "session_ok (newSession now r1 r2 asked)"
  by (simp add: session_ok_def newSession_def blank_risk_def Let_def)

lemma session_ok_record: "session_ok s \<Longrightarrow> session_ok (fst (record_caep now s uri detail ws))"
  by (simp add: record_caep_def session_ok_def Let_def)

lemma session_ok_settle: "session_ok s \<Longrightarrow> session_ok (caepSettle now r1 r2 form push outcome s)"
  by (auto simp: caepSettle_def Let_def intro!: session_ok_fields session_ok_record)

lemma pane_ok_step:
  assumes "caep_step p q" and "pane_ok p"
  shows "pane_ok q"
  using assms
proof (induction rule: caep_step.induct)
  case (Simulate p now r1 r2 form uri)
  then show ?case
    by (cases "caepSimulate now r1 r2 form (cn_model p) uri") (auto simp: pane_ok_def simulated_def intro: session_ok_simulate)
next
  case (Settle i p now r1 r2 form outcome)
  then show ?case
    by (cases "cn_pushes p ! i")
      (auto simp: pane_ok_def settled_def Let_def split: option.splits if_splits intro!: session_ok_fields session_ok_settle)
qed (auto simp: pane_ok_def replaced_session_def seedFrom_def seedFromSession_def resetCaepSession_def Let_def
      intro!: session_ok_fields)

lemma reachable_ok: "caep_reachable p \<Longrightarrow> pane_ok p"
proof (induction rule: caep_reachable.induct)
  case Opened
  show ?case by (simp add: pane_ok_def)
qed (rule pane_ok_step)

text \<open>In every state the CAEP pane reaches, simulating an event of CAEP from the form either is refused, which
  happens exactly for the presentation of a revoked session, or pushes a payload its own check accepts, without any warning
  that an event was missed: what the pane suggests never contradicts the session it draws.\<close>

theorem pane_never_contradicts_itself:
  assumes "caep_reachable p" and "EVENT_BY_URI uri = Some row" and "er_family row = ''caep''"
  shows "case snd (caepSimulate now r1 r2 form (cn_model p) uri) of
      Invalid_Payload errors \<Rightarrow> False
    | Refused errors \<Rightarrow>
        short_name uri = ''session-presented'' \<and> cs_state (caepFromFields now r1 r2 form (cn_model p)) = Revoked
    | Pushing push \<Rightarrow>
        vd_ok (validateEvent uri (Some (JObj (cp_payload push)))) \<and> \<not> (\<exists>w\<in>set (cp_warnings push). missed w)"
proof -
  obtain s out where sim: "caepSimulate now r1 r2 form (cn_model p) uri = (s, out)" by fastforce
  let ?s = "caepFromFields now r1 r2 form (cn_model p)"
  have v: "vd_ok (validateEvent uri (Some (JObj (buildPayload now ?s uri None (caepOptions now form)))))"
    by (rule built_valid [OF assms(2,3)]) simp
  have m: "out = Pushing push \<Longrightarrow> \<not> (\<exists>w\<in>set (cp_warnings push). missed w)" for push
    using session_ok_simulate(2) [OF sim] reachable_ok [OF assms(1)] by (simp add: pane_ok_def)
  show ?thesis
  proof (cases out)
    case (Invalid_Payload errors)
    then show ?thesis using sim v by (auto simp: caepSimulate_def Let_def split: prod.splits if_splits)
  next
    case (Refused errors)
    then show ?thesis
      using sim v by (auto simp: caepSimulate_def apply_caep_def Let_def split: prod.splits if_splits)
  next
    case (Pushing push)
    then have "cp_payload push = buildPayload now ?s uri None (caepOptions now form)"
      using sim v by (auto simp: caepSimulate_def Let_def split: prod.splits if_splits)
    then show ?thesis using sim v m [OF Pushing] Pushing by simp
  qed
qed

definition sample_form :: caep_form where
  "sample_form =
     \<lparr>cf_iss = ''https://op.example'', cf_sub = ''alice'', cf_sid = ''s1'', cf_device = [], cf_tenant = [], cf_acr = ''aal2'',
      cf_amr = ''pwd, otp'', cf_initiating = ''user'', cf_timestamp = ''now'', cf_language = [], cf_reason_admin = ''test'',
      cf_reason_user = [], cf_include_user = True, cf_include_session = True, cf_include_device = False,
      cf_include_tenant = False\<rparr>"

lemma pane_never_contradicts_itself_witness:
  "case snd (caepSimulate 5000 [] [] sample_form None (CAEP_PREFIX @ ''risk-level-change'')) of
      Invalid_Payload errors \<Rightarrow> False
    | Refused errors \<Rightarrow> False
    | Pushing push \<Rightarrow> \<not> (\<exists>w\<in>set (cp_warnings push). missed w)"
  using pane_never_contradicts_itself [OF Opened comparing_rows(3), of 5000 "[]" "[]" sample_form]
  by (simp add: row_risk_level_change_def split: caep_outcome.splits)

end
