(* ===== verification/Risc_Account.thy ===== *)
theory Risc_Account
  imports Simulated_Events Session_Handoff Ssf_Subjects
begin

text \<open>
  The account a RISC event is about (\<open>client/src/risc_account.js\<close>): its lifecycle, its opt-out state, its
  credential standing and its addresses, what each of the fourteen events does to them, the gate that silences an opted-out
  account, and the counters.  A sentence the source prints is a constructor of \<open>risc_warning\<close> or
  \<open>risc_problem\<close>; an operation that changes the account returns the changed account.
\<close>

subsection \<open>State\<close>

datatype lifecycle = Active | Disabled | Purged

datatype opt_state = Opt_In | Opt_Out_Initiated | Opt_Out

definition OPT_OUT_EVENTS :: "(string \<times> opt_state) list" where
  "OPT_OUT_EVENTS =
     [(''opt-in'', Opt_In), (''opt-out-initiated'', Opt_Out_Initiated), (''opt-out-cancelled'', Opt_In),
      (''opt-out-effective'', Opt_Out)]"

datatype risc_warning =
    StillSaidOfPurged
  | AlreadyDisabled
  | BulkAccount
  | NotDisabled
  | AlreadyPurged
  | ChangeOnlyRequired
  | NoDiscoveryTime
  | NoNewValue
  | NowSomebodyElses
  | RecoveryCutsBothWays
  | EverySession
  | NoSuchTransition string opt_state
  | SkippedInitiated

text \<open>What the log of an account keeps of an event: the findings of the model and those of the catalogue.\<close>

datatype risc_note = Model_Note risc_warning | Catalogue_Note finding

record identifier_change =
  ic_at :: seconds
  ic_from :: string
  ic_to :: string

record compromised_credential =
  cc_at :: seconds
  cc_credentialType :: string
  cc_discoveredAt :: string

record risc_account =
  ra_iss :: string
  ra_sub :: string
  ra_name :: string
  ra_email :: string
  ra_phone :: string
  ra_emailVerified :: bool
  ra_phoneVerified :: bool
  ra_formerIdentifiers :: "string list"
  ra_protocol :: string
  ra_source_sub :: json
  ra_source_iss :: json
  ra_source_email :: json
  ra_startedAt :: seconds
  ra_lifecycle :: lifecycle
  ra_optOut :: opt_state
  ra_credentialStanding :: string
  ra_credentialChangeRequired :: bool
  ra_recoveryActivated :: bool
  ra_identifierChanges :: "identifier_change list"
  ra_credentials :: "compromised_credential list"
  ra_counts :: counts
  ra_total :: nat
  ra_suppressed :: nat
  ra_events :: "risc_note sent_event list"

definition address_char :: "char \<Rightarrow> bool" where
  "address_char c \<longleftrightarrow> is_alpha c \<or> is_digit c \<or> c = CHR ''.'' \<or> c = CHR ''_'' \<or> c = CHR ''-''"

definition generatedEmail :: "string \<Rightarrow> string" where
  "generatedEmail sub =
     (let nm = filter address_char (if sub \<noteq> [] then sub else ''unknown'')
      in ''debugger-'' @ (if nm \<noteq> [] then nm else ''unknown'') @ ''@example.invalid'')"

definition newAccount :: "seconds \<Rightarrow> fields \<Rightarrow> risc_account" where
  "newAccount now asked =
     (let sub = js_text (own asked ''sub''); email = js_text (own asked ''email'');
          origin = (\<lambda>nm none. if truthy (own asked nm) then js_or (own asked ''from'') (JStr ''the ID Token'') else JStr none)
      in \<lparr>ra_iss = js_text (own asked ''iss''), ra_sub = sub, ra_name = js_text (own asked ''name''),
          ra_email = (if email \<noteq> [] then email else generatedEmail sub), ra_phone = js_text (own asked ''phone''),
          ra_emailVerified = truthy (own asked ''emailVerified''), ra_phoneVerified = truthy (own asked ''phoneVerified''),
          ra_formerIdentifiers = [], ra_protocol = js_text (own asked ''protocol''),
          ra_source_sub = origin ''sub'' ''generated here'', ra_source_iss = origin ''iss'' ''you'',
          ra_source_email = origin ''email'' ''generated here'', ra_startedAt = now, ra_lifecycle = Active,
          ra_optOut = Opt_In, ra_credentialStanding = [], ra_credentialChangeRequired = False,
          ra_recoveryActivated = False, ra_identifierChanges = [], ra_credentials = [], ra_counts = [], ra_total = 0,
          ra_suppressed = 0, ra_events = []\<rparr>)"

subsection \<open>Seeding\<close>

datatype risc_problem =
    NoSubClaim
  | NoSubjectFrom string
  | EmailGenerated
  | EmailUnverified string

definition identifierProblems :: "risc_account \<Rightarrow> string \<Rightarrow> risc_problem list" where
  "identifierProblems account from =
     (if from = [] then [EmailGenerated] else if \<not> ra_emailVerified account then [EmailUnverified from] else [])"

text \<open>\<open>previous && previous.iss || ''\<close>\<close>

definition previous_iss :: "risc_account option \<Rightarrow> json" where
  "previous_iss previous = JStr (case previous of Some a \<Rightarrow> ra_iss a | None \<Rightarrow> [])"

definition seedFrom :: "seconds \<Rightarrow> json option \<Rightarrow> risc_account option \<Rightarrow> risc_account \<times> risc_problem list" where
  "seedFrom now claims previous =
     (let body = fields_of claims; blank = JStr [];
          account = newAccount now
            [(''iss'', js_or (own body ''iss'') (previous_iss previous)),
             (''sub'', js_or (own body ''sub'') blank),
             (''name'', js_or (own body ''name'') (js_or (own body ''preferred_username'') blank)),
             (''email'', js_or (own body ''email'') blank),
             (''emailVerified'', JBool (own body ''email_verified'' = Some (JBool True))),
             (''phone'', js_or (own body ''phone_number'') blank),
             (''phoneVerified'', JBool (own body ''phone_number_verified'' = Some (JBool True)))]
      in (account,
          (if truthy (own body ''sub'') then [] else [NoSubClaim]) @
          identifierProblems account (if truthy (own body ''email'') then ''the ID Token'' else [])))"

definition seedFromSession :: "seconds \<Rightarrow> json option \<Rightarrow> risc_account option \<Rightarrow> risc_account \<times> risc_problem list" where
  "seedFromSession now descriptor previous =
     (let asked = fields_of descriptor; blank = JStr []; protocol = js_text (own asked ''protocol'');
          label = labelForProtocol protocol; from = ''the '' @ label @ '' sign-in'';
          account = newAccount now
            [(''protocol'', JStr protocol), (''from'', JStr from),
             (''iss'', js_or (own asked ''iss'') (previous_iss previous)),
             (''sub'', js_or (own asked ''sub'') blank),
             (''name'', js_or (own asked ''name'') blank),
             (''email'', js_or (own asked ''email'') blank),
             (''emailVerified'', JBool (own asked ''emailVerified'' = Some (JBool True))),
             (''phone'', js_or (own asked ''phone'') blank),
             (''phoneVerified'', JBool (own asked ''phoneVerified'' = Some (JBool True)))]
      in (account,
          (if truthy (own asked ''sub'') then [] else [NoSubjectFrom label]) @
          identifierProblems account (if truthy (own asked ''email'') then from else [])))"

subsection \<open>Subjects and payloads\<close>

definition subjectFor :: "risc_account \<Rightarrow> string \<Rightarrow> fields \<Rightarrow> fields" where
  "subjectFor account uri options =
     (let asked = js_String (js_or (own options ''format'') (JStr ''iss_sub''));
          forced = (case EVENT_BY_URI uri of Some row \<Rightarrow> er_subjectFormats row | None \<Rightarrow> None);
          format = (case forced of Some fs \<Rightarrow> if asked \<in> set fs then asked else hd fs | None \<Rightarrow> asked)
      in if format = ''email'' then [(''format'', JStr ''email''), (''email'', JStr (ra_email account))]
         else if format = ''phone_number'' then [(''format'', JStr ''phone_number''), (''phone_number'', JStr (ra_phone account))]
         else if format = ''opaque'' then [(''format'', JStr ''opaque''), (''id'', JStr (ra_sub account))]
         else if format = ''account''
         then [(''format'', JStr ''account''),
               (''uri'', JStr (''acct:'' @ (if ra_email account \<noteq> [] then ra_email account else ra_sub account)))]
         else [(''format'', JStr ''iss_sub''), (''iss'', JStr (ra_iss account)), (''sub'', JStr (ra_sub account))])"

text \<open>The grammar's verdict, and the warnings of the catalogue that the source appends to it.\<close>

definition checkSubject :: "json \<Rightarrow> string \<Rightarrow> string list \<Rightarrow> (subject_verdict \<times> finding list) option" where
  "checkSubject subject uri criticalMembers =
     map_option (\<lambda>verdict. (verdict, checkSubjectFormat uri (Some subject)))
       (validateSubjectId subject criticalMembers ''sub_id'')"

definition shortNameOf :: "string \<Rightarrow> string" where
  "shortNameOf uri = (if starts_with RISC_PREFIX uri then drop (length RISC_PREFIX) uri else [])"

definition nextAddress :: "string \<Rightarrow> string" where
  "nextAddress email =
     (if CHR ''@'' \<in> set email \<and> hd email \<noteq> CHR ''@''
      then before (CHR ''@'') email @ ''.new'' @ drop (length (before (CHR ''@'') email)) email
      else ''somebody.else@example.com'')"

definition suggest :: "risc_account \<Rightarrow> string \<Rightarrow> fields" where
  "suggest account uri =
     (let short = shortNameOf uri
      in if short = ''account-disabled'' then [(''reason'', JStr ''hijacking'')]
         else if short = ''credential-compromise'' then [(''credential_type'', JStr ''password'')]
         else if short = ''identifier-changed'' then [(''new-value'', JStr (nextAddress (ra_email account)))]
         else [])"

definition buildPayload :: "seconds \<Rightarrow> risc_account \<Rightarrow> string \<Rightarrow> fields option \<Rightarrow> fields \<Rightarrow> fields" where
  "buildPayload now account uri values options =
     (let payload = generateEvent uri (case values of Some vs \<Rightarrow> vs | None \<Rightarrow> suggest account uri);
          takesThem = (case EVENT_BY_URI uri of
                         Some row \<Rightarrow> \<exists>m\<in>set (er_members row). em_name m = ''reason_admin''
                       | None \<Rightarrow> False)
      in if \<not> takesThem then payload
         else add_reason ''reason_user'' ''reasonUser'' options
                (add_reason ''reason_admin'' ''reasonAdmin'' options (add_timestamp now options payload)))"

subsection \<open>The gate\<close>

text \<open>An opt-out event is never suppressed; the table of them inherits like every object.  \<open>honour\<close> is false
  where the source compares it with \<open>false\<close>.\<close>

definition gate :: "risc_account \<Rightarrow> string \<Rightarrow> bool \<Rightarrow> bool" where
  "gate account uri honour =
     (let short = shortNameOf uri
      in if map_of OPT_OUT_EVENTS short \<noteq> None \<or> short \<in> set inherited_names then True
         else if \<not> honour then True
         else ra_optOut account \<noteq> Opt_Out)"

datatype risc_refusal = EnableOfPurged

definition refusals :: "risc_account \<Rightarrow> string \<Rightarrow> risc_refusal list" where
  "refusals account uri =
     (if ra_lifecycle account = Purged \<and> shortNameOf uri = ''account-enabled'' then [EnableOfPurged] else [])"

subsection \<open>The state machine\<close>

definition legal_opt_moves :: "(string \<times> opt_state list) list" where
  "legal_opt_moves =
     [(''opt-out-initiated'', [Opt_In]),
      (''opt-out-cancelled'', [Opt_Out_Initiated]),
      (''opt-out-effective'', [Opt_Out_Initiated]),
      (''opt-in'', [Opt_Out, Opt_Out_Initiated])]"

definition applyOptOut :: "string \<Rightarrow> risc_account \<Rightarrow> risc_account \<times> risc_warning list" where
  "applyOptOut short account =
     (let from = ra_optOut account;
          legal = (case map_of legal_opt_moves short of Some ss \<Rightarrow> ss | None \<Rightarrow> [])
      in (account\<lparr>ra_optOut := (case map_of OPT_OUT_EVENTS short of Some st \<Rightarrow> st | None \<Rightarrow> from)\<rparr>,
          (if from \<notin> set legal then [NoSuchTransition short from] else []) @
          (if short = ''opt-out-effective'' \<and> from = Opt_In then [SkippedInitiated] else [])))"

definition remember_address :: "risc_account \<Rightarrow> risc_account" where
  "remember_address account =
     (if ra_email account \<noteq> [] \<and> ra_email account \<notin> set (ra_formerIdentifiers account)
      then account\<lparr>ra_formerIdentifiers := ra_formerIdentifiers account @ [ra_email account]\<rparr> else account)"

text \<open>What a known event does.  A name that the table of opt-out events inherits reaches
  \<open>applyOptOut\<close>, where reading \<open>indexOf\<close> of what the table of moves inherits throws: \<open>None\<close>.\<close>

definition apply_event ::
  "seconds \<Rightarrow> string \<Rightarrow> fields \<Rightarrow> risc_account \<Rightarrow> (risc_account \<times> risc_warning list) option"
where
  "apply_event now short body account =
     (if short = ''account-disabled'' then
        Some (if ra_lifecycle account \<noteq> Purged then account\<lparr>ra_lifecycle := Disabled\<rparr> else account,
              (if ra_lifecycle account = Disabled then [AlreadyDisabled] else []) @
              (if own body ''reason'' = Some (JStr ''bulk-account'') then [BulkAccount] else []))
      else if short = ''account-enabled'' then
        Some (account\<lparr>ra_lifecycle := Active\<rparr>, if ra_lifecycle account = Active then [NotDisabled] else [])
      else if short = ''account-purged'' then
        Some (account\<lparr>ra_lifecycle := Purged\<rparr>, if ra_lifecycle account = Purged then [AlreadyPurged] else [])
      else if short = ''account-credential-change-required'' then
        Some (account\<lparr>ra_credentialChangeRequired := True\<rparr>, [ChangeOnlyRequired])
      else if short = ''credential-compromise'' then
        (let c = \<lparr>cc_at = now, cc_credentialType = js_text (own body ''credential_type''),
                  cc_discoveredAt = (case own body ''event_timestamp'' of Some (JNum n) \<Rightarrow> n | _ \<Rightarrow> ''0'')\<rparr>
         in Some (account\<lparr>ra_credentialStanding := ''compromised'',
                          ra_credentials := take 10 (c # ra_credentials account)\<rparr>,
                  if is_number (own body ''event_timestamp'') then [] else [NoDiscoveryTime]))
      else if short = ''identifier-changed'' then
        (let to = js_text (own body ''new-value'');
             change = \<lparr>ic_at = now, ic_from = ra_email account, ic_to = to\<rparr>;
             account = remember_address account;
             account = account\<lparr>ra_identifierChanges := take 10 (change # ra_identifierChanges account)\<rparr>
         in Some (if to \<noteq> [] then account\<lparr>ra_email := to, ra_emailVerified := False\<rparr> else account,
                  if to = [] then [NoNewValue] else []))
      else if short = ''identifier-recycled'' then Some (remember_address account, [NowSomebodyElses])
      else if short = ''recovery-activated'' then
        Some (account\<lparr>ra_recoveryActivated := True\<rparr>, [RecoveryCutsBothWays])
      else if short = ''sessions-revoked'' then Some (account, [EverySession])
      else if short \<in> set inherited_names then None
      else if map_of OPT_OUT_EVENTS short \<noteq> None then Some (applyOptOut short account)
      else Some (account, []))"

record risc_verdict =
  rv_ok :: bool
  rv_errors :: "risc_refusal list"
  rv_warnings :: "risc_warning list"
  rv_lifecycle :: lifecycle
  rv_optOut :: opt_state

definition verdict_of :: "risc_account \<Rightarrow> risc_refusal list \<Rightarrow> risc_warning list \<Rightarrow> risc_verdict" where
  "verdict_of account errors warnings =
     \<lparr>rv_ok = (errors = []), rv_errors = errors, rv_warnings = warnings, rv_lifecycle = ra_lifecycle account,
      rv_optOut = ra_optOut account\<rparr>"

definition apply_risc ::
  "seconds \<Rightarrow> risc_account \<Rightarrow> string \<Rightarrow> json option \<Rightarrow> (risc_account \<times> risc_verdict) option"
where
  "apply_risc now account uri payload =
     (let short = shortNameOf uri; errors = refusals account uri
      in if short = [] then Some (account, (verdict_of account errors [])\<lparr>rv_ok := True\<rparr>)
         else if errors \<noteq> [] then Some (account, verdict_of account errors [])
         else
           (let early = (if ra_lifecycle account = Purged \<and> short \<noteq> ''account-purged'' then [StillSaidOfPurged] else [])
            in map_option (\<lambda>(account', ws). (account', verdict_of account' errors (early @ ws)))
                 (apply_event now short (fields_of payload) account)))"

subsection \<open>Counting\<close>

definition record_risc :: "seconds \<Rightarrow> risc_account \<Rightarrow> string \<Rightarrow> fields \<Rightarrow> risc_note list \<Rightarrow> risc_account \<times> nat" where
  "record_risc now account uri detail warnings =
     (let account' = account\<lparr>ra_counts := bump uri (ra_counts account), ra_total := ra_total account + 1,
                             ra_events := keep_event (sent_entry now uri detail warnings) (ra_events account)\<rparr>
      in (account', ra_total account'))"

definition recordSuppressed :: "risc_account \<Rightarrow> risc_account \<times> nat" where
  "recordSuppressed account =
     (let account' = account\<lparr>ra_suppressed := ra_suppressed account + 1\<rparr> in (account', ra_suppressed account'))"

definition reset_risc :: "seconds \<Rightarrow> risc_account \<Rightarrow> risc_account" where
  "reset_risc now account =
     account\<lparr>ra_lifecycle := Active, ra_optOut := Opt_In, ra_credentialStanding := [],
             ra_credentialChangeRequired := False, ra_recoveryActivated := False, ra_identifierChanges := [],
             ra_credentials := [], ra_counts := [], ra_total := 0, ra_suppressed := 0, ra_events := [],
             ra_startedAt := now\<rparr>"

record risc_count_row =
  rc_uri :: string
  rc_name :: string
  rc_short :: string
  rc_deprecated :: string
  rc_count :: nat

definition describe_counts :: "risc_account \<Rightarrow> risc_count_row list" where
  "describe_counts account =
     map (\<lambda>row. \<lparr>rc_uri = er_uri row, rc_name = er_name row, rc_short = drop (length RISC_PREFIX) (er_uri row),
                rc_deprecated = er_deprecated row, rc_count = count_of (ra_counts account) (er_uri row)\<rparr>) RISC_EVENTS"

end
