(* ===== verification/Risc_Page.thy ===== *)
theory Risc_Page
  imports Risc_Account
begin

text \<open>
  The RISC pane of the Shared Signals page (\<open>client/src/ssf.js\<close>): the form, the account read out of it on every
  draw, the simulation of an event in its five stages (refuse, gate, apply, push, count), and the states
  the pane can be in.  What the push itself answers is a parameter.
\<close>

subsection \<open>The form\<close>

record risc_form =
  rf_iss :: string
  rf_sub :: string
  rf_email :: string
  rf_phone :: string
  rf_credential_type :: string
  rf_new_value :: string
  rf_timestamp :: string
  rf_language :: string
  rf_reason_admin :: string
  rf_reason_user :: string
  rf_subject_format :: string
  rf_honour_optout :: bool

definition riscFromFields :: "seconds \<Rightarrow> risc_form \<Rightarrow> risc_account option \<Rightarrow> risc_account" where
  "riscFromFields now form model =
     (let account = (case model of Some a \<Rightarrow> a | None \<Rightarrow> newAccount now []);
          account = account\<lparr>ra_iss := rf_iss form, ra_sub := rf_sub form\<rparr>;
          account = (if rf_email form \<noteq> []
                     then account\<lparr>ra_emailVerified := (rf_email form = ra_email account \<and> ra_emailVerified account),
                                  ra_email := rf_email form\<rparr>
                     else account)
      in account\<lparr>ra_phone := rf_phone form\<rparr>)"

definition riscValuesFor :: "risc_form \<Rightarrow> string \<Rightarrow> fields" where
  "riscValuesFor form uri =
     (let short = shortNameOf uri
      in if short = ''credential-compromise''
         then [(''credential_type'', JStr (if rf_credential_type form \<noteq> [] then rf_credential_type form else ''password''))]
         else if short = ''identifier-changed'' then [(''new-value'', JStr (rf_new_value form))]
         else if short = ''account-disabled'' then [(''reason'', JStr ''hijacking'')]
         else [])"

definition riscTimestamp :: "seconds \<Rightarrow> risc_form \<Rightarrow> json" where
  "riscTimestamp now form =
     (if rf_timestamp form = ''omit'' then JBool False
      else if rf_timestamp form = ''hour'' then JNum (show_nat (now - 3600))
      else JNum (show_nat now))"

definition riscOptions :: "seconds \<Rightarrow> risc_form \<Rightarrow> fields" where
  "riscOptions now form =
     [(''eventTimestamp'', riscTimestamp now form),
      (''language'', JStr (if rf_language form \<noteq> [] then rf_language form else ''en'')),
      (''reasonAdmin'', JStr (rf_reason_admin form)), (''reasonUser'', JStr (rf_reason_user form))]"

subsection \<open>Simulating an event\<close>

record risc_push =
  rp_uri :: string
  rp_payload :: fields
  rp_subject :: fields
  rp_notes :: "risc_note list"

datatype risc_outcome =
    Invalid_Payload "finding list"
  | Refused "risc_refusal list"
  | Suppressed
  | Threw
  | Pushing risc_push

definition riscSimulate ::
  "seconds \<Rightarrow> risc_form \<Rightarrow> risc_account option \<Rightarrow> string \<Rightarrow> risc_account \<times> risc_outcome"
where
  "riscSimulate now form model uri =
     (let account = riscFromFields now form model;
          payload = buildPayload now account uri (Some (riscValuesFor form uri)) (riscOptions now form);
          verdict = validateEvent uri (Some (JObj payload));
          refused = refusals account uri
      in if \<not> vd_ok verdict then (account, Invalid_Payload (vd_errors verdict))
         else if refused \<noteq> [] then (riscFromFields now form (Some account), Refused refused)
         else if \<not> gate account uri (rf_honour_optout form)
         then (riscFromFields now form (Some (fst (recordSuppressed account))), Suppressed)
         else (case apply_risc now account uri (Some (JObj payload)) of
                 None \<Rightarrow> (account, Threw)
               | Some (account', applied) \<Rightarrow>
                   (account',
                    Pushing \<lparr>rp_uri = uri, rp_payload = payload,
                             rp_subject = subjectFor account' uri [(''format'', JStr (rf_subject_format form))],
                             rp_notes = map Model_Note (rv_warnings applied) @ map Catalogue_Note (vd_warnings verdict)\<rparr>)))"

text \<open>What follows the push: the event is counted, with what the push answered, and the pane is drawn.\<close>

definition riscSettle :: "seconds \<Rightarrow> risc_form \<Rightarrow> risc_push \<Rightarrow> fields \<Rightarrow> risc_account \<Rightarrow> risc_account" where
  "riscSettle now form push outcome account =
     (let detail = [(''jti'', js_or (own outcome ''jti'') (JStr [])),
                    (''outcome'', js_or (own outcome ''outcome'') (JStr ''not sent''))]
      in riscFromFields now form (Some (fst (record_risc now account (rp_uri push) detail (rp_notes push)))))"

definition resetRiscAccount :: "seconds \<Rightarrow> risc_form \<Rightarrow> risc_account option \<Rightarrow> risc_account" where
  "resetRiscAccount now form model = riscFromFields now form (Some (reset_risc now (riscFromFields now form model)))"

subsection \<open>The pane\<close>

text \<open>Seeding replaces the account object, and a push that is under way counts on the object it began with: each
  object has a number, and a push that settles after a replacement only draws the pane.\<close>

record risc_pane =
  rn_model :: "risc_account option"
  rn_object :: nat
  rn_pushes :: "(nat \<times> risc_push) list"

definition replaced_account :: "risc_account \<Rightarrow> risc_pane \<Rightarrow> risc_pane" where
  "replaced_account account p = p\<lparr>rn_model := Some account, rn_object := rn_object p + 1\<rparr>"

definition settled :: "seconds \<Rightarrow> risc_form \<Rightarrow> fields \<Rightarrow> nat \<Rightarrow> risc_pane \<Rightarrow> risc_pane" where
  "settled now form outcome i p =
     (let (object, push) = rn_pushes p ! i;
          account = (case rn_model p of
                       Some a \<Rightarrow> if object = rn_object p then riscSettle now form push outcome a
                                else riscFromFields now form (Some a)
                     | None \<Rightarrow> riscFromFields now form None)
      in p\<lparr>rn_model := Some account, rn_pushes := take i (rn_pushes p) @ drop (Suc i) (rn_pushes p)\<rparr>)"

definition simulated :: "seconds \<Rightarrow> risc_form \<Rightarrow> string \<Rightarrow> risc_pane \<Rightarrow> risc_pane" where
  "simulated now form uri p =
     (let (account, out) = riscSimulate now form (rn_model p) uri
      in p\<lparr>rn_model := Some account,
           rn_pushes := rn_pushes p @ (case out of Pushing push \<Rightarrow> [(rn_object p, push)] | _ \<Rightarrow> [])\<rparr>)"

inductive risc_step :: "risc_pane \<Rightarrow> risc_pane \<Rightarrow> bool" where
  Draw: "risc_step p (p\<lparr>rn_model := Some (riscFromFields now form (rn_model p))\<rparr>)"
| Simulate: "risc_step p (simulated now form uri p)"
| Settle: "i < length (rn_pushes p) \<Longrightarrow> risc_step p (settled now form outcome i p)"
| Reset: "risc_step p (p\<lparr>rn_model := Some (resetRiscAccount now form (rn_model p))\<rparr>)"
| FillFromToken: "risc_step p (replaced_account (fst (seedFrom now claims (rn_model p))) p)"
| FillFromSession: "risc_step p (replaced_account (fst (seedFromSession now descriptor (rn_model p))) p)"

inductive risc_reachable :: "risc_pane \<Rightarrow> bool" where
  Opened: "risc_reachable \<lparr>rn_model = None, rn_object = 0, rn_pushes = []\<rparr>"
| Step: "risc_reachable p \<Longrightarrow> risc_step p q \<Longrightarrow> risc_reachable q"

end
