(* ===== verification/Session_Handoff_Laws.thy ===== *)
theory Session_Handoff_Laws
  imports Session_Handoff
begin

text \<open>
  The hand-off as a machine of three states, idle, waiting and holding a session, and the proof that the six slots
  of the store implement it; what of a delivered session survives the crossing.
\<close>

subsection \<open>Slots\<close>

lemma get_drop [simp]: "get_item k (drop_item k' tab) = (if k = k' then None else get_item k tab)"
  by (cases tab) (auto simp: get_item_def drop_item_def delete_conv')

lemma get_put [simp]:
  "snd (put_item k' v tab) \<Longrightarrow> get_item k (fst (put_item k' v tab)) = (if k = k' then Some v else get_item k tab)"
  by (cases tab) (auto simp: get_item_def put_item_def update_conv')

definition writable :: "tab \<Rightarrow> bool" where
  "writable tab \<longleftrightarrow> (\<exists>s. tab = Some s \<and> \<not> ss_full s)"

lemma writable_drop [simp]: "writable (drop_item k tab) \<longleftrightarrow> writable tab"
  by (cases tab) (auto simp: writable_def drop_item_def)

lemma writable_put [simp]: "writable (fst (put_item k v tab)) \<longleftrightarrow> writable tab"
  by (cases tab) (auto simp: writable_def put_item_def)

lemma put_written [simp]: "writable tab \<Longrightarrow> snd (put_item k v tab)"
  by (auto simp: writable_def put_item_def)

lemma unwritable_put: "\<not> writable tab \<Longrightarrow> put_item k v tab = (tab, False)"
  by (cases tab) (auto simp: writable_def put_item_def)

lemma keys_distinct [simp]:
  "K_ACTIVE \<noteq> K_RETURN" "K_ACTIVE \<noteq> K_LABEL" "K_ACTIVE \<noteq> K_WANTED" "K_ACTIVE \<noteq> K_SESSION" "K_ACTIVE \<noteq> K_META"
  "K_RETURN \<noteq> K_LABEL" "K_RETURN \<noteq> K_WANTED" "K_RETURN \<noteq> K_SESSION" "K_RETURN \<noteq> K_META"
  "K_LABEL \<noteq> K_WANTED" "K_LABEL \<noteq> K_SESSION" "K_LABEL \<noteq> K_META" "K_WANTED \<noteq> K_SESSION" "K_WANTED \<noteq> K_META"
  "K_SESSION \<noteq> K_META"
  by (simp_all add: key_defs)

lemmas keys_distinct' [simp] = keys_distinct [symmetric]

subsection \<open>The abstract machine\<close>

datatype handoff =
    Idle
  | Waiting
  | Holding handed_session string nat

definition handoff_of :: "tab \<Rightarrow> handoff" where
  "handoff_of tab =
     (if \<not> isActive tab then Idle
      else (case (get_item K_SESSION tab, get_item K_META tab) of
              (Some (SessionItem s), Some (MetaItem source t)) \<Rightarrow> Holding s source t
            | _ \<Rightarrow> Waiting))"

text \<open>What the operations keep of a store: a session is there only while a workflow waits, and always with its
  provenance.\<close>

definition store_ok :: "tab \<Rightarrow> bool" where
  "store_ok tab \<longleftrightarrow>
     (get_item K_SESSION tab = None \<and> get_item K_META tab = None) \<or>
     (isActive tab \<and> (\<exists>s source t. get_item K_SESSION tab = Some (SessionItem s) \<and> get_item K_META tab = Some (MetaItem source t)))"

definition abs_start :: "fields \<Rightarrow> handoff \<Rightarrow> handoff" where
  "abs_start settings h = (if js_text (own settings ''returnUrl'') = [] then h else Waiting)"

definition abs_deliver :: "nat \<Rightarrow> fields \<Rightarrow> string \<Rightarrow> handoff \<Rightarrow> handoff" where
  "abs_deliver now asked source h =
     (if h = Idle then Idle
      else Holding (packed asked) (if source \<noteq> [] then source else labelForProtocol (js_text (own asked ''protocol''))) now)"

definition abs_take :: "nat \<Rightarrow> handoff \<Rightarrow> taken" where
  "abs_take now h =
     (case h of
        Holding s source t \<Rightarrow>
          \<lparr>tk_session = (if t \<noteq> 0 \<and> TTL_MS < now - t then None else Some s), tk_source = source,
           tk_expired = (t \<noteq> 0 \<and> TTL_MS < now - t)\<rparr>
      | _ \<Rightarrow> \<lparr>tk_session = None, tk_source = [], tk_expired = False\<rparr>)"

lemmas slot_simps = isActive_def get_text_def handoff_of_def store_ok_def

lemma start_refines:
  "writable tab \<Longrightarrow> handoff_of (fst (start settings tab)) = abs_start settings (handoff_of tab)"
  "writable tab \<Longrightarrow> store_ok tab \<Longrightarrow> store_ok (fst (start settings tab))"
  "writable tab \<Longrightarrow> snd (start settings tab) \<longleftrightarrow> js_text (own settings ''returnUrl'') \<noteq> []"
  by (auto simp: start_def abs_start_def Let_def slot_simps)

lemma cancel_refines: "handoff_of (cancel tab) = Idle" "store_ok (cancel tab)"
  by (simp_all add: cancel_def slot_simps)

lemma deliver_idle: "\<not> isActive tab \<Longrightarrow> deliver now asked source tab = (tab, False)"
  by (simp add: deliver_def)

lemma deliver_active:
  assumes "writable tab" and "isActive tab"
  shows "snd (deliver now asked source tab)"
    and "get_item k (fst (deliver now asked source tab)) =
      (if k = K_META then Some (MetaItem (if source \<noteq> [] then source else labelForProtocol (hs_protocol (packed asked))) now)
       else if k = K_SESSION then Some (SessionItem (packed asked)) else get_item k tab)"
proof -
  obtain tab' where t: "put_item K_SESSION (SessionItem (packed asked)) tab = (tab', True)"
    using put_written [OF assms(1)] by (metis prod.collapse)
  have w: "writable tab'" using assms writable_put [of K_SESSION "SessionItem (packed asked)" tab] by (simp add: t)
  have g: "get_item k tab' = (if k = K_SESSION then Some (SessionItem (packed asked)) else get_item k tab)" for k
    using get_put [of K_SESSION "SessionItem (packed asked)" tab k] by (simp add: t)
  show "snd (deliver now asked source tab)" using assms by (simp add: deliver_def t)
  show "get_item k (fst (deliver now asked source tab)) =
      (if k = K_META then Some (MetaItem (if source \<noteq> [] then source else labelForProtocol (hs_protocol (packed asked))) now)
       else if k = K_SESSION then Some (SessionItem (packed asked)) else get_item k tab)"
    using assms w by (simp add: deliver_def t g)
qed

lemma deliver_refines:
  assumes "writable tab"
  shows "handoff_of (fst (deliver now asked source tab)) = abs_deliver now asked source (handoff_of tab)"
    and "store_ok tab \<Longrightarrow> store_ok (fst (deliver now asked source tab))"
    and "snd (deliver now asked source tab) \<longleftrightarrow> handoff_of tab \<noteq> Idle"
proof -
  have idle: "handoff_of tab = Idle \<longleftrightarrow> \<not> isActive tab"
    by (simp add: handoff_of_def split: option.split item.split)
  have active: "isActive (fst (deliver now asked source tab)) \<longleftrightarrow> isActive tab"
    by (cases "isActive tab") (simp_all add: deliver_idle deliver_active [OF assms] isActive_def get_text_def)
  show "handoff_of (fst (deliver now asked source tab)) = abs_deliver now asked source (handoff_of tab)"
  proof (cases "isActive tab")
    case True
    then show ?thesis
      unfolding abs_deliver_def idle by (simp add: handoff_of_def active deliver_active [OF assms] packed_def)
  next
    case False
    then show ?thesis by (simp add: abs_deliver_def idle deliver_idle)
  qed
  show "store_ok tab \<Longrightarrow> store_ok (fst (deliver now asked source tab))"
    by (cases "isActive tab") (simp_all add: store_ok_def active deliver_idle deliver_active [OF assms])
  show "snd (deliver now asked source tab) \<longleftrightarrow> handoff_of tab \<noteq> Idle"
    by (cases "isActive tab") (simp_all add: idle deliver_idle deliver_active [OF assms])
qed

lemma take_clears: "get_item k (fst (take_session now tab)) = None \<or> k \<notin> {K_ACTIVE, K_SESSION, K_META}"
  by (auto simp: take_session_def Let_def split: prod.split option.split item.split)

lemma take_idle: "handoff_of (fst (take_session now tab)) = Idle" "store_ok (fst (take_session now tab))"
  using take_clears [of K_ACTIVE now tab] take_clears [of K_SESSION now tab] take_clears [of K_META now tab]
  by (simp_all add: handoff_of_def store_ok_def isActive_def get_text_def)

lemma take_refines:
  assumes "store_ok tab"
  shows "snd (take_session now tab) = abs_take now (handoff_of tab)"
proof (cases "get_item K_SESSION tab = None")
  case True
  then have "handoff_of tab \<in> {Idle, Waiting}" by (simp add: handoff_of_def)
  with True show ?thesis by (auto simp: take_session_def abs_take_def Let_def split: prod.split)
next
  case False
  then obtain s source t where a: "isActive tab" and i: "get_item K_SESSION tab = Some (SessionItem s)"
    "get_item K_META tab = Some (MetaItem source t)"
    using assms by (auto simp: store_ok_def)
  then show ?thesis by (simp add: take_session_def abs_take_def handoff_of_def)
qed

subsection \<open>The identifier that is real\<close>

text \<open>What crosses answers the question whether its session identifier is real as what was delivered did.\<close>

lemma packed_real [simp]: "sessionIdIsReal (session_object (packed asked)) = sessionIdIsReal asked"
proof (cases "trim (js_text (own asked ''sid'')) = []")
  case True
  then show ?thesis by (simp add: sessionIdIsReal_def session_object_def packed_def)
next
  case False
  then show ?thesis
    by (cases "sessionIdIsReal asked") (simp_all add: sessionIdIsReal_def session_object_def packed_def)
qed

subsection \<open>Runs\<close>

datatype handoff_call = Start fields | Deliver nat fields string | Cancel

definition run_call :: "handoff_call \<Rightarrow> tab \<Rightarrow> tab" where
  "run_call c tab =
     (case c of
        Start settings \<Rightarrow> fst (start settings tab)
      | Deliver now asked source \<Rightarrow> fst (deliver now asked source tab)
      | Cancel \<Rightarrow> cancel tab)"

definition abs_call :: "handoff_call \<Rightarrow> handoff \<Rightarrow> handoff" where
  "abs_call c h =
     (case c of
        Start settings \<Rightarrow> abs_start settings h
      | Deliver now asked source \<Rightarrow> abs_deliver now asked source h
      | Cancel \<Rightarrow> Idle)"

lemma writable_call [simp]: "writable tab \<Longrightarrow> writable (run_call c tab)"
  by (auto simp: run_call_def start_def deliver_def cancel_def Let_def split: handoff_call.split prod.split)
    (metis fst_conv writable_put)+

lemma call_refines:
  "writable tab \<Longrightarrow> handoff_of (run_call c tab) = abs_call c (handoff_of tab)"
  "writable tab \<Longrightarrow> store_ok tab \<Longrightarrow> store_ok (run_call c tab)"
  by (cases c; simp add: run_call_def abs_call_def start_refines cancel_refines deliver_refines)+

lemma run_refines:
  assumes "writable tab" and "store_ok tab"
  shows "handoff_of (fold run_call cs tab) = fold abs_call cs (handoff_of tab) \<and> store_ok (fold run_call cs tab)"
  using assms by (induction cs arbitrary: tab) (simp_all add: call_refines)

text \<open>C23: Whatever starts, deliveries and cancellations a tab with a working store has seen, collecting returns what the
  machine of three states holds: nothing unless a session was delivered since the last start, the last one delivered, with
  its provenance, and only within half an hour; and it leaves the hand-off idle, so that a second collection returns nothing.\<close>

theorem handoff_collects:
  assumes "tab = Some \<lparr>ss_full = False, ss_slots = []\<rparr>"
  shows "let filled = fold run_call cs tab; (emptied, got) = take_session now filled
    in got = abs_take now (fold abs_call cs Idle)
       \<and> snd (take_session later emptied) = \<lparr>tk_session = None, tk_source = [], tk_expired = False\<rparr>
       \<and> \<not> isActive emptied"
proof -
  have w: "writable tab" and o: "store_ok tab" and h: "handoff_of tab = Idle"
    using assms by (simp_all add: writable_def store_ok_def handoff_of_def isActive_def get_text_def get_item_def)
  let ?filled = "fold run_call cs tab" and ?emptied = "fst (take_session now (fold run_call cs tab))"
  have "snd (take_session now ?filled) = abs_take now (fold abs_call cs Idle)"
    using run_refines [OF w o, of cs] take_refines [of ?filled] by (simp add: h)
  moreover have "snd (take_session later ?emptied) = \<lparr>tk_session = None, tk_source = [], tk_expired = False\<rparr>"
    using take_refines [OF take_idle(2) [of now ?filled], of later] take_idle(1) [of now ?filled] by (simp add: abs_take_def)
  moreover have "\<not> isActive ?emptied"
    using take_idle(1) [of now ?filled] by (auto simp: handoff_of_def split: if_splits option.splits item.splits)
  ultimately show ?thesis by (simp add: Let_def split_beta)
qed

lemma handoff_collects_witness:
  "let tab = Some \<lparr>ss_full = False, ss_slots = []\<rparr>;
       cs = [Start [(''returnUrl'', JStr ''/ssf'')], Deliver 1000 [(''protocol'', JStr ''saml2''), (''sid'', JStr ''_1'')] ''s''];
       (emptied, got) = take_session 2000 (fold run_call cs tab)
   in got = abs_take 2000 (fold abs_call cs Idle) \<and> map_option hs_sid (tk_session got) = Some ''_1'' \<and> \<not> isActive emptied"
proof -
  let ?cs = "[Start [(''returnUrl'', JStr ''/ssf'')], Deliver 1000 [(''protocol'', JStr ''saml2''), (''sid'', JStr ''_1'')] ''s'']"
  have "map_option hs_sid (tk_session (abs_take 2000 (fold abs_call ?cs Idle))) = Some ''_1''"
    by (simp add: abs_call_def abs_start_def abs_deliver_def abs_take_def TTL_MS_def packed_def)
  then show ?thesis
    using handoff_collects [OF refl, of ?cs 2000 3000] by (simp add: Let_def split_beta)
qed

end
