(* ===== verification/Risc_Page_Laws.thy ===== *)
theory Risc_Page_Laws
  imports Risc_Page Ssf_Events_Laws Session_Handoff_Laws
begin

text \<open>
  What holds of the RISC account in every state of its pane: its bookkeeping, the finality of a purge, the gate and
  the opt-out events that pass it, and the address that an identifier change names.
\<close>

named_theorems account_simps "the operations on an account, unfolded"

subsection \<open>The bookkeeping\<close>

text \<open>The whole history of an account, which the pane does not keep: the entry of every push that settled on the
  account since it was made or last reset, newest first.  A push that settles after its account was replaced is
  no part of it.\<close>

definition sent_by :: "seconds \<Rightarrow> fields \<Rightarrow> risc_push \<Rightarrow> risc_note sent_event" where
  "sent_by now outcome push =
     \<lparr>se_at = now, se_uri = rp_uri push, se_name = event_name (rp_uri push),
      se_jti = js_text (Some (js_or (own outcome ''jti'') (JStr []))),
      se_outcome = js_text (Some (js_or (own outcome ''outcome'') (JStr ''not sent''))), se_warnings = rp_notes push\<rparr>"

inductive risc_history :: "risc_pane \<Rightarrow> risc_note sent_event list \<Rightarrow> bool" where
  Opened: "risc_history \<lparr>rn_model = None, rn_object = 0, rn_pushes = []\<rparr> []"
| Draw: "risc_history p h \<Longrightarrow> risc_history (p\<lparr>rn_model := Some (riscFromFields now form (rn_model p))\<rparr>) h"
| Simulate: "risc_history p h \<Longrightarrow> risc_history (simulated now form uri p) h"
| Settle: "risc_history p h \<Longrightarrow> i < length (rn_pushes p) \<Longrightarrow> rn_pushes p ! i = (object, push) \<Longrightarrow>
    risc_history (settled now form outcome i p)
      (if rn_model p \<noteq> None \<and> object = rn_object p then sent_by now outcome push # h else h)"
| Reset: "risc_history p h \<Longrightarrow> risc_history (p\<lparr>rn_model := Some (resetRiscAccount now form (rn_model p))\<rparr>) []"
| FillFromToken: "risc_history p h \<Longrightarrow> risc_history (replaced_account (fst (seedFrom now claims (rn_model p))) p) []"
| FillFromSession:
    "risc_history p h \<Longrightarrow> risc_history (replaced_account (fst (seedFromSession now descriptor (rn_model p))) p) []"

text \<open>Every state the pane reaches has a history, and only those have one.\<close>

lemma reachable_has_history: "risc_reachable p \<longleftrightarrow> (\<exists>h. risc_history p h)"
proof
  assume "risc_reachable p"
  then show "\<exists>h. risc_history p h"
  proof (induction rule: risc_reachable.induct)
    case (Step p q)
    then obtain h where h: "risc_history p h" by blast
    from Step(2) show ?case
    proof (cases rule: risc_step.cases)
      case (Settle i now form outcome)
      with h risc_history.Settle [OF h] show ?thesis by (metis prod.collapse)
    qed (use h in \<open>blast intro: risc_history.intros\<close>)+
  qed (blast intro: risc_history.intros)
next
  assume "\<exists>h. risc_history p h"
  then obtain h where "risc_history p h" by blast
  then show "risc_reachable p"
    by (induction rule: risc_history.induct) (blast intro: risc_reachable.intros risc_step.intros)+
qed

text \<open>The account against its history \<open>h\<close>.\<close>

definition account_ok :: "risc_note sent_event list \<Rightarrow> risc_account \<Rightarrow> bool" where
  "account_ok h a \<longleftrightarrow>
     distinct (ra_formerIdentifiers a) \<and> [] \<notin> set (ra_formerIdentifiers a) \<and> ra_email a \<noteq> []
     \<and> length (ra_identifierChanges a) \<le> 10 \<and> length (ra_credentials a) \<le> 10
     \<and> ra_events a = take 40 h \<and> ra_total a = length h
     \<and> (\<forall>uri. count_of (ra_counts a) uri = length (filter (\<lambda>e. se_uri e = uri) h))
     \<and> sum_list (map snd (ra_counts a)) = ra_total a \<and> distinct (map fst (ra_counts a))"

lemma generatedEmail_nonempty [simp]: "generatedEmail sub \<noteq> []"
  by (simp add: generatedEmail_def Let_def)

lemma ok_newAccount [simp]: "account_ok [] (newAccount now asked)"
  by (simp add: account_ok_def newAccount_def Let_def)

lemma ok_remember: "account_ok h a \<Longrightarrow> account_ok h (remember_address a)"
  by (auto simp: account_ok_def remember_address_def)

definition model_ok :: "risc_note sent_event list \<Rightarrow> risc_account option \<Rightarrow> bool" where
  "model_ok h model \<longleftrightarrow> (case model of None \<Rightarrow> h = [] | Some a \<Rightarrow> account_ok h a)"

lemma ok_fields: "model_ok h model \<Longrightarrow> account_ok h (riscFromFields now form model)"
  using ok_newAccount [of now "[]"]
  by (cases model) (auto simp: model_ok_def account_ok_def riscFromFields_def Let_def)

text \<open>For what holds on every branch of a chain of tests, whatever the tests say.\<close>

lemma if_SomeE:
  assumes "(if b then x else y) = Some r" and "x = Some r \<Longrightarrow> P" and "y = Some r \<Longrightarrow> P"
  shows P
  using assms by (cases b) auto

lemma ok_apply_event:
  assumes "apply_event now short body a = Some (a', ws)" and "account_ok h a"
  shows "account_ok h a'"
  using assms(1) assms(2) ok_remember [OF assms(2)] unfolding apply_event_def Let_def
  by (elim if_SomeE; simp add: applyOptOut_def Let_def split_beta; force simp: account_ok_def split: if_splits)

lemma ok_apply: "apply_risc now a uri payload = Some (a', v) \<Longrightarrow> account_ok h a \<Longrightarrow> account_ok h a'"
  by (auto simp: apply_risc_def Let_def split: if_splits dest: ok_apply_event)

lemma take_keep: "keep_event e (take 40 h) = take 40 (e # h)"
  by (simp add: keep_event_def EVENTS_KEPT_def take_Cons' min_def)

lemma ok_record: "account_ok h a \<Longrightarrow> account_ok (sent_entry now uri detail ws # h) (fst (record_risc now a uri detail ws))"
  by (auto simp: account_ok_def record_risc_def Let_def take_keep distinct_bump count_of_bump sent_entry_def)

lemma ok_suppressed: "account_ok h a \<Longrightarrow> account_ok h (fst (recordSuppressed a))"
  by (simp add: account_ok_def recordSuppressed_def Let_def)

lemma ok_reset: "account_ok h a \<Longrightarrow> account_ok [] (reset_risc now a)"
  by (simp add: account_ok_def reset_risc_def)

lemma ok_simulate:
  assumes "riscSimulate now form model uri = (a, out)" and "model_ok h model"
  shows "account_ok h a"
proof -
  have "account_ok h (riscFromFields now form model)" using assms(2) by (rule ok_fields)
  then show ?thesis
    using assms(1)
    by (auto simp: riscSimulate_def Let_def model_ok_def split: if_splits option.splits
        intro!: ok_fields ok_suppressed elim: ok_apply)
qed

lemma ok_settle: "account_ok h a \<Longrightarrow> account_ok (sent_by now outcome push # h) (riscSettle now form push outcome a)"
  using ok_record [of h a now "rp_uri push" "[(''jti'', js_or (own outcome ''jti'') (JStr [])),
      (''outcome'', js_or (own outcome ''outcome'') (JStr ''not sent''))]" "rp_notes push"]
  by (auto simp: riscSettle_def Let_def sent_entry_def sent_by_def own_def model_ok_def intro!: ok_fields)

lemma ok_resetAccount: "model_ok h model \<Longrightarrow> account_ok [] (resetRiscAccount now form model)"
  using ok_reset [OF ok_fields] by (auto simp: resetRiscAccount_def model_ok_def intro!: ok_fields)

lemma history_model_ok:
  assumes "risc_history p h"
  shows "model_ok h (rn_model p)"
  using assms
proof (induction rule: risc_history.induct)
  case (Draw p h now form)
  then show ?case using ok_fields [of h "rn_model p"] by (simp add: model_ok_def)
next
  case (Simulate p h now form uri)
  then show ?case
    by (cases "riscSimulate now form (rn_model p) uri") (auto simp: simulated_def model_ok_def [of _ "Some _"] intro: ok_simulate)
next
  case (Settle p h i object push now form outcome)
  then show ?case
    using ok_fields [of h "rn_model p" now form]
    by (auto simp: settled_def Let_def model_ok_def split: option.splits intro: ok_settle)
next
  case (Reset p h now form)
  then show ?case using ok_resetAccount [of h "rn_model p"] by (simp add: model_ok_def)
qed (simp_all add: model_ok_def replaced_account_def seedFrom_def seedFromSession_def Let_def)

text \<open>C25: in every state the RISC pane reaches, whatever events are simulated, however late their pushes settle,
  and however often the account is reset or seeded again, the account follows the history of the pushes settled on it since
  it was made or reset: it shows the last forty of them, newest first, its total is how many there were, and the counter
  of a type how many of that type; and it has an address, its former addresses are distinct and none is empty,
  and it keeps at most ten changes of address and ten compromised credentials.\<close>

theorem risc_account_bookkeeping:
  assumes "risc_history p h" and "rn_model p = Some a"
  shows "account_ok h a"
  using history_model_ok [OF assms(1)] assms(2) by (simp add: model_ok_def)

definition sample_form :: risc_form where
  "sample_form =
     \<lparr>rf_iss = ''https://op.example'', rf_sub = ''alice'', rf_email = ''alice@example.com'', rf_phone = [],
      rf_credential_type = [], rf_new_value = ''alice.new@example.com'', rf_timestamp = ''omit'', rf_language = [],
      rf_reason_admin = [], rf_reason_user = [], rf_subject_format = ''iss_sub'', rf_honour_optout = True\<rparr>"

lemma risc_account_bookkeeping_witness:
  "let p = \<lparr>rn_model = Some (riscFromFields 5 sample_form None), rn_object = 0, rn_pushes = []\<rparr>
   in risc_history p [] \<and> account_ok [] (riscFromFields 5 sample_form None)"
proof -
  have r: "risc_history \<lparr>rn_model = Some (riscFromFields 5 sample_form None), rn_object = 0, rn_pushes = []\<rparr> []"
    using risc_history.Draw [OF risc_history.Opened, of 5 sample_form] by simp
  then show ?thesis using risc_account_bookkeeping [OF r] by simp
qed

subsection \<open>The finality of a purge\<close>

definition nothing_said :: "risc_account \<Rightarrow> bool" where
  "nothing_said a \<longleftrightarrow>
     ra_lifecycle a = Active \<and> ra_optOut a = Opt_In \<and> ra_counts a = [] \<and> ra_total a = 0 \<and> ra_suppressed a = 0
     \<and> ra_events a = [] \<and> ra_identifierChanges a = [] \<and> ra_credentials a = []"

lemma lifecycle_fields [simp]:
  "ra_lifecycle (riscFromFields now form (Some a)) = ra_lifecycle a"
  "ra_optOut (riscFromFields now form (Some a)) = ra_optOut a"
  by (simp_all add: riscFromFields_def Let_def)

lemma lifecycle_counting [simp]:
  "ra_lifecycle (fst (record_risc now a uri detail ws)) = ra_lifecycle a"
  "ra_optOut (fst (record_risc now a uri detail ws)) = ra_optOut a"
  "ra_lifecycle (fst (recordSuppressed a)) = ra_lifecycle a" "ra_optOut (fst (recordSuppressed a)) = ra_optOut a"
  by (simp_all add: record_risc_def recordSuppressed_def Let_def)

lemma lifecycle_settle [simp]:
  "ra_lifecycle (riscSettle now form push outcome a) = ra_lifecycle a"
  "ra_optOut (riscSettle now form push outcome a) = ra_optOut a"
  by (simp_all add: riscSettle_def Let_def)

lemma said_fields: "nothing_said a \<Longrightarrow> nothing_said (riscFromFields now form (Some a))"
  by (simp add: nothing_said_def riscFromFields_def Let_def)

lemma said_reset [simp]: "nothing_said (resetRiscAccount now form model)"
  unfolding resetRiscAccount_def by (rule said_fields) (simp add: nothing_said_def reset_risc_def)

lemma said_seeded [simp]: "nothing_said (newAccount now asked)"
  by (simp add: nothing_said_def newAccount_def Let_def)

lemma remember_keeps [simp]:
  "ra_lifecycle (remember_address a) = ra_lifecycle a" "ra_optOut (remember_address a) = ra_optOut a"
  by (simp_all add: remember_address_def)

lemma purged_event:
  assumes "apply_event now short body a = Some (a', ws)" and "ra_lifecycle a = Purged" and "short \<noteq> ''account-enabled''"
  shows "ra_lifecycle a' = Purged"
  using assms(1) unfolding apply_event_def Let_def if_not_P [OF assms(3)]
  by (elim if_SomeE) (use assms(2) in \<open>auto simp: applyOptOut_def Let_def split: if_splits\<close>)

lemma purged_apply:
  assumes "apply_risc now a uri payload = Some (a', v)" and "ra_lifecycle a = Purged"
  shows "ra_lifecycle a' = Purged"
  using assms purged_event
  by (auto simp: apply_risc_def Let_def refusals_def split: if_splits)

lemma purged_simulate:
  assumes "riscSimulate now form (Some a) uri = (a', out)" and "ra_lifecycle a = Purged"
  shows "ra_lifecycle a' = Purged"
  using assms by (auto simp: riscSimulate_def Let_def split: if_splits option.splits elim: purged_apply)

text \<open>An account that was purged stays purged through every step of its pane, \<open>account-enabled\<close> included;
  the only steps that end it, resetting the account and seeding another, leave an account of which nothing has been said.\<close>

theorem purge_is_final:
  assumes "risc_step p q" and "rn_model p = Some a" and "ra_lifecycle a = Purged"
  shows "\<exists>b. rn_model q = Some b \<and> (ra_lifecycle b = Purged \<or> nothing_said b)"
  using assms
proof (induction rule: risc_step.induct)
  case (Simulate p now form uri)
  then show ?case
    by (cases "riscSimulate now form (rn_model p) uri") (auto simp: simulated_def dest: purged_simulate)
next
  case (Settle i p now form outcome)
  then show ?case by (cases "rn_pushes p ! i") (simp add: settled_def)
qed (simp_all add: replaced_account_def seedFrom_def seedFromSession_def Let_def)

lemma purge_is_final_witness:
  "let p = \<lparr>rn_model = Some ((newAccount 1 [])\<lparr>ra_lifecycle := Purged\<rparr>), rn_object = 0, rn_pushes = []\<rparr>;
       q = simulated 2 sample_form (RISC_PREFIX @ ''account-enabled'') p
   in risc_step p q \<and> (\<exists>b. rn_model q = Some b \<and> (ra_lifecycle b = Purged \<or> nothing_said b))"
proof -
  let ?p = "\<lparr>rn_model = Some ((newAccount 1 [])\<lparr>ra_lifecycle := Purged\<rparr>), rn_object = 0, rn_pushes = []\<rparr>"
  have s: "risc_step ?p (simulated 2 sample_form (RISC_PREFIX @ ''account-enabled'') ?p)" by (rule risc_step.Simulate)
  have "\<exists>b. rn_model (simulated 2 sample_form (RISC_PREFIX @ ''account-enabled'') ?p) = Some b
      \<and> (ra_lifecycle b = Purged \<or> nothing_said b)"
    by (rule purge_is_final [OF s, of "(newAccount 1 [])\<lparr>ra_lifecycle := Purged\<rparr>"]) simp_all
  with s show ?thesis unfolding Let_def by blast
qed

subsection \<open>The opt-out gate\<close>

definition opt_out_event :: "string \<Rightarrow> opt_state option" where
  "opt_out_event uri = map_of OPT_OUT_EVENTS (shortNameOf uri)"

text \<open>What a receiver believes that follows the opt-out events it is sent.\<close>

definition believed :: "risc_push \<Rightarrow> opt_state \<Rightarrow> opt_state" where
  "believed push st = (case opt_out_event (rp_uri push) of Some s \<Rightarrow> s | None \<Rightarrow> st)"

fun risc_run :: "(seconds \<times> risc_form \<times> string) list \<Rightarrow> risc_account \<Rightarrow> risc_account \<times> risc_push list" where
  "risc_run [] a = (a, [])"
| "risc_run ((now, form, uri) # todo) a =
     (let (a', out) = riscSimulate now form (Some a) uri; (b, pushes) = risc_run todo a'
      in (b, (case out of Pushing push \<Rightarrow> [push] | _ \<Rightarrow> []) @ pushes))"

lemma opt_out_names:
  "map_of OPT_OUT_EVENTS short = Some st \<Longrightarrow>
     short \<in> {''opt-in'', ''opt-out-initiated'', ''opt-out-cancelled'', ''opt-out-effective''}"
  by (auto simp: OPT_OUT_EVENTS_def split: if_splits)

lemma apply_opt_out_event:
  "map_of OPT_OUT_EVENTS short = Some st \<Longrightarrow> apply_event now short body a = Some (applyOptOut short a)"
  by (drule opt_out_names, elim insertE emptyE) (simp_all add: apply_event_def OPT_OUT_EVENTS_def inherited_names_def)

lemma optOut_event:
  assumes "apply_event now short body a = Some (a', ws)"
  shows "ra_optOut a' = (case map_of OPT_OUT_EVENTS short of Some st \<Rightarrow> st | None \<Rightarrow> ra_optOut a)"
proof (cases "map_of OPT_OUT_EVENTS short")
  case None
  show ?thesis
    using assms unfolding apply_event_def Let_def None
    by (elim if_SomeE) (auto simp: applyOptOut_def None Let_def split: if_splits)
next
  case (Some st)
  then show ?thesis using assms by (auto simp: apply_opt_out_event applyOptOut_def Let_def)
qed

lemma optOut_apply:
  assumes "apply_risc now a uri payload = Some (a', v)"
  shows "refusals a uri = [] \<Longrightarrow> ra_optOut a' = (case opt_out_event uri of Some st \<Rightarrow> st | None \<Rightarrow> ra_optOut a)"
  using assms
  by (auto simp: apply_risc_def Let_def opt_out_event_def OPT_OUT_EVENTS_def dest: optOut_event split: if_splits)

lemma catalogue_not_inherited: "EVENT_BY_URI uri = Some row \<Longrightarrow> shortNameOf uri \<notin> set inherited_names"
proof -
  have "list_all (\<lambda>row. shortNameOf (er_uri row) \<notin> set inherited_names) EVENTS" by code_simp
  then show "EVENT_BY_URI uri = Some row \<Longrightarrow> shortNameOf uri \<notin> set inherited_names"
    by (auto dest!: catalogue_row simp: list_all_iff)
qed

lemma valid_not_inherited: "vd_ok (validateEvent uri p) \<Longrightarrow> shortNameOf uri \<notin> set inherited_names"
  by (auto simp: validateEvent_def dest: catalogue_not_inherited split: option.splits)

lemma optOut_simulate:
  assumes "riscSimulate now form (Some a) uri = (a', out)"
  shows "ra_optOut a' = (case out of Pushing push \<Rightarrow> believed push (ra_optOut a) | _ \<Rightarrow> ra_optOut a)"
    and "out = Pushing push \<Longrightarrow> rf_honour_optout form \<Longrightarrow> ra_optOut a = Opt_Out
      \<Longrightarrow> opt_out_event (rp_uri push) \<noteq> None"
  using assms
  by (auto simp: riscSimulate_def Let_def believed_def gate_def opt_out_event_def dest!: optOut_apply valid_not_inherited
      split: if_splits option.splits)

lemma risc_run_optOut:
  assumes "risc_run todo a = (b, pushes)"
  shows "fold believed pushes (ra_optOut a) = ra_optOut b"
  using assms
proof (induction todo a arbitrary: b pushes rule: risc_run.induct)
  case (2 now form uri todo a)
  obtain a' out where s: "riscSimulate now form (Some a) uri = (a', out)" by fastforce
  obtain rest where r: "risc_run todo a' = (b, rest)"
    and p: "pushes = (case out of Pushing push \<Rightarrow> [push] | _ \<Rightarrow> []) @ rest"
    using 2(2) s by (auto split: prod.splits)
  from 2(1) [OF s [symmetric] refl r] optOut_simulate(1) [OF s] show ?case
    by (cases out) (simp_all add: p)
qed simp

lemma risc_run_silent:
  assumes "risc_run todo a = (b, sent @ push # later)" and "list_all (\<lambda>(_, form, _). rf_honour_optout form) todo"
    and "fold believed sent (ra_optOut a) = Opt_Out"
  shows "opt_out_event (rp_uri push) \<noteq> None"
  using assms
proof (induction todo a arbitrary: b sent rule: risc_run.induct)
  case (2 now form uri todo a)
  obtain a' out where s: "riscSimulate now form (Some a) uri = (a', out)" by fastforce
  obtain rest where r: "risc_run todo a' = (b, rest)"
    and p: "sent @ push # later = (case out of Pushing push \<Rightarrow> [push] | _ \<Rightarrow> []) @ rest"
    using 2(2) s by (auto split: prod.splits)
  have h: "rf_honour_optout form" "list_all (\<lambda>(_, form, _). rf_honour_optout form) todo" using 2(3) by simp_all
  show ?case
  proof (cases "(case out of Pushing push \<Rightarrow> [push] | _ \<Rightarrow> [])")
    case Nil
    then have "rest = sent @ push # later" "ra_optOut a' = ra_optOut a"
      using p optOut_simulate(1) [OF s] by (auto split: risc_outcome.splits)
    then show ?thesis using 2(1) [OF s [symmetric] refl, of b sent] r h(2) 2(4) by simp
  next
    case (Cons x xs)
    then have out: "out = Pushing x" and xs: "xs = []" by (auto split: risc_outcome.splits)
    show ?thesis
    proof (cases sent)
      case Nil
      then show ?thesis using p out 2(4) optOut_simulate(2) [OF s out h(1)] by simp
    next
      case (Cons y ys)
      then have "rest = ys @ push # later" "y = x" using p out by simp_all
      then show ?thesis
        using 2(1) [OF s [symmetric] refl, of b ys] r h(2) 2(4) Cons optOut_simulate(1) [OF s] out by simp
    qed
  qed
qed simp

text \<open>C26: A receiver that is sent the events of a run of simulations, and follows the opt-out events among them, holds at
  the end the opt-out state the page's account is in, whatever was suppressed or refused on the way; and when every
  simulation honours the opt-out, no event but an opt-out event is pushed while that receiver believes the account opted out.\<close>

theorem receiver_follows_opt_out:
  assumes "risc_run todo a = (b, pushes)"
  shows "fold believed pushes (ra_optOut a) = ra_optOut b
    \<and> (list_all (\<lambda>(_, form, _). rf_honour_optout form) todo \<longrightarrow>
         (\<forall>sent push later. pushes = sent @ push # later \<longrightarrow> fold believed sent (ra_optOut a) = Opt_Out
            \<longrightarrow> opt_out_event (rp_uri push) \<noteq> None))"
  using risc_run_optOut [OF assms] risc_run_silent assms by blast

definition sample_run :: "(seconds \<times> risc_form \<times> string) list" where
  "sample_run =
     map (\<lambda>nm. (7, sample_form, RISC_PREFIX @ nm))
       [''opt-out-initiated'', ''opt-out-effective'', ''account-disabled'', ''opt-in'', ''account-purged'']"

lemma sample_run_pushes:
  "map rp_uri (snd (risc_run sample_run (newAccount 1 []))) =
     map (\<lambda>nm. RISC_PREFIX @ nm) [''opt-out-initiated'', ''opt-out-effective'', ''opt-in'', ''account-purged'']"
  by code_simp

lemma receiver_follows_opt_out_witness:
  "fold believed (snd (risc_run sample_run (newAccount 1 []))) (ra_optOut (newAccount 1 []))
     = ra_optOut (fst (risc_run sample_run (newAccount 1 [])))
   \<and> map rp_uri (snd (risc_run sample_run (newAccount 1 []))) =
     map (\<lambda>nm. RISC_PREFIX @ nm) [''opt-out-initiated'', ''opt-out-effective'', ''opt-in'', ''account-purged'']"
  using receiver_follows_opt_out [OF prod.collapse [symmetric], of sample_run "newAccount 1 []"] sample_run_pushes
  by blast

subsection \<open>The address that changes\<close>

definition IDENTIFIER_CHANGED :: string where
  "IDENTIFIER_CHANGED = RISC_PREFIX @ ''identifier-changed''"

lemma identifier_changed_row: "EVENT_BY_URI IDENTIFIER_CHANGED = Some row_identifier_changed"
  using catalogue_lookup [of row_identifier_changed]
  by (simp add: EVENTS_def RISC_EVENTS_def) (simp add: row_identifier_changed_def IDENTIFIER_CHANGED_def)

lemma identifier_changed_short: "shortNameOf IDENTIFIER_CHANGED = ''identifier-changed''"
  by (simp add: IDENTIFIER_CHANGED_def shortNameOf_def starts_with_def)

lemma identifier_changed_payload:
  assumes "rf_new_value form \<noteq> []"
  shows "buildPayload now a IDENTIFIER_CHANGED (Some (riscValuesFor form IDENTIFIER_CHANGED)) options
     = [(''new-value'', JStr (rf_new_value form))]"
  using assms
  by (simp add: buildPayload_def riscValuesFor_def identifier_changed_short generateEvent_def identifier_changed_row Let_def)
    (simp add: row_identifier_changed_def generate_identifier_changed_def text_member_def)

lemma identifier_changed_valid:
  "validateEvent IDENTIFIER_CHANGED (Some (JObj [(''new-value'', JStr v)])) = \<lparr>vd_ok = True, vd_errors = [], vd_warnings = []\<rparr>"
  by (simp add: validateEvent_def identifier_changed_row Let_def check_property_def)
    (simp add: row_identifier_changed_def checkMember_def)

lemma identifier_changed_applied:
  assumes "v \<noteq> []"
  shows "\<exists>a' verdict. apply_risc now a IDENTIFIER_CHANGED (Some (JObj [(''new-value'', JStr v)])) = Some (a', verdict) \<and> ra_email a' = v"
  using assms by (simp add: apply_risc_def identifier_changed_short refusals_def Let_def apply_event_def)

text \<open>An \<open>identifier-changed\<close> that the pane pushes with a new address names that new address in its subject, where
  the event is to name the old one: the subject is read from the account after the change was applied to it.  And
  once the push has settled and the pane is drawn, the account's address is the one in the form again.\<close>

theorem identifier_change_names_new_address:
  assumes "rf_new_value form \<noteq> []" and "rf_subject_format form \<noteq> ''phone_number''"
    and "rf_honour_optout form \<longrightarrow> ra_optOut a \<noteq> Opt_Out"
  shows "\<exists>a' push. riscSimulate now form (Some a) IDENTIFIER_CHANGED = (a', Pushing push)
    \<and> rp_subject push = [(''format'', JStr ''email''), (''email'', JStr (rf_new_value form))]
    \<and> rp_payload push = [(''new-value'', JStr (rf_new_value form))]
    \<and> (\<forall>later outcome. ra_email (riscSettle later form push outcome a')
          = (if rf_email form \<noteq> [] then rf_email form else rf_new_value form))"
proof -
  let ?a = "riscFromFields now form (Some a)"
  obtain a' verdict
    where ap: "apply_risc now ?a IDENTIFIER_CHANGED (Some (JObj [(''new-value'', JStr (rf_new_value form))])) = Some (a', verdict)"
      and em: "ra_email a' = rf_new_value form"
    using identifier_changed_applied [OF assms(1)] by blast
  have g: "gate ?a IDENTIFIER_CHANGED (rf_honour_optout form)"
    using assms(3) by (auto simp: gate_def Let_def)
  have r: "refusals ?a IDENTIFIER_CHANGED = []" by (simp add: refusals_def identifier_changed_short)
  have s: "subjectFor a' IDENTIFIER_CHANGED [(''format'', JStr (rf_subject_format form))]
      = [(''format'', JStr ''email''), (''email'', JStr (rf_new_value form))]"
    using assms(2) em by (simp add: subjectFor_def identifier_changed_row Let_def) (simp add: row_identifier_changed_def)
  show ?thesis
    using g r s ap em
    by (simp add: riscSimulate_def identifier_changed_payload [OF assms(1)] identifier_changed_valid Let_def
        riscSettle_def riscFromFields_def record_risc_def)
qed

lemma identifier_change_names_new_address_witness:
  "\<exists>a' push. riscSimulate 9 sample_form (Some (newAccount 1 [])) IDENTIFIER_CHANGED = (a', Pushing push)
    \<and> rp_subject push = [(''format'', JStr ''email''), (''email'', JStr ''alice.new@example.com'')]
    \<and> ra_email (riscSettle 10 sample_form push [] a') = ''alice@example.com''"
  using identifier_change_names_new_address [of sample_form "newAccount 1 []" 9]
  by (fastforce simp: sample_form_def newAccount_def Let_def)

subsection \<open>An account from a hand-off\<close>

text \<open>An account seeded from a session that came through the hand-off never has the address of the sign-in: whatever
  the sign-in page delivered, the address and its verification do not cross, so the account's address is generated, not
  verified, and reported as generated.\<close>

theorem handed_over_account_has_no_address:
  "let (account, problems) = seedFromSession now (Some (JObj (session_object (packed asked)))) previous
   in ra_email account = generatedEmail (js_text (own asked ''sub'')) \<and> \<not> ra_emailVerified account
      \<and> EmailGenerated \<in> set problems"
  by (simp add: seedFromSession_def identifierProblems_def newAccount_def session_object_def packed_def Let_def
      js_or_def)

end
