(* ===== verification/Frodo_Params.thy ===== *)
theory Frodo_Params
  imports Js_Strings
begin

text \<open>
  The parameter sets of FrodoKEM (\<open>client/src/frodokem.js\<close>): the three tables, the cumulative distribution built from an error
  distribution, and the name of a variant resolved to its set and its switches.
\<close>

record frodo =
  fp_chi :: "nat list"
  fp_D :: nat
  fp_q :: nat
  fp_n :: nat
  fp_nbar :: nat
  fp_mbar :: nat
  fp_B :: nat
  fp_lenSeedA :: nat
  fp_lenZ :: nat
  fp_lenMu :: nat
  fp_lenSeedSE :: nat
  fp_lenSalt :: nat
  fp_lenS :: nat
  fp_lenK :: nat
  fp_lenPkh :: nat
  fp_lenSs :: nat
  fp_shake128 :: bool
  fp_skBytes :: nat
  fp_pkBytes :: nat
  fp_ctBytes :: nat
  fp_variant :: string
  fp_ephemeral :: bool
  fp_genAes :: bool
  fp_T_chi :: "nat list"

text \<open>The last four members are those that \<open>resolve\<close> adds.\<close>

definition SETS :: "(string \<times> frodo) list" where
  "SETS =
     [(''640'',
       \<lparr>fp_chi = [9288, 8720, 7216, 5264, 3384, 1918, 958, 422, 164, 56, 17, 4, 1], fp_D = 15, fp_q = 32768, fp_n = 640,
        fp_nbar = 8, fp_mbar = 8, fp_B = 2, fp_lenSeedA = 16, fp_lenZ = 16, fp_lenMu = 16, fp_lenSeedSE = 32,
        fp_lenSalt = 32, fp_lenS = 16, fp_lenK = 16, fp_lenPkh = 16, fp_lenSs = 16, fp_shake128 = True,
        fp_skBytes = 19888, fp_pkBytes = 9616, fp_ctBytes = 9752, fp_variant = '''', fp_ephemeral = False, fp_genAes = False, fp_T_chi = []\<rparr>),
      (''976'',
       \<lparr>fp_chi = [11278, 10277, 7774, 4882, 2545, 1101, 396, 118, 29, 6, 1], fp_D = 16, fp_q = 65536, fp_n = 976,
        fp_nbar = 8, fp_mbar = 8, fp_B = 3, fp_lenSeedA = 16, fp_lenZ = 16, fp_lenMu = 24, fp_lenSeedSE = 48,
        fp_lenSalt = 48, fp_lenS = 24, fp_lenK = 24, fp_lenPkh = 24, fp_lenSs = 24, fp_shake128 = False,
        fp_skBytes = 31296, fp_pkBytes = 15632, fp_ctBytes = 15792, fp_variant = '''', fp_ephemeral = False, fp_genAes = False, fp_T_chi = []\<rparr>),
      (''1344'',
       \<lparr>fp_chi = [18286, 14320, 6876, 2023, 364, 40, 2], fp_D = 16, fp_q = 65536, fp_n = 1344,
        fp_nbar = 8, fp_mbar = 8, fp_B = 4, fp_lenSeedA = 16, fp_lenZ = 16, fp_lenMu = 32, fp_lenSeedSE = 64,
        fp_lenSalt = 64, fp_lenS = 32, fp_lenK = 32, fp_lenPkh = 32, fp_lenSs = 32, fp_shake128 = False,
        fp_skBytes = 43088, fp_pkBytes = 21520, fp_ctBytes = 21696, fp_variant = '''', fp_ephemeral = False, fp_genAes = False, fp_T_chi = []\<rparr>)]"

text \<open>The loop of \<open>cdfOf\<close> over \<open>chi[1]\<close> and what follows, with the running sum.\<close>

fun cdf_loop :: "nat \<Rightarrow> nat \<Rightarrow> nat list \<Rightarrow> nat list" where
  "cdf_loop t0 running [] = []"
| "cdf_loop t0 running (c # cs) = (t0 + (running + c)) # cdf_loop t0 (running + c) cs"

definition cdfOf :: "nat list \<Rightarrow> nat list" where
  "cdfOf chi = (let t0 = hd chi div 2 - 1 in t0 # cdf_loop t0 0 (tl chi))"

text \<open>\<open>/^(e?)FrodoKEM-(640|976|1344)-(AES|SHAKE)$/\<close>: whether there is an \<open>e\<close>, the size and the generator.\<close>

definition match_variant :: "string \<Rightarrow> (bool \<times> string \<times> string) option" where
  "match_variant v =
     (let e = (take 1 v = ''e''); r = (if e then drop 1 v else v); t = drop 9 r;
          sz = before (CHR ''-'') t; gen = after (CHR ''-'') t
      in if take 9 r = ''FrodoKEM-'' \<and> CHR ''-'' \<in> set t \<and> sz \<in> {''640'', ''976'', ''1344''} \<and> gen \<in> {''AES'', ''SHAKE''}
         then Some (e, sz, gen) else None)"

definition ephemeral_lengths :: "frodo \<Rightarrow> frodo" where
  "ephemeral_lengths p =
     (let cryptoBytes = (if fp_n p = 640 then 16 else if fp_n p = 976 then 24 else 32)
      in p\<lparr>fp_lenS := cryptoBytes, fp_lenSeedSE := cryptoBytes, fp_lenK := cryptoBytes, fp_lenPkh := cryptoBytes,
           fp_lenSs := cryptoBytes, fp_lenZ := fp_lenSeedA p, fp_lenMu := (fp_B p * fp_nbar p * fp_nbar p) div 8,
           fp_lenSalt := 0,
           fp_ctBytes := (fp_D p * fp_n p * fp_nbar p) div 8 + (fp_D p * fp_nbar p * fp_nbar p) div 8\<rparr>)"

datatype frodo_error =
    UnknownVariant string
  | WrongPublicKeyLength nat nat
  | WrongSecretKeyLength nat nat
  | WrongCiphertextLength nat nat
  | LengthDisagreement

definition resolve :: "string \<Rightarrow> frodo_error + frodo" where
  "resolve variant =
     (case match_variant variant of
        None \<Rightarrow> Inl (UnknownVariant variant)
      | Some (e, sz, gen) \<Rightarrow>
          (case map_of SETS sz of
             None \<Rightarrow> Inl (UnknownVariant variant)
           | Some base \<Rightarrow>
               (let p = base\<lparr>fp_variant := variant, fp_ephemeral := e, fp_genAes := (gen = ''AES''), fp_T_chi := cdfOf (fp_chi base)\<rparr>
                in Inr (if e then ephemeral_lengths p else p))))"

definition VARIANTS :: "string list" where
  "VARIANTS =
     concat (map (\<lambda>prefix. concat (map (\<lambda>n. map (\<lambda>gen. prefix @ ''FrodoKEM-'' @ n @ ''-'' @ gen)
       [''AES'', ''SHAKE'']) [''640'', ''976'', ''1344''])) ['''', ''e''])"

text \<open>Algorithm 5: the low bit of \<open>r\<close> is the sign, the rest indexes the distribution.\<close>

definition sample :: "frodo \<Rightarrow> nat \<Rightarrow> int" where
  "sample p r =
     (let t = drop_bit 1 r;
          e = fold (\<lambda>z e. if fp_T_chi p ! z < t then e + 1 else e) [0..<length (fp_T_chi p) - 1] 0
      in if r AND 1 \<noteq> 0 then - e else e)"

subsection \<open>What every set satisfies\<close>

text \<open>The relations between the numbers of a set that the algorithms rely on.\<close>

definition frodo_ok :: "frodo \<Rightarrow> bool" where
  "frodo_ok p \<longleftrightarrow>
     fp_q p = 2 ^ fp_D p \<and> fp_D p \<le> 16 \<and> 0 < fp_B p \<and> fp_B p < fp_D p \<and> fp_nbar p = 8 \<and> fp_mbar p = 8 \<and> fp_n p mod 8 = 0
     \<and> 0 < fp_n p \<and> fp_n p \<le> 1344
     \<and> fp_lenMu p = fp_B p * 8 \<and> fp_lenK p = fp_lenS p \<and> fp_T_chi p = cdfOf (fp_chi p)
     \<and> fp_pkBytes p = fp_lenSeedA p + fp_D p * fp_n p
     \<and> fp_skBytes p = fp_lenS p + fp_pkBytes p + 16 * fp_n p + fp_lenPkh p
     \<and> fp_ctBytes p = fp_D p * fp_n p + fp_D p * 8 + fp_lenSalt p"

text \<open>The error distribution: an even weight for zero, and the whole of the sixteen-bit space.\<close>

definition chi_ok :: "nat list \<Rightarrow> bool" where
  "chi_ok chi \<longleftrightarrow> chi \<noteq> [] \<and> length chi \<le> 13 \<and> 2 \<le> hd chi \<and> even (hd chi) \<and> hd chi div 2 + sum_list (tl chi) = 32768"

lemma set_ok:
  assumes "map_of SETS sz = Some base"
    and p: "p = base\<lparr>fp_variant := v, fp_ephemeral := e, fp_genAes := g, fp_T_chi := cdfOf (fp_chi base)\<rparr>"
  shows "frodo_ok (if e then ephemeral_lengths p else p) \<and> chi_ok (fp_chi (if e then ephemeral_lengths p else p))"
proof -
  from assms(1) consider "base = snd (SETS ! 0)" | "base = snd (SETS ! 1)" | "base = snd (SETS ! 2)"
    by (auto simp: SETS_def split: if_split_asm)
  then show ?thesis
    by cases (simp_all add: p SETS_def frodo_ok_def ephemeral_lengths_def chi_ok_def)
qed

lemma before_after: "c \<in> set s \<Longrightarrow> before c s @ c # after c s = s"
  by (induction s) (auto simp: before_def after_def)

lemma match_variant_VARIANTS: "match_variant v = Some r \<Longrightarrow> v \<in> set VARIANTS"
proof -
  assume m: "match_variant v = Some r"
  define e w t where "e = (take 1 v = ''e'')" and "w = (if e then drop 1 v else v)" and "t = drop 9 w"
  from m have parts: "take 9 w = ''FrodoKEM-''" "CHR ''-'' \<in> set t" "before (CHR ''-'') t \<in> {''640'', ''976'', ''1344''}"
    "after (CHR ''-'') t \<in> {''AES'', ''SHAKE''}"
    by (simp_all add: match_variant_def Let_def e_def w_def t_def split: if_split_asm)
  have "v = (if e then ''e'' else '''') @ w"
    using append_take_drop_id [of 1 v] by (cases e) (simp_all only: w_def e_def if_True if_False append_Nil simp_thms)
  also have "w = ''FrodoKEM-'' @ t"
    using append_take_drop_id [of 9 w] parts(1) by (simp add: t_def)
  also have "t = before (CHR ''-'') t @ CHR ''-'' # after (CHR ''-'') t"
    using parts(2) by (simp add: before_after)
  finally have "v = (if e then ''e'' else '''') @ ''FrodoKEM-'' @ before (CHR ''-'') t @ CHR ''-'' # after (CHR ''-'') t" .
  with parts(3,4) show ?thesis by (cases e) (auto simp: VARIANTS_def)
qed

lemma resolve_ok: "resolve v = Inr p \<Longrightarrow> frodo_ok p \<and> chi_ok (fp_chi p)"
  using set_ok [OF _ refl] by (auto simp: resolve_def Let_def split: option.splits)

lemma match_VARIANTS: "list_all (\<lambda>v. case match_variant v of None \<Rightarrow> False | Some (e, sz, g) \<Rightarrow> sz \<in> set (map fst SETS)) VARIANTS"
  by (simp add: VARIANTS_def match_variant_def before_def after_def SETS_def)

lemma resolve_known: "v \<in> set VARIANTS \<Longrightarrow> \<exists>p. resolve v = Inr p"
proof -
  assume "v \<in> set VARIANTS"
  with match_VARIANTS obtain e sz g where "match_variant v = Some (e, sz, g)" "sz \<in> fst ` set SETS"
    by (fastforce simp: list_all_iff split: option.splits)
  moreover from this(2) obtain base where "map_of SETS sz = Some base"
    by (metis domD dom_map_of_conv_image_fst)
  ultimately show ?thesis by (simp add: resolve_def Let_def)
qed

lemma resolve_unknown: "v \<notin> set VARIANTS \<Longrightarrow> resolve v = Inl (UnknownVariant v)"
  using match_variant_VARIANTS [of v] by (auto simp: resolve_def split: option.splits)

subsection \<open>The cumulative distribution\<close>

lemma length_cdf_loop [simp]: "length (cdf_loop t0 a cs) = length cs"
  by (induction cs arbitrary: a) simp_all

lemma cdf_loop_nth: "i < length cs \<Longrightarrow> cdf_loop t0 a cs ! i = t0 + a + sum_list (take (Suc i) cs)"
  by (induction cs arbitrary: a i) (auto simp: nth_Cons split: nat.splits)

lemma length_cdfOf: "chi \<noteq> [] \<Longrightarrow> length (cdfOf chi) = length chi"
  by (cases chi) (simp_all add: cdfOf_def Let_def)

lemma cdfOf_nth: "z < length chi \<Longrightarrow> cdfOf chi ! z = (hd chi div 2 - 1) + sum_list (take z (tl chi))"
  by (cases chi) (auto simp: cdfOf_def Let_def cdf_loop_nth nth_Cons split: nat.splits)

text \<open>Magnitude \<open>k\<close> is drawn exactly on the half-open interval between two entries of the table.\<close>

lemma count_less_sorted:
  "\<forall>i j. i \<le> j \<longrightarrow> j < m \<longrightarrow> T ! i \<le> (T ! j :: nat) \<Longrightarrow>
   (fold (\<lambda>z (e :: int). if T ! z < t then e + 1 else e) [0..<m] 0 = int k) \<longleftrightarrow>
     k \<le> m \<and> (0 < k \<longrightarrow> T ! (k - 1) < t) \<and> (k < m \<longrightarrow> t \<le> T ! k)"
proof (induction m arbitrary: k)
  case 0
  then show ?case by auto
next
  case (Suc m)
  define c where "c = fold (\<lambda>z (e :: int). if T ! z < t then e + 1 else e) [0..<m] 0"
  have IH: "(c = int k) \<longleftrightarrow> k \<le> m \<and> (0 < k \<longrightarrow> T ! (k - 1) < t) \<and> (k < m \<longrightarrow> t \<le> T ! k)" for k
    unfolding c_def by (rule Suc.IH) (use Suc.prems in auto)
  have mono: "i \<le> m \<Longrightarrow> T ! i \<le> T ! m" for i using Suc.prems by auto
  show ?case
  proof (cases "T ! m < t")
    case True
    then have below: "i \<le> m \<Longrightarrow> T ! i < t" for i using mono [of i] by simp
    then have "c = int m" using IH [of m] by simp
    with True below show ?thesis
      by (cases "k = Suc m") (auto simp: c_def [symmetric] less_Suc_eq_le dest: leD)
  next
    case False
    have "(c = int k) \<longleftrightarrow> k \<le> Suc m \<and> (0 < k \<longrightarrow> T ! (k - 1) < t) \<and> (k < Suc m \<longrightarrow> t \<le> T ! k)"
      using IH [of k] False by (cases "k = Suc m") (auto simp: less_Suc_eq le_Suc_eq not_less)
    with False show ?thesis by (simp add: c_def)
  qed
qed

definition magnitude :: "frodo \<Rightarrow> nat \<Rightarrow> int" where
  "magnitude p t = fold (\<lambda>z e. if fp_T_chi p ! z < t then e + 1 else e) [0..<length (fp_T_chi p) - 1] 0"

lemma sample_magnitude: "sample p r = (if odd r then - magnitude p (r div 2) else magnitude p (r div 2))"
  by (simp add: sample_def magnitude_def Let_def drop_bit_Suc and_one_eq odd_iff_mod_2_eq_one drop_bit_eq_div)

lemma sum_take_mono: "i \<le> j \<Longrightarrow> sum_list (take i xs) \<le> sum_list (take j (xs :: nat list))"
proof -
  assume "i \<le> j"
  then have "take j xs = take i xs @ take (j - i) (drop i xs)"
    by (metis le_add_diff_inverse take_add)
  then show ?thesis by simp
qed

locale error_distribution =
  fixes p :: frodo
  assumes chi: "chi_ok (fp_chi p)" and table: "fp_T_chi p = cdfOf (fp_chi p)"
begin

lemma T_nth: "z < length (fp_chi p) \<Longrightarrow> fp_T_chi p ! z = (hd (fp_chi p) div 2 - 1) + sum_list (take z (tl (fp_chi p)))"
  by (simp add: table cdfOf_nth)

lemma length_T: "length (fp_T_chi p) = length (fp_chi p)" "0 < length (fp_chi p)"
  using chi by (auto simp: table length_cdfOf chi_ok_def)

lemma T_mono: "i \<le> j \<Longrightarrow> j < length (fp_chi p) \<Longrightarrow> fp_T_chi p ! i \<le> fp_T_chi p ! j"
  by (simp add: T_nth sum_take_mono)

lemma T_last: "fp_T_chi p ! (length (fp_chi p) - 1) = 32767"
proof -
  have "hd (fp_chi p) div 2 + sum_list (tl (fp_chi p)) = 32768" "1 \<le> hd (fp_chi p) div 2"
    using chi by (auto simp: chi_ok_def)
  then have "hd (fp_chi p) div 2 - 1 + sum_list (tl (fp_chi p)) = 32767" by linarith
  then show ?thesis using length_T(2) by (simp add: T_nth)
qed

lemma magnitude_iff:
  "magnitude p t = int k \<longleftrightarrow> k < length (fp_chi p) \<and> (0 < k \<longrightarrow> fp_T_chi p ! (k - 1) < t)
     \<and> (k < length (fp_chi p) - 1 \<longrightarrow> t \<le> fp_T_chi p ! k)"
  unfolding magnitude_def length_T(1)
proof (subst count_less_sorted)
  obtain n where "length (fp_chi p) = Suc n" using length_T(2) by (cases "length (fp_chi p)") simp_all
  then show "(k \<le> length (fp_chi p) - 1 \<and> (0 < k \<longrightarrow> fp_T_chi p ! (k - 1) < t) \<and> (k < length (fp_chi p) - 1 \<longrightarrow> t \<le> fp_T_chi p ! k)) =
    (k < length (fp_chi p) \<and> (0 < k \<longrightarrow> fp_T_chi p ! (k - 1) < t) \<and> (k < length (fp_chi p) - 1 \<longrightarrow> t \<le> fp_T_chi p ! k))"
    by (simp add: less_Suc_eq_le)
qed (auto intro: T_mono)

lemma magnitude_nonneg: "0 \<le> magnitude p t"
proof -
  have "(0 :: int) \<le> a \<Longrightarrow> 0 \<le> fold (\<lambda>z e. if T ! z < t then e + 1 else e) zs a" for zs a and T :: "nat list"
    by (induction zs arbitrary: a) auto
  then show ?thesis by (simp add: magnitude_def)
qed

lemma magnitude_less: "magnitude p t < int (length (fp_chi p))"
  using magnitude_iff [of t "nat (magnitude p t)"] magnitude_nonneg [of t] by (simp add: nat_less_iff)

lemma card_magnitude:
  "card {t. t < 32768 \<and> magnitude p t = int k} =
     (if k = 0 then fp_chi p ! 0 div 2 else if k < length (fp_chi p) then fp_chi p ! k else 0)"
proof (cases "k < length (fp_chi p)")
  case True
  have upper: "t \<le> fp_T_chi p ! k" if "t < 32768" "k = length (fp_chi p) - 1" for t
    using that T_last by simp
  have bound: "fp_T_chi p ! k < 32768"
    using T_mono [of k "length (fp_chi p) - 1"] T_last True by linarith
  show ?thesis
  proof (cases k)
    case 0
    then have "{t. t < 32768 \<and> magnitude p t = int k} = {..fp_T_chi p ! 0}"
      using True bound upper by (auto simp: magnitude_iff [of _ 0, simplified] less_le_trans)
    moreover have "fp_T_chi p ! 0 = fp_chi p ! 0 div 2 - 1" "2 \<le> fp_chi p ! 0"
      using True 0 chi by (simp_all add: T_nth chi_ok_def hd_conv_nth)
    ultimately show ?thesis using 0 by simp
  next
    case (Suc j)
    have "t < 32768 \<and> magnitude p t = int k \<longleftrightarrow> fp_T_chi p ! j < t \<and> t \<le> fp_T_chi p ! k" for t
    proof (cases "k = length (fp_chi p) - 1")
      case top: True
      with Suc True upper [of t] bound show ?thesis by (auto simp: magnitude_iff simp del: of_nat_Suc)
    next
      case False
      with True have "k < length (fp_chi p) - 1" by linarith
      then have "magnitude p t = int k \<longleftrightarrow> fp_T_chi p ! j < t \<and> t \<le> fp_T_chi p ! k"
        using True Suc by (subst magnitude_iff) simp
      with bound show ?thesis by linarith
    qed
    then have "{t. t < 32768 \<and> magnitude p t = int k} = {fp_T_chi p ! j<..fp_T_chi p ! k}"
      unfolding set_eq_iff mem_Collect_eq greaterThanAtMost_iff by blast
    moreover have "fp_T_chi p ! k = fp_T_chi p ! j + fp_chi p ! k"
      using True Suc by (simp add: T_nth take_Suc_conv_app_nth nth_tl)
    ultimately show ?thesis using Suc True by simp
  qed
next
  case False
  then have none: "{t. t < 32768 \<and> magnitude p t = int k} = {}" by (simp add: magnitude_iff)
  from False length_T(2) have "k \<noteq> 0" by linarith
  with False show ?thesis by (simp add: none)
qed

end

lemma error_distributionI: "resolve v = Inr p \<Longrightarrow> error_distribution p"
  by unfold_locales (auto dest: resolve_ok simp: frodo_ok_def)

interpretation frodo640: error_distribution "projr (resolve ''FrodoKEM-640-SHAKE'')"
  using resolve_known [of "''FrodoKEM-640-SHAKE''"] error_distributionI by (auto simp: VARIANTS_def)

interpretation frodo976: error_distribution "projr (resolve ''FrodoKEM-976-SHAKE'')"
  using resolve_known [of "''FrodoKEM-976-SHAKE''"] error_distributionI by (auto simp: VARIANTS_def)

interpretation frodo1344: error_distribution "projr (resolve ''FrodoKEM-1344-SHAKE'')"
  using resolve_known [of "''FrodoKEM-1344-SHAKE''"] error_distributionI by (auto simp: VARIANTS_def)

lemma split_by_sign:
  "{r. r < 65536 \<and> P (odd r) (r div 2)} =
     (\<lambda>t. 2 * t) ` {t. t < 32768 \<and> P False t} \<union> (\<lambda>t. 2 * t + 1) ` {t. t < 32768 \<and> P True t}" for P :: "bool \<Rightarrow> nat \<Rightarrow> bool"
proof (intro set_eqI)
  show "r \<in> {r. r < 65536 \<and> P (odd r) (r div 2)} \<longleftrightarrow>
    r \<in> (\<lambda>t. 2 * t) ` {t. t < 32768 \<and> P False t} \<union> (\<lambda>t. 2 * t + 1) ` {t. t < 32768 \<and> P True t}" for r
    by (cases "even r") (auto elim!: evenE oddE, presburger+)
qed

lemma card_by_sign:
  "card {r. r < 65536 \<and> P (odd r) (r div 2)} = card {t. t < 32768 \<and> P False t} + card {t. t < (32768 :: nat) \<and> P True t}"
  for P :: "bool \<Rightarrow> nat \<Rightarrow> bool"
  unfolding split_by_sign
proof (subst card_Un_disjoint)
  show "(\<lambda>t. 2 * t) ` {t. t < 32768 \<and> P False t} \<inter> (\<lambda>t. 2 * t + 1) ` {t. t < 32768 \<and> P True t} = {}"
    by (auto dest: arg_cong [of _ _ even])
qed (simp_all add: card_image inj_on_def)

text \<open>The error distribution is the one of the table: of the 65536 values of a noise word, \<open>sample\<close> sends exactly
  \<open>chi[z]\<close> to \<open>z\<close> and as many to \<open>-z\<close>, exactly \<open>chi[0]\<close> to zero, and none outside, for each of the twelve sets.\<close>

theorem sample_distribution:
  assumes "resolve v = Inr p"
  shows "card {r. r < 65536 \<and> sample p r = e} =
    (if nat \<bar>e\<bar> < length (fp_chi p) then fp_chi p ! nat \<bar>e\<bar> else 0)"
proof -
  note card = error_distribution.card_magnitude [OF error_distributionI [OF assms]]
  note nonneg = error_distribution.magnitude_nonneg [OF error_distributionI [OF assms]]
  have "chi_ok (fp_chi p)" using resolve_ok [OF assms] by simp
  then have chi0: "fp_chi p \<noteq> []" "fp_chi p ! 0 div 2 + fp_chi p ! 0 div 2 = fp_chi p ! 0" by (auto simp: chi_ok_def hd_conv_nth)
  have "{r. r < 65536 \<and> sample p r = e} = {r. r < 65536 \<and> (if odd r then magnitude p (r div 2) = - e else magnitude p (r div 2) = e)}"
    by (auto simp: sample_magnitude)
  then have "card {r. r < 65536 \<and> sample p r = e} =
      card {t. t < 32768 \<and> magnitude p t = e} + card {t. t < 32768 \<and> magnitude p t = - e}"
    using card_by_sign [of "\<lambda>b t. if b then magnitude p t = - e else magnitude p t = e"] by simp
  moreover have "card {t. t < 32768 \<and> magnitude p t = x} =
      (if x < 0 then 0 else if x = 0 then fp_chi p ! 0 div 2 else if nat x < length (fp_chi p) then fp_chi p ! nat x else 0)" for x
  proof (cases "x < 0")
    case True
    with nonneg have "\<And>t. magnitude p t \<noteq> x" by (metis leD)
    with True show ?thesis by simp
  next
    case False
    then obtain k where "x = int k" by (metis nonneg_int_cases not_less)
    then show ?thesis by (simp add: card)
  qed
  ultimately show ?thesis using chi0 by (cases e "0 :: int" rule: linorder_cases) simp_all
qed

theorem sample_distribution_witness:
  "card {r. r < 65536 \<and> sample (projr (resolve ''eFrodoKEM-1344-AES'')) r = -3} = 2023"
proof -
  have r: "resolve ''eFrodoKEM-1344-AES'' = Inr (projr (resolve ''eFrodoKEM-1344-AES''))"
    and c: "fp_chi (projr (resolve ''eFrodoKEM-1344-AES'')) = [18286, 14320, 6876, 2023, 364, 40, 2]"
    by (simp_all add: resolve_def match_variant_def before_def after_def SETS_def ephemeral_lengths_def Let_def)
  show ?thesis using sample_distribution [OF r, of "-3"] by (simp add: c)
qed

end
