(* ===== verification/Frodo_Bits.thy ===== *)
theory Frodo_Bits
  imports Frodo_Params
begin

text \<open>
  The bit streams of FrodoKEM (\<open>client/src/frodokem.js\<close>): \<open>pack\<close> and \<open>unpack\<close>, which number the bits of a byte from the
  most significant, \<open>encode\<close> and \<open>decode\<close>, which number them from the least significant, and the signed sixteen-bit
  integers of the secret key.  The loops are those of the code, a running bit index and an array of zeros that bits
  are set in; the locale \<open>bit_order\<close> states what both orders promise and proves the two directions once.
  Reading a typed array outside its length yields \<open>undefined\<close>, which every bitwise operator takes for zero, and
  writing outside it does nothing.
\<close>

definition byte_at :: "bytes \<Rightarrow> nat \<Rightarrow> nat" where
  "byte_at bs i = (if i < length bs then unat (bs ! i) else 0)"

text \<open>\<open>out[k >>> 3] |= 0x80 >>> (k & 7)\<close> and \<open>b[k >>> 3] & (0x80 >>> (k & 7))\<close>.\<close>

definition set_msb :: "bytes \<Rightarrow> nat \<Rightarrow> bytes" where
  "set_msb out k = out[k div 8 := out ! (k div 8) OR byte_of (drop_bit (k AND 7) 0x80)]"

definition get_msb :: "bytes \<Rightarrow> nat \<Rightarrow> bool" where
  "get_msb b k \<longleftrightarrow> byte_at b (k div 8) AND drop_bit (k AND 7) 0x80 \<noteq> 0"

text \<open>\<open>out[k >>> 3] |= 1 << (k & 7)\<close> and \<open>mu[k >>> 3] & (1 << (k & 7))\<close>.\<close>

definition set_lsb :: "bytes \<Rightarrow> nat \<Rightarrow> bytes" where
  "set_lsb out k = out[k div 8 := out ! (k div 8) OR byte_of (push_bit (k AND 7) 1)]"

definition get_lsb :: "bytes \<Rightarrow> nat \<Rightarrow> bool" where
  "get_lsb b k \<longleftrightarrow> byte_at b (k div 8) AND push_bit (k AND 7) 1 \<noteq> 0"

subsection \<open>Algorithms 3 and 4\<close>

definition pack_element :: "nat \<Rightarrow> int \<Rightarrow> nat \<times> bytes \<Rightarrow> nat \<times> bytes" where
  "pack_element D v st =
     fold (\<lambda>l (k, out). (k + 1, if drop_bit l v AND 1 \<noteq> 0 then set_msb out k else out)) (rev [0..<D]) st"

definition pack :: "frodo \<Rightarrow> int list \<Rightarrow> nat \<Rightarrow> nat \<Rightarrow> bytes" where
  "pack p C n1 n2 =
     snd (fold (\<lambda>i. pack_element (fp_D p) (C ! i)) [0..<n1 * n2] (0, replicate (fp_D p * n1 * n2 div 8) 0))"

definition unpack_element :: "nat \<Rightarrow> bytes \<Rightarrow> nat \<Rightarrow> nat \<times> int" where
  "unpack_element D b k0 =
     fold (\<lambda>l (k, v). (k + 1, if get_msb b k then v OR push_bit (D - 1 - l) 1 else v)) [0..<D] (k0, 0)"

definition unpack :: "frodo \<Rightarrow> bytes \<Rightarrow> nat \<Rightarrow> nat \<Rightarrow> int list" where
  "unpack p b n1 n2 =
     snd (fold (\<lambda>i (k, out). let (k', v) = unpack_element (fp_D p) b k in (k', out @ [v])) [0..<n1 * n2] (0, []))"

subsection \<open>Algorithms 1 and 2\<close>

definition encode_symbol :: "frodo \<Rightarrow> bytes \<Rightarrow> nat \<Rightarrow> int" where
  "encode_symbol p mu i = fold (\<lambda>l tmp. if get_lsb mu (i * fp_B p + l) then tmp + 2 ^ l else tmp) [0..<fp_B p] 0"

definition encode :: "frodo \<Rightarrow> bytes \<Rightarrow> int list" where
  "encode p mu = map (\<lambda>i. encode_symbol p mu i * int (fp_q p div 2 ^ fp_B p)) [0..<fp_mbar p * fp_nbar p]"

text \<open>\<open>Math.floor(k * 2^B / q + 0.5) % 2^B\<close>: every quotient is by a power of two, hence exact in a double.\<close>

definition decode_symbol :: "frodo \<Rightarrow> int \<Rightarrow> int" where
  "decode_symbol p k = (2 * k * 2 ^ fp_B p + int (fp_q p)) div (2 * int (fp_q p)) mod 2 ^ fp_B p"

definition decode :: "frodo \<Rightarrow> int list \<Rightarrow> bytes" where
  "decode p K =
     fold (\<lambda>i out. let tmp = decode_symbol p (K ! i) in
             fold (\<lambda>l out. if drop_bit l tmp AND 1 \<noteq> 0 then set_lsb out (i * fp_B p + l) else out) [0..<fp_B p] out)
       [0..<fp_mbar p * fp_nbar p] (replicate (fp_B p * fp_mbar p * fp_nbar p div 8) 0)"

subsection \<open>Signed sixteen-bit integers\<close>

definition packSigned :: "int list \<Rightarrow> bytes" where
  "packSigned values =
     concat (map (\<lambda>x. let v = x AND 0xffff in [byte_of (nat (v AND 0xff)), byte_of (nat (drop_bit 8 v AND 0xff))]) values)"

definition le16 :: "bytes \<Rightarrow> nat \<Rightarrow> nat" where
  "le16 bs i = byte_at bs (2 * i) OR push_bit 8 (byte_at bs (2 * i + 1))"

definition unpackSigned :: "bytes \<Rightarrow> nat \<Rightarrow> int list" where
  "unpackSigned bs count =
     map (\<lambda>i. let v = int (le16 bs i) in if v \<ge> 0x8000 then v - 0x10000 else v) [0..<count]"

subsection \<open>What an order of the bits promises\<close>

definition put_where :: "(bytes \<Rightarrow> nat \<Rightarrow> bytes) \<Rightarrow> (nat \<Rightarrow> bool) \<Rightarrow> nat list \<Rightarrow> bytes \<Rightarrow> bytes" where
  "put_where put f ks out = fold (\<lambda>k out. if f k then put out k else out) ks out"

lemma put_where_simps [simp]:
  "put_where put f [] out = out"
  "put_where put f (k # ks) out = put_where put f ks (if f k then put out k else out)"
  "put_where put f (ks @ js) out = put_where put f js (put_where put f ks out)"
  by (simp_all add: put_where_def)

lemma put_where_cong [cong]:
  "out = out' \<Longrightarrow> ks = ks' \<Longrightarrow> (\<And>k. k \<in> set ks' \<Longrightarrow> f k = g k) \<Longrightarrow> put_where put f ks out = put_where put g ks' out'"
proof -
  have "(\<And>k. k \<in> set js \<Longrightarrow> f k = g k) \<Longrightarrow> put_where put f js o1 = put_where put g js o1" for js o1
    by (induction js arbitrary: o1) auto
  then show "out = out' \<Longrightarrow> ks = ks' \<Longrightarrow> (\<And>k. k \<in> set ks' \<Longrightarrow> f k = g k) \<Longrightarrow> put_where put f ks out = put_where put g ks' out'"
    by blast
qed

locale bit_order =
  fixes put :: "bytes \<Rightarrow> nat \<Rightarrow> bytes" and get :: "bytes \<Rightarrow> nat \<Rightarrow> bool"
  assumes length_put [simp]: "length (put out k) = length out"
    and get_put: "k < 8 * length out \<Longrightarrow> get (put out k) j \<longleftrightarrow> j = k \<or> get out j"
    and get_zeros: "\<not> get (replicate n 0) k"
    and get_ext: "length a = length b \<Longrightarrow> (\<And>k. k < 8 * length a \<Longrightarrow> get a k = get b k) \<Longrightarrow> a = b"
begin

lemma length_put_where [simp]: "length (put_where put f ks out) = length out"
  by (induction ks arbitrary: out) simp_all

lemma get_put_where:
  "(\<And>k. k \<in> set ks \<Longrightarrow> k < 8 * length out) \<Longrightarrow> get (put_where put f ks out) j \<longleftrightarrow> get out j \<or> j \<in> set ks \<and> f j"
  by (induction ks arbitrary: out) (auto simp: get_put)

lemma get_stream: "get (put_where put f [0..<8 * n] (replicate n 0)) k \<longleftrightarrow> k < 8 * n \<and> f k"
  by (subst get_put_where) (auto simp: get_zeros)

lemma stream_of_bits:
  assumes "length b = n" "\<And>k. k < 8 * n \<Longrightarrow> f k = get b k"
  shows "put_where put f [0..<8 * n] (replicate n 0) = b"
  by (rule get_ext) (simp_all add: assms get_stream)

lemma running_index:
  "fold (\<lambda>l (k, out). (k + 1, if g l then put out k else out)) ls (k0, out) =
     (k0 + length ls, put_where put (\<lambda>k. g (ls ! (k - k0))) [k0..<k0 + length ls] out)"
proof (induction ls rule: rev_induct)
  case (snoc l ls)
  have "put_where put (\<lambda>k. g ((ls @ [l]) ! (k - k0))) [k0..<k0 + length ls] out =
      put_where put (\<lambda>k. g (ls ! (k - k0))) [k0..<k0 + length ls] out"
    by (rule put_where_cong) (auto simp: nth_append)
  with snoc show ?case by simp
qed simp

end

lemma and_exp_nat: "(x :: nat) AND 2 ^ n \<noteq> 0 \<longleftrightarrow> bit x n"
proof -
  have "x AND 2 ^ n = (if bit x n then 2 ^ n else 0)"
    by (rule bit_eqI) (auto simp: bit_and_iff bit_exp_iff)
  then show ?thesis by simp
qed

lemma drop_0x80: "m < 8 \<Longrightarrow> drop_bit m 0x80 = (2 ^ (7 - m) :: nat)"
proof -
  assume "m < 8"
  then have "m \<in> {0, 1, 2, 3, 4, 5, 6, 7}" by auto
  then show ?thesis by (auto simp: drop_bit_eq_div)
qed

lemma get_msb_bit: "get_msb b k \<longleftrightarrow> k div 8 < length b \<and> bit (b ! (k div 8)) (7 - k mod 8)"
  by (simp only: get_msb_def byte_at_def nat_and_mask drop_0x80 [OF mod_less_divisor] and_exp_nat zero_less_numeral)
     (simp add: bit_unsigned_iff)

lemma get_lsb_bit: "get_lsb b k \<longleftrightarrow> k div 8 < length b \<and> bit (b ! (k div 8)) (k mod 8)"
  by (simp only: get_lsb_def byte_at_def nat_and_mask push_bit_eq_mult mult_1 and_exp_nat) (simp add: bit_unsigned_iff)

lemma bit_byte_exp: "bit (byte_of (2 ^ m)) n \<longleftrightarrow> n < 8 \<and> n = m"
  by (auto simp: byte_of_def bit_of_nat_iff bit_exp_iff)

lemma set_msb_bit: "set_msb out k = out[k div 8 := out ! (k div 8) OR byte_of (2 ^ (7 - k mod 8))]"
  by (simp only: set_msb_def nat_and_mask drop_0x80 [OF mod_less_divisor] zero_less_numeral)

lemma set_lsb_bit: "set_lsb out k = out[k div 8 := out ! (k div 8) OR byte_of (2 ^ (k mod 8))]"
  by (simp only: set_lsb_def nat_and_mask push_bit_eq_mult mult_1)

lemma same_position: "(j :: nat) div 8 = k div 8 \<Longrightarrow> j mod 8 = k mod 8 \<Longrightarrow> j = k"
  by (metis div_mult_mod_eq)

lemma mod8_flip: "7 - j mod 8 = 7 - k mod 8 \<longleftrightarrow> j mod 8 = k mod (8 :: nat)"
  using mod_less_divisor [of 8 j] mod_less_divisor [of 8 k] by simp linarith

lemma byte_ext: "(a :: byte) = b" if "\<And>n. n < 8 \<Longrightarrow> bit a n = bit b n"
  by (rule bit_word_eqI) (use that in simp)

interpretation msb: bit_order set_msb get_msb
proof
  show "get_msb (set_msb out k) j \<longleftrightarrow> j = k \<or> get_msb out j" if "k < 8 * length out" for out k j
    using that same_position [of j k]
    by (auto simp: get_msb_bit set_msb_bit nth_list_update bit_or_iff bit_byte_exp mod8_flip div_less_iff_less_mult)
  show "a = b" if len: "length a = length b" and bits: "\<And>k. k < 8 * length a \<Longrightarrow> get_msb a k = get_msb b k" for a b
  proof (rule nth_equalityI [OF len], rule byte_ext)
    show "bit (a ! i) n = bit (b ! i) n" if i: "i < length a" and n: "n < 8" for i n
    proof -
      define m where "m = 7 - n"
      from n have "n = 7 - m" "m < 8" by (simp_all add: m_def)
      then show ?thesis using bits [of "8 * i + m"] i len by (simp add: get_msb_bit)
    qed
  qed
qed (simp_all add: set_msb_def get_msb_bit)

interpretation lsb: bit_order set_lsb get_lsb
proof
  show "get_lsb (set_lsb out k) j \<longleftrightarrow> j = k \<or> get_lsb out j" if "k < 8 * length out" for out k j
    using that same_position [of j k]
    by (auto simp: get_lsb_bit set_lsb_bit nth_list_update bit_or_iff bit_byte_exp div_less_iff_less_mult)
  show "a = b" if len: "length a = length b" and bits: "\<And>k. k < 8 * length a \<Longrightarrow> get_lsb a k = get_lsb b k" for a b
  proof (rule nth_equalityI [OF len], rule byte_ext)
    show "bit (a ! i) n = bit (b ! i) n" if "i < length a" "n < 8" for i n
      using bits [of "8 * i + n"] that len by (simp add: get_lsb_bit)
  qed
qed (simp_all add: set_lsb_def get_lsb_bit)

subsection \<open>Packing\<close>

lemma and_1_odd: "(x :: int) AND 1 \<noteq> 0 \<longleftrightarrow> odd x"
  by (simp add: and_one_eq odd_iff_mod_2_eq_one)

lemma pack_element_stream:
  "pack_element D v (k0, out) = (k0 + D, put_where set_msb (\<lambda>k. bit v (D - 1 - (k - k0))) [k0..<k0 + D] out)"
proof -
  have "put_where set_msb (\<lambda>k. drop_bit (rev [0..<D] ! (k - k0)) v AND 1 \<noteq> 0) [k0..<k0 + D] out =
      put_where set_msb (\<lambda>k. bit v (D - 1 - (k - k0))) [k0..<k0 + D] out"
    by (rule put_where_cong) (auto simp: and_1_odd rev_nth bit_iff_odd_drop_bit)
  then show ?thesis unfolding pack_element_def msb.running_index [of "\<lambda>l. drop_bit l v AND 1 \<noteq> 0"] by simp
qed

lemma pack_loop:
  "0 < D \<Longrightarrow> fold (\<lambda>i. pack_element D (C ! i)) [0..<m] (0, out) =
     (D * m, put_where set_msb (\<lambda>k. bit (C ! (k div D)) (D - 1 - k mod D)) [0..<D * m] out)"
proof (induction m)
  case (Suc m)
  have "[0..<D * Suc m] = [0..<D * m] @ [D * m..<D * m + D]"
    by (metis add.commute le_add1 mult_Suc_right upt_add_eq_append zero_le)
  moreover have "put_where set_msb (\<lambda>k. bit (C ! m) (D - 1 - (k - D * m))) [D * m..<D * m + D] o1 =
      put_where set_msb (\<lambda>k. bit (C ! (k div D)) (D - 1 - k mod D)) [D * m..<D * m + D] o1" for o1
  proof (rule put_where_cong)
    fix k assume "k \<in> set [D * m..<D * m + D]"
    then obtain r where "k = D * m + r" "r < D" by (metis atLeastLessThan_iff atLeastLessThan_upt le_Suc_ex nat_add_left_cancel_less)
    then show "bit (C ! m) (D - 1 - (k - D * m)) = bit (C ! (k div D)) (D - 1 - k mod D)" by simp
  qed simp_all
  ultimately show ?case using Suc by (simp add: pack_element_stream)
qed simp

lemma pack_stream:
  "0 < fp_D p \<Longrightarrow> n1 * n2 mod 8 = 0 \<Longrightarrow> pack p C n1 n2 =
     put_where set_msb (\<lambda>k. bit (C ! (k div fp_D p)) (fp_D p - 1 - k mod fp_D p)) [0..<8 * (fp_D p * n1 * n2 div 8)]
       (replicate (fp_D p * n1 * n2 div 8) 0)"
  by (auto simp: pack_def pack_loop mult.assoc)

lemma length_pack [simp]: "0 < fp_D p \<Longrightarrow> n1 * n2 mod 8 = 0 \<Longrightarrow> length (pack p C n1 n2) = fp_D p * n1 * n2 div 8"
  by (simp add: pack_stream)

subsection \<open>Unpacking\<close>

lemma unpack_element_bits:
  "unpack_element D b k0 = (k0 + D, v) \<Longrightarrow> bit v n \<longleftrightarrow> n < D \<and> get_msb b (k0 + (D - 1 - n))"
  "fst (unpack_element D b k0) = k0 + D"
proof -
  have step: "fold (\<lambda>l (k, v). (k + 1, if get_msb b k then v OR push_bit (D - 1 - l) 1 else v)) [0..<m] (k0, 0) = (k, v) \<Longrightarrow>
      m \<le> D \<Longrightarrow> k = k0 + m \<and> (\<forall>n. bit (v :: int) n \<longleftrightarrow> D - m \<le> n \<and> n < D \<and> get_msb b (k0 + (D - 1 - n)))" for m k v
  proof (induction m arbitrary: k v)
    case (Suc m)
    obtain k' v' where st: "fold (\<lambda>l (k, v). (k + 1, if get_msb b k then v OR push_bit (D - 1 - l) 1 else v)) [0..<m] (k0, 0) = (k', v' :: int)"
      by (meson surj_pair)
    from Suc.IH [OF st] Suc.prems(2)
    have IH: "k' = k0 + m" "\<And>n. bit v' n \<longleftrightarrow> D - m \<le> n \<and> n < D \<and> get_msb b (k0 + (D - 1 - n))" by simp_all
    have new: "D - Suc m \<le> n \<and> n < D \<longleftrightarrow> n = D - 1 - m \<or> D - m \<le> n \<and> n < D" for n
      using Suc.prems(2) by linarith
    from Suc.prems(1) st have k: "k = k' + 1" and v: "v = (if get_msb b k' then v' OR push_bit (D - 1 - m) 1 else v')" by simp_all
    have "bit v n \<longleftrightarrow> D - Suc m \<le> n \<and> n < D \<and> get_msb b (k0 + (D - 1 - n))" for n
    proof (cases "n = D - 1 - m")
      case True
      with Suc.prems(2) have "k0 + (D - 1 - n) = k'" "\<not> D - m \<le> n" "n < D" "D - Suc m \<le> n" by (simp_all add: IH(1))
      with True show ?thesis using IH(2) [of n] by (simp add: v bit_or_iff bit_exp_iff)
    next
      case False
      then have "bit v n \<longleftrightarrow> bit v' n" by (simp add: v bit_or_iff bit_exp_iff)
      with False new [of n] show ?thesis by (simp only: IH(2)) blast
    qed
    with k IH(1) show ?case by simp
  qed auto
  show "unpack_element D b k0 = (k0 + D, v) \<Longrightarrow> bit v n \<longleftrightarrow> n < D \<and> get_msb b (k0 + (D - 1 - n))"
    using step [of D] by (auto simp: unpack_element_def)
  show "fst (unpack_element D b k0) = k0 + D"
    by (cases "unpack_element D b k0") (use step [of D] in \<open>auto simp: unpack_element_def\<close>)
qed

definition element :: "nat \<Rightarrow> bytes \<Rightarrow> nat \<Rightarrow> int" where
  "element D b i = snd (unpack_element D b (D * i))"

lemma bit_element: "bit (element D b i) n \<longleftrightarrow> n < D \<and> get_msb b (D * i + (D - 1 - n))"
  using unpack_element_bits [of D b "D * i"] by (metis element_def prod.collapse)

lemma unpack_map: "unpack p b n1 n2 = map (element (fp_D p) b) [0..<n1 * n2]"
proof -
  have "fold (\<lambda>i (k, out). let (k', v) = unpack_element D b k in (k', out @ [v])) [0..<m] (0, []) =
      (D * m, map (element D b) [0..<m])" for D m
    by (induction m) (auto simp: split_beta element_def unpack_element_bits(2) add.commute Let_def)
  then show ?thesis by (simp add: unpack_def)
qed

lemma length_unpack [simp]: "length (unpack p b n1 n2) = n1 * n2"
  by (simp add: unpack_map)

lemma int_by_bits: "0 \<le> x \<Longrightarrow> x < 2 ^ D \<Longrightarrow> (\<And>n. n < D \<Longrightarrow> bit x n = bit y n) \<Longrightarrow> (\<And>n. D \<le> n \<Longrightarrow> \<not> bit y n) \<Longrightarrow> x = (y :: int)"
proof (rule bit_eqI)
  fix n assume "0 \<le> x" "x < 2 ^ D" and low: "\<And>n. n < D \<Longrightarrow> bit x n = bit y n" and high: "\<And>n. D \<le> n \<Longrightarrow> \<not> bit y n"
  then have "take_bit D x = x" by (simp add: take_bit_int_eq_self)
  then have "D \<le> n \<Longrightarrow> \<not> bit x n" by (metis bit_take_bit_iff not_less)
  with low high show "bit x n = bit y n" by (cases "n < D") auto
qed

lemma element_range: "0 \<le> element D b i" "element D b i < 2 ^ D"
proof -
  have "take_bit D (element D b i) = element D b i"
    by (rule bit_eqI) (auto simp: bit_take_bit_iff bit_element)
  then show "0 \<le> element D b i" "element D b i < 2 ^ D"
    by (metis take_bit_nonnegative, metis take_bit_int_less_exp)
qed

lemma unpack_range: "x \<in> set (unpack p b n1 n2) \<Longrightarrow> 0 \<le> x \<and> x < 2 ^ fp_D p"
  by (auto simp: unpack_map element_range)

lemma pack_bit:
  assumes "0 < fp_D p" "n1 * n2 mod 8 = 0" "i < n1 * n2" "l < fp_D p"
  shows "get_msb (pack p C n1 n2) (fp_D p * i + l) \<longleftrightarrow> bit (C ! i) (fp_D p - 1 - l)"
proof -
  have "fp_D p * i + l < fp_D p * Suc i" using assms(4) by simp
  also have "\<dots> \<le> fp_D p * (n1 * n2)" using assms(3) by (intro mult_left_mono) simp_all
  also have "\<dots> = 8 * (fp_D p * n1 * n2 div 8)" using assms(2) by (auto simp: mult.assoc)
  finally have "fp_D p * i + l < 8 * (fp_D p * n1 * n2 div 8)" .
  with assms(1,2,4) show ?thesis by (simp add: pack_stream msb.get_stream)
qed

lemma unpack_pack:
  assumes "0 < fp_D p" "n1 * n2 mod 8 = 0" "length C = n1 * n2" "\<And>x. x \<in> set C \<Longrightarrow> 0 \<le> x \<and> x < 2 ^ fp_D p"
  shows "unpack p (pack p C n1 n2) n1 n2 = C"
proof (rule nth_equalityI)
  fix i assume "i < length (unpack p (pack p C n1 n2) n1 n2)"
  then have i: "i < n1 * n2" by simp
  have "C ! i = element (fp_D p) (pack p C n1 n2) i"
  proof (rule int_by_bits [of _ "fp_D p"])
    show "0 \<le> C ! i" "C ! i < 2 ^ fp_D p" using assms(3,4) i by auto
    show "bit (C ! i) n = bit (element (fp_D p) (pack p C n1 n2) i) n" if "n < fp_D p" for n
    proof -
      have "get_msb (pack p C n1 n2) (fp_D p * i + (fp_D p - 1 - n)) = bit (C ! i) (fp_D p - 1 - (fp_D p - 1 - n))"
        using that i assms(1,2) by (intro pack_bit) simp_all
      moreover have "fp_D p - 1 - (fp_D p - 1 - n) = n" using that by simp
      ultimately show ?thesis using that by (simp only: bit_element simp_thms)
    qed
  qed (simp add: bit_element)
  with i show "unpack p (pack p C n1 n2) n1 n2 ! i = C ! i" by (simp add: unpack_map)
qed (simp add: assms)

lemma pack_unpack:
  assumes "0 < fp_D p" "n1 * n2 mod 8 = 0" "length b = fp_D p * n1 * n2 div 8"
  shows "pack p (unpack p b n1 n2) n1 n2 = b"
  unfolding pack_stream [OF assms(1,2)]
proof (rule msb.stream_of_bits [OF assms(3)])
  fix k assume "k < 8 * (fp_D p * n1 * n2 div 8)"
  then have "k < fp_D p * (n1 * n2)" using assms(2) by (auto simp: mult.assoc)
  then have "k div fp_D p < n1 * n2" using assms(1) by (simp add: div_less_iff_less_mult mult.commute)
  moreover have "fp_D p - 1 - (fp_D p - 1 - k mod fp_D p) = k mod fp_D p"
    using assms(1) mod_less_divisor [of "fp_D p" k] by linarith
  ultimately show "bit (unpack p b n1 n2 ! (k div fp_D p)) (fp_D p - 1 - k mod fp_D p) = get_msb b k"
    using assms(1) by (simp add: unpack_map bit_element)
qed

subsection \<open>Encoding and decoding a message\<close>

definition half_step :: "frodo \<Rightarrow> int" where
  "half_step p = 2 ^ (fp_D p - fp_B p - 1)"

text \<open>The noise that decoding forgives: modulo \<open>q\<close>, at least \<open>- q / 2^(B+1)\<close> and less than \<open>q / 2^(B+1)\<close>.\<close>

definition fits_noise :: "frodo \<Rightarrow> int \<Rightarrow> bool" where
  "fits_noise p e \<longleftrightarrow> (e + half_step p) mod int (fp_q p) < 2 * half_step p"

lemma encode_symbol_bits: "bit (encode_symbol p mu i) l \<longleftrightarrow> l < fp_B p \<and> get_lsb mu (i * fp_B p + l)"
  and encode_symbol_range: "0 \<le> encode_symbol p mu i" "encode_symbol p mu i < 2 ^ fp_B p"
proof -
  define g where "g m = fold (\<lambda>l (tmp :: int). if get_lsb mu (i * fp_B p + l) then tmp + 2 ^ l else tmp) [0..<m] 0" for m
  have g: "0 \<le> g m \<and> g m < 2 ^ m \<and> (\<forall>l. bit (g m) l \<longleftrightarrow> l < m \<and> get_lsb mu (i * fp_B p + l))" for m
  proof (induction m)
    case (Suc m)
    have "g (Suc m) = (if get_lsb mu (i * fp_B p + m) then g m + 2 ^ m else g m)" by (simp add: g_def)
    moreover have "g m + 2 ^ m = g m OR 2 ^ m"
      using Suc by (intro disjunctive_add) (auto simp: bit_exp_iff)
    ultimately show ?case
      using Suc by (auto simp: bit_or_iff bit_exp_iff less_Suc_eq)
  qed (simp add: g_def)
  then show "bit (encode_symbol p mu i) l \<longleftrightarrow> l < fp_B p \<and> get_lsb mu (i * fp_B p + l)"
    "0 \<le> encode_symbol p mu i" "encode_symbol p mu i < 2 ^ fp_B p"
    using g [of "fp_B p"] by (auto simp: encode_symbol_def g_def)
qed

text \<open>Decoding a message one bit at a time, as a stream.\<close>

lemma decode_loop:
  "0 < B \<Longrightarrow> fold (\<lambda>i out. fold (\<lambda>l out. if bit (s i) l then set_lsb out (i * B + l) else out) [0..<B] out) [0..<m] out =
     put_where set_lsb (\<lambda>k. bit (s (k div B) :: int) (k mod B)) [0..<B * m] out"
proof (induction m)
  case (Suc m)
  have blocks: "[0..<B * Suc m] = [0..<B * m] @ [B * m..<B * m + B]"
    by (metis add.commute le_add1 mult_Suc_right upt_add_eq_append zero_le)
  have inner: "fold (\<lambda>l out. if bit (s m) l then set_lsb out (m * B + l) else out) [0..<j] o1 =
      put_where set_lsb (\<lambda>k. bit (s (k div B)) (k mod B)) [B * m..<B * m + j] o1" if "j \<le> B" for j o1
    using that
  proof (induction j)
    case (Suc j)
    then have "(B * m + j) div B = m" "(B * m + j) mod B = j" by simp_all
    with Suc show ?case by (simp add: mult.commute)
  qed simp
  show ?case using Suc inner [of B] by (simp add: blocks del: mult_Suc_right)
qed simp

lemma decode_stream:
  assumes "0 < fp_B p" "fp_mbar p = 8" "fp_nbar p = 8"
  shows "decode p K = put_where set_lsb (\<lambda>k. bit (decode_symbol p (K ! (k div fp_B p))) (k mod fp_B p)) [0..<8 * (fp_B p * 8)]
    (replicate (fp_B p * 8) 0)"
proof -
  have "drop_bit l x AND 1 \<noteq> 0 \<longleftrightarrow> bit x l" for l and x :: int
    by (simp add: and_1_odd bit_iff_odd_drop_bit)
  then show ?thesis
    using decode_loop [OF assms(1), of "\<lambda>i. decode_symbol p (K ! i)" 64]
    by (simp add: decode_def Let_def assms(2,3) mult.commute [of 64] mult.commute [of 8])
qed

lemma length_decode: "0 < fp_B p \<Longrightarrow> fp_mbar p = 8 \<Longrightarrow> fp_nbar p = 8 \<Longrightarrow> length (decode p K) = fp_B p * 8"
  by (simp add: decode_stream)

lemma length_encode [simp]: "length (encode p mu) = fp_mbar p * fp_nbar p"
  by (simp add: encode_def)

lemma decode_symbol_range: "0 \<le> decode_symbol p k" "decode_symbol p k < 2 ^ fp_B p"
  by (simp_all add: decode_symbol_def)

text \<open>A symbol survives exactly when its noise fits.\<close>

lemma decode_symbol_exact:
  assumes q: "fp_q p = 2 ^ fp_D p" and B: "fp_B p < fp_D p" and s: "0 \<le> s" "s < 2 ^ fp_B p"
  shows "decode_symbol p ((s * int (fp_q p div 2 ^ fp_B p) + e) mod int (fp_q p)) = s \<longleftrightarrow> fits_noise p e"
proof -
  define h where "h = half_step p"
  define b :: int where "b = 2 ^ fp_B p"
  obtain c where c: "fp_D p = Suc (fp_B p + c)" using B less_iff_Suc_add by auto
  have h: "h = 2 ^ c" "0 < h" by (simp_all add: h_def half_step_def c)
  have step: "int (fp_q p div 2 ^ fp_B p) = 2 * h"
    by (simp add: q c h power_add)
  have qq: "int (fp_q p) = 2 * h * b" "0 < b" by (simp_all add: q c h b_def power_add)
  define x where "x = s * (2 * h) + e"
  have split: "x mod (2 * h * b) = x - 2 * h * b * (x div (2 * h * b))"
    by (rule minus_mult_div_eq_mod [symmetric])
  have "decode_symbol p (x mod int (fp_q p)) = (2 * (x mod (2 * h * b)) * b + 2 * h * b) div (2 * (2 * h * b)) mod b"
    by (simp add: decode_symbol_def qq b_def)
  also have "2 * (x mod (2 * h * b)) * b + 2 * h * b = (2 * b) * (x mod (2 * h * b) + h)" by (simp add: algebra_simps)
  also have "2 * (2 * h * b) = (2 * b) * (2 * h)" by simp
  also have "(2 * b) * (x mod (2 * h * b) + h) div ((2 * b) * (2 * h)) = (x mod (2 * h * b) + h) div (2 * h)"
    using qq(2) by (intro div_mult_mult1) simp
  also have "x mod (2 * h * b) + h = (x + h) + (- b * (x div (2 * h * b))) * (2 * h)"
    using split by (simp add: mult.commute mult.left_commute)
  also have "\<dots> div (2 * h) = (x + h) div (2 * h) - b * (x div (2 * h * b))"
    using h(2) by (subst div_mult_self1) simp_all
  also have "\<dots> mod b = (x + h) div (2 * h) mod b" by (simp add: mod_diff_eq [symmetric])
  also have "x + h = (e + h) + s * (2 * h)" by (simp add: x_def)
  also have "\<dots> div (2 * h) = (e + h) div (2 * h) + s" using h(2) by (subst div_mult_self1) simp_all
  finally have decoded: "decode_symbol p (x mod int (fp_q p)) = ((e + h) div (2 * h) + s) mod b" .
  have "((e + h) div (2 * h) + s) mod b = s \<longleftrightarrow> ((e + h) div (2 * h) + s) mod b = (0 + s) mod b"
    using s by (simp add: b_def)
  also have "\<dots> \<longleftrightarrow> (e + h) div (2 * h) mod b = 0"
    by (simp only: mod_eq_dvd_iff dvd_eq_mod_eq_0 add_0 add_diff_cancel_right')
  also have "\<dots> \<longleftrightarrow> (e + h) mod (2 * h * b) < 2 * h"
  proof -
    have "(e + h) mod (2 * h * b) = 2 * h * ((e + h) div (2 * h) mod b) + (e + h) mod (2 * h)"
      using h(2) qq(2) by (subst zmod_zmult2_eq) simp_all
    moreover have "0 \<le> (e + h) mod (2 * h)" "(e + h) mod (2 * h) < 2 * h" using h(2) by simp_all
    moreover have "2 * h \<le> 2 * h * y" if "y \<noteq> 0" "0 \<le> y" for y using that h(2) by simp
    moreover have "0 \<le> (e + h) div (2 * h) mod b" using qq(2) by simp
    ultimately show ?thesis by (cases "(e + h) div (2 * h) mod b = 0") (simp, smt (verit))
  qed
  finally have "(((e + h) div (2 * h) + s) mod b = s) = ((e + h) mod (2 * h * b) < 2 * h)" .
  then show ?thesis unfolding step x_def [symmetric] decoded unfolding fits_noise_def h_def [symmetric] qq(1) .
qed

text \<open>Decoding an encoded message to which noise was added, entry by entry.\<close>

lemma decode_exact:
  assumes q: "fp_q p = 2 ^ fp_D p" and B: "0 < fp_B p" "fp_B p < fp_D p" and m: "fp_mbar p = 8" "fp_nbar p = 8"
    and mu: "length mu = fp_B p * 8" and M: "length M = 64"
    and noise: "\<And>i. i < 64 \<Longrightarrow> M ! i = (encode p mu ! i + e i) mod int (fp_q p)"
  shows "decode p M = mu \<longleftrightarrow> (\<forall>i<64. fits_noise p (e i))"
proof -
  have sym: "decode_symbol p (M ! i) = encode_symbol p mu i \<longleftrightarrow> fits_noise p (e i)" if "i < 64" for i
    using decode_symbol_exact [OF q B(2) encode_symbol_range(1) [of p mu i] encode_symbol_range(2) [of p mu i], of "e i"] that
    by (simp add: noise encode_def m)
  have bits: "get_lsb (decode p M) k \<longleftrightarrow> k < 8 * (fp_B p * 8) \<and> bit (decode_symbol p (M ! (k div fp_B p))) (k mod fp_B p)" for k
    by (subst decode_stream [OF B(1) m]) (rule lsb.get_stream)
  have mu_bits: "get_lsb mu k \<longleftrightarrow> bit (encode_symbol p mu (k div fp_B p)) (k mod fp_B p)" for k
    using B(1) by (simp add: encode_symbol_bits)
  have block: "i * fp_B p + l < 8 * (fp_B p * 8)" if "i < 64" "l < fp_B p" for i l
  proof -
    have "i * fp_B p + l < Suc i * fp_B p" using that(2) by simp
    also have "\<dots> \<le> 64 * fp_B p" using that(1) by (intro mult_right_mono) simp_all
    finally show ?thesis by simp
  qed
  show ?thesis
  proof
    assume eq: "decode p M = mu"
    show "\<forall>i<64. fits_noise p (e i)"
    proof (intro allI impI)
      fix i :: nat assume i: "i < 64"
      have "decode_symbol p (M ! i) = encode_symbol p mu i"
      proof (rule int_by_bits [OF decode_symbol_range])
        fix l assume "l < fp_B p"
        with i eq bits [of "i * fp_B p + l"] mu_bits [of "i * fp_B p + l"] block [of i l]
        show "bit (decode_symbol p (M ! i)) l = bit (encode_symbol p mu i) l" by simp
      qed (simp add: encode_symbol_bits)
      with sym [OF i] show "fits_noise p (e i)" by simp
    qed
  next
    assume "\<forall>i<64. fits_noise p (e i)"
    with sym have eq: "i < 64 \<Longrightarrow> decode_symbol p (M ! i) = encode_symbol p mu i" for i by blast
    show "decode p M = mu"
    proof (rule lsb.get_ext)
      show len: "length (decode p M) = length mu" using B(1) m by (simp add: length_decode mu)
      fix k assume "k < 8 * length (decode p M)"
      then have k: "k < 8 * (fp_B p * 8)" by (simp add: len mu)
      then have "k div fp_B p < 64" using B(1) by (simp add: div_less_iff_less_mult)
      then show "get_lsb (decode p M) k = get_lsb mu k" using k by (simp add: bits mu_bits eq)
    qed
  qed
qed

subsection \<open>Signed integers\<close>

lemma packSigned_simps [simp]:
  "packSigned [] = []"
  "packSigned (x # xs) = byte_of (nat ((x AND 0xffff) AND 0xff)) # byte_of (nat (drop_bit 8 (x AND 0xffff) AND 0xff)) # packSigned xs"
  by (simp_all only: packSigned_def Let_def list.map concat.simps append.simps)

lemma length_packSigned [simp]: "length (packSigned xs) = 2 * length xs"
  by (induction xs) simp_all

lemma le16_byte_pair: "2 * i + 1 < length bs \<Longrightarrow> le16 bs i = unat (bs ! (2 * i)) + 256 * unat (bs ! (2 * i + 1))"
  using or_eq_add_nat [of "unat (bs ! (2 * i))" 8 "unat (bs ! (2 * i + 1))"] byte_less_256 [of "bs ! (2 * i)"]
  by (simp add: le16_def byte_at_def or.commute)

lemma and_masks_int: "(x :: int) AND 0xffff = x mod 65536" "(x :: int) AND 0xff = x mod 256"
  using take_bit_eq_mask [of 16 x] take_bit_eq_mask [of 8 x] by (simp_all add: take_bit_eq_mod mask_eq_exp_minus_1)

lemma packSigned_nth:
  "i < length xs \<Longrightarrow> unat (packSigned xs ! (2 * i)) = nat (xs ! i mod 256)"
  "i < length xs \<Longrightarrow> unat (packSigned xs ! Suc (2 * i)) = nat (xs ! i mod 65536 div 256)"
proof (induction xs arbitrary: i)
  case (Cons x xs)
  { case 1 then show ?case using Cons.IH(1) by (cases i) (simp_all add: and_masks_int nat_mod_distrib mod_mod_cancel) }
  { case 2 then show ?case using Cons.IH(2) by (cases i) (simp_all add: and_masks_int drop_bit_eq_div nat_mod_distrib div_less_iff_less_mult) }
qed simp_all

lemma unpack_packSigned:
  assumes "length xs = n" "\<And>x. x \<in> set xs \<Longrightarrow> - 32768 \<le> x \<and> x < 32768"
  shows "unpackSigned (packSigned xs) n = xs"
proof (rule nth_equalityI)
  fix i assume "i < length (unpackSigned (packSigned xs) n)"
  then have i: "i < n" by (simp add: unpackSigned_def)
  define x where "x = xs ! i"
  have range: "- 32768 \<le> x" "x < 32768" using assms i by (auto simp: x_def)
  have "int (le16 (packSigned xs) i) = x mod 256 + 256 * (x mod 65536 div 256)"
    using i assms(1) by (simp add: le16_byte_pair packSigned_nth x_def)
  also have "\<dots> = x mod 65536"
    using mult_div_mod_eq [of 256 "x mod 65536"] by (simp add: mod_mod_cancel)
  also have "\<dots> = (if x < 0 then x + 65536 else x)"
    using range mod_pos_pos_trivial [of "x + 65536" 65536] mod_add_self2 [of x 65536] by simp
  finally show "unpackSigned (packSigned xs) n ! i = xs ! i"
    using i range by (auto simp: unpackSigned_def Let_def x_def [symmetric] split: if_split_asm)
qed (simp add: unpackSigned_def assms)

end
