(* ===== verification/Frodo_Kem.thy ===== *)
theory Frodo_Kem
  imports Frodo_Bits
begin

text \<open>
  Key generation, encapsulation and decapsulation of FrodoKEM (\<open>client/src/frodokem.js\<close>), with the noise, the rows of the
  matrix \<open>A\<close> and the three products they are made of.  A matrix is a flat list of integers, as the typed arrays of the
  code are; every number stays far below \<open>2^53\<close> (theorem \<open>accumulations_exact\<close> of \<open>Frodo_Kem_Laws\<close>), so the integers
  are the doubles.  SHAKE (the library \<open>noble-hashes\<close>), AES in ECB mode (\<open>node-forge\<close>) and the caller's source of
  random bytes are parameters.
\<close>

type_synonym xof = "bool \<Rightarrow> bytes \<Rightarrow> nat \<Rightarrow> bytes"
type_synonym cipher = "bytes \<Rightarrow> bytes \<Rightarrow> bytes"

text \<open>The first argument of the extendable-output function tells SHAKE128 from SHAKE256.\<close>

definition shakeOf :: "xof \<Rightarrow> frodo \<Rightarrow> bytes \<Rightarrow> nat \<Rightarrow> bytes" where
  "shakeOf xof p message outBytes = xof (fp_shake128 p) message outBytes"

definition subarray :: "bytes \<Rightarrow> nat \<Rightarrow> nat \<Rightarrow> bytes" where
  "subarray bs start stop = take (stop - start) (drop start bs)"

subsection \<open>Noise\<close>

definition word_at :: "nat list \<Rightarrow> nat \<Rightarrow> nat" where
  "word_at r i = (if i < length r then r ! i else 0)"

definition sampleMatrix :: "frodo \<Rightarrow> nat list \<Rightarrow> nat \<Rightarrow> nat \<Rightarrow> nat \<Rightarrow> int list" where
  "sampleMatrix p r offset n1 n2 = map (\<lambda>i. sample p (word_at r (offset + i))) [0..<n1 * n2]"

definition noiseWords :: "xof \<Rightarrow> frodo \<Rightarrow> byte \<Rightarrow> bytes \<Rightarrow> nat \<Rightarrow> nat list" where
  "noiseWords xof p prefix seedSE count =
     (let bs = shakeOf xof p ([prefix] @ seedSE) (count * 2) in map (le16 bs) [0..<count])"

subsection \<open>The rows of A\<close>

text \<open>The sixteen bytes that the AES generator encrypts for the eight columns from \<open>j\<close> on.\<close>

definition counter_block :: "nat \<Rightarrow> nat \<Rightarrow> bytes" where
  "counter_block i j =
     [byte_of (i AND 0xff), byte_of (drop_bit 8 i AND 0xff), byte_of (j AND 0xff), byte_of (drop_bit 8 j AND 0xff)]
     @ replicate 12 0"

definition rowGenerator :: "xof \<Rightarrow> cipher \<Rightarrow> frodo \<Rightarrow> bytes \<Rightarrow> nat \<Rightarrow> int list" where
  "rowGenerator xof aes p seedA i =
     (let n = fp_n p;
          c = (if fp_genAes p then aes seedA (concat (map (\<lambda>t. counter_block i (8 * t)) [0..<n div 8]))
               else xof True ([byte_of (i AND 0xff), byte_of (drop_bit 8 i AND 0xff)] @ seedA) (2 * n))
      in map (\<lambda>j. int (le16 c j mod fp_q p)) [0..<n])"

subsection \<open>Products\<close>

text \<open>The remainder of JavaScript has the sign of the dividend.\<close>

definition js_rem :: "int \<Rightarrow> int \<Rightarrow> int" where
  "js_rem x q = (if x < 0 then - ((- x) mod q) else x mod q)"

definition mod_q :: "int \<Rightarrow> nat \<Rightarrow> int" where
  "mod_q x q = (let r = js_rem x (int q) in if r < 0 then r + int q else r)"

text \<open>\<open>var sum = 0; for (var k = 0; k < n; k++) sum += f(k);\<close> and the matrix whose entry \<open>(i, j)\<close> is \<open>f i j\<close>.\<close>

definition accumulate :: "nat \<Rightarrow> (nat \<Rightarrow> int) \<Rightarrow> int" where
  "accumulate n f = fold (\<lambda>k sum. sum + f k) [0..<n] 0"

definition mat :: "nat \<Rightarrow> nat \<Rightarrow> (nat \<Rightarrow> nat \<Rightarrow> int) \<Rightarrow> int list" where
  "mat rows cols f = concat (map (\<lambda>i. map (f i) [0..<cols]) [0..<rows])"

text \<open>The sum of an entry of \<open>A S\<close> after its first \<open>m\<close> terms.\<close>

definition row_sum :: "frodo \<Rightarrow> int list \<Rightarrow> int list \<Rightarrow> nat \<Rightarrow> nat \<Rightarrow> int" where
  "row_sum p row S k m = accumulate m (\<lambda>j. row ! j * S ! (j * fp_nbar p + k))"

definition aTimesSPlusE :: "frodo \<Rightarrow> (nat \<Rightarrow> int list) \<Rightarrow> int list \<Rightarrow> int list \<Rightarrow> int list" where
  "aTimesSPlusE p nextRow S E =
     concat (map (\<lambda>i. let row = nextRow i in
       map (\<lambda>k. mod_q (row_sum p row S k (fp_n p) + E ! (i * fp_nbar p + k)) (fp_q p))
         [0..<fp_nbar p]) [0..<fp_n p])"

text \<open>One row of \<open>A\<close> contributes to every column: what row \<open>i\<close> does to the accumulator, the accumulator after \<open>m\<close> rows,
  then the whole product.\<close>

definition accumulate_row :: "frodo \<Rightarrow> int list \<Rightarrow> int list \<Rightarrow> nat \<Rightarrow> int list \<Rightarrow> int list" where
  "accumulate_row p Sprime row i acc =
     mat (fp_mbar p) (fp_n p) (\<lambda>r j.
       let s = Sprime ! (r * fp_n p + i)
       in if s = 0 then acc ! (r * fp_n p + j) else acc ! (r * fp_n p + j) + s * row ! j)"

definition accumulator :: "frodo \<Rightarrow> (nat \<Rightarrow> int list) \<Rightarrow> int list \<Rightarrow> nat \<Rightarrow> int list" where
  "accumulator p nextRow Sprime m =
     fold (\<lambda>i. accumulate_row p Sprime (nextRow i) i) [0..<m] (replicate (fp_mbar p * fp_n p) 0)"

definition sTimesAPlusE :: "frodo \<Rightarrow> (nat \<Rightarrow> int list) \<Rightarrow> int list \<Rightarrow> int list \<Rightarrow> int list" where
  "sTimesAPlusE p nextRow Sprime Eprime =
     (let acc = accumulator p nextRow Sprime (fp_n p)
      in map (\<lambda>t. mod_q (acc ! t + Eprime ! t) (fp_q p)) [0..<fp_mbar p * fp_n p])"

definition addMatrices :: "frodo \<Rightarrow> int list \<Rightarrow> int list \<Rightarrow> int list" where
  "addMatrices p X Y = map (\<lambda>i. mod_q (X ! i + Y ! i) (fp_q p)) [0..<length X]"

definition entry_sum :: "int list \<Rightarrow> nat \<Rightarrow> int list \<Rightarrow> nat \<Rightarrow> nat \<Rightarrow> nat \<Rightarrow> nat \<Rightarrow> int" where
  "entry_sum X c Y c2 i j m = accumulate m (\<lambda>k. X ! (i * c + k) * Y ! (k * c2 + j))"

definition mulAdd ::
  "frodo \<Rightarrow> int list \<Rightarrow> nat \<Rightarrow> nat \<Rightarrow> int list \<Rightarrow> nat \<Rightarrow> int list option \<Rightarrow> bool \<Rightarrow> int list" where
  "mulAdd p X r1 c Y c2 Z subtract =
     mat r1 c2 (\<lambda>i j.
       let sum = entry_sum X c Y c2 i j c;
           z = (case Z of None \<Rightarrow> 0 | Some Z \<Rightarrow> Z ! (i * c2 + j))
       in mod_q (if subtract then z - sum else sum + z) (fp_q p))"

text \<open>\<open>out[j * rows + i] = X[i * cols + j]\<close>: the matrix of \<open>cols\<close> rows whose entry \<open>(j, i)\<close> is that of \<open>X\<close> at \<open>(i, j)\<close>.\<close>

definition transposed :: "int list \<Rightarrow> nat \<Rightarrow> nat \<Rightarrow> int list" where
  "transposed X rows cols = mat cols rows (\<lambda>j i. X ! (i * cols + j))"

subsection \<open>Key generation\<close>

definition keygen ::
  "xof \<Rightarrow> cipher \<Rightarrow> string \<Rightarrow> (nat \<Rightarrow> bytes) \<Rightarrow> frodo_error + bytes \<times> bytes" where
  "keygen xof aes variant randomBytes =
     rbind (resolve variant) (\<lambda>p.
       let seed = randomBytes (fp_lenS p + fp_lenSeedSE p + fp_lenZ p);
           s = subarray seed 0 (fp_lenS p);
           seedSE = subarray seed (fp_lenS p) (fp_lenS p + fp_lenSeedSE p);
           z = drop (fp_lenS p + fp_lenSeedSE p) seed;
           seedA = shakeOf xof p z (fp_lenSeedA p);
           r = noiseWords xof p 0x5f seedSE (2 * fp_n p * fp_nbar p);
           Stransposed = sampleMatrix p r 0 (fp_nbar p) (fp_n p);
           S = transposed Stransposed (fp_nbar p) (fp_n p);
           E = sampleMatrix p r (fp_n p * fp_nbar p) (fp_n p) (fp_nbar p);
           B = aTimesSPlusE p (rowGenerator xof aes p seedA) S E;
           b = pack p B (fp_n p) (fp_nbar p);
           pkh = shakeOf xof p (seedA @ b) (fp_lenPkh p);
           pk = seedA @ b;
           sk = s @ seedA @ b @ packSigned Stransposed @ pkh
       in if length pk \<noteq> fp_pkBytes p \<or> length sk \<noteq> fp_skBytes p then Inl LengthDisagreement
          else Inr (pk, sk))"

subsection \<open>Encapsulation\<close>

text \<open>From the seed of the noise to the matrices \<open>B'\<close> and \<open>C\<close>: the lines that decapsulation repeats to re-encrypt.\<close>

definition encrypt ::
  "xof \<Rightarrow> cipher \<Rightarrow> frodo \<Rightarrow> bytes \<Rightarrow> bytes \<Rightarrow> bytes \<Rightarrow> bytes \<Rightarrow> int list \<times> int list" where
  "encrypt xof aes p seedA b seedSE mu =
     (let r = noiseWords xof p 0x96 seedSE (2 * fp_mbar p * fp_n p + fp_mbar p * fp_nbar p);
          Sprime = sampleMatrix p r 0 (fp_mbar p) (fp_n p);
          Eprime = sampleMatrix p r (fp_mbar p * fp_n p) (fp_mbar p) (fp_n p);
          Bprime = sTimesAPlusE p (rowGenerator xof aes p seedA) Sprime Eprime;
          Epp = sampleMatrix p r (2 * fp_mbar p * fp_n p) (fp_mbar p) (fp_nbar p);
          B = unpack p b (fp_n p) (fp_nbar p);
          V = mulAdd p Sprime (fp_mbar p) (fp_n p) B (fp_nbar p) (Some Epp) False
      in (Bprime, addMatrices p V (encode p mu)))"

definition encapsulate ::
  "xof \<Rightarrow> cipher \<Rightarrow> string \<Rightarrow> bytes \<Rightarrow> (nat \<Rightarrow> bytes) \<Rightarrow> frodo_error + bytes \<times> bytes" where
  "encapsulate xof aes variant pk randomBytes =
     rbind (resolve variant) (\<lambda>p.
       if length pk \<noteq> fp_pkBytes p then Inl (WrongPublicKeyLength (fp_pkBytes p) (length pk))
       else
         let seedA = subarray pk 0 (fp_lenSeedA p);
             b = drop (fp_lenSeedA p) pk;
             random = randomBytes (fp_lenMu p + fp_lenSalt p);
             mu = subarray random 0 (fp_lenMu p);
             salt = drop (fp_lenMu p) random;
             pkh = shakeOf xof p pk (fp_lenPkh p);
             seedSEk = shakeOf xof p (pkh @ mu @ salt) (fp_lenSeedSE p + fp_lenK p);
             seedSE = subarray seedSEk 0 (fp_lenSeedSE p);
             k = drop (fp_lenSeedSE p) seedSEk;
             (Bprime, C) = encrypt xof aes p seedA b seedSE mu;
             c1 = pack p Bprime (fp_mbar p) (fp_n p);
             c2 = pack p C (fp_mbar p) (fp_nbar p);
             ct = c1 @ c2 @ salt;
             ss = shakeOf xof p (c1 @ c2 @ salt @ k) (fp_lenSs p)
         in if length ct \<noteq> fp_ctBytes p then Inl LengthDisagreement else Inr (ct, ss))"

subsection \<open>Decapsulation\<close>

definition entry_at :: "int list \<Rightarrow> nat \<Rightarrow> int" where
  "entry_at b i = (if i < length b then b ! i else 0)"

definition constantTimeEqual :: "int list \<Rightarrow> int list \<Rightarrow> bool" where
  "constantTimeEqual a b \<longleftrightarrow> fold (\<lambda>i diff. diff OR (a ! i XOR entry_at b i)) [0..<length a] 0 = 0"

definition constantTimeSelect :: "bytes \<Rightarrow> bytes \<Rightarrow> bool \<Rightarrow> bytes" where
  "constantTimeSelect a b useA =
     (let mask = (if useA then 0xff else 0x00)
      in map (\<lambda>i. (a ! i AND mask) OR ((if i < length b then b ! i else 0) AND (NOT mask AND 0xff))) [0..<length a])"

text \<open>The message that the secret key reads out of the two matrices of a ciphertext.\<close>

definition recover :: "frodo \<Rightarrow> bytes \<Rightarrow> bytes \<Rightarrow> bytes \<Rightarrow> bytes" where
  "recover p sBytes c1 c2 =
     (let Stransposed = unpackSigned sBytes (fp_n p * fp_nbar p);
          S = transposed Stransposed (fp_nbar p) (fp_n p);
          Bprime = unpack p c1 (fp_mbar p) (fp_n p);
          C = unpack p c2 (fp_mbar p) (fp_nbar p);
          M = mulAdd p Bprime (fp_mbar p) (fp_n p) S (fp_nbar p) (Some C) True
      in decode p M)"

definition decapsulate ::
  "xof \<Rightarrow> cipher \<Rightarrow> string \<Rightarrow> bytes \<Rightarrow> bytes \<Rightarrow> frodo_error + bytes" where
  "decapsulate xof aes variant sk ct =
     rbind (resolve variant) (\<lambda>p.
       if length sk \<noteq> fp_skBytes p then Inl (WrongSecretKeyLength (fp_skBytes p) (length sk))
       else if length ct \<noteq> fp_ctBytes p then Inl (WrongCiphertextLength (fp_ctBytes p) (length ct))
       else
         let c1Len = fp_mbar p * fp_n p * fp_D p div 8;
             c2Len = fp_mbar p * fp_nbar p * fp_D p div 8;
             c1 = subarray ct 0 c1Len;
             c2 = subarray ct c1Len (c1Len + c2Len);
             salt = drop (c1Len + c2Len) ct;
             s = subarray sk 0 (fp_lenS p);
             at1 = fp_lenS p;
             seedA = subarray sk at1 (at1 + fp_lenSeedA p);
             at2 = at1 + fp_lenSeedA p;
             bLen = fp_D p * fp_n p * fp_nbar p div 8;
             b = subarray sk at2 (at2 + bLen);
             at3 = at2 + bLen;
             sLen = fp_n p * fp_nbar p * 2;
             sBytes = subarray sk at3 (at3 + sLen);
             at4 = at3 + sLen;
             pkh = subarray sk at4 (at4 + fp_lenPkh p);
             muPrime = recover p sBytes c1 c2;
             seedSEk = shakeOf xof p (pkh @ muPrime @ salt) (fp_lenSeedSE p + fp_lenK p);
             seedSEprime = subarray seedSEk 0 (fp_lenSeedSE p);
             kPrime = drop (fp_lenSeedSE p) seedSEk;
             (Bpp, Cprime) = encrypt xof aes p seedA b seedSEprime muPrime;
             equal = constantTimeEqual (unpack p c1 (fp_mbar p) (fp_n p)) Bpp
                     \<and> constantTimeEqual (unpack p c2 (fp_mbar p) (fp_nbar p)) Cprime;
             kbar = constantTimeSelect kPrime s equal
         in Inr (shakeOf xof p (c1 @ c2 @ salt @ kbar) (fp_lenSs p)))"

end
