(* ===== verification/Frodo_Kem_Laws.thy ===== *)
theory Frodo_Kem_Laws
  imports Frodo_Kem
begin

text \<open>
  What FrodoKEM guarantees (\<open>client/src/frodokem.js\<close>): the products that never hold \<open>A\<close> whole are the products with \<open>A\<close>,
  every sum is exact in a double, the lengths are those of the tables, the message comes back exactly when the noise of
  every entry fits, decapsulation then returns the encapsulated secret, and any other ciphertext gets the secret that
  the key's own \<open>s\<close> gives.
\<close>

named_theorems frodo_simps "entries and lengths of matrices"

subsection \<open>Matrices\<close>

lemma mod_q_mod [simp]: "0 < q \<Longrightarrow> mod_q x q = x mod int q"
proof -
  assume q: "0 < q"
  have "x mod int q = (if (- x) mod int q = 0 then 0 else int q - (- x) mod int q)"
    using zmod_zminus1_eq_if [of "- x" "int q"] by simp
  moreover have "0 \<le> (- x) mod int q" "0 \<le> x mod int q" "(- x) mod int q < int q" using q by simp_all
  ultimately show ?thesis unfolding mod_q_def js_rem_def Let_def by (smt (verit))
qed

lemma accumulate_sum: "accumulate n f = (\<Sum>k<n. f k)"
  unfolding accumulate_def by (induction n) simp_all

lemma length_mat [simp, frodo_simps]: "length (mat rows cols f) = rows * cols"
  by (simp add: mat_def length_concat o_def sum_list_triv)

lemma mat_nth [frodo_simps]: "i < rows \<Longrightarrow> j < cols \<Longrightarrow> mat rows cols f ! (i * cols + j) = f i j"
proof (induction rows)
  case (Suc rows)
  have snoc: "mat (Suc rows) cols f = mat rows cols f @ map (f rows) [0..<cols]" by (simp add: mat_def)
  show ?case
  proof (cases "i = rows")
    case True
    with Suc.prems show ?thesis by (simp add: snoc nth_append)
  next
    case False
    with Suc.prems have i: "i < rows" by simp
    have "i * cols + j < Suc i * cols" using Suc.prems(2) by simp
    also have "\<dots> \<le> rows * cols" using i by (intro mult_right_mono) simp_all
    finally show ?thesis using Suc.IH [OF i Suc.prems(2)] by (simp add: snoc nth_append)
  qed
qed simp

lemma mat_entry: "t < rows * cols \<Longrightarrow> mat rows cols f ! t = f (t div cols) (t mod cols)"
proof -
  assume t: "t < rows * cols"
  then have c: "0 < cols" by (cases cols) simp_all
  with t have "t div cols < rows" by (simp add: div_less_iff_less_mult)
  then have "mat rows cols f ! (t div cols * cols + t mod cols) = f (t div cols) (t mod cols)"
    using c by (intro mat_nth) simp_all
  then show ?thesis by simp
qed

lemma set_mat: "x \<in> set (mat rows cols f) \<Longrightarrow> \<exists>i<rows. \<exists>j<cols. x = f i j"
  unfolding mat_def by fastforce

lemma mat_cong: "(\<And>i j. i < rows \<Longrightarrow> j < cols \<Longrightarrow> f i j = g i j) \<Longrightarrow> mat rows cols f = mat rows cols g"
  by (auto simp: mat_def intro!: arg_cong [of _ _ concat])

lemma mat_index: "(i :: nat) < r \<Longrightarrow> j < c \<Longrightarrow> i * c + j < r * c"
proof -
  assume "i < r" "j < c"
  then have "i * c + j < Suc i * c" by simp
  also have "\<dots> \<le> r * c" using \<open>i < r\<close> by (intro mult_right_mono) simp_all
  finally show ?thesis .
qed

lemma sampleMatrix_nth [frodo_simps]: "i < n1 * n2 \<Longrightarrow> sampleMatrix p r ofs n1 n2 ! i = sample p (word_at r (ofs + i))"
  by (simp add: sampleMatrix_def)

lemma length_sampleMatrix [simp, frodo_simps]: "length (sampleMatrix p r ofs n1 n2) = n1 * n2"
  by (simp add: sampleMatrix_def)

lemma transposed_nth [frodo_simps]: "j < cols \<Longrightarrow> i < rows \<Longrightarrow> transposed X rows cols ! (j * rows + i) = X ! (i * cols + j)"
  by (simp add: transposed_def mat_nth)

lemma length_transposed [simp, frodo_simps]: "length (transposed X rows cols) = cols * rows"
  by (simp add: transposed_def)

lemma aTimesSPlusE_mat:
  "aTimesSPlusE p nextRow S E = mat (fp_n p) (fp_nbar p) (\<lambda>i k.
     mod_q (accumulate (fp_n p) (\<lambda>j. nextRow i ! j * S ! (j * fp_nbar p + k)) + E ! (i * fp_nbar p + k)) (fp_q p))"
  by (simp add: aTimesSPlusE_def row_sum_def mat_def Let_def)

lemma mulAdd_entries:
  "mulAdd p X r1 c Y c2 Z sub = mat r1 c2 (\<lambda>i j.
     let total = accumulate c (\<lambda>k. X ! (i * c + k) * Y ! (k * c2 + j));
         z = (case Z of None \<Rightarrow> 0 | Some Z \<Rightarrow> Z ! (i * c2 + j))
     in mod_q (if sub then z - total else total + z) (fp_q p))"
  by (simp add: mulAdd_def entry_sum_def)

lemma accumulated_rows:
  "accumulator p nextRow Sprime m =
     mat (fp_mbar p) (fp_n p) (\<lambda>r j. \<Sum>i<m. Sprime ! (r * fp_n p + i) * nextRow i ! j)"
proof (induction m)
  case 0
  show ?case unfolding accumulator_def
    by (rule nth_equalityI) (simp_all add: mat_entry)
next
  case (Suc m)
  have "accumulate_row p Sprime (nextRow m) m (mat (fp_mbar p) (fp_n p) (\<lambda>r j. \<Sum>i<m. Sprime ! (r * fp_n p + i) * nextRow i ! j)) =
      mat (fp_mbar p) (fp_n p) (\<lambda>r j. \<Sum>i<Suc m. Sprime ! (r * fp_n p + i) * nextRow i ! j)"
    unfolding accumulate_row_def Let_def by (rule mat_cong) (simp add: mat_nth)
  with Suc show ?case by (simp add: accumulator_def)
qed

lemma sTimesAPlusE_mat:
  "sTimesAPlusE p nextRow Sprime Eprime = mat (fp_mbar p) (fp_n p) (\<lambda>r j.
     mod_q ((\<Sum>i<fp_n p. Sprime ! (r * fp_n p + i) * nextRow i ! j) + Eprime ! (r * fp_n p + j)) (fp_q p))"
  unfolding sTimesAPlusE_def accumulated_rows Let_def
  by (rule nth_equalityI) (simp_all add: mat_entry)

lemma length_rowGenerator [simp]: "length (rowGenerator xof aes p seedA i) = fp_n p"
  by (simp add: rowGenerator_def Let_def)

lemma rowGenerator_range: "0 < fp_q p \<Longrightarrow> x \<in> set (rowGenerator xof aes p seedA i) \<Longrightarrow> 0 \<le> x \<and> x < int (fp_q p)"
  by (auto simp: rowGenerator_def Let_def)

lemma length_addMatrices [simp]: "length (addMatrices p X Y) = length X"
  by (simp add: addMatrices_def)

lemma length_mulAdd [simp]: "length (mulAdd p X r1 c Y c2 Z sub) = r1 * c2"
  by (simp add: mulAdd_entries)

lemma length_products [simp]:
  "length (aTimesSPlusE p nextRow S E) = fp_n p * fp_nbar p"
  "length (sTimesAPlusE p nextRow Sprime Eprime) = fp_mbar p * fp_n p"
  by (simp_all add: aTimesSPlusE_mat sTimesAPlusE_mat)

lemma product_ranges:
  assumes "0 < fp_q p"
  shows "x \<in> set (aTimesSPlusE p nextRow S E) \<Longrightarrow> 0 \<le> x \<and> x < int (fp_q p)"
    and "x \<in> set (sTimesAPlusE p nextRow Sprime Eprime) \<Longrightarrow> 0 \<le> x \<and> x < int (fp_q p)"
    and "x \<in> set (addMatrices p X Y) \<Longrightarrow> 0 \<le> x \<and> x < int (fp_q p)"
    and "x \<in> set (mulAdd p X r1 c Y c2 Z sub) \<Longrightarrow> 0 \<le> x \<and> x < int (fp_q p)"
  using assms by (auto simp: aTimesSPlusE_mat sTimesAPlusE_mat addMatrices_def mulAdd_entries Let_def dest!: set_mat)

subsection \<open>Sampled values are small\<close>

lemma sample_bound: "resolve v = Inr p \<Longrightarrow> \<bar>sample p r\<bar> \<le> 12"
proof -
  assume r: "resolve v = Inr p"
  have "length (fp_chi p) \<le> 13" using resolve_ok [OF r] by (simp add: chi_ok_def)
  with error_distribution.magnitude_less [OF error_distributionI [OF r], of "r div 2"]
    error_distribution.magnitude_nonneg [OF error_distributionI [OF r], of "r div 2"]
  show ?thesis by (auto simp: sample_magnitude)
qed

lemma sampleMatrix_bound: "resolve v = Inr p \<Longrightarrow> x \<in> set (sampleMatrix p r ofs n1 n2) \<Longrightarrow> \<bar>x\<bar> \<le> 12"
  by (auto simp: sampleMatrix_def sample_bound)

subsection \<open>Parts of a byte string\<close>

lemma subarray_append: "length xs = n \<Longrightarrow> subarray (xs @ ys) 0 n = xs" "length xs = n \<Longrightarrow> m = n + k \<Longrightarrow> subarray (xs @ ys) n m = take k ys"
  by (simp_all add: subarray_def)

lemma length_subarray: "stop \<le> length bs \<Longrightarrow> start \<le> stop \<Longrightarrow> length (subarray bs start stop) = stop - start"
  by (simp add: subarray_def)

lemma constantTimeEqual_iff: "length a = length b \<Longrightarrow> constantTimeEqual a b \<longleftrightarrow> a = b"
proof -
  have loop: "fold (\<lambda>i diff. diff OR (a ! i XOR entry_at b i)) [0..<m] 0 = 0 \<longleftrightarrow> (\<forall>i<m. a ! i = entry_at b i)" for m
  proof (induction m)
    case (Suc m)
    have "a ! m XOR entry_at b m = 0 \<longleftrightarrow> a ! m = entry_at b m"
      by (auto simp: bit_eq_iff bit_xor_iff)
    with Suc show ?case by (auto simp: or_eq_0_iff less_Suc_eq)
  qed simp
  assume "length a = length b"
  then show ?thesis unfolding constantTimeEqual_def loop by (auto simp: entry_at_def intro: nth_equalityI)
qed

lemma constantTimeSelect_eq: "length a = length b \<Longrightarrow> constantTimeSelect a b useA = (if useA then a else b)"
  by (rule nth_equalityI)
     (auto simp: constantTimeSelect_def Let_def byte_eq_iff unsigned_and_eq nat_and_mask byte_less_256)

subsection \<open>What the parameters promise\<close>

definition xof_ok :: "xof \<Rightarrow> bool" where
  "xof_ok xof \<longleftrightarrow> (\<forall>b m k. length (xof b m k) = k)"

definition random_ok :: "(nat \<Rightarrow> bytes) \<Rightarrow> bool" where
  "random_ok rnd \<longleftrightarrow> (\<forall>k. length (rnd k) = k)"

lemma length_shakeOf: "xof_ok xof \<Longrightarrow> length (shakeOf xof p m k) = k"
  by (simp add: xof_ok_def shakeOf_def)

lemma length_random: "random_ok rnd \<Longrightarrow> length (rnd k) = k"
  by (simp add: random_ok_def)

text \<open>The parameters of a resolved variant, as equations.\<close>

lemma resolved:
  assumes "resolve v = Inr p"
  shows "fp_q p = 2 ^ fp_D p" "0 < fp_D p" "0 < fp_B p" "fp_B p < fp_D p" "fp_D p \<le> 16" "fp_nbar p = 8" "fp_mbar p = 8"
    "fp_n p * 8 mod 8 = 0" "8 * fp_n p mod 8 = 0" "0 < fp_n p" "fp_n p \<le> 1344" "0 < fp_q p" "fp_q p \<le> 65536"
    "fp_lenMu p = fp_B p * 8" "fp_lenK p = fp_lenS p"
    "fp_pkBytes p = fp_lenSeedA p + fp_D p * fp_n p"
    "fp_skBytes p = fp_lenS p + fp_pkBytes p + 16 * fp_n p + fp_lenPkh p"
    "fp_ctBytes p = fp_D p * fp_n p + fp_D p * 8 + fp_lenSalt p"
proof -
  have "frodo_ok p" using resolve_ok [OF assms] by simp
  moreover have "(2 :: nat) ^ fp_D p \<le> 2 ^ 16" if "fp_D p \<le> 16" using that by (intro power_increasing) simp_all
  ultimately show "fp_q p = 2 ^ fp_D p" "0 < fp_D p" "0 < fp_B p" "fp_B p < fp_D p" "fp_D p \<le> 16" "fp_nbar p = 8" "fp_mbar p = 8"
    "fp_n p * 8 mod 8 = 0" "8 * fp_n p mod 8 = 0" "0 < fp_n p" "fp_n p \<le> 1344" "0 < fp_q p" "fp_q p \<le> 65536"
    "fp_lenMu p = fp_B p * 8" "fp_lenK p = fp_lenS p"
    "fp_pkBytes p = fp_lenSeedA p + fp_D p * fp_n p"
    "fp_skBytes p = fp_lenS p + fp_pkBytes p + 16 * fp_n p + fp_lenPkh p"
    "fp_ctBytes p = fp_D p * fp_n p + fp_D p * 8 + fp_lenSalt p"
    by (auto simp: frodo_ok_def)
qed

lemma length_packed:
  assumes "resolve v = Inr p"
  shows "length (pack p X (fp_n p) (fp_nbar p)) = fp_D p * fp_n p"
    "length (pack p X (fp_mbar p) (fp_n p)) = fp_D p * fp_n p"
    "length (pack p X (fp_mbar p) (fp_nbar p)) = fp_D p * 8"
  using resolved [OF assms] by simp_all

lemma unpack_packed:
  assumes "resolve v = Inr p" "\<And>x. x \<in> set X \<Longrightarrow> 0 \<le> x \<and> x < int (fp_q p)"
  shows "length X = fp_n p * fp_nbar p \<Longrightarrow> unpack p (pack p X (fp_n p) (fp_nbar p)) (fp_n p) (fp_nbar p) = X"
    "length X = fp_mbar p * fp_n p \<Longrightarrow> unpack p (pack p X (fp_mbar p) (fp_n p)) (fp_mbar p) (fp_n p) = X"
    "length X = fp_mbar p * fp_nbar p \<Longrightarrow> unpack p (pack p X (fp_mbar p) (fp_nbar p)) (fp_mbar p) (fp_nbar p) = X"
  using resolved [OF assms(1)] assms(2) by (auto intro!: unpack_pack)

subsection \<open>The parts of keys and ciphertexts\<close>

text \<open>The five fields of a secret key and the three of a ciphertext, at the offsets \<open>decapsulate\<close> reads them from.\<close>

definition sk_s :: "frodo \<Rightarrow> bytes \<Rightarrow> bytes" where
  "sk_s p sk = subarray sk 0 (fp_lenS p)"

definition sk_seedA :: "frodo \<Rightarrow> bytes \<Rightarrow> bytes" where
  "sk_seedA p sk = take (fp_lenSeedA p) (drop (fp_lenS p) sk)"

definition sk_b :: "frodo \<Rightarrow> bytes \<Rightarrow> bytes" where
  "sk_b p sk = take (fp_D p * fp_n p) (drop (fp_lenS p + fp_lenSeedA p) sk)"

definition sk_matrix :: "frodo \<Rightarrow> bytes \<Rightarrow> bytes" where
  "sk_matrix p sk = take (16 * fp_n p) (drop (fp_lenS p + fp_lenSeedA p + fp_D p * fp_n p) sk)"

definition sk_pkh :: "frodo \<Rightarrow> bytes \<Rightarrow> bytes" where
  "sk_pkh p sk = take (fp_lenPkh p) (drop (fp_lenS p + fp_lenSeedA p + fp_D p * fp_n p + 16 * fp_n p) sk)"

definition ct_c1 :: "frodo \<Rightarrow> bytes \<Rightarrow> bytes" where
  "ct_c1 p ct = take (fp_D p * fp_n p) ct"

definition ct_c2 :: "frodo \<Rightarrow> bytes \<Rightarrow> bytes" where
  "ct_c2 p ct = take (fp_D p * 8) (drop (fp_D p * fp_n p) ct)"

definition ct_salt :: "frodo \<Rightarrow> bytes \<Rightarrow> bytes" where
  "ct_salt p ct = drop (fp_D p * fp_n p + fp_D p * 8) ct"

lemmas sk_parts = sk_s_def sk_seedA_def sk_b_def sk_matrix_def sk_pkh_def
lemmas ct_parts = ct_c1_def ct_c2_def ct_salt_def

lemma ct_split: "ct_c1 p ct @ ct_c2 p ct @ ct_salt p ct = ct"
proof -
  have "drop (fp_D p * fp_n p + fp_D p * 8) ct = drop (fp_D p * 8) (drop (fp_D p * fp_n p) ct)"
    by (simp add: add.commute)
  then show ?thesis by (simp only: ct_parts append_take_drop_id)
qed

lemma ct_of_parts:
  "length c1 = fp_D p * fp_n p \<Longrightarrow> length c2 = fp_D p * 8 \<Longrightarrow>
     ct_c1 p (c1 @ c2 @ salt) = c1 \<and> ct_c2 p (c1 @ c2 @ salt) = c2 \<and> ct_salt p (c1 @ c2 @ salt) = salt"
  by (simp add: ct_parts)

text \<open>The message that decapsulation reads, the seed and the key it derives from it, and the ciphertext it re-encrypts to.\<close>

definition recovered :: "frodo \<Rightarrow> bytes \<Rightarrow> bytes \<Rightarrow> bytes" where
  "recovered p sk ct = recover p (sk_matrix p sk) (ct_c1 p ct) (ct_c2 p ct)"

definition derived :: "xof \<Rightarrow> frodo \<Rightarrow> bytes \<Rightarrow> bytes \<Rightarrow> bytes \<Rightarrow> bytes" where
  "derived xof p pkh mu salt = shakeOf xof p (pkh @ mu @ salt) (fp_lenSeedSE p + fp_lenK p)"

definition derived_seed :: "xof \<Rightarrow> frodo \<Rightarrow> bytes \<Rightarrow> bytes \<Rightarrow> bytes \<Rightarrow> bytes" where
  "derived_seed xof p pkh mu salt = take (fp_lenSeedSE p) (derived xof p pkh mu salt)"

definition derived_key :: "xof \<Rightarrow> frodo \<Rightarrow> bytes \<Rightarrow> bytes \<Rightarrow> bytes \<Rightarrow> bytes" where
  "derived_key xof p pkh mu salt = drop (fp_lenSeedSE p) (derived xof p pkh mu salt)"

definition ciphertext_of ::
  "xof \<Rightarrow> cipher \<Rightarrow> frodo \<Rightarrow> bytes \<Rightarrow> bytes \<Rightarrow> bytes \<Rightarrow> bytes \<Rightarrow> bytes \<Rightarrow> bytes" where
  "ciphertext_of xof aes p seedA b pkh mu salt =
     (let (Bprime, C) = encrypt xof aes p seedA b (derived_seed xof p pkh mu salt) mu
      in pack p Bprime (fp_mbar p) (fp_n p) @ pack p C (fp_mbar p) (fp_nbar p) @ salt)"

lemma encrypt_shape:
  assumes "resolve v = Inr p" "encrypt xof aes p seedA b seed mu = (Bprime, C)"
  shows "length Bprime = fp_mbar p * fp_n p" "length C = fp_mbar p * fp_nbar p"
    "x \<in> set Bprime \<Longrightarrow> 0 \<le> x \<and> x < int (fp_q p)" "x \<in> set C \<Longrightarrow> 0 \<le> x \<and> x < int (fp_q p)"
  using assms(2) product_ranges [OF resolved(12) [OF assms(1)]] by (auto simp: encrypt_def Let_def)

text \<open>Two matrices of entries below \<open>q\<close> are those that two byte strings unpack to exactly when they pack to them.\<close>

lemma unpack_eq_iff:
  assumes r: "resolve v = Inr p" and X: "\<And>x. x \<in> set X \<Longrightarrow> 0 \<le> x \<and> x < int (fp_q p)"
  shows "length c = fp_D p * fp_n p \<Longrightarrow> length X = fp_mbar p * fp_n p \<Longrightarrow>
      unpack p c (fp_mbar p) (fp_n p) = X \<longleftrightarrow> c = pack p X (fp_mbar p) (fp_n p)"
    and "length c = fp_D p * 8 \<Longrightarrow> length X = fp_mbar p * fp_nbar p \<Longrightarrow>
      unpack p c (fp_mbar p) (fp_nbar p) = X \<longleftrightarrow> c = pack p X (fp_mbar p) (fp_nbar p)"
  using unpack_packed(2,3) [OF r X] resolved [OF r] by (auto intro!: pack_unpack [symmetric])

subsection \<open>Decapsulation of any ciphertext\<close>

lemma decapsulate_eq:
  assumes r: "resolve v = Inr p" and x: "xof_ok xof" and len: "length sk = fp_skBytes p" "length ct = fp_ctBytes p"
  shows "decapsulate xof aes v sk ct =
    (let mu = recovered p sk ct; pkh = sk_pkh p sk; salt = ct_salt p ct;
         k = (if ct = ciphertext_of xof aes p (sk_seedA p sk) (sk_b p sk) pkh mu salt then derived_key xof p pkh mu salt
              else sk_s p sk)
     in Inr (shakeOf xof p (ct @ k) (fp_lenSs p)))"
proof -
  note R = resolved [OF r]
  define mu pkh salt seedA b where "mu = recovered p sk ct" and "pkh = sk_pkh p sk" and "salt = ct_salt p ct"
    and "seedA = sk_seedA p sk" and "b = sk_b p sk"
  obtain Bpp Cprime where e: "encrypt xof aes p seedA b (derived_seed xof p pkh mu salt) mu = (Bpp, Cprime)"
    by (meson surj_pair)
  note shape = encrypt_shape [OF r e]
  have lens: "length (ct_c1 p ct) = fp_D p * fp_n p" "length (ct_c2 p ct) = fp_D p * 8"
    using len(2) R by (simp_all add: ct_parts)
  have keys: "length (derived_key xof p pkh mu salt) = length (sk_s p sk)"
    using len(1) R x by (simp add: derived_key_def derived_def length_shakeOf sk_s_def subarray_def)
  define equal where "equal \<longleftrightarrow> constantTimeEqual (unpack p (ct_c1 p ct) (fp_mbar p) (fp_n p)) Bpp
    \<and> constantTimeEqual (unpack p (ct_c2 p ct) (fp_mbar p) (fp_nbar p)) Cprime"
  have "equal \<longleftrightarrow> ct_c1 p ct = pack p Bpp (fp_mbar p) (fp_n p) \<and> ct_c2 p ct = pack p Cprime (fp_mbar p) (fp_nbar p)"
    unfolding equal_def
    using shape(1,2) lens by (simp add: constantTimeEqual_iff unpack_eq_iff [OF r shape(3)] unpack_eq_iff [OF r shape(4)])
  also have "\<dots> \<longleftrightarrow> ct = ciphertext_of xof aes p seedA b pkh mu salt"
    (is "?parts \<longleftrightarrow> ct = ?made")
  proof
    assume ?parts
    then have "ct_c1 p ct @ ct_c2 p ct @ salt = ?made" by (simp add: ciphertext_of_def e)
    then show "ct = ?made" by (simp only: salt_def ct_split)
  next
    assume "ct = ?made"
    then have "ct = pack p Bpp (fp_mbar p) (fp_n p) @ pack p Cprime (fp_mbar p) (fp_nbar p) @ salt"
      by (simp only: ciphertext_of_def e prod.case Let_def)
    then show ?parts
      using ct_of_parts [OF length_packed(2) [OF r, of Bpp] length_packed(3) [OF r, of Cprime], of salt] by argo
  qed
  finally have equal: "equal \<longleftrightarrow> ct = ciphertext_of xof aes p seedA b pkh mu salt" .
  have body: "decapsulate xof aes v sk ct =
      Inr (shakeOf xof p (ct_c1 p ct @ ct_c2 p ct @ salt @ constantTimeSelect (derived_key xof p pkh mu salt) (sk_s p sk) equal) (fp_lenSs p))"
    using R len e
    by (simp add: decapsulate_def r Let_def mult.commute [of "fp_n p" "fp_D p"] mult.commute [of 8 "fp_D p"] equal_def recovered_def derived_key_def derived_seed_def derived_def
        mu_def pkh_def salt_def seedA_def b_def sk_parts ct_parts subarray_def split_beta)
  have joined: "ct_c1 p ct @ ct_c2 p ct @ salt @ w = ct @ w" for w
    unfolding salt_def append_assoc [symmetric] using ct_split [of p ct] by simp
  show ?thesis
    unfolding body joined constantTimeSelect_eq [OF keys] equal
    by (simp add: Let_def mu_def pkh_def salt_def seedA_def b_def)
qed

subsection \<open>What key generation and encapsulation make\<close>

definition key_seed :: "frodo \<Rightarrow> (nat \<Rightarrow> bytes) \<Rightarrow> bytes" where
  "key_seed p rnd = subarray (rnd (fp_lenS p + fp_lenSeedSE p + fp_lenZ p)) (fp_lenS p) (fp_lenS p + fp_lenSeedSE p)"

definition key_noise :: "xof \<Rightarrow> frodo \<Rightarrow> (nat \<Rightarrow> bytes) \<Rightarrow> int list \<times> int list" where
  "key_noise xof p rnd =
     (let r = noiseWords xof p 0x5f (key_seed p rnd) (2 * fp_n p * fp_nbar p)
      in (sampleMatrix p r 0 (fp_nbar p) (fp_n p), sampleMatrix p r (fp_n p * fp_nbar p) (fp_n p) (fp_nbar p)))"

definition message :: "frodo \<Rightarrow> (nat \<Rightarrow> bytes) \<Rightarrow> bytes" where
  "message p rnd = subarray (rnd (fp_lenMu p + fp_lenSalt p)) 0 (fp_lenMu p)"

definition salt_of :: "frodo \<Rightarrow> (nat \<Rightarrow> bytes) \<Rightarrow> bytes" where
  "salt_of p rnd = drop (fp_lenMu p) (rnd (fp_lenMu p + fp_lenSalt p))"

definition pkh_of :: "xof \<Rightarrow> frodo \<Rightarrow> bytes \<Rightarrow> bytes" where
  "pkh_of xof p pk = shakeOf xof p pk (fp_lenPkh p)"

lemma keygen_makes:
  assumes r: "resolve v = Inr p" and x: "xof_ok xof" and rnd: "random_ok rnd"
  obtains s seedA b ST E where
    "key_noise xof p rnd = (ST, E)" "length s = fp_lenS p" "length seedA = fp_lenSeedA p" "length b = fp_D p * fp_n p"
    "b = pack p (aTimesSPlusE p (rowGenerator xof aes p seedA) (transposed ST (fp_nbar p) (fp_n p)) E) (fp_n p) (fp_nbar p)"
    "keygen xof aes v rnd = Inr (seedA @ b, s @ seedA @ b @ packSigned ST @ pkh_of xof p (seedA @ b))"
proof -
  note R = resolved [OF r]
  define seed where "seed = rnd (fp_lenS p + fp_lenSeedSE p + fp_lenZ p)"
  define s seedA where "s = subarray seed 0 (fp_lenS p)"
    and "seedA = shakeOf xof p (drop (fp_lenS p + fp_lenSeedSE p) seed) (fp_lenSeedA p)"
  obtain ST E where n: "key_noise xof p rnd = (ST, E)" by (meson surj_pair)
  define b where "b = pack p (aTimesSPlusE p (rowGenerator xof aes p seedA) (transposed ST (fp_nbar p) (fp_n p)) E) (fp_n p) (fp_nbar p)"
  have lens: "length s = fp_lenS p" "length seedA = fp_lenSeedA p" "length b = fp_D p * fp_n p" "length ST = 8 * fp_n p"
    using n R x rnd
    by (auto simp: s_def seedA_def b_def seed_def subarray_def length_random length_shakeOf length_packed [OF r]
        key_noise_def Let_def)
  have "keygen xof aes v rnd = Inr (seedA @ b, s @ seedA @ b @ packSigned ST @ pkh_of xof p (seedA @ b))"
    using n lens R x
    by (simp add: keygen_def r Let_def seed_def [symmetric] s_def [symmetric] seedA_def [symmetric] b_def key_noise_def
        key_seed_def pkh_of_def length_shakeOf)
  with n lens b_def that show ?thesis by blast
qed

lemma encapsulate_makes:
  assumes r: "resolve v = Inr p" and x: "xof_ok xof" and rnd: "random_ok rnd" and pk: "length pk = fp_pkBytes p"
  shows "encapsulate xof aes v pk rnd =
    (let mu = message p rnd; salt = salt_of p rnd; pkh = pkh_of xof p pk;
         ct = ciphertext_of xof aes p (take (fp_lenSeedA p) pk) (drop (fp_lenSeedA p) pk) pkh mu salt
     in Inr (ct, shakeOf xof p (ct @ derived_key xof p pkh mu salt) (fp_lenSs p)))"
    and "length (ciphertext_of xof aes p (take (fp_lenSeedA p) pk) (drop (fp_lenSeedA p) pk) (pkh_of xof p pk) (message p rnd)
      (salt_of p rnd)) = fp_ctBytes p"
proof -
  define mu salt pkh where "mu = message p rnd" and "salt = salt_of p rnd" and "pkh = pkh_of xof p pk"
  obtain B C where e: "encrypt xof aes p (take (fp_lenSeedA p) pk) (drop (fp_lenSeedA p) pk) (derived_seed xof p pkh mu salt) mu = (B, C)"
    by (meson surj_pair)
  have salt: "length salt = fp_lenSalt p" using rnd by (simp add: salt_def salt_of_def length_random)
  show len: "length (ciphertext_of xof aes p (take (fp_lenSeedA p) pk) (drop (fp_lenSeedA p) pk) (pkh_of xof p pk) (message p rnd)
      (salt_of p rnd)) = fp_ctBytes p"
    using salt resolved(18) [OF r] e by (simp add: ciphertext_of_def length_packed [OF r] mu_def salt_def pkh_def)
  show "encapsulate xof aes v pk rnd =
    (let mu = message p rnd; salt = salt_of p rnd; pkh = pkh_of xof p pk;
         ct = ciphertext_of xof aes p (take (fp_lenSeedA p) pk) (drop (fp_lenSeedA p) pk) pkh mu salt
     in Inr (ct, shakeOf xof p (ct @ derived_key xof p pkh mu salt) (fp_lenSs p)))"
    using e len pk
    by (simp add: encapsulate_def r Let_def subarray_def ciphertext_of_def mu_def salt_def pkh_def message_def salt_of_def
        pkh_of_def derived_seed_def derived_key_def derived_def split_beta)
qed

subsection \<open>The noise of a decryption\<close>

definition decryption_noise :: "xof \<Rightarrow> frodo \<Rightarrow> (nat \<Rightarrow> bytes) \<Rightarrow> bytes \<Rightarrow> (nat \<Rightarrow> bytes) \<Rightarrow> int list" where
  "decryption_noise xof p rnd pk rnd' =
     (let (ST, E) = key_noise xof p rnd; n = fp_n p;
          r = noiseWords xof p 0x96 (derived_seed xof p (pkh_of xof p pk) (message p rnd') (salt_of p rnd'))
                (2 * fp_mbar p * n + fp_mbar p * fp_nbar p);
          Sprime = sampleMatrix p r 0 (fp_mbar p) n;
          Eprime = sampleMatrix p r (fp_mbar p * n) (fp_mbar p) n;
          Epp = sampleMatrix p r (2 * fp_mbar p * n) (fp_mbar p) (fp_nbar p)
      in mat (fp_mbar p) (fp_nbar p) (\<lambda>i j.
           accumulate n (\<lambda>k. Sprime ! (i * n + k) * E ! (k * fp_nbar p + j)) + Epp ! (i * fp_nbar p + j)
           - accumulate n (\<lambda>k. Eprime ! (i * n + k) * ST ! (j * n + k))))"

lemma dvd_sum_diff: "(\<And>k. k < n \<Longrightarrow> (q :: int) dvd f k - g k) \<Longrightarrow> q dvd (\<Sum>k<n. c k * f k) - (\<Sum>k<n. c k * g k)"
proof -
  assume d: "\<And>k. k < n \<Longrightarrow> q dvd f k - g k"
  have "(\<Sum>k<n. c k * f k) - (\<Sum>k<n. c k * g k) = (\<Sum>k<n. c k * (f k - g k))"
    by (simp add: sum_subtractf right_diff_distrib)
  also have "q dvd \<dots>" using d by (intro dvd_sum) simp
  finally show ?thesis .
qed

text \<open>The two products with \<open>A\<close> cancel: \<open>S' (A S + E) - (S' A + E') S = S' E - E' S\<close>.\<close>

lemma lwe_cancel:
  fixes q :: int and A :: "nat \<Rightarrow> nat \<Rightarrow> int"
  assumes B: "\<And>k. k < n \<Longrightarrow> B k = ((\<Sum>l<n. A k l * S l) + E k) mod q"
    and B': "\<And>k. k < n \<Longrightarrow> B' k = ((\<Sum>l<n. S' l * A l k) + E' k) mod q"
  shows "((((\<Sum>k<n. S' k * B k) + E2) mod q + m) mod q - (\<Sum>k<n. B' k * S k)) mod q =
    (m + ((\<Sum>k<n. S' k * E k) + E2 - (\<Sum>k<n. E' k * S k))) mod q"
proof -
  define X X' where "X k = (\<Sum>l<n. A k l * S l) + E k" and "X' k = (\<Sum>l<n. S' l * A l k) + E' k" for k
  have d1: "q dvd (\<Sum>k<n. S' k * B k) - (\<Sum>k<n. S' k * X k)"
    by (rule dvd_sum_diff) (simp add: B X_def mod_eq_dvd_iff [symmetric])
  have d2: "q dvd (\<Sum>k<n. S k * B' k) - (\<Sum>k<n. S k * X' k)"
    by (rule dvd_sum_diff) (simp add: B' X'_def mod_eq_dvd_iff [symmetric])
  have swap: "(\<Sum>k<n. S' k * (\<Sum>l<n. A k l * S l)) = (\<Sum>k<n. S k * (\<Sum>l<n. S' l * A l k))"
    by (simp add: sum_distrib_left mult.assoc mult.left_commute) (subst sum.swap, simp add: mult.commute mult.left_commute)
  have x: "(\<Sum>k<n. S' k * X k) - (\<Sum>k<n. S k * X' k) = (\<Sum>k<n. S' k * E k) - (\<Sum>k<n. E' k * S k)"
    by (simp add: X_def X'_def distrib_left sum.distrib swap mult.commute [of "S _" "E' _"])
  have "((((\<Sum>k<n. S' k * B k) + E2) mod q + m) mod q - (\<Sum>k<n. B' k * S k)) mod q =
      ((\<Sum>k<n. S' k * B k) + E2 + m - (\<Sum>k<n. S k * B' k)) mod q"
    by (simp add: mod_simps mult.commute [of "B' _"])
  also have "\<dots> = (m + ((\<Sum>k<n. S' k * E k) + E2 - (\<Sum>k<n. E' k * S k))) mod q"
  proof -
    have "(\<Sum>k<n. S' k * B k) + E2 + m - (\<Sum>k<n. S k * B' k) - (m + ((\<Sum>k<n. S' k * E k) + E2 - (\<Sum>k<n. E' k * S k))) =
        ((\<Sum>k<n. S' k * B k) - (\<Sum>k<n. S' k * X k)) - ((\<Sum>k<n. S k * B' k) - (\<Sum>k<n. S k * X' k))"
      using x by linarith
    then show ?thesis using d1 d2 by (simp only: mod_eq_dvd_iff dvd_diff)
  qed
  finally show ?thesis .
qed

lemma recover_iff:
  assumes r: "resolve v = Inr p"
    and ST: "length ST = 8 * fp_n p" "\<And>x. x \<in> set ST \<Longrightarrow> \<bar>x\<bar> \<le> 12"
    and Sp: "length Sprime = fp_mbar p * fp_n p" and mu: "length mu = fp_B p * 8"
    and B_def: "B = aTimesSPlusE p A (transposed ST (fp_nbar p) (fp_n p)) E"
    and Bprime_def: "Bprime = sTimesAPlusE p A Sprime Eprime"
    and C_def: "C = addMatrices p (mulAdd p Sprime (fp_mbar p) (fp_n p) B (fp_nbar p) (Some Epp) False) (encode p mu)"
  shows "recover p (packSigned ST) (pack p Bprime (fp_mbar p) (fp_n p)) (pack p C (fp_mbar p) (fp_nbar p)) = mu \<longleftrightarrow>
    list_all (fits_noise p) (mat (fp_mbar p) (fp_nbar p) (\<lambda>i j.
       accumulate (fp_n p) (\<lambda>k. Sprime ! (i * fp_n p + k) * E ! (k * fp_nbar p + j)) + Epp ! (i * fp_nbar p + j)
       - accumulate (fp_n p) (\<lambda>k. Eprime ! (i * fp_n p + k) * ST ! (j * fp_n p + k))))"
proof -
  note R = resolved [OF r]
  define n where "n = fp_n p"
  define q where "q = int (fp_q p)"
  have S: "transposed (unpackSigned (packSigned ST) (fp_n p * fp_nbar p)) (fp_nbar p) (fp_n p) = transposed ST 8 n"
    using ST R by (subst unpack_packSigned) (fastforce simp: n_def)+
  have Bp: "unpack p (pack p Bprime (fp_mbar p) (fp_n p)) (fp_mbar p) (fp_n p) = Bprime"
    by (rule unpack_packed(2) [OF r]) (simp_all add: Bprime_def product_ranges [OF R(12)])
  have Cc: "unpack p (pack p C (fp_mbar p) (fp_nbar p)) (fp_mbar p) (fp_nbar p) = C"
    by (rule unpack_packed(3) [OF r]) (simp_all add: C_def product_ranges [OF R(12)])
  define M where "M = mulAdd p Bprime 8 n (transposed ST 8 n) 8 (Some C) True"
  define e where "e = (\<lambda>i j. (\<Sum>k<n. Sprime ! (i * n + k) * E ! (k * 8 + j)) + Epp ! (i * 8 + j)
    - (\<Sum>k<n. Eprime ! (i * n + k) * ST ! (j * n + k)))"
  have rec: "recover p (packSigned ST) (pack p Bprime (fp_mbar p) (fp_n p)) (pack p C (fp_mbar p) (fp_nbar p)) = decode p M"
    unfolding recover_def Let_def S Bp Cc by (simp add: M_def R(6,7) n_def)
  have entry: "M ! (i * 8 + j) = (encode p mu ! (i * 8 + j) + e i j) mod q" if "i < 8" "j < 8" for i j
  proof -
    have C: "C ! (i * 8 + j) = (((\<Sum>k<n. Sprime ! (i * n + k) * B ! (k * 8 + j)) + Epp ! (i * 8 + j)) mod q + encode p mu ! (i * 8 + j)) mod q"
      using that R mat_index [OF that] by (simp add: C_def addMatrices_def mulAdd_entries mat_nth accumulate_sum n_def q_def)
    have b: "B ! (k * 8 + j) = ((\<Sum>l<n. A k ! l * ST ! (j * n + l)) + E ! (k * 8 + j)) mod q" if "k < n" for k
      using that \<open>j < 8\<close> R by (simp add: B_def aTimesSPlusE_mat mat_nth accumulate_sum transposed_nth n_def q_def)
    have bp: "Bprime ! (i * n + k) = ((\<Sum>l<n. Sprime ! (i * n + l) * A l ! k) + Eprime ! (i * n + k)) mod q" if "k < n" for k
      using that \<open>i < 8\<close> R by (simp add: Bprime_def sTimesAPlusE_mat mat_nth n_def q_def)
    have "M ! (i * 8 + j) = (C ! (i * 8 + j) - (\<Sum>k<n. Bprime ! (i * n + k) * ST ! (j * n + k))) mod q"
      using that R by (simp add: M_def mulAdd_entries mat_nth accumulate_sum transposed_nth n_def q_def)
    also have "\<dots> = (encode p mu ! (i * 8 + j) + e i j) mod q"
      unfolding C e_def
      by (rule lwe_cancel [where A = "\<lambda>k l. A k ! l" and S = "\<lambda>l. ST ! (j * n + l)" and S' = "\<lambda>l. Sprime ! (i * n + l)"
            and E = "\<lambda>k. E ! (k * 8 + j)" and E' = "\<lambda>k. Eprime ! (i * n + k)", OF b bp]) assumption+
    finally show ?thesis .
  qed
  have "decode p M = mu \<longleftrightarrow> (\<forall>t<64. fits_noise p (e (t div 8) (t mod 8)))"
  proof (rule decode_exact [OF R(1,3,4,7,6) mu])
    show "M ! t = (encode p mu ! t + e (t div 8) (t mod 8)) mod int (fp_q p)" if "t < 64" for t
      using entry [of "t div 8" "t mod 8"] that by (simp add: q_def)
  qed (simp add: M_def)
  also have "\<dots> \<longleftrightarrow> list_all (fits_noise p) (mat 8 8 e)"
    by (simp add: list_all_length mat_entry)
  finally show ?thesis
    unfolding rec by (simp add: R(6,7) accumulate_sum e_def n_def)
qed

subsection \<open>Properties\<close>

lemma sk_of_parts:
  assumes "length s = fp_lenS p" "length seedA = fp_lenSeedA p" "length b = fp_D p * fp_n p" "length m = 16 * fp_n p"
    "length pkh = fp_lenPkh p"
  shows "sk_s p (s @ seedA @ b @ m @ pkh) = s \<and> sk_seedA p (s @ seedA @ b @ m @ pkh) = seedA \<and> sk_b p (s @ seedA @ b @ m @ pkh) = b
    \<and> sk_matrix p (s @ seedA @ b @ m @ pkh) = m \<and> sk_pkh p (s @ seedA @ b @ m @ pkh) = pkh"
  using assms by (simp add: sk_parts subarray_def)

lemma message_exact:
  assumes r: "resolve v = Inr p" and x: "xof_ok xof" and rnd: "random_ok rnd" "random_ok rnd'"
    and kg: "keygen xof aes v rnd = Inr (pk, sk)" and en: "encapsulate xof aes v pk rnd' = Inr (ct, ss)"
  shows "recovered p sk ct = message p rnd' \<longleftrightarrow> list_all (fits_noise p) (decryption_noise xof p rnd pk rnd')"
    and "length pk = fp_pkBytes p" "length sk = fp_skBytes p" "length ct = fp_ctBytes p"
    and "sk_seedA p sk = take (fp_lenSeedA p) pk" "sk_b p sk = drop (fp_lenSeedA p) pk" "sk_pkh p sk = pkh_of xof p pk"
    and "ct = ciphertext_of xof aes p (take (fp_lenSeedA p) pk) (drop (fp_lenSeedA p) pk) (pkh_of xof p pk) (message p rnd') (salt_of p rnd')"
    and "ss = shakeOf xof p (ct @ derived_key xof p (pkh_of xof p pk) (message p rnd') (salt_of p rnd')) (fp_lenSs p)"
    and "ct_salt p ct = salt_of p rnd'"
proof -
  note R = resolved [OF r]
  obtain s seedA b ST E where K: "key_noise xof p rnd = (ST, E)" "length s = fp_lenS p" "length seedA = fp_lenSeedA p"
    "length b = fp_D p * fp_n p"
    "b = pack p (aTimesSPlusE p (rowGenerator xof aes p seedA) (transposed ST (fp_nbar p) (fp_n p)) E) (fp_n p) (fp_nbar p)"
    "keygen xof aes v rnd = Inr (seedA @ b, s @ seedA @ b @ packSigned ST @ pkh_of xof p (seedA @ b))"
    by (rule keygen_makes [OF r x rnd(1)])
  have pk: "pk = seedA @ b" and sk: "sk = s @ seedA @ b @ packSigned ST @ pkh_of xof p pk"
    using kg K(6) by (simp, simp, blast)
  have ST: "length ST = 8 * fp_n p" "\<And>y. y \<in> set ST \<Longrightarrow> \<bar>y\<bar> \<le> 12"
    using K(1) R sampleMatrix_bound [OF r] by (auto simp: key_noise_def Let_def)
  have pkh: "length (pkh_of xof p pk) = fp_lenPkh p" using x by (simp add: pkh_of_def length_shakeOf)
  show lpk: "length pk = fp_pkBytes p" using K R by (simp add: pk)
  show "length sk = fp_skBytes p" using K R ST pkh by (simp add: sk pk)
  note P = sk_of_parts [OF K(2-4) _ pkh, of "packSigned ST", folded sk, simplified ST(1) length_packSigned]
  show seed: "sk_seedA p sk = take (fp_lenSeedA p) pk" and bb: "sk_b p sk = drop (fp_lenSeedA p) pk"
    and hash: "sk_pkh p sk = pkh_of xof p pk"
    using P K by (simp_all add: pk)
  note en' = encapsulate_makes [OF r x rnd(2) lpk, of aes]
  show ct: "ct = ciphertext_of xof aes p (take (fp_lenSeedA p) pk) (drop (fp_lenSeedA p) pk) (pkh_of xof p pk) (message p rnd') (salt_of p rnd')"
    using en en' by (simp add: Let_def)
  show "ss = shakeOf xof p (ct @ derived_key xof p (pkh_of xof p pk) (message p rnd') (salt_of p rnd')) (fp_lenSs p)"
    using en en'(1) unfolding Let_def ct [symmetric] by simp
  show "length ct = fp_ctBytes p" using en'(2) by (simp add: ct)
  obtain Bp C where e: "encrypt xof aes p seedA b (derived_seed xof p (pkh_of xof p pk) (message p rnd') (salt_of p rnd')) (message p rnd') = (Bp, C)"
    by (meson surj_pair)
  have ct2: "ct = pack p Bp (fp_mbar p) (fp_n p) @ pack p C (fp_mbar p) (fp_nbar p) @ salt_of p rnd'"
    using e K(3) by (simp add: ct pk ciphertext_of_def)
  note Q = ct_of_parts [OF length_packed(2) [OF r, of Bp] length_packed(3) [OF r, of C], of "salt_of p rnd'", folded ct2]
  show "ct_salt p ct = salt_of p rnd'" using Q by simp
  have mu: "length (message p rnd') = fp_B p * 8" using rnd(2) R by (simp add: message_def subarray_def length_random)
  have B: "unpack p b (fp_n p) (fp_nbar p) = aTimesSPlusE p (rowGenerator xof aes p seedA) (transposed ST (fp_nbar p) (fp_n p)) E"
    unfolding K(5) by (rule unpack_packed(1) [OF r]) (simp_all add: product_ranges [OF R(12)])
  define w where "w = noiseWords xof p 0x96 (derived_seed xof p (pkh_of xof p pk) (message p rnd') (salt_of p rnd'))
    (2 * fp_mbar p * fp_n p + fp_mbar p * fp_nbar p)"
  have "recovered p sk ct = recover p (packSigned ST) (pack p Bp (fp_mbar p) (fp_n p)) (pack p C (fp_mbar p) (fp_nbar p))"
    using P Q by (simp add: recovered_def)
  then show "recovered p sk ct = message p rnd' \<longleftrightarrow> list_all (fits_noise p) (decryption_noise xof p rnd pk rnd')"
    using recover_iff [OF r ST _ mu B, of "sampleMatrix p w 0 (fp_mbar p) (fp_n p)" Bp
        "sampleMatrix p w (fp_mbar p * fp_n p) (fp_mbar p) (fp_n p)" C "sampleMatrix p w (2 * fp_mbar p * fp_n p) (fp_mbar p) (fp_nbar p)"] e
    by (simp add: encrypt_def Let_def w_def decryption_noise_def K(1))
qed

text \<open>A silent source, for the witnesses: every hash and every random byte is zero, so every noise matrix is.\<close>

definition zero_xof :: xof where
  "zero_xof big m k = replicate k 0"

definition zero_random :: "nat \<Rightarrow> bytes" where
  "zero_random k = replicate k 0"

lemma zero_ok: "xof_ok zero_xof" "random_ok zero_random"
  by (simp_all add: xof_ok_def random_ok_def zero_xof_def zero_random_def)

lemma sample_0: "sample p 0 = 0"
proof -
  have "fold (\<lambda>z (e :: int). if T ! z < 0 then e + 1 else e) zs 0 = 0" for zs and T :: "nat list"
    by (induction zs) auto
  then show ?thesis by (simp add: sample_def)
qed

lemma zero_noise: "sampleMatrix p (noiseWords zero_xof p c seed m) ofs n1 n2 = replicate (n1 * n2) 0"
proof -
  have "word_at (noiseWords zero_xof p c seed m) i = 0" for i
    by (simp add: word_at_def noiseWords_def Let_def shakeOf_def zero_xof_def le16_def byte_at_def)
  then show ?thesis by (simp add: sampleMatrix_def sample_0 map_replicate_const)
qed

lemma fits_0: "resolve v = Inr p \<Longrightarrow> fits_noise p 0"
proof -
  assume r: "resolve v = Inr p"
  then have "half_step p < int (fp_q p)"
    using resolved(1,3,4) [OF r] by (simp add: half_step_def)
  then show ?thesis using mod_pos_pos_trivial [of "half_step p" "int (fp_q p)"] by (simp add: fits_noise_def half_step_def)
qed

lemma zero_fits: "resolve v = Inr p \<Longrightarrow> list_all (fits_noise p) (decryption_noise zero_xof p rnd pk rnd')"
proof -
  assume r: "resolve v = Inr p"
  have "mat 8 8 f = replicate 64 0" if "\<And>i j. i < 8 \<Longrightarrow> j < 8 \<Longrightarrow> f i j = 0" for f
    by (rule nth_equalityI) (simp_all add: mat_entry that)
  then have "decryption_noise zero_xof p rnd pk rnd' = replicate 64 0"
    using resolved [OF r] mat_index [where r = 8]
    by (simp add: decryption_noise_def key_noise_def Let_def zero_noise accumulate_sum mat_index mult.commute)
  then show ?thesis using fits_0 [OF r] by (simp add: list_all_iff)
qed

text \<open>C29: Decapsulation returns the encapsulated secret: for each of the twelve sets, a key pair that \<open>keygen\<close> made and a
  ciphertext that \<open>encapsulate\<close> made for its public key decapsulate to the secret of the encapsulation whenever each of
  the 64 entries of the noise \<open>S' E + E'' - E' S\<close> is, modulo \<open>q\<close>, at least \<open>- q / 2^(B+1)\<close> and below \<open>q / 2^(B+1)\<close>.\<close>

theorem decapsulate_recovers:
  assumes r: "resolve v = Inr p" and x: "xof_ok xof" and rnd: "random_ok rnd" "random_ok rnd'"
    and kg: "keygen xof aes v rnd = Inr (pk, sk)" and en: "encapsulate xof aes v pk rnd' = Inr (ct, ss)"
    and fits: "list_all (fits_noise p) (decryption_noise xof p rnd pk rnd')"
  shows "decapsulate xof aes v sk ct = Inr ss"
proof -
  note M = message_exact [OF r x rnd kg en]
  have mu: "recovered p sk ct = message p rnd'" using M(1) fits by simp
  show ?thesis
    unfolding decapsulate_eq [OF r x M(3,4)] Let_def M(5-7,10) mu M(8) [symmetric] by (simp add: M(9))
qed

theorem decapsulate_recovers_witness:
  "case keygen zero_xof (\<lambda>k d. d) ''FrodoKEM-640-SHAKE'' zero_random of
     Inr (pk, sk) \<Rightarrow> (case encapsulate zero_xof (\<lambda>k d. d) ''FrodoKEM-640-SHAKE'' pk zero_random of
        Inr (ct, ss) \<Rightarrow> decapsulate zero_xof (\<lambda>k d. d) ''FrodoKEM-640-SHAKE'' sk ct = Inr ss | Inl e \<Rightarrow> False)
   | Inl e \<Rightarrow> False"
proof -
  obtain p where r: "resolve ''FrodoKEM-640-SHAKE'' = Inr p"
    using resolve_known [of "''FrodoKEM-640-SHAKE''"] by (auto simp: VARIANTS_def)
  obtain pk sk where kg: "keygen zero_xof (\<lambda>k d. d) ''FrodoKEM-640-SHAKE'' zero_random = Inr (pk, sk)"
    and pk: "length pk = fp_pkBytes p"
    using resolved(16) [OF r] by (auto intro: keygen_makes [OF r zero_ok, of "\<lambda>k d. d"])
  obtain ct ss where en: "encapsulate zero_xof (\<lambda>k d. d) ''FrodoKEM-640-SHAKE'' pk zero_random = Inr (ct, ss)"
    using encapsulate_makes(1) [OF r zero_ok pk, of "\<lambda>k d. d"] by (auto simp: Let_def)
  show ?thesis
    using decapsulate_recovers [OF r zero_ok(1) zero_ok(2) zero_ok(2) kg en zero_fits [OF r]] by (simp add: kg en)
qed

text \<open>C30: The threshold of decryption is exact: the message that decapsulation reads is the one encapsulated exactly when
  every entry of the noise fits, so a single entry outside the interval changes the message.\<close>

theorem message_recovered_iff_noise_fits:
  assumes "resolve v = Inr p" "xof_ok xof" "random_ok rnd" "random_ok rnd'"
    and "keygen xof aes v rnd = Inr (pk, sk)" "encapsulate xof aes v pk rnd' = Inr (ct, ss)"
  shows "recovered p sk ct = message p rnd' \<longleftrightarrow> list_all (fits_noise p) (decryption_noise xof p rnd pk rnd')"
  by (rule message_exact(1) [OF assms])

theorem message_recovered_iff_noise_fits_witness:
  "case resolve ''eFrodoKEM-976-AES'' of Inr p \<Rightarrow>
    (case keygen zero_xof (\<lambda>k d. d) ''eFrodoKEM-976-AES'' zero_random of
     Inr (pk, sk) \<Rightarrow> (case encapsulate zero_xof (\<lambda>k d. d) ''eFrodoKEM-976-AES'' pk zero_random of
        Inr (ct, ss) \<Rightarrow> recovered p sk ct = message p zero_random | Inl e \<Rightarrow> False)
   | Inl e \<Rightarrow> False) | Inl e \<Rightarrow> False"
proof -
  obtain p where r: "resolve ''eFrodoKEM-976-AES'' = Inr p"
    using resolve_known [of "''eFrodoKEM-976-AES''"] by (auto simp: VARIANTS_def)
  obtain pk sk where kg: "keygen zero_xof (\<lambda>k d. d) ''eFrodoKEM-976-AES'' zero_random = Inr (pk, sk)"
    and pk: "length pk = fp_pkBytes p"
    using resolved(16) [OF r] by (auto intro: keygen_makes [OF r zero_ok, of "\<lambda>k d. d"])
  obtain ct ss where en: "encapsulate zero_xof (\<lambda>k d. d) ''eFrodoKEM-976-AES'' pk zero_random = Inr (ct, ss)"
    using encapsulate_makes(1) [OF r zero_ok pk, of "\<lambda>k d. d"] by (auto simp: Let_def)
  show ?thesis
    using message_recovered_iff_noise_fits [OF r zero_ok(1) zero_ok(2) zero_ok(2) kg en] zero_fits [OF r]
    by (simp add: r kg en)
qed

text \<open>C31: Decapsulation never answers with an error once the lengths are right, whatever key and ciphertext it is given: the
  secret is the hash of the ciphertext with the derived key when the ciphertext is, byte for byte, the one that
  encapsulating the recovered message gives, and with the key's own \<open>s\<close> for every other ciphertext.\<close>

theorem decapsulate_implicit_rejection:
  assumes "resolve v = Inr p" "xof_ok xof"
  shows "decapsulate xof aes v sk ct =
    (if length sk \<noteq> fp_skBytes p then Inl (WrongSecretKeyLength (fp_skBytes p) (length sk))
     else if length ct \<noteq> fp_ctBytes p then Inl (WrongCiphertextLength (fp_ctBytes p) (length ct))
     else let mu = recovered p sk ct; pkh = sk_pkh p sk; salt = ct_salt p ct;
              k = (if ct = ciphertext_of xof aes p (sk_seedA p sk) (sk_b p sk) pkh mu salt
                   then derived_key xof p pkh mu salt else sk_s p sk)
          in Inr (shakeOf xof p (ct @ k) (fp_lenSs p)))"
proof (cases "length sk = fp_skBytes p \<and> length ct = fp_ctBytes p")
  case True
  then show ?thesis
    unfolding decapsulate_eq [OF assms True [THEN conjunct1] True [THEN conjunct2]] by (simp only: simp_thms if_False)
qed (auto simp: decapsulate_def assms(1))

theorem decapsulate_implicit_rejection_witness:
  "decapsulate zero_xof (\<lambda>k d. d) ''FrodoKEM-640-AES'' [] [] = Inl (WrongSecretKeyLength 19888 0)"
proof -
  define p where "p = projr (resolve ''FrodoKEM-640-AES'')"
  have r: "resolve ''FrodoKEM-640-AES'' = Inr p" and len: "fp_skBytes p = 19888"
    by (simp_all add: p_def resolve_def match_variant_def before_def after_def SETS_def Let_def)
  show ?thesis using decapsulate_implicit_rejection [OF r zero_ok(1), of "\<lambda>k d. d" "[]" "[]"] by (simp add: len)
qed

text \<open>The lengths agree with the tables: key generation fails exactly on a name that is none of the twelve, never on
  the disagreement it checks for, and its keys have the lengths of the set; encapsulation fails exactly on an unknown
  name or a public key of another length, and its ciphertext and secret have the lengths of the set.\<close>

theorem kem_lengths:
  assumes x: "xof_ok xof" and rnd: "random_ok rnd"
  shows "(case keygen xof aes v rnd of
            Inl e \<Rightarrow> v \<notin> set VARIANTS \<and> e = UnknownVariant v
          | Inr (pk, sk) \<Rightarrow> (\<exists>p. resolve v = Inr p \<and> length pk = fp_pkBytes p \<and> length sk = fp_skBytes p))
    \<and> (case encapsulate xof aes v pk0 rnd of
            Inl (UnknownVariant u) \<Rightarrow> u = v \<and> v \<notin> set VARIANTS
          | Inl (WrongPublicKeyLength n m) \<Rightarrow> (\<exists>p. resolve v = Inr p \<and> n = fp_pkBytes p \<and> m = length pk0 \<and> n \<noteq> m)
          | Inl _ \<Rightarrow> False
          | Inr (ct, ss) \<Rightarrow> (\<exists>p. resolve v = Inr p \<and> length ct = fp_ctBytes p \<and> length ss = fp_lenSs p))"
proof (cases "v \<in> set VARIANTS")
  case False
  then show ?thesis by (simp add: keygen_def encapsulate_def resolve_unknown)
next
  case True
  then obtain p where r: "resolve v = Inr p" using resolve_known by blast
  note R = resolved [OF r]
  have pkh: "length (pkh_of xof p w) = fp_lenPkh p" for w using x by (simp add: pkh_of_def length_shakeOf)
  obtain s seedA b ST E where K: "key_noise xof p rnd = (ST, E)" "length s = fp_lenS p" "length seedA = fp_lenSeedA p"
    "length b = fp_D p * fp_n p" "keygen xof aes v rnd = Inr (seedA @ b, s @ seedA @ b @ packSigned ST @ pkh_of xof p (seedA @ b))"
    by (rule keygen_makes [OF r x rnd])
  have "length ST = 8 * fp_n p" using K(1) R by (auto simp: key_noise_def Let_def)
  with K R pkh obtain pk sk where
    kg: "keygen xof aes v rnd = Inr (pk, sk)" "length pk = fp_pkBytes p" "length sk = fp_skBytes p"
    by simp
  show ?thesis
  proof (cases "length pk0 = fp_pkBytes p")
    case True
    with encapsulate_makes [OF r x rnd True, of aes] show ?thesis
      by (simp add: kg r Let_def length_shakeOf [OF x])
  next
    case False
    then show ?thesis by (simp add: kg r encapsulate_def)
  qed
qed

theorem kem_lengths_witness:
  "case keygen zero_xof (\<lambda>k d. d) ''eFrodoKEM-1344-SHAKE'' zero_random of
     Inl e \<Rightarrow> False | Inr (pk, sk) \<Rightarrow> length pk = 21520 \<and> length sk = 43088"
proof -
  have v: "''eFrodoKEM-1344-SHAKE'' \<in> set VARIANTS" by (simp add: VARIANTS_def)
  define p where "p = projr (resolve ''eFrodoKEM-1344-SHAKE'')"
  have r: "resolve ''eFrodoKEM-1344-SHAKE'' = Inr p" and len: "fp_pkBytes p = 21520" "fp_skBytes p = 43088"
    by (simp_all add: p_def resolve_def match_variant_def before_def after_def SETS_def Let_def ephemeral_lengths_def)
  show ?thesis
    using kem_lengths [OF zero_ok, where v = "''eFrodoKEM-1344-SHAKE''" and aes = "\<lambda>k d. d" and ?pk0.0 = "[]"] v len
    by (auto simp: r split: sum.splits)
qed

text \<open>C32: The products that use the rows of \<open>A\<close> one at a time are the products with the whole matrix: \<open>aTimesSPlusE\<close> is
  \<open>A S + E\<close> and \<open>sTimesAPlusE\<close>, which adds row by row into an accumulator and skips a zero factor, is \<open>S' A + E'\<close>,
  entry by entry modulo \<open>q\<close>, where \<open>A\<close> is the flat list of all its rows.\<close>

theorem row_products_are_products:
  assumes r: "resolve v = Inr p"
  shows "let n = fp_n p; A = concat (map (rowGenerator xof aes p seedA) [0..<n]) in
    aTimesSPlusE p (rowGenerator xof aes p seedA) S E =
      mat n 8 (\<lambda>i k. ((\<Sum>j<n. A ! (i * n + j) * S ! (j * 8 + k)) + E ! (i * 8 + k)) mod int (fp_q p))
    \<and> sTimesAPlusE p (rowGenerator xof aes p seedA) S' E' =
      mat 8 n (\<lambda>i j. ((\<Sum>k<n. S' ! (i * n + k) * A ! (k * n + j)) + E' ! (i * n + j)) mod int (fp_q p))"
proof -
  define n A where "n = fp_n p" and "A = concat (map (rowGenerator xof aes p seedA) [0..<n])"
  have A: "A = mat n n (\<lambda>i j. rowGenerator xof aes p seedA i ! j)"
  proof -
    have "rowGenerator xof aes p seedA i = map (\<lambda>j. rowGenerator xof aes p seedA i ! j) [0..<n]" for i
      using map_nth [of "rowGenerator xof aes p seedA i"] by (simp add: n_def)
    then show ?thesis unfolding A_def mat_def by (metis (no_types, lifting))
  qed
  show ?thesis
    using resolved(6,7,12) [OF r] unfolding Let_def n_def [symmetric] A_def [symmetric]
    by (auto simp: aTimesSPlusE_mat sTimesAPlusE_mat accumulate_sum n_def [symmetric] A mat_nth intro!: mat_cong)
qed

theorem row_products_are_products_witness:
  "sTimesAPlusE (projr (resolve ''FrodoKEM-976-SHAKE'')) (rowGenerator zero_xof (\<lambda>k d. d) (projr (resolve ''FrodoKEM-976-SHAKE'')) [])
     (replicate 7808 0) (replicate 7808 (-1)) ! 5 = 65535"
proof -
  define p where "p = projr (resolve ''FrodoKEM-976-SHAKE'')"
  have r: "resolve ''FrodoKEM-976-SHAKE'' = Inr p" and n: "fp_n p = 976" "fp_q p = 65536" "fp_mbar p = 8"
    by (simp_all add: p_def resolve_def match_variant_def before_def after_def SETS_def Let_def)
  show ?thesis
    using row_products_are_products [OF r, of zero_xof "\<lambda>k d. d" "[]" "[]" "[]" "replicate 7808 0" "replicate 7808 (-1)"]
    by (simp add: r n mat_entry Let_def)
qed

lemma accumulate_bound: "(\<And>k. k < m \<Longrightarrow> \<bar>f k\<bar> \<le> a) \<Longrightarrow> \<bar>accumulate m f\<bar> \<le> int m * a"
proof -
  assume b: "\<And>k. k < m \<Longrightarrow> \<bar>f k\<bar> \<le> a"
  have "\<bar>accumulate m f\<bar> \<le> (\<Sum>k<m. \<bar>f k\<bar>)" by (simp add: accumulate_sum sum_abs)
  also have "\<dots> \<le> (\<Sum>k<m. a)" using b by (intro sum_mono) simp
  finally show ?thesis by simp
qed

lemma product_bound: "0 \<le> x \<Longrightarrow> x < int q \<Longrightarrow> q \<le> 65536 \<Longrightarrow> \<bar>y\<bar> \<le> a \<Longrightarrow> \<bar>x * y\<bar> \<le> 65536 * a"
  by (simp add: abs_mult mult_mono)

lemma unpackSigned_bound: "x \<in> set (unpackSigned bs n) \<Longrightarrow> \<bar>x\<bar> \<le> 32768"
proof -
  have "byte_at bs i < 256" for i by (simp add: byte_at_def byte_less_256)
  then have "le16 bs i = byte_at bs (2 * i) + 256 * byte_at bs (2 * i + 1)" for i
    using or_eq_add_nat [of "byte_at bs (2 * i)" 8 "byte_at bs (2 * i + 1)"] by (simp add: le16_def or.commute)
  moreover have "byte_at bs (2 * i) < 256" "byte_at bs (2 * i + 1) < 256" for i by (simp_all add: byte_at_def byte_less_256)
  moreover have "a < 256 \<Longrightarrow> b < 256 \<Longrightarrow> a + 256 * b < (65536 :: nat)" for a b by linarith
  ultimately have bound: "le16 bs i < 65536" for i by metis
  assume "x \<in> set (unpackSigned bs n)"
  then obtain i where "x = (if int (le16 bs i) \<ge> 0x8000 then int (le16 bs i) - 0x10000 else int (le16 bs i))"
    unfolding unpackSigned_def Let_def set_map by blast
  with bound [of i] show "\<bar>x\<bar> \<le> 32768" by simp
qed

text \<open>The sign that \<open>unpackSigned\<close> restores is no matter to decapsulation: \<open>q\<close> divides \<open>65536\<close>, so the two readings of an
  entry agree modulo \<open>q\<close>, the only way its product uses them.\<close>

lemma sign_is_no_matter:
  assumes "resolve v = Inr p" "i < n"
  shows "(a - b * unpackSigned bs n ! i) mod int (fp_q p) = (a - b * int (le16 bs i)) mod int (fp_q p)"
proof -
  have "(2 :: nat) ^ fp_D p dvd 2 ^ 16" using resolved(5) [OF assms(1)] by (rule le_imp_power_dvd)
  then have "fp_q p dvd 65536" using resolved(1) [OF assms(1)] by simp
  then have q: "int (fp_q p) dvd 65536" by (metis int_dvd_int_iff of_nat_numeral)
  have "unpackSigned bs n ! i = int (le16 bs i) \<or> unpackSigned bs n ! i = int (le16 bs i) - 65536"
    using assms(2) by (simp add: unpackSigned_def Let_def)
  then have "int (fp_q p) dvd int (le16 bs i) - unpackSigned bs n ! i" using q by auto
  then have "int (fp_q p) dvd b * (int (le16 bs i) - unpackSigned bs n ! i)" by (rule dvd_mult)
  then show ?thesis by (simp add: mod_eq_dvd_iff right_diff_distrib)
qed

text \<open>C33: every sum is exact in a double.  With noise that \<open>sample\<close> drew, neither the sum of an entry of \<open>A S\<close> after any number
  of terms, nor any entry of the accumulator of \<open>S' A\<close> after any number of rows, nor the sum of an entry of \<open>S' B\<close> reaches
  \<open>2^31\<close>, and none does with the noise that is added to it; and whatever secret key and ciphertext decapsulation is
  given, no sum of an entry of \<open>B' S\<close>, with the entry of \<open>C\<close> that it is taken from, reaches \<open>2^53\<close>.\<close>

theorem accumulations_exact:
  assumes r: "resolve v = Inr p" and m: "m \<le> fp_n p" "i < 8" "j < 8" "t < fp_n p"
  shows "\<bar>row_sum p (rowGenerator xof aes p seedA t) (transposed (sampleMatrix p w 0 (fp_nbar p) (fp_n p)) (fp_nbar p) (fp_n p)) j m\<bar> +
      \<bar>sampleMatrix p w (fp_n p * fp_nbar p) (fp_n p) (fp_nbar p) ! (t * fp_nbar p + j)\<bar> < 2 ^ 31
    \<and> \<bar>accumulator p (rowGenerator xof aes p seedA) (sampleMatrix p w 0 (fp_mbar p) (fp_n p)) m ! (i * fp_n p + t)\<bar> +
      \<bar>sampleMatrix p w (fp_mbar p * fp_n p) (fp_mbar p) (fp_n p) ! (i * fp_n p + t)\<bar> < 2 ^ 31
    \<and> \<bar>entry_sum (sampleMatrix p w 0 (fp_mbar p) (fp_n p)) (fp_n p) (unpack p b (fp_n p) (fp_nbar p)) (fp_nbar p) i j m\<bar> +
      \<bar>sampleMatrix p w (2 * fp_mbar p * fp_n p) (fp_mbar p) (fp_nbar p) ! (i * fp_nbar p + j)\<bar> < 2 ^ 31
    \<and> \<bar>entry_sum (unpack p c1 (fp_mbar p) (fp_n p)) (fp_n p)
        (transposed (unpackSigned sBytes (fp_n p * fp_nbar p)) (fp_nbar p) (fp_n p)) (fp_nbar p) i j m\<bar> +
      \<bar>unpack p c2 (fp_mbar p) (fp_nbar p) ! (i * fp_nbar p + j)\<bar> < 2 ^ 53"
proof -
  note R = resolved [OF r]
  have n: "int m \<le> 1344" using m(1) R(11) by simp
  have pow: "(2 :: int) ^ 31 = 2147483648" "(2 :: int) ^ 53 = 9007199254740992" by simp_all
  have small: "\<bar>x\<bar> + \<bar>e\<bar> < 2 ^ 31" if "\<bar>x\<bar> \<le> int m * (65536 * 12)" "\<bar>e\<bar> \<le> 12" for x e
    unfolding pow using that n by linarith
  have large: "\<bar>x\<bar> + \<bar>e\<bar> < 2 ^ 53" if "\<bar>x\<bar> \<le> int m * (65536 * 32768)" "\<bar>e\<bar> \<le> 65536" for x e
    unfolding pow using that n by linarith
  have noise: "\<bar>sampleMatrix p w ofs rows cols ! (x * cols + y)\<bar> \<le> 12" if "x < rows" "y < cols" for ofs rows cols x y
    using mat_index [OF that] by (simp add: sampleMatrix_nth sample_bound [OF r])
  have S: "\<bar>transposed (sampleMatrix p w 0 (fp_nbar p) (fp_n p)) (fp_nbar p) (fp_n p) ! (k * fp_nbar p + j)\<bar> \<le> 12" if "k < m" for k
    using that m R mat_index [of j 8 k "fp_n p"] by (simp add: transposed_nth sampleMatrix_nth sample_bound [OF r])
  have T: "\<bar>transposed (unpackSigned sBytes (fp_n p * fp_nbar p)) (fp_nbar p) (fp_n p) ! (k * fp_nbar p + j)\<bar> \<le> 32768" if "k < m" for k
    using that m R mat_index [of j 8 k "fp_n p"]
    by (simp add: transposed_nth unpackSigned_bound [where n = "fp_n p * 8" and bs = sBytes] unpackSigned_def)
  have A: "0 \<le> rowGenerator xof aes p seedA x ! k \<and> rowGenerator xof aes p seedA x ! k < int (fp_q p)" if "k < fp_n p" for k x
    using that rowGenerator_range [OF R(12) nth_mem, of k xof aes seedA x] by simp
  have U: "0 \<le> unpack p b rows cols ! (x * cols + y) \<and> unpack p b rows cols ! (x * cols + y) < int (fp_q p)"
    if "x < rows" "y < cols" for b rows cols x y
    using mat_index [OF that] unpack_range [OF nth_mem, of "x * cols + y" p b rows cols] R(1) by simp
  have 1: "\<bar>row_sum p (rowGenerator xof aes p seedA t) (transposed (sampleMatrix p w 0 (fp_nbar p) (fp_n p)) (fp_nbar p) (fp_n p)) j m\<bar> \<le>
      int m * (65536 * 12)"
    unfolding row_sum_def using A S R(13) m(1) by (intro accumulate_bound product_bound) auto
  have "\<bar>rowGenerator xof aes p seedA k ! t * sampleMatrix p w 0 (fp_mbar p) (fp_n p) ! (i * fp_n p + k)\<bar> \<le> 65536 * 12"
    if "k < m" for k
    using A [OF m(4)] noise [of i "fp_mbar p" k "fp_n p" 0] that m R by (intro product_bound) auto
  then have "\<bar>accumulate m (\<lambda>k. sampleMatrix p w 0 (fp_mbar p) (fp_n p) ! (i * fp_n p + k) * rowGenerator xof aes p seedA k ! t)\<bar> \<le>
      int m * (65536 * 12)"
    by (intro accumulate_bound) (simp add: mult.commute)
  then have 2: "\<bar>accumulator p (rowGenerator xof aes p seedA) (sampleMatrix p w 0 (fp_mbar p) (fp_n p)) m ! (i * fp_n p + t)\<bar> \<le>
      int m * (65536 * 12)"
    using m R by (simp add: accumulated_rows mat_nth accumulate_sum)
  have "\<bar>unpack p b (fp_n p) (fp_nbar p) ! (k * fp_nbar p + j) * sampleMatrix p w 0 (fp_mbar p) (fp_n p) ! (i * fp_n p + k)\<bar> \<le> 65536 * 12"
    if "k < m" for k
    using U [of k "fp_n p" j "fp_nbar p" b] noise [of i "fp_mbar p" k "fp_n p" 0] that m R by (intro product_bound) auto
  then have 3: "\<bar>entry_sum (sampleMatrix p w 0 (fp_mbar p) (fp_n p)) (fp_n p) (unpack p b (fp_n p) (fp_nbar p)) (fp_nbar p) i j m\<bar> \<le>
      int m * (65536 * 12)"
    unfolding entry_sum_def by (intro accumulate_bound) (simp add: mult.commute)
  have 4: "\<bar>entry_sum (unpack p c1 (fp_mbar p) (fp_n p)) (fp_n p)
        (transposed (unpackSigned sBytes (fp_n p * fp_nbar p)) (fp_nbar p) (fp_n p)) (fp_nbar p) i j m\<bar> \<le> int m * (65536 * 32768)"
    unfolding entry_sum_def using U [of i "fp_mbar p" _ "fp_n p" c1] T R m
    by (intro accumulate_bound product_bound) auto
  have "\<bar>unpack p c2 (fp_mbar p) (fp_nbar p) ! (i * fp_nbar p + j)\<bar> \<le> 65536"
    using U [of i "fp_mbar p" j "fp_nbar p" c2] R(6,7,13) m by linarith
  with small [OF 1] small [OF 2] small [OF 3] large [OF 4] show ?thesis using m R by (simp add: noise)
qed

theorem accumulations_exact_witness:
  "\<bar>accumulator (projr (resolve ''FrodoKEM-640-AES'')) (rowGenerator zero_xof (\<lambda>k d. d) (projr (resolve ''FrodoKEM-640-AES'')) [])
      (sampleMatrix (projr (resolve ''FrodoKEM-640-AES'')) [65535, 7] 0 8 640) 640 ! (7 * 640 + 639)\<bar> +
    \<bar>sampleMatrix (projr (resolve ''FrodoKEM-640-AES'')) [65535, 7] (8 * 640) 8 640 ! (7 * 640 + 639)\<bar> < 2 ^ 31"
proof -
  define p where "p = projr (resolve ''FrodoKEM-640-AES'')"
  have r: "resolve ''FrodoKEM-640-AES'' = Inr p" and n: "fp_n p = 640" "fp_nbar p = 8" "fp_mbar p = 8"
    by (simp_all add: p_def resolve_def match_variant_def before_def after_def SETS_def Let_def)
  have "\<bar>accumulator p (rowGenerator zero_xof (\<lambda>k d. d) p []) (sampleMatrix p [65535, 7] 0 (fp_mbar p) (fp_n p)) 640 ! (7 * fp_n p + 639)\<bar> +
      \<bar>sampleMatrix p [65535, 7] (fp_mbar p * fp_n p) (fp_mbar p) (fp_n p) ! (7 * fp_n p + 639)\<bar> < 2 ^ 31"
    by (rule accumulations_exact [OF r, where j = 0, THEN conjunct2, THEN conjunct1]) (simp_all add: n)
  then show ?thesis by (simp only: r n sum.sel)
qed

end
