(* ===== verification/Spec2Isabelle.thy ===== *)
theory Spec2Isabelle
  imports Krb5_Exchange Krb5_Client_Ap Krb5_Delegation Krb5_Keytab Cbor Hbs_Xmss_Key Ssf_Receiver Ssf_Subjects_Laws
    Caep_Page_Laws Risc_Page_Laws Frodo_Kem_Laws
begin

text \<open>
  A verification of the protocol core of the identity-protocol debugger: the code that reads, writes, encrypts, signs,
  relays and simulates, as opposed to the pages that display it.  File names are relative to \<open>src/\<close>.

  \<^bold>\<open>The program and how its parts interact.\<close>  The debugger is a set of browser pages (\<open>client/src\<close>), a service that makes the calls
  a page cannot make (\<open>api\<close>), and code both share (\<open>common\<close>).

  \<^item> \<^emph>\<open>Kerberos.\<close>  A page writes a message with \<open>common/krb5/krb5_messages.js\<close>, which stands on the DER codec
    (\<open>krb5_asn1.js\<close>) and on byte helpers (\<open>krb5_primitives.js\<close>).  The service checks it (\<open>api/krb5_frame.js\<close>), resolves and
    judges the address (\<open>api/ssrf_guard.js\<close>) and carries it to the KDC and back (\<open>api/krb5_relay.js\<close>).  What is encrypted inside a
    message goes through \<open>krb5_crypto.js\<close>; services speak GSS tokens (\<open>krb5_gss.js\<close>); long-term keys come from keytab files
    (\<open>krb5_keytab.js\<close>).  The flows of a client (\<open>krb5_client.js\<close>) put these together: the AS and TGS requests and the checks on their
    replies, the AP exchange with a service, delegated credentials.
  \<^item> \<^emph>\<open>Shared signals.\<close>  Events are built and checked by \<open>client/src/ssf_events.js\<close>, their subjects by \<open>ssf_client.js\<close>.  The panes of
    \<open>ssf.js\<close> simulate a CAEP session (\<open>caep_session.js\<close>) and a RISC account (\<open>risc_account.js\<close>), which may start from a session handed
    over by a sign-in page (\<open>session_handoff.js\<close>); pushed events arrive at \<open>api/ssf_receiver.js\<close>, which the page polls.
  \<^item> \<^emph>\<open>Cryptography of the tool pages.\<close>  The repository's own post-quantum code: LMS, HSS, XMSS and XMSS^MT (\<open>client/src/hbs.js\<close>) and
    FrodoKEM (\<open>frodokem.js\<close>).  The WebAuthn pages read CBOR (\<open>cbor.js\<close>).

  \<^bold>\<open>Conventions.\<close>  A \<open>Uint8Array\<close> is a list of 8-bit words, a string a list of UTF-16 units where the units matter and a HOL string
  where the code accepts ASCII only, a JavaScript number an integer or a natural where the code keeps it whole.  A \<open>throw\<close> is the
  \<open>Inl\<close> of a sum, with a constructor per message and the values the message names; \<open>rbind\<close> is sequencing and \<open>rmap\<close> is \<open>map\<close> with
  a function that may throw.  An object with fixed members is a record with the same members, \<open>null\<close> and \<open>undefined\<close> are \<open>None\<close>.
  Functions keep the names of the source.  Logging and the texts of messages are left out.

  \<^bold>\<open>Interfaces\<close> are locales, each interpreted on the code's own definitions: \<open>element_reader\<close>, \<open>element_codec\<close>, \<open>cursor_reader\<close> and
  \<open>priced_reader\<close> (\<open>Reader_Interfaces\<close>: DER, keytab, CBOR), \<open>der_codec\<close> (\<open>Krb5_Records\<close>: one interpretation per Kerberos structure),
  \<open>encryption_profile\<close> and \<open>sealing\<close> (\<open>Krb5_Crypto\<close>, \<open>Krb5_Gss\<close>: the encryption types), \<open>address_policy\<close> (\<open>Ssrf_Guard\<close>),
  \<open>one_shot\<close>, \<open>deadline_shot\<close> and \<open>stream_framing\<close> (\<open>Krb5_Relay\<close>), \<open>bounded_log\<close> (\<open>Bounded_Logs\<close>: the inbox and the event lists),
  \<open>winternitz\<close> and \<open>merkle_tree\<close> (\<open>Hash_Trees\<close>: both signature families), \<open>bit_order\<close> (\<open>Frodo_Bits\<close>) and \<open>error_distribution\<close>
  (\<open>Frodo_Params\<close>).

  \<^bold>\<open>Theories.\<close>

  \<^item> \<open>Prelude\<close>, \<open>Js_Strings\<close>, \<open>Js_Values\<close>: sequencing, bytes and numbers, the string functions and the JSON values of the language.
  \<^item> \<open>Krb5_Primitives\<close>, \<open>Krb5_Digest\<close>: UTF-8 and UTF-16LE, hex, comparison, n-fold, RC4; MD4, MD5, HMAC-MD5.  The UTF-8 decoder
    accepts exactly the encoder's image.
  \<^item> \<open>Krb5_Asn1\<close>, \<open>Krb5_Asn1_Laws\<close>, \<open>Krb5_Time\<close>: the DER writer and bounded reader, the structural tree, KerberosTime over the calendar
    that ECMA-262 gives \<open>Date\<close>.  Elements round trip in any context and tile what they were read from; INTEGERs are the shortest;
    the times that survive are characterised.
  \<^item> \<open>Krb5_Records\<close>, \<open>Krb5_Messages\<close>, \<open>Krb5_Replies\<close>: every structure and message of RFC 4120 the code has, with its writer and reader.
    \<open>Krb5_Messages_Laws\<close>, \<open>Krb5_Replies_Laws\<close>: each is a \<open>der_codec\<close>, so what a reader can return survives its writer.
    \<open>Krb5_Wire\<close>: the wire form of a record, what its bytes can carry of it (times to the second, flags in the order of the table,
    empty optional lists as absent); writing a record is writing its wire form.  \<open>Krb5_Tickets\<close>: a ticket is relayed byte for byte,
    the salt of a pre-authentication error arrives, credentials are read back as their wire form.
  \<^item> \<open>Krb5_Frame\<close>, \<open>Ssrf_Address\<close>, \<open>Ssrf_Guard\<close>, \<open>Krb5_Relay\<close>, \<open>Krb5_Exchange\<close>: the pre-flights and framing, addresses, ranges and the
    guard, the relay as event machines with deadlines, and the exchange from the writer to the reader.  The relay connects only as
    the guard and the port lists allow, settles exactly once, and delivers a reply however TCP cuts it.
  \<^item> \<open>Krb5_Crypto\<close>, \<open>Krb5_Gss\<close>, \<open>Krb5_Keytab\<close>: the five encryption types, MIC and Wrap tokens, keytab files; round trips, what RC4-HMAC
    accepts, and what \<open>unwrap\<close> fails to compare.
  \<^item> \<open>Krb5_Names\<close>, \<open>Krb5_Client\<close>, \<open>Krb5_Client_Laws\<close>, \<open>Krb5_Client_Tgs\<close>, \<open>Krb5_Client_Ap\<close>, \<open>Krb5_Delegation\<close>: the numbers of the tables
    and the requests, authenticators and checks of \<open>krb5_client.js\<close>; what each peer reads from what the other sealed, and the
    credential that delegation hands over.
  \<^item> \<open>Cbor\<close>: the reader, bounded in size and depth by its input, and its round trip from a deterministic encoding.
  \<^item> \<open>Hbs_Params\<close>, \<open>Hbs_Lms\<close>, \<open>Hbs_Hss\<close>, \<open>Hbs_Xmss\<close>, \<open>Hbs_Xmss_Laws\<close>, \<open>Hbs_Xmss_Key\<close>: parameter sets, one-time signatures, trees, keys and
    stateful signing; signatures verify and one-time keys are not reused, except where the code does reuse one.
  \<^item> \<open>Frodo_Params\<close>, \<open>Frodo_Bits\<close>, \<open>Frodo_Kem\<close>, \<open>Frodo_Kem_Laws\<close>: the tables, packing, the row-wise products and the mechanism;
    decapsulation recovers the key exactly when the noise fits, and otherwise rejects implicitly.
  \<^item> \<open>Ssf_Receiver\<close>, \<open>Ssf_Events\<close>, \<open>Ssf_Events_Laws\<close>, \<open>Ssf_Subjects\<close>, \<open>Ssf_Subjects_Laws\<close>: the inboxes and the page's polling, the event
    catalogue, subject identifiers against a grammar.
  \<^item> \<open>Session_Handoff\<close>, \<open>Session_Handoff_Laws\<close>, \<open>Simulated_Events\<close>, \<open>Caep_Session\<close>, \<open>Caep_Page\<close>, \<open>Caep_Page_Laws\<close>, \<open>Risc_Account\<close>,
    \<open>Risc_Page\<close>, \<open>Risc_Page_Laws\<close>: the hand-off refines a machine of three states; the session and the account as records, the
    panes as machines over them with their invariants.
  \<^item> This theory: what spans the components of the shared-signals pages.

  \<^bold>\<open>Bounds and recursion.\<close>  Every recursion has a termination proof or is structural; there is no fuel except the depth limits the code
  itself has (32 for DER, \<open>MAX_DEPTH\<close> of the CBOR reader), which are part of the model and appear in the theorems, as do its
  size limits (2 MiB for a message, 64 KiB for a request).  The generation count of an HSS key wraps at 2 ^ 32 as its stored form
  does, and the theorem on its one-time keys is stated below that.  INTEGERs are exact to 48 bits, the reader's own limit.  Bytes, the 32-bit
  words of the digests and the 16-bit words of FrodoKEM wrap as the code's do; the accumulations of FrodoKEM, the added
  error and ciphertext terms included, are proved exact in a double.

  \<^bold>\<open>Parameters.\<close>  Code outside the repository is an argument: Web Crypto (\<open>webcrypto\<close>), the hash functions of the noble library, SHAKE and AES
  of FrodoKEM, random bytes, clocks, the URL parser, the resolver's answers and the socket's events, the store of the
  browser, the push of an event and what decoding JSON yields.  Where a property needs a documented fact of one (AES-CBC decrypts what it
  encrypted; a digest has its length; HMAC refuses an empty key and returns a digest for every other), the fact is a named
  hypothesis with a witness.  The handler that takes a polled event may throw, and the page then loses the rest of that answer:
  \<open>throws\<close> says on which tokens.

  \<^bold>\<open>Known limits\<close> of definitions, where the code behaves otherwise in a corner: a look-up in the event catalogue by a name that every JavaScript
  object inherits (\<open>constructor\<close>, \<open>toString\<close>) is unknown in the model and throws in the code; the settings of the receiver are
  taken as whole numbers, as documented; a full browser store refuses an item as a whole; an empty answer of the resolver settles
  the relay with an error, where the code throws in the callback.

  \<^bold>\<open>Not modelled\<close>, with the reasons in the manifest: the pages themselves (OAuth 2.0 and OpenID Connect, SAML, WS-Federation,
  WS-Trust, SCIM, verifiable credentials, PKI, the tool pages), which work on the DOM; the Express routes and the thin clients of
  the service; XML signatures, JOSE, COSE and X.509, which are mostly calls of third-party libraries; the PAC and SPNEGO readers, the
  descriptions of Kerberos; SPIFFE.  In modelled files only what is for display is left out: \<open>toPlain\<close> of
  \<open>cbor.js\<close>, \<open>describeHss\<close> and \<open>describeXmss\<close> of \<open>hbs.js\<close>, the names and prose beside numbers in \<open>krb5_messages.js\<close>, the prose of
  the catalogues.
\<close>

subsection \<open>Subjects of the events\<close>

lemma iss_sub_simple:
  "simple_subject (JObj [(''format'', JStr ''iss_sub''), (''iss'', JStr i), (''sub'', JStr s)]) \<longleftrightarrow> ABSOLUTE_URI i \<and> s \<noteq> []"
proof -
  have "SUBJECT_FORMAT_BY_NAME ''iss_sub'' =
      Some \<lparr>sf_format = ''iss_sub'', sf_members = [''iss'', ''sub''], sf_required = [''iss'', ''sub'']\<rparr>"
    by (simp add: SUBJECT_FORMAT_BY_NAME_def SUBJECT_FORMATS_def)
  moreover have "ABSOLUTE_URI i \<Longrightarrow> i \<noteq> []" by (auto simp: ABSOLUTE_URI_def)
  ultimately show ?thesis by (auto simp: simple_subject_object value_ok_def SUBJECT_VALUE_RULES_def)
qed

lemma opaque_simple: "simple_subject (JObj [(''format'', JStr ''opaque''), (''id'', JStr i)]) \<longleftrightarrow> i \<noteq> []"
proof -
  have "SUBJECT_FORMAT_BY_NAME ''opaque'' = Some \<lparr>sf_format = ''opaque'', sf_members = [''id''], sf_required = [''id'']\<rparr>"
    by (simp add: SUBJECT_FORMAT_BY_NAME_def SUBJECT_FORMATS_def)
  then show ?thesis by (auto simp: simple_subject_object value_ok_def SUBJECT_VALUE_RULES_def)
qed

text \<open>The complex subject that the CAEP pane builds passes the grammar of \<open>ssf_client.js\<close> exactly if at least one member is
  included, the user, when included, has an absolute issuer and a subject, and the session, when included, has an identifier.\<close>

theorem caep_subject_accepted:
  "subject_ok (JObj (complexSubject s (caepSubjectOptions form))) []
   \<longleftrightarrow> (cf_include_user form \<or> cf_include_session form \<or> (cf_include_device form \<and> cs_deviceId s \<noteq> [])
          \<or> (cf_include_tenant form \<and> cs_tenant s \<noteq> []))
       \<and> (cf_include_user form \<longrightarrow> ABSOLUTE_URI (cs_iss s) \<and> cs_sub s \<noteq> [])
       \<and> (cf_include_session form \<longrightarrow> cs_sid s \<noteq> [])"
proof -
  have f: "own (complexSubject s (caepSubjectOptions form)) ''format'' = Some (JStr ''complex'')"
    by (simp add: complexSubject_def)
  show ?thesis
    unfolding complex_accepts_exactly [OF f]
    by (auto simp: complex_members_def complexSubject_def caepSubjectOptions_def iss_sub_simple opaque_simple)
qed

lemma caep_subject_accepted_witness:
  "subject_ok (JObj (complexSubject (caepFromFields 1 [] [] Caep_Page_Laws.sample_form None)
     (caepSubjectOptions Caep_Page_Laws.sample_form))) []"
  unfolding caep_subject_accepted
  by (simp add: caepFromFields_def Caep_Page_Laws.sample_form_def ABSOLUTE_URI_def before_def after_def no_space_def
      is_lower_def is_alnum_def is_space_def)

end
